(* ===== verification/Dekopon_Prelude.thy ===== *)
theory Dekopon_Prelude
  imports Main "HOL-Library.Char_ord" "HOL-Library.List_Lexorder"
begin

text \<open>
  Shared vocabulary of the development: the parts of Rust and of its standard library that the
  modelled crates use. Unsigned integers are naturals with their ceiling written out
  (\<open>saturating_*\<close>, \<open>checked_*\<close>); signed integers are \<open>int\<close> with the two's complement
  wrap-around of a release build written out (\<open>wrap_i64\<close>, \<open>wrap_i128\<close>); a
  \<open>Duration\<close> is a number of nanoseconds; a \<open>String\<close> is the list of its UTF-8 bytes.
  \<open>Result<T, E>\<close> is the sum \<open>'e + 't\<close> and the question mark operator is \<open>res_bind\<close>.
\<close>

named_theorems rust_num \<open>definitions of the integer operations\<close>
named_theorems res_simps \<open>rewriting of results\<close>

section \<open>Results\<close>

type_synonym ('e, 'a) result = "'e + 'a"

definition res_bind :: "('e, 'a) result \<Rightarrow> ('a \<Rightarrow> ('e, 'b) result) \<Rightarrow> ('e, 'b) result" where
  "res_bind r f = (case r of Inl e \<Rightarrow> Inl e | Inr x \<Rightarrow> f x)"

definition map_err :: "('e \<Rightarrow> 'f) \<Rightarrow> ('e, 'a) result \<Rightarrow> ('f, 'a) result" where
  "map_err g r = (case r of Inl e \<Rightarrow> Inl (g e) | Inr x \<Rightarrow> Inr x)"

definition ok_or :: "'e \<Rightarrow> 'a option \<Rightarrow> ('e, 'a) result" where
  "ok_or e x = (case x of None \<Rightarrow> Inl e | Some v \<Rightarrow> Inr v)"

definition is_ok :: "('e, 'a) result \<Rightarrow> bool" where
  "is_ok r = (case r of Inl _ \<Rightarrow> False | Inr _ \<Rightarrow> True)"

text \<open>Runs a fallible check over a list and stops at the first error, as a \<open>for\<close> loop
  with \<open>?\<close> in its body does.\<close>

fun for_each :: "('a \<Rightarrow> ('e, unit) result) \<Rightarrow> 'a list \<Rightarrow> ('e, unit) result" where
  "for_each f [] = Inr ()"
| "for_each f (x # xs) = res_bind (f x) (\<lambda>_. for_each f xs)"

text \<open>\<open>iter().map(f).collect::<Result<Vec<_>, _>>()\<close>.\<close>

fun collect_results :: "('a \<Rightarrow> ('e, 'b) result) \<Rightarrow> 'a list \<Rightarrow> ('e, 'b list) result" where
  "collect_results f [] = Inr []"
| "collect_results f (x # xs) =
     res_bind (f x) (\<lambda>y. res_bind (collect_results f xs) (\<lambda>ys. Inr (y # ys)))"

lemma res_bind_Inl [simp]: "res_bind (Inl e) f = Inl e"
  by (simp add: res_bind_def)

lemma res_bind_Inr [simp]: "res_bind (Inr x) f = f x"
  by (simp add: res_bind_def)

lemma res_bind_eq_Inr [res_simps]:
  "res_bind r f = Inr y \<longleftrightarrow> (\<exists>x. r = Inr x \<and> f x = Inr y)"
  by (cases r) (auto simp: res_bind_def)

lemma map_err_simps [simp]: "map_err g (Inl e) = Inl (g e)" "map_err g (Inr x) = Inr x"
  by (simp_all add: map_err_def)

lemma map_err_eq_Inr [res_simps]: "map_err g r = Inr y \<longleftrightarrow> r = Inr y"
  by (cases r) (auto simp: map_err_def)

lemma ok_or_simps [simp]: "ok_or e None = Inl e" "ok_or e (Some v) = Inr v"
  by (simp_all add: ok_or_def)

lemma ok_or_eq_Inr [res_simps]: "ok_or e x = Inr v \<longleftrightarrow> x = Some v"
  by (cases x) (auto simp: ok_or_def)

lemma ok_or_eq_Inl [res_simps]: "ok_or e x = Inl e' \<longleftrightarrow> x = None \<and> e' = e"
  by (cases x) (auto simp: ok_or_def)

lemma is_ok_simps [simp]: "is_ok (Inl e) = False" "is_ok (Inr x) = True"
  by (simp_all add: is_ok_def)

lemma is_ok_iff: "is_ok r \<longleftrightarrow> (\<exists>x. r = Inr x)"
  by (cases r) auto

lemma for_each_ok [res_simps]:
  "for_each f xs = Inr u \<longleftrightarrow> (\<forall>x \<in> set xs. f x = Inr ())"
  by (induction xs) (auto simp: res_bind_eq_Inr)

lemma collect_results_ok:
  "collect_results f xs = Inr ys \<longleftrightarrow> list_all2 (\<lambda>x y. f x = Inr y) xs ys"
proof (induction xs arbitrary: ys)
  case Nil
  then show ?case by auto
next
  case (Cons x xs)
  then show ?case by (cases ys) (auto simp: res_bind_eq_Inr)
qed

section \<open>Results with a state\<close>

text \<open>A method on \<open>&mut self\<close> that may fail gives the state it leaves and its result; \<open>?\<close> goes on
  with both, or ends with the state as it is.\<close>

definition state_bind ::
  "'s \<times> ('e, 'a) result \<Rightarrow> ('s \<Rightarrow> 'a \<Rightarrow> 's \<times> ('e, 'b) result) \<Rightarrow> 's \<times> ('e, 'b) result" where
  "state_bind m f = (case m of (s, Inl e) \<Rightarrow> (s, Inl e) | (s, Inr x) \<Rightarrow> f s x)"

lemma state_bind_simps [simp]: "state_bind (s, Inl e) f = (s, Inl e)" "state_bind (s, Inr x) f = f s x"
  by (simp_all add: state_bind_def)

lemma state_bind_ok [res_simps]:
  "state_bind m f = (t, Inr y) \<longleftrightarrow> (\<exists>s x. m = (s, Inr x) \<and> f s x = (t, Inr y))"
  by (auto simp: state_bind_def split: prod.splits sum.splits)

text \<open>What holds of the state however it ends.\<close>

lemma state_bind_pure:
  assumes "P s" "\<And>x. r = Inr x \<Longrightarrow> P (fst (f s x))"
  shows "P (fst (state_bind (s, r) f))"
  using assms by (cases r) simp_all

lemma state_bind_state:
  assumes "P (fst m)" "\<And>s x. m = (s, Inr x) \<Longrightarrow> P s \<Longrightarrow> P (fst (f s x))"
  shows "P (fst (state_bind m f))"
  using assms by (auto simp: state_bind_def split: prod.splits sum.splits)

section \<open>Unsigned integers\<close>

definition u64_max :: nat where "u64_max = 2 ^ 64 - 1"
definition u128_max :: nat where "u128_max = 2 ^ 128 - 1"
definition i64_max :: int where "i64_max = 2 ^ 63 - 1"
definition i64_min :: int where "i64_min = - (2 ^ 63)"
definition i128_max :: int where "i128_max = 2 ^ 127 - 1"
definition i128_min :: int where "i128_min = - (2 ^ 127)"

definition saturating_add :: "nat \<Rightarrow> nat \<Rightarrow> nat" where
  "saturating_add a b = min (a + b) u64_max"

definition saturating_mul :: "nat \<Rightarrow> nat \<Rightarrow> nat" where
  "saturating_mul a b = min (a * b) u64_max"

text \<open>Truncated subtraction of naturals is Rust's \<open>saturating_sub\<close> on unsigned integers.\<close>

definition saturating_sub :: "nat \<Rightarrow> nat \<Rightarrow> nat" where
  "saturating_sub a b = a - b"

definition checked_add :: "nat \<Rightarrow> nat \<Rightarrow> nat option" where
  "checked_add a b = (if a + b \<le> u64_max then Some (a + b) else None)"

definition checked_sub :: "nat \<Rightarrow> nat \<Rightarrow> nat option" where
  "checked_sub a b = (if b \<le> a then Some (a - b) else None)"

definition checked_mul :: "nat \<Rightarrow> nat \<Rightarrow> nat option" where
  "checked_mul a b = (if a * b \<le> u64_max then Some (a * b) else None)"

definition div_ceil :: "nat \<Rightarrow> nat \<Rightarrow> nat" where
  "div_ceil a b = a div b + (if a mod b = 0 then 0 else 1)"

lemma saturating_add_le: "saturating_add a b \<le> u64_max" "saturating_add a b \<le> a + b"
  by (simp_all add: saturating_add_def)

lemma saturating_add_exact: "a + b \<le> u64_max \<Longrightarrow> saturating_add a b = a + b"
  by (simp add: saturating_add_def)

lemma checked_add_Some [res_simps]:
  "checked_add a b = Some c \<longleftrightarrow> c = a + b \<and> a + b \<le> u64_max"
  by (auto simp: checked_add_def)

lemma checked_sub_Some [res_simps]: "checked_sub a b = Some c \<longleftrightarrow> c = a - b \<and> b \<le> a"
  by (auto simp: checked_sub_def)

lemma checked_mul_Some [res_simps]:
  "checked_mul a b = Some c \<longleftrightarrow> c = a * b \<and> a * b \<le> u64_max"
  by (auto simp: checked_mul_def)

lemma div_ceil_mult: "div_ceil a b * b = a div b * b + (if a mod b = 0 then 0 else b)"
  by (simp add: div_ceil_def add_mult_distrib)

lemma div_ceil_upper: "0 < b \<Longrightarrow> a \<le> div_ceil a b * b"
proof (cases "a mod b = 0")
  case True
  then show ?thesis unfolding div_ceil_mult by (simp add: mod_eq_0_iff_dvd)
next
  case False
  assume "0 < b"
  then have "a mod b < b" by (rule mod_less_divisor)
  with div_mult_mod_eq [of a b] have "a \<le> a div b * b + b" by linarith
  with False show ?thesis unfolding div_ceil_mult by simp
qed

lemma div_ceil_lower: "0 < b \<Longrightarrow> div_ceil a b * b < a + b"
proof (cases "a mod b = 0")
  case True
  assume "0 < b"
  with True show ?thesis unfolding div_ceil_mult by (simp add: mod_eq_0_iff_dvd)
next
  case False
  with div_mult_mod_eq [of a b] have "a div b * b < a" by linarith
  with False show ?thesis unfolding div_ceil_mult by simp
qed

section \<open>Signed integers\<close>

definition wrap_i64 :: "int \<Rightarrow> int" where
  "wrap_i64 x = (x + 2 ^ 63) mod 2 ^ 64 - 2 ^ 63"

definition wrap_i128 :: "int \<Rightarrow> int" where
  "wrap_i128 x = (x + 2 ^ 127) mod 2 ^ 128 - 2 ^ 127"

definition clamp_i64 :: "int \<Rightarrow> int" where
  "clamp_i64 x = max i64_min (min i64_max x)"

definition clamp_i128 :: "int \<Rightarrow> int" where
  "clamp_i128 x = max i128_min (min i128_max x)"

definition in_i64 :: "int \<Rightarrow> bool" where
  "in_i64 x \<longleftrightarrow> i64_min \<le> x \<and> x \<le> i64_max"

definition in_i128 :: "int \<Rightarrow> bool" where
  "in_i128 x \<longleftrightarrow> i128_min \<le> x \<and> x \<le> i128_max"

text \<open>Rust divides integers towards zero (\<open>/\<close>); \<open>div_euclid\<close> by a positive divisor is
  Isabelle's \<open>div\<close>.\<close>

definition trunc_div :: "int \<Rightarrow> int \<Rightarrow> int" where
  "trunc_div a b = sgn a * sgn b * (\<bar>a\<bar> div \<bar>b\<bar>)"

text \<open>\<open>u64::try_from(x).unwrap_or(d)\<close> and its kin.\<close>

definition u64_try_from :: "int \<Rightarrow> nat option" where
  "u64_try_from x = (if 0 \<le> x \<and> x \<le> int u64_max then Some (nat x) else None)"

definition i64_try_from :: "int \<Rightarrow> int option" where
  "i64_try_from x = (if in_i64 x then Some x else None)"

text \<open>\<open>Instant::checked_add\<close>, in nanoseconds: the seconds fit an \<open>i64\<close>.\<close>

definition instant_checked_add :: "nat \<Rightarrow> nat \<Rightarrow> nat option" where
  "instant_checked_add t d = (if int ((t + d) div 10 ^ 9) \<le> i64_max then Some (t + d) else None)"

definition unwrap_or :: "'a \<Rightarrow> 'a option \<Rightarrow> 'a" where
  "unwrap_or d x = (case x of None \<Rightarrow> d | Some v \<Rightarrow> v)"

lemma unwrap_or_simps [simp]: "unwrap_or d None = d" "unwrap_or d (Some v) = v"
  by (simp_all add: unwrap_or_def)

lemma wrap_i64_exact: "in_i64 x \<Longrightarrow> wrap_i64 x = x"
  by (simp add: wrap_i64_def in_i64_def i64_min_def i64_max_def)

lemma wrap_i64_range: "in_i64 (wrap_i64 x)"
  using pos_mod_bound [of "2 ^ 64" "x + 2 ^ 63"] pos_mod_sign [of "2 ^ 64" "x + 2 ^ 63"]
  by (simp add: wrap_i64_def in_i64_def i64_min_def i64_max_def)

lemma wrap_i128_exact: "in_i128 x \<Longrightarrow> wrap_i128 x = x"
  by (simp add: wrap_i128_def in_i128_def i128_min_def i128_max_def)

lemma clamp_i64_exact: "in_i64 x \<Longrightarrow> clamp_i64 x = x"
  by (simp add: clamp_i64_def in_i64_def)

lemma clamp_i128_exact: "in_i128 x \<Longrightarrow> clamp_i128 x = x"
  by (simp add: clamp_i128_def in_i128_def)

lemma trunc_div_pos: "0 \<le> a \<Longrightarrow> 0 < b \<Longrightarrow> trunc_div a b = a div b"
  by (cases "a = 0") (simp_all add: trunc_div_def)

declare u64_max_def [rust_num] i64_max_def [rust_num] i64_min_def [rust_num]
  i128_max_def [rust_num] i128_min_def [rust_num] u128_max_def [rust_num]
  in_i64_def [rust_num] in_i128_def [rust_num]

section \<open>Chunks of a slice\<close>

text \<open>\<open>chunks(n)\<close>: runs of \<open>n\<close> elements, the last of which may be shorter. The code never asks for
  runs of no element.\<close>

fun chunks_of :: "nat \<Rightarrow> 'a list \<Rightarrow> 'a list list" where
  "chunks_of n [] = []"
| "chunks_of n (x # xs) = take (Suc (n - 1)) (x # xs) # chunks_of n (drop (n - 1) xs)"

lemma concat_chunks_of [simp]: "concat (chunks_of n xs) = xs"
  by (induction n xs rule: chunks_of.induct) simp_all

lemma chunks_of_empty [simp]: "chunks_of n xs = [] \<longleftrightarrow> xs = []"
  by (cases xs) simp_all

lemma chunk_size: "c \<in> set (chunks_of n xs) \<Longrightarrow> 0 < n \<Longrightarrow> c \<noteq> [] \<and> length c \<le> n"
  by (induction n xs rule: chunks_of.induct) auto

end
