(* ===== verification/Rust_Text.thy ===== *)
theory Rust_Text
  imports Dekopon_Prelude
begin

text \<open>
  Rust's strings: the list of UTF-8 bytes of a \<open>str\<close>, with the methods of \<open>str\<close>,
  \<open>char\<close> and \<open>u8\<close> the modelled crates call (\<open>is_ascii_*\<close>, \<open>char_indices\<close>,
  \<open>trim\<close>, \<open>split\<close>, \<open>strip_prefix\<close>, \<open>to_ascii_lowercase\<close>,
  \<open>parse::<u64>\<close>, \<open>to_string\<close>) and the round trips between splitting and joining and
  between printing and parsing decimals. Strings are ordered bytewise, as in Rust.
\<close>

named_theorems ascii \<open>character classes\<close>

section \<open>Byte classes\<close>

abbreviation byte :: "char \<Rightarrow> nat" where "byte \<equiv> of_char"

definition is_ascii_lowercase :: "char \<Rightarrow> bool" where
  [ascii]: "is_ascii_lowercase c \<longleftrightarrow> 97 \<le> byte c \<and> byte c \<le> 122"

definition is_ascii_uppercase :: "char \<Rightarrow> bool" where
  [ascii]: "is_ascii_uppercase c \<longleftrightarrow> 65 \<le> byte c \<and> byte c \<le> 90"

definition is_ascii_digit :: "char \<Rightarrow> bool" where
  [ascii]: "is_ascii_digit c \<longleftrightarrow> 48 \<le> byte c \<and> byte c \<le> 57"

definition is_ascii_alphanumeric :: "char \<Rightarrow> bool" where
  [ascii]: "is_ascii_alphanumeric c \<longleftrightarrow>
     is_ascii_lowercase c \<or> is_ascii_uppercase c \<or> is_ascii_digit c"

definition is_ascii_control :: "char \<Rightarrow> bool" where
  [ascii]: "is_ascii_control c \<longleftrightarrow> byte c < 32 \<or> byte c = 127"

text \<open>Space, tab, line feed, form feed and carriage return (not vertical tab).\<close>

definition is_ascii_whitespace :: "char \<Rightarrow> bool" where
  [ascii]: "is_ascii_whitespace c \<longleftrightarrow> byte c \<in> {9, 10, 12, 13, 32}"

definition is_ascii_graphic :: "char \<Rightarrow> bool" where
  [ascii]: "is_ascii_graphic c \<longleftrightarrow> 33 \<le> byte c \<and> byte c \<le> 126"

definition lower_byte :: "char \<Rightarrow> char" where
  "lower_byte c = (if is_ascii_uppercase c then char_of (byte c + 32) else c)"

definition to_ascii_lowercase :: "string \<Rightarrow> string" where
  "to_ascii_lowercase s = map lower_byte s"

lemma byte_lower_byte: "byte (lower_byte c) = (if is_ascii_uppercase c then byte c + 32 else byte c)"
  by (auto simp: lower_byte_def ascii of_char_of)

lemma lower_byte_not_upper [simp]: "\<not> is_ascii_uppercase (lower_byte c)"
  unfolding is_ascii_uppercase_def byte_lower_byte by (simp add: ascii)

lemma lower_byte_id: "\<not> is_ascii_uppercase c \<Longrightarrow> lower_byte c = c"
  by (simp add: lower_byte_def)

lemma lower_byte_idem [simp]: "lower_byte (lower_byte c) = lower_byte c"
  by (simp add: lower_byte_id)

lemma to_ascii_lowercase_idem [simp]: "to_ascii_lowercase (to_ascii_lowercase s) = to_ascii_lowercase s"
  by (simp add: to_ascii_lowercase_def)

lemma to_ascii_lowercase_append [simp]:
  "to_ascii_lowercase (s @ t) = to_ascii_lowercase s @ to_ascii_lowercase t"
  by (simp add: to_ascii_lowercase_def)

lemma length_to_ascii_lowercase [simp]: "length (to_ascii_lowercase s) = length s"
  by (simp add: to_ascii_lowercase_def)

lemma to_ascii_lowercase_id:
  "\<forall>c \<in> set s. \<not> is_ascii_uppercase c \<Longrightarrow> to_ascii_lowercase s = s"
  by (induction s) (simp_all add: to_ascii_lowercase_def lower_byte_id)

lemma to_ascii_lowercase_no_upper: "\<forall>c \<in> set (to_ascii_lowercase s). \<not> is_ascii_uppercase c"
  by (auto simp: to_ascii_lowercase_def)

lemma lower_not_upper: "is_ascii_lowercase c \<Longrightarrow> \<not> is_ascii_uppercase c"
  by (simp add: ascii)

lemma digit_not_upper: "is_ascii_digit c \<Longrightarrow> \<not> is_ascii_uppercase c"
  by (simp add: ascii)

section \<open>Characters of a string\<close>

text \<open>The encoding length announced by a leading byte; a \<open>str\<close> is always well formed, so
  the other byte values never lead a character.\<close>

definition utf8_width :: "char \<Rightarrow> nat" where
  "utf8_width c =
     (if byte c < 128 then 1 else if byte c < 224 then 2 else if byte c < 240 then 3 else 4)"

fun utf8_chunks :: "string \<Rightarrow> string list" where
  "utf8_chunks [] = []"
| "utf8_chunks (c # cs) =
     (c # take (utf8_width c - 1) cs) # utf8_chunks (drop (utf8_width c - 1) cs)"

text \<open>\<open>std::str::from_utf8\<close> accepts the well-formed byte sequences of the Unicode standard.\<close>

definition is_continuation :: "char \<Rightarrow> bool" where
  "is_continuation c \<longleftrightarrow> 128 \<le> byte c \<and> byte c < 192"

fun is_utf8 :: "string \<Rightarrow> bool" where
  "is_utf8 [] = True"
| "is_utf8 (a # s) =
     (if byte a < 128 then is_utf8 s
      else if 194 \<le> byte a \<and> byte a < 224
      then (case s of b # s' \<Rightarrow> is_continuation b \<and> is_utf8 s' | _ \<Rightarrow> False)
      else if 224 \<le> byte a \<and> byte a < 240
      then (case s of
              b # c # s' \<Rightarrow>
                is_continuation b \<and> is_continuation c \<and> (byte a = 224 \<longrightarrow> 160 \<le> byte b)
                \<and> (byte a = 237 \<longrightarrow> byte b < 160) \<and> is_utf8 s'
            | _ \<Rightarrow> False)
      else if 240 \<le> byte a \<and> byte a < 245
      then (case s of
              b # c # d # s' \<Rightarrow>
                is_continuation b \<and> is_continuation c \<and> is_continuation d \<and> (byte a = 240 \<longrightarrow> 144 \<le> byte b)
                \<and> (byte a = 244 \<longrightarrow> byte b < 144) \<and> is_utf8 s'
            | _ \<Rightarrow> False)
      else False)"

text \<open>The Unicode scalar value of one encoded character.\<close>

definition scalar :: "string \<Rightarrow> nat" where
  "scalar chunk =
     (case map byte chunk of
        [a] \<Rightarrow> a
      | [a, b] \<Rightarrow> (a mod 32) * 64 + b mod 64
      | [a, b, c] \<Rightarrow> (a mod 16) * 4096 + (b mod 64) * 64 + c mod 64
      | [a, b, c, d] \<Rightarrow> (a mod 8) * 262144 + (b mod 64) * 4096 + (c mod 64) * 64 + d mod 64
      | _ \<Rightarrow> 0)"

definition chars :: "string \<Rightarrow> nat list" where
  "chars s = map scalar (utf8_chunks s)"

fun index_chunks :: "nat \<Rightarrow> string list \<Rightarrow> (nat \<times> nat) list" where
  "index_chunks i [] = []"
| "index_chunks i (x # xs) = (i, scalar x) # index_chunks (i + length x) xs"

definition char_indices :: "string \<Rightarrow> (nat \<times> nat) list" where
  "char_indices s = index_chunks 0 (utf8_chunks s)"

text \<open>The Unicode property \<open>White_Space\<close> and the general category \<open>Cc\<close>.\<close>

definition is_whitespace :: "nat \<Rightarrow> bool" where
  "is_whitespace c \<longleftrightarrow> (9 \<le> c \<and> c \<le> 13) \<or> c \<in> {32, 133, 160, 5760, 8232, 8233, 8239, 8287, 12288}
     \<or> (8192 \<le> c \<and> c \<le> 8202)"

definition is_control :: "nat \<Rightarrow> bool" where
  "is_control c \<longleftrightarrow> c < 32 \<or> (127 \<le> c \<and> c < 160)"

definition trim :: "string \<Rightarrow> string" where
  "trim s = concat (rev (dropWhile (is_whitespace \<circ> scalar)
     (rev (dropWhile (is_whitespace \<circ> scalar) (utf8_chunks s)))))"

lemma concat_utf8_chunks [simp]: "concat (utf8_chunks s) = s"
  by (induction s rule: utf8_chunks.induct) simp_all

lemma utf8_chunks_ascii:
  "\<forall>c \<in> set s. byte c < 128 \<Longrightarrow> utf8_chunks s = map (\<lambda>c. [c]) s"
  by (induction s) (simp_all add: utf8_width_def)

lemma index_chunks_ascii: "index_chunks i (map (\<lambda>c. [c]) s) = zip [i..<i + length s] (map byte s)"
proof (induction s arbitrary: i)
  case Nil
  then show ?case by simp
next
  case (Cons c s)
  have "[i..<i + length (c # s)] = i # [Suc i..<Suc i + length s]"
    by (simp add: upt_conv_Cons del: upt_Suc)
  with Cons [of "Suc i"] show ?case by (simp add: scalar_def del: upt_Suc)
qed

section \<open>Character boundaries\<close>

text \<open>The last boundary of a character at or below an index.\<close>

fun boundary_below :: "string \<Rightarrow> nat \<Rightarrow> nat" where
  "boundary_below s 0 = 0"
| "boundary_below s (Suc i) =
     (if byte (s ! Suc i) < 128 \<or> 192 \<le> byte (s ! Suc i) then Suc i else boundary_below s i)"

definition floor_char_boundary :: "string \<Rightarrow> nat \<Rightarrow> nat" where
  "floor_char_boundary s i = (if length s \<le> i then length s else boundary_below s i)"

lemma boundary_below_le: "boundary_below s i \<le> i"
  by (induction s i rule: boundary_below.induct) auto

lemma floor_char_boundary_le: "floor_char_boundary s i \<le> i"
  using boundary_below_le [of s i] by (simp add: floor_char_boundary_def)

section \<open>Splitting and joining\<close>

text \<open>\<open>str::split\<close> by one character yields at least one part.\<close>

fun split_on :: "char \<Rightarrow> string \<Rightarrow> string list" where
  "split_on c [] = [[]]"
| "split_on c (x # xs) =
     (if x = c then [] # split_on c xs
      else (case split_on c xs of [] \<Rightarrow> [[x]] | p # ps \<Rightarrow> (x # p) # ps))"

fun join :: "char \<Rightarrow> string list \<Rightarrow> string" where
  "join c [] = []"
| "join c [p] = p"
| "join c (p # q # ps) = p @ c # join c (q # ps)"

lemma split_on_nonempty [simp]: "split_on c s \<noteq> []"
  by (induction s) (auto split: list.splits)

lemma split_on_parts: "p \<in> set (split_on c s) \<Longrightarrow> c \<notin> set p"
proof (induction s arbitrary: p)
  case Nil
  then show ?case by simp
next
  case (Cons x xs)
  then show ?case by (cases "split_on c xs") (auto split: if_splits)
qed

lemma split_on_chars: "p \<in> set (split_on c s) \<Longrightarrow> set p \<subseteq> set s"
proof (induction s arbitrary: p)
  case Nil
  then show ?case by simp
next
  case (Cons x xs)
  show ?case
  proof (cases "split_on c xs")
    case Nil
    then show ?thesis by simp
  next
    case (Cons q qs)
    with Cons.IH [of q] Cons.IH [of p] Cons.prems show ?thesis
      by (auto split: if_splits)
  qed
qed

lemma join_Cons: "ps \<noteq> [] \<Longrightarrow> join c (p # ps) = p @ c # join c ps"
  by (cases ps) simp_all

lemma join_split_on [simp]: "join c (split_on c s) = s"
proof (induction s)
  case Nil
  then show ?case by simp
next
  case (Cons x xs)
  show ?case
  proof (cases "split_on c xs")
    case Nil
    then show ?thesis by simp
  next
    case (Cons q qs)
    with Cons.IH show ?thesis by (cases qs) (auto simp: join_Cons)
  qed
qed

lemma split_on_no_sep: "c \<notin> set s \<Longrightarrow> split_on c s = [s]"
  by (induction s) auto

lemma split_on_append_sep: "c \<notin> set p \<Longrightarrow> split_on c (p @ c # s) = p # split_on c s"
  by (induction p) auto

lemma split_on_join:
  "ps \<noteq> [] \<Longrightarrow> \<forall>p \<in> set ps. c \<notin> set p \<Longrightarrow> split_on c (join c ps) = ps"
  by (induction c ps rule: join.induct) (simp_all add: split_on_no_sep split_on_append_sep)

lemma split_on_append:
  "split_on c (s @ t) =
     butlast (split_on c s) @ (last (split_on c s) @ hd (split_on c t)) # tl (split_on c t)"
proof (induction s)
  case Nil
  then show ?case by (simp add: list.collapse)
next
  case (Cons x s)
  obtain p ps where "split_on c s = p # ps" by (cases "split_on c s") simp_all
  with Cons show ?case by (cases ps) auto
qed

text \<open>A text that begins with a character, not in the middle of one. Every part of a text in UTF-8
  that is split at an ASCII character does.\<close>

fun starts_char :: "string \<Rightarrow> bool" where
  "starts_char [] = True"
| "starts_char (c # s) \<longleftrightarrow> \<not> is_continuation c"

lemma split_on_Cons: "x \<noteq> c \<Longrightarrow> split_on c (x # s) = (x # hd (split_on c s)) # tl (split_on c s)"
  by (cases "split_on c s") auto

lemma utf8_parts:
  assumes "byte c < 128"
  shows "is_utf8 s \<Longrightarrow> list_all starts_char (split_on c s)"
proof (induction s rule: is_utf8.induct)
  case 1
  then show ?case by simp
next
  case (2 a s)
  have tail: "list_all starts_char (tl ps)" if "list_all starts_char ps" for ps
    using that by (cases ps) simp_all
  have neq: "x \<noteq> c" if "128 \<le> byte x" for x using that assms by auto
  note cont = is_continuation_def
  show ?case
  proof (cases "byte a < 128")
    case True
    with 2 have *: "list_all starts_char (split_on c s)" by simp
    with True tail have "list_all starts_char (split_on c (a # s))" if "a \<noteq> c"
      using that by (simp add: split_on_Cons cont del: split_on.simps(2))
    with * show ?thesis by (cases "a = c") simp_all
  next
    case wide: False
    then have a: "a \<noteq> c" "\<not> is_continuation a"
      using neq 2(5) by (auto simp: cont split: if_splits)
    have "list_all starts_char (tl (split_on c s))"
      using 2 wide neq
      by (auto simp: cont split_on_Cons dest!: tail simp del: split_on.simps(2) split: if_splits list.splits)
    with a show ?thesis by (simp add: split_on_Cons del: split_on.simps(2))
  qed
qed

text \<open>Cutting at a boundary does not depend on how the text came in.\<close>

lemma boundary_below_start:
  "n < length s \<Longrightarrow> boundary_below (s @ t) n = boundary_below s n"
  by (induction n) (auto simp: nth_append)

lemma boundary_below_within:
  assumes "starts_char t" "n < length t"
  shows "boundary_below (s @ t) (length s + n) = length s + boundary_below t n"
  using assms(2)
proof (induction n)
  case 0
  with assms(1) show ?case
    by (cases t; cases "length s") (auto simp: is_continuation_def nth_append)
next
  case (Suc n)
  then show ?case by (simp add: nth_append)
qed

lemma floor_char_boundary_append:
  assumes "starts_char t" "length s \<le> n"
  shows "floor_char_boundary (s @ t) n = length s + floor_char_boundary t (n - length s)"
  using assms boundary_below_within [OF assms(1), of "n - length s" s]
  by (auto simp: floor_char_boundary_def)

lemma floor_char_boundary_beyond:
  "n < length s \<Longrightarrow> floor_char_boundary (s @ t) n = floor_char_boundary s n"
  by (simp add: floor_char_boundary_def boundary_below_start)

section \<open>Prefixes and suffixes\<close>

fun strip_prefix :: "string \<Rightarrow> string \<Rightarrow> string option" where
  "strip_prefix [] s = Some s"
| "strip_prefix (p # ps) [] = None"
| "strip_prefix (p # ps) (c # cs) = (if p = c then strip_prefix ps cs else None)"

definition strip_suffix :: "string \<Rightarrow> string \<Rightarrow> string option" where
  "strip_suffix p s = map_option rev (strip_prefix (rev p) (rev s))"

definition starts_with :: "string \<Rightarrow> string \<Rightarrow> bool" where
  "starts_with p s \<longleftrightarrow> strip_prefix p s \<noteq> None"

lemma strip_prefix_Some: "strip_prefix p s = Some r \<longleftrightarrow> s = p @ r"
  by (induction p s rule: strip_prefix.induct) auto

lemma strip_prefix_append [simp]: "strip_prefix p (p @ r) = Some r"
  by (simp add: strip_prefix_Some)

lemma strip_suffix_Some: "strip_suffix p s = Some r \<longleftrightarrow> s = r @ p"
proof -
  have "strip_suffix p s = Some r \<longleftrightarrow> rev s = rev p @ rev r"
    by (auto simp: strip_suffix_def strip_prefix_Some)
  also have "\<dots> \<longleftrightarrow> s = r @ p"
    by (metis rev_append rev_rev_ident)
  finally show ?thesis .
qed

lemma starts_with_iff: "starts_with p s \<longleftrightarrow> (\<exists>r. s = p @ r)"
  by (auto simp: starts_with_def strip_prefix_Some)

section \<open>Splitting once\<close>

fun split_once :: "char \<Rightarrow> string \<Rightarrow> (string \<times> string) option" where
  "split_once c [] = None"
| "split_once c (d # s) =
     (if d = c then Some ([], s) else map_option (\<lambda>(a, b). (d # a, b)) (split_once c s))"

text \<open>\<open>str::rsplit_once\<close> splits at the last occurrence.\<close>

definition rsplit_once :: "char \<Rightarrow> string \<Rightarrow> (string \<times> string) option" where
  "rsplit_once c s = map_option (\<lambda>(a, b). (rev b, rev a)) (split_once c (rev s))"

lemma split_once_Some: "split_once c s = Some (a, b) \<longleftrightarrow> s = a @ c # b \<and> c \<notin> set a"
proof (induction s arbitrary: a)
  case Nil
  then show ?case by simp
next
  case (Cons d s)
  then show ?case by (cases a) auto
qed

lemma split_once_None: "split_once c s = None \<longleftrightarrow> c \<notin> set s"
  by (induction s) auto

lemma rsplit_once_Some: "rsplit_once c s = Some (a, b) \<longleftrightarrow> s = a @ c # b \<and> c \<notin> set b"
proof -
  have "rsplit_once c s = Some (a, b) \<longleftrightarrow> split_once c (rev s) = Some (rev b, rev a)"
    by (auto simp: rsplit_once_def)
  also have "\<dots> \<longleftrightarrow> rev s = rev b @ c # rev a \<and> c \<notin> set b"
    by (simp add: split_once_Some)
  also have "rev s = rev b @ c # rev a \<longleftrightarrow> s = a @ c # b"
    using rev_is_rev_conv [of s "a @ c # b"] by simp
  finally show ?thesis .
qed

lemma rsplit_once_None: "rsplit_once c s = None \<longleftrightarrow> c \<notin> set s"
  by (simp add: rsplit_once_def split_once_None)

section \<open>Decimals\<close>

definition digit_char :: "nat \<Rightarrow> char" where
  "digit_char d = char_of (48 + d)"

definition digit_value :: "char \<Rightarrow> nat" where
  "digit_value c = byte c - 48"

fun show_nat :: "nat \<Rightarrow> string" where
  "show_nat n = (if n < 10 then [digit_char n] else show_nat (n div 10) @ [digit_char (n mod 10)])"

declare show_nat.simps [simp del]

definition decimal_value :: "string \<Rightarrow> nat" where
  "decimal_value s = foldl (\<lambda>v c. v * 10 + digit_value c) 0 s"

text \<open>\<open>str::parse::<u64>()\<close>: an optional plus sign and one or more digits that fit.\<close>

definition parse_u64 :: "string \<Rightarrow> nat option" where
  "parse_u64 s =
     (let digits = (case s of c # cs \<Rightarrow> if c = CHR ''+'' then cs else s | [] \<Rightarrow> [])
      in if digits \<noteq> [] \<and> list_all is_ascii_digit digits \<and> decimal_value digits \<le> u64_max
         then Some (decimal_value digits) else None)"

definition parse_u16 :: "string \<Rightarrow> nat option" where
  "parse_u16 s = (case parse_u64 s of Some n \<Rightarrow> if n < 65536 then Some n else None | None \<Rightarrow> None)"

lemma digit_char_digit: "d < 10 \<Longrightarrow> is_ascii_digit (digit_char d)"
  by (simp add: ascii digit_char_def of_char_of)

lemma digit_value_digit_char: "d < 10 \<Longrightarrow> digit_value (digit_char d) = d"
  by (simp add: digit_value_def digit_char_def of_char_of)

lemma digit_char_value: "is_ascii_digit c \<Longrightarrow> digit_char (digit_value c) = c"
  by (simp add: ascii digit_char_def digit_value_def)

lemma decimal_value_snoc: "decimal_value (s @ [c]) = decimal_value s * 10 + digit_value c"
  by (simp add: decimal_value_def)

lemma show_nat_digits: "list_all is_ascii_digit (show_nat n)"
proof (induction n rule: show_nat.induct)
  case (1 n)
  then show ?case by (subst show_nat.simps) (auto simp: digit_char_digit)
qed

lemma show_nat_nonempty [simp]: "show_nat n \<noteq> []"
  by (subst show_nat.simps) simp

lemma decimal_value_show_nat: "decimal_value (show_nat n) = n"
proof (induction n rule: show_nat.induct)
  case (1 n)
  show ?case
  proof (cases "n < 10")
    case True
    then show ?thesis
      by (subst show_nat.simps) (simp add: decimal_value_def digit_value_digit_char)
  next
    case False
    with 1 have "decimal_value (show_nat (n div 10)) = n div 10" by simp
    with False show ?thesis
      by (subst show_nat.simps) (simp add: decimal_value_snoc digit_value_digit_char)
  qed
qed

lemma show_nat_inj: "show_nat m = show_nat n \<Longrightarrow> m = n"
  by (metis decimal_value_show_nat)

lemma digit_not_plus: "is_ascii_digit c \<Longrightarrow> c \<noteq> CHR ''+''"
  by (auto simp: ascii)

lemma parse_u64_show_nat: "n \<le> u64_max \<Longrightarrow> parse_u64 (show_nat n) = Some n"
proof -
  assume n: "n \<le> u64_max"
  obtain c cs where s: "show_nat n = c # cs" by (cases "show_nat n") simp_all
  with show_nat_digits [of n] have "c \<noteq> CHR ''+''" by (auto dest: digit_not_plus)
  then have "(case show_nat n of c # cs \<Rightarrow> if c = CHR ''+'' then cs else show_nat n | [] \<Rightarrow> []) =
      show_nat n"
    using s by simp
  with n show ?thesis
    by (simp add: parse_u64_def show_nat_digits decimal_value_show_nat)
qed

text \<open>\<open>str::parse::<i64>()\<close> and \<open>i64::to_string\<close>.\<close>

definition parse_i64 :: "string \<Rightarrow> int option" where
  "parse_i64 s =
     (let negative = starts_with ''-'' s;
          digits = (if negative \<or> starts_with ''+'' s then tl s else s);
          v = (if negative then - int (decimal_value digits) else int (decimal_value digits))
      in if digits \<noteq> [] \<and> list_all is_ascii_digit digits \<and> in_i64 v then Some v else None)"

definition show_int :: "int \<Rightarrow> string" where
  "show_int x = (if x < 0 then CHR ''-'' # show_nat (nat (- x)) else show_nat (nat x))"

lemma trim_ascii_digits:
  assumes "\<forall>c \<in> set s. 32 < byte c \<and> byte c < 128"
  shows "trim s = s"
proof -
  have "utf8_chunks s = map (\<lambda>c. [c]) s" using assms by (intro utf8_chunks_ascii) auto
  moreover have "dropWhile (is_whitespace \<circ> scalar) (map (\<lambda>c. [c]) t) = map (\<lambda>c. [c]) t"
    if "set t \<subseteq> set s" for t
    using that assms by (cases t) (auto simp: scalar_def is_whitespace_def)
  ultimately show ?thesis by (simp add: trim_def rev_map)
qed

lemma show_int_bytes: "c \<in> set (show_int v) \<Longrightarrow> 32 < byte c \<and> byte c < 128"
  using show_nat_digits [of "nat \<bar>v\<bar>"]
  by (auto simp: show_int_def list_all_iff is_ascii_digit_def split: if_splits)

lemma parse_i64_show_int: "in_i64 v \<Longrightarrow> parse_i64 (show_int v) = Some v"
proof -
  assume v: "in_i64 v"
  obtain c cs where s: "show_nat (nat v) = c # cs" by (cases "show_nat (nat v)") simp_all
  then have "is_ascii_digit c" using show_nat_digits [of "nat v"] by simp
  then have "c \<noteq> CHR ''-''" "c \<noteq> CHR ''+''" by (auto simp: is_ascii_digit_def)
  with v s show ?thesis
    using show_nat_digits [of "nat v"] show_nat_digits [of "nat (- v)"] decimal_value_show_nat [of "nat v"]
      decimal_value_show_nat [of "nat (- v)"]
    by (auto simp: parse_i64_def show_int_def Let_def starts_with_def)
qed

section \<open>Sorted, duplicate-free lists\<close>

text \<open>\<open>Vec::sort\<close> followed by \<open>Vec::dedup\<close>, and collecting into a \<open>BTreeSet\<close>.\<close>

definition sort_dedup :: "'a::linorder list \<Rightarrow> 'a list" where
  "sort_dedup xs = remdups_adj (sort xs)"

lemma set_sort_dedup [simp]: "set (sort_dedup xs) = set xs"
  by (simp add: sort_dedup_def)

lemma sorted_sort_dedup: "sorted (sort_dedup xs)"
  by (simp add: sort_dedup_def sorted_remdups_adj)

lemma distinct_remdups_adj_sorted: "sorted xs \<Longrightarrow> distinct (remdups_adj xs)"
  by (induction xs rule: remdups_adj.induct) auto

lemma distinct_sort_dedup: "distinct (sort_dedup xs)"
  by (simp add: sort_dedup_def distinct_remdups_adj_sorted)

end
