(* ===== verification/Governor_Meter.thy ===== *)
theory Governor_Meter
  imports Rust_Text
begin

text \<open>
  The meters of the token governor (\<open>crates/dekopon-model-token-governor/src/meter.rs\<close>): a fixed
  window, a rolling window of sixty buckets, a session window and a credit bucket. A meter is a
  specification, a state and the last time it was charged; \<open>verdict\<close> decides whether a call
  fits, \<open>charge\<close> records what was spent, \<open>status\<close> reports. What a
  meter promises its budget is stated in \<open>Governor_Laws\<close>.
\<close>

section \<open>Durations\<close>

type_synonym tokens = nat
type_synonym unix_millis = int
type_synonym duration = nat

definition duration_max :: duration where "duration_max = u64_max * 1000000000 + 999999999"

definition from_millis :: "nat \<Rightarrow> duration" where "from_millis ms = ms * 1000000"

definition from_secs :: "nat \<Rightarrow> duration" where "from_secs s = s * 1000000000"

definition as_millis :: "duration \<Rightarrow> nat" where "as_millis d = d div 1000000"

definition as_secs :: "duration \<Rightarrow> nat" where "as_secs d = d div 1000000000"

definition subsec_nanos :: "duration \<Rightarrow> nat" where "subsec_nanos d = d mod 1000000000"

definition duration_saturating_add :: "duration \<Rightarrow> duration \<Rightarrow> duration" where
  "duration_saturating_add a b = min (a + b) duration_max"

definition duration_saturating_mul :: "duration \<Rightarrow> nat \<Rightarrow> duration" where
  "duration_saturating_mul a k = min (a * k) duration_max"

section \<open>Tokens and time\<close>

definition tokens_from_bytes :: "nat \<Rightarrow> tokens" where
  "tokens_from_bytes bytes = div_ceil bytes 4"

fun group_digits :: "string \<Rightarrow> nat \<Rightarrow> string \<Rightarrow> string" where
  "group_digits digits index [] = []"
| "group_digits digits index (d # ds) =
     (if 0 < index \<and> (length digits - index) mod 3 = 0 then [CHR '','', d] else [d])
       @ group_digits digits (Suc index) ds"

definition grouped :: "int \<Rightarrow> string" where
  "grouped v =
     (let digits = show_nat (nat \<bar>v\<bar>)
      in (if v < 0 then ''-'' else []) @ group_digits digits 0 digits)"

definition millis :: "duration \<Rightarrow> int" where
  "millis d = (if int (as_millis d) > i64_max then i64_max else int (as_millis d))"

definition positive_millis :: "duration \<Rightarrow> int" where
  "positive_millis d = (if millis d < 1 then 1 else millis d)"

definition unix_millis_saturating_sub :: "unix_millis \<Rightarrow> duration \<Rightarrow> unix_millis" where
  "unix_millis_saturating_sub t d = clamp_i64 (t - millis d)"

definition wait :: "int \<Rightarrow> int \<Rightarrow> duration" where
  "wait from_time until_time = from_millis (unwrap_or 0 (u64_try_from (clamp_i64 (until_time - from_time))))"

definition reservation_wait :: duration where
  "reservation_wait = from_secs 60"

section \<open>Specifications\<close>

datatype meter_spec =
    SpecFixed (spec_tokens: tokens) (spec_period: duration)
  | SpecRolling (spec_tokens: tokens) (spec_period: duration)
  | SpecSession (spec_tokens: tokens) (spec_period: duration)
  | SpecCredit (spec_tokens: tokens) (spec_refill: tokens) (spec_period: duration)
      (spec_initial: tokens)

datatype meter_kind = KindFixed duration | KindRolling duration | KindSession duration | KindCredit

fun spec_kind :: "meter_spec \<Rightarrow> meter_kind" where
  "spec_kind (SpecFixed _ period) = KindFixed period"
| "spec_kind (SpecRolling _ period) = KindRolling period"
| "spec_kind (SpecSession _ len) = KindSession len"
| "spec_kind (SpecCredit _ _ _ _) = KindCredit"

fun spec_limit :: "meter_spec \<Rightarrow> tokens" where
  "spec_limit (SpecFixed limit _) = limit"
| "spec_limit (SpecRolling limit _) = limit"
| "spec_limit (SpecSession limit _) = limit"
| "spec_limit (SpecCredit capacity _ _ _) = capacity"

definition rolling_bucket :: "duration \<Rightarrow> duration" where
  "rolling_bucket period =
     from_millis (max (unwrap_or 1 (u64_try_from (trunc_div (positive_millis period) 60))) 1)"

definition rolling_expiry :: "duration \<Rightarrow> int" where
  "rolling_expiry period =
     clamp_i64 (positive_millis period + positive_millis (rolling_bucket period))"

definition window_start :: "int \<Rightarrow> int \<Rightarrow> int" where
  "window_start now period = wrap_i64 (now div period * period)"

fun spec_horizon :: "meter_spec \<Rightarrow> int \<Rightarrow> duration" where
  "spec_horizon (SpecFixed _ period) now =
     (let period = positive_millis period in wait (window_start now period) now)"
| "spec_horizon (SpecRolling _ period) now = duration_saturating_add period (rolling_bucket period)"
| "spec_horizon (SpecSession _ len) now = duration_saturating_mul len 2"
| "spec_horizon (SpecCredit capacity refill per _) now =
     (let scaled = int capacity * positive_millis per;
          ms = trunc_div scaled (int (max refill 1))
      in from_millis (unwrap_or u64_max (u64_try_from ms)))"

section \<open>States\<close>

datatype meter_verdict = Allow | Wait duration | Never

record meter_status =
  ms_limit :: tokens
  ms_used :: tokens
  ms_remaining :: int

datatype meter_state =
    StFixed int int nat
  | StRolling duration "(int \<times> nat) list"
  | StSession int "(int \<times> nat) option"
  | StCredit nat nat int int int

record meter =
  m_spec :: meter_spec
  m_state :: meter_state
  last_seen :: int

definition meter_new :: "meter_spec \<Rightarrow> unix_millis \<Rightarrow> meter" where
  "meter_new spec since =
     \<lparr>m_spec = spec,
      m_state =
        (case spec of
           SpecFixed _ period \<Rightarrow> StFixed (positive_millis period) i64_min 0
         | SpecRolling _ period \<Rightarrow> StRolling period []
         | SpecSession _ len \<Rightarrow> StSession (positive_millis len) None
         | SpecCredit capacity refill per initial \<Rightarrow>
             (let per = positive_millis per
              in StCredit capacity refill per (int initial * per) since)),
      last_seen = since\<rparr>"

definition credit_balance :: "int \<Rightarrow> int \<Rightarrow> int \<Rightarrow> nat \<Rightarrow> nat \<Rightarrow> int \<Rightarrow> int" where
  "credit_balance scaled since now capacity refill per =
     (let cap = int capacity * per
      in if scaled \<ge> cap then scaled
         else let accrued = max (clamp_i64 (now - since)) 0 * int refill
              in min (clamp_i128 (scaled + accrued)) cap)"

definition live_buckets :: "int \<Rightarrow> int \<Rightarrow> (int \<times> nat) list \<Rightarrow> (int \<times> nat) list" where
  "live_buckets expiry now buckets = filter (\<lambda>(start, _). wrap_i64 (start + expiry) > now) buckets"

text \<open>The search for the first bucket whose expiry makes room.\<close>

fun rolling_scan :: "(nat \<Rightarrow> bool) \<Rightarrow> int \<Rightarrow> int \<Rightarrow> nat \<Rightarrow> (int \<times> nat) list \<Rightarrow> meter_verdict" where
  "rolling_scan fits now expiry used [] = Wait reservation_wait"
| "rolling_scan fits now expiry used ((start, spent) # rest) =
     (let used = saturating_sub used spent
      in if fits used then Wait (wait now (wrap_i64 (start + expiry)))
         else rolling_scan fits now expiry used rest)"

definition session_open :: "int \<Rightarrow> int \<Rightarrow> (int \<times> nat) option \<Rightarrow> (int \<times> nat) option" where
  "session_open len now opened =
     (case opened of
        None \<Rightarrow> None
      | Some (start, used) \<Rightarrow> if wrap_i64 (start + len) > now then Some (start, used) else None)"

definition verdict :: "meter \<Rightarrow> unix_millis \<Rightarrow> tokens \<Rightarrow> tokens \<Rightarrow> meter_verdict" where
  "verdict m now held want =
     (let now = max now (last_seen m);
          limit = spec_limit (m_spec m)
      in if want > limit then Never
         else let asked = held + want;
                  fits = (\<lambda>used. used + asked \<le> limit)
         in case m_state m of
              StFixed period window used \<Rightarrow>
                (let current = window_start now period;
                     used = (if window = current then used else 0)
                 in if fits used then Allow
                    else if fits 0 then Wait (wait now (clamp_i64 (current + period)))
                    else Wait reservation_wait)
            | StRolling period buckets \<Rightarrow>
                (let expiry = rolling_expiry period;
                     live = live_buckets expiry now buckets;
                     used = foldl saturating_add 0 (map snd live)
                 in if fits used then Allow else rolling_scan fits now expiry used live)
            | StSession len opened \<Rightarrow>
                (case session_open len now opened of
                   Some (start, used) \<Rightarrow>
                     (if fits used then Allow
                      else if fits 0 then Wait (wait now (wrap_i64 (start + len)))
                      else Wait reservation_wait)
                 | None \<Rightarrow> if fits 0 then Allow else Wait reservation_wait)
            | StCredit capacity refill per scaled at \<Rightarrow>
                (let balance = credit_balance scaled at now capacity refill per;
                     need = clamp_i128 (int asked * per)
                 in if balance \<ge> need then Allow
                    else if refill = 0 then Never
                    else let ms = trunc_div (wrap_i128 (need - balance + int refill - 1)) (int refill)
                         in Wait (from_millis (unwrap_or u64_max (u64_try_from ms)))))"

definition check :: "meter \<Rightarrow> unix_millis \<Rightarrow> tokens \<Rightarrow> meter_verdict" where
  "check m now want = verdict m now 0 want"

fun pop_expired :: "int \<Rightarrow> int \<Rightarrow> (int \<times> nat) list \<Rightarrow> (int \<times> nat) list" where
  "pop_expired expiry at [] = []"
| "pop_expired expiry at ((start, spent) # rest) =
     (if wrap_i64 (start + expiry) \<le> at then pop_expired expiry at rest else (start, spent) # rest)"

definition push_bucket :: "int \<Rightarrow> nat \<Rightarrow> (int \<times> nat) list \<Rightarrow> (int \<times> nat) list" where
  "push_bucket key spent buckets =
     (if buckets \<noteq> [] \<and> fst (last buckets) = key
      then butlast buckets @ [(key, saturating_add (snd (last buckets)) spent)]
      else buckets @ [(key, spent)])"

definition charge_state :: "meter_state \<Rightarrow> int \<Rightarrow> tokens \<Rightarrow> meter_state" where
  "charge_state st at spent =
     (case st of
        StFixed period window used \<Rightarrow>
          (let current = window_start at period;
               used = (if window \<noteq> current then 0 else used)
           in StFixed period current (saturating_add used spent))
      | StRolling period buckets \<Rightarrow>
          (let expiry = rolling_expiry period;
               width = positive_millis (rolling_bucket period)
           in StRolling period
                (push_bucket (window_start at width) spent (pop_expired expiry at buckets)))
      | StSession len opened \<Rightarrow>
          StSession len
            (case session_open len at opened of
               Some (start, used) \<Rightarrow> Some (start, saturating_add used spent)
             | None \<Rightarrow> Some (at, spent))
      | StCredit capacity refill per scaled since \<Rightarrow>
          StCredit capacity refill per
            (wrap_i128 (credit_balance scaled since at capacity refill per - int spent * per)) at)"

definition charge :: "meter \<Rightarrow> unix_millis \<Rightarrow> tokens \<Rightarrow> meter" where
  "charge m at spent =
     (let at = max at (last_seen m);
          m = m\<lparr>last_seen := at\<rparr>
      in if spent = 0 then m else m\<lparr>m_state := charge_state (m_state m) at spent\<rparr>)"

text \<open>What a status reports as used, before it is squeezed into \<open>u64\<close>.\<close>

definition used_at :: "meter \<Rightarrow> int \<Rightarrow> int" where
  "used_at m now =
     (case m_state m of
        StFixed period window used \<Rightarrow> if window = window_start now period then int used else 0
      | StRolling period buckets \<Rightarrow>
          sum_list (map (int \<circ> snd) (live_buckets (rolling_expiry period) now buckets))
      | StSession len opened \<Rightarrow>
          (case session_open len now opened of None \<Rightarrow> 0 | Some (_, used) \<Rightarrow> int used)
      | StCredit capacity refill per scaled at \<Rightarrow>
          int capacity - credit_balance scaled at now capacity refill per div per)"

definition status :: "meter \<Rightarrow> unix_millis \<Rightarrow> meter_status" where
  "status m now =
     (let now = max now (last_seen m);
          limit = spec_limit (m_spec m);
          used = used_at m now;
          remaining = int limit - used
      in \<lparr>ms_limit = limit,
          ms_used = unwrap_or u64_max (u64_try_from (max used 0)),
          ms_remaining = unwrap_or (if remaining < 0 then i64_min else i64_max) (i64_try_from remaining)\<rparr>)"

definition horizon :: "meter \<Rightarrow> unix_millis \<Rightarrow> duration" where
  "horizon m now = spec_horizon (m_spec m) (max now (last_seen m))"

end
