(* ===== verification/Governor_Laws.thy ===== *)
theory Governor_Laws
  imports Governor_Meter
begin

text \<open>
  What a meter promises the budget that holds it, as the locale \<open>spend_meter\<close>, and the proof that
  the four meters of the governor keep the promise. The laws are stated over the headroom of a
  meter: the tokens (for a credit bucket, scaled by its period) it still has to give at a time.
  Times are Unix milliseconds below \<open>2 ^ 62\<close> and periods are at most \<open>2 ^ 60\<close>
  milliseconds (36 million years), which keeps every sum inside \<open>i64\<close> and every product
  inside \<open>i128\<close>; the definitions themselves wrap.
\<close>

section \<open>Times and periods in range\<close>

definition time_ok :: "int \<Rightarrow> bool" where
  "time_ok t \<longleftrightarrow> 0 \<le> t \<and> t < 2 ^ 62"

definition period_ok :: "duration \<Rightarrow> bool" where
  "period_ok d \<longleftrightarrow> positive_millis d \<le> 2 ^ 60"

definition spec_ok :: "meter_spec \<Rightarrow> bool" where
  "spec_ok s \<longleftrightarrow> period_ok (spec_period s) \<and> spec_limit s \<le> u64_max \<and>
     (case s of SpecCredit _ refill _ initial \<Rightarrow> refill \<le> u64_max \<and> initial \<le> u64_max | _ \<Rightarrow> True)"

lemma time_ok_max [simp]: "time_ok s \<Longrightarrow> time_ok t \<Longrightarrow> time_ok (max s t)"
  by (simp add: time_ok_def max_def)

lemma positive_millis_pos: "0 < positive_millis d"
  by (simp add: positive_millis_def)

lemma positive_millis_from_millis:
  "1 \<le> n \<Longrightarrow> int n \<le> i64_max \<Longrightarrow> positive_millis (from_millis n) = int n"
  by (simp add: positive_millis_def millis_def as_millis_def from_millis_def)

lemma rolling_bucket_millis:
  assumes "period_ok d"
  shows "1 \<le> positive_millis (rolling_bucket d)" "positive_millis (rolling_bucket d) \<le> positive_millis d"
proof -
  let ?q = "positive_millis d div 60"
  have p: "0 < positive_millis d" "positive_millis d \<le> 2 ^ 60"
    using assms positive_millis_pos by (simp_all add: period_ok_def)
  then have q: "0 \<le> ?q" "?q \<le> positive_millis d" "?q \<le> 2 ^ 60" by linarith+
  then have "u64_try_from ?q = Some (nat ?q)" by (simp add: u64_try_from_def u64_max_def)
  then have bucket: "rolling_bucket d = from_millis (max (nat ?q) 1)"
    using p by (simp add: rolling_bucket_def trunc_div_pos)
  have "positive_millis (rolling_bucket d) = int (max (nat ?q) 1)"
    unfolding bucket using q by (intro positive_millis_from_millis) (auto simp: i64_max_def)
  then show "1 \<le> positive_millis (rolling_bucket d)"
    "positive_millis (rolling_bucket d) \<le> positive_millis d"
    using p q by auto
qed

lemma rolling_expiry_bounds:
  assumes "period_ok d"
  shows "rolling_expiry d = positive_millis d + positive_millis (rolling_bucket d)"
    "0 < rolling_expiry d" "rolling_expiry d \<le> 2 ^ 61"
    "positive_millis (rolling_bucket d) < rolling_expiry d"
proof -
  note b = rolling_bucket_millis [OF assms] positive_millis_pos [of d]
  have "positive_millis d \<le> 2 ^ 60" using assms by (simp add: period_ok_def)
  with b have "in_i64 (positive_millis d + positive_millis (rolling_bucket d))"
    by (simp add: rust_num)
  then show e: "rolling_expiry d = positive_millis d + positive_millis (rolling_bucket d)"
    by (simp add: rolling_expiry_def clamp_i64_exact)
  show "0 < rolling_expiry d" "rolling_expiry d \<le> 2 ^ 61"
    "positive_millis (rolling_bucket d) < rolling_expiry d"
    unfolding e using b \<open>positive_millis d \<le> 2 ^ 60\<close> by simp_all
qed

lemma floor_mult_bounds: "0 < p \<Longrightarrow> t div p * p \<le> t" "0 < p \<Longrightarrow> t < t div p * p + p"
  for t p :: int
proof -
  assume "0 < p"
  then have "0 \<le> t mod p" "t mod p < p" by simp_all
  with div_mult_mod_eq [of t p] show "t div p * p \<le> t" "t < t div p * p + p" by linarith+
qed

lemma window_start_eq: "time_ok t \<Longrightarrow> 0 < p \<Longrightarrow> window_start t p = t div p * p"
proof -
  assume t: "time_ok t" and p: "0 < p"
  then have "0 \<le> t div p * p" by (simp add: time_ok_def pos_imp_zdiv_nonneg_iff)
  with t floor_mult_bounds(1) [OF p, of t] have "in_i64 (t div p * p)"
    by (simp add: time_ok_def rust_num)
  then show ?thesis by (simp add: window_start_def wrap_i64_exact)
qed

lemma window_start_bounds:
  assumes "time_ok t" "0 < p"
  shows "0 \<le> window_start t p" "window_start t p \<le> t" "t < window_start t p + p"
  using assms floor_mult_bounds [OF assms(2), of t]
  by (simp_all add: window_start_eq time_ok_def pos_imp_zdiv_nonneg_iff)

lemma window_start_mono:
  assumes "time_ok s" "time_ok t" "s \<le> t" "0 < p"
  shows "window_start s p \<le> window_start t p"
  using assms by (simp add: window_start_eq zdiv_mono1 mult_right_mono)

section \<open>Meters in range\<close>

text \<open>The invariant of a meter: its state is the one its specification asks for, its times do not
  lie after the last charge, buckets are in ascending order, and no counter exceeds \<open>u64\<close>. The
  balance of a credit bucket may be a debt.\<close>

fun state_ok :: "meter_spec \<Rightarrow> int \<Rightarrow> meter_state \<Rightarrow> bool" where
  "state_ok (SpecFixed _ period) seen (StFixed p w u) \<longleftrightarrow>
     p = positive_millis period \<and> w \<le> window_start seen p \<and> u \<le> u64_max"
| "state_ok (SpecRolling _ period) seen (StRolling d buckets) \<longleftrightarrow>
     d = period \<and> sorted_wrt (<) (map fst buckets) \<and>
     list_all (\<lambda>(s, _). 0 \<le> s \<and> s \<le> window_start seen (positive_millis (rolling_bucket d))) buckets \<and>
     sum_list (map snd buckets) \<le> u64_max"
| "state_ok (SpecSession _ len) seen (StSession l opened) \<longleftrightarrow>
     l = positive_millis len \<and>
     (case opened of None \<Rightarrow> True | Some (s, u) \<Rightarrow> 0 \<le> s \<and> s \<le> seen \<and> u \<le> u64_max)"
| "state_ok (SpecCredit capacity refill per _) seen (StCredit c r p scaled at) \<longleftrightarrow>
     c = capacity \<and> r = refill \<and> p = positive_millis per \<and>
     - (int u64_max * p) \<le> scaled \<and> scaled \<le> int u64_max * p \<and> 0 \<le> at \<and> at \<le> seen"
| "state_ok _ _ _ \<longleftrightarrow> False"

definition meter_ok :: "meter \<Rightarrow> bool" where
  "meter_ok m \<longleftrightarrow> spec_ok (m_spec m) \<and> time_ok (last_seen m) \<and>
     state_ok (m_spec m) (last_seen m) (m_state m)"

text \<open>What a meter still has to give at a time, and the scale it counts in.\<close>

definition unit_of :: "meter \<Rightarrow> int" where
  "unit_of m = (case m_state m of StCredit _ _ per _ _ \<Rightarrow> per | _ \<Rightarrow> 1)"

definition headroom :: "meter \<Rightarrow> int \<Rightarrow> int" where
  "headroom m t =
     (case m_state m of
        StCredit capacity refill per scaled at \<Rightarrow> credit_balance scaled at t capacity refill per
      | _ \<Rightarrow> int (spec_limit (m_spec m)) - used_at m t)"

lemma meter_ok_cases:
  assumes "meter_ok m"
  obtains
    (Fixed) limit period w u where "m_spec m = SpecFixed limit period"
      "m_state m = StFixed (positive_millis period) w u"
      "w \<le> window_start (last_seen m) (positive_millis period)" "u \<le> u64_max"
  | (Rolling) limit period buckets where "m_spec m = SpecRolling limit period"
      "m_state m = StRolling period buckets" "sorted_wrt (<) (map fst buckets)"
      "list_all (\<lambda>(s, _). 0 \<le> s \<and> s \<le> window_start (last_seen m) (positive_millis (rolling_bucket period))) buckets"
      "sum_list (map snd buckets) \<le> u64_max"
  | (Session) limit len opened where "m_spec m = SpecSession limit len"
      "m_state m = StSession (positive_millis len) opened"
      "\<And>s u. opened = Some (s, u) \<Longrightarrow> 0 \<le> s \<and> s \<le> last_seen m \<and> u \<le> u64_max"
  | (Credit) capacity refill per initial scaled at where
      "m_spec m = SpecCredit capacity refill per initial"
      "m_state m = StCredit capacity refill (positive_millis per) scaled at"
      "- (int u64_max * positive_millis per) \<le> scaled" "scaled \<le> int u64_max * positive_millis per"
      "0 \<le> at" "at \<le> last_seen m"
proof -
  from assms have st: "state_ok (m_spec m) (last_seen m) (m_state m)" by (simp add: meter_ok_def)
  show thesis
  proof (cases "m_spec m")
    case SpecFixed
    with st show thesis by (cases "m_state m") (auto intro: Fixed)
  next
    case SpecRolling
    with st show thesis by (cases "m_state m") (auto intro: Rolling)
  next
    case SpecSession
    with st show thesis by (cases "m_state m") (auto intro!: Session)
  next
    case SpecCredit
    with st show thesis by (cases "m_state m") (auto intro: Credit)
  qed
qed

lemma unit_pos: "meter_ok m \<Longrightarrow> 0 < unit_of m"
  by (cases rule: meter_ok_cases) (auto simp: unit_of_def positive_millis_pos)

section \<open>Rolling windows\<close>

abbreviation spent_sum :: "(int \<times> nat) list \<Rightarrow> nat" where
  "spent_sum bs \<equiv> sum_list (map snd bs)"

definition starts_ok :: "(int \<times> nat) list \<Rightarrow> bool" where
  "starts_ok bs \<longleftrightarrow> (\<forall>b \<in> set bs. 0 \<le> fst b \<and> fst b < 2 ^ 62)"

lemma starts_okI:
  assumes "list_all (\<lambda>(s, _). 0 \<le> s \<and> s \<le> window_start seen w) bs" "time_ok seen" "0 < w"
  shows "starts_ok bs"
  using assms window_start_bounds(2) [OF assms(2,3)]
  by (fastforce simp: starts_ok_def list_all_iff time_ok_def)

lemma live_buckets_eq:
  assumes "starts_ok bs" "period_ok d"
  shows "live_buckets (rolling_expiry d) t bs = filter (\<lambda>b. t < fst b + rolling_expiry d) bs"
proof -
  have "in_i64 (fst b + rolling_expiry d)" if "b \<in> set bs" for b
    using that assms rolling_expiry_bounds(2,3) [OF assms(2)] by (auto simp: starts_ok_def rust_num)
  then show ?thesis
    by (auto simp: live_buckets_def wrap_i64_exact intro: filter_cong)
qed

lemma pop_expired_eq:
  assumes "starts_ok bs" "period_ok d" "sorted_wrt (<) (map fst bs)"
  shows "pop_expired (rolling_expiry d) t bs = filter (\<lambda>b. t < fst b + rolling_expiry d) bs"
  using assms
proof (induction bs)
  case Nil
  then show ?case by simp
next
  case (Cons b bs)
  obtain s n where b: "b = (s, n)" by (cases b)
  have "in_i64 (s + rolling_expiry d)"
    using Cons.prems b rolling_expiry_bounds(2,3) [OF Cons.prems(2)] by (auto simp: starts_ok_def rust_num)
  moreover have "filter (\<lambda>b. t < fst b + rolling_expiry d) bs = bs" if "t < s + rolling_expiry d"
    using that Cons.prems(3) b by (intro filter_True) fastforce
  ultimately show ?case
    using Cons b by (auto simp: wrap_i64_exact starts_ok_def)
qed

lemma foldl_saturating_add: "a + sum_list xs \<le> u64_max \<Longrightarrow> foldl saturating_add a xs = a + sum_list xs"
  by (induction xs arbitrary: a) (simp_all add: saturating_add_exact)

lemma int_spent_sum: "sum_list (map (int \<circ> snd) bs) = int (spent_sum bs)"
  by (induction bs) simp_all

lemma spent_sum_filter_le: "spent_sum (filter P bs) \<le> spent_sum bs"
  by (induction bs) auto

lemma spent_sum_filter_mono:
  "(\<And>b. b \<in> set bs \<Longrightarrow> P b \<Longrightarrow> Q b) \<Longrightarrow> spent_sum (filter P bs) \<le> spent_sum (filter Q bs)"
proof (induction bs)
  case Nil
  then show ?case by simp
next
  case (Cons b bs)
  then have "spent_sum (filter P bs) \<le> spent_sum (filter Q bs)" by simp
  with Cons.prems [of b] show ?case by auto
qed

lemma push_bucket_cases:
  obtains (merge) bs n where "bs' = bs @ [(key, n)]" "push_bucket key s bs' = bs @ [(key, saturating_add n s)]"
  | (append) "bs' = [] \<or> fst (last bs') \<noteq> key" "push_bucket key s bs' = bs' @ [(key, s)]"
proof (cases "bs' \<noteq> [] \<and> fst (last bs') = key")
  case True
  then have "bs' = butlast bs' @ [(key, snd (last bs'))]"
    by (metis append_butlast_last_id prod.collapse)
  with True show thesis by (intro merge) (simp_all add: push_bucket_def)
next
  case False
  then show thesis by (intro append) (auto simp: push_bucket_def)
qed

lemma push_bucket_live_le:
  "spent_sum (filter (\<lambda>b. t < fst b + e) (push_bucket key s bs))
     \<le> spent_sum (filter (\<lambda>b. t < fst b + e) bs) + s"
  by (cases rule: push_bucket_cases [of bs key s]) (auto simp: saturating_add_def)

lemma push_bucket_sum: "spent_sum (push_bucket key s bs) \<le> spent_sum bs + s"
  by (cases rule: push_bucket_cases [of bs key s]) (auto simp: saturating_add_def)

lemma push_bucket_sorted:
  assumes "sorted_wrt (<) (map fst bs)" "\<forall>b \<in> set bs. fst b \<le> key"
  shows "sorted_wrt (<) (map fst (push_bucket key s bs))"
proof (cases rule: push_bucket_cases [of bs key s])
  case (merge bs0 n)
  with assms show ?thesis by (simp add: sorted_wrt_append)
next
  case append
  have "fst b < key" if "b \<in> set bs" for b
  proof -
    from that obtain xs y where bs: "bs = xs @ [y]" by (metis append_butlast_last_id empty_iff list.set(1))
    with append assms have "fst y < key" by (simp add: order_less_le)
    with that bs assms(1) show ?thesis by (auto simp: sorted_wrt_append)
  qed
  with append assms show ?thesis by (auto simp: sorted_wrt_append)
qed

lemma push_bucket_starts:
  "b \<in> set (push_bucket key s bs) \<Longrightarrow> fst b = key \<or> (\<exists>c \<in> set bs. fst b = fst c)"
  by (cases rule: push_bucket_cases [of bs key s]) force+

lemma push_bucket_starts_ok:
  assumes "starts_ok bs" "0 \<le> key" "key < 2 ^ 62"
  shows "starts_ok (push_bucket key s bs)"
  unfolding starts_ok_def
proof
  fix b assume "b \<in> set (push_bucket key s bs)"
  then consider "fst b = key" | c where "c \<in> set bs" "fst b = fst c"
    by (blast dest: push_bucket_starts)
  then show "0 \<le> fst b \<and> fst b < 2 ^ 62"
    using assms by cases (auto simp: starts_ok_def)
qed

lemma starts_ok_filter: "starts_ok bs \<Longrightarrow> starts_ok (filter P bs)"
  by (simp add: starts_ok_def)

section \<open>Credit buckets\<close>

lemma credit_balance_eq:
  assumes "0 < p" "p \<le> 2 ^ 60" "- (2 ^ 125) \<le> sc" "sc \<le> int u64_max * p" "0 \<le> at" "at \<le> t"
    "time_ok t" "c \<le> u64_max" "r \<le> u64_max"
  shows "credit_balance sc at t c r p =
    (if sc \<ge> int c * p then sc else min (sc + (t - at) * int r) (int c * p))"
proof -
  have t: "in_i64 (t - at)" using assms by (simp add: time_ok_def rust_num)
  have m: "max (t - at) 0 = t - at" using assms by simp
  have "(t - at) * int r \<le> 2 ^ 62 * int u64_max"
    using assms by (intro mult_mono) (auto simp: time_ok_def)
  moreover have "0 \<le> (t - at) * int r" using assms by simp
  moreover have "int u64_max * p \<le> int u64_max * 2 ^ 60"
    using assms by (intro mult_left_mono) auto
  ultimately have "in_i128 (sc + (t - at) * int r)"
    using assms(3,4) by (simp add: rust_num)
  then show ?thesis
    by (simp add: credit_balance_def clamp_i64_exact [OF t] clamp_i128_exact Let_def m)
qed

lemma scaled_range: "0 < p \<Longrightarrow> p \<le> 2 ^ 60 \<Longrightarrow> n \<le> u64_max \<Longrightarrow>
    0 \<le> int n * p \<and> int n * p \<le> int u64_max * p \<and> int n * p \<le> 2 ^ 124"
proof -
  assume a: "0 < p" "p \<le> 2 ^ 60" "n \<le> u64_max"
  then have "int n * p \<le> int u64_max * p" by simp
  moreover have "int n * p \<le> int u64_max * 2 ^ 60" using a by (intro mult_mono) auto
  ultimately show ?thesis using a by (simp add: rust_num)
qed

lemma credit_balance_debt:
  assumes "0 < p" "p \<le> 2 ^ 60" "- (int u64_max * p) \<le> sc" "sc \<le> int u64_max * p"
    "0 \<le> at" "at \<le> t" "time_ok t" "c \<le> u64_max" "r \<le> u64_max"
  shows "credit_balance sc at t c r p =
    (if sc \<ge> int c * p then sc else min (sc + (t - at) * int r) (int c * p))"
  using assms scaled_range [of p u64_max] by (intro credit_balance_eq) auto

lemma difference_in_i128:
  "- (2 ^ 124) \<le> b \<Longrightarrow> b \<le> 2 ^ 124 \<Longrightarrow> 0 \<le> w \<Longrightarrow> w \<le> 2 ^ 124 \<Longrightarrow> in_i128 (b - w)"
  by (simp add: rust_num)

lemma difference_bounds:
  "- (2 ^ 124) \<le> b \<Longrightarrow> b \<le> u \<Longrightarrow> 0 \<le> w \<Longrightarrow> w \<le> 2 ^ 124 \<Longrightarrow> - (2 ^ 125) \<le> b - w \<and> b - w \<le> u"
  for b u w :: int
  by simp

text \<open>Refilling up to the capacity after a withdrawal never leaves less than withdrawing after
  the refill.\<close>

lemma refill_after_withdrawal:
  fixes sc cap x y w :: int
  assumes "0 \<le> x" "0 \<le> y" "0 \<le> w"
  defines "bal z \<equiv> (if sc \<ge> cap then sc else min (sc + z) cap)"
  shows "bal (x + y) - w \<le> (if bal x - w \<ge> cap then bal x - w else min (bal x - w + y) cap)"
  using assms(1-3) unfolding bal_def by auto

section \<open>The laws\<close>

lemma period_in_range: "meter_ok m \<Longrightarrow> positive_millis (spec_period (m_spec m)) \<le> 2 ^ 60"
  by (simp add: meter_ok_def spec_ok_def period_ok_def)

lemma limit_in_range: "meter_ok m \<Longrightarrow> spec_limit (m_spec m) \<le> u64_max"
  by (simp add: meter_ok_def spec_ok_def)

lemma meter_new_ok:
  assumes "spec_ok spec" "time_ok since"
  shows "meter_ok (meter_new spec since)"
proof (cases spec)
  case (SpecCredit c r per i)
  with assms scaled_range [OF positive_millis_pos, of per i] show ?thesis
    by (auto simp: meter_ok_def meter_new_def Let_def spec_ok_def period_ok_def time_ok_def)
next
  case (SpecFixed l d)
  with assms window_start_bounds(1) [OF assms(2) positive_millis_pos [of d]] show ?thesis
    by (simp add: meter_ok_def meter_new_def i64_min_def)
qed (use assms in \<open>auto simp: meter_ok_def meter_new_def\<close>)

lemma headroom_mono:
  assumes "meter_ok m" "last_seen m \<le> t" "t \<le> t'" "time_ok t'"
  shows "headroom m t \<le> headroom m t'"
proof -
  have seen: "time_ok (last_seen m)" using assms(1) by (simp add: meter_ok_def)
  with assms have t: "time_ok t" by (auto simp: time_ok_def)
  from assms(1) show ?thesis
  proof (cases rule: meter_ok_cases)
    case (Fixed limit period w u)
    let ?p = "positive_millis period"
    have "window_start (last_seen m) ?p \<le> window_start t ?p" "window_start t ?p \<le> window_start t' ?p"
      using window_start_mono [OF _ _ _ positive_millis_pos] seen t assms by auto
    with Fixed show ?thesis by (auto simp: headroom_def used_at_def)
  next
    case (Rolling limit period buckets)
    have d: "period_ok period" using assms(1) Rolling by (simp add: meter_ok_def spec_ok_def)
    have st: "starts_ok buckets" using Rolling(4) seen positive_millis_pos by (rule starts_okI)
    have "spent_sum (filter (\<lambda>b. t' < fst b + rolling_expiry period) buckets)
        \<le> spent_sum (filter (\<lambda>b. t < fst b + rolling_expiry period) buckets)"
      using assms(3) by (intro spent_sum_filter_mono) auto
    with Rolling show ?thesis
      by (simp add: headroom_def used_at_def live_buckets_eq [OF st d] int_spent_sum)
  next
    case (Session limit len opened)
    with assms(3) show ?thesis
      by (auto simp: headroom_def used_at_def session_open_def split: option.splits)
  next
    case (Credit c r per i sc at)
    have pr: "positive_millis per \<le> 2 ^ 60" "c \<le> u64_max" "r \<le> u64_max"
      using assms(1) Credit by (auto simp: meter_ok_def spec_ok_def period_ok_def)
    have "(t - at) * int r \<le> (t' - at) * int r" using assms(3) by (intro mult_right_mono) auto
    with Credit assms t pr show ?thesis
      by (auto simp: headroom_def credit_balance_debt positive_millis_pos)
  qed
qed

lemma rolling_scan_not_Allow [simp]: "rolling_scan f x e n bs \<noteq> Allow"
  by (induction bs arbitrary: n) (auto simp: Let_def split: if_splits)

lemma allow_fits:
  assumes ok: "meter_ok m" and time: "time_ok t" and held: "held \<le> u64_max"
    and allow: "verdict m t held want = Allow"
  shows "unit_of m * int (held + want) \<le> headroom m (max t (last_seen m))"
proof -
  let ?t = "max t (last_seen m)"
  have seen: "time_ok (last_seen m)" using ok by (simp add: meter_ok_def)
  have want: "want \<le> spec_limit (m_spec m)" using allow by (auto simp: verdict_def Let_def split: if_splits)
  from ok show ?thesis
  proof (cases rule: meter_ok_cases)
    case (Fixed limit period w u)
    with allow show ?thesis
      by (auto simp: verdict_def unit_of_def headroom_def used_at_def Let_def split: if_splits)
  next
    case (Rolling limit period buckets)
    have d: "period_ok period" using ok Rolling by (simp add: meter_ok_def spec_ok_def)
    have st: "starts_ok buckets" using Rolling(4) seen positive_millis_pos by (rule starts_okI)
    let ?live = "filter (\<lambda>b. ?t < fst b + rolling_expiry period) buckets"
    have "spent_sum ?live \<le> u64_max"
      using Rolling(5) spent_sum_filter_le [of _ buckets] by (rule order_trans [rotated])
    then have "foldl saturating_add 0 (map snd ?live) = spent_sum ?live"
      using foldl_saturating_add [of 0 "map snd ?live"] by simp
    then show ?thesis
      using allow Rolling
      by (auto simp: verdict_def unit_of_def headroom_def used_at_def Let_def
          live_buckets_eq [OF st d] int_spent_sum split: if_splits)
  next
    case (Session limit len opened)
    with allow show ?thesis
      by (auto simp: verdict_def unit_of_def headroom_def used_at_def Let_def
          split: if_splits option.splits)
  next
    case (Credit c r per i sc at)
    have p: "positive_millis per \<le> 2 ^ 60" "c \<le> u64_max"
      using ok Credit by (auto simp: meter_ok_def spec_ok_def period_ok_def)
    have "int (held + want) * positive_millis per \<le> int (2 * u64_max) * 2 ^ 60"
      using held want Credit p positive_millis_pos [of per] by (intro mult_mono) auto
    then have "in_i128 (int (held + want) * positive_millis per)"
      using positive_millis_pos [of per] by (auto simp: rust_num intro: order_trans [of _ 0])
    with allow Credit show ?thesis
      by (auto simp: verdict_def unit_of_def headroom_def Let_def clamp_i128_exact mult.commute
          split: if_splits)
  qed
qed

lemma charge_spec [simp]: "m_spec (charge m at s) = m_spec m"
  by (simp add: charge_def Let_def)

lemma charge_seen [simp]: "last_seen (charge m at s) = max at (last_seen m)"
  by (simp add: charge_def Let_def)

lemma charge_zero: "charge m at 0 = m\<lparr>last_seen := max at (last_seen m)\<rparr>"
  by (simp add: charge_def Let_def)

lemma headroom_last_seen [simp]: "headroom (m\<lparr>last_seen := x\<rparr>) t = headroom m t"
  by (cases "m_state m") (simp_all add: headroom_def used_at_def)

lemma unit_of_charge: "unit_of (charge m at s) = unit_of m"
  by (auto simp: unit_of_def charge_def charge_state_def Let_def split: meter_state.splits)

lemma charge_nonzero:
  "0 < s \<Longrightarrow> m_state (charge m at s) = charge_state (m_state m) (max at (last_seen m)) s"
  by (simp add: charge_def Let_def)

text \<open>A charge takes from the headroom at most what was spent.\<close>

lemma charge_headroom_rolling:
  assumes ok: "meter_ok m" and a: "time_ok a" and t: "a \<le> t"
    and m: "m_spec m = SpecRolling limit period" "m_state m = StRolling period buckets"
      "sorted_wrt (<) (map fst buckets)"
    and st: "starts_ok buckets"
    and m': "m_spec m' = m_spec m" "m_state m' = charge_state (m_state m) a s"
  shows "headroom m t - int s \<le> headroom m' t"
proof -
  have d: "period_ok period" using ok m by (simp add: meter_ok_def spec_ok_def)
  let ?k = "window_start a (positive_millis (rolling_bucket period))" and ?e = "rolling_expiry period"
  let ?alive = "\<lambda>x. filter (\<lambda>b. x < fst b + ?e)"
  have pop: "pop_expired ?e a buckets = ?alive a buckets"
    by (rule pop_expired_eq [OF st d m(3)])
  let ?new = "push_bucket ?k s (?alive a buckets)"
  have "starts_ok ?new"
    using window_start_bounds [OF a positive_millis_pos, of "rolling_bucket period"] a
    by (intro push_bucket_starts_ok starts_ok_filter st) (auto simp: time_ok_def)
  moreover have "?alive t (?alive a buckets) = ?alive t buckets"
    unfolding filter_filter using t by (intro filter_cong) auto
  moreover note push_bucket_live_le [of t ?e ?k s "?alive a buckets"]
  ultimately show ?thesis
    using m m' by (simp add: headroom_def used_at_def charge_state_def Let_def
        pop live_buckets_eq [OF _ d] st int_spent_sum)
qed

lemma charge_headroom_credit:
  assumes p: "0 < p" "p \<le> 2 ^ 60" and cr: "c \<le> u64_max" "r \<le> u64_max"
    and sc: "- (int u64_max * p) \<le> sc" "sc \<le> int u64_max * p"
    and times: "0 \<le> since" "since \<le> a" "a \<le> t" "time_ok t"
    and s: "s \<le> u64_max"
  shows "credit_balance sc since t c r p - int s * p
      \<le> credit_balance (wrap_i128 (credit_balance sc since a c r p - int s * p)) a t c r p"
proof -
  let ?w = "int s * p" and ?cap = "int c * p" and ?x = "(a - since) * int r" and ?y = "(t - a) * int r"
  let ?bal = "\<lambda>z. if sc \<ge> ?cap then sc else min (sc + z) ?cap"
  have a: "time_ok a" using times by (auto simp: time_ok_def)
  have w: "0 \<le> ?w" "?w \<le> 2 ^ 124" and u: "int u64_max * p \<le> 2 ^ 124"
    and cap: "0 \<le> ?cap" "?cap \<le> int u64_max * p"
    using scaled_range [OF p s] scaled_range [OF p order_refl] scaled_range [OF p cr(1)] by auto
  have bal: "credit_balance sc since z c r p = ?bal ((z - since) * int r)"
    if "time_ok z" "since \<le> z" for z
    using that assms by (intro credit_balance_debt) auto
  have sum: "(t - since) * int r = ?x + ?y" by (simp add: algebra_simps)
  have nn: "0 \<le> ?x" "0 \<le> ?y" using times by (auto intro!: mult_nonneg_nonneg)
  then have b: "- (2 ^ 124) \<le> ?bal ?x" "?bal ?x \<le> int u64_max * p" using sc cap u by auto
  then have "in_i128 (?bal ?x - ?w)"
    by (rule difference_in_i128 [OF _ order_trans [OF _ u] w])
  then have "credit_balance (wrap_i128 (credit_balance sc since a c r p - ?w)) a t c r p
      = credit_balance (?bal ?x - ?w) a t c r p"
    using a times bal [of a] by (simp add: wrap_i128_exact)
  also have "\<dots> = (if ?bal ?x - ?w \<ge> ?cap then ?bal ?x - ?w else min (?bal ?x - ?w + ?y) ?cap)"
    using difference_bounds [OF b w] p cr a times
    by (intro credit_balance_eq) (auto simp: time_ok_def simp del: min.bounded_iff)
  also have "\<dots> \<ge> ?bal (?x + ?y) - ?w"
    by (rule refill_after_withdrawal [OF nn w(1)])
  finally show ?thesis using bal [of t] times by (simp only: sum)
qed

lemma charge_headroom:
  assumes ok: "meter_ok m" and at: "time_ok at" and t: "time_ok t" "max at (last_seen m) \<le> t"
    and s: "s \<le> u64_max"
  shows "headroom m t - unit_of m * int s \<le> headroom (charge m at s) t"
proof (cases "s = 0")
  case True
  then show ?thesis by (simp add: charge_zero)
next
  case False
  let ?a = "max at (last_seen m)"
  have seen: "time_ok (last_seen m)" using ok by (simp add: meter_ok_def)
  with at have a: "time_ok ?a" by simp
  from False have st': "m_state (charge m at s) = charge_state (m_state m) ?a s"
    by (simp add: charge_nonzero)
  from ok show ?thesis
  proof (cases rule: meter_ok_cases)
    case (Fixed limit period w u)
    let ?p = "positive_millis period"
    have "window_start (last_seen m) ?p \<le> window_start ?a ?p" "window_start ?a ?p \<le> window_start t ?p"
      using window_start_mono [OF _ _ _ positive_millis_pos] seen a t by auto
    with Fixed st' show ?thesis
      by (auto simp: headroom_def used_at_def unit_of_def charge_state_def Let_def saturating_add_def)
  next
    case (Rolling limit period buckets)
    have "starts_ok buckets" using Rolling(4) seen positive_millis_pos by (rule starts_okI)
    with charge_headroom_rolling [OF ok a t(2) Rolling(1-3) _ charge_spec st'] Rolling(2)
    show ?thesis by (simp add: unit_of_def)
  next
    case (Session limit len opened)
    with st' t(2) show ?thesis
      by (auto simp: headroom_def used_at_def unit_of_def charge_state_def session_open_def
          saturating_add_def split: option.splits if_splits)
  next
    case (Credit c r per i sc since)
    have "positive_millis per \<le> 2 ^ 60" "c \<le> u64_max" "r \<le> u64_max"
      using ok Credit by (auto simp: meter_ok_def spec_ok_def period_ok_def)
    then show ?thesis
      using charge_headroom_credit [OF positive_millis_pos, of per c r sc since ?a t s] Credit st' t s
      by (simp add: headroom_def unit_of_def charge_state_def mult.commute)
  qed
qed

text \<open>A charge keeps the meter in range while the debt it may leave and the limit fit \<open>u64\<close>
  together.\<close>

lemma state_ok_later:
  "state_ok spec seen st \<Longrightarrow> time_ok seen \<Longrightarrow> time_ok a \<Longrightarrow> seen \<le> a \<Longrightarrow> state_ok spec a st"
proof (induction spec seen st rule: state_ok.induct)
  case (1 limit period seen p w u)
  then show ?case
    using window_start_mono [of seen a p] positive_millis_pos [of period] by auto
next
  case (2 limit period seen d buckets)
  then show ?case
    using window_start_mono [of seen a "positive_millis (rolling_bucket d)"]
      positive_millis_pos [of "rolling_bucket d"] by (fastforce simp: list_all_iff)
qed (auto split: option.splits)

lemma rolling_charge_ok:
  assumes d: "period_ok period" and seen: "time_ok seen" and a: "time_ok a" "seen \<le> a"
    and st: "state_ok (SpecRolling limit period) seen (StRolling period buckets)"
    and s: "int s \<le> int limit - int (spent_sum (filter (\<lambda>b. a < fst b + rolling_expiry period) buckets)) + int debt"
    and lim: "limit + debt \<le> u64_max"
  shows "state_ok (SpecRolling limit period) a (charge_state (StRolling period buckets) a s)"
proof -
  let ?w = "positive_millis (rolling_bucket period)"
  let ?k = "window_start a ?w" and ?live = "filter (\<lambda>b. a < fst b + rolling_expiry period) buckets"
  have ok: "starts_ok buckets" using st seen positive_millis_pos by (auto intro: starts_okI)
  have pop: "pop_expired (rolling_expiry period) a buckets = ?live"
    using pop_expired_eq [OF ok d] st by simp
  have "window_start seen ?w \<le> ?k" using window_start_mono seen a positive_millis_pos by blast
  with st have bnd: "\<forall>b \<in> set ?live. 0 \<le> fst b \<and> fst b \<le> ?k"
    by (fastforce simp: list_all_iff)
  have "sorted_wrt (<) (map fst ?live)" using st by (simp add: sorted_wrt_filter sorted_wrt_map)
  with bnd have "sorted_wrt (<) (map fst (push_bucket ?k s ?live))"
    by (intro push_bucket_sorted) auto
  moreover have "0 \<le> fst b \<and> fst b \<le> ?k" if "b \<in> set (push_bucket ?k s ?live)" for b
    using push_bucket_starts [OF that] bnd window_start_bounds(1) [OF a(1) positive_millis_pos]
    by auto
  moreover have "spent_sum (push_bucket ?k s ?live) \<le> u64_max"
    using push_bucket_sum [of ?k s ?live] s lim by linarith
  ultimately show ?thesis by (auto simp: charge_state_def Let_def pop list_all_iff)
qed

lemma credit_charge_ok:
  assumes p: "positive_millis per \<le> 2 ^ 60" and cr: "c \<le> u64_max" "r \<le> u64_max"
    and seen: "seen \<le> a" "time_ok a"
    and st: "state_ok (SpecCredit c r per i) seen (StCredit c r (positive_millis per) sc since)"
    and s: "positive_millis per * int s \<le> credit_balance sc since a c r (positive_millis per) + positive_millis per * int debt"
    and debt: "debt \<le> u64_max" "s \<le> u64_max"
  shows "state_ok (SpecCredit c r per i) a (charge_state (StCredit c r (positive_millis per) sc since) a s)"
proof -
  let ?p = "positive_millis per"
  let ?b = "credit_balance sc since a c r ?p"
  note pp = positive_millis_pos [of per]
  have "?b = (if sc \<ge> int c * ?p then sc else min (sc + (a - since) * int r) (int c * ?p))"
    using assms pp by (intro credit_balance_debt) auto
  moreover have "0 \<le> (a - since) * int r" using st seen by auto
  ultimately have b: "- (2 ^ 124) \<le> ?b" "?b \<le> int u64_max * ?p" "int u64_max * ?p \<le> 2 ^ 124"
    using st scaled_range [OF pp p cr(1)] scaled_range [OF pp p order_refl] by auto
  have w: "0 \<le> int s * ?p" "int s * ?p \<le> 2 ^ 124" using scaled_range [OF pp p debt(2)] by auto
  with b have "in_i128 (?b - int s * ?p)" by (intro difference_in_i128) simp_all
  moreover have "- (int u64_max * ?p) \<le> ?b - int s * ?p"
    using s scaled_range [OF pp p debt(1)] by (simp add: mult.commute)
  ultimately show ?thesis
    using st b w seen by (auto simp: charge_state_def wrap_i128_exact time_ok_def)
qed

lemma charge_ok:
  assumes ok: "meter_ok m" and at: "time_ok at" and s: "s \<le> u64_max"
    and fits: "unit_of m * int s \<le> headroom m (max at (last_seen m)) + unit_of m * int debt"
    and debt: "spec_limit (m_spec m) + debt \<le> u64_max"
  shows "meter_ok (charge m at s)"
proof -
  let ?a = "max at (last_seen m)"
  have seen: "time_ok (last_seen m)"
    and st: "state_ok (m_spec m) (last_seen m) (m_state m)" and sp: "spec_ok (m_spec m)"
    using ok by (simp_all add: meter_ok_def spec_ok_def)
  with at have a: "time_ok ?a" by simp
  have "state_ok (m_spec m) ?a (m_state (charge m at s))"
  proof (cases "s = 0")
    case True
    then show ?thesis using state_ok_later [OF st seen a] by (simp add: charge_zero)
  next
    case False
    then have st': "m_state (charge m at s) = charge_state (m_state m) ?a s"
      by (simp add: charge_nonzero)
    from ok show ?thesis
    proof (cases rule: meter_ok_cases)
      case (Fixed limit period w u)
      with st' show ?thesis by (simp add: charge_state_def Let_def saturating_add_def)
    next
      case (Session limit len opened)
      with st' s at seen show ?thesis
        by (auto simp: charge_state_def session_open_def saturating_add_def time_ok_def
            split: option.splits if_splits)
    next
      case (Rolling limit period buckets)
      have d: "period_ok period" using sp Rolling by (simp add: spec_ok_def)
      have "starts_ok buckets" using Rolling(4) seen positive_millis_pos by (rule starts_okI)
      with fits Rolling have "int s \<le> int limit -
          int (spent_sum (filter (\<lambda>b. ?a < fst b + rolling_expiry period) buckets)) + int debt"
        by (simp add: unit_of_def headroom_def used_at_def live_buckets_eq [OF _ d] int_spent_sum)
      with rolling_charge_ok [OF d seen a, of limit buckets s debt] st debt Rolling st'
      show ?thesis by simp
    next
      case (Credit c r per i sc since)
      with credit_charge_ok [of per c r "last_seen m" ?a i sc since s debt] sp fits st st' a debt s
      show ?thesis by (simp add: spec_ok_def period_ok_def unit_of_def headroom_def)
    qed
  qed
  with ok a show ?thesis by (simp add: meter_ok_def)
qed

text \<open>No meter has more to give than \<open>u64\<close> can hold.\<close>

lemma used_at_nonneg:
  "meter_ok m \<Longrightarrow> case m_state m of StCredit _ _ _ _ _ \<Rightarrow> True | _ \<Rightarrow> 0 \<le> used_at m t"
  by (cases rule: meter_ok_cases) (auto simp: used_at_def int_spent_sum split: option.splits)

lemma headroom_bounded:
  assumes ok: "meter_ok m" and t: "time_ok t" "last_seen m \<le> t"
  shows "headroom m t \<le> unit_of m * int u64_max"
  using ok
proof (cases rule: meter_ok_cases)
  case (Credit c r per i sc at)
  have pr: "positive_millis per \<le> 2 ^ 60" "c \<le> u64_max" "r \<le> u64_max"
    using ok Credit by (auto simp: meter_ok_def spec_ok_def period_ok_def)
  then have "int c * positive_millis per \<le> int u64_max * positive_millis per"
    using positive_millis_pos [of per] by (intro mult_right_mono) auto
  with Credit t pr show ?thesis
    by (simp add: headroom_def unit_of_def credit_balance_debt positive_millis_pos
        mult.commute [of "positive_millis per"] min.coboundedI2)
qed (use used_at_nonneg [OF ok, of t] limit_in_range [OF ok] in
    \<open>auto simp: headroom_def unit_of_def\<close>)

section \<open>The contract of a meter\<close>

text \<open>What a budget relies on. \<open>decide\<close> is the meter's verdict on a call of \<open>want\<close>
  tokens while \<open>held\<close> are reserved, \<open>spend\<close> its charge; \<open>room\<close> is what it still
  has to give, in units of \<open>scale\<close>, which is negative when more was spent than the meter had;
  \<open>ceiling\<close> is its limit, \<open>ok\<close> its invariant and \<open>clock\<close> the times the laws are
  stated for.\<close>

locale spend_meter =
  fixes ok :: "'m \<Rightarrow> bool"
    and clock :: "int \<Rightarrow> bool"
    and seen :: "'m \<Rightarrow> int"
    and scale :: "'m \<Rightarrow> int"
    and ceiling :: "'m \<Rightarrow> nat"
    and room :: "'m \<Rightarrow> int \<Rightarrow> int"
    and decide :: "'m \<Rightarrow> int \<Rightarrow> nat \<Rightarrow> nat \<Rightarrow> meter_verdict"
    and spend :: "'m \<Rightarrow> int \<Rightarrow> nat \<Rightarrow> 'm"
  assumes clock_max: "clock s \<Longrightarrow> clock t \<Longrightarrow> clock (max s t)"
    and seen_clock: "ok m \<Longrightarrow> clock (seen m)"
    and scale_pos: "ok m \<Longrightarrow> 0 < scale m"
    and room_mono: "ok m \<Longrightarrow> seen m \<le> s \<Longrightarrow> s \<le> t \<Longrightarrow> clock t \<Longrightarrow> room m s \<le> room m t"
    and room_bounded: "ok m \<Longrightarrow> clock t \<Longrightarrow> seen m \<le> t \<Longrightarrow> room m t \<le> scale m * int u64_max"
    and decide_room: "ok m \<Longrightarrow> clock t \<Longrightarrow> held \<le> u64_max \<Longrightarrow> decide m t held want = Allow
      \<Longrightarrow> scale m * int (held + want) \<le> room m (max t (seen m))"
    and spend_room: "ok m \<Longrightarrow> clock a \<Longrightarrow> clock t \<Longrightarrow> max a (seen m) \<le> t \<Longrightarrow> n \<le> u64_max
      \<Longrightarrow> room m t - scale m * int n \<le> room (spend m a n) t"
    and spend_ok: "ok m \<Longrightarrow> clock a \<Longrightarrow> n \<le> u64_max
      \<Longrightarrow> scale m * int n \<le> room m (max a (seen m)) + scale m * int debt
      \<Longrightarrow> ceiling m + debt \<le> u64_max \<Longrightarrow> ok (spend m a n)"
    and spend_seen: "seen (spend m a n) = max a (seen m)"
    and spend_scale: "scale (spend m a n) = scale m"
    and spend_ceiling: "ceiling (spend m a n) = ceiling m"
begin

text \<open>At time \<open>t\<close> the meter can pay for everything that is held, but for a debt.\<close>

definition secured :: "nat \<Rightarrow> nat \<Rightarrow> int \<Rightarrow> 'm \<Rightarrow> bool" where
  "secured debt held t m \<longleftrightarrow>
     ok m \<and> scale m * int held \<le> room m (max t (seen m)) + scale m * int debt"

lemma scale_mono: "ok m \<Longrightarrow> h \<le> k \<Longrightarrow> scale m * int h \<le> scale m * int k"
  using scale_pos [of m] by (simp add: mult_left_mono)

lemma scale_nonneg: "ok m \<Longrightarrow> 0 \<le> scale m * int n"
  using scale_pos [of m] by simp

lemma decide_bound:
  assumes "ok m" "clock t" "held \<le> u64_max" "decide m t held want = Allow"
  shows "held + want \<le> u64_max"
proof -
  have "scale m * int (held + want) \<le> room m (max t (seen m))"
    by (rule decide_room [OF assms])
  also have "\<dots> \<le> scale m * int u64_max"
    by (intro room_bounded clock_max seen_clock assms) simp
  finally show ?thesis using scale_pos [OF assms(1)] by (simp del: of_nat_add)
qed

lemma secured_later:
  assumes "secured debt held t m" "t \<le> t'" "clock t'"
  shows "secured debt held t' m"
proof -
  from assms have m: "ok m" by (simp add: secured_def)
  have "room m (max t (seen m)) \<le> room m (max t' (seen m))"
    using assms(2) by (intro room_mono m clock_max assms seen_clock) auto
  with assms(1) show ?thesis by (simp add: secured_def)
qed

lemma secured_less: "secured debt held t m \<Longrightarrow> h \<le> held \<Longrightarrow> secured debt h t m"
  using scale_mono [of m h held] by (auto simp: secured_def)

lemma secured_reserve:
  assumes "ok m" "clock now" "held \<le> u64_max" "decide m now held want = Allow"
  shows "secured debt (held + want) now m"
  using decide_room [OF assms] scale_nonneg [OF assms(1), of debt] assms(1)
  by (simp add: secured_def)

text \<open>A settlement releases its reservation, and what it used beyond it is added to the debt.\<close>

lemma secured_settle:
  assumes held: "secured debt held t m" and times: "t \<le> at" "clock at"
    and spent: "r \<le> held" "actual \<le> u64_max"
    and fits: "ceiling m + (debt + (actual - r)) \<le> u64_max"
  shows "secured (debt + (actual - r)) (held - r) at (spend m at actual)"
proof -
  let ?t = "max at (seen m)" and ?debt = "debt + (actual - r)"
  have m: "ok m" "scale m * int held \<le> room m ?t + scale m * int debt"
    using secured_later [OF held times] by (simp_all add: secured_def)
  have t: "clock ?t" by (intro clock_max times seen_clock m)
  have "held - r + actual + debt \<le> held + ?debt" using spent by simp
  then have "scale m * int (held - r + actual + debt) \<le> scale m * int (held + ?debt)"
    by (rule scale_mono [OF m(1)])
  with m(2) have pay: "scale m * int (held - r) + scale m * int actual \<le> room m ?t + scale m * int ?debt"
    by (simp add: distrib_left)
  then have "scale m * int actual \<le> room m ?t + scale m * int ?debt"
    using scale_nonneg [OF m(1), of "held - r"] by linarith
  then have "ok (spend m at actual)" by (rule spend_ok [OF m(1) times(2) spent(2) _ fits])
  moreover have "room m ?t - scale m * int actual \<le> room (spend m at actual) ?t"
    by (rule spend_room [OF m(1) times(2) t _ spent(2)]) simp
  ultimately show ?thesis
    using pay by (simp add: secured_def spend_seen spend_scale max.commute max.left_commute)
qed

end

interpretation gov:
  spend_meter meter_ok time_ok last_seen unit_of "\<lambda>m. spec_limit (m_spec m)" headroom verdict charge
proof unfold_locales
  show "meter_ok m \<Longrightarrow> time_ok (last_seen m)" for m by (simp add: meter_ok_def)
  show "meter_ok m \<Longrightarrow> time_ok t \<Longrightarrow> held \<le> u64_max \<Longrightarrow> verdict m t held want = Allow
      \<Longrightarrow> unit_of m * int (held + want) \<le> headroom m (max t (last_seen m))" for m t held want
    by (rule allow_fits)
qed (simp_all add: unit_pos headroom_mono headroom_bounded charge_headroom charge_ok
    unit_of_charge)

text \<open>The headroom of a meter that can pay for what is held, but for a debt, shows in its
  status, which is clamped to \<open>i64\<close>.\<close>

lemma status_remaining:
  "ms_remaining (status m t) = clamp_i64 (int (spec_limit (m_spec m)) - used_at m (max t (last_seen m)))"
  by (auto simp: status_def Let_def i64_try_from_def in_i64_def i64_min_def i64_max_def clamp_i64_def)

lemma secured_status:
  assumes "gov.secured debt held t m" "time_ok t"
  shows "clamp_i64 (int held - int debt) \<le> ms_remaining (status m t)"
proof -
  let ?t = "max t (last_seen m)"
  from assms have m: "meter_ok m" "unit_of m * (int held - int debt) \<le> headroom m ?t"
    by (simp_all add: gov.secured_def right_diff_distrib)
  have "int held - int debt \<le> int (spec_limit (m_spec m)) - used_at m ?t"
    using m(1)
  proof (cases rule: meter_ok_cases)
    case (Credit c r per i sc at)
    with m(2) have "(int held - int debt) * positive_millis per \<le> headroom m ?t"
      by (simp add: unit_of_def mult.commute)
    from zdiv_mono1 [OF this positive_millis_pos [of per]]
    have "int held - int debt \<le> headroom m ?t div positive_millis per"
      using positive_millis_pos [of per] by simp
    with Credit show ?thesis by (simp add: headroom_def used_at_def)
  qed (use m(2) in \<open>simp_all add: unit_of_def headroom_def\<close>)
  then show ?thesis by (auto simp: status_remaining clamp_i64_def)
qed

end
