(* ===== verification/Governor_Waits.thy ===== *)
theory Governor_Waits
  imports Governor_Laws
begin

text \<open>
  The waits a meter announces. A call is allowed exactly when the meter's headroom covers it
  (\<open>allow_iff\<close>); when the refusal comes with a wait and the call could fit an empty meter, it is
  refused at every moment before the wait ends and allowed when it has ended
  (\<open>wait_exact\<close>, over the four kinds of meter). A call that does not fit an empty meter beside
  what is reserved is refused for as long as that stays reserved (\<open>no_room_beside\<close>).
\<close>

section \<open>Allowed means covered\<close>

lemma live_sum:
  assumes ok: "meter_ok m" and m: "m_spec m = SpecRolling limit period" "m_state m = StRolling period buckets"
  shows "foldl saturating_add 0 (map snd (live_buckets (rolling_expiry period) t buckets))
      = spent_sum (filter (\<lambda>b. t < fst b + rolling_expiry period) buckets)"
    and "used_at m t = int (spent_sum (filter (\<lambda>b. t < fst b + rolling_expiry period) buckets))"
proof -
  have d: "period_ok period" and bs: "spent_sum buckets \<le> u64_max"
    and st: "starts_ok buckets"
    using ok m starts_okI [of "last_seen m" "positive_millis (rolling_bucket period)" buckets]
    by (auto simp: meter_ok_def spec_ok_def positive_millis_pos)
  note eq = live_buckets_eq [OF st d]
  have "spent_sum (filter (\<lambda>b. t < fst b + rolling_expiry period) buckets) \<le> u64_max"
    using bs spent_sum_filter_le order_trans by blast
  then show "foldl saturating_add 0 (map snd (live_buckets (rolling_expiry period) t buckets))
      = spent_sum (filter (\<lambda>b. t < fst b + rolling_expiry period) buckets)"
    using foldl_saturating_add [of 0 "map snd (filter (\<lambda>b. t < fst b + rolling_expiry period) buckets)"]
    by (simp add: eq)
  show "used_at m t = int (spent_sum (filter (\<lambda>b. t < fst b + rolling_expiry period) buckets))"
    using m by (simp add: used_at_def eq int_spent_sum)
qed

lemma asked_in_i128:
  assumes "held \<le> u64_max" "want \<le> u64_max" "0 < p" "p \<le> 2 ^ 60"
  shows "in_i128 (int (held + want) * p)" "0 \<le> int (held + want) * p"
    "int (held + want) * p \<le> 2 ^ 126"
proof -
  have "int (held + want) * p \<le> int (2 * u64_max) * 2 ^ 60"
    using assms by (intro mult_mono) auto
  then show "int (held + want) * p \<le> 2 ^ 126" by (simp add: u64_max_def)
  moreover show "0 \<le> int (held + want) * p" using assms by simp
  ultimately show "in_i128 (int (held + want) * p)" by (simp add: rust_num)
qed

lemma allow_iff:
  assumes ok: "meter_ok m" and time: "time_ok t" and held: "held \<le> u64_max"
  shows "verdict m t held want = Allow \<longleftrightarrow> want \<le> spec_limit (m_spec m) \<and>
    unit_of m * int (held + want) \<le> headroom m (max t (last_seen m))"
proof
  assume allow: "verdict m t held want = Allow"
  then have "want \<le> spec_limit (m_spec m)" by (auto simp: verdict_def Let_def split: if_splits)
  with allow_fits [OF assms allow] show "want \<le> spec_limit (m_spec m) \<and>
    unit_of m * int (held + want) \<le> headroom m (max t (last_seen m))" by blast
next
  let ?t = "max t (last_seen m)"
  assume fits: "want \<le> spec_limit (m_spec m) \<and> unit_of m * int (held + want) \<le> headroom m ?t"
  from ok show "verdict m t held want = Allow"
  proof (cases rule: meter_ok_cases)
    case (Fixed limit period w u)
    with fits show ?thesis
      by (auto simp: verdict_def unit_of_def headroom_def used_at_def Let_def split: if_splits)
  next
    case (Rolling limit period buckets)
    with fits live_sum [OF ok Rolling(1,2)] show ?thesis
      by (auto simp: verdict_def unit_of_def headroom_def Let_def)
  next
    case (Session limit len opened)
    with fits show ?thesis
      by (auto simp: verdict_def unit_of_def headroom_def used_at_def Let_def
          split: if_splits option.splits)
  next
    case (Credit c r per i sc at)
    have "positive_millis per \<le> 2 ^ 60" "want \<le> u64_max"
      using ok fits Credit by (auto simp: meter_ok_def spec_ok_def period_ok_def)
    then have "in_i128 (int (held + want) * positive_millis per)"
      using held positive_millis_pos asked_in_i128(1) by blast
    with fits Credit show ?thesis
      by (auto simp: verdict_def unit_of_def headroom_def Let_def clamp_i128_exact mult.commute)
  qed
qed

section \<open>The length of a wait\<close>

definition wait_millis :: "duration \<Rightarrow> int" where
  "wait_millis w = int (as_millis w)"

lemma wait_millis_from_millis [simp]: "wait_millis (from_millis n) = int n"
  by (simp add: wait_millis_def as_millis_def from_millis_def)

lemma wait_millis_wait:
  assumes "time_ok now" "now \<le> until" "until < 2 ^ 63"
  shows "wait_millis (wait now until) = until - now"
proof -
  have "in_i64 (until - now)" using assms by (simp add: time_ok_def rust_num)
  then show ?thesis
    using assms by (simp add: wait_def clamp_i64_exact u64_try_from_def u64_max_def time_ok_def)
qed

text \<open>The moment a wait ends is the first at which the headroom covers what is asked.\<close>

definition first_covered :: "meter \<Rightarrow> int \<Rightarrow> int \<Rightarrow> nat \<Rightarrow> bool" where
  "first_covered m now until asked \<longleftrightarrow>
     unit_of m * int asked \<le> headroom m until \<and>
     (\<forall>t. now \<le> t \<longrightarrow> t < until \<longrightarrow> headroom m t < unit_of m * int asked)"

lemma wait_exact_fixed:
  assumes ok: "meter_ok m" and now: "time_ok now" "last_seen m \<le> now"
    and m: "m_spec m = SpecFixed limit period" "m_state m = StFixed (positive_millis period) w u"
      "w \<le> window_start (last_seen m) (positive_millis period)"
    and asked: "held + want \<le> limit"
    and v: "verdict m now held want = Wait d"
    and until: "time_ok (now + wait_millis d)"
  shows "first_covered m now (now + wait_millis d) (held + want)"
proof -
  let ?p = "positive_millis period"
  let ?cur = "window_start now ?p"
  have p: "0 < ?p" "?p \<le> 2 ^ 60" using positive_millis_pos period_in_range [OF ok] m by auto
  note b = window_start_bounds [OF now(1) p(1)]
  have cl: "clamp_i64 (?cur + ?p) = ?cur + ?p"
    using b p now by (intro clamp_i64_exact) (simp add: time_ok_def rust_num)
  have u: "w = ?cur" "limit < u + (held + want)" and d: "d = wait now (?cur + ?p)"
    using v m asked now by (auto simp: verdict_def Let_def max_def cl split: if_splits)
  have e: "now + wait_millis d = ?cur + ?p"
    using b p now wait_millis_wait [OF now(1), of "?cur + ?p"] by (simp add: d time_ok_def)
  have "?cur + ?p = window_start (?cur + ?p) ?p"
    using until p by (simp add: e window_start_eq window_start_eq [OF now(1)] distrib_right)
  then have "headroom m (?cur + ?p) = int limit"
    using m u p by (simp add: headroom_def used_at_def)
  moreover have "headroom m t < int (held + want)" if t: "now \<le> t" "t < ?cur + ?p" for t
  proof -
    have "time_ok t" using t now until e by (auto simp: time_ok_def)
    moreover have "t div ?p = now div ?p"
      using t b p window_start_eq [OF now(1) p(1)]
      by (intro int_div_pos_eq [where r = "t - now div ?p * ?p"]) (auto simp: mult.commute)
    ultimately have "window_start t ?p = ?cur"
      using p now by (simp add: window_start_eq)
    with m u show ?thesis by (simp add: headroom_def used_at_def)
  qed
  ultimately show ?thesis
    using asked m by (simp add: first_covered_def unit_of_def e)
qed

lemma rolling_scan_exact:
  assumes "sorted_wrt (<) (map fst bs)" "used = spent_sum bs" "limit < used + asked" "asked \<le> limit"
    and "starts_ok bs" "period_ok d" "e = rolling_expiry d"
    and "rolling_scan (\<lambda>u. u + asked \<le> limit) now e used bs = Wait w"
  shows "\<exists>until. w = wait now until \<and> (\<exists>b \<in> set bs. until = fst b + e) \<and>
    spent_sum (filter (\<lambda>b. until < fst b + e) bs) + asked \<le> limit \<and>
    (\<forall>t < until. limit < spent_sum (filter (\<lambda>b. t < fst b + e) bs) + asked)"
  using assms
proof (induction bs arbitrary: used)
  case Nil
  then show ?case by simp
next
  case (Cons b bs)
  obtain s n where b: "b = (s, n)" by (cases b)
  have wrap: "wrap_i64 (s + e) = s + e"
    using Cons.prems(5-7) rolling_expiry_bounds(2,3) [OF Cons.prems(6)] b
    by (intro wrap_i64_exact) (auto simp: starts_ok_def rust_num)
  have later: "s < fst c" if "c \<in> set bs" for c using that Cons.prems(1) b by auto
  have sub: "saturating_sub used n = spent_sum bs" using Cons.prems(2) b by (simp add: saturating_sub_def)
  show ?case
  proof (cases "spent_sum bs + asked \<le> limit")
    case True
    then have "w = wait now (s + e)" using Cons.prems(8) b sub wrap by (simp add: Let_def)
    moreover have "filter (\<lambda>c. s + e < fst c + e) (b # bs) = bs"
      using later b by (simp add: filter_id_conv)
    moreover have "filter (\<lambda>c. t < fst c + e) (b # bs) = b # bs" if "t < s + e" for t
      using later that b by (fastforce simp: filter_id_conv)
    ultimately show ?thesis
      using True Cons.prems(2,3) b by (intro exI [of _ "s + e"]) auto
  next
    case False
    then have "rolling_scan (\<lambda>u. u + asked \<le> limit) now e (spent_sum bs) bs = Wait w"
      using Cons.prems(8) b sub by (simp add: Let_def)
    with Cons.IH [of "spent_sum bs"] Cons.prems False obtain until c where
      until: "w = wait now until" "c \<in> set bs" "until = fst c + e"
        "spent_sum (filter (\<lambda>b. until < fst b + e) bs) + asked \<le> limit"
        "\<forall>t < until. limit < spent_sum (filter (\<lambda>b. t < fst b + e) bs) + asked"
      by (auto simp: starts_ok_def)
    then have "\<not> until < s + e" using later by fastforce
    with until b show ?thesis by (intro exI [of _ until]) (auto simp: add.assoc add.left_commute trans_less_add2)
  qed
qed

lemma wait_exact_rolling:
  assumes ok: "meter_ok m" and now: "time_ok now" "last_seen m \<le> now"
    and m: "m_spec m = SpecRolling limit period" "m_state m = StRolling period buckets"
    and asked: "held + want \<le> limit"
    and v: "verdict m now held want = Wait w"
  shows "first_covered m now (now + wait_millis w) (held + want)"
proof -
  let ?e = "rolling_expiry period" and ?asked = "held + want"
  let ?alive = "\<lambda>t. filter (\<lambda>b. t < fst b + ?e)"
  have d: "period_ok period" and sorted: "sorted_wrt (<) (map fst buckets)"
    and st: "starts_ok buckets"
    using ok m starts_okI [of "last_seen m" "positive_millis (rolling_bucket period)" buckets]
    by (auto simp: meter_ok_def spec_ok_def positive_millis_pos)
  note sum = live_sum [OF ok m]
  have "sorted_wrt (<) (map fst (?alive now buckets))"
    using sorted by (simp add: sorted_wrt_filter sorted_wrt_map)
  moreover have "limit < spent_sum (?alive now buckets) + ?asked"
      "rolling_scan (\<lambda>u. u + ?asked \<le> limit) now ?e (spent_sum (?alive now buckets)) (?alive now buckets) = Wait w"
    using v m now asked sum(1) [of now]
    by (auto simp: verdict_def Let_def max_def live_buckets_eq [OF st d] split: if_splits)
  ultimately obtain until b where until: "w = wait now until" "b \<in> set (?alive now buckets)"
      "until = fst b + ?e" "spent_sum (?alive until (?alive now buckets)) + ?asked \<le> limit"
      "\<forall>t < until. limit < spent_sum (?alive t (?alive now buckets)) + ?asked"
    using rolling_scan_exact [OF _ refl _ asked starts_ok_filter [OF st] d refl] by blast
  have e: "now + wait_millis w = until"
    using until(2,3) st rolling_expiry_bounds(3) [OF d] wait_millis_wait [OF now(1), of until]
    by (auto simp: until(1) starts_ok_def)
  have alive: "?alive t (?alive now buckets) = ?alive t buckets" if "now \<le> t" for t
    unfolding filter_filter using that by (intro filter_cong) auto
  have "now \<le> until" using until(2,3) by auto
  then have "spent_sum (?alive until buckets) + ?asked \<le> limit"
    using until(4) by (simp only: alive)
  moreover have "limit < spent_sum (?alive t buckets) + ?asked" if "now \<le> t" "t < until" for t
    using until(5) [rule_format, OF that(2)] by (simp only: alive [OF that(1)])
  ultimately show ?thesis
    unfolding first_covered_def e using m
    by (fastforce simp: unit_of_def headroom_def sum(2))
qed

lemma wait_exact_session:
  assumes ok: "meter_ok m" and now: "time_ok now" "last_seen m \<le> now"
    and m: "m_spec m = SpecSession limit len" "m_state m = StSession (positive_millis len) opened"
    and asked: "held + want \<le> limit"
    and v: "verdict m now held want = Wait w"
  shows "first_covered m now (now + wait_millis w) (held + want)"
proof -
  let ?p = "positive_millis len"
  have p: "0 < ?p" "?p \<le> 2 ^ 60" using positive_millis_pos period_in_range [OF ok] m by auto
  obtain s u where opened: "opened = Some (s, u)" "now < wrap_i64 (s + ?p)"
    "limit < u + (held + want)" "w = wait now (wrap_i64 (s + ?p))"
    using v m asked now
    by (auto simp: verdict_def Let_def max_def session_open_def split: if_splits option.splits)
  have "0 \<le> s" "s \<le> last_seen m" using ok m opened by (auto simp: meter_ok_def)
  then have wrap: "wrap_i64 (s + ?p) = s + ?p" and "s + ?p < 2 ^ 63"
    using p now by (auto simp: time_ok_def rust_num intro: wrap_i64_exact)
  then have e: "now + wait_millis w = s + ?p"
    using opened now by (simp add: wait_millis_wait)
  show ?thesis
    unfolding first_covered_def e using m opened asked
    by (auto simp: unit_of_def headroom_def used_at_def session_open_def wrap)
qed

text \<open>Refilling for the rounded-up quotient of the shortfall covers it, and no shorter time does.\<close>

lemma refill_time:
  fixes gap r t :: int
  assumes "0 < r" "0 < gap"
  shows "gap \<le> (gap + r - 1) div r * r" "t < (gap + r - 1) div r \<Longrightarrow> t * r < gap"
proof -
  let ?q = "(gap + r - 1) div r"
  note b = floor_mult_bounds [OF assms(1), of "gap + r - 1"]
  show "gap \<le> ?q * r" using b by linarith
  assume "t < ?q"
  then have "t * r \<le> (?q - 1) * r" using assms by (intro mult_right_mono) auto
  with b show "t * r < gap" by (simp add: left_diff_distrib)
qed

lemma wait_exact_credit:
  assumes ok: "meter_ok m" and now: "time_ok now" "last_seen m \<le> now"
    and m: "m_spec m = SpecCredit c r per i" "m_state m = StCredit c r (positive_millis per) sc at"
    and held: "held \<le> u64_max" and asked: "held + want \<le> c"
    and v: "verdict m now held want = Wait w"
    and until: "time_ok (now + wait_millis w)"
  shows "first_covered m now (now + wait_millis w) (held + want)"
proof -
  let ?p = "positive_millis per"
  let ?need = "int (held + want) * ?p" and ?bal = "\<lambda>t. credit_balance sc at t c r ?p"
  have p: "0 < ?p" "?p \<le> 2 ^ 60" and cr: "c \<le> u64_max" "r \<le> u64_max"
    and sc: "- (int u64_max * ?p) \<le> sc" "sc \<le> int u64_max * ?p" "0 \<le> at" "at \<le> now"
    using ok m now positive_millis_pos by (auto simp: meter_ok_def spec_ok_def period_ok_def)
  have bal: "?bal t = (if sc \<ge> int c * ?p then sc else min (sc + (t - at) * int r) (int c * ?p))"
    if "now \<le> t" "time_ok t" for t
    using that p cr sc by (intro credit_balance_debt) auto
  note need = asked_in_i128 [OF held _ p, of want]
  have cap: "?need \<le> int c * ?p" using asked p by (intro mult_right_mono) auto
  have need_i: "clamp_i128 ?need = ?need" using need(1) asked cr by (simp add: clamp_i128_exact)
  let ?ms = "trunc_div (wrap_i128 (?need - ?bal now + int r - 1)) (int r)"
  have low: "?bal now < ?need" and r: "0 < r"
    and w: "w = from_millis (unwrap_or u64_max (u64_try_from ?ms))"
    using v m now asked need_i by (auto simp: verdict_def Let_def max_def split: if_splits)
  have small: "?bal now = sc + (now - at) * int r" and lt: "sc < int c * ?p"
    using bal [of now] now low cap by (auto split: if_splits)
  have "0 \<le> (now - at) * int r" using sc by auto
  then have b0: "- (2 ^ 124) \<le> ?bal now"
    using small sc scaled_range [OF p order_refl] by linarith
  have needc: "?need \<le> 2 ^ 124" using cap scaled_range [OF p cr(1)] by linarith
  have "in_i128 (?need - ?bal now + int r - 1)"
    using needc cr b0 low by (simp add: rust_num)
  then have ms: "?ms = (?need - ?bal now + int r - 1) div int r"
    using low r by (simp add: wrap_i128_exact trunc_div_pos)
  have "0 \<le> ?ms" unfolding ms using low r by (simp add: pos_imp_zdiv_nonneg_iff)
  moreover have "?ms \<le> int u64_max"
  proof (rule ccontr)
    assume "\<not> ?ms \<le> int u64_max"
    then have "wait_millis w = int u64_max" unfolding w u64_try_from_def by simp
    with until now show False by (simp add: time_ok_def u64_max_def)
  qed
  ultimately have ms_bounds: "0 \<le> ?ms" "?ms \<le> int u64_max" .
  then have e: "wait_millis w = ?ms" by (simp add: w u64_try_from_def)
  have "0 < int r" "0 < ?need - ?bal now" using r low by simp_all
  note rt = refill_time [OF this, folded ms]
  have cover: "?need \<le> sc + (now + ?ms - at) * int r"
    using rt(1) unfolding small by (simp add: left_diff_distrib distrib_right)
  have "?need \<le> ?bal (now + ?ms)"
    using cover cap lt bal [of "now + ?ms"] ms_bounds until unfolding e by auto
  moreover have "?bal t < ?need" if "now \<le> t" "t < now + ?ms" for t
  proof -
    have "time_ok t" using that until now by (auto simp: time_ok_def e)
    then have "?bal t \<le> sc + (t - at) * int r" using bal [of t] that lt by auto
    also have "\<dots> = ?bal now + (t - now) * int r" unfolding small by (simp add: left_diff_distrib)
    also have "\<dots> < ?need" using rt(2) [of "t - now"] that by simp
    finally show ?thesis .
  qed
  ultimately show ?thesis
    unfolding first_covered_def e using m
    by (simp add: unit_of_def headroom_def mult.commute)
qed

section \<open>Every kind of meter\<close>

lemma wait_exact:
  assumes ok: "meter_ok m" and now: "time_ok now" "last_seen m \<le> now"
    and held: "held \<le> u64_max" and asked: "held + want \<le> spec_limit (m_spec m)"
    and v: "verdict m now held want = Wait w" and until: "time_ok (now + wait_millis w)"
  shows "first_covered m now (now + wait_millis w) (held + want)"
  using ok
proof (cases rule: meter_ok_cases)
  case Fixed
  with wait_exact_fixed [OF ok now Fixed(1-3) _ v until] asked show ?thesis by simp
next
  case Rolling
  with wait_exact_rolling [OF ok now Rolling(1,2) _ v] asked show ?thesis by simp
next
  case Session
  with wait_exact_session [OF ok now Session(1,2) _ v] asked show ?thesis by simp
next
  case Credit
  with wait_exact_credit [OF ok now Credit(1,2) held _ v until] asked show ?thesis by simp
qed

text \<open>When what is reserved and asked exceeds the limit, no time that passes makes room.\<close>

lemma no_room_beside:
  assumes ok: "meter_ok m" and now: "last_seen m \<le> now" and t: "now \<le> t" "time_ok t"
    and over: "spec_limit (m_spec m) < asked"
    and short: "headroom m now < unit_of m * int asked"
  shows "headroom m t < unit_of m * int asked"
  using ok
proof (cases rule: meter_ok_cases)
  case (Credit c r per i sc at)
  let ?p = "positive_millis per"
  have p: "0 < ?p" "?p \<le> 2 ^ 60" "c \<le> u64_max" "r \<le> u64_max"
    using ok Credit positive_millis_pos by (auto simp: meter_ok_def spec_ok_def period_ok_def)
  have times: "time_ok now" "at \<le> now" "at \<le> t" "0 \<le> at"
    using ok now t Credit by (auto simp: meter_ok_def time_ok_def)
  have "int c * ?p < ?p * int asked" using over Credit p by (simp add: mult.commute)
  with short Credit p t times show ?thesis
    by (auto simp: headroom_def unit_of_def credit_balance_debt min_less_iff_disj split: if_splits)
qed (use used_at_nonneg [OF ok, of t] over in \<open>auto simp: headroom_def unit_of_def\<close>)

end
