(* ===== verification/Governor_Budget.thy ===== *)
theory Governor_Budget
  imports Governor_Waits
begin

text \<open>
  The budget of an agent (\<open>crates/dekopon-model-token-governor/src/budget.rs\<close>): a set of meters,
  the tokens reserved by calls in flight, and the charges made since boot while the history is
  being restored. A call reserves an estimate and settles what it used; a call that does not fit is
  refused with the meter that holds it back longest, and the refusal is put in words.
\<close>

section \<open>The budget\<close>

record budget =
  b_agent :: string
  b_models :: "string list option"
  b_meters :: "meter list"
  reserved :: tokens
  live_since_boot :: "(unix_millis \<times> tokens) list option"

datatype reservation = Reservation (reservation_tokens: tokens)

datatype retry = After duration | RetryNever

record refusal =
  r_agent :: string
  r_meter :: meter_kind
  r_limit :: tokens
  r_remaining :: int
  r_requested :: tokens
  r_retry :: retry

definition budget_new :: "string \<Rightarrow> string list option \<Rightarrow> meter_spec list \<Rightarrow> unix_millis \<Rightarrow> budget" where
  "budget_new agent models specs now =
     \<lparr>b_agent = agent, b_models = models, b_meters = map (\<lambda>spec. meter_new spec now) specs,
      reserved = 0, live_since_boot = None\<rparr>"

definition covers :: "budget \<Rightarrow> string \<Rightarrow> bool" where
  "covers b model = (case b_models b of None \<Rightarrow> True | Some models \<Rightarrow> model \<in> set models)"

definition charge_budget :: "budget \<Rightarrow> unix_millis \<Rightarrow> tokens \<Rightarrow> budget" where
  "charge_budget b at actual =
     (let b = b\<lparr>b_meters := map (\<lambda>m. charge m at actual) (b_meters b)\<rparr>
      in case live_since_boot b of
           Some live \<Rightarrow> if actual > 0 then b\<lparr>live_since_boot := Some (live @ [(at, actual)])\<rparr> else b
         | None \<Rightarrow> b)"

text \<open>The loop of \<open>explain\<close> keeps the meter with the worst answer so far.\<close>

definition retry_of :: "meter_verdict \<Rightarrow> retry option" where
  "retry_of v = (case v of Allow \<Rightarrow> None | Never \<Rightarrow> Some RetryNever | Wait w \<Rightarrow> Some (After w))"

fun worse :: "(meter \<times> retry) option \<Rightarrow> retry \<Rightarrow> bool" where
  "worse None _ = True"
| "worse (Some (_, RetryNever)) _ = False"
| "worse (Some (_, After _)) RetryNever = True"
| "worse (Some (_, After current)) (After w) = (w > current)"

fun worst_retry :: "(meter \<Rightarrow> meter_verdict) \<Rightarrow> (meter \<times> retry) option \<Rightarrow> meter list \<Rightarrow> (meter \<times> retry) option" where
  "worst_retry ask worst [] = worst"
| "worst_retry ask worst (m # ms) =
     (case retry_of (ask m) of
        None \<Rightarrow> worst_retry ask worst ms
      | Some retry \<Rightarrow> worst_retry ask (if worse worst retry then Some (m, retry) else worst) ms)"

definition explain :: "budget \<Rightarrow> unix_millis \<Rightarrow> tokens \<Rightarrow> refusal option" where
  "explain b now want =
     map_option (\<lambda>(m, retry).
         let st = status m now
         in \<lparr>r_agent = b_agent b, r_meter = spec_kind (m_spec m), r_limit = ms_limit st,
             r_remaining =
               clamp_i64 (ms_remaining st - unwrap_or i64_max (i64_try_from (int (reserved b)))),
             r_requested = want, r_retry = retry\<rparr>)
       (worst_retry (\<lambda>m. verdict m now (reserved b) want) None (b_meters b))"

definition reserve :: "budget \<Rightarrow> unix_millis \<Rightarrow> tokens \<Rightarrow> budget \<times> (refusal, reservation) result" where
  "reserve b now estimate =
     (case explain b now estimate of
        Some refusal \<Rightarrow> (b, Inl refusal)
      | None \<Rightarrow> (b\<lparr>reserved := saturating_add (reserved b) estimate\<rparr>, Inr (Reservation estimate)))"

definition settle :: "budget \<Rightarrow> reservation \<Rightarrow> unix_millis \<Rightarrow> tokens \<Rightarrow> budget" where
  "settle b r at actual =
     charge_budget (b\<lparr>reserved := saturating_sub (reserved b) (reservation_tokens r)\<rparr>) at actual"

definition statuses :: "budget \<Rightarrow> unix_millis \<Rightarrow> (meter_kind \<times> meter_status) list" where
  "statuses b now = map (\<lambda>m. (spec_kind (m_spec m), status m now)) (b_meters b)"

definition budget_horizon :: "budget \<Rightarrow> unix_millis \<Rightarrow> duration" where
  "budget_horizon b now = foldl max 0 (map (\<lambda>m. horizon m now) (b_meters b))"

definition begin_restore :: "budget \<Rightarrow> budget" where
  "begin_restore b = b\<lparr>live_since_boot := Some []\<rparr>"

definition abandon_restore :: "budget \<Rightarrow> budget" where
  "abandon_restore b = b\<lparr>live_since_boot := None\<rparr>"

definition charge_all :: "meter list \<Rightarrow> (unix_millis \<times> tokens) list \<Rightarrow> meter list" where
  "charge_all meters charges =
     foldl (\<lambda>ms (at, spent). map (\<lambda>m. charge m at spent) ms) meters charges"

definition restore :: "budget \<Rightarrow> unix_millis \<Rightarrow> (unix_millis \<times> tokens) list \<Rightarrow> budget" where
  "restore b since history =
     (let charges = sort_key fst history;
          meters = map (\<lambda>m. meter_new (m_spec m) since) (b_meters b);
          live = unwrap_or [] (live_since_boot b)
      in b\<lparr>b_meters := charge_all meters (charges @ live), live_since_boot := None\<rparr>)"

section \<open>Refusals in words\<close>

definition retry_after :: "refusal \<Rightarrow> duration option" where
  "retry_after r = (case r_retry r of After w \<Rightarrow> Some w | RetryNever \<Rightarrow> None)"

definition fits_ever :: "refusal \<Rightarrow> bool" where
  "fits_ever r = (case r_retry r of After _ \<Rightarrow> True | RetryNever \<Rightarrow> False)"

definition UNITS :: "(nat \<times> string) list" where
  "UNITS = [(86400, ''day''), (3600, ''hour''), (60, ''minute''), (1, ''second'')]"

definition show_span :: "duration \<Rightarrow> string" where
  "show_span d =
     (let seconds = max (as_secs d) 1;
          (size, unit) = unwrap_or (1, ''second'') (find (\<lambda>(size, _). seconds mod size = 0) UNITS)
      in show_nat (seconds div size) @ ''-'' @ unit)"

text \<open>The loop of \<open>Rounded\<close>: the first unit no longer than the wait, the count rounded up, and
  one of the coarser unit when rounding up reached it.\<close>

fun rounded_loop :: "nat \<Rightarrow> (nat \<times> string) option \<Rightarrow> (nat \<times> string) list \<Rightarrow> nat \<times> string" where
  "rounded_loop seconds coarser [] = (seconds, ''second'')"
| "rounded_loop seconds coarser ((len, unit) # rest) =
     (if seconds \<ge> len then
        (let count = div_ceil seconds len
         in case coarser of
              Some (clen, cunit) \<Rightarrow> if count * len = clen then (1, cunit) else (count, unit)
            | None \<Rightarrow> (count, unit))
      else rounded_loop seconds (Some (len, unit)) rest)"

definition rounded_seconds :: "duration \<Rightarrow> nat" where
  "rounded_seconds d = max (as_secs d + (if subsec_nanos d > 0 then 1 else 0)) 1"

definition rounded :: "duration \<Rightarrow> nat \<times> string" where
  "rounded d = rounded_loop (rounded_seconds d) None UNITS"

definition show_rounded :: "duration \<Rightarrow> string" where
  "show_rounded d =
     (let (count, unit) = rounded d
      in show_nat count @ '' '' @ unit @ (if count = 1 then [] else ''s''))"

definition window_name :: "meter_kind \<Rightarrow> string" where
  "window_name k =
     (case k of
        KindFixed period \<Rightarrow>
          (if as_secs period = 3600 then ''hourly window''
           else if as_secs period = 86400 then ''daily window''
           else if as_secs period = 604800 then ''weekly window''
           else show_span period @ '' window'')
      | KindRolling period \<Rightarrow> show_span period @ '' rolling window''
      | KindSession len \<Rightarrow> show_span len @ '' session window''
      | KindCredit \<Rightarrow> ''credit bucket'')"

definition percent :: "refusal \<Rightarrow> int" where
  "percent r =
     (let used = int (r_limit r) - r_remaining r
      in max 0 (min 100 (if r_limit r = 0 then 100 else trunc_div (used * 100) (int (r_limit r)))))"

datatype voice = First | Third string

definition render :: "refusal \<Rightarrow> voice \<Rightarrow> string" where
  "render r voice =
     (let window = window_name (r_meter r);
          (subject, has, its, whole, item) =
            (case voice of
               First \<Rightarrow> (''I'' @ [CHR 0x27] @ ''m'', ''I'' @ [CHR 0x27] @ ''ve'', ''my'', ''my'', ''message'')
             | Third agent \<Rightarrow>
                 (''The agent '' @ agent @ '' is'', ''The agent '' @ agent @ '' has'', ''its'',
                  ''the agent '' @ agent @ [CHR 0x27] @ ''s'', ''request''))
      in case r_retry r of
           RetryNever \<Rightarrow>
             ''This '' @ item @ '' needs about '' @ grouped (int (r_requested r)) @ '' tokens, more than ''
             @ whole @ '' whole '' @ grouped (int (r_limit r)) @ ''-token budget ('' @ window
             @ ''). Too big to run; try a smaller ask.''
         | After w \<Rightarrow>
             if r_remaining r < 0 then
               has @ '' used up '' @ its @ '' token budget ('' @ window @ ''), and then some: ''
               @ grouped (- r_remaining r) @ '' tokens over. It resets in '' @ show_rounded w @ ''.''
             else
               subject @ '' at '' @ show_nat (nat (percent r)) @ ''% of '' @ its @ '' token budget ('' @ window
               @ ''): '' @ grouped (r_remaining r) @ '' tokens left and this '' @ item
               @ '' needs about '' @ grouped (int (r_requested r)) @ ''. Try again in ''
               @ show_rounded w @ ''.'')"

definition display_refusal :: "refusal \<Rightarrow> string" where
  "display_refusal r = render r First"

definition display_guest_refusal :: "refusal \<Rightarrow> string" where
  "display_guest_refusal r = render r (Third (r_agent r))"

section \<open>Refusals\<close>

text \<open>The order of answers the loop keeps: never is worse than any wait, and a longer wait is
  worse than a shorter one.\<close>

fun retry_le :: "retry \<Rightarrow> retry \<Rightarrow> bool" where
  "retry_le _ RetryNever = True"
| "retry_le RetryNever (After _) = False"
| "retry_le (After v) (After w) = (v \<le> w)"

lemma retry_le_refl [simp]: "retry_le r r"
  by (cases r) auto

lemma retry_le_trans: "retry_le r s \<Longrightarrow> retry_le s t \<Longrightarrow> retry_le r t"
  by (cases r; cases s; cases t) auto

lemma worse_retry_le: "worse (Some (m, r)) s \<longleftrightarrow> \<not> retry_le s r"
  by (cases r; cases s) auto

lemma retry_le_total: "retry_le r s \<or> retry_le s r"
  by (cases r; cases s) auto

lemma retry_of_None [simp]: "retry_of v = None \<longleftrightarrow> v = Allow"
  by (cases v) (simp_all add: retry_of_def)

lemma retry_of_Allow [simp]: "retry_of Allow = None"
  by simp

lemma worst_retry_spec:
  shows "worst_retry ask worst ms = None \<longleftrightarrow> worst = None \<and> list_all (\<lambda>m. ask m = Allow) ms"
    and "worst_retry ask worst ms = Some (m, r) \<Longrightarrow>
      (worst = Some (m, r) \<or> (m \<in> set ms \<and> retry_of (ask m) = Some r)) \<and>
      (\<forall>m' r'. worst = Some (m', r') \<longrightarrow> retry_le r' r) \<and>
      list_all (\<lambda>m'. \<forall>r'. retry_of (ask m') = Some r' \<longrightarrow> retry_le r' r) ms"
proof (induction ms arbitrary: worst)
  case Nil
  { case 1 then show ?case by simp }
  { case 2 then show ?case by simp }
next
  case (Cons x ms)
  {
    case 1
    then show ?case
      by (cases "ask x"; cases worst) (simp_all add: Cons.IH(1) retry_of_def)
  next
    case 2
    show ?case
    proof (cases "retry_of (ask x)")
      case None
      with 2 Cons.IH(2) [of worst] show ?thesis by auto
    next
      case (Some q)
      let ?w = "if worse worst q then Some (x, q) else worst"
      have w: "worst_retry ask ?w ms = Some (m, r)" using 2 Some by simp
      note IH = Cons.IH(2) [OF w]
      have keep: "retry_le q' q" if "worse worst q" "worst = Some (m', q')" for m' q'
        using that worse_retry_le retry_le_total by blast
      have "retry_le q r \<and> (\<forall>m' r'. worst = Some (m', r') \<longrightarrow> retry_le r' r)"
      proof (cases "worse worst q")
        case True
        with IH keep show ?thesis by (auto intro: retry_le_trans)
      next
        case False
        then obtain m' q' where "worst = Some (m', q')" "retry_le q q'"
          by (cases worst) (auto simp: worse_retry_le)
        with False IH show ?thesis by (auto intro: retry_le_trans)
      qed
      with IH Some show ?thesis by (auto split: if_splits)
    qed
  }
qed

text \<open>A call is explained away by no refusal exactly when every meter of the budget allows it
  beside what is already reserved.\<close>

theorem explain_none_iff:
  "explain b now want = None \<longleftrightarrow>
     list_all (\<lambda>m. verdict m now (reserved b) want = Allow) (b_meters b)"
  by (simp add: explain_def worst_retry_spec)

text \<open>A refusal names a meter of the budget that refuses the call, with that meter's limit, the
  tokens asked for and that meter's own answer; and no other meter of the budget asks the caller to
  wait longer than the refusal says.\<close>

theorem refusal_names_worst_meter:
  assumes "explain b now want = Some r"
  shows "r_requested r = want \<and> r_agent r = b_agent b \<and>
    list_ex (\<lambda>m. retry_of (verdict m now (reserved b) want) = Some (r_retry r) \<and>
        r_meter r = spec_kind (m_spec m) \<and> r_limit r = spec_limit (m_spec m)) (b_meters b) \<and>
    list_all (\<lambda>m. case retry_of (verdict m now (reserved b) want) of
        None \<Rightarrow> True | Some other \<Rightarrow> retry_le other (r_retry r)) (b_meters b)"
proof -
  let ?ask = "\<lambda>m. verdict m now (reserved b) want"
  from assms obtain m q where w: "worst_retry ?ask None (b_meters b) = Some (m, q)"
    and r: "r_agent r = b_agent b" "r_meter r = spec_kind (m_spec m)" "r_limit r = spec_limit (m_spec m)"
      "r_requested r = want" "r_retry r = q"
    by (auto simp: explain_def Let_def status_def)
  from worst_retry_spec(2) [OF w] r show ?thesis
    by (auto simp: list_ex_iff list_all_iff split: option.splits)
qed

theorem refusal_names_worst_meter_witness:
  "let b = budget_new ''bot'' None [SpecFixed 10 (from_secs 60), SpecSession 5 (from_secs 30)] 0
   in case explain b 0 7 of None \<Rightarrow> False | Some r \<Rightarrow>
      r_requested r = 7 \<and> r_limit r = 5 \<and> r_retry r = RetryNever \<and>
      list_all (\<lambda>m. case retry_of (verdict m 0 (reserved b) 7) of
        None \<Rightarrow> True | Some other \<Rightarrow> retry_le other (r_retry r)) (b_meters b)"
proof -
  let ?b = "budget_new ''bot'' None [SpecFixed 10 (from_secs 60), SpecSession 5 (from_secs 30)] 0"
  obtain r where r: "explain ?b 0 7 = Some r" "r_retry r = RetryNever" "r_limit r = 5"
    by (simp add: explain_def budget_new_def meter_new_def verdict_def Let_def retry_of_def
        window_start_def status_def wrap_i64_def)
  with refusal_names_worst_meter [OF r(1)] show ?thesis by (simp add: Let_def)
qed

section \<open>Calls in flight\<close>

text \<open>The life of a budget: calls reserve and settle, one at a time (the budget is behind a mutex),
  at times that do not go back. \<open>held\<close> lists the reservations that are out and \<open>over\<close>
  adds up what settled calls used beyond their reservations: a call settles whatever the model
  reported, which may be more than it reserved.\<close>

inductive budget_step ::
  "unix_millis \<times> budget \<times> tokens list \<times> nat \<Rightarrow> unix_millis \<times> budget \<times> tokens list \<times> nat \<Rightarrow> bool" where
  reserved: "clock \<le> now \<Longrightarrow> time_ok now \<Longrightarrow> reserve b now estimate = (b', Inr r) \<Longrightarrow>
    budget_step (clock, b, held, over) (now, b', reservation_tokens r # held, over)"
| refused: "clock \<le> now \<Longrightarrow> time_ok now \<Longrightarrow> reserve b now estimate = (b', Inl refusal) \<Longrightarrow>
    budget_step (clock, b, held, over) (now, b', held, over)"
| settled: "clock \<le> at \<Longrightarrow> time_ok at \<Longrightarrow> held = before @ r # later \<Longrightarrow> actual \<le> u64_max \<Longrightarrow>
    budget_step (clock, b, held, over)
      (at, settle b (Reservation r) at actual, before @ later, over + (actual - r))"

inductive budget_reachable :: "unix_millis \<times> budget \<times> tokens list \<times> nat \<Rightarrow> bool" where
  start: "list_all spec_ok specs \<Longrightarrow> time_ok now \<Longrightarrow>
    budget_reachable (now, budget_new agent models specs now, [], 0)"
| step: "budget_reachable s \<Longrightarrow> budget_step s s' \<Longrightarrow> budget_reachable s'"

text \<open>The range the laws of a meter hold in: its limit and the overrun fit \<open>u64\<close> together.\<close>

definition overrun_fits :: "budget \<Rightarrow> nat \<Rightarrow> bool" where
  "overrun_fits b over = list_all (\<lambda>m. spec_limit (m_spec m) + over \<le> u64_max) (b_meters b)"

definition budget_inv :: "unix_millis \<times> budget \<times> tokens list \<times> nat \<Rightarrow> bool" where
  "budget_inv s = (case s of (clock, b, held, over) \<Rightarrow>
     time_ok clock \<and> reserved b \<le> u64_max \<and>
     list_all (gov.secured over (reserved b) clock) (b_meters b) \<and>
     (b_meters b \<noteq> [] \<longrightarrow> reserved b = sum_list held))"

lemma headroom_new: "0 \<le> headroom (meter_new spec t) t"
proof (cases spec)
  case (SpecCredit c r per i)
  have "0 \<le> int c * positive_millis per" "0 \<le> int i * positive_millis per"
    using positive_millis_pos [of per] by simp_all
  with SpecCredit show ?thesis
    by (auto simp: headroom_def meter_new_def Let_def credit_balance_def
        clamp_i64_def clamp_i128_def i64_max_def i64_min_def i128_max_def i128_min_def)
qed (auto simp: headroom_def used_at_def meter_new_def live_buckets_def session_open_def)

lemma secured_new: "spec_ok spec \<Longrightarrow> time_ok t \<Longrightarrow> gov.secured 0 0 t (meter_new spec t)"
  using meter_new_ok [of spec t] headroom_new [of spec t]
  by (simp add: gov.secured_def) (simp add: meter_new_def)

lemma reserve_ok_iff:
  "reserve b now estimate = (b', Inr r) \<longleftrightarrow>
     list_all (\<lambda>m. verdict m now (reserved b) estimate = Allow) (b_meters b) \<and>
     b' = b\<lparr>reserved := saturating_add (reserved b) estimate\<rparr> \<and> r = Reservation estimate"
proof -
  have "explain b now estimate = None \<longleftrightarrow>
     list_all (\<lambda>m. verdict m now (reserved b) estimate = Allow) (b_meters b)"
    by (simp add: explain_def worst_retry_spec)
  then show ?thesis by (auto simp: reserve_def split: option.splits)
qed

lemma budget_inv_reserve:
  assumes inv: "budget_inv (clock, b, held, over)" and now: "time_ok now"
    and r: "reserve b now estimate = (b', Inr r)"
  shows "budget_inv (now, b', reservation_tokens r # held, over)"
proof -
  have all: "\<forall>m \<in> set (b_meters b). verdict m now (reserved b) estimate = Allow"
    and b': "b' = b\<lparr>reserved := saturating_add (reserved b) estimate\<rparr>" and rt: "r = Reservation estimate"
    using r by (simp_all add: reserve_ok_iff list_all_iff)
  have inv': "reserved b \<le> u64_max" "\<forall>m \<in> set (b_meters b). meter_ok m"
    "b_meters b \<noteq> [] \<longrightarrow> reserved b = sum_list held"
    using inv by (auto simp: budget_inv_def list_all_iff gov.secured_def)
  have sec: "gov.secured over (reserved b + estimate) now m" if "m \<in> set (b_meters b)" for m
    using that all inv' now by (intro gov.secured_reserve) auto
  have "reserved b + estimate \<le> u64_max" if "b_meters b \<noteq> []"
    using that all inv' gov.decide_bound [OF _ now] by (meson list.set_sel(1))
  moreover have "gov.secured over (saturating_add (reserved b) estimate) now m"
    if "m \<in> set (b_meters b)" for m
    by (rule gov.secured_less [OF sec [OF that] saturating_add_le(2)])
  ultimately show ?thesis
    using now inv'(3) saturating_add_le(1)
    by (auto simp: budget_inv_def b' rt list_all_iff saturating_add_exact)
qed

lemma charge_budget_simps [simp]:
  "b_meters (charge_budget b at actual) = map (\<lambda>m. charge m at actual) (b_meters b)"
  "reserved (charge_budget b at actual) = reserved b"
  "b_agent (charge_budget b at actual) = b_agent b"
  "b_models (charge_budget b at actual) = b_models b"
  by (simp_all add: charge_budget_def Let_def split: option.splits)

lemma settle_simps [simp]:
  "b_meters (settle b r at actual) = map (\<lambda>m. charge m at actual) (b_meters b)"
  "reserved (settle b r at actual) = reserved b - reservation_tokens r"
  by (simp_all add: settle_def saturating_sub_def)

lemma budget_inv_settle:
  assumes inv: "budget_inv (clock, b, before @ r # later, over)" and at: "clock \<le> at" "time_ok at"
    and actual: "actual \<le> u64_max" and fits: "overrun_fits b (over + (actual - r))"
  shows "budget_inv (at, settle b (Reservation r) at actual, before @ later, over + (actual - r))"
proof -
  have inv': "reserved b \<le> u64_max" "\<forall>m \<in> set (b_meters b). gov.secured over (reserved b) clock m"
    "b_meters b \<noteq> [] \<longrightarrow> reserved b = sum_list before + r + sum_list later"
    using inv by (auto simp: budget_inv_def list_all_iff)
  then have "gov.secured (over + (actual - r)) (reserved b - r) at (charge m at actual)"
    if "m \<in> set (b_meters b)" for m
    using that at actual fits
    by (intro gov.secured_settle [where t = clock]) (auto simp: overrun_fits_def list_all_iff)
  with inv' at show ?thesis by (auto simp: budget_inv_def list_all_iff)
qed

lemma budget_inv_step:
  assumes "budget_step s s'" "budget_inv s" "s' = (clock', b', held', over')" "overrun_fits b' over'"
  shows "budget_inv s'"
  using assms(1)
proof (cases rule: budget_step.cases)
  case (reserved clock now b estimate b' r held over)
  with assms show ?thesis by (auto intro: budget_inv_reserve)
next
  case (refused clock now b estimate b' refusal held over)
  then have "b' = b" by (auto simp: reserve_def split: option.splits)
  with refused assms(2) show ?thesis
    by (auto simp: budget_inv_def list_all_iff intro: gov.secured_later)
next
  case (settled clock at held before r later actual b over)
  moreover from this assms have "overrun_fits b (over + (actual - r))"
    by (simp add: overrun_fits_def list_all_iff)
  ultimately show ?thesis using assms(2) by (auto intro: budget_inv_settle)
qed

lemma reserve_meters [simp]: "b_meters (fst (reserve b now e)) = b_meters b"
  by (simp add: reserve_def split: option.splits)

text \<open>The overrun only grows, so a state in range was reached through states in range.\<close>

lemma overrun_fits_step:
  assumes "budget_step (clock, b, held, over) (clock', b', held', over')" "overrun_fits b' over'"
  shows "overrun_fits b over"
  using assms(1)
proof (cases rule: budget_step.cases)
  case (reserved estimate r)
  then have "b_meters b' = b_meters b" by (metis fst_conv reserve_meters)
  with reserved assms(2) show ?thesis by (simp add: overrun_fits_def)
next
  case (refused estimate refusal)
  then have "b_meters b' = b_meters b" by (metis fst_conv reserve_meters)
  with refused assms(2) show ?thesis by (simp add: overrun_fits_def)
next
  case (settled before r later actual)
  with assms(2) show ?thesis by (auto simp: overrun_fits_def list_all_iff)
qed

lemma budget_reachable_inv:
  "budget_reachable s \<Longrightarrow> s = (clock, b, held, over) \<Longrightarrow> overrun_fits b over \<Longrightarrow> budget_inv s"
proof (induction s arbitrary: clock b held over rule: budget_reachable.induct)
  case (start specs now agent models)
  then show ?case
    by (auto simp: budget_inv_def budget_new_def list_all_iff secured_new)
next
  case (step s s')
  obtain clock0 b0 held0 over0 where s: "s = (clock0, b0, held0, over0)" by (cases s)
  with step.hyps(2) step.prems have "overrun_fits b0 over0" by (auto intro: overrun_fits_step)
  with step.IH [OF s] step.hyps(2) step.prems show ?case by (auto intro: budget_inv_step)
qed

text \<open>C1: no interleaving of calls overspends a budget by more than calls used beyond what they had
  reserved. At every reachable moment each meter still has, by its own status (which is clamped to
  \<open>i64\<close>), at least the tokens that calls in flight have reserved less that overrun, and the
  reserved total is the sum of the reservations that are out. The clock does not go back, and the
  overrun and the limit of a meter fit \<open>u64\<close> together.\<close>

theorem budget_never_overspent:
  assumes "budget_reachable (clock, b, held, over)" "overrun_fits b over"
  shows "list_all (\<lambda>(kind, st). clamp_i64 (int (reserved b) - int over) \<le> ms_remaining st)
      (statuses b clock) \<and>
    (b_meters b \<noteq> [] \<longrightarrow> reserved b = sum_list held)"
  using budget_reachable_inv [OF assms(1) refl assms(2)] secured_status
  by (auto simp: budget_inv_def statuses_def list_all_iff)

theorem budget_never_overspent_witness:
  "let b0 = budget_new ''bot'' None [SpecFixed 10 (from_secs 60)] 5;
       b = settle (fst (reserve (fst (reserve b0 6 4)) 7 5)) (Reservation 4) 8 11
   in list_all (\<lambda>(kind, st). clamp_i64 (int (reserved b) - int 7) \<le> ms_remaining st) (statuses b 8) \<and>
      reserved b = 5 \<and> map (ms_remaining \<circ> snd) (statuses b 8) = [- 1]"
proof -
  let ?b0 = "budget_new ''bot'' None [SpecFixed 10 (from_secs 60)] 5"
  let ?b1 = "fst (reserve ?b0 6 4)" and ?b2 = "fst (reserve (fst (reserve ?b0 6 4)) 7 5)"
  let ?b3 = "settle ?b2 (Reservation 4) 8 11"
  note ev = reserve_def explain_def budget_new_def meter_new_def verdict_def Let_def retry_of_def
    window_start_def wrap_i64_def positive_millis_def millis_def as_millis_def from_secs_def rust_num
    saturating_add_def
  have r1: "reserve ?b0 6 4 = (?b1, Inr (Reservation 4))" by (simp add: ev)
  have r2: "reserve ?b1 7 5 = (?b2, Inr (Reservation 5))" by (simp add: ev)
  have sp: "spec_ok (SpecFixed 10 (from_secs 60))"
    by (simp add: spec_ok_def period_ok_def positive_millis_def millis_def as_millis_def
        from_secs_def rust_num)
  have "budget_reachable (5, ?b0, [], 0)" using sp by (intro start) (simp_all add: time_ok_def)
  then have "budget_reachable (6, ?b1, [4], 0)"
    by (rule step) (use reserved [OF _ _ r1, of 5 "[]" 0] in \<open>simp add: time_ok_def\<close>)
  then have "budget_reachable (7, ?b2, [5, 4], 0)"
    by (rule step) (use reserved [OF _ _ r2, of 6 "[4]" 0] in \<open>simp add: time_ok_def\<close>)
  then have "budget_reachable (8, ?b3, [5], 7)"
    by (rule step) (use settled [of 7 8 "[5, 4]" "[5]" 4 "[]" 11 ?b2 0] in \<open>simp add: time_ok_def rust_num\<close>)
  moreover have "overrun_fits ?b3 7" by (simp add: overrun_fits_def) (simp add: ev)
  ultimately have "list_all (\<lambda>(kind, st). clamp_i64 (int (reserved ?b3) - int 7) \<le> ms_remaining st)
      (statuses ?b3 8) \<and> (b_meters ?b3 \<noteq> [] \<longrightarrow> reserved ?b3 = sum_list [5])"
    by (rule budget_never_overspent)
  moreover have "sum_list [5] = (5 :: nat)" by simp
  moreover have "map (ms_remaining \<circ> snd) (statuses ?b3 8) = [- 1]" "b_meters ?b3 \<noteq> []"
    by (simp_all add: statuses_def ev charge_def charge_state_def)
      (simp add: status_remaining used_at_def window_start_def wrap_i64_def clamp_i64_def rust_num)
  ultimately show ?thesis unfolding Let_def by metis
qed

section \<open>Waits\<close>

text \<open>A budget whose meters are in range and that was not charged after \<open>now\<close>.\<close>

definition budget_at :: "budget \<Rightarrow> unix_millis \<Rightarrow> bool" where
  "budget_at b now \<longleftrightarrow> time_ok now \<and> reserved b \<le> u64_max \<and>
     list_all (\<lambda>m. meter_ok m \<and> last_seen m \<le> now) (b_meters b)"

text \<open>A meter refuses the call, and what is reserved and asked exceeds its whole limit, so that only
  the end of another call can make room.\<close>

definition waits_on_calls :: "budget \<Rightarrow> unix_millis \<Rightarrow> tokens \<Rightarrow> bool" where
  "waits_on_calls b now want =
     list_ex (\<lambda>m. verdict m now (reserved b) want \<noteq> Allow \<and> spec_limit (m_spec m) < reserved b + want)
       (b_meters b)"

lemma explain_None:
  "explain b now want = None \<longleftrightarrow> (\<forall>m \<in> set (b_meters b). verdict m now (reserved b) want = Allow)"
  by (simp add: explain_def worst_retry_spec list_all_iff)

lemma retry_of_After [simp]: "retry_of v = Some (After w) \<longleftrightarrow> v = Wait w"
  by (cases v) (simp_all add: retry_of_def)

lemma wait_millis_mono: "v \<le> w \<Longrightarrow> wait_millis v \<le> wait_millis w"
  by (simp add: wait_millis_def as_millis_def div_le_mono)

lemma explain_worst:
  assumes "explain b now want = Some r"
  shows "\<exists>m \<in> set (b_meters b). retry_of (verdict m now (reserved b) want) = Some (r_retry r) \<and>
    (\<forall>m' \<in> set (b_meters b). \<forall>q. retry_of (verdict m' now (reserved b) want) = Some q \<longrightarrow>
      retry_le q (r_retry r))"
proof -
  let ?ask = "\<lambda>m. verdict m now (reserved b) want"
  from assms obtain m q where w: "worst_retry ?ask None (b_meters b) = Some (m, q)" and q: "r_retry r = q"
    by (auto simp: explain_def Let_def)
  from worst_retry_spec(2) [OF w] q show ?thesis by (auto simp: list_all_iff)
qed

text \<open>The wait of one meter, in terms of its verdicts.\<close>

lemma allow_iff_at:
  assumes "meter_ok m" "time_ok t" "last_seen m \<le> t" "held \<le> u64_max"
  shows "verdict m t held want = Allow \<longleftrightarrow>
    want \<le> spec_limit (m_spec m) \<and> unit_of m * int (held + want) \<le> headroom m t"
  using allow_iff [OF assms(1,2,4), of want] assms(3) by (simp add: max_absorb1 del: of_nat_add)

lemma verdict_at_wait:
  assumes "budget_at b now" "m \<in> set (b_meters b)" "reserved b + want \<le> spec_limit (m_spec m)"
    and "verdict m now (reserved b) want = Wait v" "v \<le> w" "time_ok (now + wait_millis w)"
  shows "verdict m (now + wait_millis w) (reserved b) want = Allow"
proof -
  have m: "meter_ok m" "last_seen m \<le> now" "time_ok now" "reserved b \<le> u64_max"
    using assms(1,2) by (auto simp: budget_at_def list_all_iff)
  have mono: "wait_millis v \<le> wait_millis w" and nn: "0 \<le> wait_millis v"
    using assms(5) wait_millis_mono by (auto simp: wait_millis_def)
  have tv: "time_ok (now + wait_millis v)" using assms(6) mono nn m by (auto simp: time_ok_def)
  have "unit_of m * int (reserved b + want) \<le> headroom m (now + wait_millis v)"
    using wait_exact [OF m(1,3,2,4) assms(3,4) tv] by (simp add: first_covered_def)
  also have "\<dots> \<le> headroom m (now + wait_millis w)"
    using m mono nn assms(6) by (intro headroom_mono) auto
  finally show ?thesis
    using m nn mono assms(3,6) by (simp add: allow_iff_at)
qed

text \<open>A meter that asks for a wait refuses until the wait ends, and for as long as nothing is
  released when the call does not fit beside what is reserved.\<close>

lemma verdict_stays_refused:
  assumes "budget_at b now" "m \<in> set (b_meters b)" "spec_limit (m_spec m) < reserved b + want"
    and "verdict m now (reserved b) want \<noteq> Allow" "now \<le> t" "time_ok t"
  shows "verdict m t (reserved b) want \<noteq> Allow"
proof -
  have m: "meter_ok m" "last_seen m \<le> now" "time_ok now" "reserved b \<le> u64_max"
    using assms(1,2) by (auto simp: budget_at_def list_all_iff)
  show ?thesis
  proof (cases "want \<le> spec_limit (m_spec m)")
    case True
    with m assms(4) have "headroom m now < unit_of m * int (reserved b + want)"
      by (simp add: allow_iff_at not_le)
    from no_room_beside [OF m(1,2) assms(5,6,3) this] m assms(5,6) show ?thesis
      by (simp add: allow_iff_at not_le)
  qed (use m assms(5,6) in \<open>simp add: allow_iff_at\<close>)
qed

lemma verdict_before_wait:
  assumes b: "budget_at b now" "m \<in> set (b_meters b)"
    and v: "verdict m now (reserved b) want = Wait w" and until: "time_ok (now + wait_millis w)"
    and t: "now \<le> t" "t < now + wait_millis w"
  shows "verdict m t (reserved b) want \<noteq> Allow"
proof (cases "reserved b + want \<le> spec_limit (m_spec m)")
  case True
  have m: "meter_ok m" "last_seen m \<le> now" "time_ok now" "reserved b \<le> u64_max"
    using b by (auto simp: budget_at_def list_all_iff)
  have "time_ok t" using t m until by (auto simp: time_ok_def)
  moreover have "headroom m t < unit_of m * int (reserved b + want)"
    using wait_exact [OF m(1,3,2,4) True v until] t by (simp add: first_covered_def)
  ultimately show ?thesis using m t by (simp add: allow_iff_at)
next
  case False
  moreover have "time_ok t" using t b until by (auto simp: time_ok_def budget_at_def)
  ultimately show ?thesis using verdict_stays_refused [OF b _ _ t(1)] v by simp
qed

lemma verdict_allow_later:
  assumes "meter_ok m" "last_seen m \<le> now" "time_ok now" "time_ok t" "now \<le> t" "held \<le> u64_max"
    and "verdict m now held want = Allow"
  shows "verdict m t held want = Allow"
proof -
  have "unit_of m * int (held + want) \<le> headroom m now" "want \<le> spec_limit (m_spec m)"
    using assms by (simp_all add: allow_iff_at)
  moreover have "headroom m now \<le> headroom m t" using assms by (intro headroom_mono) auto
  ultimately show ?thesis using assms by (simp add: allow_iff_at)
qed

text \<open>C2: what a wait announced by a refusal is worth, over the four kinds of meter, while the
  meters are in range, the clock does not go back and nothing is charged or released meanwhile.
  The call is refused at every moment before the wait ends. When the call fits the limit of every
  meter that refuses it beside what is reserved, it is accepted at the moment the wait ends, so the
  wait is exact. When it does not fit one of them, no wait is long enough: it is refused at every
  later moment, until a call in flight ends.\<close>

theorem refusal_wait_exact:
  assumes at: "budget_at b now"
    and refused: "explain b now want = Some r" "r_retry r = After w"
    and until: "time_ok (now + wait_millis w)"
  shows "(\<forall>t. now \<le> t \<longrightarrow> t < now + wait_millis w \<longrightarrow> explain b t want \<noteq> None) \<and>
    (\<not> waits_on_calls b now want \<longrightarrow> explain b (now + wait_millis w) want = None) \<and>
    (waits_on_calls b now want \<longrightarrow> (\<forall>t. now \<le> t \<longrightarrow> time_ok t \<longrightarrow> explain b t want \<noteq> None))"
proof (intro conjI)
  obtain worst where worst: "worst \<in> set (b_meters b)"
      "retry_of (verdict worst now (reserved b) want) = Some (After w)"
    and others: "\<And>m q. m \<in> set (b_meters b) \<Longrightarrow> retry_of (verdict m now (reserved b) want) = Some q \<Longrightarrow>
      retry_le q (After w)"
    using explain_worst [OF refused(1)] unfolding refused(2) by blast
  show "\<forall>t. now \<le> t \<longrightarrow> t < now + wait_millis w \<longrightarrow> explain b t want \<noteq> None"
    using verdict_before_wait [OF at worst(1) _ until] worst by (auto simp: explain_None)
  have m: "meter_ok m" "last_seen m \<le> now" if "m \<in> set (b_meters b)" for m
    using at that by (auto simp: budget_at_def list_all_iff)
  have now: "time_ok now" "reserved b \<le> u64_max" using at by (auto simp: budget_at_def)
  have nn: "now \<le> now + wait_millis w" by (simp add: wait_millis_def)
  have "verdict m (now + wait_millis w) (reserved b) want = Allow"
    if "\<not> waits_on_calls b now want" and b: "m \<in> set (b_meters b)" for m
  proof (cases "verdict m now (reserved b) want")
    case Allow
    show ?thesis by (rule verdict_allow_later [OF m [OF b] now(1) until nn now(2) Allow])
  next
    case (Wait v)
    with that have "reserved b + want \<le> spec_limit (m_spec m)"
      by (auto simp: waits_on_calls_def list_ex_iff)
    with Wait others [OF b, of "After v"] verdict_at_wait [OF at b _ Wait _ until]
    show ?thesis by simp
  next
    case Never
    with others [OF b] show ?thesis by (simp add: retry_of_def)
  qed
  then show "\<not> waits_on_calls b now want \<longrightarrow> explain b (now + wait_millis w) want = None"
    by (simp add: explain_None)
  show "waits_on_calls b now want \<longrightarrow> (\<forall>t. now \<le> t \<longrightarrow> time_ok t \<longrightarrow> explain b t want \<noteq> None)"
    using verdict_stays_refused [OF at] by (auto simp: waits_on_calls_def list_ex_iff explain_None)
qed

theorem refusal_wait_exact_witness:
  "let b = charge_budget (budget_new ''bot'' None [SpecFixed 10 (from_secs 60), SpecCredit 8 2 (from_secs 2) 8] 0) 1000 6
   in explain b 2000 5 \<noteq> None \<and> explain b (2000 + wait_millis (from_secs 58)) 5 = None \<and>
      explain b 30000 5 \<noteq> None"
proof -
  let ?b = "charge_budget (budget_new ''bot'' None [SpecFixed 10 (from_secs 60), SpecCredit 8 2 (from_secs 2) 8] 0) 1000 6"
  let ?m1 = "\<lparr>m_spec = SpecFixed 10 (from_secs 60), m_state = StFixed 60000 0 6, last_seen = 1000\<rparr>"
  let ?m2 = "\<lparr>m_spec = SpecCredit 8 2 (from_secs 2) 8, m_state = StCredit 8 2 2000 4000 1000, last_seen = 1000\<rparr>"
  have per: "positive_millis (from_secs 60) = 60000" "positive_millis (from_secs 2) = 2000"
    by (simp_all add: positive_millis_def millis_def as_millis_def from_secs_def i64_max_def)
  have win: "window_start 1000 60000 = 0" "window_start 2000 60000 = 0"
    by (simp_all add: window_start_def wrap_i64_def)
  have "charge (meter_new (SpecFixed 10 (from_secs 60)) 0) 1000 6 = ?m1"
    by (simp add: charge_def charge_state_def meter_new_def per win Let_def saturating_add_def rust_num)
  moreover have "charge (meter_new (SpecCredit 8 2 (from_secs 2) 8) 0) 1000 6 = ?m2"
    by (simp add: charge_def charge_state_def meter_new_def per Let_def credit_balance_def wrap_i128_def)
  ultimately have b: "?b = \<lparr>b_agent = ''bot'', b_models = None, b_meters = [?m1, ?m2], reserved = 0,
      live_since_boot = None\<rparr>"
    by (simp add: charge_budget_def budget_new_def)
  have v1: "verdict ?m1 2000 0 5 = Wait (from_secs 58)"
    by (simp add: verdict_def win Let_def wait_def clamp_i64_def u64_try_from_def from_millis_def
        from_secs_def rust_num)
  have bal: "credit_balance 4000 1000 2000 8 2 2000 = 6000"
    by (simp add: credit_balance_def Let_def clamp_i64_def clamp_i128_def rust_num)
  have v2: "verdict ?m2 2000 0 5 = Wait (from_secs 2)"
    by (simp add: verdict_def bal Let_def clamp_i128_def wrap_i128_def trunc_div_def u64_try_from_def
        from_millis_def from_secs_def rust_num)
  have "from_secs 2 \<le> from_secs 58" by (simp add: from_secs_def)
  then obtain r where r: "explain ?b 2000 5 = Some r" "r_retry r = After (from_secs 58)"
    unfolding b by (simp add: explain_def v1 v2 retry_of_def Let_def)
  have "budget_at ?b 2000"
    unfolding b by (simp add: budget_at_def time_ok_def meter_ok_def spec_ok_def period_ok_def per win rust_num)
  moreover have "\<not> waits_on_calls ?b 2000 5" unfolding b by (simp add: waits_on_calls_def)
  moreover have "time_ok (2000 + wait_millis (from_secs 58))"
    by (simp add: time_ok_def wait_millis_def as_millis_def from_secs_def)
  ultimately have "explain ?b (2000 + wait_millis (from_secs 58)) 5 = None \<and> explain ?b 30000 5 \<noteq> None"
    using refusal_wait_exact [OF _ r] by (simp add: wait_millis_def as_millis_def from_secs_def)
  with r show ?thesis by (simp add: Let_def)
qed

section \<open>Restoring the history\<close>

text \<open>What may happen to a budget while its history is read back.\<close>

datatype budget_op = OpReserve unix_millis tokens | OpSettle reservation unix_millis tokens

definition run_op :: "budget \<Rightarrow> budget_op \<Rightarrow> budget" where
  "run_op b op =
     (case op of
        OpReserve now estimate \<Rightarrow> fst (reserve b now estimate)
      | OpSettle r at actual \<Rightarrow> settle b r at actual)"

definition charges_of :: "budget_op list \<Rightarrow> (unix_millis \<times> tokens) list" where
  "charges_of ops =
     concat (map (\<lambda>op. case op of OpSettle _ at actual \<Rightarrow> if actual > 0 then [(at, actual)] else []
                     | OpReserve _ _ \<Rightarrow> []) ops)"

lemma charges_of_Cons:
  "charges_of (op # ops) = charges_of [op] @ charges_of ops"
  by (simp add: charges_of_def)

lemma reserve_keeps [simp]:
  "live_since_boot (fst (reserve b now e)) = live_since_boot b"
  "b_models (fst (reserve b now e)) = b_models b"
  "b_agent (fst (reserve b now e)) = b_agent b"
  by (simp_all add: reserve_def split: option.splits)

lemma charge_all_append: "charge_all ms (xs @ ys) = charge_all (charge_all ms xs) ys"
  by (simp add: charge_all_def)

lemma charge_all_specs: "map m_spec (charge_all ms cs) = map m_spec ms"
  by (induction cs arbitrary: ms) (auto simp: charge_all_def comp_def)

lemma run_op_specs: "map m_spec (b_meters (run_op b op)) = map m_spec (b_meters b)"
  by (cases op) (simp_all add: run_op_def comp_def)

lemma settle_live:
  "live_since_boot (settle b r at actual) =
     map_option (\<lambda>live. live @ (if actual > 0 then [(at, actual)] else [])) (live_since_boot b)"
  by (auto simp: settle_def charge_budget_def Let_def split: option.splits)

lemma run_op_live:
  "live_since_boot b = Some live \<Longrightarrow> live_since_boot (run_op b op) = Some (live @ charges_of [op])"
  by (cases op) (auto simp: run_op_def charges_of_def settle_live)

lemma run_ops_live:
  assumes "live_since_boot b = Some live"
  shows "live_since_boot (foldl run_op b ops) = Some (live @ charges_of ops)"
    "map m_spec (b_meters (foldl run_op b ops)) = map m_spec (b_meters b)"
  using assms
proof (induction ops arbitrary: b live)
  case Nil
  { case 1 then show ?case by (simp add: charges_of_def) }
  { case 2 then show ?case by simp }
next
  case (Cons op ops)
  {
    case 1
    with Cons.IH(1) [OF run_op_live [OF 1]] show ?case
      by (simp add: charges_of_Cons [of op ops])
  next
    case 2
    with Cons.IH(2) [OF run_op_live [OF 2]] show ?case by (simp add: run_op_specs)
  }
qed

text \<open>A meter that was charged nothing remembers only when. From a time on, two such meters cannot
  be told apart.\<close>

definition alike :: "int \<Rightarrow> meter \<Rightarrow> meter \<Rightarrow> bool" where
  "alike t m n \<longleftrightarrow> m_spec m = m_spec n \<and> m_state m = m_state n \<and>
     max t (last_seen m) = max t (last_seen n)"

lemma alike_later: "alike s m n \<Longrightarrow> s \<le> t \<Longrightarrow> alike t m n"
  by (auto simp: alike_def max_def split: if_splits)

lemma alike_charge: "alike at m n \<Longrightarrow> alike at (charge m at spent) (charge n at spent)"
  by (auto simp: alike_def charge_def Let_def max.commute)

lemma alike_charge_zero: "alike at m n \<Longrightarrow> alike at m (charge n at 0)"
  by (auto simp: alike_def charge_zero)

lemma alike_answers:
  assumes "alike t m n" "t \<le> now"
  shows "verdict m now held want = verdict n now held want" "status m now = status n now"
    "horizon m now = horizon n now"
proof -
  have "alike now m n" using assms by (rule alike_later)
  then have eq: "m_spec m = m_spec n" "m_state m = m_state n" "max now (last_seen m) = max now (last_seen n)"
    unfolding alike_def by blast+
  show "verdict m now held want = verdict n now held want" "status m now = status n now"
      "horizon m now = horizon n now"
    unfolding verdict_def status_def used_at_def horizon_def eq by (rule refl)+
qed

fun settle_times :: "budget_op list \<Rightarrow> unix_millis list" where
  "settle_times [] = []"
| "settle_times (OpReserve _ _ # ops) = settle_times ops"
| "settle_times (OpSettle _ at _ # ops) = at # settle_times ops"

fun used_something :: "budget_op \<Rightarrow> bool" where
  "used_something (OpSettle _ _ actual) \<longleftrightarrow> 0 < actual"
| "used_something (OpReserve _ _) \<longleftrightarrow> True"

lemma charge_all_Nil [simp]: "charge_all ms [] = ms"
  by (simp add: charge_all_def)

lemma charge_all_one [simp]: "charge_all ms [(at, spent)] = map (\<lambda>m. charge m at spent) ms"
  by (simp add: charge_all_def)

lemma replayed_exactly:
  "b_meters b = ms \<Longrightarrow> charge_all ms (charges_of ops) = b_meters (foldl run_op b (filter used_something ops))"
proof (induction ops arbitrary: b ms)
  case Nil
  then show ?case by (simp add: charges_of_def)
next
  case (Cons op ops)
  let ?b = "if used_something op then run_op b op else b"
  have "charge_all ms (charges_of [op]) = b_meters ?b"
    using Cons.prems by (cases op) (auto simp: charges_of_def run_op_def)
  with Cons.IH [of ?b] show ?case
    by (simp add: charges_of_Cons [of op ops] charge_all_append)
qed

lemma replayed_alike:
  assumes "list_all2 (alike t) ms (b_meters b)" "sorted (settle_times ops)"
    "\<forall>at \<in> set (settle_times ops). t \<le> at" "t \<le> now" "\<forall>at \<in> set (settle_times ops). at \<le> now"
  shows "list_all2 (alike now) (charge_all ms (charges_of ops)) (b_meters (foldl run_op b ops))"
  using assms
proof (induction ops arbitrary: t b ms)
  case Nil
  then show ?case by (auto simp: charges_of_def intro: list_all2_mono alike_later)
next
  case (Cons op ops)
  have "list_all2 (alike now) (charge_all (charge_all ms (charges_of [op])) (charges_of ops))
      (b_meters (foldl run_op (run_op b op) ops))"
  proof (cases op)
    case (OpReserve at estimate)
    then have "charges_of [op] = []" "b_meters (run_op b op) = b_meters b"
      by (simp_all add: charges_of_def run_op_def)
    with OpReserve Cons.IH [of t ms "run_op b op"] Cons.prems show ?thesis by simp
  next
    case (OpSettle res at actual)
    have "list_all2 (alike at) ms (b_meters b)"
      using Cons.prems(1,3) OpSettle by (auto intro: list_all2_mono alike_later)
    then have "list_all2 (alike at) (charge_all ms (charges_of [op])) (b_meters (run_op b op))"
      using OpSettle
      by (auto simp: charges_of_def run_op_def list_all2_conv_all_nth alike_charge alike_charge_zero)
    with Cons.IH [of at] Cons.prems OpSettle show ?thesis by simp
  qed
  then show ?case by (simp add: charges_of_Cons [of op ops] charge_all_append)
qed

text \<open>The meters after a restart: those of a budget created at the start of the history, charged
  the history in order of time and then what was recorded since boot.\<close>

definition restarted :: "string \<Rightarrow> string list option \<Rightarrow> meter_spec list \<Rightarrow> unix_millis \<Rightarrow> budget_op list
    \<Rightarrow> unix_millis \<Rightarrow> (unix_millis \<times> tokens) list \<Rightarrow> budget" where
  "restarted agent models specs boot ops since history =
     restore (foldl run_op (begin_restore (budget_new agent models specs boot)) ops) since history"

definition uninterrupted :: "string \<Rightarrow> string list option \<Rightarrow> meter_spec list \<Rightarrow> unix_millis
    \<Rightarrow> (unix_millis \<times> tokens) list \<Rightarrow> budget_op list \<Rightarrow> budget" where
  "uninterrupted agent models specs since history ops =
     foldl run_op (foldl (\<lambda>b (at, spent). charge_budget b at spent) (budget_new agent models specs since)
       (sort_key fst history)) ops"

lemma restarted_meters:
  "b_meters (restarted agent models specs boot ops since history)
     = charge_all (b_meters (uninterrupted agent models specs since history [])) (charges_of ops)"
proof -
  let ?b = "begin_restore (budget_new agent models specs boot)"
  let ?fresh = "budget_new agent models specs since"
  note live = run_ops_live [of ?b "[]" ops]
  have "map m_spec (b_meters (foldl run_op ?b ops)) = specs"
    using live(2) by (simp add: begin_restore_def budget_new_def comp_def meter_new_def)
  then have "map (\<lambda>spec. meter_new spec since) (map m_spec (b_meters (foldl run_op ?b ops))) = b_meters ?fresh"
    by (simp add: budget_new_def)
  then have "map (\<lambda>m. meter_new (m_spec m) since) (b_meters (foldl run_op ?b ops)) = b_meters ?fresh"
    by (simp add: comp_def)
  moreover have "unwrap_or [] (live_since_boot (foldl run_op ?b ops)) = charges_of ops"
    using live(1) by (simp add: begin_restore_def)
  moreover have "b_meters (foldl (\<lambda>b (at, spent). charge_budget b at spent) c hist)
      = charge_all (b_meters c) hist" for c hist
    by (induction hist arbitrary: c) (auto simp: charge_all_def)
  ultimately show ?thesis
    by (simp add: restarted_def uninterrupted_def restore_def Let_def charge_all_append)
qed

text \<open>C4: a restart loses nothing that was spent. A budget that boots, serves calls while its
  history is being read, and is then restored has exactly the meters of a budget that was never
  restarted and served those of the calls that used something. A call that used nothing leaves no
  trace but the time of its settlement: when the settlements come in order of time, from the last
  of them on the restored meters answer every question as those of the budget that was never
  restarted and served all the calls.\<close>

theorem restore_as_uninterrupted:
  "b_meters (restarted agent models specs boot ops since history) =
     b_meters (uninterrupted agent models specs since history (filter used_something ops)) \<and>
   (sorted (settle_times ops) \<and> (\<forall>at \<in> set (settle_times ops). at \<le> now) \<longrightarrow>
     list_all2 (\<lambda>m n. (\<forall>held want. verdict m now held want = verdict n now held want) \<and>
         status m now = status n now \<and> horizon m now = horizon n now)
       (b_meters (restarted agent models specs boot ops since history))
       (b_meters (uninterrupted agent models specs since history ops)))"
proof (intro conjI impI)
  let ?u = "uninterrupted agent models specs since history"
  have run: "?u ops = foldl run_op (?u []) ops" for ops by (simp add: uninterrupted_def)
  show "b_meters (restarted agent models specs boot ops since history) = b_meters (?u (filter used_something ops))"
    using replayed_exactly [OF refl] by (simp add: restarted_meters run [of "filter _ _"])
  assume times: "sorted (settle_times ops) \<and> (\<forall>at \<in> set (settle_times ops). at \<le> now)"
  define t where "t = min now (Min (insert now (set (settle_times ops))))"
  have "list_all2 (alike t) (b_meters (?u [])) (b_meters (?u []))"
    by (simp add: list_all2_conv_all_nth alike_def)
  then have "list_all2 (alike now) (charge_all (b_meters (?u [])) (charges_of ops)) (b_meters (foldl run_op (?u []) ops))"
    by (rule replayed_alike) (use times in \<open>auto simp: t_def\<close>)
  then show "list_all2 (\<lambda>m n. (\<forall>held want. verdict m now held want = verdict n now held want) \<and>
         status m now = status n now \<and> horizon m now = horizon n now)
       (b_meters (restarted agent models specs boot ops since history)) (b_meters (?u ops))"
    unfolding restarted_meters run [of ops] by (rule list_all2_mono) (simp add: alike_answers)
qed

theorem restore_as_uninterrupted_witness:
  "list_all2 (\<lambda>m n. (\<forall>held want. verdict m 540 held want = verdict n 540 held want) \<and>
         status m 540 = status n 540 \<and> horizon m 540 = horizon n 540)
       (b_meters (restarted ''bot'' None [SpecRolling 90 (from_secs 60)] 500
          [OpReserve 510 7, OpSettle (Reservation 7) 520 6, OpSettle (Reservation 9) 530 0] 0 [(200, 5), (100, 4)]))
       (b_meters (uninterrupted ''bot'' None [SpecRolling 90 (from_secs 60)] 0 [(200, 5), (100, 4)]
          [OpReserve 510 7, OpSettle (Reservation 7) 520 6, OpSettle (Reservation 9) 530 0]))"
proof -
  let ?ops = "[OpReserve 510 7, OpSettle (Reservation 7) 520 6, OpSettle (Reservation 9) 530 0]"
  have "sorted (settle_times ?ops) \<and> (\<forall>at \<in> set (settle_times ?ops). at \<le> 540)" by simp
  with restore_as_uninterrupted [where ops = ?ops and now = 540] show ?thesis by blast
qed

section \<open>Waits in words\<close>

definition unit_seconds :: "string \<Rightarrow> nat" where
  "unit_seconds unit = unwrap_or 0 (map_of (map (\<lambda>(len, unit). (unit, len)) UNITS) unit)"

lemma unit_seconds_simps [simp]:
  "unit_seconds ''day'' = 86400" "unit_seconds ''hour'' = 3600" "unit_seconds ''minute'' = 60"
  "unit_seconds ''second'' = 1"
  by (simp_all add: unit_seconds_def UNITS_def)

lemma rounded_seconds_bound: "d \<le> rounded_seconds d * 10 ^ 9"
  using div_mult_mod_eq [of d "10 ^ 9"] mod_less_divisor [of "10 ^ 9" d]
  by (auto simp: rounded_seconds_def as_secs_def subsec_nanos_def max_def)

text \<open>A wait put in words never tells the caller to come back too early, and is longer than the
  wait, in whole seconds, by less than one of the unit it names.\<close>

theorem rounded_never_early:
  "let (count, unit) = rounded d
   in d \<le> count * unit_seconds unit * 10 ^ 9 \<and>
      count * unit_seconds unit < rounded_seconds d + unit_seconds unit"
proof -
  let ?s = "rounded_seconds d"
  have s: "1 \<le> ?s" by (simp add: rounded_seconds_def)
  note up = div_ceil_upper [of _ ?s] and lo = div_ceil_lower [of _ ?s]
  have "let (count, unit) = rounded d
      in ?s \<le> count * unit_seconds unit \<and> count * unit_seconds unit < ?s + unit_seconds unit"
    using up [of 86400] up [of 3600] up [of 60] up [of 1] lo [of 86400] lo [of 3600] lo [of 60] lo [of 1] s
    by (simp add: rounded_def UNITS_def Let_def)
  then show ?thesis
    using rounded_seconds_bound [of d] by (auto simp: Let_def intro: order_trans mult_right_mono)
qed

end
