(* ===== verification/Governor_Metering.thy ===== *)
theory Governor_Metering
  imports Governor_Budget "HOL-Library.AList"
begin

text \<open>
  Metering of model calls (\<open>crates/dekopon-model-token-governor/src/metering.rs\<close> and
  \<open>usage.rs\<close>): a call is admitted against the budget of its agent, what it reports is observed,
  and it is settled once, when it finishes or is dropped. The clock is an argument of the
  operations; the rows \<open>record\<close> emits are kept in the state as a log, in the order emitted. The
  budgets are a list of pairs with one entry per agent, which stands for the \<open>HashMap\<close>.
\<close>

section \<open>Usage\<close>

record model_usage =
  input_tokens :: "nat option"
  cached_input_tokens :: "nat option"
  cache_write_tokens :: "nat option"
  output_tokens :: "nat option"
  reasoning_output_tokens :: "nat option"
  total_tokens :: "nat option"

definition no_usage :: model_usage where
  "no_usage = \<lparr>input_tokens = None, cached_input_tokens = None, cache_write_tokens = None,
     output_tokens = None, reasoning_output_tokens = None, total_tokens = None\<rparr>"

definition option_or :: "'a option \<Rightarrow> 'a option \<Rightarrow> 'a option" where
  "option_or x y = (case x of Some v \<Rightarrow> Some v | None \<Rightarrow> y)"

definition merged :: "model_usage \<Rightarrow> model_usage \<Rightarrow> model_usage" where
  "merged earlier later =
     \<lparr>input_tokens = option_or (input_tokens later) (input_tokens earlier),
      cached_input_tokens = option_or (cached_input_tokens later) (cached_input_tokens earlier),
      cache_write_tokens = option_or (cache_write_tokens later) (cache_write_tokens earlier),
      output_tokens = option_or (output_tokens later) (output_tokens earlier),
      reasoning_output_tokens = option_or (reasoning_output_tokens later) (reasoning_output_tokens earlier),
      total_tokens = option_or (total_tokens later) (total_tokens earlier)\<rparr>"

section \<open>Calls and estimates\<close>

definition IMAGE_TOKENS :: nat where "IMAGE_TOKENS = 1000"
definition DEFAULT_OUTPUT_RESERVE :: tokens where "DEFAULT_OUTPUT_RESERVE = 1024"
definition REASONING_OUTPUT_RESERVE :: tokens where "REASONING_OUTPUT_RESERVE = 4096"

datatype via = ViaAgent | ViaProxy "string option" | ViaSummary

fun via_str :: "via \<Rightarrow> string" where
  "via_str ViaAgent = ''agent''"
| "via_str (ViaProxy _) = ''proxy''"
| "via_str ViaSummary = ''summary''"

fun via_session :: "via \<Rightarrow> string option" where
  "via_session (ViaProxy session) = session"
| "via_session ViaAgent = None"
| "via_session ViaSummary = None"

record call =
  call_agent :: string
  call_model :: string
  call_backend :: string
  call_via :: via

record sizes =
  sz_bytes :: nat
  sz_images :: nat

definition sizes_tokens :: "sizes \<Rightarrow> nat" where
  "sizes_tokens s = saturating_add (tokens_from_bytes (sz_bytes s)) (saturating_mul (sz_images s) IMAGE_TOKENS)"

record estimate =
  est_input :: tokens
  est_output_reserve :: tokens

text \<open>An \<open>InputHint\<close> is the value of its atomic.\<close>

definition hint_observe :: "nat \<Rightarrow> model_usage \<Rightarrow> nat" where
  "hint_observe hint usage = (case input_tokens usage of Some n \<Rightarrow> n | None \<Rightarrow> hint)"

definition from_sizes :: "sizes \<Rightarrow> (nat \<times> sizes) option \<Rightarrow> tokens \<Rightarrow> estimate" where
  "from_sizes whole fresh reserve_tokens =
     (let hinted = (case fresh of None \<Rightarrow> 0 | Some (hint, fresh) \<Rightarrow> saturating_add hint (sizes_tokens fresh))
      in \<lparr>est_input = max (sizes_tokens whole) hinted, est_output_reserve = reserve_tokens\<rparr>)"

definition output_reserve :: "nat option \<Rightarrow> bool \<Rightarrow> tokens" where
  "output_reserve max_output_tokens reasoning =
     (case max_output_tokens of
        Some tokens \<Rightarrow> tokens
      | None \<Rightarrow> if reasoning then REASONING_OUTPUT_RESERVE else DEFAULT_OUTPUT_RESERVE)"

definition total :: "estimate \<Rightarrow> tokens" where
  "total e = saturating_add (est_input e) (est_output_reserve e)"

section \<open>Charges and rows\<close>

datatype outcome = Succeeded | Failed | Cancelled | NotSent

fun outcome_str :: "outcome \<Rightarrow> string" where
  "outcome_str Succeeded = ''succeeded''"
| "outcome_str Failed = ''failed''"
| "outcome_str NotSent = ''failed''"
| "outcome_str Cancelled = ''cancelled''"

record observed =
  ob_usage :: "model_usage option"
  ob_text_bytes :: nat

definition observed_default :: observed where
  "observed_default = \<lparr>ob_usage = None, ob_text_bytes = 0\<rparr>"

record charge_row =
  ch_input :: nat
  ch_output :: nat
  ch_usage :: model_usage
  ch_source :: string
  ch_outcome :: string

definition charge_refused :: charge_row where
  "charge_refused = \<lparr>ch_input = 0, ch_output = 0, ch_usage = no_usage, ch_source = ''estimated'',
     ch_outcome = ''refused''\<rparr>"

definition charge_of :: "outcome \<Rightarrow> estimate \<Rightarrow> observed \<Rightarrow> charge_row" where
  "charge_of oc e observed =
     (let usage = unwrap_or no_usage (ob_usage observed)
      in if oc = NotSent then charge_refused\<lparr>ch_outcome := outcome_str oc, ch_usage := usage\<rparr>
         else let source = (case (input_tokens usage, output_tokens usage) of
                  (Some _, Some _) \<Rightarrow> ''reported''
                | (None, None) \<Rightarrow> ''estimated''
                | _ \<Rightarrow> ''partial'')
         in \<lparr>ch_input = unwrap_or (est_input e) (input_tokens usage),
             ch_output = unwrap_or (tokens_from_bytes (ob_text_bytes observed)) (output_tokens usage),
             ch_usage = usage, ch_source = source, ch_outcome = outcome_str oc\<rparr>)"

record meter_row =
  row_agent :: string
  row_model :: string
  row_backend :: string
  row_via :: string
  row_session :: "string option"
  row_input :: int
  row_output :: int
  row_cached :: int
  row_cache_write :: int
  row_reasoning :: int
  row_source :: string
  row_estimate_input :: int
  row_outcome :: string
  row_error_kind :: "string option"

definition row_int :: "nat \<Rightarrow> int" where
  "row_int v = unwrap_or i64_max (i64_try_from (int v))"

definition record_row :: "call \<Rightarrow> estimate \<Rightarrow> charge_row \<Rightarrow> string option \<Rightarrow> meter_row" where
  "record_row c e ch kind =
     \<lparr>row_agent = call_agent c, row_model = call_model c, row_backend = call_backend c,
      row_via = via_str (call_via c), row_session = via_session (call_via c),
      row_input = row_int (ch_input ch), row_output = row_int (ch_output ch),
      row_cached = row_int (unwrap_or 0 (cached_input_tokens (ch_usage ch))),
      row_cache_write = row_int (unwrap_or 0 (cache_write_tokens (ch_usage ch))),
      row_reasoning = row_int (unwrap_or 0 (reasoning_output_tokens (ch_usage ch))),
      row_source = ch_source ch, row_estimate_input = row_int (est_input e),
      row_outcome = ch_outcome ch, row_error_kind = kind\<rparr>"

section \<open>Admission\<close>

record metering =
  budgets :: "(string \<times> budget) list"
  meter_log :: "meter_row list"

record admission =
  ad_call :: call
  ad_estimate :: estimate
  ad_reservation :: "reservation option"
  ad_observed :: observed
  ad_settled :: bool

definition metering_new :: "budget list \<Rightarrow> metering" where
  "metering_new bs = \<lparr>budgets = foldl (\<lambda>m b. AList.update (b_agent b) b m) [] bs, meter_log = []\<rparr>"

definition has_budgets :: "metering \<Rightarrow> bool" where
  "has_budgets m \<longleftrightarrow> budgets m \<noteq> []"

definition emit :: "metering \<Rightarrow> meter_row \<Rightarrow> metering" where
  "emit m row = m\<lparr>meter_log := meter_log m @ [row]\<rparr>"

definition admit :: "metering \<Rightarrow> unix_millis \<Rightarrow> call \<Rightarrow> estimate \<Rightarrow> metering \<times> (refusal, admission) result" where
  "admit m now c e =
     (let admission = (\<lambda>r. \<lparr>ad_call = c, ad_estimate = e, ad_reservation = r,
          ad_observed = observed_default, ad_settled = False\<rparr>)
      in case map_of (budgets m) (call_agent c) of
           None \<Rightarrow> (m, Inr (admission None))
         | Some b \<Rightarrow>
             if covers b (call_model c) then
               (case reserve b now (total e) of
                  (b', Inr r) \<Rightarrow>
                    (m\<lparr>budgets := AList.update (call_agent c) b' (budgets m)\<rparr>, Inr (admission (Some r)))
                | (b', Inl refusal) \<Rightarrow>
                    (emit m (record_row c e charge_refused None), Inl refusal))
             else (m, Inr (admission None)))"

definition map_budgets :: "(string \<Rightarrow> budget \<Rightarrow> budget) \<Rightarrow> metering \<Rightarrow> metering" where
  "map_budgets f m = m\<lparr>budgets := map (\<lambda>(agent, b). (agent, f agent b)) (budgets m)\<rparr>"

definition metering_begin_restore :: "metering \<Rightarrow> metering" where
  "metering_begin_restore = map_budgets (\<lambda>_. begin_restore)"

definition metering_abandon_restore :: "metering \<Rightarrow> metering" where
  "metering_abandon_restore = map_budgets (\<lambda>_. abandon_restore)"

definition lookback :: "metering \<Rightarrow> unix_millis \<Rightarrow> duration" where
  "lookback m now = foldl max 0 (map (\<lambda>(_, b). budget_horizon b now) (budgets m))"

record history_row =
  h_agent :: string
  h_model :: string
  h_at :: unix_millis
  h_tokens :: tokens

definition metering_restore :: "metering \<Rightarrow> unix_millis \<Rightarrow> history_row list \<Rightarrow> metering" where
  "metering_restore m since rows =
     map_budgets (\<lambda>agent b. restore b since
       (map (\<lambda>row. (h_at row, h_tokens row))
         (filter (\<lambda>row. h_agent row = agent \<and> covers b (h_model row)) rows))) m"

definition metering_statuses :: "metering \<Rightarrow> unix_millis \<Rightarrow> string \<Rightarrow> (meter_kind \<times> meter_status) list option" where
  "metering_statuses m now agent = map_option (\<lambda>b. statuses b now) (map_of (budgets m) agent)"

definition metering_settle :: "metering \<Rightarrow> unix_millis \<Rightarrow> call \<Rightarrow> reservation \<Rightarrow> tokens \<Rightarrow> metering" where
  "metering_settle m now c r actual =
     (case map_of (budgets m) (call_agent c) of
        Some b \<Rightarrow> m\<lparr>budgets := AList.update (call_agent c) (settle b r now actual) (budgets m)\<rparr>
      | None \<Rightarrow> m)"

section \<open>The life of an admission\<close>

definition observe_usage :: "admission \<Rightarrow> model_usage \<Rightarrow> admission" where
  "observe_usage a usage =
     a\<lparr>ad_observed := (ad_observed a)\<lparr>ob_usage :=
       Some (merged (unwrap_or no_usage (ob_usage (ad_observed a))) usage)\<rparr>\<rparr>"

definition observe_text :: "admission \<Rightarrow> nat \<Rightarrow> admission" where
  "observe_text a bytes =
     a\<lparr>ad_observed := (ad_observed a)\<lparr>ob_text_bytes :=
       saturating_add (ob_text_bytes (ad_observed a)) bytes\<rparr>\<rparr>"

definition finish :: "metering \<Rightarrow> unix_millis \<Rightarrow> admission \<Rightarrow> outcome \<Rightarrow> string option \<Rightarrow> metering \<times> admission" where
  "finish m now a oc kind =
     (if ad_settled a then (m, a)
      else let ch = charge_of oc (ad_estimate a) (ad_observed a);
               m = (case ad_reservation a of
                      Some r \<Rightarrow> metering_settle m now (ad_call a) r (saturating_add (ch_input ch) (ch_output ch))
                    | None \<Rightarrow> m)
      in (emit m (record_row (ad_call a) (ad_estimate a) ch kind),
          a\<lparr>ad_settled := True, ad_reservation := None\<rparr>))"

text \<open>\<open>settle\<close> and \<open>settle_with_kind\<close> consume the admission, so its \<open>Drop\<close> runs right
  after them.\<close>

definition drop_admission :: "metering \<Rightarrow> unix_millis \<Rightarrow> admission \<Rightarrow> metering" where
  "drop_admission m now a = fst (finish m now a Cancelled None)"

definition admission_settle :: "metering \<Rightarrow> unix_millis \<Rightarrow> admission \<Rightarrow> outcome \<Rightarrow> metering" where
  "admission_settle m now a oc =
     (let (m, a) = finish m now a oc None in drop_admission m now a)"

definition settle_with_kind :: "metering \<Rightarrow> unix_millis \<Rightarrow> admission \<Rightarrow> outcome \<Rightarrow> string \<Rightarrow> metering" where
  "settle_with_kind m now a oc kind =
     (let (m, a) = finish m now a oc (Some kind) in drop_admission m now a)"

section \<open>Calls outside any budget\<close>

record unadmitted =
  un_call :: call
  un_estimate :: estimate
  un_observed :: observed
  un_outcome :: outcome
  un_error_kind :: "string option"

definition unadmitted_new :: "call \<Rightarrow> estimate \<Rightarrow> unadmitted" where
  "unadmitted_new c e = \<lparr>un_call = c, un_estimate = e, un_observed = observed_default,
     un_outcome = Cancelled, un_error_kind = Some ''cancelled''\<rparr>"

definition unadmitted_observe_text :: "unadmitted \<Rightarrow> nat \<Rightarrow> unadmitted" where
  "unadmitted_observe_text u bytes =
     u\<lparr>un_observed := (un_observed u)\<lparr>ob_text_bytes :=
       saturating_add (ob_text_bytes (un_observed u)) bytes\<rparr>\<rparr>"

definition drop_unadmitted :: "metering \<Rightarrow> bool \<Rightarrow> unadmitted \<Rightarrow> metering" where
  "drop_unadmitted m panicking u =
     (let (oc, kind) = (if panicking then (Failed, Some ''panicked'') else (un_outcome u, un_error_kind u))
      in emit m (record_row (un_call u) (un_estimate u) (charge_of oc (un_estimate u) (un_observed u)) kind))"

definition unadmitted_finish ::
  "metering \<Rightarrow> bool \<Rightarrow> unadmitted \<Rightarrow> model_usage option \<Rightarrow> nat \<Rightarrow> outcome \<Rightarrow> string option \<Rightarrow> metering" where
  "unadmitted_finish m panicking u usage text_bytes oc kind =
     drop_unadmitted m panicking
       (u\<lparr>un_observed := \<lparr>ob_usage = usage, ob_text_bytes = max (ob_text_bytes (un_observed u)) text_bytes\<rparr>,
          un_outcome := oc, un_error_kind := kind\<rparr>)"

section \<open>Settling once\<close>

lemma update_lookup [simp]: "map_of (AList.update k v al) x = (if x = k then Some v else map_of al x)"
  by (simp add: update_conv')

lemma emit_simps [simp]: "budgets (emit m row) = budgets m" "meter_log (emit m row) = meter_log m @ [row]"
  by (simp_all add: emit_def)

lemma metering_settle_lookup:
  "map_of (budgets (metering_settle m now c r actual)) agent =
     (if agent = call_agent c then map_option (\<lambda>b. settle b r now actual) (map_of (budgets m) agent)
      else map_of (budgets m) agent)"
  by (auto simp: metering_settle_def split: option.splits)

lemma metering_settle_log [simp]: "meter_log (metering_settle m now c r actual) = meter_log m"
  by (auto simp: metering_settle_def split: option.splits)

lemma finish_settled [simp]: "ad_settled (snd (finish m now a oc kind))"
  by (simp add: finish_def Let_def)

lemma finish_again: "ad_settled a \<Longrightarrow> finish m now a oc kind = (m, a)"
  by (simp add: finish_def)

text \<open>C5: an admitted call is charged once. Settling consumes the admission and so also drops it, yet
  exactly one row is emitted, the budget of the call's agent is settled with exactly the charged
  input and output, and no other agent's budget is touched.\<close>

theorem settle_charges_once:
  assumes "\<not> ad_settled a" "ad_reservation a = Some r"
    and "map_of (budgets m) (call_agent (ad_call a)) = Some b"
  shows "let m' = admission_settle m now a oc;
             ch = charge_of oc (ad_estimate a) (ad_observed a)
         in meter_log m' = meter_log m @ [record_row (ad_call a) (ad_estimate a) ch None] \<and>
            map_of (budgets m') = (map_of (budgets m))(call_agent (ad_call a) \<mapsto>
              settle b r now (saturating_add (ch_input ch) (ch_output ch)))"
proof -
  obtain m1 a1 where f: "finish m now a oc None = (m1, a1)" by fastforce
  with finish_settled [of m now a oc None] have "ad_settled a1" by simp
  then have "admission_settle m now a oc = fst (finish m now a oc None)"
    by (simp add: admission_settle_def drop_admission_def f finish_again)
  with assms show ?thesis
    by (simp add: finish_def Let_def fun_eq_iff metering_settle_lookup)
qed

theorem settle_charges_once_witness:
  "let b = budget_new ''bot'' None [SpecFixed 9000 (from_secs 60)] 0;
       m = metering_new [b];
       c = \<lparr>call_agent = ''bot'', call_model = ''m'', call_backend = ''x'', call_via = ViaAgent\<rparr>;
       a = \<lparr>ad_call = c, ad_estimate = \<lparr>est_input = 3, est_output_reserve = 4\<rparr>,
         ad_reservation = Some (Reservation 7), ad_observed = observed_default, ad_settled = False\<rparr>
   in length (meter_log (admission_settle m 5 a Succeeded)) = 1 \<and>
      map_of (budgets (admission_settle m 5 a Succeeded)) ''bot'' = Some (settle b (Reservation 7) 5 3)"
proof -
  let ?b = "budget_new ''bot'' None [SpecFixed 9000 (from_secs 60)] 0"
  let ?m = "metering_new [?b]"
  let ?a = "\<lparr>ad_call = \<lparr>call_agent = ''bot'', call_model = ''m'', call_backend = ''x'', call_via = ViaAgent\<rparr>,
      ad_estimate = \<lparr>est_input = 3, est_output_reserve = 4\<rparr>,
      ad_reservation = Some (Reservation 7), ad_observed = observed_default, ad_settled = False\<rparr>"
  have m: "map_of (budgets ?m) ''bot'' = Some ?b" "meter_log ?m = []"
    by (simp_all add: metering_new_def budget_new_def)
  with settle_charges_once [of ?a "Reservation 7" ?m ?b 5 Succeeded] show ?thesis
    by (simp add: Let_def charge_of_def observed_default_def no_usage_def tokens_from_bytes_def
        div_ceil_def saturating_add_def u64_max_def)
qed

section \<open>Reservations do not leak\<close>

text \<open>The calls of all agents, interleaved: each step is one call of the public interface, at any
  time. The second component holds every admission ever granted.\<close>

inductive metering_step :: "metering \<times> admission list \<Rightarrow> metering \<times> admission list \<Rightarrow> bool" where
  step_admitted: "admit m now c e = (m', Inr a) \<Longrightarrow> metering_step (m, adms) (m', a # adms)"
| step_refused: "admit m now c e = (m', Inl refusal) \<Longrightarrow> metering_step (m, adms) (m', adms)"
| step_usage: "metering_step (m, xs @ a # ys) (m, xs @ observe_usage a usage # ys)"
| step_text: "metering_step (m, xs @ a # ys) (m, xs @ observe_text a bytes # ys)"
| step_finished: "finish m now a oc kind = (m', a') \<Longrightarrow>
    metering_step (m, xs @ a # ys) (m', xs @ a' # ys)"
| step_begin_restore: "metering_step (m, adms) (metering_begin_restore m, adms)"
| step_abandon_restore: "metering_step (m, adms) (metering_abandon_restore m, adms)"
| step_restore: "metering_step (m, adms) (metering_restore m since rows, adms)"

inductive metering_reachable :: "metering \<times> admission list \<Rightarrow> bool" where
  reach_new: "list_all (\<lambda>b. reserved b = 0) bs \<Longrightarrow> metering_reachable (metering_new bs, [])"
| reach_step: "metering_reachable s \<Longrightarrow> metering_step s s' \<Longrightarrow> metering_reachable s'"

definition held_of :: "string \<Rightarrow> admission \<Rightarrow> nat" where
  "held_of agent a =
     (if call_agent (ad_call a) = agent
      then (case ad_reservation a of None \<Rightarrow> 0 | Some r \<Rightarrow> reservation_tokens r) else 0)"

definition held_by :: "string \<Rightarrow> admission list \<Rightarrow> nat" where
  "held_by agent adms = sum_list (map (held_of agent) adms)"

lemma held_by_simps [simp]:
  "held_by agent [] = 0" "held_by agent (a # adms) = held_of agent a + held_by agent adms"
  "held_by agent (xs @ ys) = held_by agent xs + held_by agent ys"
  by (simp_all add: held_by_def)

lemma held_of_None [simp]: "ad_reservation a = None \<Longrightarrow> held_of agent a = 0"
  by (simp add: held_of_def)

lemma held_of_other [simp]: "call_agent (ad_call a) \<noteq> agent \<Longrightarrow> held_of agent a = 0"
  by (simp add: held_of_def)

lemma held_of_Some:
  "ad_reservation a = Some r \<Longrightarrow> held_of (call_agent (ad_call a)) a = reservation_tokens r"
  by (simp add: held_of_def)

lemma held_of_observe [simp]:
  "held_of agent (observe_usage a usage) = held_of agent a"
  "held_of agent (observe_text a bytes) = held_of agent a"
  by (simp_all add: held_of_def observe_usage_def observe_text_def)

definition metering_inv :: "metering \<times> admission list \<Rightarrow> bool" where
  "metering_inv s \<longleftrightarrow>
     (\<forall>agent b. map_of (budgets (fst s)) agent = Some b \<longrightarrow> reserved b \<le> held_by agent (snd s)) \<and>
     list_all (\<lambda>a. ad_settled a \<longrightarrow> ad_reservation a = None) (snd s)"

lemma metering_inv_reserved:
  "metering_inv (m, adms) \<Longrightarrow> map_of (budgets m) agent = Some b \<Longrightarrow> reserved b \<le> held_by agent adms"
  by (simp add: metering_inv_def)

lemma restore_keeps_reserved [simp]:
  "reserved (begin_restore b) = reserved b" "reserved (abandon_restore b) = reserved b"
  "reserved (restore b since hist) = reserved b"
  by (simp_all add: begin_restore_def abandon_restore_def restore_def Let_def)

lemma map_budgets_lookup:
  "map_of (budgets (map_budgets f m)) agent = map_option (f agent) (map_of (budgets m) agent)"
proof -
  have "map_of (map (\<lambda>(k, b). (k, f k b)) al) agent = map_option (f agent) (map_of al agent)" for al
    by (induction al) auto
  then show ?thesis by (simp add: map_budgets_def)
qed

lemma admit_cases:
  assumes "admit m now c e = (m', Inr a)"
  obtains (unmetered) "m' = m" "ad_reservation a = None" "ad_call a = c" "\<not> ad_settled a"
  | (metered) b b' r where "map_of (budgets m) (call_agent c) = Some b" "reserve b now (total e) = (b', Inr r)"
      "budgets m' = AList.update (call_agent c) b' (budgets m)" "ad_reservation a = Some r" "ad_call a = c"
      "\<not> ad_settled a" "covers b (call_model c)"
  using assms by (auto simp: admit_def Let_def split: option.splits if_splits prod.splits sum.splits)

lemma metering_inv_admit:
  assumes "admit m now c e = (m', Inr a)" "metering_inv (m, adms)"
  shows "metering_inv (m', a # adms)"
  using assms(1)
proof (cases rule: admit_cases)
  case unmetered
  with assms(2) show ?thesis by (auto simp: metering_inv_def)
next
  case (metered b b' r)
  then have "reserved b' \<le> reserved b + reservation_tokens r"
    by (auto simp: reserve_ok_iff saturating_add_le)
  moreover have "reserved b \<le> held_by (call_agent c) adms"
    using assms(2) metered(1) by (rule metering_inv_reserved)
  ultimately have "reserved b' \<le> held_by (call_agent c) (a # adms)"
    using held_of_Some [OF metered(4)] metered(5) by simp
  with metered assms(2) show ?thesis
    by (auto simp: metering_inv_def intro: trans_le_add2)
qed

lemma finish_cases:
  assumes "finish m now a oc kind = (m', a')"
  obtains (again) "ad_settled a" "m' = m" "a' = a"
  | (free) "ad_reservation a = None" "budgets m' = budgets m" "ad_reservation a' = None" "ad_call a' = ad_call a"
  | (held) r actual where "ad_reservation a = Some r" "ad_reservation a' = None" "ad_call a' = ad_call a"
      "budgets m' = budgets (metering_settle m now (ad_call a) r actual)"
  using assms by (auto simp: finish_def Let_def split: if_splits option.splits)

lemma metering_inv_finish:
  assumes f: "finish m now a oc kind = (m', a')" and inv: "metering_inv (m, xs @ a # ys)"
  shows "metering_inv (m', xs @ a' # ys)"
  using f
proof (cases rule: finish_cases)
  case again
  with inv show ?thesis by simp
next
  case free
  with inv show ?thesis by (auto simp: metering_inv_def)
next
  case (held r actual)
  have "reserved b' \<le> held_by agent (xs @ a' # ys)" if b': "map_of (budgets m') agent = Some b'" for agent b'
  proof (cases "agent = call_agent (ad_call a)")
    case True
    with b' held obtain b where b: "map_of (budgets m) agent = Some b" "b' = settle b r now actual"
      by (auto simp: metering_settle_lookup)
    with inv have "reserved b \<le> held_by agent (xs @ a # ys)" by (blast intro: metering_inv_reserved)
    with True held held_of_Some [OF held(1)] b show ?thesis by simp
  next
    case False
    with b' held have "map_of (budgets m) agent = Some b'" by (simp add: metering_settle_lookup)
    from metering_inv_reserved [OF inv this] held False show ?thesis by simp
  qed
  with inv held show ?thesis by (simp add: metering_inv_def)
qed

lemma metering_inv_step:
  assumes "metering_step s s'" "metering_inv s"
  shows "metering_inv s'"
  using assms
proof (cases rule: metering_step.cases)
  case step_admitted
  with assms(2) show ?thesis by (auto intro: metering_inv_admit)
next
  case step_refused
  with assms(2) show ?thesis
    by (auto simp: admit_def Let_def metering_inv_def split: option.splits if_splits prod.splits sum.splits)
next
  case step_finished
  with assms(2) show ?thesis by (auto intro: metering_inv_finish)
next
  case step_usage
  with assms(2) show ?thesis by (auto simp: metering_inv_def) (auto simp: observe_usage_def)
next
  case step_text
  with assms(2) show ?thesis by (auto simp: metering_inv_def) (auto simp: observe_text_def)
qed (use assms(2) in \<open>auto simp: metering_inv_def
    metering_begin_restore_def metering_abandon_restore_def metering_restore_def map_budgets_lookup\<close>)

lemma metering_new_lookup:
  "map_of (budgets (metering_new bs)) agent = Some b \<Longrightarrow> b \<in> set bs"
proof -
  have "map_of (foldl (\<lambda>m b. AList.update (b_agent b) b m) al bs) agent = Some b \<Longrightarrow>
      b \<in> set bs \<or> map_of al agent = Some b" for al
    by (induction bs arbitrary: al) (fastforce split: if_splits)+
  from this [of "[]"] show "map_of (budgets (metering_new bs)) agent = Some b \<Longrightarrow> b \<in> set bs"
    by (simp add: metering_new_def)
qed

lemma metering_reachable_inv: "metering_reachable s \<Longrightarrow> metering_inv s"
proof (induction rule: metering_reachable.induct)
  case (reach_new bs)
  then show ?case by (auto simp: metering_inv_def list_all_iff dest!: metering_new_lookup)
next
  case (reach_step s s')
  then show ?case by (blast intro: metering_inv_step)
qed

text \<open>C3: whatever the interleaving of admissions, observations, settlements, drops and restores, an
  agent's budget never holds more than the reservations of that agent's unfinished calls; once every
  admitted call of the agent has finished, nothing is reserved.\<close>

theorem reservations_do_not_leak:
  assumes "metering_reachable (m, adms)" "map_of (budgets m) agent = Some b"
  shows "reserved b \<le> held_by agent adms \<and>
    (list_all (\<lambda>a. call_agent (ad_call a) = agent \<longrightarrow> ad_settled a) adms \<longrightarrow> reserved b = 0)"
proof -
  have inv: "reserved b \<le> held_by agent adms" "\<forall>a \<in> set adms. ad_settled a \<longrightarrow> ad_reservation a = None"
    using metering_reachable_inv [OF assms(1)] assms(2) by (auto simp: metering_inv_def list_all_iff)
  moreover have "held_by agent adms = 0"
    if "list_all (\<lambda>a. call_agent (ad_call a) = agent \<longrightarrow> ad_settled a) adms"
    using that inv(2) by (auto simp: held_by_def held_of_def list_all_iff)
  ultimately show ?thesis by auto
qed

theorem reservations_do_not_leak_witness:
  "let b = budget_new ''bot'' None [SpecFixed 90 (from_secs 60)] 0;
       c = \<lparr>call_agent = ''bot'', call_model = ''m'', call_backend = ''x'', call_via = ViaAgent\<rparr>;
       b' = b\<lparr>reserved := 7\<rparr>
   in metering_reachable (\<lparr>budgets = [(''bot'', b')], meter_log = []\<rparr>,
        [\<lparr>ad_call = c, ad_estimate = \<lparr>est_input = 3, est_output_reserve = 4\<rparr>,
          ad_reservation = Some (Reservation 7), ad_observed = observed_default, ad_settled = False\<rparr>]) \<and>
      reserved b' \<le> held_by ''bot''
        [\<lparr>ad_call = c, ad_estimate = \<lparr>est_input = 3, est_output_reserve = 4\<rparr>,
          ad_reservation = Some (Reservation 7), ad_observed = observed_default, ad_settled = False\<rparr>]"
proof -
  let ?b = "budget_new ''bot'' None [SpecFixed 90 (from_secs 60)] 0"
  let ?c = "\<lparr>call_agent = ''bot'', call_model = ''m'', call_backend = ''x'', call_via = ViaAgent\<rparr>"
  let ?e = "\<lparr>est_input = 3, est_output_reserve = 4\<rparr>"
  let ?a = "\<lparr>ad_call = ?c, ad_estimate = ?e, ad_reservation = Some (Reservation 7),
      ad_observed = observed_default, ad_settled = False\<rparr>"
  let ?m = "\<lparr>budgets = [(''bot'', ?b\<lparr>reserved := 7\<rparr>)], meter_log = []\<rparr>"
  have "admit (metering_new [?b]) 0 ?c ?e = (?m, Inr ?a)"
    by (simp add: admit_def metering_new_def budget_new_def covers_def reserve_def explain_def total_def
        meter_new_def verdict_def Let_def saturating_add_def u64_max_def retry_of_def window_start_def
        wrap_i64_def)
  then have r: "metering_reachable (?m, [?a])"
    by (intro reach_step [OF reach_new step_admitted]) (simp_all add: budget_new_def)
  from reservations_do_not_leak [OF r, of "''bot''"] r show ?thesis by (simp add: Let_def)
qed

section \<open>Estimates\<close>

lemma sizes_tokens_bound:
  "min (sz_bytes s + 4 * (1000 * sz_images s)) (4 * u64_max) \<le> 4 * sizes_tokens s"
  using div_ceil_upper [of 4 "sz_bytes s"]
  by (auto simp: sizes_tokens_def saturating_add_def saturating_mul_def tokens_from_bytes_def
      IMAGE_TOKENS_def min_def)

text \<open>An estimate is never below what the request's size says: four bytes to a token and a
  thousand tokens to an image, counted over the whole request and, when a previous call reported its
  input, over that report plus what is new; all up to the ceiling of \<open>u64\<close>.\<close>

theorem estimate_covers_sizes:
  "let e = from_sizes whole fresh reserve_tokens
   in min (sz_bytes whole + 4 * (1000 * sz_images whole)) (4 * u64_max) \<le> 4 * est_input e \<and>
      (case fresh of
         None \<Rightarrow> True
       | Some (hint, new) \<Rightarrow>
           min (4 * hint + sz_bytes new + 4 * (1000 * sz_images new)) (4 * u64_max) \<le> 4 * est_input e)"
proof (cases fresh)
  case None
  with sizes_tokens_bound [of whole] show ?thesis by (simp add: from_sizes_def)
next
  case (Some p)
  obtain hint new where p: "p = (hint, new)" by (cases p)
  let ?i = "est_input (from_sizes whole fresh reserve_tokens)"
  have "sizes_tokens whole \<le> ?i" "saturating_add hint (sizes_tokens new) \<le> ?i"
    using Some p by (simp_all add: from_sizes_def)
  with sizes_tokens_bound [of whole] sizes_tokens_bound [of new] Some p show ?thesis
    unfolding Let_def saturating_add_def by (auto simp: min_def split: if_splits)
qed

end
