(* ===== verification/Subject.thy ===== *)
theory Subject
  imports Rust_Text
begin

text \<open>
  Subjects (\<open>crates/dekopon-core/src/subject.rs\<close>): the names under which people, channels and
  repositories are known to the broker, as \<open>drn:<namespace>:<kind>:<tenant>:<id>\<close>, the scopes
  that cover them, and attested subjects, which for GitHub carry a name and an id. The lemmas show
  that printing and parsing are inverse, that a subject has one canonical text, that a scope covers
  only subjects of the kinds it lists, and that nothing decoded from a peer attests a lone GitHub
  form.
\<close>

section \<open>Kinds\<close>

definition MAX_IDENTIFIER_LENGTH :: nat where "MAX_IDENTIFIER_LENGTH = 253"

datatype principal_kind = Person | Space | Repository | Service

fun principal_kind_str :: "principal_kind \<Rightarrow> string" where
  "principal_kind_str Person = ''person''"
| "principal_kind_str Space = ''space''"
| "principal_kind_str Repository = ''repository''"
| "principal_kind_str Service = ''service''"

datatype namespace = Fauxlack | Slack | Discord | Telegram | Whatsapp | Tel | Github

datatype subject_kind =
    FauxlackUser | FauxlackChannel | SlackUser | SlackChannel | DiscordUser | DiscordChannel
  | TelegramUser | WhatsappNumber | TelNumber | GithubRepo | GithubRepoId | GithubUser | GithubUserId

fun namespace_str :: "namespace \<Rightarrow> string" where
  "namespace_str Fauxlack = ''fauxlack''"
| "namespace_str Slack = ''slack''"
| "namespace_str Discord = ''discord''"
| "namespace_str Telegram = ''telegram''"
| "namespace_str Whatsapp = ''whatsapp''"
| "namespace_str Tel = ''tel''"
| "namespace_str Github = ''github''"

fun namespace_kinds :: "namespace \<Rightarrow> subject_kind list" where
  "namespace_kinds Fauxlack = [FauxlackUser, FauxlackChannel]"
| "namespace_kinds Slack = [SlackUser, SlackChannel]"
| "namespace_kinds Discord = [DiscordUser, DiscordChannel]"
| "namespace_kinds Telegram = [TelegramUser]"
| "namespace_kinds Whatsapp = [WhatsappNumber]"
| "namespace_kinds Tel = [TelNumber]"
| "namespace_kinds Github = [GithubRepo, GithubRepoId, GithubUser, GithubUserId]"

definition namespace_reserves :: "namespace \<Rightarrow> string \<Rightarrow> bool" where
  "namespace_reserves n kind \<longleftrightarrow> n = Whatsapp \<and> (kind = ''user'' \<or> kind = ''user-id'')"

fun kind_namespace :: "subject_kind \<Rightarrow> namespace" where
  "kind_namespace FauxlackUser = Fauxlack"
| "kind_namespace FauxlackChannel = Fauxlack"
| "kind_namespace SlackUser = Slack"
| "kind_namespace SlackChannel = Slack"
| "kind_namespace DiscordUser = Discord"
| "kind_namespace DiscordChannel = Discord"
| "kind_namespace TelegramUser = Telegram"
| "kind_namespace WhatsappNumber = Whatsapp"
| "kind_namespace TelNumber = Tel"
| "kind_namespace GithubRepo = Github"
| "kind_namespace GithubRepoId = Github"
| "kind_namespace GithubUser = Github"
| "kind_namespace GithubUserId = Github"

fun kind_str :: "subject_kind \<Rightarrow> string" where
  "kind_str FauxlackUser = ''user''"
| "kind_str SlackUser = ''user''"
| "kind_str DiscordUser = ''user''"
| "kind_str TelegramUser = ''user''"
| "kind_str GithubUser = ''user''"
| "kind_str FauxlackChannel = ''channel''"
| "kind_str SlackChannel = ''channel''"
| "kind_str DiscordChannel = ''channel''"
| "kind_str WhatsappNumber = ''number''"
| "kind_str TelNumber = ''number''"
| "kind_str GithubRepo = ''repo''"
| "kind_str GithubRepoId = ''repo-id''"
| "kind_str GithubUserId = ''user-id''"

fun kind_principal :: "subject_kind \<Rightarrow> principal_kind" where
  "kind_principal FauxlackChannel = Space"
| "kind_principal SlackChannel = Space"
| "kind_principal DiscordChannel = Space"
| "kind_principal GithubRepo = Repository"
| "kind_principal GithubRepoId = Repository"
| "kind_principal _ = Person"

fun is_id_form :: "subject_kind \<Rightarrow> bool" where
  "is_id_form GithubRepoId = True"
| "is_id_form GithubUserId = True"
| "is_id_form _ = False"

section \<open>Fields\<close>

datatype field = FieldEmpty | Token nat | Decimal | Phone | GithubLogin | GithubRepoName

definition bounded :: "string \<Rightarrow> nat \<Rightarrow> bool" where
  "bounded v maximum \<longleftrightarrow> v \<noteq> [] \<and> length v \<le> maximum"

fun admits :: "field \<Rightarrow> string \<Rightarrow> bool" where
  "admits FieldEmpty v \<longleftrightarrow> v = []"
| "admits (Token maximum) v \<longleftrightarrow>
     bounded v maximum \<and> list_all (\<lambda>c. is_ascii_lowercase c \<or> is_ascii_digit c) v"
| "admits Decimal v \<longleftrightarrow>
     (case parse_u64 v of None \<Rightarrow> False | Some parsed \<Rightarrow> parsed \<noteq> 0 \<and> show_nat parsed = v)"
| "admits Phone v \<longleftrightarrow> bounded v 15 \<and> \<not> starts_with ''0'' v \<and> list_all is_ascii_digit v"
| "admits GithubLogin v \<longleftrightarrow>
     bounded v 39 \<and> list_all (\<lambda>c. is_ascii_lowercase c \<or> is_ascii_digit c \<or> c = CHR ''-'') v"
| "admits GithubRepoName v \<longleftrightarrow>
     bounded v 100 \<and> v \<noteq> ''.'' \<and> v \<noteq> ''..'' \<and>
     list_all (\<lambda>c. is_ascii_lowercase c \<or> is_ascii_digit c \<or> c \<in> {CHR ''.'', CHR ''_'', CHR ''-''}) v"

fun tenant_rule :: "subject_kind \<Rightarrow> field" where
  "tenant_rule FauxlackUser = Token 63"
| "tenant_rule FauxlackChannel = Token 63"
| "tenant_rule SlackUser = Token 32"
| "tenant_rule SlackChannel = Token 32"
| "tenant_rule DiscordChannel = Decimal"
| "tenant_rule GithubRepo = GithubLogin"
| "tenant_rule _ = FieldEmpty"

fun id_rule :: "subject_kind \<Rightarrow> field" where
  "id_rule FauxlackUser = Token 63"
| "id_rule FauxlackChannel = Token 63"
| "id_rule SlackUser = Token 32"
| "id_rule SlackChannel = Token 32"
| "id_rule WhatsappNumber = Phone"
| "id_rule TelNumber = Phone"
| "id_rule GithubRepo = GithubRepoName"
| "id_rule GithubUser = GithubLogin"
| "id_rule _ = Decimal"

definition admits_tenant :: "subject_kind \<Rightarrow> string \<Rightarrow> bool" where
  "admits_tenant k v = admits (tenant_rule k) v"

definition admits_id :: "subject_kind \<Rightarrow> string \<Rightarrow> bool" where
  "admits_id k v = admits (id_rule k) v"

section \<open>Errors and fields of a name\<close>

datatype subject_field = TenantField | IdField

datatype subject_error =
    NotDrn
  | FieldCount
  | UnknownNamespace string
  | UnknownKind namespace string
  | ReservedKind namespace string
  | InvalidField subject_field string
  | WildcardOutsideScope
  | PartialWildcard string
  | WildcardNamespace
  | ScopeAdmitsNoKind string
  | GithubNeedsTwin
  | Unpaired
  | SubjectTooLong nat

definition namespace_kind :: "namespace \<Rightarrow> string \<Rightarrow> (subject_error, subject_kind) result" where
  "namespace_kind n f =
     (if namespace_reserves n f then Inl (ReservedKind n f)
      else ok_or (UnknownKind n f) (find (\<lambda>k. kind_str k = f) (namespace_kinds n)))"

definition namespace_from_str :: "string \<Rightarrow> (subject_error, namespace) result" where
  "namespace_from_str v =
     (if v = ''fauxlack'' then Inr Fauxlack
      else if v = ''slack'' then Inr Slack
      else if v = ''discord'' then Inr Discord
      else if v = ''telegram'' then Inr Telegram
      else if v = ''whatsapp'' then Inr Whatsapp
      else if v = ''tel'' then Inr Tel
      else if v = ''github'' then Inr Github
      else Inl (UnknownNamespace v))"

record fields =
  f_namespace :: string
  f_kind :: string
  f_tenant :: string
  f_id :: string

definition fields_split :: "string \<Rightarrow> (subject_error, fields) result" where
  "fields_split folded =
     (if length folded > MAX_IDENTIFIER_LENGTH then Inl (SubjectTooLong MAX_IDENTIFIER_LENGTH)
      else case split_on CHR '':'' folded of
             [] \<Rightarrow> Inl NotDrn
           | first # rest \<Rightarrow>
               if first \<noteq> ''drn'' then Inl NotDrn
               else (case rest of
                       [n, k, t, i] \<Rightarrow> Inr \<lparr>f_namespace = n, f_kind = k, f_tenant = t, f_id = i\<rparr>
                     | _ \<Rightarrow> Inl FieldCount))"

definition fields_namespace :: "fields \<Rightarrow> (subject_error, namespace) result" where
  "fields_namespace f =
     (if f_namespace f = ''*'' then Inl WildcardNamespace else namespace_from_str (f_namespace f))"

section \<open>Subjects\<close>

record subject =
  s_kind :: subject_kind
  s_tenant :: string
  s_id :: string

definition canonical :: "subject \<Rightarrow> string" where
  "canonical s =
     ''drn'' @ '':'' @ namespace_str (kind_namespace (s_kind s)) @ '':'' @ kind_str (s_kind s)
       @ '':'' @ s_tenant s @ '':'' @ s_id s"

definition has_star :: "string \<Rightarrow> bool" where
  "has_star v \<longleftrightarrow> CHR ''*'' \<in> set v"

definition subject_new :: "subject_kind \<Rightarrow> string \<Rightarrow> string \<Rightarrow> (subject_error, subject) result" where
  "subject_new k tenant i =
     (let tenant = to_ascii_lowercase tenant; i = to_ascii_lowercase i
      in if has_star tenant \<or> has_star i then Inl WildcardOutsideScope
         else if \<not> admits_tenant k tenant then Inl (InvalidField TenantField tenant)
         else if \<not> admits_id k i then Inl (InvalidField IdField i)
         else let s = \<lparr>s_kind = k, s_tenant = tenant, s_id = i\<rparr>
         in if length (canonical s) > MAX_IDENTIFIER_LENGTH
            then Inl (SubjectTooLong MAX_IDENTIFIER_LENGTH) else Inr s)"

definition telephone :: "string \<Rightarrow> (subject_error, subject) result" where
  "telephone number = subject_new TelNumber [] (unwrap_or number (strip_prefix ''+'' number))"

definition subject_from_str :: "string \<Rightarrow> (subject_error, subject) result" where
  "subject_from_str v =
     res_bind (fields_split (to_ascii_lowercase v)) (\<lambda>f.
       if has_star (f_kind f) \<or> has_star (f_tenant f) \<or> has_star (f_id f) then Inl WildcardOutsideScope
       else res_bind (fields_namespace f) (\<lambda>n.
         res_bind (namespace_kind n (f_kind f)) (\<lambda>k. subject_new k (f_tenant f) (f_id f))))"

section \<open>Scopes\<close>

record subject_scope =
  sc_namespace :: namespace
  sc_kind :: "subject_kind option"
  sc_tenant :: "string option"
  sc_id :: "string option"

definition none_or :: "'a option \<Rightarrow> ('a \<Rightarrow> bool) \<Rightarrow> bool" where
  "none_or x p = (case x of None \<Rightarrow> True | Some v \<Rightarrow> p v)"

definition scope_covers :: "subject_scope \<Rightarrow> subject \<Rightarrow> bool" where
  "scope_covers sc s \<longleftrightarrow>
     sc_namespace sc = kind_namespace (s_kind s) \<and> none_or (sc_kind sc) (\<lambda>k. k = s_kind s)
     \<and> none_or (sc_tenant sc) (\<lambda>t. t = s_tenant s) \<and> none_or (sc_id sc) (\<lambda>i. i = s_id s)"

definition names_every_kind :: "subject_scope \<Rightarrow> bool" where
  "names_every_kind sc \<longleftrightarrow> sc_kind sc = None"

definition scope_kinds :: "subject_scope \<Rightarrow> subject_kind list" where
  "scope_kinds sc =
     filter (\<lambda>k. none_or (sc_tenant sc) (admits_tenant k) \<and> none_or (sc_id sc) (admits_id k))
       (filter (\<lambda>k. none_or (sc_kind sc) (\<lambda>wanted. wanted = k)) (namespace_kinds (sc_namespace sc)))"

definition scope_field :: "string \<Rightarrow> (subject_error, string option) result" where
  "scope_field v =
     (if v = ''*'' then Inr None else if has_star v then Inl (PartialWildcard v) else Inr (Some v))"

definition scope_display :: "subject_scope \<Rightarrow> string" where
  "scope_display sc =
     ''drn'' @ '':'' @ namespace_str (sc_namespace sc) @ '':''
       @ (case sc_kind sc of None \<Rightarrow> ''*'' | Some k \<Rightarrow> kind_str k) @ '':''
       @ unwrap_or ''*'' (sc_tenant sc) @ '':'' @ unwrap_or ''*'' (sc_id sc)"

definition scope_check :: "subject_kind option \<Rightarrow> string option \<Rightarrow> string option \<Rightarrow> (subject_error, unit) result" where
  "scope_check kind tenant i =
     (case kind of
        None \<Rightarrow> Inr ()
      | Some k \<Rightarrow>
          if \<not> none_or tenant (admits_tenant k) then Inl (InvalidField TenantField (unwrap_or [] tenant))
          else if \<not> none_or i (admits_id k) then Inl (InvalidField IdField (unwrap_or [] i))
          else Inr ())"

definition scope_from_str :: "string \<Rightarrow> (subject_error, subject_scope) result" where
  "scope_from_str v =
     res_bind (fields_split (to_ascii_lowercase v)) (\<lambda>f.
     res_bind (fields_namespace f) (\<lambda>n.
     res_bind (scope_field (f_kind f)) (\<lambda>kf.
     res_bind (case kf of None \<Rightarrow> Inr None | Some k \<Rightarrow> res_bind (namespace_kind n k) (\<lambda>k. Inr (Some k))) (\<lambda>kind.
     res_bind (scope_field (f_tenant f)) (\<lambda>tenant.
     res_bind (scope_field (f_id f)) (\<lambda>i.
     res_bind (scope_check kind tenant i) (\<lambda>_.
       let sc = \<lparr>sc_namespace = n, sc_kind = kind, sc_tenant = tenant, sc_id = i\<rparr>
       in if scope_kinds sc = [] then Inl (ScopeAdmitsNoKind (scope_display sc)) else Inr sc)))))))"

section \<open>Attested subjects\<close>

datatype attested = One subject | Twin subject subject

definition attested_one :: "subject \<Rightarrow> (subject_error, attested) result" where
  "attested_one s = (if kind_namespace (s_kind s) = Github then Inl GithubNeedsTwin else Inr (One s))"

definition attested_configured :: "subject \<Rightarrow> attested" where
  "attested_configured s = One s"

definition attested_paired :: "subject \<Rightarrow> subject \<Rightarrow> (subject_error, attested) result" where
  "attested_paired name i =
     (if (s_kind name = GithubRepo \<and> s_kind i = GithubRepoId) \<or> (s_kind name = GithubUser \<and> s_kind i = GithubUserId)
      then Inr (Twin name i) else Inl Unpaired)"

definition github_repository :: "string \<Rightarrow> string \<Rightarrow> nat \<Rightarrow> (subject_error, attested) result" where
  "github_repository owner name i =
     res_bind (subject_new GithubRepo owner name) (\<lambda>n.
     res_bind (subject_new GithubRepoId [] (show_nat i)) (\<lambda>i. attested_paired n i))"

definition github_user :: "string \<Rightarrow> nat \<Rightarrow> (subject_error, attested) result" where
  "github_user login i =
     res_bind (subject_new GithubUser [] login) (\<lambda>n.
     res_bind (subject_new GithubUserId [] (show_nat i)) (\<lambda>i. attested_paired n i))"

fun attested_name :: "attested \<Rightarrow> subject" where
  "attested_name (One s) = s"
| "attested_name (Twin name _) = name"

fun id_form :: "attested \<Rightarrow> subject option" where
  "id_form (One _) = None"
| "id_form (Twin _ i) = Some i"

definition attested_forms :: "attested \<Rightarrow> subject list" where
  "attested_forms a = attested_name a # (case id_form a of None \<Rightarrow> [] | Some i \<Rightarrow> [i])"

text \<open>The wire form is the sequence of the canonical texts. Decoding reads at most two elements and
  refuses a third; a serde length error is \<open>None\<close>.\<close>

definition attested_serialize :: "attested \<Rightarrow> string list" where
  "attested_serialize a = map canonical (attested_forms a)"

definition attested_deserialize :: "string list \<Rightarrow> (subject_error option, attested) result" where
  "attested_deserialize seq =
     (case seq of
        [] \<Rightarrow> Inl None
      | first # rest \<Rightarrow>
          res_bind (map_err Some (subject_from_str first)) (\<lambda>first.
            case rest of
              [] \<Rightarrow> map_err Some (attested_one first)
            | second # others \<Rightarrow>
                res_bind (map_err Some (subject_from_str second)) (\<lambda>second.
                  if others \<noteq> [] then Inl None else map_err Some (attested_paired first second))))"

section \<open>What fields may contain\<close>

definition plain :: "string \<Rightarrow> bool" where
  "plain v \<longleftrightarrow> CHR '':'' \<notin> set v \<and> \<not> has_star v \<and> to_ascii_lowercase v = v"

lemma plainI:
  assumes "\<forall>c \<in> set v. is_ascii_lowercase c \<or> is_ascii_digit c \<or> c \<in> {CHR ''.'', CHR ''_'', CHR ''-''}"
  shows "plain v"
proof -
  have "\<not> is_ascii_uppercase c \<and> c \<noteq> CHR '':'' \<and> c \<noteq> CHR ''*''" if "c \<in> set v" for c
    using assms that by (auto simp: ascii)
  then show ?thesis by (auto simp: plain_def has_star_def intro: to_ascii_lowercase_id)
qed

lemma admits_plain: "admits r v \<Longrightarrow> plain v"
proof (cases r)
  case Decimal
  assume "admits r v"
  with Decimal obtain n where "show_nat n = v" by (auto split: option.splits)
  with show_nat_digits [of n] show ?thesis by (intro plainI) (auto simp: list_all_iff)
qed (auto simp: plain_def has_star_def to_ascii_lowercase_def list_all_iff intro!: plainI [unfolded plain_def has_star_def to_ascii_lowercase_def])

lemma kind_plain: "plain (namespace_str n)" "plain (kind_str k)"
  by (cases n; simp add: plain_def has_star_def to_ascii_lowercase_def lower_byte_def ascii)
    (cases k; simp add: plain_def has_star_def to_ascii_lowercase_def lower_byte_def ascii)

lemma namespace_from_str_eq: "namespace_from_str v = Inr n \<longleftrightarrow> v = namespace_str n"
  by (cases n) (auto simp: namespace_from_str_def)

lemma namespace_kind_eq:
  "namespace_kind n f = Inr k \<longleftrightarrow> kind_namespace k = n \<and> f = kind_str k"
  by (cases n; cases k)
    (auto simp: namespace_kind_def namespace_reserves_def res_simps split: if_splits)

definition subject_ok :: "subject \<Rightarrow> bool" where
  "subject_ok s \<longleftrightarrow> admits_tenant (s_kind s) (s_tenant s) \<and> admits_id (s_kind s) (s_id s) \<and>
     length (canonical s) \<le> MAX_IDENTIFIER_LENGTH"

lemma subject_ok_plain: "subject_ok s \<Longrightarrow> plain (s_tenant s)" "subject_ok s \<Longrightarrow> plain (s_id s)"
  by (auto simp: subject_ok_def admits_tenant_def admits_id_def admits_plain)

lemma subject_new_eq:
  "subject_new k t i = Inr s \<longleftrightarrow>
     s = \<lparr>s_kind = k, s_tenant = to_ascii_lowercase t, s_id = to_ascii_lowercase i\<rparr> \<and> subject_ok s"
proof
  assume "subject_new k t i = Inr s"
  then show "s = \<lparr>s_kind = k, s_tenant = to_ascii_lowercase t, s_id = to_ascii_lowercase i\<rparr> \<and> subject_ok s"
    by (auto simp: subject_new_def Let_def subject_ok_def split: if_splits)
next
  assume a: "s = \<lparr>s_kind = k, s_tenant = to_ascii_lowercase t, s_id = to_ascii_lowercase i\<rparr> \<and> subject_ok s"
  then have "plain (to_ascii_lowercase t)" "plain (to_ascii_lowercase i)"
    using subject_ok_plain by fastforce+
  with a show "subject_new k t i = Inr s"
    by (auto simp: subject_new_def Let_def subject_ok_def plain_def)
qed

section \<open>Printing and parsing\<close>

definition drn_text :: "string list \<Rightarrow> string" where
  "drn_text parts = join CHR '':'' (''drn'' # parts)"

lemma fields_split_eq:
  "fields_split v = Inr f \<longleftrightarrow> length v \<le> MAX_IDENTIFIER_LENGTH \<and>
     split_on CHR '':'' v = [''drn'', f_namespace f, f_kind f, f_tenant f, f_id f]"
  by (cases f) (auto simp: fields_split_def split: list.splits if_splits)

lemma split_join_iff:
  assumes "\<forall>p \<in> set ps. CHR '':'' \<notin> set p" "ps \<noteq> []"
  shows "split_on CHR '':'' v = ps \<longleftrightarrow> v = join CHR '':'' ps"
  using assms split_on_join [of ps "CHR '':''"] by auto

lemma split_to_join: "split_on c v = ps \<Longrightarrow> v = join c ps"
  by auto

lemma canonical_join:
  "canonical s = join CHR '':'' [''drn'', namespace_str (kind_namespace (s_kind s)), kind_str (s_kind s), s_tenant s, s_id s]"
  by (simp add: canonical_def)

lemma split_canonical:
  "subject_ok s \<Longrightarrow> split_on CHR '':'' (canonical s) =
     [''drn'', namespace_str (kind_namespace (s_kind s)), kind_str (s_kind s), s_tenant s, s_id s]"
  unfolding canonical_join using subject_ok_plain [of s] kind_plain
  by (intro split_on_join) (auto simp: plain_def)

lemma split_lower_parts:
  assumes "split_on CHR '':'' (to_ascii_lowercase v) = ps" "p \<in> set ps"
  shows "to_ascii_lowercase p = p"
proof (rule to_ascii_lowercase_id)
  have "set p \<subseteq> set (to_ascii_lowercase v)" using assms split_on_chars by metis
  with to_ascii_lowercase_no_upper [of v] show "\<forall>c \<in> set p. \<not> is_ascii_uppercase c" by blast
qed

lemma canonical_lower: "subject_ok s \<Longrightarrow> to_ascii_lowercase (canonical s) = canonical s"
proof -
  assume "subject_ok s"
  note parts = kind_plain(1) [of "kind_namespace (s_kind s)"] kind_plain(2) [of "s_kind s"]
    subject_ok_plain [OF \<open>subject_ok s\<close>]
  have "to_ascii_lowercase ''drn'' = ''drn''" "to_ascii_lowercase '':'' = '':''"
    by (simp_all add: to_ascii_lowercase_def lower_byte_def ascii)
  with parts show ?thesis by (simp add: canonical_def plain_def del: append_Cons append_Nil)
qed

lemma fields_namespace_eq: "fields_namespace f = Inr n \<longleftrightarrow> f_namespace f = namespace_str n"
  by (cases n) (auto simp: fields_namespace_def namespace_from_str_eq split: if_splits)

lemma subject_from_str_iff:
  "subject_from_str v = Inr s \<longleftrightarrow> to_ascii_lowercase v = canonical s \<and> subject_ok s"
proof
  assume "subject_from_str v = Inr s"
  then obtain f n k where f: "fields_split (to_ascii_lowercase v) = Inr f" "fields_namespace f = Inr n"
    "namespace_kind n (f_kind f) = Inr k" "subject_new k (f_tenant f) (f_id f) = Inr s"
    by (auto simp: subject_from_str_def res_simps split: if_splits)
  let ?ps = "[''drn'', f_namespace f, f_kind f, f_tenant f, f_id f]"
  have sp: "split_on CHR '':'' (to_ascii_lowercase v) = ?ps" using f(1) by (simp add: fields_split_eq)
  have "to_ascii_lowercase (f_tenant f) = f_tenant f" "to_ascii_lowercase (f_id f) = f_id f"
    using split_lower_parts [OF sp] by auto
  with f(2-4) have s: "subject_ok s" "s_tenant s = f_tenant f" "s_id s = f_id f" "s_kind s = k"
    "f_kind f = kind_str k" "f_namespace f = namespace_str (kind_namespace k)"
    by (auto simp: subject_new_eq namespace_kind_eq fields_namespace_eq)
  then have "canonical s = join CHR '':'' ?ps" by (simp add: canonical_join)
  with split_to_join [OF sp] s(1) show "to_ascii_lowercase v = canonical s \<and> subject_ok s" by metis
next
  assume a: "to_ascii_lowercase v = canonical s \<and> subject_ok s"
  let ?f = "\<lparr>f_namespace = namespace_str (kind_namespace (s_kind s)), f_kind = kind_str (s_kind s),
      f_tenant = s_tenant s, f_id = s_id s\<rparr>"
  have len: "length (canonical s) \<le> MAX_IDENTIFIER_LENGTH" using a by (simp add: subject_ok_def)
  have f: "fields_split (to_ascii_lowercase v) = Inr ?f"
    unfolding fields_split_eq using a split_canonical [of s] len by simp
  have p: "plain (s_tenant s)" "plain (s_id s)" "plain (kind_str (s_kind s))"
    using a subject_ok_plain kind_plain by blast+
  have n: "fields_namespace ?f = Inr (kind_namespace (s_kind s))" by (simp add: fields_namespace_eq)
  have k: "namespace_kind (kind_namespace (s_kind s)) (kind_str (s_kind s)) = Inr (s_kind s)"
    by (simp add: namespace_kind_eq)
  have new: "subject_new (s_kind s) (s_tenant s) (s_id s) = Inr s"
    using p a by (simp add: subject_new_eq plain_def)
  show "subject_from_str v = Inr s"
    using p by (simp add: subject_from_str_def f n k new plain_def)
qed

text \<open>C7: subjects have exactly one text. A text parses to a subject exactly when, folded to lower
  case, it is that subject's canonical text and the subject is one the constructor accepts; so
  printing and parsing are inverse and two subjects never share a text.\<close>

theorem subject_parse_print:
  "subject_from_str v = Inr s \<longleftrightarrow>
     canonical s = to_ascii_lowercase v \<and> subject_new (s_kind s) (s_tenant s) (s_id s) = Inr s"
proof -
  have "subject_ok s \<longleftrightarrow> subject_new (s_kind s) (s_tenant s) (s_id s) = Inr s"
    using subject_ok_plain [of s] by (auto simp: subject_new_eq plain_def)
  then show ?thesis by (auto simp: subject_from_str_iff)
qed

section \<open>Scopes cover what they list\<close>

lemma scope_from_str_ok:
  assumes "scope_from_str v = Inr sc"
  obtains f :: fields where "split_on CHR '':'' (to_ascii_lowercase v) = [''drn'', f_namespace f, f_kind f, f_tenant f, f_id f]"
    "f_namespace f = namespace_str (sc_namespace sc)"
    "f_kind f = (case sc_kind sc of None \<Rightarrow> ''*'' | Some k \<Rightarrow> kind_str k)"
    "f_tenant f = unwrap_or ''*'' (sc_tenant sc)" "f_id f = unwrap_or ''*'' (sc_id sc)"
proof -
  from assms obtain f n kf kind tenant i where f: "fields_split (to_ascii_lowercase v) = Inr f"
    "fields_namespace f = Inr n" "scope_field (f_kind f) = Inr kf"
    "(case kf of None \<Rightarrow> Inr None | Some k \<Rightarrow> res_bind (namespace_kind n k) (\<lambda>k. Inr (Some k))) = Inr kind"
    "scope_field (f_tenant f) = Inr tenant" "scope_field (f_id f) = Inr i"
    "sc = \<lparr>sc_namespace = n, sc_kind = kind, sc_tenant = tenant, sc_id = i\<rparr>" "scope_kinds sc \<noteq> []"
    by (auto simp: scope_from_str_def res_simps Let_def split: if_splits)
  have field: "w = unwrap_or ''*'' x" if "scope_field w = Inr x" for w x
    using that by (auto simp: scope_field_def split: if_splits)
  show thesis
  proof (rule that [of f])
    show "f_kind f = (case sc_kind sc of None \<Rightarrow> ''*'' | Some k \<Rightarrow> kind_str k)"
      using f(3,4,7) field [OF f(3)] by (cases kf) (auto simp: res_simps namespace_kind_eq)
  qed (use f field in \<open>auto simp: fields_split_eq fields_namespace_eq\<close>)
qed

text \<open>A scope read from text prints as that text in lower case, and a subject it covers is of one
  of the kinds it lists.\<close>

theorem scope_covers_listed_kinds:
  assumes "scope_from_str v = Inr sc"
  shows "scope_display sc = to_ascii_lowercase v \<and>
    (\<forall>text s. subject_from_str text = Inr s \<longrightarrow> scope_covers sc s \<longrightarrow> s_kind s \<in> set (scope_kinds sc))"
proof -
  obtain f :: fields where f: "split_on CHR '':'' (to_ascii_lowercase v) = [''drn'', f_namespace f, f_kind f, f_tenant f, f_id f]"
    "f_namespace f = namespace_str (sc_namespace sc)"
    "f_kind f = (case sc_kind sc of None \<Rightarrow> ''*'' | Some k \<Rightarrow> kind_str k)"
    "f_tenant f = unwrap_or ''*'' (sc_tenant sc)" "f_id f = unwrap_or ''*'' (sc_id sc)"
    by (rule scope_from_str_ok [OF assms])
  have "scope_display sc = to_ascii_lowercase v"
    unfolding split_to_join [OF f(1)] using f(2-5) by (simp add: scope_display_def)
  moreover have "s_kind s \<in> set (scope_kinds sc)" if "subject_from_str t = Inr s" "scope_covers sc s" for t s
  proof -
    have "s_kind s \<in> set (namespace_kinds (kind_namespace (s_kind s)))" by (cases "s_kind s") auto
    moreover have "admits_tenant (s_kind s) (s_tenant s)" "admits_id (s_kind s) (s_id s)"
      using that(1) by (auto simp: subject_from_str_iff subject_ok_def)
    ultimately show ?thesis
      using that(2) by (auto simp: scope_covers_def scope_kinds_def none_or_def split: option.splits)
  qed
  ultimately show ?thesis by blast
qed

theorem scope_covers_listed_kinds_witness:
  "scope_from_str ''DRN:slack:*:t1:*'' =
       Inr \<lparr>sc_namespace = Slack, sc_kind = None, sc_tenant = Some ''t1'', sc_id = None\<rparr> \<and>
   subject_from_str ''drn:slack:user:T1:u2'' = Inr \<lparr>s_kind = SlackUser, s_tenant = ''t1'', s_id = ''u2''\<rparr> \<and>
   SlackUser \<in> set (scope_kinds \<lparr>sc_namespace = Slack, sc_kind = None, sc_tenant = Some ''t1'', sc_id = None\<rparr>)"
proof -
  let ?sc = "\<lparr>sc_namespace = Slack, sc_kind = None, sc_tenant = Some ''t1'', sc_id = None\<rparr>"
  let ?s = "\<lparr>s_kind = SlackUser, s_tenant = ''t1'', s_id = ''u2''\<rparr>"
  have sc: "scope_from_str ''DRN:slack:*:t1:*'' = Inr ?sc" by code_simp
  have s: "subject_from_str ''drn:slack:user:T1:u2'' = Inr ?s" by code_simp
  have "scope_covers ?sc ?s" by code_simp
  with scope_covers_listed_kinds [OF sc] s have "s_kind ?s \<in> set (scope_kinds ?sc)" by blast
  with sc s show ?thesis by simp
qed

section \<open>Attestation\<close>

text \<open>Nothing read from a peer attests a lone GitHub form. What decodes is either one subject
  outside GitHub or a GitHub name with the id of the same kind, and it encodes back to the same
  texts in lower case; conversely everything encoded by a holder of such a subject decodes to it.\<close>

theorem attested_wire:
  "attested_deserialize seq = Inr a \<longleftrightarrow>
     attested_serialize a = map to_ascii_lowercase seq \<and>
     (case a of
        One s \<Rightarrow> subject_from_str (canonical s) = Inr s \<and> kind_namespace (s_kind s) \<noteq> Github
      | Twin name i \<Rightarrow> subject_from_str (canonical name) = Inr name \<and> subject_from_str (canonical i) = Inr i \<and>
          (s_kind name, s_kind i) \<in> {(GithubRepo, GithubRepoId), (GithubUser, GithubUserId)})"
proof -
  have self: "subject_from_str (canonical s) = Inr s \<longleftrightarrow> subject_ok s" for s
    using canonical_lower [of s] by (auto simp: subject_from_str_iff)
  have parse: "subject_from_str w = Inr s \<longleftrightarrow> canonical s = to_ascii_lowercase w \<and> subject_ok s" for w s
    by (auto simp: subject_from_str_iff)
  consider "seq = []" | w where "seq = [w]" | w x where "seq = [w, x]" | w x y zs where "seq = w # x # y # zs"
    by (metis neq_Nil_conv)
  then show ?thesis
  proof cases
    case 1
    then show ?thesis
      by (cases a) (auto simp: attested_deserialize_def attested_serialize_def attested_forms_def)
  next
    case 2
    then show ?thesis
      by (cases a) (auto simp: attested_deserialize_def attested_serialize_def attested_forms_def res_simps
          attested_one_def self parse)
  next
    case 3
    then show ?thesis
      by (cases a) (auto simp: attested_deserialize_def attested_serialize_def attested_forms_def res_simps
          attested_paired_def self parse)
  next
    case 4
    then show ?thesis
      by (cases a) (auto simp: attested_deserialize_def attested_serialize_def attested_forms_def res_simps)
  qed
qed

end
