(* ===== verification/Identifier.thy ===== *)
theory Identifier
  imports Subject
begin

text \<open>
  Identifiers and secret names (\<open>crates/dekopon-core/src/lib.rs\<close>): the validation behind every
  identifier type (agents, capabilities, providers, principals, groups), the names of secrets and
  the proposals to use one. Characters are Unicode scalar values, so an error carries the offending
  character as the source does. The lemmas give the accepted texts in terms of their words.
\<close>

section \<open>Identifiers\<close>

datatype identifier_error =
    IdEmpty string
  | IdTooLong string nat nat
  | InvalidStart string nat
  | InvalidEnd string nat
  | InvalidCharacter string nat nat
  | AdjacentSeparators string nat

definition is_edge_character :: "nat \<Rightarrow> bool" where
  "is_edge_character c \<longleftrightarrow> (97 \<le> c \<and> c \<le> 122) \<or> (48 \<le> c \<and> c \<le> 57)"

definition is_separator :: "nat \<Rightarrow> bool" where
  "is_separator c \<longleftrightarrow> c = 46 \<or> c = 45 \<or> c = 95"

fun identifier_loop :: "string \<Rightarrow> bool \<Rightarrow> (nat \<times> nat) list \<Rightarrow> (identifier_error, unit) result" where
  "identifier_loop kind previous [] = Inr ()"
| "identifier_loop kind previous ((index, c) # rest) =
     (if \<not> is_edge_character c \<and> \<not> is_separator c then Inl (InvalidCharacter kind index c)
      else if is_separator c \<and> previous then Inl (AdjacentSeparators kind index)
      else identifier_loop kind (is_separator c) rest)"

definition validate_identifier :: "string \<Rightarrow> string \<Rightarrow> (identifier_error, unit) result" where
  "validate_identifier v kind =
     (if v = [] then Inl (IdEmpty kind)
      else if length v > MAX_IDENTIFIER_LENGTH then Inl (IdTooLong kind (length v) MAX_IDENTIFIER_LENGTH)
      else case char_indices v of
             [] \<Rightarrow> Inl (IdEmpty kind)
           | (_, first) # _ \<Rightarrow>
               if \<not> is_edge_character first then Inl (InvalidStart kind first)
               else res_bind (identifier_loop kind False (char_indices v)) (\<lambda>_.
                 if chars v = [] then Inl (IdEmpty kind)
                 else if \<not> is_edge_character (last (chars v)) then Inl (InvalidEnd kind (last (chars v)))
                 else Inr ()))"

section \<open>Secret names\<close>

definition MAX_SECRET_DRN_LENGTH :: nat where "MAX_SECRET_DRN_LENGTH = 512"
definition MAX_SECRET_USERNAME_LENGTH :: nat where "MAX_SECRET_USERNAME_LENGTH = 256"

datatype secret_drn_error = Malformed | DrnTooLong nat nat

definition edge_byte :: "char \<Rightarrow> bool" where
  "edge_byte c \<longleftrightarrow> is_ascii_lowercase c \<or> is_ascii_digit c"

definition valid_drn_component :: "string \<Rightarrow> bool" where
  "valid_drn_component v \<longleftrightarrow>
     v \<noteq> [] \<and> length v \<le> MAX_IDENTIFIER_LENGTH \<and> edge_byte (hd v) \<and> edge_byte (last v) \<and>
     list_all (\<lambda>c. is_ascii_lowercase c \<or> is_ascii_digit c \<or> c \<in> {CHR ''-'', CHR ''_''}) v"

definition validate_secret_drn :: "string \<Rightarrow> (secret_drn_error, unit) result" where
  "validate_secret_drn v =
     (if length v > MAX_SECRET_DRN_LENGTH then Inl (DrnTooLong (length v) MAX_SECRET_DRN_LENGTH)
      else case strip_prefix ''drn:secret:'' v of
             None \<Rightarrow> Inl Malformed
           | Some path \<Rightarrow>
               if list_ex (\<lambda>segment. \<not> valid_drn_component segment \<or> segment \<in> {''.'', ''..''})
                    (split_on CHR ''/'' path)
               then Inl Malformed else Inr ())"

definition secret_drn_try_from :: "string \<Rightarrow> (secret_drn_error, string) result" where
  "secret_drn_try_from v =
     (let v = to_ascii_lowercase v in res_bind (validate_secret_drn v) (\<lambda>_. Inr v))"

datatype secret_sink_kind = HttpBearer | HttpBasic | HttpBot

datatype secret_use_proposal =
    ProposeBearer string
  | ProposeBasic string string
  | ProposeBot string

fun proposal_secret :: "secret_use_proposal \<Rightarrow> string" where
  "proposal_secret (ProposeBearer s) = s"
| "proposal_secret (ProposeBasic s _) = s"
| "proposal_secret (ProposeBot s) = s"

fun proposal_sink :: "secret_use_proposal \<Rightarrow> secret_sink_kind" where
  "proposal_sink (ProposeBearer _) = HttpBearer"
| "proposal_sink (ProposeBasic _ _) = HttpBasic"
| "proposal_sink (ProposeBot _) = HttpBot"

fun proposal_username :: "secret_use_proposal \<Rightarrow> string option" where
  "proposal_username (ProposeBasic _ u) = Some u"
| "proposal_username (ProposeBearer _) = None"
| "proposal_username (ProposeBot _) = None"

text \<open>The check of \<open>deserialize_secret_username\<close>.\<close>

definition secret_username_ok :: "string \<Rightarrow> bool" where
  "secret_username_ok u \<longleftrightarrow>
     \<not> (u = [] \<or> length u > MAX_SECRET_USERNAME_LENGTH \<or> CHR '':'' \<in> set u
        \<or> list_ex (\<lambda>c. is_ascii_control c \<or> byte c = 127) u)"

section \<open>Accepted identifiers\<close>

text \<open>A string of Rust is well-formed UTF-8; of that, what is needed here is that no character above
  ASCII is encoded as if it were ASCII (no overlong encodings).\<close>

definition no_overlong :: "string \<Rightarrow> bool" where
  "no_overlong v \<longleftrightarrow> list_all (\<lambda>chunk. byte (hd chunk) < 128 \<or> 128 \<le> scalar chunk) (utf8_chunks v)"

definition is_separator_byte :: "char \<Rightarrow> bool" where
  "is_separator_byte c \<longleftrightarrow> c = CHR ''.'' \<or> c = CHR ''-'' \<or> c = CHR ''_''"

text \<open>The words of an identifier: what lies between its separators.\<close>

definition identifier_words :: "string \<Rightarrow> string list" where
  "identifier_words v = split_on CHR ''.'' (map (\<lambda>c. if is_separator_byte c then CHR ''.'' else c) v)"

lemma byte_classes:
  "is_edge_character (byte c) \<longleftrightarrow> edge_byte c" "is_separator (byte c) \<longleftrightarrow> is_separator_byte c"
proof -
  show "is_edge_character (byte c) \<longleftrightarrow> edge_byte c"
    by (auto simp: is_edge_character_def edge_byte_def ascii)
  have "byte c = byte d \<longleftrightarrow> c = d" for d :: char by simp
  from this [of "CHR ''.''"] this [of "CHR ''-''"] this [of "CHR ''_''"]
  show "is_separator (byte c) \<longleftrightarrow> is_separator_byte c"
    by (simp add: is_separator_def is_separator_byte_def)
qed

lemma edge_not_separator: "edge_byte c \<Longrightarrow> \<not> is_separator_byte c"
  by (auto simp: edge_byte_def is_separator_byte_def ascii)

fun well_separated :: "bool \<Rightarrow> string \<Rightarrow> bool" where
  "well_separated previous [] = True"
| "well_separated previous (c # cs) =
     ((edge_byte c \<or> is_separator_byte c) \<and> \<not> (is_separator_byte c \<and> previous) \<and>
      well_separated (is_separator_byte c) cs)"

lemma identifier_loop_ascii:
  "identifier_loop kind p (index_chunks i (map (\<lambda>c. [c]) v)) = Inr () \<longleftrightarrow> well_separated p v"
  by (induction v arbitrary: p i) (auto simp: scalar_def byte_classes)

lemma identifier_loop_chars:
  "identifier_loop kind p ics = Inr () \<Longrightarrow> x \<in> set ics \<Longrightarrow> is_edge_character (snd x) \<or> is_separator (snd x)"
  by (induction kind p ics rule: identifier_loop.induct) (auto split: if_splits)

lemma index_chunks_scalars: "map snd (index_chunks i xs) = map scalar xs"
  by (induction xs arbitrary: i) auto

lemma utf8_chunks_first_ascii:
  "\<forall>chunk \<in> set (utf8_chunks v). byte (hd chunk) < 128 \<Longrightarrow> \<forall>c \<in> set v. byte c < 128"
proof (induction v rule: utf8_chunks.induct)
  case 1
  then show ?case by simp
next
  case (2 c cs)
  then have "byte c < 128" by simp
  then have "utf8_width c = 1" by (simp add: utf8_width_def)
  with 2 \<open>byte c < 128\<close> show ?case by simp
qed

lemma loop_accepts_ascii:
  assumes "identifier_loop kind p (char_indices v) = Inr ()" "no_overlong v"
  shows "\<forall>c \<in> set v. byte c < 128"
proof (rule utf8_chunks_first_ascii, rule ballI)
  fix chunk assume chunk: "chunk \<in> set (utf8_chunks v)"
  then have "scalar chunk \<in> set (map snd (char_indices v))"
    by (simp add: char_indices_def index_chunks_scalars)
  then obtain x where "x \<in> set (char_indices v)" "snd x = scalar chunk" by auto
  with identifier_loop_chars [OF assms(1)] have "scalar chunk < 128"
    by (fastforce simp: is_edge_character_def is_separator_def)
  with assms(2) chunk show "byte (hd chunk) < 128"
    by (auto simp: no_overlong_def list_all_iff)
qed

lemma validate_identifier_ascii:
  assumes "\<forall>c \<in> set v. byte c < 128"
  shows "validate_identifier v kind = Inr () \<longleftrightarrow>
    v \<noteq> [] \<and> length v \<le> MAX_IDENTIFIER_LENGTH \<and> edge_byte (hd v) \<and> well_separated False v \<and> edge_byte (last v)"
proof -
  note chunks = utf8_chunks_ascii [OF assms]
  have chars: "chars v = map byte v" by (simp add: chars_def chunks scalar_def comp_def)
  have indices: "char_indices v = index_chunks 0 (map (\<lambda>c. [c]) v)" by (simp add: char_indices_def chunks)
  show ?thesis
  proof (cases v)
    case Nil
    then show ?thesis by (simp add: validate_identifier_def)
  next
    case (Cons c cs)
    then have v: "v \<noteq> []" "hd v = c" by simp_all
    have first: "char_indices v = (0, byte c) # index_chunks 1 (map (\<lambda>c. [c]) cs)"
      unfolding indices unfolding Cons by (simp add: scalar_def)
    have loop: "identifier_loop kind False (char_indices v) = Inr () \<longleftrightarrow> well_separated False v"
      unfolding indices by (rule identifier_loop_ascii)
    have final: "is_edge_character (last (chars v)) \<longleftrightarrow> edge_byte (last v)"
      using v by (simp add: chars last_map byte_classes)
    have start: "is_edge_character (byte c) \<longleftrightarrow> edge_byte c" by (rule byte_classes)
    have "validate_identifier v kind = Inr () \<longleftrightarrow> length v \<le> MAX_IDENTIFIER_LENGTH \<and> edge_byte c \<and>
        identifier_loop kind False (char_indices v) = Inr () \<and> edge_byte (last v)"
      using v by (auto simp: validate_identifier_def first start final [unfolded chars] chars res_simps split: if_splits)
    with v loop show ?thesis by blast
  qed
qed

lemma identifier_words_Cons:
  "identifier_words (c # v) =
     (if is_separator_byte c then [] # identifier_words v
      else (case identifier_words v of [] \<Rightarrow> [[c]] | w # ws \<Rightarrow> (c # w) # ws))"
  by (auto simp: identifier_words_def is_separator_byte_def)

lemma identifier_words_nonempty [simp]: "identifier_words v \<noteq> []"
  by (simp add: identifier_words_def)

definition word_ok :: "string \<Rightarrow> bool" where
  "word_ok w \<longleftrightarrow> w \<noteq> [] \<and> list_all edge_byte w"

text \<open>After a word's first characters the rest must end it well: its first word may then be empty.\<close>

lemma well_separated_words:
  "well_separated p v \<and> (v \<noteq> [] \<longrightarrow> edge_byte (last v)) \<and> (p \<longrightarrow> v \<noteq> []) \<longleftrightarrow>
     list_all edge_byte (hd (identifier_words v)) \<and> (p \<longrightarrow> hd (identifier_words v) \<noteq> []) \<and>
     list_all word_ok (tl (identifier_words v))"
proof (induction v arbitrary: p)
  case Nil
  then show ?case by (simp add: identifier_words_def)
next
  case (Cons c v)
  obtain w ws where w: "identifier_words v = w # ws" by (cases "identifier_words v") auto
  show ?case
  proof (cases "is_separator_byte c")
    case True
    then have "\<not> edge_byte c" using edge_not_separator by blast
    with True Cons.IH [of True] w show ?thesis
      by (auto simp: identifier_words_Cons word_ok_def)
  next
    case False
    with Cons.IH [of False] w show ?thesis
      by (auto simp: identifier_words_Cons)
  qed
qed

lemma validate_identifier_words:
  assumes "\<forall>c \<in> set v. byte c < 128"
  shows "validate_identifier v kind = Inr () \<longleftrightarrow>
    length v \<le> MAX_IDENTIFIER_LENGTH \<and> list_all word_ok (identifier_words v)"
proof (cases v)
  case Nil
  then show ?thesis by (simp add: validate_identifier_def identifier_words_def word_ok_def)
next
  case (Cons c cs)
  obtain w ws where w: "identifier_words v = w # ws" by (cases "identifier_words v") auto
  have "w \<noteq> [] \<longleftrightarrow> \<not> is_separator_byte c"
    using w Cons by (auto simp: identifier_words_Cons split: if_splits list.splits)
  moreover have "edge_byte c \<or> is_separator_byte c" if "well_separated False v" using that Cons by simp
  moreover have "edge_byte c" if "list_all edge_byte w" "w \<noteq> []"
    using that w Cons by (auto simp: identifier_words_Cons split: if_splits list.splits)
  ultimately show ?thesis
    using well_separated_words [of False v] w Cons edge_not_separator [of c]
    unfolding validate_identifier_ascii [OF assms] by (auto simp: word_ok_def)
qed

text \<open>an identifier is accepted exactly when it has at most 253 bytes and is made of non-empty
  words of lower-case letters and digits, joined by single dots, dashes or underscores.\<close>

theorem identifier_accepted_iff:
  assumes "no_overlong v"
  shows "validate_identifier v kind = Inr () \<longleftrightarrow>
    length v \<le> MAX_IDENTIFIER_LENGTH \<and>
    list_all (\<lambda>w. w \<noteq> [] \<and> list_all (\<lambda>c. is_ascii_lowercase c \<or> is_ascii_digit c) w) (identifier_words v)"
proof (cases "\<forall>c \<in> set v. byte c < 128")
  case True
  from validate_identifier_words [OF this] show ?thesis
    by (simp add: word_ok_def [abs_def] edge_byte_def [abs_def])
next
  case False
  then have "validate_identifier v kind \<noteq> Inr ()"
    using loop_accepts_ascii [OF _ assms, of kind False]
    by (auto simp: validate_identifier_def res_simps split: if_splits list.splits)
  moreover obtain c where c: "c \<in> set v" "\<not> byte c < 128" using False by blast
  then have "\<not> is_separator_byte c" by (auto simp: is_separator_byte_def)
  with c(1) have "c \<in> set (map (\<lambda>c. if is_separator_byte c then CHR ''.'' else c) v)" by force
  moreover have "set (join d ps) \<subseteq> insert d (\<Union>p \<in> set ps. set p)" for d ps
    by (induction d ps rule: join.induct) auto
  from this [of "CHR ''.''" "identifier_words v"]
  have "set (map (\<lambda>c. if is_separator_byte c then CHR ''.'' else c) v) \<subseteq>
      insert (CHR ''.'') (\<Union>p \<in> set (identifier_words v). set p)"
    by (simp add: identifier_words_def)
  ultimately obtain w where "w \<in> set (identifier_words v)" "c \<in> set w"
    using c(2) \<open>\<not> is_separator_byte c\<close> by (auto simp: is_separator_byte_def)
  with c(2) have "\<not> list_all (\<lambda>w. w \<noteq> [] \<and> list_all (\<lambda>c. is_ascii_lowercase c \<or> is_ascii_digit c) w) (identifier_words v)"
    by (fastforce simp: list_all_iff ascii)
  with \<open>validate_identifier v kind \<noteq> Inr ()\<close> show ?thesis by blast
qed

theorem identifier_accepted_iff_witness:
  "no_overlong ''agent.one-2'' \<and> validate_identifier ''agent.one-2'' ''agent'' = Inr () \<and>
   identifier_words ''agent.one-2'' = [''agent'', ''one'', ''2''] \<and>
   no_overlong ''a..b'' \<and> validate_identifier ''a..b'' ''agent'' \<noteq> Inr ()"
proof -
  have a: "no_overlong ''agent.one-2''" and b: "no_overlong ''a..b''" by code_simp+
  have w: "identifier_words ''agent.one-2'' = [''agent'', ''one'', ''2'']" by code_simp
  have "validate_identifier ''agent.one-2'' ''agent'' = Inr ()"
    unfolding identifier_accepted_iff [OF a] w by (simp add: MAX_IDENTIFIER_LENGTH_def ascii)
  moreover have "identifier_words ''a..b'' = [''a'', '''', ''b'']" by code_simp
  then have "validate_identifier ''a..b'' ''agent'' \<noteq> Inr ()" unfolding identifier_accepted_iff [OF b] by simp
  ultimately show ?thesis using a b w by blast
qed

text \<open>The name of a secret is its own canonical form: what is accepted is the text in lower case,
  accepting it again changes nothing, and after its prefix come only non-empty path segments of
  lower-case letters, digits, dashes and underscores that begin and end in a letter or digit, so no
  segment can climb a path.\<close>

theorem secret_drn_canonical:
  "secret_drn_try_from v = Inr d \<longleftrightarrow>
     d = to_ascii_lowercase v \<and> length d \<le> MAX_SECRET_DRN_LENGTH \<and>
     (case strip_prefix ''drn:secret:'' d of
        None \<Rightarrow> False
      | Some path \<Rightarrow> list_all valid_drn_component (split_on CHR ''/'' path)) \<and>
     secret_drn_try_from d = Inr d"
proof -
  have dots: "\<not> valid_drn_component ''.''" "\<not> valid_drn_component ''..''"
    by (simp_all add: valid_drn_component_def edge_byte_def ascii)
  then have "list_ex (\<lambda>s. \<not> valid_drn_component s \<or> s \<in> {''.'', ''..''}) ss \<longleftrightarrow>
      \<not> list_all valid_drn_component ss" for ss
    by (auto simp: list_ex_iff list_all_iff)
  then have ok: "validate_secret_drn w = Inr () \<longleftrightarrow> length w \<le> MAX_SECRET_DRN_LENGTH \<and>
      (case strip_prefix ''drn:secret:'' w of None \<Rightarrow> False
       | Some path \<Rightarrow> list_all valid_drn_component (split_on CHR ''/'' path))" for w
    by (simp add: validate_secret_drn_def split: option.splits)
  have "secret_drn_try_from w = Inr x \<longleftrightarrow> x = to_ascii_lowercase w \<and> validate_secret_drn x = Inr ()" for w x
    by (auto simp: secret_drn_try_from_def Let_def res_simps)
  then show ?thesis using ok [of d] by auto
qed

end
