(* ===== verification/Capability.thy ===== *)
theory Capability
  imports Identifier
begin

text \<open>
  Capabilities (\<open>crates/dekopon-capability/src/lib.rs\<close> and \<open>template.rs\<close>): what an invocation
  may do once authorized. HTTP constraints with request templates, the rules for the paths a secret
  may be sent to, grants of secret use, storage constraints, and the gate that turns a proposal into
  an authorized invocation. The input of a proposal is JSON the gate never reads, a type variable
  here. Sorted maps and sets are lists in ascending order of their keys.
\<close>

section \<open>Request templates\<close>

datatype chat_slot = ConversationId | ConversationThread | ConversationApiChannel | Transport

definition ALL_SLOTS :: "chat_slot list" where
  "ALL_SLOTS = [ConversationId, ConversationThread, ConversationApiChannel, Transport]"

fun slot_str :: "chat_slot \<Rightarrow> string" where
  "slot_str ConversationId = ''conversation.id''"
| "slot_str ConversationThread = ''conversation.thread''"
| "slot_str ConversationApiChannel = ''conversation.apiChannel''"
| "slot_str Transport = ''transport''"

datatype path_segment = Literal string | Slot chat_slot

type_synonym path_template = "path_segment list"

datatype path_template_error = TemplateInvalid string | UnknownSlot string

definition MAX_TEMPLATE_PATH_BYTES :: nat where "MAX_TEMPLATE_PATH_BYTES = 4096"
definition MAX_TEMPLATE_QUERY_KEY_BYTES :: nat where "MAX_TEMPLATE_QUERY_KEY_BYTES = 256"

definition is_literal_path_byte :: "char \<Rightarrow> bool" where
  "is_literal_path_byte c \<longleftrightarrow> is_ascii_alphanumeric c \<or>
     c \<in> {CHR ''-'', CHR ''.'', CHR ''_'', CHR ''~'', CHR ''!'', CHR ''$'', CHR ''&'', CHR 0x27, CHR ''('',
          CHR '')'', CHR ''*'', CHR ''+'', CHR '','', CHR '';'', CHR ''='', CHR '':'', CHR ''@''}"

definition strip_braces :: "string \<Rightarrow> string option" where
  "strip_braces segment = Option.bind (strip_prefix ''{'' segment) (strip_suffix ''}'')"

definition template_slots :: "path_template \<Rightarrow> chat_slot list" where
  "template_slots t = concat (map (\<lambda>seg. case seg of Slot slot \<Rightarrow> [slot] | Literal _ \<Rightarrow> []) t)"

fun segment_matches :: "path_segment \<Rightarrow> string \<Rightarrow> bool" where
  "segment_matches (Literal literal) candidate \<longleftrightarrow> literal = candidate"
| "segment_matches (Slot slot) candidate \<longleftrightarrow>
     (case strip_braces candidate of None \<Rightarrow> False | Some name \<Rightarrow> name = slot_str slot)"

definition template_matches :: "path_template \<Rightarrow> string list \<Rightarrow> bool" where
  "template_matches t decoded \<longleftrightarrow>
     length t = length decoded \<and> list_all (\<lambda>(seg, candidate). segment_matches seg candidate) (zip t decoded)"

fun segment_display :: "path_segment \<Rightarrow> string" where
  "segment_display (Literal literal) = ''/'' @ literal"
| "segment_display (Slot slot) = ''/{'' @ slot_str slot @ ''}''"

definition template_display :: "path_template \<Rightarrow> string" where
  "template_display t = (if t = [] then ''/'' else concat (map segment_display t))"

definition parse_segment :: "string \<Rightarrow> string \<Rightarrow> (path_template_error, path_segment) result" where
  "parse_segment path segment =
     (case strip_braces segment of
        Some name \<Rightarrow>
          (case find (\<lambda>slot. slot_str slot = name) ALL_SLOTS of
             Some slot \<Rightarrow> Inr (Slot slot)
           | None \<Rightarrow> Inl (UnknownSlot name))
      | None \<Rightarrow>
          if segment = [] \<or> segment \<in> {''.'', ''..''} \<or> \<not> list_all is_literal_path_byte segment
          then Inl (TemplateInvalid path) else Inr (Literal segment))"

definition template_from_str :: "string \<Rightarrow> (path_template_error, path_template) result" where
  "template_from_str path =
     (if \<not> starts_with ''/'' path \<or> length path > MAX_TEMPLATE_PATH_BYTES then Inl (TemplateInvalid path)
      else if path = ''/'' then Inr []
      else collect_results (parse_segment path) (tl (split_on CHR ''/'' path)))"

record query_template =
  q_pinned :: "(string \<times> chat_slot) list"
  q_allowed :: "string list"

definition query_is_empty :: "query_template \<Rightarrow> bool" where
  "query_is_empty q \<longleftrightarrow> q_pinned q = [] \<and> q_allowed q = []"

record request_template =
  t_method :: string
  t_path :: path_template
  t_query :: query_template

definition request_slots :: "request_template \<Rightarrow> chat_slot list" where
  "request_slots t = template_slots (t_path t) @ map snd (q_pinned (t_query t))"

definition request_display :: "request_template \<Rightarrow> string" where
  "request_display t = t_method t @ '' '' @ template_display (t_path t)"

definition is_query_key :: "string \<Rightarrow> bool" where
  "is_query_key key \<longleftrightarrow>
     key \<noteq> [] \<and> length key \<le> MAX_TEMPLATE_QUERY_KEY_BYTES \<and> \<not> list_ex is_control (chars key)"

section \<open>HTTP constraints\<close>

datatype effect_kind = ReadOnly | LocalWrite | ExternalWrite

datatype signed_download = GithubActionsLogsV1

record http_constraints =
  h_hosts :: "string list"
  h_methods :: "string list"
  h_max_requests :: nat
  h_max_request_bytes :: nat
  h_max_response_bytes :: nat
  h_plaintext_loopback :: bool
  h_propagate_trace :: bool
  h_templates :: "request_template list"
  h_signed_download :: "signed_download option"

definition MAX_HTTP_SCOPE_ENTRIES :: nat where "MAX_HTTP_SCOPE_ENTRIES = 64"
definition MAX_HTTP_HOST_BYTES :: nat where "MAX_HTTP_HOST_BYTES = 512"
definition MAX_HTTP_METHOD_BYTES :: nat where "MAX_HTTP_METHOD_BYTES = 64"

datatype http_error =
    NoHosts
  | NoMethods
  | TooManyEntries nat
  | InvalidHost string
  | InvalidMethod string
  | ZeroLimit
  | TemplateMethodNotReadOnly "string list"
  | TemplateMethodNotAllowed string
  | DuplicateTemplate string
  | InvalidTemplateQueryKey string string
  | TemplateKeyPinnedAndAllowed string string

definition is_authority_scope :: "string \<Rightarrow> bool" where
  "is_authority_scope v \<longleftrightarrow>
     v \<noteq> [] \<and> length v \<le> MAX_HTTP_HOST_BYTES \<and> trim v = v
     \<and> \<not> list_ex (\<lambda>c. is_ascii_control c \<or> is_ascii_whitespace c) v
     \<and> \<not> list_ex (\<lambda>c. c \<in> {CHR ''/'', CHR ''?'', CHR ''#'', CHR ''@'', CHR ''*''}) v"

definition is_http_token :: "string \<Rightarrow> bool" where
  "is_http_token v \<longleftrightarrow> v \<noteq> [] \<and> list_all (\<lambda>c. is_ascii_alphanumeric c \<or>
     c \<in> {CHR ''!'', CHR ''#'', CHR ''$'', CHR ''%'', CHR ''&'', CHR 0x27, CHR ''*'', CHR ''+'', CHR ''-'',
          CHR ''.'', CHR ''^'', CHR ''_'', CHR 0x60, CHR ''|'', CHR ''~''}) v"

definition http_template_slots :: "http_constraints \<Rightarrow> chat_slot list" where
  "http_template_slots h =
     (let used = concat (map request_slots (h_templates h)) in filter (\<lambda>slot. slot \<in> set used) ALL_SLOTS)"

text \<open>The body of the loop over the request templates; \<open>routes\<close> are those seen before.\<close>

fun validate_template_loop ::
  "http_constraints \<Rightarrow> (string \<times> path_template) list \<Rightarrow> request_template list \<Rightarrow> (http_error, unit) result" where
  "validate_template_loop h routes [] = Inr ()"
| "validate_template_loop h routes (t # ts) =
     (let rule = request_display t;
          query = t_query t
      in if t_method t \<notin> set (h_methods h) then Inl (TemplateMethodNotAllowed rule)
         else if (t_method t, t_path t) \<in> set routes then Inl (DuplicateTemplate rule)
         else if length (q_pinned query) + length (q_allowed query) > MAX_HTTP_SCOPE_ENTRIES
         then Inl (TooManyEntries MAX_HTTP_SCOPE_ENTRIES)
         else (case find (\<lambda>key. \<not> is_query_key key) (map fst (q_pinned query) @ q_allowed query) of
                 Some key \<Rightarrow> Inl (InvalidTemplateQueryKey rule key)
               | None \<Rightarrow>
                 (case find (\<lambda>key. key \<in> set (map fst (q_pinned query))) (q_allowed query) of
                    Some key \<Rightarrow> Inl (TemplateKeyPinnedAndAllowed rule key)
                  | None \<Rightarrow> validate_template_loop h ((t_method t, t_path t) # routes) ts)))"

definition validate_request_templates :: "http_constraints \<Rightarrow> (http_error, unit) result" where
  "validate_request_templates h =
     (if length (h_templates h) > MAX_HTTP_SCOPE_ENTRIES then Inl (TooManyEntries MAX_HTTP_SCOPE_ENTRIES)
      else let unsafe_rules =
                 map request_display (filter (\<lambda>t. t_method t \<notin> {''GET'', ''HEAD''}) (h_templates h))
      in if unsafe_rules \<noteq> [] then Inl (TemplateMethodNotReadOnly unsafe_rules)
         else validate_template_loop h [] (h_templates h))"

definition validate_http :: "http_constraints \<Rightarrow> (http_error, unit) result" where
  "validate_http h =
     (if h_hosts h = [] then Inl NoHosts
      else if h_methods h = [] then Inl NoMethods
      else if length (h_hosts h) > MAX_HTTP_SCOPE_ENTRIES \<or> length (h_methods h) > MAX_HTTP_SCOPE_ENTRIES
      then Inl (TooManyEntries MAX_HTTP_SCOPE_ENTRIES)
      else case find (\<lambda>v. \<not> is_authority_scope v) (h_hosts h) of
             Some v \<Rightarrow> Inl (InvalidHost v)
           | None \<Rightarrow>
             (case find (\<lambda>v. length v > MAX_HTTP_METHOD_BYTES \<or> \<not> is_http_token v) (h_methods h) of
                Some v \<Rightarrow> Inl (InvalidMethod v)
              | None \<Rightarrow>
                  if h_max_requests h = 0 \<or> h_max_request_bytes h = 0 \<or> h_max_response_bytes h = 0
                  then Inl ZeroLimit else validate_request_templates h))"

section \<open>Paths for secrets\<close>

datatype http_path_rule = Exact (rule_path: string) | SegmentPrefix (rule_path: string)

fun contains_sub :: "string \<Rightarrow> string \<Rightarrow> bool" where
  "contains_sub p [] \<longleftrightarrow> p = []"
| "contains_sub p (c # cs) \<longleftrightarrow> starts_with p (c # cs) \<or> contains_sub p cs"

definition canonical_secret_path :: "string \<Rightarrow> bool" where
  "canonical_secret_path path \<longleftrightarrow>
     starts_with ''/'' path \<and> length path \<le> 4096
     \<and> \<not> list_ex (\<lambda>c. c \<in> {CHR ''%'', CHR 0x5C, CHR ''?'', CHR ''#''}) path
     \<and> \<not> contains_sub ''//'' path
     \<and> \<not> list_ex (\<lambda>c. is_ascii_control c \<or> is_ascii_whitespace c) path
     \<and> list_all (\<lambda>segment. segment \<notin> {''.'', ''..''}) (tl (split_on CHR ''/'' path))"

datatype grant_error =
    EmptyScope
  | InvalidScope
  | InvalidPath string
  | ZeroInjections
  | InvalidBindingId
  | InvalidMapRevision
  | InvalidUsername

definition validate_path_rule :: "http_path_rule \<Rightarrow> (grant_error, unit) result" where
  "validate_path_rule r =
     (if \<not> canonical_secret_path (rule_path r) then Inl (InvalidPath (rule_path r)) else Inr ())"

fun path_rule_matches :: "http_path_rule \<Rightarrow> string \<Rightarrow> bool" where
  "path_rule_matches (Exact path) candidate \<longleftrightarrow> candidate = path"
| "path_rule_matches (SegmentPrefix path) candidate \<longleftrightarrow>
     (if path = ''/'' then starts_with ''/'' candidate
      else candidate = path \<or>
        (case strip_prefix path candidate of None \<Rightarrow> False | Some suffix \<Rightarrow> starts_with ''/'' suffix))"

section \<open>Grants\<close>

record secret_use_grant =
  g_secret :: string
  g_sink :: secret_sink_kind
  g_username :: "string option"
  g_hosts :: "string list"
  g_methods :: "string list"
  g_paths :: "http_path_rule list"
  g_allow_query :: bool
  g_max_injections :: nat
  g_binding_id :: string
  g_map_revision :: "string option"

definition grant_username_ok :: "secret_use_grant \<Rightarrow> bool" where
  "grant_username_ok g =
     (case (g_sink g, g_username g) of
        (HttpBasic, Some u) \<Rightarrow>
          u \<noteq> [] \<and> length u \<le> MAX_SECRET_USERNAME_LENGTH \<and> CHR '':'' \<notin> set u \<and> \<not> list_ex is_ascii_control u
      | (HttpBearer, None) \<Rightarrow> True
      | (HttpBot, None) \<Rightarrow> True
      | _ \<Rightarrow> False)"

definition validate_grant :: "secret_use_grant \<Rightarrow> (grant_error, unit) result" where
  "validate_grant g =
     (if g_hosts g = [] \<or> g_methods g = [] \<or> g_paths g = [] then Inl EmptyScope
      else if g_max_injections g = 0 then Inl ZeroInjections
      else if g_binding_id g = [] \<or> length (g_binding_id g) > 128
        \<or> \<not> list_all (\<lambda>c. is_ascii_alphanumeric c \<or> c \<in> {CHR ''.'', CHR ''-'', CHR ''_''}) (g_binding_id g)
      then Inl InvalidBindingId
      else if (case g_map_revision g of
                 None \<Rightarrow> False
               | Some r \<Rightarrow> r = [] \<or> length r > 128 \<or> trim r \<noteq> r \<or> list_ex is_ascii_control r)
      then Inl InvalidMapRevision
      else if length (g_hosts g) > MAX_HTTP_SCOPE_ENTRIES \<or> length (g_methods g) > MAX_HTTP_SCOPE_ENTRIES
        \<or> length (g_paths g) > MAX_HTTP_SCOPE_ENTRIES
        \<or> list_ex (\<lambda>v. \<not> is_authority_scope v) (g_hosts g)
        \<or> list_ex (\<lambda>v. length v > MAX_HTTP_METHOD_BYTES \<or> \<not> is_http_token v) (g_methods g)
      then Inl InvalidScope
      else res_bind (for_each validate_path_rule (g_paths g)) (\<lambda>_.
        if grant_username_ok g then Inr () else Inl InvalidUsername))"

section \<open>Storage\<close>

datatype storage_interface = Jsonl | DurableFiles
datatype storage_access = AccessReadOnly | AccessReadWrite
datatype storage_scope = PrivateConversation | SharedConversation | AgentScope | SpaceScope

text \<open>The duration of an idle TTL is in nanoseconds.\<close>

datatype storage_retention = Keep | IdleTtl nat

datatype retention_mode = ModeKeep | ModeIdleTtl

record retention_wire =
  w_mode :: retention_mode
  w_idle_ttl_ms :: "nat option"

definition retention_serialize :: "storage_retention \<Rightarrow> retention_wire option" where
  "retention_serialize r =
     (case r of
        Keep \<Rightarrow> Some \<lparr>w_mode = ModeKeep, w_idle_ttl_ms = None\<rparr>
      | IdleTtl d \<Rightarrow>
          (let ms = d div 1000000
           in if ms = 0 \<or> ms > u64_max then None
              else Some \<lparr>w_mode = ModeIdleTtl, w_idle_ttl_ms = Some ms\<rparr>))"

definition retention_deserialize :: "retention_wire \<Rightarrow> storage_retention option" where
  "retention_deserialize w =
     (case (w_mode w, w_idle_ttl_ms w) of
        (ModeKeep, None) \<Rightarrow> Some Keep
      | (ModeIdleTtl, Some ms) \<Rightarrow> Some (IdleTtl (ms * 1000000))
      | _ \<Rightarrow> None)"

record storage_constraints =
  st_interface :: storage_interface
  st_access :: storage_access
  st_scope :: storage_scope
  st_retention :: storage_retention
  st_namespace :: "string option"

record asset_constraints =
  as_attach :: bool
  as_remove :: bool
  as_send :: bool

record execution_constraints =
  c_timeout_ms :: nat
  c_http :: "http_constraints option"
  c_storage :: "storage_constraints option"
  c_asset :: "asset_constraints option"
  c_secret_use :: "secret_use_grant option"

definition default_constraints :: execution_constraints where
  "default_constraints = \<lparr>c_timeout_ms = 30000, c_http = None, c_storage = None, c_asset = None, c_secret_use = None\<rparr>"

section \<open>The gate\<close>

datatype actor = Human string | AgentActor string | ServiceActor string

record 'v proposed_invocation =
  p_id :: string
  p_capability :: string
  p_actor :: actor
  p_trace :: string
  p_secret_use :: "secret_use_proposal option"
  p_input :: 'v

record authorization_receipt =
  rc_decision_id :: string
  rc_authorized_by :: string
  rc_policy_digest :: string

record 'v authorized_invocation =
  a_proposal :: "'v proposed_invocation"
  a_provider :: string
  a_receipt :: authorization_receipt
  a_constraints :: execution_constraints

datatype authorization_error =
    EmptyDecisionId
  | InvalidPolicyDigest
  | ZeroTimeout
  | InvalidHttp http_error
  | MixedHttpAndStorage
  | SecretUseMismatch
  | InvalidSecretUse grant_error

definition valid_policy_digest :: "string \<Rightarrow> bool" where
  "valid_policy_digest digest \<longleftrightarrow>
     length digest = 64 \<and> list_all (\<lambda>c. is_ascii_digit c \<or> (97 \<le> byte c \<and> byte c \<le> 102)) digest"

definition secret_matches :: "secret_use_proposal option \<Rightarrow> execution_constraints \<Rightarrow> bool" where
  "secret_matches proposed c =
     (case (proposed, c_secret_use c) of
        (None, None) \<Rightarrow> True
      | (Some p, Some g) \<Rightarrow>
          proposal_secret p = g_secret g \<and> proposal_sink p = g_sink g \<and> proposal_username p = g_username g
          \<and> c_http c \<noteq> None
      | _ \<Rightarrow> False)"

definition gate_authorize ::
  "'v proposed_invocation \<Rightarrow> string \<Rightarrow> string \<Rightarrow> string \<Rightarrow> string \<Rightarrow> execution_constraints
     \<Rightarrow> (authorization_error, 'v authorized_invocation) result" where
  "gate_authorize p provider decision_id authorized_by policy_digest c =
     (if trim decision_id = [] then Inl EmptyDecisionId
      else if \<not> valid_policy_digest policy_digest then Inl InvalidPolicyDigest
      else if c_timeout_ms c = 0 then Inl ZeroTimeout
      else if c_http c \<noteq> None \<and> c_storage c \<noteq> None then Inl MixedHttpAndStorage
      else res_bind (case c_http c of None \<Rightarrow> Inr () | Some h \<Rightarrow> map_err InvalidHttp (validate_http h)) (\<lambda>_.
           res_bind (case c_secret_use c of None \<Rightarrow> Inr () | Some g \<Rightarrow> map_err InvalidSecretUse (validate_grant g)) (\<lambda>_.
             if \<not> secret_matches (p_secret_use p) c then Inl SecretUseMismatch
             else Inr \<lparr>a_proposal = p, a_provider = provider,
                       a_receipt = \<lparr>rc_decision_id = decision_id, rc_authorized_by = authorized_by,
                         rc_policy_digest = policy_digest\<rparr>,
                       a_constraints = c\<rparr>)))"

section \<open>Template paths print as they were written\<close>

definition segment_text :: "path_segment \<Rightarrow> string" where
  "segment_text seg = (case seg of Literal literal \<Rightarrow> literal | Slot slot \<Rightarrow> ''{'' @ slot_str slot @ ''}'')"

lemma segment_display_text: "segment_display seg = CHR ''/'' # segment_text seg"
  by (cases seg) (simp_all add: segment_text_def)

lemma strip_braces_Some: "strip_braces v = Some name \<longleftrightarrow> v = ''{'' @ name @ ''}''"
  by (auto simp: strip_braces_def bind_eq_Some_conv strip_prefix_Some strip_suffix_Some)

lemma strip_braces_wrapped [simp]: "strip_braces (CHR ''{'' # name @ ''}'') = Some name"
  by (simp add: strip_braces_Some)

lemma slot_str_inj: "slot_str a = slot_str b \<longleftrightarrow> a = b"
  by (cases a; cases b) simp_all

lemma find_slot: "find (\<lambda>slot. slot_str slot = name) ALL_SLOTS = Some slot \<longleftrightarrow> slot_str slot = name"
  by (cases slot) (auto simp: ALL_SLOTS_def)

definition segment_ok :: "path_segment \<Rightarrow> bool" where
  "segment_ok seg = (case seg of
      Literal v \<Rightarrow> v \<noteq> [] \<and> v \<notin> {''.'', ''..''} \<and> list_all is_literal_path_byte v
    | Slot _ \<Rightarrow> True)"

lemma literal_no_brace: "list_all is_literal_path_byte v \<Longrightarrow> strip_braces v = None"
proof (rule ccontr)
  assume v: "list_all is_literal_path_byte v" "strip_braces v \<noteq> None"
  then obtain name where "v = ''{'' @ name @ ''}''" by (auto simp: strip_braces_Some)
  with v(1) show False by (simp add: is_literal_path_byte_def ascii)
qed

lemma parse_segment_iff: "parse_segment path v = Inr seg \<longleftrightarrow> segment_ok seg \<and> v = segment_text seg"
proof (cases "strip_braces v")
  case None
  then show ?thesis
    by (cases seg) (auto simp: parse_segment_def segment_ok_def segment_text_def split: if_splits
        dest: strip_braces_Some [THEN iffD2])
next
  case (Some name)
  then have v: "v = ''{'' @ name @ ''}''" by (simp add: strip_braces_Some)
  have lit: "\<not> list_all is_literal_path_byte v" using literal_no_brace Some by fastforce
  show ?thesis
  proof (cases seg)
    case (Literal x)
    with Some lit show ?thesis
      by (auto simp: parse_segment_def segment_ok_def segment_text_def split: option.splits)
  next
    case (Slot slot)
    have "parse_segment path v = Inr (Slot slot) \<longleftrightarrow> find (\<lambda>s. slot_str s = name) ALL_SLOTS = Some slot"
      using Some by (auto simp: parse_segment_def split: option.splits)
    with Slot v show ?thesis by (auto simp: find_slot segment_ok_def segment_text_def)
  qed
qed

lemma segment_text_no_slash: "segment_ok seg \<Longrightarrow> CHR ''/'' \<notin> set (segment_text seg)"
proof (cases seg)
  case (Literal v)
  assume "segment_ok seg"
  with Literal have "\<forall>c \<in> set v. is_literal_path_byte c" by (simp add: segment_ok_def list_all_iff)
  moreover have "\<not> is_literal_path_byte CHR ''/''" by (simp add: is_literal_path_byte_def ascii)
  ultimately show ?thesis using Literal by (auto simp: segment_text_def)
next
  case (Slot slot)
  then show ?thesis by (cases slot) (simp_all add: segment_text_def)
qed

lemma collect_parse:
  "collect_results (parse_segment path) vs = Inr t \<longleftrightarrow> list_all segment_ok t \<and> vs = map segment_text t"
  unfolding collect_results_ok
  by (induction vs arbitrary: t; case_tac t) (auto simp: parse_segment_iff)

lemma concat_display: "t \<noteq> [] \<Longrightarrow> concat (map segment_display t) = join CHR ''/'' ([] # map segment_text t)"
proof (induction t)
  case Nil
  then show ?case by simp
next
  case (Cons seg t)
  then show ?case by (cases t) (simp_all add: segment_display_text)
qed

lemma split_display:
  assumes "t \<noteq> []" "list_all segment_ok t"
  shows "split_on CHR ''/'' (template_display t) = [] # map segment_text t"
  unfolding template_display_def using assms
  by (simp add: concat_display split_on_join segment_text_no_slash list_all_iff)

lemma starts_slash_split: "starts_with ''/'' p \<longleftrightarrow> (\<exists>vs. split_on CHR ''/'' p = [] # vs \<and> vs \<noteq> [])"
  by (cases p) (auto simp: starts_with_iff split: list.splits if_splits)

lemma template_from_str_iff:
  "template_from_str p = Inr t \<longleftrightarrow>
     template_display t = p \<and> length p \<le> MAX_TEMPLATE_PATH_BYTES \<and> list_all segment_ok t"
proof
  assume a: "template_from_str p = Inr t"
  show "template_display t = p \<and> length p \<le> MAX_TEMPLATE_PATH_BYTES \<and> list_all segment_ok t"
  proof (cases "p = ''/''")
    case True
    with a show ?thesis by (auto simp: template_from_str_def template_display_def MAX_TEMPLATE_PATH_BYTES_def split: if_splits)
  next
    case False
    with a obtain vs where vs: "split_on CHR ''/'' p = [] # vs" "vs \<noteq> []" "length p \<le> MAX_TEMPLATE_PATH_BYTES"
      "collect_results (parse_segment p) vs = Inr t"
      by (auto simp: template_from_str_def starts_slash_split split: if_splits)
    then have t: "list_all segment_ok t" "vs = map segment_text t" "t \<noteq> []" by (auto simp: collect_parse)
    have "p = join CHR ''/'' ([] # vs)" using join_split_on [of "CHR ''/''" p] vs(1) by simp
    with t vs(3) show ?thesis by (simp add: template_display_def concat_display)
  qed
next
  assume a: "template_display t = p \<and> length p \<le> MAX_TEMPLATE_PATH_BYTES \<and> list_all segment_ok t"
  show "template_from_str p = Inr t"
  proof (cases "t = []")
    case True
    with a show ?thesis by (auto simp: template_from_str_def template_display_def starts_with_def)
  next
    case False
    with a split_display have sp: "split_on CHR ''/'' p = [] # map segment_text t" by blast
    then have "p \<noteq> ''/''" "starts_with ''/'' p"
      using False a by (auto simp: starts_slash_split segment_ok_def segment_text_def list_all_iff split: path_segment.splits)
    with a sp show ?thesis by (simp add: template_from_str_def collect_parse)
  qed
qed

lemma segment_matches_iff: "segment_matches seg v \<longleftrightarrow> v = segment_text seg"
  by (cases seg) (auto simp: segment_text_def strip_braces_Some split: option.splits)

lemma template_matches_iff: "template_matches t decoded \<longleftrightarrow> decoded = map segment_text t"
proof -
  have "template_matches t decoded \<longleftrightarrow> list_all2 (\<lambda>seg v. v = segment_text seg) t decoded"
    by (auto simp: template_matches_def list_all2_iff list_all_iff segment_matches_iff)
  also have "\<dots> \<longleftrightarrow> decoded = map segment_text t"
    by (induction t arbitrary: decoded; case_tac decoded) auto
  finally show ?thesis .
qed

text \<open>a request template prints as the path it was read from, parsing is the inverse of printing,
  and it matches exactly the decoded path whose segments are the segments of that text: a slot is
  matched by the slot's own name in braces and by nothing a caller could put in its place.\<close>

theorem template_round_trip_and_match:
  assumes "template_from_str p = Inr t"
  shows "template_display t = p \<and> template_from_str (template_display t) = Inr t \<and>
    (template_matches t decoded \<longleftrightarrow> decoded = (if p = ''/'' then [] else tl (split_on CHR ''/'' p)))"
proof -
  have t: "template_display t = p" "list_all segment_ok t" using assms by (simp_all add: template_from_str_iff)
  have "template_from_str ''/'' = Inr []" by code_simp
  then have "p = ''/'' \<longleftrightarrow> t = []" using assms t(1) by (auto simp: template_display_def)
  with t assms split_display [of t] show ?thesis by (auto simp: template_matches_iff)
qed

theorem template_round_trip_and_match_witness:
  "template_from_str ''/api/{conversation.id}/list'' = Inr [Literal ''api'', Slot ConversationId, Literal ''list''] \<and>
   template_matches [Literal ''api'', Slot ConversationId, Literal ''list''] [''api'', ''{conversation.id}'', ''list''] \<and>
   \<not> template_matches [Literal ''api'', Slot ConversationId, Literal ''list''] [''api'', ''C42'', ''list'']"
proof -
  let ?t = "[Literal ''api'', Slot ConversationId, Literal ''list'']" and ?p = "''/api/{conversation.id}/list''"
  have p: "template_from_str ?p = Inr ?t" by code_simp
  have tl: "(if ?p = ''/'' then [] else tl (split_on CHR ''/'' ?p)) = [''api'', ''{conversation.id}'', ''list'']"
    by code_simp
  note r = template_round_trip_and_match [OF p, unfolded tl]
  from r [of "[''api'', ''{conversation.id}'', ''list'']"] r [of "[''api'', ''C42'', ''list'']"] p
  show ?thesis by simp
qed

section \<open>Secret paths match by whole segments\<close>

lemma split_prefix_iff:
  "take (length (split_on c p)) (split_on c q) = split_on c p \<longleftrightarrow> q = p \<or> (\<exists>r. q = p @ c # r)"
proof (induction p arbitrary: q)
  case Nil
  then show ?case by (cases q) (auto split: list.splits)
next
  case (Cons x p)
  show ?case
  proof (cases q)
    case Nil
    then show ?thesis by (cases "split_on c p") auto
  next
    case (Cons y q')
    obtain w ws where w: "split_on c p = w # ws" by (cases "split_on c p") auto
    obtain v vs where v: "split_on c q' = v # vs" by (cases "split_on c q'") auto
    show ?thesis using Cons Cons.IH [of q'] w v by auto
  qed
qed

text \<open>a prefix rule for the paths of a secret matches whole segments: a path matches exactly when
  its list of segments begins with the segments of the rule (and the rule of the root matches every
  absolute path), so a rule for one directory never matches a sibling whose name merely starts the
  same way.\<close>

theorem segment_prefix_matches_segments:
  "path_rule_matches (SegmentPrefix path) candidate \<longleftrightarrow>
     (if path = ''/'' then starts_with ''/'' candidate
      else take (length (split_on CHR ''/'' path)) (split_on CHR ''/'' candidate) = split_on CHR ''/'' path)"
  unfolding split_prefix_iff
  by (auto simp: strip_prefix_Some starts_with_iff split: option.splits)

section \<open>Retention on the wire\<close>

text \<open>A retention policy that was read from the wire (whose times are positive \<open>u64\<close>
  milliseconds) is written back to the same wire form, and a policy that can be written in whole
  milliseconds is read back unchanged.\<close>

theorem retention_round_trip:
  assumes "case w_idle_ttl_ms w of None \<Rightarrow> True | Some ms \<Rightarrow> 0 < ms \<and> ms \<le> u64_max"
    and "retention_deserialize w = Some r"
  shows "retention_serialize r = Some w \<and> retention_deserialize (the (retention_serialize r)) = Some r"
proof -
  have "retention_serialize r = Some w"
    using assms by (cases w) (auto simp: retention_deserialize_def retention_serialize_def Let_def
        split: retention_mode.splits option.splits)
  with assms(2) show ?thesis by simp
qed

theorem retention_round_trip_witness:
  "retention_deserialize \<lparr>w_mode = ModeIdleTtl, w_idle_ttl_ms = Some 60000\<rparr> = Some (IdleTtl 60000000000) \<and>
   retention_serialize (IdleTtl 60000000000) = Some \<lparr>w_mode = ModeIdleTtl, w_idle_ttl_ms = Some 60000\<rparr>"
proof -
  let ?w = "\<lparr>w_mode = ModeIdleTtl, w_idle_ttl_ms = Some 60000\<rparr>"
  have d: "retention_deserialize ?w = Some (IdleTtl 60000000000)" by (simp add: retention_deserialize_def)
  with retention_round_trip [of ?w] show ?thesis by (simp add: u64_max_def)
qed

section \<open>What the gate lets through\<close>

lemma template_loop_ok:
  "validate_template_loop h routes ts = Inr u \<Longrightarrow>
     list_all (\<lambda>t. t_method t \<in> set (h_methods h) \<and>
       list_all is_query_key (map fst (q_pinned (t_query t)) @ q_allowed (t_query t)) \<and>
       set (map fst (q_pinned (t_query t))) \<inter> set (q_allowed (t_query t)) = {}) ts \<and>
     distinct (map (\<lambda>t. (t_method t, t_path t)) ts) \<and>
     set (map (\<lambda>t. (t_method t, t_path t)) ts) \<inter> set routes = {}"
proof (induction h routes ts rule: validate_template_loop.induct)
  case (1 h routes)
  then show ?case by simp
next
  case (2 h routes t ts)
  let ?q = "t_query t"
  have t: "t_method t \<in> set (h_methods h)" "(t_method t, t_path t) \<notin> set routes"
    "find (\<lambda>key. \<not> is_query_key key) (map fst (q_pinned ?q) @ q_allowed ?q) = None"
    "find (\<lambda>key. key \<in> set (map fst (q_pinned ?q))) (q_allowed ?q) = None"
    "validate_template_loop h ((t_method t, t_path t) # routes) ts = Inr u"
    "\<not> length (q_pinned ?q) + length (q_allowed ?q) > MAX_HTTP_SCOPE_ENTRIES"
    using 2(2) by (simp_all add: Let_def split: if_splits option.splits)
  from 2(1) [OF refl refl _ _ t(6,3,4,5)] t(1,2) have IH:
    "list_all (\<lambda>t. t_method t \<in> set (h_methods h) \<and>
       list_all is_query_key (map fst (q_pinned (t_query t)) @ q_allowed (t_query t)) \<and>
       set (map fst (q_pinned (t_query t))) \<inter> set (q_allowed (t_query t)) = {}) ts"
    "distinct (map (\<lambda>t. (t_method t, t_path t)) ts)"
    "set (map (\<lambda>t. (t_method t, t_path t)) ts) \<inter> set ((t_method t, t_path t) # routes) = {}"
    by blast+
  with t(1-4) show ?case by (auto simp: find_None_iff list_all_iff)
qed

lemma validate_http_ok:
  assumes "validate_http h = Inr u"
  shows "h_hosts h \<noteq> [] \<and> list_all is_authority_scope (h_hosts h) \<and> list_all is_http_token (h_methods h) \<and>
    0 < h_max_requests h \<and> 0 < h_max_request_bytes h \<and> 0 < h_max_response_bytes h \<and>
    list_all (\<lambda>t. t_method t \<in> {''GET'', ''HEAD''} \<inter> set (h_methods h)) (h_templates h) \<and>
    distinct (map (\<lambda>t. (t_method t, t_path t)) (h_templates h))"
proof -
  have h: "h_hosts h \<noteq> []" "find (\<lambda>v. \<not> is_authority_scope v) (h_hosts h) = None"
    "find (\<lambda>v. length v > MAX_HTTP_METHOD_BYTES \<or> \<not> is_http_token v) (h_methods h) = None"
    "0 < h_max_requests h" "0 < h_max_request_bytes h" "0 < h_max_response_bytes h"
    "validate_request_templates h = Inr u"
    using assms by (auto simp: validate_http_def split: if_splits option.splits)
  have t: "validate_template_loop h [] (h_templates h) = Inr u"
    "filter (\<lambda>t. t_method t \<notin> {''GET'', ''HEAD''}) (h_templates h) = []"
    using h(7) by (simp_all add: validate_request_templates_def Let_def split: if_splits)
  have "\<forall>t \<in> set (h_templates h). t_method t \<in> {''GET'', ''HEAD''}"
    using t(2) unfolding filter_empty_conv by blast
  with template_loop_ok [OF t(1)] h show ?thesis
    by (auto simp: find_None_iff list_all_iff)
qed

lemma validate_grant_ok:
  "validate_grant g = Inr u \<Longrightarrow> g_hosts g \<noteq> [] \<and> 0 < g_max_injections g \<and>
     list_all is_authority_scope (g_hosts g) \<and>
     list_all (\<lambda>r. canonical_secret_path (rule_path r)) (g_paths g) \<and> g_paths g \<noteq> [] \<and> grant_username_ok g"
  by (auto simp: validate_grant_def validate_path_rule_def res_simps list_all_iff list_ex_iff split: if_splits)

text \<open>C8: nothing gets through the gate that mixes HTTP with storage, whose HTTP scope is unbounded or
  names a template that is not a read or not among the granted methods, or that carries a secret it
  did not ask for: an authorized invocation has a positive timeout, a grant exactly when it proposed
  one, for the same secret, sink and user, within HTTP, limited in hosts, canonical paths and number.\<close>

theorem gate_lets_through:
  assumes "gate_authorize p provider decision_id by_principal digest c = Inr a"
  shows "a_constraints a = c \<and> a_proposal a = p \<and> a_provider a = provider \<and>
    0 < c_timeout_ms c \<and> (c_http c = None \<or> c_storage c = None) \<and>
    (case c_http c of None \<Rightarrow> True | Some h \<Rightarrow>
       list_all is_authority_scope (h_hosts h) \<and> 0 < h_max_requests h \<and>
       list_all (\<lambda>t. t_method t \<in> {''GET'', ''HEAD''} \<inter> set (h_methods h)) (h_templates h)) \<and>
    (case p_secret_use p of
       None \<Rightarrow> c_secret_use c = None
     | Some u \<Rightarrow> (case c_secret_use c of
         None \<Rightarrow> False
       | Some g \<Rightarrow> g_secret g = proposal_secret u \<and> g_sink g = proposal_sink u \<and>
           g_username g = proposal_username u \<and> c_http c \<noteq> None \<and> 0 < g_max_injections g \<and>
           list_all (\<lambda>r. canonical_secret_path (rule_path r)) (g_paths g)))"
proof -
  have a: "a_constraints a = c" "a_proposal a = p" "a_provider a = provider" "0 < c_timeout_ms c"
    "c_http c = None \<or> c_storage c = None" "secret_matches (p_secret_use p) c"
    using assms by (auto simp: gate_authorize_def res_simps split: if_splits)
  have http: "validate_http h = Inr ()" if "c_http c = Some h" for h
    using assms that by (auto simp: gate_authorize_def res_simps split: if_splits)
  have grant: "validate_grant g = Inr ()" if "c_secret_use c = Some g" for g
    using assms that by (auto simp: gate_authorize_def res_simps split: if_splits)
  have "case c_http c of None \<Rightarrow> True | Some h \<Rightarrow>
       list_all is_authority_scope (h_hosts h) \<and> 0 < h_max_requests h \<and>
       list_all (\<lambda>t. t_method t \<in> {''GET'', ''HEAD''} \<inter> set (h_methods h)) (h_templates h)"
    using http validate_http_ok by (fastforce split: option.splits)
  moreover have "case p_secret_use p of
       None \<Rightarrow> c_secret_use c = None
     | Some u \<Rightarrow> (case c_secret_use c of
         None \<Rightarrow> False
       | Some g \<Rightarrow> g_secret g = proposal_secret u \<and> g_sink g = proposal_sink u \<and>
           g_username g = proposal_username u \<and> c_http c \<noteq> None \<and> 0 < g_max_injections g \<and>
           list_all (\<lambda>r. canonical_secret_path (rule_path r)) (g_paths g))"
    using a(6) grant validate_grant_ok by (fastforce simp: secret_matches_def split: option.splits)
  ultimately show ?thesis using a by blast
qed

theorem gate_lets_through_witness:
  "let c = \<lparr>c_timeout_ms = 5, c_http = Some \<lparr>h_hosts = [''api.test''], h_methods = [''GET''], h_max_requests = 1,
         h_max_request_bytes = 1, h_max_response_bytes = 1, h_plaintext_loopback = False,
         h_propagate_trace = False, h_templates = [], h_signed_download = None\<rparr>,
         c_storage = None, c_asset = None, c_secret_use = None\<rparr>;
       p = \<lparr>p_id = ''i'', p_capability = ''c'', p_actor = AgentActor ''a'', p_trace = ''t'', p_secret_use = None, p_input = ()\<rparr>
   in is_ok (gate_authorize p ''prov'' ''d'' ''broker'' (replicate 64 CHR ''a'') c) \<and> 0 < c_timeout_ms c"
proof -
  let ?c = "\<lparr>c_timeout_ms = 5, c_http = Some \<lparr>h_hosts = [''api.test''], h_methods = [''GET''], h_max_requests = 1,
         h_max_request_bytes = 1, h_max_response_bytes = 1, h_plaintext_loopback = False,
         h_propagate_trace = False, h_templates = [], h_signed_download = None\<rparr>,
         c_storage = None, c_asset = None, c_secret_use = None\<rparr>"
  let ?p = "\<lparr>p_id = ''i'', p_capability = ''c'', p_actor = AgentActor ''a'', p_trace = ''t'', p_secret_use = None, p_input = ()\<rparr>"
  have digest: "valid_policy_digest (replicate 64 CHR ''a'')"
    by (simp add: valid_policy_digest_def list_all_iff)
  have t: "trim ''d'' = ''d''" "trim ''api.test'' = ''api.test''"
    by (simp_all add: trim_def utf8_width_def scalar_def is_whitespace_def)
  have "is_authority_scope ''api.test''" "is_http_token ''GET''"
    unfolding is_authority_scope_def t by (simp_all add: MAX_HTTP_HOST_BYTES_def is_http_token_def ascii)
  then have "validate_http \<lparr>h_hosts = [''api.test''], h_methods = [''GET''], h_max_requests = 1,
         h_max_request_bytes = 1, h_max_response_bytes = 1, h_plaintext_loopback = False,
         h_propagate_trace = False, h_templates = [], h_signed_download = None\<rparr> = Inr ()"
    by (simp add: validate_http_def validate_request_templates_def MAX_HTTP_SCOPE_ENTRIES_def MAX_HTTP_METHOD_BYTES_def)
  then have ok: "is_ok (gate_authorize ?p ''prov'' ''d'' ''broker'' (replicate 64 CHR ''a'') ?c)"
    unfolding gate_authorize_def t by (simp add: digest secret_matches_def)
  then obtain a where "gate_authorize ?p ''prov'' ''d'' ''broker'' (replicate 64 CHR ''a'') ?c = Inr a"
    by (auto simp: is_ok_iff)
  from gate_lets_through [OF this] ok show ?thesis unfolding Let_def by blast
qed

end
