(* ===== verification/Broker_Catalog.thy ===== *)
theory Broker_Catalog
  imports Capability
begin

text \<open>
  The broker's configuration (\<open>crates/dekopon-broker/src/lib.rs\<close>): the catalog of constraint
  sets, one per capability, the secrets bound to capabilities, and the checks the broker makes before
  it serves. A \<open>BTreeMap\<close> is the list of its entries in ascending order of keys; the provider
  registry is the list of the capabilities it loaded with their providers, and the host's own check
  of constraints is a parameter. A \<open>panic\<close> of the source is \<open>None\<close> of an option.
\<close>

section \<open>Ordered maps\<close>

fun bt_insert :: "'k::linorder \<Rightarrow> 'v \<Rightarrow> ('k \<times> 'v) list \<Rightarrow> ('k \<times> 'v) list" where
  "bt_insert k v [] = [(k, v)]"
| "bt_insert k v ((l, w) # m) =
     (if k < l then (k, v) # (l, w) # m else if k = l then (k, v) # m else (l, w) # bt_insert k v m)"

lemma bt_insert_lookup [simp]: "map_of (bt_insert k v m) x = (if x = k then Some v else map_of m x)"
  by (induction k v m rule: bt_insert.induct) auto

lemma bt_insert_keys [simp]: "set (map fst (bt_insert k v m)) = insert k (set (map fst m))"
  by (induction k v m rule: bt_insert.induct) auto

lemma bt_insert_sorted: "sorted_wrt (<) (map fst m) \<Longrightarrow> sorted_wrt (<) (map fst (bt_insert k v m))"
proof (induction k v m rule: bt_insert.induct)
  case (1 k v)
  then show ?case by simp
next
  case (2 k v l w m)
  have "\<forall>x \<in> set (map fst (bt_insert k v m)). l < x" if "l < k"
    using that 2(2) unfolding bt_insert_keys by auto
  with 2 show ?case by (auto simp: not_less)
qed

lemma sorted_keys_distinct: "sorted_wrt (<) (map fst m) \<Longrightarrow> distinct (map fst m)"
  for m :: "('k::linorder \<times> 'v) list"
  by (simp add: strict_sorted_iff)

section \<open>Constraint sets\<close>

datatype capability_route = Generic | ChatMemoryRecord | ChatMemoryRecent | ChatMemorySearch

definition CHAT_MEMORY :: "capability_route list" where
  "CHAT_MEMORY = [ChatMemoryRecord, ChatMemoryRecent, ChatMemorySearch]"

definition is_chat_memory :: "capability_route \<Rightarrow> bool" where
  "is_chat_memory r \<longleftrightarrow> r \<noteq> Generic"

definition is_chat_memory_retrieval :: "capability_route \<Rightarrow> bool" where
  "is_chat_memory_retrieval r \<longleftrightarrow> r = ChatMemoryRecent \<or> r = ChatMemorySearch"

fun chat_memory_access :: "capability_route \<Rightarrow> storage_access option" where
  "chat_memory_access Generic = None"
| "chat_memory_access ChatMemoryRecord = Some AccessReadWrite"
| "chat_memory_access ChatMemoryRecent = Some AccessReadOnly"
| "chat_memory_access ChatMemorySearch = Some AccessReadOnly"

datatype risk_level = Low | Medium | High | Critical

record default_secret_use =
  ds_drn :: string
  ds_sink :: secret_sink_kind

record constraint_set =
  cs_default :: "default_secret_use option"
  cs_route :: capability_route
  cs_provider :: string
  cs_effect :: effect_kind
  cs_risk :: risk_level
  cs_constraints :: execution_constraints

record constraint_catalog =
  sets :: "(string \<times> constraint_set) list"
  agent_secrets :: "(string \<times> (string \<times> string) list) list"

datatype route_conflict =
    DuplicateRole capability_route "string list"
  | SplitProvider "string list"
  | MissingChatStorage string capability_route storage_access

datatype namespace_conflict =
    NotAgentScope string string storage_scope
  | Mismatch string "(string \<times> storage_interface) list"

datatype 'h build_error =
    ZeroLimit string
  | BootEntropy
  | TooManyConstraintSets nat nat
  | UnconstrainedCapability string
  | DuplicateConstraintSet string
  | ConflictingRoutes "route_conflict list"
  | ConflictingStorageNamespaces "namespace_conflict list"
  | InvalidStorageRetention
  | ConflictingStorageRetention string storage_scope
  | InvalidPolicyConstraints
  | InvalidHttpConstraints http_error
  | HostConstraint 'h
  | UnknownCapability string
  | ProviderMismatch string string string
  | CapabilityMetadataMismatch string string
  | TooManySecretBindings nat nat
  | SecretBindingWithoutCapability string
  | InvalidSecretBinding string grant_error
  | DuplicateSecretBinding string
  | ConflictingSecretBinding string string
  | InvalidSecretMapRevision
  | SecretBindingUnknownCapability string string
  | SecretBindingWithoutHttp string
  | SecretBindingExceedsCapability string
  | DefaultSecretBindings string string secret_sink_kind nat
  | InvalidAttestorScope string
  | InvalidChatMemory
  | UnroutedChatMemory "capability_route list"
  | DuplicateSubjectMapping string

fun catalog_collect ::
  "(string \<times> constraint_set) list \<Rightarrow> (string \<times> constraint_set) list
     \<Rightarrow> ('h build_error, (string \<times> constraint_set) list) result" where
  "catalog_collect acc [] = Inr acc"
| "catalog_collect acc ((capability, s) # rest) =
     (if map_of acc capability \<noteq> None then Inl (DuplicateConstraintSet capability)
      else catalog_collect (bt_insert capability s acc) rest)"

definition catalog_new :: "(string \<times> constraint_set) list \<Rightarrow> ('h build_error, constraint_catalog) result" where
  "catalog_new entries =
     res_bind (catalog_collect [] entries) (\<lambda>m. Inr \<lparr>sets = m, agent_secrets = []\<rparr>)"

definition with_agent_secrets ::
  "constraint_catalog \<Rightarrow> (string \<times> (string \<times> string) list) list \<Rightarrow> constraint_catalog" where
  "with_agent_secrets c swaps = c\<lparr>agent_secrets := swaps\<rparr>"

definition catalog_get :: "constraint_catalog \<Rightarrow> string \<Rightarrow> constraint_set option" where
  "catalog_get c capability = map_of (sets c) capability"

definition effective_default ::
  "constraint_catalog \<Rightarrow> constraint_set \<Rightarrow> actor \<Rightarrow> (string \<times> secret_sink_kind) option" where
  "effective_default c s a =
     (case cs_default s of
        None \<Rightarrow> None
      | Some d \<Rightarrow>
          (let swapped = (case a of
                 AgentActor agent \<Rightarrow>
                   Option.bind (map_of (agent_secrets c) agent) (\<lambda>swaps. map_of swaps (ds_drn d))
               | _ \<Rightarrow> None)
           in Some (unwrap_or (ds_drn d) swapped, ds_sink d)))"

definition selectable_defaults :: "constraint_catalog \<Rightarrow> constraint_set \<Rightarrow> string list" where
  "selectable_defaults c s =
     (case cs_default s of
        None \<Rightarrow> []
      | Some d \<Rightarrow>
          sort_dedup (ds_drn d #
            concat (map (\<lambda>(_, swaps). case map_of swaps (ds_drn d) of None \<Rightarrow> [] | Some x \<Rightarrow> [x])
              (agent_secrets c))))"

definition retain_routed :: "constraint_catalog \<Rightarrow> string list \<Rightarrow> constraint_catalog \<times> string list" where
  "retain_routed c routed =
     (let dropped = filter (\<lambda>capability. capability \<notin> set routed) (map fst (sets c))
      in (c\<lparr>sets := filter (\<lambda>(capability, _). capability \<notin> set dropped) (sets c)\<rparr>, dropped))"

definition routed :: "constraint_catalog \<Rightarrow> capability_route \<Rightarrow> (string \<times> constraint_set) option" where
  "routed c route = find (\<lambda>(_, s). cs_route s = route) (sets c)"

definition chat_memory_provider :: "constraint_catalog \<Rightarrow> string option" where
  "chat_memory_provider c =
     map_option (\<lambda>(_, s). cs_provider s) (find (\<lambda>(_, s). is_chat_memory (cs_route s)) (sets c))"

section \<open>Checks of the catalog\<close>

definition validate_set_constraints :: "constraint_set \<Rightarrow> ('h build_error, unit) result" where
  "validate_set_constraints s =
     (let c = cs_constraints s
      in if c_timeout_ms c = 0 \<or> c_secret_use c \<noteq> None \<or> (c_http c \<noteq> None \<and> c_storage c \<noteq> None)
         then Inl InvalidPolicyConstraints
         else if (case c_storage c of
                    None \<Rightarrow> False
                  | Some st \<Rightarrow>
                      \<not> ((st_access st = AccessReadOnly \<and> cs_effect s = ReadOnly)
                         \<or> (st_access st = AccessReadWrite \<and> cs_effect s = LocalWrite))
                      \<or> cs_effect s = ExternalWrite)
         then Inl InvalidPolicyConstraints
         else if (case c_asset c of
                    None \<Rightarrow> False
                  | Some a \<Rightarrow> (as_send a \<and> cs_effect s \<noteq> ExternalWrite)
                      \<or> ((as_attach a \<or> as_remove a) \<and> cs_effect s = ReadOnly))
         then Inl InvalidPolicyConstraints
         else (case c_http c of
                 None \<Rightarrow> Inr ()
               | Some h \<Rightarrow> map_err InvalidHttpConstraints (validate_http h)))"

text \<open>The schema of a capability's input is kept as its JSON text.\<close>

record provider_capability =
  pc_id :: string
  pc_description :: string
  pc_effect :: effect_kind
  pc_risk :: risk_level
  pc_input_schema :: string

definition validate_trusted_metadata ::
  "string \<Rightarrow> constraint_set \<Rightarrow> string \<Rightarrow> provider_capability \<Rightarrow> ('h build_error, unit) result" where
  "validate_trusted_metadata capability s provider pc =
     (if cs_provider s \<noteq> provider then Inl (ProviderMismatch capability (cs_provider s) provider)
      else if cs_effect s \<noteq> pc_effect pc then Inl (CapabilityMetadataMismatch capability ''effect'')
      else if cs_risk s \<noteq> pc_risk pc then Inl (CapabilityMetadataMismatch capability ''risk'')
      else Inr ())"

fun retention_loop ::
  "(string \<times> storage_scope \<rightharpoonup> storage_retention) \<Rightarrow> constraint_set list
     \<Rightarrow> ('h build_error, string \<times> storage_scope \<rightharpoonup> storage_retention) result" where
  "retention_loop policies [] = Inr policies"
| "retention_loop policies (s # rest) =
     (case c_storage (cs_constraints s) of
        None \<Rightarrow> retention_loop policies rest
      | Some st \<Rightarrow>
          if (case st_retention st of
                IdleTtl ttl \<Rightarrow> ttl div 1000000 = 0 \<or> ttl div 1000000 > u64_max
              | Keep \<Rightarrow> False)
          then Inl InvalidStorageRetention
          else let namespace = unwrap_or (cs_provider s) (st_namespace st);
                   key = (namespace, st_scope st)
          in case policies key of
               Some previous \<Rightarrow>
                 if previous \<noteq> st_retention st
                 then Inl (ConflictingStorageRetention namespace (st_scope st))
                 else retention_loop (policies(key \<mapsto> st_retention st)) rest
             | None \<Rightarrow> retention_loop (policies(key \<mapsto> st_retention st)) rest)"

definition retention_policies ::
  "constraint_catalog \<Rightarrow> ('h build_error, string \<times> storage_scope \<rightharpoonup> storage_retention) result" where
  "retention_policies c = retention_loop (\<lambda>_. None) (map snd (sets c))"

text \<open>The agent-scope storage of a set and the namespace it lives in.\<close>

definition agent_storage :: "string \<times> constraint_set \<Rightarrow> (string \<times> string \<times> storage_constraints) list" where
  "agent_storage e =
     (case c_storage (cs_constraints (snd e)) of
        Some st \<Rightarrow>
          if st_scope st = AgentScope then [(unwrap_or (cs_provider (snd e)) (st_namespace st), fst e, st)] else []
      | None \<Rightarrow> [])"

definition validate_storage_namespaces :: "constraint_catalog \<Rightarrow> ('h build_error, unit) result" where
  "validate_storage_namespaces c =
     (let misplaced = concat (map (\<lambda>(capability, s).
            case c_storage (cs_constraints s) of
              Some st \<Rightarrow>
                (case (st_scope st = AgentScope, st_namespace st) of
                   (False, Some namespace) \<Rightarrow> [NotAgentScope capability namespace (st_scope st)]
                 | _ \<Rightarrow> [])
            | None \<Rightarrow> []) (sets c));
          members = concat (map agent_storage (sets c));
          mismatched = concat (map (\<lambda>namespace.
            let shared = map snd (filter (\<lambda>(n, _). n = namespace) members)
            in if list_all (\<lambda>(_, st). st_namespace st = None) shared then []
               else if length (remdups (map (\<lambda>(_, st). st_interface st) shared)) > 1
               then [Mismatch namespace (map (\<lambda>(capability, st). (capability, st_interface st)) shared)]
               else []) (sort_dedup (map fst members)));
          conflicts = misplaced @ mismatched
      in if conflicts = [] then Inr () else Inl (ConflictingStorageNamespaces conflicts))"

definition chat_storage_conflicts :: "string \<times> constraint_set \<Rightarrow> route_conflict list" where
  "chat_storage_conflicts e =
     (case chat_memory_access (cs_route (snd e)) of
        None \<Rightarrow> []
      | Some access \<Rightarrow>
          (let missing = [MissingChatStorage (fst e) (cs_route (snd e)) access]
           in case c_storage (cs_constraints (snd e)) of
                Some st \<Rightarrow>
                  if st_interface st = Jsonl \<and> st_scope st = PrivateConversation \<and> st_access st = access
                  then [] else missing
              | None \<Rightarrow> missing))"

definition validate_routes :: "constraint_catalog \<Rightarrow> ('h build_error, unit) result" where
  "validate_routes c =
     (let duplicates = concat (map (\<lambda>route.
            let claimants = map fst (filter (\<lambda>(_, s). cs_route s = route) (sets c))
            in if length claimants > 1 then [DuplicateRole route claimants] else []) CHAT_MEMORY);
          providers = sort_dedup (map (\<lambda>(_, s). cs_provider s) (filter (\<lambda>(_, s). is_chat_memory (cs_route s)) (sets c)));
          split = (if length providers > 1 then [SplitProvider providers] else []);
          storage = concat (map chat_storage_conflicts (sets c));
          conflicts = duplicates @ split @ storage
      in if conflicts = [] then Inr () else Inl (ConflictingRoutes conflicts))"

definition validate_set ::
  "(execution_constraints \<Rightarrow> ('h, unit) result) \<Rightarrow> (string \<times> provider_capability) list
     \<Rightarrow> string \<times> constraint_set \<Rightarrow> ('h build_error, unit) result" where
  "validate_set host registry e =
     res_bind (validate_set_constraints (snd e)) (\<lambda>_.
     res_bind (map_err HostConstraint (host (cs_constraints (snd e)))) (\<lambda>_.
     res_bind (ok_or (UnknownCapability (fst e)) (find (\<lambda>(_, pc). pc_id pc = fst e) registry)) (\<lambda>(provider, pc).
       validate_trusted_metadata (fst e) (snd e) provider pc)))"

definition validate_catalog ::
  "(execution_constraints \<Rightarrow> ('h, unit) result) \<Rightarrow> (string \<times> provider_capability) list
     \<Rightarrow> constraint_catalog \<Rightarrow> nat \<Rightarrow> ('h build_error, unit) result" where
  "validate_catalog host registry c maximum =
     (if length (sets c) > maximum then Inl (TooManyConstraintSets (length (sets c)) maximum)
      else res_bind (validate_routes c) (\<lambda>_.
           res_bind (validate_storage_namespaces c) (\<lambda>_.
           res_bind (retention_policies c) (\<lambda>_.
             for_each (validate_set host registry) (sets c)))))"

section \<open>Secrets\<close>

record secret_use_binding =
  b_id :: string
  b_secret :: string
  b_capabilities :: "string list"
  b_sink :: secret_sink_kind
  b_username :: "string option"
  b_hosts :: "string list"
  b_methods :: "string list"
  b_paths :: "http_path_rule list"
  b_allow_query :: bool
  b_max_injections :: nat

definition binding_grant :: "secret_use_binding \<Rightarrow> secret_use_grant" where
  "binding_grant b =
     \<lparr>g_secret = b_secret b, g_sink = b_sink b, g_username = b_username b, g_hosts = b_hosts b,
      g_methods = b_methods b, g_paths = b_paths b, g_allow_query = b_allow_query b,
      g_max_injections = b_max_injections b, g_binding_id = b_id b, g_map_revision = None\<rparr>"

definition binding_proposal :: "secret_use_binding \<Rightarrow> secret_use_proposal option" where
  "binding_proposal b =
     (case b_sink b of
        HttpBearer \<Rightarrow> Some (ProposeBearer (b_secret b))
      | HttpBasic \<Rightarrow> map_option (ProposeBasic (b_secret b)) (b_username b)
      | HttpBot \<Rightarrow> Some (ProposeBot (b_secret b)))"

definition binding_matches :: "secret_use_binding \<Rightarrow> string \<Rightarrow> secret_use_proposal \<Rightarrow> bool" where
  "binding_matches b capability p \<longleftrightarrow>
     capability \<in> set (b_capabilities b) \<and> b_secret b = proposal_secret p \<and> b_sink b = proposal_sink p
     \<and> b_username b = proposal_username p"

record secret_catalog =
  bindings :: "secret_use_binding list"
  authority_revision :: "string option"

definition MAX_SECRET_BINDINGS :: nat where "MAX_SECRET_BINDINGS = 1024"

type_synonym secret_tuple = "string \<times> string \<times> secret_sink_kind \<times> string option"

fun tuples_loop ::
  "secret_use_binding \<Rightarrow> secret_tuple list \<Rightarrow> string list \<Rightarrow> ('h build_error, secret_tuple list) result" where
  "tuples_loop b tuples [] = Inr tuples"
| "tuples_loop b tuples (capability # rest) =
     (let t = (b_secret b, capability, b_sink b, b_username b)
      in if t \<in> set tuples then Inl (ConflictingSecretBinding (b_secret b) capability)
         else tuples_loop b (t # tuples) rest)"

fun bindings_loop ::
  "string list \<Rightarrow> secret_tuple list \<Rightarrow> secret_use_binding list \<Rightarrow> ('h build_error, unit) result" where
  "bindings_loop ids tuples [] = Inr ()"
| "bindings_loop ids tuples (b # rest) =
     (if b_capabilities b = [] then Inl (SecretBindingWithoutCapability (b_id b))
      else res_bind (map_err (InvalidSecretBinding (b_id b)) (validate_grant (binding_grant b))) (\<lambda>_.
        if b_id b \<in> set ids then Inl (DuplicateSecretBinding (b_id b))
        else res_bind (tuples_loop b tuples (b_capabilities b)) (\<lambda>tuples.
          bindings_loop (b_id b # ids) tuples rest)))"

definition secret_catalog_new :: "secret_use_binding list \<Rightarrow> ('h build_error, secret_catalog) result" where
  "secret_catalog_new bs =
     (if length bs > MAX_SECRET_BINDINGS then Inl (TooManySecretBindings (length bs) MAX_SECRET_BINDINGS)
      else res_bind (bindings_loop [] [] bs) (\<lambda>_. Inr \<lparr>bindings = bs, authority_revision = None\<rparr>))"

definition with_authority_revision :: "secret_catalog \<Rightarrow> string \<Rightarrow> ('h build_error, secret_catalog) result" where
  "with_authority_revision sc revision =
     (if revision = [] \<or> length revision > 128 \<or> trim revision \<noteq> revision \<or> list_ex is_ascii_control revision
      then Inl InvalidSecretMapRevision else Inr (sc\<lparr>authority_revision := Some revision\<rparr>))"

definition catalog_grant :: "secret_catalog \<Rightarrow> secret_use_binding \<Rightarrow> secret_use_grant" where
  "catalog_grant sc b = (binding_grant b)\<lparr>g_map_revision := authority_revision sc\<rparr>"

definition default_matches :: "string \<Rightarrow> string \<Rightarrow> secret_sink_kind \<Rightarrow> secret_use_binding \<Rightarrow> bool" where
  "default_matches capability secret sink b \<longleftrightarrow>
     capability \<in> set (b_capabilities b) \<and> b_secret b = secret \<and> b_sink b = sink"

definition validate_binding_use ::
  "constraint_catalog \<Rightarrow> secret_use_binding \<Rightarrow> string \<Rightarrow> ('h build_error, unit) result" where
  "validate_binding_use c b capability =
     res_bind (ok_or (SecretBindingUnknownCapability (b_id b) capability) (catalog_get c capability)) (\<lambda>s.
     res_bind (ok_or (SecretBindingWithoutHttp (b_id b)) (c_http (cs_constraints s))) (\<lambda>h.
       if b_max_injections b > h_max_requests h
          \<or> list_ex (\<lambda>host. host \<notin> set (h_hosts h)) (b_hosts b)
          \<or> list_ex (\<lambda>method. method \<notin> set (h_methods h)) (b_methods b)
       then Inl (SecretBindingExceedsCapability (b_id b)) else Inr ()))"

definition validate_default ::
  "secret_catalog \<Rightarrow> constraint_catalog \<Rightarrow> string \<times> constraint_set \<Rightarrow> ('h build_error, unit) result" where
  "validate_default sc c e =
     (case cs_default (snd e) of
        None \<Rightarrow> Inr ()
      | Some d \<Rightarrow>
          for_each (\<lambda>secret.
            let count = length (filter (default_matches (fst e) secret (ds_sink d)) (bindings sc))
            in if count \<noteq> 1 then Inl (DefaultSecretBindings (fst e) secret (ds_sink d) count) else Inr ())
            (selectable_defaults c (snd e)))"

definition validate_secrets :: "secret_catalog \<Rightarrow> constraint_catalog \<Rightarrow> ('h build_error, unit) result" where
  "validate_secrets sc c =
     res_bind (for_each (\<lambda>b. for_each (validate_binding_use c b) (b_capabilities b)) (bindings sc)) (\<lambda>_.
       for_each (validate_default sc c) (sets c))"

definition default_binding :: "secret_catalog \<Rightarrow> string \<Rightarrow> string \<Rightarrow> secret_sink_kind \<Rightarrow> secret_use_binding option" where
  "default_binding sc capability secret sink = find (default_matches capability secret sink) (bindings sc)"

definition secret_binding :: "secret_catalog \<Rightarrow> string \<Rightarrow> secret_use_proposal \<Rightarrow> secret_use_binding option" where
  "secret_binding sc capability p = find (\<lambda>b. binding_matches b capability p) (bindings sc)"

section \<open>The catalog holds what it was given\<close>

lemma catalog_collect_ok:
  "catalog_collect acc es = (Inr m :: ('h build_error, _) result) \<Longrightarrow>
     distinct (map fst es) \<and> set (map fst acc) \<inter> set (map fst es) = {} \<and>
     (\<forall>k. map_of m k = (case map_of es k of Some v \<Rightarrow> Some v | None \<Rightarrow> map_of acc k)) \<and>
     (sorted_wrt (<) (map fst acc) \<longrightarrow> sorted_wrt (<) (map fst m))"
proof (induction acc es rule: catalog_collect.induct)
  case (1 acc)
  then show ?case by simp
next
  case (2 acc capability s rest)
  then have new: "map_of acc capability = None" and step: "catalog_collect (bt_insert capability s acc) rest = (Inr m :: ('h build_error, _) result)"
    by (auto split: if_splits)
  with 2 have ih: "distinct (map fst rest)" "set (map fst (bt_insert capability s acc)) \<inter> set (map fst rest) = {}"
    "\<forall>k. map_of m k = (case map_of rest k of Some v \<Rightarrow> Some v | None \<Rightarrow> map_of (bt_insert capability s acc) k)"
    "sorted_wrt (<) (map fst acc) \<longrightarrow> sorted_wrt (<) (map fst m)"
    using bt_insert_sorted [of acc capability s] by auto
  have "capability \<notin> set (map fst acc)" using new by (simp add: map_of_eq_None_iff)
  moreover have fresh: "capability \<notin> set (map fst rest)" and "set (map fst acc) \<inter> set (map fst rest) = {}"
    using ih(2) unfolding bt_insert_keys by auto
  moreover have "map_of rest capability = None" using fresh by (simp add: map_of_eq_None_iff)
  ultimately show ?case using ih by (auto split: option.splits)
qed

lemma catalog_collect_total:
  "distinct (map fst es) \<Longrightarrow> set (map fst acc) \<inter> set (map fst es) = {} \<Longrightarrow>
     \<exists>m. catalog_collect acc es = (Inr m :: ('h build_error, _) result)"
proof (induction acc es rule: catalog_collect.induct)
  case (1 acc)
  then show ?case by simp
next
  case (2 acc capability s rest)
  then have "map_of acc capability = None" by (auto simp: map_of_eq_None_iff)
  moreover have "set (map fst (bt_insert capability s acc)) \<inter> set (map fst rest) = {}"
    using 2(2,3) unfolding bt_insert_keys by auto
  ultimately show ?case using 2 by auto
qed

text \<open>A catalog is built exactly when no capability is given twice, and then holds for every
  capability the set it was given, in ascending order of capabilities.\<close>

theorem catalog_holds_entries:
  "case (catalog_new entries :: ('h build_error, constraint_catalog) result) of
     Inl e \<Rightarrow> \<not> distinct (map fst entries)
   | Inr c \<Rightarrow> distinct (map fst entries) \<and> sorted_wrt (<) (map fst (sets c)) \<and>
       catalog_get c = map_of entries \<and> agent_secrets c = []"
proof (cases "catalog_collect [] entries :: ('h build_error, _) result")
  case (Inl e)
  with catalog_collect_total [of entries "[]", where ?'h = 'h] show ?thesis by (auto simp: catalog_new_def)
next
  case (Inr m)
  from catalog_collect_ok [OF this] Inr show ?thesis
    by (auto simp: catalog_new_def catalog_get_def fun_eq_iff split: option.splits)
qed

section \<open>Routes, namespaces and retention\<close>

lemma concat_map_Nil_iff: "concat (map f xs) = [] \<longleftrightarrow> (\<forall>x \<in> set xs. f x = [])"
  by (induction xs) auto

lemma one_value: "length (sort_dedup xs) \<le> 1 \<longleftrightarrow> (\<forall>x \<in> set xs. \<forall>y \<in> set xs. x = y)"
proof
  assume "length (sort_dedup xs) \<le> 1"
  then have "card (set xs) \<le> 1" using card_length [of "sort_dedup xs"] by simp
  then show "\<forall>x \<in> set xs. \<forall>y \<in> set xs. x = y" by (simp add: card_le_Suc0_iff_eq)
next
  assume "\<forall>x \<in> set xs. \<forall>y \<in> set xs. x = y"
  then have "card (set xs) \<le> 1" by (simp add: card_le_Suc0_iff_eq)
  then show "length (sort_dedup xs) \<le> 1"
    using distinct_card [OF distinct_sort_dedup [of xs]] by simp
qed

lemma first_stands_for_all:
  "(\<forall>x \<in> set (map (\<lambda>(_, s). f s) (filter (\<lambda>(_, s). P s) xs)).
     \<forall>y \<in> set (map (\<lambda>(_, s). f s) (filter (\<lambda>(_, s). P s) xs)). x = y) \<longleftrightarrow>
   list_all (\<lambda>(_, s). map_option (\<lambda>(_, s). f s) (find (\<lambda>(_, s). P s) xs) = Some (f s))
     (filter (\<lambda>(_, s). P s) xs)"
proof (cases "find (\<lambda>(_, s). P s) xs")
  case None
  then have "filter (\<lambda>(_, s). P s) xs = []" by (auto simp: find_None_iff filter_empty_conv)
  then show ?thesis by simp
next
  case (Some e)
  then have e: "e \<in> set (filter (\<lambda>(_, s). P s) xs)" by (auto simp: find_Some_iff in_set_conv_nth)
  define A where "A = set (filter (\<lambda>(_, s). P s) xs)"
  have "(\<forall>x \<in> A. \<forall>y \<in> A. f (snd x) = f (snd y)) \<longleftrightarrow> (\<forall>y \<in> A. f (snd e) = f (snd y))"
    using e unfolding A_def by metis
  then show ?thesis unfolding list_all_iff set_map Some A_def [symmetric] by (simp add: case_prod_beta)
qed

text \<open>The routes validate exactly when each chat memory role is claimed by at most one
  capability, one provider serves them all, and each of them stores JSON lines of the private
  conversation with the access its role needs.\<close>

theorem chat_memory_routes_iff:
  "validate_routes c = (Inr () :: ('h build_error, unit) result) \<longleftrightarrow>
     list_all (\<lambda>route. length (filter (\<lambda>(_, s). cs_route s = route) (sets c)) \<le> 1) CHAT_MEMORY \<and>
     list_all (\<lambda>(_, s). chat_memory_provider c = Some (cs_provider s))
       (filter (\<lambda>(_, s). is_chat_memory (cs_route s)) (sets c)) \<and>
     list_all (\<lambda>(_, s). case chat_memory_access (cs_route s) of None \<Rightarrow> True | Some access \<Rightarrow>
       map_option (\<lambda>st. (st_interface st, st_scope st, st_access st)) (c_storage (cs_constraints s)) =
         Some (Jsonl, PrivateConversation, access)) (sets c)"
proof -
  let ?m = "filter (\<lambda>(_, s). is_chat_memory (cs_route s)) (sets c)"
  have providers: "length (sort_dedup (map (\<lambda>(_, s). cs_provider s) ?m)) \<le> 1 \<longleftrightarrow>
      list_all (\<lambda>(_, s). chat_memory_provider c = Some (cs_provider s)) ?m"
    unfolding one_value chat_memory_provider_def by (rule first_stands_for_all)
  have "chat_storage_conflicts e = [] \<longleftrightarrow>
      (case chat_memory_access (cs_route (snd e)) of None \<Rightarrow> True | Some access \<Rightarrow>
       map_option (\<lambda>st. (st_interface st, st_scope st, st_access st)) (c_storage (cs_constraints (snd e))) =
         Some (Jsonl, PrivateConversation, access))" for e
    by (auto simp: chat_storage_conflicts_def Let_def split: option.splits if_splits)
  then have "concat (map chat_storage_conflicts (sets c)) = [] \<longleftrightarrow>
      list_all (\<lambda>(_, s). case chat_memory_access (cs_route s) of None \<Rightarrow> True | Some access \<Rightarrow>
       map_option (\<lambda>st. (st_interface st, st_scope st, st_access st)) (c_storage (cs_constraints s)) =
         Some (Jsonl, PrivateConversation, access)) (sets c)"
    unfolding concat_map_Nil_iff by (simp add: list_all_iff case_prod_beta)
  moreover have "concat (map (\<lambda>route.
        let claimants = map fst (filter (\<lambda>(_, s). cs_route s = route) (sets c))
        in if length claimants > 1 then [DuplicateRole route claimants] else []) CHAT_MEMORY) = [] \<longleftrightarrow>
      list_all (\<lambda>route. length (filter (\<lambda>(_, s). cs_route s = route) (sets c)) \<le> 1) CHAT_MEMORY"
    unfolding concat_map_Nil_iff by (auto simp: list_all_iff Let_def not_less)
  ultimately show ?thesis
    using providers unfolding validate_routes_def Let_def by (simp add: not_less)
qed

definition stores_with :: "string \<times> storage_scope \<Rightarrow> storage_retention \<Rightarrow> constraint_set \<Rightarrow> bool" where
  "stores_with key r s =
     (case c_storage (cs_constraints s) of
        None \<Rightarrow> False
      | Some st \<Rightarrow> key = (unwrap_or (cs_provider s) (st_namespace st), st_scope st) \<and> r = st_retention st)"

lemma retention_loop_step:
  assumes "retention_loop policies (s # rest) = (Inr result :: ('h build_error, _) result)"
    and "c_storage (cs_constraints s) = Some st"
    and "key = (unwrap_or (cs_provider s) (st_namespace st), st_scope st)"
  shows "policies key \<in> {None, Some (st_retention st)} \<and>
    retention_loop (policies(key \<mapsto> st_retention st)) rest = (Inr result :: ('h build_error, _) result)"
  using assms by (auto simp: Let_def split: option.splits if_splits)

lemma retention_loop_ok:
  "retention_loop policies ss = (Inr result :: ('h build_error, _) result) \<Longrightarrow>
     result key = Some r \<longleftrightarrow> policies key = Some r \<or> list_ex (stores_with key r) ss"
proof (induction ss arbitrary: policies)
  case Nil
  then show ?case by simp
next
  case (Cons s rest)
  show ?case
  proof (cases "c_storage (cs_constraints s)")
    case None
    with Cons show ?thesis by (simp add: stores_with_def)
  next
    case (Some st)
    define k where "k = (unwrap_or (cs_provider s) (st_namespace st), st_scope st)"
    from retention_loop_step [OF Cons.prems Some k_def]
    have agree: "policies k \<in> {None, Some (st_retention st)}"
      and step: "retention_loop (policies(k \<mapsto> st_retention st)) rest = (Inr result :: ('h build_error, _) result)"
      by simp_all
    have "stores_with key r s \<longleftrightarrow> key = k \<and> r = st_retention st"
      by (auto simp: stores_with_def Some k_def)
    with Cons.IH [OF step] agree show ?thesis by auto
  qed
qed

text \<open>The retention policies of a catalog give a namespace and scope exactly the retention of
  every set that stores there, so no two sets that share storage disagree on when it expires.\<close>

theorem retention_policies_agree:
  assumes "retention_policies c = (Inr policies :: ('h build_error, _) result)"
  shows "policies key = Some retention \<longleftrightarrow> list_ex (stores_with key retention) (map snd (sets c))"
  using retention_loop_ok [OF assms [unfolded retention_policies_def], of key retention] by simp

definition jsonl_set :: "string \<Rightarrow> nat \<Rightarrow> constraint_set" where
  "jsonl_set provider ttl =
     \<lparr>cs_default = None, cs_route = Generic, cs_provider = provider, cs_effect = ReadOnly, cs_risk = Low,
      cs_constraints = default_constraints\<lparr>c_storage := Some
        \<lparr>st_interface = Jsonl, st_access = AccessReadOnly, st_scope = AgentScope,
         st_retention = IdleTtl ttl, st_namespace = None\<rparr>\<rparr>\<rparr>"

theorem retention_policies_agree_witness:
  "\<exists>policies. retention_policies \<lparr>sets = [(''a'', jsonl_set ''p'' 5000000)], agent_secrets = []\<rparr>
       = (Inr policies :: (unit build_error, _) result)
     \<and> policies (''p'', AgentScope) = Some (IdleTtl 5000000)"
proof -
  let ?c = "\<lparr>sets = [(''a'', jsonl_set ''p'' 5000000)], agent_secrets = []\<rparr>"
  have "(5000000::nat) div 1000000 = 5" by simp
  then have "is_ok (retention_policies ?c :: (unit build_error, _) result)"
    by (simp add: retention_policies_def jsonl_set_def default_constraints_def u64_max_def Let_def)
  then obtain policies where p: "retention_policies ?c = (Inr policies :: (unit build_error, _) result)"
    by (auto simp: is_ok_iff)
  from retention_policies_agree [OF this, of "(''p'', AgentScope)" "IdleTtl 5000000"] p show ?thesis
    by (auto simp: stores_with_def jsonl_set_def default_constraints_def)
qed

lemma one_kind: "length (remdups xs) \<le> 1 \<longleftrightarrow> (\<forall>x \<in> set xs. \<forall>y \<in> set xs. x = y)"
  by (simp add: length_remdups_card_conv card_le_Suc0_iff_eq)

lemma namespace_conflict_free:
  "(if list_all (\<lambda>(_, st). st_namespace st = None) shared then []
    else if length (remdups (map (\<lambda>(_, st). st_interface st) shared)) > 1 then [x] else []) = [] \<longleftrightarrow>
   list_all (\<lambda>(_, st). st_namespace st = None \<or>
     list_all (\<lambda>(_, st'). st_interface st' = st_interface st) shared) shared"
proof (cases "list_all (\<lambda>(_, st). st_namespace st = None) shared")
  case False
  then obtain e where e: "e \<in> set shared" "st_namespace (snd e) \<noteq> None" by (auto simp: list_all_iff)
  have "length (remdups (map (\<lambda>(_, st). st_interface st) shared)) \<le> 1 \<longleftrightarrow>
      (\<forall>a \<in> set shared. \<forall>b \<in> set shared. st_interface (snd a) = st_interface (snd b))"
    unfolding one_kind by (simp add: case_prod_beta)
  also have "\<dots> \<longleftrightarrow> list_all (\<lambda>(_, st). st_namespace st = None \<or>
     list_all (\<lambda>(_, st'). st_interface st' = st_interface st) shared) shared"
    using e unfolding list_all_iff case_prod_beta by metis
  finally show ?thesis using False by (auto simp: not_less)
qed (auto simp: list_all_iff)

text \<open>The storage namespaces validate exactly when only agent-scope storage names a namespace and,
  wherever one set names the namespace it stores in, all agent-scope storage there has the same
  interface.\<close>

theorem storage_namespaces_iff:
  "validate_storage_namespaces c = (Inr () :: ('h build_error, unit) result) \<longleftrightarrow>
     list_all (\<lambda>(_, s). case c_storage (cs_constraints s) of None \<Rightarrow> True
       | Some st \<Rightarrow> st_scope st = AgentScope \<or> st_namespace st = None) (sets c) \<and>
     (let members = concat (map agent_storage (sets c))
      in list_all (\<lambda>(namespace, _, st). st_namespace st = None \<or>
           list_all (\<lambda>(_, _, st'). st_interface st' = st_interface st)
             (filter (\<lambda>(other, _). other = namespace) members)) members)"
proof -
  define members where "members = concat (map agent_storage (sets c))"
  let ?shared = "\<lambda>namespace. map snd (filter (\<lambda>(n, _). n = namespace) members)"
  have "concat (map (\<lambda>namespace. let shared = ?shared namespace
            in if list_all (\<lambda>(_, st). st_namespace st = None) shared then []
               else if length (remdups (map (\<lambda>(_, st). st_interface st) shared)) > 1
               then [Mismatch namespace (map (\<lambda>(capability, st). (capability, st_interface st)) shared)]
               else []) (sort_dedup (map fst members))) = [] \<longleftrightarrow>
      (\<forall>n \<in> fst ` set members. list_all (\<lambda>(_, st). st_namespace st = None \<or>
         list_all (\<lambda>(_, st'). st_interface st' = st_interface st) (?shared n)) (?shared n))"
    unfolding concat_map_Nil_iff Let_def namespace_conflict_free by simp
  also have "\<dots> \<longleftrightarrow> list_all (\<lambda>(namespace, _, st). st_namespace st = None \<or>
       list_all (\<lambda>(_, _, st'). st_interface st' = st_interface st)
         (filter (\<lambda>(other, _). other = namespace) members)) members"
    unfolding list_all_iff set_map set_filter case_prod_beta ball_simps by metis
  moreover have "concat (map (\<lambda>(capability, s).
            case c_storage (cs_constraints s) of
              Some st \<Rightarrow>
                (case (st_scope st = AgentScope, st_namespace st) of
                   (False, Some namespace) \<Rightarrow> [NotAgentScope capability namespace (st_scope st)]
                 | _ \<Rightarrow> [])
            | None \<Rightarrow> []) (sets c)) = [] \<longleftrightarrow>
      list_all (\<lambda>(_, s). case c_storage (cs_constraints s) of None \<Rightarrow> True
       | Some st \<Rightarrow> st_scope st = AgentScope \<or> st_namespace st = None) (sets c)"
    unfolding concat_map_Nil_iff list_all_iff by (fastforce split: option.splits bool.splits)
  ultimately show ?thesis
    unfolding validate_storage_namespaces_def members_def Let_def by simp
qed

section \<open>Secrets are bound once and within their capability\<close>

definition binding_tuples :: "secret_use_binding \<Rightarrow> secret_tuple list" where
  "binding_tuples b = map (\<lambda>capability. (b_secret b, capability, b_sink b, b_username b)) (b_capabilities b)"

lemma tuples_loop_ok:
  "tuples_loop b tuples cs = (Inr result :: ('h build_error, _) result) \<Longrightarrow>
     set result = set tuples \<union> (\<lambda>capability. (b_secret b, capability, b_sink b, b_username b)) ` set cs \<and>
     set tuples \<inter> (\<lambda>capability. (b_secret b, capability, b_sink b, b_username b)) ` set cs = {}"
proof (induction cs arbitrary: tuples)
  case Nil
  then show ?case by simp
next
  case (Cons c cs)
  from Cons.prems have new: "(b_secret b, c, b_sink b, b_username b) \<notin> set tuples"
    and step: "tuples_loop b ((b_secret b, c, b_sink b, b_username b) # tuples) cs = (Inr result :: ('h build_error, _) result)"
    by (simp_all add: Let_def split: if_splits)
  from Cons.IH [OF step] new show ?case by auto
qed

lemma bindings_loop_ok:
  "bindings_loop ids tuples bs = (Inr () :: ('h build_error, unit) result) \<Longrightarrow>
     (\<forall>b \<in> set bs. b_capabilities b \<noteq> [] \<and> validate_grant (binding_grant b) = Inr () \<and>
        set (binding_tuples b) \<inter> set tuples = {}) \<and>
     pairwise (\<lambda>a b. set (binding_tuples a) \<inter> set (binding_tuples b) = {}) (set bs)"
proof (induction bs arbitrary: ids tuples)
  case Nil
  then show ?case by simp
next
  case (Cons b bs)
  then obtain result where b: "b_capabilities b \<noteq> []" "validate_grant (binding_grant b) = Inr ()"
    and tuples: "tuples_loop b tuples (b_capabilities b) = (Inr result :: ('h build_error, _) result)"
    and rest: "bindings_loop (b_id b # ids) result bs = (Inr () :: ('h build_error, unit) result)"
    by (auto simp: res_simps split: if_splits)
  have seen: "set result = set tuples \<union> set (binding_tuples b)" "set tuples \<inter> set (binding_tuples b) = {}"
    using tuples_loop_ok [OF tuples] by (simp_all add: binding_tuples_def)
  from Cons.IH [OF rest] b seen show ?case
    by (auto simp: pairwise_insert)
qed

lemma matching_tuple:
  "binding_matches b capability p \<Longrightarrow>
     (proposal_secret p, capability, proposal_sink p, proposal_username p) \<in> set (binding_tuples b)"
  by (auto simp: binding_matches_def binding_tuples_def)

lemma secret_catalog_new_ok:
  assumes "secret_catalog_new bs = (Inr sc :: ('h build_error, _) result)"
  shows "bindings sc = bs" "authority_revision sc = None"
    "b \<in> set bs \<Longrightarrow> validate_grant (binding_grant b) = Inr ()"
    "a \<in> set bs \<Longrightarrow> b \<in> set bs \<Longrightarrow> binding_matches a capability p \<Longrightarrow> binding_matches b capability p \<Longrightarrow> a = b"
proof -
  from assms have ok: "bindings_loop [] [] bs = (Inr () :: ('h build_error, unit) result)"
    and sc: "sc = \<lparr>bindings = bs, authority_revision = None\<rparr>"
    by (auto simp: secret_catalog_new_def res_simps split: if_splits)
  show "bindings sc = bs" "authority_revision sc = None" by (simp_all add: sc)
  show "validate_grant (binding_grant b) = Inr ()" if "b \<in> set bs"
    using bindings_loop_ok [OF ok] that by blast
  show "a = b" if "a \<in> set bs" "b \<in> set bs" "binding_matches a capability p" "binding_matches b capability p"
  proof (rule ccontr)
    assume "a \<noteq> b"
    with bindings_loop_ok [OF ok] that(1,2) have "set (binding_tuples a) \<inter> set (binding_tuples b) = {}"
      by (auto simp: pairwise_def)
    with matching_tuple [OF that(3)] matching_tuple [OF that(4)] show False by blast
  qed
qed

lemma secret_binding_Some:
  "secret_binding sc capability p = Some b \<Longrightarrow> b \<in> set (bindings sc) \<and> binding_matches b capability p"
  by (auto simp: secret_binding_def find_Some_iff)

lemma validate_grant_revision:
  "validate_grant (binding_grant b) = Inr () \<Longrightarrow>
     (case revision of None \<Rightarrow> True
      | Some r \<Rightarrow> r \<noteq> [] \<and> length r \<le> 128 \<and> trim r = r \<and> \<not> list_ex is_ascii_control r) \<Longrightarrow>
     validate_grant ((binding_grant b)\<lparr>g_map_revision := revision\<rparr>) = Inr ()"
  unfolding validate_grant_def grant_username_ok_def by (cases revision) (simp_all add: binding_grant_def split: if_splits)

lemma with_authority_revision_ok:
  "with_authority_revision sc r = (Inr sc' :: ('h build_error, _) result) \<Longrightarrow>
     bindings sc' = bindings sc \<and> authority_revision sc' = Some r \<and>
     r \<noteq> [] \<and> length r \<le> 128 \<and> trim r = r \<and> \<not> list_ex is_ascii_control r"
  by (auto simp: with_authority_revision_def split: if_splits)

text \<open>A secret catalog the broker may serve with: built from bindings, under a revision of the
  authority map or none, and checked against the constraint catalog.\<close>

definition secrets_served :: "secret_catalog \<Rightarrow> constraint_catalog \<Rightarrow> bool" where
  "secrets_served sc c \<longleftrightarrow>
     secret_catalog_new (bindings sc) = (Inr (sc\<lparr>authority_revision := None\<rparr>) :: (unit build_error, _) result) \<and>
     (case authority_revision sc of None \<Rightarrow> True
      | Some r \<Rightarrow> with_authority_revision (sc\<lparr>authority_revision := None\<rparr>) r = (Inr sc :: (unit build_error, _) result)) \<and>
     validate_secrets sc c = (Inr () :: (unit build_error, _) result)"

lemma served_grant_valid:
  assumes "secrets_served sc c" "b \<in> set (bindings sc)"
  shows "validate_grant (catalog_grant sc b) = Inr ()"
proof -
  from assms have "validate_grant (binding_grant b) = Inr ()"
    using secret_catalog_new_ok(3) by (fastforce simp: secrets_served_def)
  moreover have "case authority_revision sc of None \<Rightarrow> True
      | Some r \<Rightarrow> r \<noteq> [] \<and> length r \<le> 128 \<and> trim r = r \<and> \<not> list_ex is_ascii_control r"
  proof (cases "authority_revision sc")
    case (Some r)
    with assms have "with_authority_revision (sc\<lparr>authority_revision := None\<rparr>) r = (Inr sc :: (unit build_error, _) result)"
      by (simp add: secrets_served_def)
    from with_authority_revision_ok [OF this] Some show ?thesis by simp
  qed simp
  ultimately show ?thesis unfolding catalog_grant_def by (rule validate_grant_revision)
qed

lemma served_binding_within:
  assumes "secrets_served sc c" "b \<in> set (bindings sc)" "capability \<in> set (b_capabilities b)"
  shows "\<exists>s h. catalog_get c capability = Some s \<and> c_http (cs_constraints s) = Some h \<and>
    set (b_hosts b) \<subseteq> set (h_hosts h) \<and> set (b_methods b) \<subseteq> set (h_methods h) \<and>
    b_max_injections b \<le> h_max_requests h"
proof -
  have "validate_binding_use c b capability = (Inr () :: (unit build_error, _) result)"
    using assms by (auto simp: secrets_served_def validate_secrets_def res_simps)
  then show ?thesis
    by (fastforce simp: validate_binding_use_def res_simps list_ex_iff split: if_splits)
qed

lemma served_default_unique:
  assumes "secrets_served sc c" "(capability, s) \<in> set (sets c)" "effective_default c s a = Some (secret, sink)"
  shows "length (filter (default_matches capability secret sink) (bindings sc)) = 1"
proof -
  from assms(3) obtain d where d: "cs_default s = Some d" "sink = ds_sink d"
    by (auto simp: effective_default_def Let_def split: option.splits)
  have "secret \<in> set (selectable_defaults c s)"
  proof (cases "secret = ds_drn d")
    case False
    with assms(3) d obtain agent swaps where
      swaps: "map_of (agent_secrets c) agent = Some swaps" "map_of swaps (ds_drn d) = Some secret"
      by (auto simp: effective_default_def Let_def unwrap_or_def bind_eq_Some_conv split: actor.splits option.splits)
    from map_of_SomeD [OF swaps(1)] swaps(2) d show ?thesis
      by (force simp: selectable_defaults_def)
  qed (simp add: selectable_defaults_def d)
  moreover have "validate_default sc c (capability, s) = (Inr () :: (unit build_error, _) result)"
    using assms(1,2) by (auto simp: secrets_served_def validate_secrets_def res_simps)
  ultimately show ?thesis
    using d by (auto simp: validate_default_def res_simps Let_def split: if_splits)
qed

lemma find_unique: "length (filter P xs) = 1 \<Longrightarrow> \<exists>x \<in> set xs. P x \<and> (\<forall>y \<in> set xs. P y \<longrightarrow> y = x)"
proof -
  assume "length (filter P xs) = 1"
  then obtain x where x: "filter P xs = [x]" by (auto simp: length_Suc_conv)
  then have "y \<in> set (filter P xs) \<longleftrightarrow> y = x" for y by simp
  then show ?thesis by auto
qed

lemma find_the_one:
  assumes "x \<in> set xs" "P x" "\<And>y. y \<in> set xs \<Longrightarrow> P y \<Longrightarrow> y = x"
  shows "find P xs = Some x"
proof (cases "find P xs")
  case None
  with assms(1,2) show ?thesis by (simp add: find_None_iff)
next
  case (Some z)
  then have "z \<in> set xs" "P z" by (auto simp: find_Some_iff)
  from assms(3) [OF this] Some show ?thesis by simp
qed

text \<open>A catalog with one capability, its default secret and the secret one agent uses instead.\<close>

definition sample_http :: http_constraints where
  "sample_http = \<lparr>h_hosts = [''api.test''], h_methods = [''GET''], h_max_requests = 2,
     h_max_request_bytes = 1, h_max_response_bytes = 1, h_plaintext_loopback = False,
     h_propagate_trace = False, h_templates = [], h_signed_download = None\<rparr>"

definition sample_set :: constraint_set where
  "sample_set = \<lparr>cs_default = Some \<lparr>ds_drn = ''drn:a'', ds_sink = HttpBearer\<rparr>, cs_route = Generic,
     cs_provider = ''p'', cs_effect = ReadOnly, cs_risk = Low,
     cs_constraints = default_constraints\<lparr>c_http := Some sample_http\<rparr>\<rparr>"

definition sample_binding :: "string \<Rightarrow> string \<Rightarrow> secret_use_binding" where
  "sample_binding name secret = \<lparr>b_id = name, b_secret = secret, b_capabilities = [''issues''], b_sink = HttpBearer,
     b_username = None, b_hosts = [''api.test''], b_methods = [''GET''], b_paths = [Exact ''/a''],
     b_allow_query = False, b_max_injections = 2\<rparr>"

definition sample_catalog :: constraint_catalog where
  "sample_catalog = \<lparr>sets = [(''issues'', sample_set)], agent_secrets = [(''bob'', [(''drn:a'', ''drn:b'')])]\<rparr>"

definition sample_secrets :: secret_catalog where
  "sample_secrets = \<lparr>bindings = [sample_binding ''one'' ''drn:a'', sample_binding ''two'' ''drn:b''],
     authority_revision = None\<rparr>"

lemma sample_grant_valid: "name \<in> {''one'', ''two''} \<Longrightarrow> validate_grant (binding_grant (sample_binding name secret)) = Inr ()"
proof -
  assume name: "name \<in> {''one'', ''two''}"
  have t: "trim ''api.test'' = ''api.test''"
    by (simp add: trim_def utf8_width_def scalar_def is_whitespace_def)
  have "is_authority_scope ''api.test''" "is_http_token ''GET''"
    unfolding is_authority_scope_def t by (simp_all add: MAX_HTTP_HOST_BYTES_def is_http_token_def ascii)
  moreover have "validate_path_rule (Exact ''/a'') = Inr ()"
    by (simp add: validate_path_rule_def canonical_secret_path_def starts_with_def ascii)
  ultimately show ?thesis
    using name unfolding validate_grant_def grant_username_ok_def binding_grant_def sample_binding_def
    by (auto simp: MAX_HTTP_SCOPE_ENTRIES_def MAX_HTTP_METHOD_BYTES_def ascii)
qed

lemma sample_served: "secrets_served sample_secrets sample_catalog"
proof -
  have "validate_secrets sample_secrets sample_catalog = (Inr () :: (unit build_error, _) result)"
    by (auto simp: validate_secrets_def validate_binding_use_def validate_default_def selectable_defaults_def
        default_matches_def sample_secrets_def sample_catalog_def sample_binding_def sample_set_def sample_http_def
        default_constraints_def catalog_get_def res_simps)
  moreover have "secret_catalog_new (bindings sample_secrets) =
      (Inr (sample_secrets\<lparr>authority_revision := None\<rparr>) :: (unit build_error, _) result)"
  proof -
    have f: "b_id (sample_binding n x) = n" "b_capabilities (sample_binding n x) = [''issues'']"
      "b_secret (sample_binding n x) = x" "b_sink (sample_binding n x) = HttpBearer" "b_username (sample_binding n x) = None"
      for n x by (simp_all add: sample_binding_def)
    show ?thesis
      by (simp add: secret_catalog_new_def sample_secrets_def MAX_SECRET_BINDINGS_def sample_grant_valid f Let_def)
  qed
  ultimately show ?thesis by (simp add: secrets_served_def sample_secrets_def)
qed

lemma served_default_binding:
  assumes "secrets_served sc c"
    and "(capability, s) \<in> set (sets c)"
    and "effective_default c s asker = Some (secret, sink)"
  shows "\<exists>b p. default_binding sc capability secret sink = Some b \<and> binding_proposal b = Some p \<and>
    proposal_secret p = secret \<and> proposal_sink p = sink \<and> secret_binding sc capability p = Some b"
proof -
  from find_unique [OF served_default_unique [OF assms]] obtain b where
    b: "b \<in> set (bindings sc)" "default_matches capability secret sink b"
    and one: "\<And>y. y \<in> set (bindings sc) \<Longrightarrow> default_matches capability secret sink y \<Longrightarrow> y = b" by blast
  from served_grant_valid [OF assms(1) b(1)] have "grant_username_ok (catalog_grant sc b)"
    using validate_grant_ok by blast
  then obtain p where p: "binding_proposal b = Some p" "proposal_secret p = b_secret b" "proposal_sink p = b_sink b"
      "proposal_username p = b_username b"
    by (auto simp: binding_proposal_def grant_username_ok_def catalog_grant_def binding_grant_def
        split: secret_sink_kind.splits option.splits)
  have m: "binding_matches b capability p" "secret = b_secret b" "sink = b_sink b"
    using b(2) p by (simp_all add: binding_matches_def default_matches_def)
  have md: "default_matches capability secret sink y" if "binding_matches y capability p" for y
    using that p m by (simp add: binding_matches_def default_matches_def)
  have "secret_binding sc capability p = Some b"
    unfolding secret_binding_def
    by (rule find_the_one [where P = "\<lambda>y. binding_matches y capability p", OF b(1) m(1)]) (rule one [OF _ md])
  moreover have "default_binding sc capability secret sink = Some b"
    unfolding default_binding_def by (rule find_the_one [where P = "default_matches capability secret sink", OF b]) (rule one)
  ultimately show ?thesis using p m by auto
qed

text \<open>C9: in a catalog the broker serves with, the default secret of a capability, swapped for the agent
  that asks, has exactly one binding; its proposal exists, names that secret and sink, and selects
  that binding again, so applying a default never panics and is never refused for want of a binding.\<close>

theorem default_secret_resolves:
  assumes "secrets_served sc c"
    and "(capability, s) \<in> set (sets c)"
    and "effective_default c s asker = Some (secret, sink)"
  shows "\<exists>b p. filter (default_matches capability secret sink) (bindings sc) = [b] \<and>
    default_binding sc capability secret sink = Some b \<and> binding_proposal b = Some p \<and>
    proposal_secret p = secret \<and> proposal_sink p = sink \<and> secret_binding sc capability p = Some b"
proof -
  from served_default_binding [OF assms] obtain b p where b: "default_binding sc capability secret sink = Some b"
      "binding_proposal b = Some p" "proposal_secret p = secret" "proposal_sink p = sink"
      "secret_binding sc capability p = Some b" by blast
  from served_default_unique [OF assms] obtain b' where
    one: "filter (default_matches capability secret sink) (bindings sc) = [b']"
    by (auto simp: length_Suc_conv)
  moreover have "b \<in> set (filter (default_matches capability secret sink) (bindings sc))"
    using b(1) by (auto simp: default_binding_def find_Some_iff)
  ultimately show ?thesis using b by auto
qed

theorem default_secret_resolves_witness:
  "\<exists>b p. filter (default_matches ''issues'' ''drn:b'' HttpBearer) (bindings sample_secrets) = [b] \<and>
     default_binding sample_secrets ''issues'' ''drn:b'' HttpBearer = Some b \<and> binding_proposal b = Some p \<and>
     secret_binding sample_secrets ''issues'' p = Some b"
proof -
  have "(''issues'', sample_set) \<in> set (sets sample_catalog)"
    "effective_default sample_catalog sample_set (AgentActor ''bob'') = Some (''drn:b'', HttpBearer)"
    by (simp_all add: sample_catalog_def sample_set_def effective_default_def)
  from default_secret_resolves [OF sample_served this] show ?thesis by blast
qed

lemma served_bound_secret:
  assumes "secrets_served sc c"
    and "secret_binding sc capability p = Some b"
  shows "\<exists>s h. catalog_get c capability = Some s \<and> c_http (cs_constraints s) = Some h \<and>
    set (g_hosts (catalog_grant sc b)) \<subseteq> set (h_hosts h) \<and>
    set (g_methods (catalog_grant sc b)) \<subseteq> set (h_methods h) \<and>
    0 < g_max_injections (catalog_grant sc b) \<and> g_max_injections (catalog_grant sc b) \<le> h_max_requests h \<and>
    validate_grant (catalog_grant sc b) = Inr () \<and>
    secret_matches (Some p) ((cs_constraints s)\<lparr>c_secret_use := Some (catalog_grant sc b)\<rparr>) \<and>
    filter (\<lambda>b'. binding_matches b' capability p \<and> b' \<noteq> b) (bindings sc) = []"
proof -
  from secret_binding_Some [OF assms(2)] have b: "b \<in> set (bindings sc)" "binding_matches b capability p" by auto
  have new: "secret_catalog_new (bindings sc) = (Inr (sc\<lparr>authority_revision := None\<rparr>) :: (unit build_error, _) result)"
    using assms(1) by (simp add: secrets_served_def)
  have valid: "validate_grant (catalog_grant sc b) = Inr ()" using assms(1) b(1) by (rule served_grant_valid)
  have "filter (\<lambda>b'. binding_matches b' capability p \<and> b' \<noteq> b) (bindings sc) = []"
    using secret_catalog_new_ok(4) [OF new _ b(1) _ b(2)] by (auto simp: filter_empty_conv)
  moreover have "capability \<in> set (b_capabilities b)" using b(2) by (simp add: binding_matches_def)
  moreover have "0 < b_max_injections b"
    using validate_grant_ok [OF valid] by (simp add: catalog_grant_def binding_grant_def)
  ultimately show ?thesis
    using served_binding_within [OF assms(1) b(1)] b(2) valid
    by (fastforce simp: catalog_grant_def binding_grant_def secret_matches_def binding_matches_def)
qed

text \<open>C10: a secret that a served catalog finds for a capability and a proposal is bound by that binding
  alone, and what it grants stays within what the capability may do over HTTP: its hosts and methods
  are among the capability's, it is injected at most as often as requests may be made, and the grant
  passes the checks of the gate for that proposal.\<close>

theorem bound_secret_within_capability:
  assumes "secrets_served sc c"
    and "secret_binding sc capability p = Some b"
  shows "\<exists>s h. catalog_get c capability = Some s \<and> c_http (cs_constraints s) = Some h \<and>
    set (g_hosts (catalog_grant sc b)) \<subseteq> set (h_hosts h) \<and>
    set (g_methods (catalog_grant sc b)) \<subseteq> set (h_methods h) \<and>
    0 < g_max_injections (catalog_grant sc b) \<and> g_max_injections (catalog_grant sc b) \<le> h_max_requests h \<and>
    validate_grant (catalog_grant sc b) = Inr () \<and>
    secret_matches (Some p) ((cs_constraints s)\<lparr>c_secret_use := Some (catalog_grant sc b)\<rparr>) \<and>
    filter (\<lambda>b'. binding_matches b' capability p \<and> b' \<noteq> b) (bindings sc) = []"
  using assms by (rule served_bound_secret)

theorem bound_secret_within_capability_witness:
  "\<exists>b h. secret_binding sample_secrets ''issues'' (ProposeBearer ''drn:a'') = Some b \<and>
     c_http (cs_constraints sample_set) = Some h \<and> set (g_hosts (catalog_grant sample_secrets b)) \<subseteq> set (h_hosts h)"
proof -
  have b: "secret_binding sample_secrets ''issues'' (ProposeBearer ''drn:a'') = Some (sample_binding ''one'' ''drn:a'')"
    by (simp add: secret_binding_def sample_secrets_def binding_matches_def sample_binding_def)
  have "catalog_get sample_catalog ''issues'' = Some sample_set" by (simp add: catalog_get_def sample_catalog_def)
  with b bound_secret_within_capability [OF sample_served b] show ?thesis by auto
qed

end
