(* ===== verification/Storage_Quota.thy ===== *)
theory Storage_Quota
  imports Rust_Text
begin

text \<open>
  The storage host's limits (\<open>crates/dekopon-storage-host/src/config.rs\<close>) and its quota ledger
  (\<open>crates/dekopon-storage-host/src/quota.rs\<close>). The ledger counts the bytes and entries under
  the root, what running invocations have reserved of them, the namespaces that exist or are being
  created, the open handles and the running invocations. Every operation runs under the ledger's
  mutex and is one step of the model; a reservation is released when it is dropped unless it was
  finalized first. Maps are partial functions and sets are sets.
\<close>

section \<open>Limits\<close>

record storage_limits =
  max_root_bytes :: nat
  max_namespaces :: nat
  max_namespace_bytes :: nat
  max_files_per_namespace :: nat
  max_file_bytes :: nat
  max_open_handles :: nat
  max_handles_per_invocation :: nat
  max_host_calls_per_invocation :: nat
  max_read_bytes_per_call :: nat
  max_read_bytes_per_invocation :: nat
  max_write_bytes_per_call :: nat
  max_write_bytes_per_invocation :: nat
  max_entropy_bytes_per_call :: nat
  max_entropy_bytes_per_invocation :: nat
  lock_timeout_ms :: nat
  finalization_budget_ms :: nat
  max_active_invocations :: nat
  startup_max_entries :: nat

definition MIB :: nat where "MIB = 1024 * 1024"
definition GIB :: nat where "GIB = 1024 * 1024 * 1024"
definition TIB :: nat where "TIB = 1024 * 1024 * 1024 * 1024"

definition default_limits :: storage_limits where
  "default_limits =
     \<lparr>max_root_bytes = 2 * GIB, max_namespaces = 4096, max_namespace_bytes = 64 * MIB,
      max_files_per_namespace = 64, max_file_bytes = 16 * MIB, max_open_handles = 256,
      max_handles_per_invocation = 32, max_host_calls_per_invocation = 4096,
      max_read_bytes_per_call = 256 * 1024, max_read_bytes_per_invocation = 16 * MIB,
      max_write_bytes_per_call = 16 * MIB, max_write_bytes_per_invocation = 16 * MIB,
      max_entropy_bytes_per_call = 256, max_entropy_bytes_per_invocation = 4096,
      lock_timeout_ms = 5000, finalization_budget_ms = 5000, max_active_invocations = 64,
      startup_max_entries = 100000\<rparr>"

datatype storage_config_error =
    Zero string
  | AboveCeiling string nat nat
  | Relationship string
  | ConfigArithmetic
  | RestartCapacity nat nat

definition ceilings :: "storage_limits \<Rightarrow> (string \<times> nat \<times> nat) list" where
  "ceilings l =
     [(''maxRootBytes'', max_root_bytes l, TIB),
      (''maxNamespaces'', max_namespaces l, 65536),
      (''maxNamespaceBytes'', max_namespace_bytes l, GIB),
      (''maxFilesPerNamespace'', max_files_per_namespace l, 1024),
      (''maxFileBytes'', max_file_bytes l, 256 * MIB),
      (''maxOpenHandles'', max_open_handles l, 4096),
      (''maxHandlesPerInvocation'', max_handles_per_invocation l, 256),
      (''maxHostCallsPerInvocation'', max_host_calls_per_invocation l, 1000000),
      (''maxReadBytesPerCall'', max_read_bytes_per_call l, 16 * MIB),
      (''maxReadBytesPerInvocation'', max_read_bytes_per_invocation l, GIB),
      (''maxWriteBytesPerCall'', max_write_bytes_per_call l, 16 * MIB),
      (''maxWriteBytesPerInvocation'', max_write_bytes_per_invocation l, GIB),
      (''maxEntropyBytesPerCall'', max_entropy_bytes_per_call l, 4 * 1024),
      (''maxEntropyBytesPerInvocation'', max_entropy_bytes_per_invocation l, 64 * 1024),
      (''lockTimeoutMs'', lock_timeout_ms l, 60000),
      (''finalizationBudgetMs'', finalization_budget_ms l, 60000),
      (''maxActiveInvocations'', max_active_invocations l, 1024),
      (''startupMaxEntries'', startup_max_entries l, 1000000)]"

definition relationships :: "storage_limits \<Rightarrow> (bool \<times> string) list" where
  "relationships l =
     [(max_read_bytes_per_call l \<le> max_read_bytes_per_invocation l, ''read call <= invocation''),
      (max_write_bytes_per_call l \<le> max_write_bytes_per_invocation l, ''write call <= invocation''),
      (max_entropy_bytes_per_call l \<le> max_entropy_bytes_per_invocation l, ''entropy call <= invocation''),
      (max_file_bytes l \<le> max_namespace_bytes l, ''file <= namespace''),
      (max_namespace_bytes l \<le> max_root_bytes l, ''namespace <= root''),
      (max_handles_per_invocation l \<le> max_open_handles l, ''invocation handles <= process handles'')]"

text \<open>The list of fields that must be positive has the fields and the order of the ceilings.\<close>

definition validate_limits :: "storage_limits \<Rightarrow> (storage_config_error, unit) result" where
  "validate_limits l =
     (case find (\<lambda>(_, v, _). v = 0) (ceilings l) of
        Some (field, _) \<Rightarrow> Inl (Zero field)
      | None \<Rightarrow>
      (case find (\<lambda>(_, v, maximum). v > maximum) (ceilings l) of
         Some (field, v, maximum) \<Rightarrow> Inl (AboveCeiling field v maximum)
       | None \<Rightarrow>
       (case find (\<lambda>(valid, _). \<not> valid) (relationships l) of
          Some (_, relationship) \<Rightarrow> Inl (Relationship relationship)
        | None \<Rightarrow>
          res_bind (ok_or ConfigArithmetic (checked_add (max_files_per_namespace l) 7)) (\<lambda>one_namespace.
            if one_namespace > startup_max_entries l
            then Inl (RestartCapacity one_namespace (startup_max_entries l))
            else Inr ()))))"

section \<open>The ledger\<close>

record usage =
  u_bytes :: nat
  u_entries :: nat
  u_files :: nat

record ledger =
  root_used :: nat
  root_entries :: nat
  namespace_used :: "string \<rightharpoonup> nat"
  namespace_entries :: "string \<rightharpoonup> nat"
  namespace_slots :: "string set"
  pending_namespace_slots :: "string set"
  root_reserved :: nat
  root_entries_reserved :: nat
  namespace_reserved :: "string \<rightharpoonup> nat"
  open_handles :: nat
  active_invocations :: nat

datatype storage_error = Arithmetic | QuotaExceeded | Busy

record root_reservation =
  rr_bytes :: nat
  rr_entries :: nat
  rr_finalized :: bool

record namespace_reservation =
  nr_namespace :: string
  newly_reserved :: bool
  nr_finalized :: bool

record invocation_reservation =
  ir_namespace :: string
  ir_reserved :: nat
  ir_entries :: nat
  ir_finalized :: bool

definition ledger_new :: "usage \<Rightarrow> ledger" where
  "ledger_new u =
     \<lparr>root_used = u_bytes u, root_entries = u_entries u, namespace_used = (\<lambda>_. None),
      namespace_entries = (\<lambda>_. None), namespace_slots = {}, pending_namespace_slots = {},
      root_reserved = 0, root_entries_reserved = 0, namespace_reserved = (\<lambda>_. None),
      open_handles = 0, active_invocations = 0\<rparr>"

definition checked_sum3 :: "nat \<Rightarrow> nat \<Rightarrow> nat \<Rightarrow> (storage_error, nat) result" where
  "checked_sum3 a b c = ok_or Arithmetic (Option.bind (checked_add a b) (\<lambda>v. checked_add v c))"

text \<open>The two updates of \<open>root_reserved\<close> and \<open>root_entries_reserved\<close>: an overflow of the
  second leaves the first in place.\<close>

definition add_root_reserved :: "ledger \<Rightarrow> nat \<Rightarrow> nat \<Rightarrow> ledger \<times> (storage_error, unit) result" where
  "add_root_reserved st bytes entries =
     (case checked_add (root_reserved st) bytes of
        None \<Rightarrow> (st, Inl Arithmetic)
      | Some rr \<Rightarrow>
          (let st = st\<lparr>root_reserved := rr\<rparr>
           in case checked_add (root_entries_reserved st) entries of
                None \<Rightarrow> (st, Inl Arithmetic)
              | Some re \<Rightarrow> (st\<lparr>root_entries_reserved := re\<rparr>, Inr ())))"

definition reserve_root ::
  "storage_limits \<Rightarrow> ledger \<Rightarrow> nat \<Rightarrow> nat \<Rightarrow> ledger \<times> (storage_error, root_reservation) result" where
  "reserve_root l st bytes entries =
     (case (checked_sum3 (root_used st) (root_reserved st) bytes,
            checked_sum3 (root_entries st) (root_entries_reserved st) entries) of
        (Inl e, _) \<Rightarrow> (st, Inl e)
      | (Inr _, Inl e) \<Rightarrow> (st, Inl e)
      | (Inr total_bytes, Inr total_entries) \<Rightarrow>
          if total_bytes > max_root_bytes l \<or> total_entries > startup_max_entries l
          then (st, Inl QuotaExceeded)
          else (case add_root_reserved st bytes entries of
                  (st, Inl e) \<Rightarrow> (st, Inl e)
                | (st, Inr _) \<Rightarrow>
                    (st, Inr \<lparr>rr_bytes = bytes, rr_entries = entries, rr_finalized = False\<rparr>)))"

definition observe_namespaces :: "ledger \<Rightarrow> string list \<Rightarrow> ledger" where
  "observe_namespaces st observed = st\<lparr>namespace_slots := namespace_slots st \<union> set observed\<rparr>"

definition reserve_namespace ::
  "storage_limits \<Rightarrow> ledger \<Rightarrow> string \<Rightarrow> string list
     \<Rightarrow> ledger \<times> (storage_error, namespace_reservation) result" where
  "reserve_namespace l st namespace observed =
     (let st = observe_namespaces st observed
      in if namespace \<in> namespace_slots st \<or> namespace \<in> pending_namespace_slots st
         then (st, Inr \<lparr>nr_namespace = namespace, newly_reserved = False, nr_finalized = True\<rparr>)
         else if card (namespace_slots st \<union> pending_namespace_slots st) \<ge> max_namespaces l
         then (st, Inl QuotaExceeded)
         else (st\<lparr>pending_namespace_slots := insert namespace (pending_namespace_slots st)\<rparr>,
               Inr \<lparr>nr_namespace = namespace, newly_reserved = True, nr_finalized = False\<rparr>))"

definition begin_invocation ::
  "storage_limits \<Rightarrow> ledger \<Rightarrow> string \<Rightarrow> usage \<Rightarrow> ledger \<times> (storage_error, invocation_reservation) result" where
  "begin_invocation l st namespace u =
     (if active_invocations st \<ge> max_active_invocations l then (st, Inl Busy)
      else let st = st\<lparr>namespace_used := (namespace_used st)(namespace \<mapsto> u_bytes u),
                       namespace_entries := (namespace_entries st)(namespace \<mapsto> u_entries u)\<rparr>
      in case checked_add (active_invocations st) 1 of
           None \<Rightarrow> (st, Inl Arithmetic)
         | Some n \<Rightarrow>
             (st\<lparr>active_invocations := n\<rparr>,
              Inr \<lparr>ir_namespace = namespace, ir_reserved = 0, ir_entries = 0, ir_finalized = False\<rparr>))"

definition retain_keys :: "(string \<Rightarrow> bool) \<Rightarrow> (string \<rightharpoonup> nat) \<Rightarrow> (string \<rightharpoonup> nat)" where
  "retain_keys keep f = (\<lambda>k. if keep k then f k else None)"

definition account_sweep ::
  "ledger \<Rightarrow> string \<Rightarrow> usage \<Rightarrow> usage \<Rightarrow> bool \<Rightarrow> ledger \<times> (storage_error, unit) result" where
  "account_sweep st namespace before after removed =
     (case (checked_sub (u_bytes before) (u_bytes after), checked_sub (u_entries before) (u_entries after)) of
        (Some bytes, Some entries) \<Rightarrow>
          (case checked_sub (root_used st) bytes of
             None \<Rightarrow> (st, Inl Arithmetic)
           | Some used \<Rightarrow>
               (let st = st\<lparr>root_used := used\<rparr>
                in case checked_sub (root_entries st) entries of
                     None \<Rightarrow> (st, Inl Arithmetic)
                   | Some es \<Rightarrow>
                       (let keep = (\<lambda>k. \<not> starts_with (namespace @ ''/'') k)
                        in (st\<lparr>root_entries := es,
                               namespace_used := retain_keys keep (namespace_used st),
                               namespace_entries := retain_keys keep (namespace_entries st),
                               namespace_slots :=
                                 (if removed then namespace_slots st - {namespace} else namespace_slots st)\<rparr>,
                            Inr ()))))
      | _ \<Rightarrow> (st, Inl Arithmetic))"

definition acquire_handle :: "storage_limits \<Rightarrow> ledger \<Rightarrow> ledger \<times> (storage_error, unit) result" where
  "acquire_handle l st =
     (if open_handles st \<ge> max_open_handles l then (st, Inl QuotaExceeded)
      else case checked_add (open_handles st) 1 of
             None \<Rightarrow> (st, Inl Arithmetic)
           | Some n \<Rightarrow> (st\<lparr>open_handles := n\<rparr>, Inr ()))"

definition release_handle :: "ledger \<Rightarrow> ledger" where
  "release_handle st = st\<lparr>open_handles := saturating_sub (open_handles st) 1\<rparr>"

section \<open>Namespace slots\<close>

definition namespace_commit :: "ledger \<Rightarrow> namespace_reservation \<Rightarrow> ledger \<times> namespace_reservation" where
  "namespace_commit st r =
     ((if newly_reserved r
       then st\<lparr>pending_namespace_slots := pending_namespace_slots st - {nr_namespace r},
               namespace_slots := insert (nr_namespace r) (namespace_slots st)\<rparr>
       else st),
      r\<lparr>nr_finalized := True\<rparr>)"

definition namespace_drop :: "ledger \<Rightarrow> namespace_reservation \<Rightarrow> ledger" where
  "namespace_drop st r =
     (if nr_finalized r \<or> \<not> newly_reserved r then st
      else st\<lparr>pending_namespace_slots := pending_namespace_slots st - {nr_namespace r}\<rparr>)"

section \<open>Root reservations\<close>

definition release_root_locked :: "ledger \<Rightarrow> nat \<Rightarrow> nat \<Rightarrow> ledger" where
  "release_root_locked st bytes entries =
     st\<lparr>root_reserved := saturating_sub (root_reserved st) bytes,
        root_entries_reserved := saturating_sub (root_entries_reserved st) entries\<rparr>"

definition grown :: "nat \<Rightarrow> nat \<Rightarrow> nat \<Rightarrow> nat option" where
  "grown count before after =
     (if after \<ge> before then checked_add count (saturating_sub after before)
      else Some (saturating_sub count (before - after)))"

definition root_commit ::
  "ledger \<Rightarrow> root_reservation \<Rightarrow> usage \<Rightarrow> usage \<Rightarrow> ledger \<times> root_reservation \<times> (storage_error, unit) result" where
  "root_commit st r before after =
     (if saturating_sub (u_bytes after) (u_bytes before) > rr_bytes r
         \<or> saturating_sub (u_entries after) (u_entries before) > rr_entries r
      then (st, r\<lparr>rr_finalized := True\<rparr>, Inl Arithmetic)
      else case (grown (root_used st) (u_bytes before) (u_bytes after),
                 grown (root_entries st) (u_entries before) (u_entries after)) of
             (Some used, Some entries) \<Rightarrow>
               (release_root_locked (st\<lparr>root_used := used, root_entries := entries\<rparr>) (rr_bytes r) (rr_entries r),
                r\<lparr>rr_finalized := True\<rparr>, Inr ())
           | _ \<Rightarrow> (st, r\<lparr>rr_finalized := True\<rparr>, Inl Arithmetic))"

definition root_retain :: "root_reservation \<Rightarrow> root_reservation" where
  "root_retain r = r\<lparr>rr_finalized := True\<rparr>"

definition root_drop :: "ledger \<Rightarrow> root_reservation \<Rightarrow> ledger" where
  "root_drop st r = (if rr_finalized r then st else release_root_locked st (rr_bytes r) (rr_entries r))"

section \<open>Invocation reservations\<close>

definition reserve_to ::
  "storage_limits \<Rightarrow> ledger \<Rightarrow> invocation_reservation \<Rightarrow> nat \<Rightarrow> nat
     \<Rightarrow> ledger \<times> invocation_reservation \<times> (storage_error, unit) result" where
  "reserve_to l st r desired desired_entries =
     (if desired \<le> ir_reserved r \<and> desired_entries \<le> ir_entries r then (st, r, Inr ())
      else
        let additional = saturating_sub desired (ir_reserved r);
            additional_entries = saturating_sub desired_entries (ir_entries r);
            ns_used = unwrap_or 0 (namespace_used st (ir_namespace r));
            ns_reserved = unwrap_or 0 (namespace_reserved st (ir_namespace r))
        in case (checked_sum3 (root_used st) (root_reserved st) additional,
                 checked_sum3 (root_entries st) (root_entries_reserved st) additional_entries,
                 checked_sum3 ns_used ns_reserved additional) of
             (Inr root_total, Inr entries_total, Inr namespace_total) \<Rightarrow>
               if root_total > max_root_bytes l \<or> entries_total > startup_max_entries l
                  \<or> namespace_total > max_namespace_bytes l
               then (st, r, Inl QuotaExceeded)
               else (case add_root_reserved st additional additional_entries of
                       (st, Inl e) \<Rightarrow> (st, r, Inl e)
                     | (st, Inr _) \<Rightarrow>
                         (case checked_add ns_reserved additional of
                            None \<Rightarrow> (st, r, Inl Arithmetic)
                          | Some n \<Rightarrow>
                              (st\<lparr>namespace_reserved := (namespace_reserved st)(ir_namespace r \<mapsto> n)\<rparr>,
                               r\<lparr>ir_reserved := max (ir_reserved r) desired,
                                 ir_entries := max (ir_entries r) desired_entries\<rparr>, Inr ())))
           | _ \<Rightarrow> (st, r, Inl Arithmetic))"

definition observe_direct ::
  "ledger \<Rightarrow> invocation_reservation \<Rightarrow> usage \<Rightarrow> ledger \<times> invocation_reservation \<times> (storage_error, unit) result" where
  "observe_direct st r final_usage =
     (let old = unwrap_or 0 (namespace_used st (ir_namespace r));
          old_entries = unwrap_or 0 (namespace_entries st (ir_namespace r))
      in case grown (root_used st) old (u_bytes final_usage) of
           None \<Rightarrow> (st, r, Inl Arithmetic)
         | Some used \<Rightarrow>
             (let st = st\<lparr>root_used := used\<rparr>
              in case grown (root_entries st) old_entries (u_entries final_usage) of
                   None \<Rightarrow> (st, r, Inl Arithmetic)
                 | Some es \<Rightarrow>
                     (let st = st\<lparr>root_entries := es,
                            namespace_used := (namespace_used st)(ir_namespace r \<mapsto> u_bytes final_usage),
                            namespace_entries := (namespace_entries st)(ir_namespace r \<mapsto> u_entries final_usage)\<rparr>;
                          st = release_root_locked st (ir_reserved r) (ir_entries r)
                      in (st\<lparr>namespace_reserved :=
                            (case namespace_reserved st (ir_namespace r) of
                               Some v \<Rightarrow> (namespace_reserved st)(ir_namespace r \<mapsto> saturating_sub v (ir_reserved r))
                             | None \<Rightarrow> namespace_reserved st)\<rparr>,
                          r\<lparr>ir_reserved := 0, ir_entries := 0\<rparr>, Inr ()))))"

definition release_locked :: "ledger \<Rightarrow> string \<Rightarrow> nat \<Rightarrow> nat \<Rightarrow> ledger" where
  "release_locked st namespace bytes entries =
     (let st = release_root_locked st bytes entries;
          st = (case namespace_reserved st namespace of
                  Some v \<Rightarrow>
                    (let v = saturating_sub v bytes
                     in st\<lparr>namespace_reserved :=
                          (namespace_reserved st)(namespace := (if v = 0 then None else Some v))\<rparr>)
                | None \<Rightarrow> st)
      in st\<lparr>active_invocations := saturating_sub (active_invocations st) 1\<rparr>)"

definition invocation_drop :: "ledger \<Rightarrow> invocation_reservation \<Rightarrow> ledger" where
  "invocation_drop st r =
     (if ir_finalized r then st else release_locked st (ir_namespace r) (ir_reserved r) (ir_entries r))"

definition abort_invocation :: "ledger \<Rightarrow> invocation_reservation \<Rightarrow> ledger" where
  "abort_invocation st r =
     invocation_drop (release_locked st (ir_namespace r) (ir_reserved r) (ir_entries r)) (r\<lparr>ir_finalized := True\<rparr>)"

definition retain_after_unknown :: "ledger \<Rightarrow> invocation_reservation \<Rightarrow> ledger" where
  "retain_after_unknown st r = invocation_drop st (r\<lparr>ir_finalized := True\<rparr>)"

section \<open>The limits hold\<close>

text \<open>A ledger with the reservations that are out: those on the root and those of running
  invocations. Every public operation is a step. A writer promises to observe no growth beyond what
  it reserved (\<open>observe_direct\<close> takes the measured usage on trust); everything else the ledger
  checks itself.\<close>

type_synonym quota_state = "ledger \<times> root_reservation list \<times> invocation_reservation list"

definition within_reservation :: "ledger \<Rightarrow> invocation_reservation \<Rightarrow> usage \<Rightarrow> bool" where
  "within_reservation st r u \<longleftrightarrow>
     u_bytes u \<le> unwrap_or 0 (namespace_used st (ir_namespace r)) + ir_reserved r \<and>
     u_entries u \<le> unwrap_or 0 (namespace_entries st (ir_namespace r)) + ir_entries r"

inductive quota_step :: "storage_limits \<Rightarrow> quota_state \<Rightarrow> quota_state \<Rightarrow> bool" for l where
  q_reserve_root: "reserve_root l st bytes entries = (st', Inr r) \<Longrightarrow>
    quota_step l (st, roots, invs) (st', r # roots, invs)"
| q_reserve_root_err: "reserve_root l st bytes entries = (st', Inl e) \<Longrightarrow>
    quota_step l (st, roots, invs) (st', roots, invs)"
| q_root_commit: "root_commit st r before after = (st', r', res) \<Longrightarrow>
    quota_step l (st, xs @ r # ys, invs) (root_drop st' r', xs @ ys, invs)"
| q_root_drop: "quota_step l (st, xs @ r # ys, invs) (root_drop st r, xs @ ys, invs)"
| q_root_retain: "quota_step l (st, xs @ r # ys, invs) (root_drop st (root_retain r), xs @ ys, invs)"
| q_begin: "begin_invocation l st namespace u = (st', Inr r) \<Longrightarrow>
    quota_step l (st, roots, invs) (st', roots, r # invs)"
| q_begin_err: "begin_invocation l st namespace u = (st', Inl e) \<Longrightarrow>
    quota_step l (st, roots, invs) (st', roots, invs)"
| q_reserve_to: "reserve_to l st r desired entries = (st', r', res) \<Longrightarrow>
    quota_step l (st, roots, xs @ r # ys) (st', roots, xs @ r' # ys)"
| q_observe: "within_reservation st r u \<Longrightarrow> observe_direct st r u = (st', r', Inr ()) \<Longrightarrow>
    quota_step l (st, roots, xs @ r # ys) (st', roots, xs @ r' # ys)"
| q_abort: "quota_step l (st, roots, xs @ r # ys) (abort_invocation st r, roots, xs @ ys)"
| q_drop: "quota_step l (st, roots, xs @ r # ys) (invocation_drop st r, roots, xs @ ys)"
| q_retain: "quota_step l (st, roots, xs @ r # ys) (retain_after_unknown st r, roots, xs @ ys)"
| q_sweep: "account_sweep st namespace before after removed = (st', res) \<Longrightarrow>
    quota_step l (st, roots, invs) (st', roots, invs)"
| q_acquire: "acquire_handle l st = (st', res) \<Longrightarrow> quota_step l (st, roots, invs) (st', roots, invs)"
| q_release: "quota_step l (st, roots, invs) (release_handle st, roots, invs)"
| q_namespace: "reserve_namespace l st namespace observed = (st', res) \<Longrightarrow>
    quota_step l (st, roots, invs) (st', roots, invs)"
| q_namespace_commit: "namespace_commit st nr = (st', nr') \<Longrightarrow>
    quota_step l (st, roots, invs) (namespace_drop st' nr', roots, invs)"
| q_namespace_drop: "quota_step l (st, roots, invs) (namespace_drop st nr, roots, invs)"
| q_observe_namespaces: "quota_step l (st, roots, invs) (observe_namespaces st observed, roots, invs)"

inductive quota_reachable :: "storage_limits \<Rightarrow> quota_state \<Rightarrow> bool" for l where
  quota_start: "u_bytes u \<le> max_root_bytes l \<Longrightarrow> u_entries u \<le> startup_max_entries l \<Longrightarrow>
    quota_reachable l (ledger_new u, [], [])"
| quota_next: "quota_reachable l s \<Longrightarrow> quota_step l s s' \<Longrightarrow> quota_reachable l s'"

text \<open>The part of the invariant that concerns the counters, for given totals of what is out.\<close>

definition counters_ok :: "storage_limits \<Rightarrow> nat \<Rightarrow> nat \<Rightarrow> nat \<Rightarrow> ledger \<Rightarrow> bool" where
  "counters_ok l bytes entries running st \<longleftrightarrow>
     root_used st + root_reserved st \<le> max_root_bytes l \<and>
     root_entries st + root_entries_reserved st \<le> startup_max_entries l \<and>
     bytes \<le> root_reserved st \<and> entries \<le> root_entries_reserved st \<and>
     running \<le> active_invocations st \<and> active_invocations st \<le> max_active_invocations l \<and>
     open_handles st \<le> max_open_handles l"

definition quota_inv :: "storage_limits \<Rightarrow> quota_state \<Rightarrow> bool" where
  "quota_inv l s = (case s of (st, roots, invs) \<Rightarrow>
     counters_ok l (sum_list (map rr_bytes roots) + sum_list (map ir_reserved invs))
       (sum_list (map rr_entries roots) + sum_list (map ir_entries invs)) (length invs) st \<and>
     list_all (\<lambda>r. \<not> rr_finalized r) roots \<and> list_all (\<lambda>r. \<not> ir_finalized r) invs)"

lemma checked_sum3_Inr [res_simps]:
  "checked_sum3 a b c = Inr n \<longleftrightarrow> n = a + b + c \<and> a + b + c \<le> u64_max"
  by (auto simp: checked_sum3_def res_simps bind_eq_Some_conv)

lemma add_root_reserved_Inr:
  "add_root_reserved st b e = (st', Inr u) \<Longrightarrow>
     st' = st\<lparr>root_reserved := root_reserved st + b, root_entries_reserved := root_entries_reserved st + e\<rparr>"
  by (auto simp: add_root_reserved_def Let_def res_simps split: option.splits)

lemma add_root_reserved_fits:
  assumes "checked_sum3 u (root_reserved st) b = Inr t" "checked_sum3 v (root_entries_reserved st) e = Inr t'"
  shows "add_root_reserved st b e = (st\<lparr>root_reserved := root_reserved st + b,
     root_entries_reserved := root_entries_reserved st + e\<rparr>, Inr ())"
  using assms by (simp add: add_root_reserved_def Let_def res_simps checked_add_def)

lemma grown_le:
  "grown c before after = Some n \<Longrightarrow> n \<le> c + (after - before)"
  by (auto simp: grown_def saturating_sub_def res_simps split: if_splits)

lemma counters_release_root:
  "counters_ok l (b + bytes) (e + entries) n st \<Longrightarrow> counters_ok l bytes entries n (release_root_locked st b e)"
  by (auto simp: counters_ok_def release_root_locked_def saturating_sub_def)

lemma counters_release:
  "counters_ok l (b + bytes) (e + entries) (Suc n) st \<Longrightarrow> counters_ok l bytes entries n (release_locked st ns b e)"
  by (auto simp: counters_ok_def release_locked_def release_root_locked_def saturating_sub_def Let_def
      split: option.splits)

lemma counters_less:
  "counters_ok l (b + bytes) (e + entries) (Suc n) st \<Longrightarrow> counters_ok l bytes entries n st"
  "counters_ok l (b + bytes) (e + entries) n st \<Longrightarrow> counters_ok l bytes entries n st"
  by (auto simp: counters_ok_def)

lemma counters_root_commit:
  assumes "root_commit st r before after = (st', r', res)"
    "counters_ok l (rr_bytes r + bytes) (rr_entries r + entries) n st"
  shows "counters_ok l bytes entries n (root_drop st' r')"
proof -
  have fin: "rr_finalized r'" using assms(1)
    by (auto simp: root_commit_def split: if_splits option.splits)
  show ?thesis
  proof (cases res)
    case (Inl e)
    then have "st' = st" using assms(1) by (auto simp: root_commit_def split: if_splits option.splits)
    with fin counters_less(2) [OF assms(2)] show ?thesis by (simp add: root_drop_def)
  next
    case (Inr u)
    with assms(1) obtain used entries' where
      g: "grown (root_used st) (u_bytes before) (u_bytes after) = Some used"
        "grown (root_entries st) (u_entries before) (u_entries after) = Some entries'"
        "u_bytes after - u_bytes before \<le> rr_bytes r" "u_entries after - u_entries before \<le> rr_entries r"
      and st': "st' = release_root_locked (st\<lparr>root_used := used, root_entries := entries'\<rparr>) (rr_bytes r) (rr_entries r)"
      by (auto simp: root_commit_def saturating_sub_def split: if_splits option.splits)
    from grown_le [OF g(1)] grown_le [OF g(2)] g(3,4) fin assms(2) show ?thesis
      by (auto simp: root_drop_def st' counters_ok_def release_root_locked_def saturating_sub_def)
  qed
qed

text \<open>Once the totals fit, none of the later additions can overflow.\<close>

lemma reserve_to_cases:
  assumes "reserve_to l st r desired desired_entries = (st', r', res)"
  obtains (enough) "desired \<le> ir_reserved r" "desired_entries \<le> ir_entries r" "st' = st" "r' = r" "res = Inr ()"
  | (error) e where "st' = st" "r' = r" "res = Inl e"
  | (more) ns where
      "root_used st + root_reserved st + (desired - ir_reserved r) \<le> max_root_bytes l"
      "root_entries st + root_entries_reserved st + (desired_entries - ir_entries r) \<le> startup_max_entries l"
      "ns = unwrap_or 0 (namespace_reserved st (ir_namespace r)) + (desired - ir_reserved r)"
      "unwrap_or 0 (namespace_used st (ir_namespace r)) + ns \<le> max_namespace_bytes l"
      "st' = st\<lparr>root_reserved := root_reserved st + (desired - ir_reserved r),
         root_entries_reserved := root_entries_reserved st + (desired_entries - ir_entries r),
         namespace_reserved := (namespace_reserved st)(ir_namespace r \<mapsto> ns)\<rparr>"
      "r' = r\<lparr>ir_reserved := max (ir_reserved r) desired, ir_entries := max (ir_entries r) desired_entries\<rparr>"
      "res = Inr ()"
proof -
  let ?a = "desired - ir_reserved r" and ?ae = "desired_entries - ir_entries r"
  let ?u = "unwrap_or 0 (namespace_used st (ir_namespace r))"
  let ?n = "unwrap_or 0 (namespace_reserved st (ir_namespace r))"
  let ?s1 = "checked_sum3 (root_used st) (root_reserved st) ?a"
  let ?s2 = "checked_sum3 (root_entries st) (root_entries_reserved st) ?ae"
  let ?s3 = "checked_sum3 ?u ?n ?a"
  note d = assms [unfolded reserve_to_def Let_def saturating_sub_def]
  show thesis
  proof (cases "desired \<le> ir_reserved r \<and> desired_entries \<le> ir_entries r")
    case True
    with d show thesis by (intro enough) auto
  next
    case False
    note d = d [unfolded if_not_P [OF False]]
    show thesis
    proof (cases "is_ok ?s1 \<and> is_ok ?s2 \<and> is_ok ?s3")
      case False
      with d show thesis by (intro error) (auto simp: is_ok_def split: sum.splits)
    next
      case True
      then obtain t1 t2 t3 where t: "?s1 = Inr t1" "?s2 = Inr t2" "?s3 = Inr t3"
        by (auto simp: is_ok_iff)
      have n: "checked_add ?n ?a = Some (?n + ?a)" using t(3) by (simp add: res_simps checked_add_def)
      show thesis
      proof (cases "t1 > max_root_bytes l \<or> t2 > startup_max_entries l \<or> t3 > max_namespace_bytes l")
        case True
        with d t show thesis by (intro error) auto
      next
        case False
        with d t n show thesis
          by (intro more [of "?n + ?a"])
            (auto simp: add_root_reserved_fits [OF t(1,2)] checked_sum3_Inr add.assoc)
      qed
    qed
  qed
qed

lemma counters_reserve_to:
  assumes "reserve_to l st r desired desired_entries = (st', r', res)"
    "counters_ok l (ir_reserved r + bytes) (ir_entries r + entries) n st"
  shows "counters_ok l (ir_reserved r' + bytes) (ir_entries r' + entries) n st' \<and> ir_finalized r' = ir_finalized r"
  using assms(1) by (cases rule: reserve_to_cases) (use assms(2) in \<open>auto simp: counters_ok_def\<close>)

lemma counters_observe:
  assumes "observe_direct st r u = (st', r', Inr ())" "within_reservation st r u"
    "counters_ok l (ir_reserved r + bytes) (ir_entries r + entries) n st"
  shows "counters_ok l (ir_reserved r' + bytes) (ir_entries r' + entries) n st' \<and> ir_finalized r' = ir_finalized r"
proof -
  let ?old = "unwrap_or 0 (namespace_used st (ir_namespace r))"
  let ?old_e = "unwrap_or 0 (namespace_entries st (ir_namespace r))"
  from assms(1) obtain used es where g: "grown (root_used st) ?old (u_bytes u) = Some used"
      "grown (root_entries st) ?old_e (u_entries u) = Some es"
    and r': "ir_reserved r' = 0" "ir_entries r' = 0" "ir_finalized r' = ir_finalized r"
    and st': "root_used st' = used" "root_entries st' = es" "root_reserved st' = root_reserved st - ir_reserved r"
      "root_entries_reserved st' = root_entries_reserved st - ir_entries r"
      "active_invocations st' = active_invocations st" "open_handles st' = open_handles st"
    by (auto simp: observe_direct_def Let_def release_root_locked_def saturating_sub_def
        split: option.splits)
  from grown_le [OF g(1)] grown_le [OF g(2)] assms(2,3) r' st' show ?thesis
    by (auto simp: counters_ok_def within_reservation_def)
qed

lemma counters_reserve_root:
  assumes "reserve_root l st b e = (st', res)" "counters_ok l bytes entries n st"
  shows "case res of
      Inl _ \<Rightarrow> st' = st
    | Inr r \<Rightarrow> counters_ok l (rr_bytes r + bytes) (rr_entries r + entries) n st' \<and> \<not> rr_finalized r"
proof -
  let ?s1 = "checked_sum3 (root_used st) (root_reserved st) b"
  let ?s2 = "checked_sum3 (root_entries st) (root_entries_reserved st) e"
  show ?thesis
  proof (cases "is_ok ?s1 \<and> is_ok ?s2")
    case False
    with assms(1) show ?thesis by (auto simp: reserve_root_def is_ok_def split: sum.splits)
  next
    case True
    then obtain t1 t2 where t: "?s1 = Inr t1" "?s2 = Inr t2" by (auto simp: is_ok_iff)
    with assms show ?thesis
      by (auto simp: reserve_root_def add_root_reserved_fits [OF t] counters_ok_def checked_sum3_Inr
          split: if_splits)
  qed
qed

lemma counters_begin:
  assumes "begin_invocation l st ns u = (st', res)" "counters_ok l bytes entries n st"
  shows "case res of
      Inl _ \<Rightarrow> counters_ok l bytes entries n st'
    | Inr r \<Rightarrow> counters_ok l (ir_reserved r + bytes) (ir_entries r + entries) (Suc n) st' \<and> \<not> ir_finalized r"
  using assms by (auto simp: begin_invocation_def Let_def counters_ok_def res_simps
      split: if_splits option.splits)

lemma counters_sweep:
  "account_sweep st ns before after removed = (st', res) \<Longrightarrow> counters_ok l bytes entries n st
     \<Longrightarrow> counters_ok l bytes entries n st'"
  by (auto simp: account_sweep_def Let_def counters_ok_def res_simps split: option.splits)

lemma counters_handles:
  "acquire_handle l st = (st', res) \<Longrightarrow> counters_ok l bytes entries n st \<Longrightarrow> counters_ok l bytes entries n st'"
  "counters_ok l bytes entries n st \<Longrightarrow> counters_ok l bytes entries n (release_handle st)"
  by (auto simp: acquire_handle_def release_handle_def counters_ok_def saturating_sub_def res_simps
      split: if_splits option.splits)

lemma counters_namespaces:
  "reserve_namespace l' st ns observed = (st', res) \<Longrightarrow> counters_ok l b e n st' = counters_ok l b e n st"
  "counters_ok l b e n (namespace_drop st nr) = counters_ok l b e n st"
  "namespace_commit st nr = (st', nr') \<Longrightarrow> counters_ok l b e n st' = counters_ok l b e n st"
  "counters_ok l b e n (observe_namespaces st observed) = counters_ok l b e n st"
  by (auto simp: reserve_namespace_def namespace_drop_def namespace_commit_def observe_namespaces_def
      counters_ok_def Let_def split: if_splits)

lemmas sum_list_middle = sum_list_append map_append list.map sum_list.Cons length_append length_Cons
  add.commute add.left_commute add.assoc

lemma quota_inv_root:
  assumes "quota_inv l (st, xs @ r # ys, invs)"
  shows "counters_ok l (rr_bytes r + (sum_list (map rr_bytes (xs @ ys)) + sum_list (map ir_reserved invs)))
      (rr_entries r + (sum_list (map rr_entries (xs @ ys)) + sum_list (map ir_entries invs))) (length invs) st"
    "\<not> rr_finalized r"
    "\<And>st'. counters_ok l (sum_list (map rr_bytes (xs @ ys)) + sum_list (map ir_reserved invs))
      (sum_list (map rr_entries (xs @ ys)) + sum_list (map ir_entries invs)) (length invs) st'
      \<Longrightarrow> quota_inv l (st', xs @ ys, invs)"
  using assms by (auto simp: quota_inv_def ac_simps)

lemma quota_inv_invocation:
  assumes "quota_inv l (st, roots, xs @ r # ys)"
  shows "counters_ok l (ir_reserved r + (sum_list (map rr_bytes roots) + sum_list (map ir_reserved (xs @ ys))))
      (ir_entries r + (sum_list (map rr_entries roots) + sum_list (map ir_entries (xs @ ys))))
      (Suc (length (xs @ ys))) st"
    "\<not> ir_finalized r"
    "\<And>st'. counters_ok l (sum_list (map rr_bytes roots) + sum_list (map ir_reserved (xs @ ys)))
      (sum_list (map rr_entries roots) + sum_list (map ir_entries (xs @ ys))) (length (xs @ ys)) st'
      \<Longrightarrow> quota_inv l (st', roots, xs @ ys)"
    "\<And>st' r'. counters_ok l (ir_reserved r' + (sum_list (map rr_bytes roots) + sum_list (map ir_reserved (xs @ ys))))
      (ir_entries r' + (sum_list (map rr_entries roots) + sum_list (map ir_entries (xs @ ys))))
      (Suc (length (xs @ ys))) st' \<and> ir_finalized r' = ir_finalized r \<Longrightarrow> quota_inv l (st', roots, xs @ r' # ys)"
  using assms by (auto simp: quota_inv_def ac_simps)

lemma quota_inv_step:
  assumes "quota_step l s s'" "quota_inv l s"
  shows "quota_inv l s'"
  using assms
proof (cases rule: quota_step.cases)
  case (q_reserve_root st bytes entries st' r roots invs)
  with assms(2) counters_reserve_root [OF q_reserve_root(3)] show ?thesis
    by (fastforce simp: quota_inv_def ac_simps)
next
  case (q_reserve_root_err st bytes entries st' e roots invs)
  with assms(2) counters_reserve_root [OF q_reserve_root_err(3)] show ?thesis
    by (fastforce simp: quota_inv_def)
next
  case (q_root_commit st r before after st' r' res xs ys invs)
  note inv = quota_inv_root [OF assms(2) [unfolded q_root_commit(1)]]
  show ?thesis unfolding q_root_commit(2) by (rule inv(3) [OF counters_root_commit [OF q_root_commit(3) inv(1)]])
next
  case (q_root_drop st xs r ys invs)
  note inv = quota_inv_root [OF assms(2) [unfolded q_root_drop(1)]]
  show ?thesis unfolding q_root_drop(2)
    using inv(2) by (intro inv(3)) (simp add: root_drop_def counters_release_root [OF inv(1), simplified])
next
  case (q_root_retain st xs r ys invs)
  note inv = quota_inv_root [OF assms(2) [unfolded q_root_retain(1)]]
  show ?thesis unfolding q_root_retain(2)
    by (intro inv(3)) (simp add: root_drop_def root_retain_def counters_less(2) [OF inv(1), simplified])
next
  case (q_begin st namespace u st' r roots invs)
  with assms(2) counters_begin [OF q_begin(3)] show ?thesis
    by (fastforce simp: quota_inv_def ac_simps)
next
  case (q_begin_err st namespace u st' e roots invs)
  with assms(2) counters_begin [OF q_begin_err(3)] show ?thesis
    by (fastforce simp: quota_inv_def)
next
  case (q_reserve_to st r desired entries st' r' res roots xs ys)
  note inv = quota_inv_invocation [OF assms(2) [unfolded q_reserve_to(1)]]
  show ?thesis unfolding q_reserve_to(2) by (rule inv(4) [OF counters_reserve_to [OF q_reserve_to(3) inv(1)]])
next
  case (q_observe st r u st' r' roots xs ys)
  note inv = quota_inv_invocation [OF assms(2) [unfolded q_observe(1)]]
  show ?thesis unfolding q_observe(2) by (rule inv(4) [OF counters_observe [OF q_observe(4,3) inv(1)]])
next
  case (q_abort st roots xs r ys)
  note inv = quota_inv_invocation [OF assms(2) [unfolded q_abort(1)]]
  show ?thesis unfolding q_abort(2)
    by (intro inv(3)) (simp add: abort_invocation_def invocation_drop_def counters_release [OF inv(1), simplified])
next
  case (q_drop st roots xs r ys)
  note inv = quota_inv_invocation [OF assms(2) [unfolded q_drop(1)]]
  show ?thesis unfolding q_drop(2)
    using inv(2) by (intro inv(3)) (simp add: invocation_drop_def counters_release [OF inv(1), simplified])
next
  case (q_retain st roots xs r ys)
  note inv = quota_inv_invocation [OF assms(2) [unfolded q_retain(1)]]
  show ?thesis unfolding q_retain(2)
    by (intro inv(3)) (simp add: retain_after_unknown_def invocation_drop_def counters_less(1) [OF inv(1), simplified])
qed (use assms(2) in \<open>auto simp: quota_inv_def counters_namespaces intro: counters_sweep counters_handles\<close>)

lemma quota_reachable_inv: "quota_reachable l s \<Longrightarrow> quota_inv l s"
proof (induction rule: quota_reachable.induct)
  case (quota_start u)
  then show ?case by (simp add: quota_inv_def counters_ok_def ledger_new_def)
next
  case (quota_next s s')
  then show ?case by (blast intro: quota_inv_step)
qed

text \<open>C6: whatever the interleaving of reservations, commits, drops, sweeps and invocations, what is
  stored under the root and what is reserved on it never exceed the configured bytes and entries
  together, no more invocations run and no more handles are open than allowed, and every reservation
  that is out is still counted.\<close>

theorem quota_never_exceeded:
  assumes "quota_reachable l (st, roots, invs)"
  shows "root_used st + root_reserved st \<le> max_root_bytes l \<and>
    root_entries st + root_entries_reserved st \<le> startup_max_entries l \<and>
    length invs \<le> max_active_invocations l \<and> open_handles st \<le> max_open_handles l \<and>
    sum_list (map rr_bytes roots) + sum_list (map ir_reserved invs) \<le> root_reserved st"
  using quota_reachable_inv [OF assms] by (auto simp: quota_inv_def counters_ok_def)

theorem quota_never_exceeded_witness:
  "let l = default_limits; st = ledger_new \<lparr>u_bytes = 5, u_entries = 2, u_files = 1\<rparr>;
       st' = st\<lparr>root_reserved := 100, root_entries_reserved := 3\<rparr>
   in quota_reachable l (st', [\<lparr>rr_bytes = 100, rr_entries = 3, rr_finalized = False\<rparr>], []) \<and>
      root_used st' + root_reserved st' \<le> max_root_bytes l"
proof -
  let ?st = "ledger_new \<lparr>u_bytes = 5, u_entries = 2, u_files = 1\<rparr>"
  let ?st' = "?st\<lparr>root_reserved := 100, root_entries_reserved := 3\<rparr>"
  let ?r = "\<lparr>rr_bytes = 100, rr_entries = 3, rr_finalized = False\<rparr>"
  have "reserve_root default_limits ?st 100 3 = (?st', Inr ?r)"
    by (simp add: reserve_root_def checked_sum3_def checked_add_def ledger_new_def u64_max_def
        default_limits_def GIB_def add_root_reserved_def)
  then have r: "quota_reachable default_limits (?st', [?r], [])"
    by (intro quota_next [OF quota_start q_reserve_root]) (simp_all add: default_limits_def GIB_def)
  from quota_never_exceeded [OF r] r show ?thesis by (simp add: Let_def)
qed

text \<open>A namespace slot is given out only below the limit. A new reservation leaves at most the
  allowed number of namespaces existing or pending; committing it moves the name from pending to
  existing without changing that number, and dropping it uncommitted gives the slot back.\<close>

theorem namespace_slot_life:
  assumes "reserve_namespace l st ns observed = (st', Inr r)" "newly_reserved r"
    and "finite (namespace_slots st)" "finite (pending_namespace_slots st)"
  shows "card (namespace_slots st' \<union> pending_namespace_slots st') \<le> max_namespaces l \<and>
    (let (done, r') = namespace_commit st' r; after = namespace_drop done r'
     in ns \<in> namespace_slots after \<and> ns \<notin> pending_namespace_slots after \<and>
        namespace_slots after \<union> pending_namespace_slots after
          = namespace_slots st' \<union> pending_namespace_slots st') \<and>
    namespace_drop st' r = observe_namespaces st observed"
proof -
  let ?o = "observe_namespaces st observed"
  have new: "ns \<notin> namespace_slots ?o" "ns \<notin> pending_namespace_slots ?o"
    and room: "card (namespace_slots ?o \<union> pending_namespace_slots ?o) < max_namespaces l"
    and st': "st' = ?o\<lparr>pending_namespace_slots := insert ns (pending_namespace_slots ?o)\<rparr>"
    and r: "r = \<lparr>nr_namespace = ns, newly_reserved = True, nr_finalized = False\<rparr>"
    using assms(1,2) by (auto simp: reserve_namespace_def Let_def split: if_splits)
  have "finite (namespace_slots ?o \<union> pending_namespace_slots ?o)"
    using assms(3,4) by (simp add: observe_namespaces_def)
  with new room have "card (insert ns (namespace_slots ?o \<union> pending_namespace_slots ?o)) \<le> max_namespaces l"
    by simp
  with new show ?thesis
    by (auto simp: st' r namespace_commit_def namespace_drop_def Let_def)
qed

theorem namespace_slot_life_witness:
  "let st = (ledger_new \<lparr>u_bytes = 0, u_entries = 0, u_files = 0\<rparr>)\<lparr>namespace_slots := {''a''}\<rparr>;
       (st', _) = reserve_namespace default_limits st ''b'' []
   in card (namespace_slots st' \<union> pending_namespace_slots st') \<le> max_namespaces default_limits \<and>
      pending_namespace_slots st' = {''b''}"
proof -
  let ?st = "(ledger_new \<lparr>u_bytes = 0, u_entries = 0, u_files = 0\<rparr>)\<lparr>namespace_slots := {''a''}\<rparr>"
  let ?r = "\<lparr>nr_namespace = ''b'', newly_reserved = True, nr_finalized = False\<rparr>"
  have r: "reserve_namespace default_limits ?st ''b'' [] = (?st\<lparr>pending_namespace_slots := {''b''}\<rparr>, Inr ?r)"
    by (simp add: reserve_namespace_def observe_namespaces_def ledger_new_def default_limits_def)
  from namespace_slot_life [OF r] show ?thesis unfolding Let_def r by (simp add: Let_def ledger_new_def)
qed

section \<open>Validated limits\<close>

text \<open>Limits pass validation exactly when every field is positive and at most its ceiling, a call
  never may transfer more than its invocation, a file fits its namespace, a namespace fits the root,
  and a restart can scan what one full namespace may hold.\<close>

theorem validate_limits_iff:
  "validate_limits l = Inr () \<longleftrightarrow>
     list_all (\<lambda>(_, v, maximum). 0 < v \<and> v \<le> maximum) (ceilings l) \<and>
     max_read_bytes_per_call l \<le> max_read_bytes_per_invocation l \<and>
     max_write_bytes_per_call l \<le> max_write_bytes_per_invocation l \<and>
     max_entropy_bytes_per_call l \<le> max_entropy_bytes_per_invocation l \<and>
     max_file_bytes l \<le> max_namespace_bytes l \<and> max_namespace_bytes l \<le> max_root_bytes l \<and>
     max_handles_per_invocation l \<le> max_open_handles l \<and>
     max_files_per_namespace l + 7 \<le> startup_max_entries l"
proof -
  have files: "max_files_per_namespace l + 7 \<le> u64_max"
    if "list_all (\<lambda>(_, v, maximum). 0 < v \<and> v \<le> maximum) (ceilings l)"
    using that by (simp add: ceilings_def u64_max_def)
  have "list_all (\<lambda>(_, v, maximum). 0 < v \<and> v \<le> maximum) cs \<longleftrightarrow>
      find (\<lambda>(_, v, _). v = 0) cs = None \<and> find (\<lambda>(_, v, maximum). v > maximum) cs = None"
    for cs :: "(string \<times> nat \<times> nat) list"
    by (induction cs) (auto simp: not_less)
  note all = this [of "ceilings l"]
  have rel: "find (\<lambda>(valid, _). \<not> valid) (relationships l) = None \<longleftrightarrow>
     max_read_bytes_per_call l \<le> max_read_bytes_per_invocation l \<and>
     max_write_bytes_per_call l \<le> max_write_bytes_per_invocation l \<and>
     max_entropy_bytes_per_call l \<le> max_entropy_bytes_per_invocation l \<and>
     max_file_bytes l \<le> max_namespace_bytes l \<and> max_namespace_bytes l \<le> max_root_bytes l \<and>
     max_handles_per_invocation l \<le> max_open_handles l"
    by (auto simp: find_None_iff relationships_def)
  show ?thesis
    using files rel unfolding validate_limits_def all
    by (cases "find (\<lambda>(valid, _). \<not> valid) (relationships l)")
      (auto simp: checked_add_def split: option.splits if_splits)
qed

end
