(* ===== verification/Broker_Memory.thy ===== *)
theory Broker_Memory
  imports Broker_Catalog Storage_Quota
begin

text \<open>
  The broker's configuration of chat memory (\<open>crates/dekopon-broker/src/lib.rs\<close>): its bounds, the
  checks that they compose with the ceilings of storage and of the component host, and the check that
  the three memory roles are routed to one provider that owns nothing else. The lemmas show what a
  configuration that passed may rely on: any memory file it lets grow can be read, appended to and
  compacted within the limits of one invocation.
\<close>

section \<open>Configuration\<close>

definition MEMORY_MIN_TURN_LINE_BYTES :: nat where "MEMORY_MIN_TURN_LINE_BYTES = 241"
definition MEMORY_PROVIDER_INPUT_OVERHEAD_BYTES :: nat where "MEMORY_PROVIDER_INPUT_OVERHEAD_BYTES = 4 * 1024"
definition MEMORY_QUERY_JSON_EXPANSION :: nat where "MEMORY_QUERY_JSON_EXPANSION = 6"
definition MEMORY_WORKING_SET_OVERHEAD_BYTES :: nat where "MEMORY_WORKING_SET_OVERHEAD_BYTES = 4 * 1024 * 1024"
definition MEMORY_MIN_RESULT_BYTES :: nat where "MEMORY_MIN_RESULT_BYTES = 30"
definition MEMORY_LOGICAL_FILES :: nat where "MEMORY_LOGICAL_FILES = 1"
definition MEMORY_RECORD_FIXED_HOST_CALLS :: nat where "MEMORY_RECORD_FIXED_HOST_CALLS = 3"
definition MEMORY_FUEL_BASE :: nat where "MEMORY_FUEL_BASE = 10000000"
definition MEMORY_FUEL_PER_WORK_BYTE :: nat where "MEMORY_FUEL_PER_WORK_BYTE = 256"
definition MEMORY_READ_CHUNK_BYTES :: nat where "MEMORY_READ_CHUNK_BYTES = 256 * 1024"

datatype continuity_policy = Relaxed | Paranoid
datatype unproven_disposition = Refuse | FreshEpoch

text \<open>A candidate of a migration is kept by its digest; its overrides of limits only decide what that
  digest is compared with.\<close>

record continuity_migration =
  mg_on_unproven :: unproven_disposition
  mg_authority_digest :: "string option"
  mg_candidates :: "string list"

definition migration_valid :: "continuity_migration \<Rightarrow> bool" where
  "migration_valid mg \<longleftrightarrow> (mg_authority_digest mg \<noteq> None) \<noteq> (mg_candidates mg = [])"

record chat_memory_config =
  mc_continuity_policy :: continuity_policy
  mc_enabled_agents :: "string list"
  mc_max_lookback_turns :: nat
  mc_max_recent_turns :: nat
  mc_max_search_results :: nat
  mc_max_query_bytes :: nat
  mc_max_result_bytes :: nat
  mc_max_turn_bytes :: nat
  mc_compaction_target_bytes :: nat
  mc_compaction_threshold_bytes :: nat
  mc_continuity_migration :: "continuity_migration option"

record broker_host_limits =
  bh_max_memory_bytes :: nat
  bh_max_table_elements :: nat
  bh_max_instances :: nat
  bh_max_tables :: nat
  bh_max_memories :: nat
  bh_max_input_bytes :: nat
  bh_max_output_bytes :: nat
  bh_max_http_requests :: nat
  bh_max_http_request_bytes :: nat
  bh_max_http_response_bytes :: nat
  bh_max_http_headers :: nat
  bh_max_http_header_bytes :: nat
  bh_fuel :: nat
  bh_max_timeout_nanos :: nat

type_synonym memory_error = "unit build_error"

definition round_up :: "nat \<Rightarrow> nat \<Rightarrow> (memory_error, nat) result" where
  "round_up v multiple =
     ok_or InvalidChatMemory (map_option (\<lambda>v. v div multiple * multiple) (checked_add v (saturating_sub multiple 1)))"

definition memory_shape_ok :: "chat_memory_config \<Rightarrow> storage_limits \<Rightarrow> bool" where
  "memory_shape_ok m st \<longleftrightarrow>
     \<not> (mc_enabled_agents m = []
        \<or> length (sort_dedup (mc_enabled_agents m)) \<noteq> length (mc_enabled_agents m)
        \<or> 0 \<in> set [mc_max_lookback_turns m, mc_max_recent_turns m, mc_max_search_results m, mc_max_query_bytes m,
             mc_max_result_bytes m, mc_max_turn_bytes m, mc_compaction_target_bytes m, mc_compaction_threshold_bytes m]
        \<or> mc_max_recent_turns m > mc_max_lookback_turns m
        \<or> mc_max_search_results m > mc_max_lookback_turns m
        \<or> mc_compaction_target_bytes m \<ge> mc_compaction_threshold_bytes m
        \<or> mc_compaction_threshold_bytes m > max_file_bytes st
        \<or> mc_max_turn_bytes m < MEMORY_MIN_TURN_LINE_BYTES
        \<or> mc_max_result_bytes m < MEMORY_MIN_RESULT_BYTES
        \<or> \<not> none_or (mc_continuity_migration m) migration_valid)"

definition validate_memory :: "chat_memory_config \<Rightarrow> storage_limits \<Rightarrow> (memory_error, unit) result" where
  "validate_memory m st =
     (if \<not> memory_shape_ok m st then Inl InvalidChatMemory
      else res_bind (ok_or InvalidChatMemory (checked_mul (mc_max_lookback_turns m) (mc_max_turn_bytes m))) (\<lambda>retained.
           res_bind (round_up (mc_compaction_threshold_bytes m) MEMORY_READ_CHUNK_BYTES) (\<lambda>read_budget.
           res_bind (ok_or InvalidChatMemory
             (checked_add (read_budget div MEMORY_READ_CHUNK_BYTES) MEMORY_RECORD_FIXED_HOST_CALLS)) (\<lambda>host_calls.
           res_bind (ok_or InvalidChatMemory
             (checked_add (mc_compaction_target_bytes m) (mc_max_turn_bytes m))) (\<lambda>write_budget.
           res_bind (ok_or InvalidChatMemory
             (checked_add (mc_compaction_threshold_bytes m) (mc_max_turn_bytes m))) (\<lambda>threshold_with_append.
           res_bind (ok_or InvalidChatMemory (checked_add threshold_with_append (32 * 4096))) (\<lambda>namespace_headroom.
             if retained > mc_compaction_target_bytes m
                \<or> MEMORY_READ_CHUNK_BYTES > max_read_bytes_per_call st
                \<or> mc_max_turn_bytes m > max_write_bytes_per_call st
                \<or> mc_compaction_target_bytes m > max_write_bytes_per_call st
                \<or> threshold_with_append > max_file_bytes st
                \<or> read_budget > max_read_bytes_per_invocation st
                \<or> write_budget > max_write_bytes_per_invocation st
                \<or> host_calls > max_host_calls_per_invocation st
                \<or> max_files_per_namespace st < MEMORY_LOGICAL_FILES
                \<or> namespace_headroom > max_namespace_bytes st
                \<or> mc_max_query_bytes m > 256 * 1024
                \<or> mc_max_result_bytes m > 1024 * 1024
             then Inl InvalidChatMemory else Inr ())))))))"

definition maximum_provider_input_bytes :: "chat_memory_config \<Rightarrow> (memory_error, nat) result" where
  "maximum_provider_input_bytes m =
     res_bind (ok_or InvalidChatMemory (checked_add (mc_max_turn_bytes m) MEMORY_PROVIDER_INPUT_OVERHEAD_BYTES)) (\<lambda>r.
     res_bind (ok_or InvalidChatMemory
       (Option.bind (checked_mul (mc_max_query_bytes m) MEMORY_QUERY_JSON_EXPANSION)
         (\<lambda>v. checked_add v MEMORY_PROVIDER_INPUT_OVERHEAD_BYTES))) (\<lambda>search.
       Inr (max r search)))"

definition maximum_provider_working_set_bytes :: "chat_memory_config \<Rightarrow> (memory_error, nat) result" where
  "maximum_provider_working_set_bytes m =
     ok_or InvalidChatMemory
       (Option.bind (checked_mul (mc_compaction_threshold_bytes m) 2) (\<lambda>bytes.
        Option.bind (checked_mul (mc_compaction_target_bytes m) 2) (\<lambda>target.
        Option.bind (checked_add bytes target) (\<lambda>bytes.
        Option.bind (checked_add bytes (mc_max_turn_bytes m)) (\<lambda>bytes.
        Option.bind (checked_add bytes (mc_max_result_bytes m)) (\<lambda>bytes.
          checked_add bytes MEMORY_WORKING_SET_OVERHEAD_BYTES))))))"

definition minimum_provider_fuel :: "chat_memory_config \<Rightarrow> (memory_error, nat) result" where
  "minimum_provider_fuel m =
     res_bind (ok_or InvalidChatMemory
       (Option.bind (checked_add (mc_compaction_threshold_bytes m) (mc_compaction_target_bytes m))
         (\<lambda>v. checked_add v (mc_max_turn_bytes m)))) (\<lambda>record_work.
     res_bind (ok_or InvalidChatMemory
       (Option.bind (checked_add (mc_compaction_threshold_bytes m) (mc_max_query_bytes m))
         (\<lambda>v. checked_add v (mc_max_result_bytes m)))) (\<lambda>search_work.
       ok_or InvalidChatMemory
         (Option.bind (checked_mul (max record_work search_work) MEMORY_FUEL_PER_WORK_BYTE)
           (\<lambda>v. checked_add v MEMORY_FUEL_BASE))))"

definition validate_host_limits :: "chat_memory_config \<Rightarrow> broker_host_limits \<Rightarrow> (memory_error, unit) result" where
  "validate_host_limits m host =
     res_bind (maximum_provider_input_bytes m) (\<lambda>input.
       if input > bh_max_input_bytes host then Inl InvalidChatMemory
       else res_bind (maximum_provider_working_set_bytes m) (\<lambda>working.
         if working > bh_max_memory_bytes host then Inl InvalidChatMemory
         else res_bind (minimum_provider_fuel m) (\<lambda>fuel.
           if fuel > bh_fuel host then Inl InvalidChatMemory else Inr ())))"

definition enabled_for :: "chat_memory_config \<Rightarrow> string \<Rightarrow> bool" where
  "enabled_for m agent \<longleftrightarrow> agent \<in> set (mc_enabled_agents m)"

section \<open>Serving chat memory\<close>

definition EXPECTED_SHAPES :: "(capability_route \<times> effect_kind \<times> risk_level) list" where
  "EXPECTED_SHAPES =
     [(ChatMemoryRecord, LocalWrite, Medium), (ChatMemoryRecent, ReadOnly, High), (ChatMemorySearch, ReadOnly, High)]"

text \<open>The outer option is \<open>None\<close> where the source would panic.\<close>

fun memory_shapes ::
  "constraint_catalog \<Rightarrow> (capability_route \<times> effect_kind \<times> risk_level) list
     \<Rightarrow> (memory_error, string list) result option" where
  "memory_shapes c [] = Some (Inr [])"
| "memory_shapes c ((route, effect, risk) # rest) =
     (case routed c route of
        None \<Rightarrow> None
      | Some (capability, s) \<Rightarrow>
          if cs_effect s \<noteq> effect \<or> cs_risk s \<noteq> risk \<or> cs_default s \<noteq> None \<or> c_http (cs_constraints s) \<noteq> None
          then Some (Inl InvalidChatMemory)
          else map_option (\<lambda>r. res_bind r (\<lambda>capabilities. Inr (capability # capabilities))) (memory_shapes c rest))"

text \<open>The storage host's limits, if there is one, the component host's limits and the manifests of the
  registry, as the capabilities each provider declares, are what the registry answers.\<close>

definition with_chat_memory ::
  "storage_limits option \<Rightarrow> broker_host_limits \<Rightarrow> (string \<times> string list) list \<Rightarrow> constraint_catalog
     \<Rightarrow> chat_memory_config \<Rightarrow> (memory_error, chat_memory_config) result option" where
  "with_chat_memory storage_host host manifests c config =
     (case res_bind (ok_or InvalidChatMemory storage_host) (\<lambda>st.
             res_bind (validate_memory config st) (\<lambda>_. validate_host_limits config host)) of
        Inl e \<Rightarrow> Some (Inl e)
      | Inr _ \<Rightarrow>
          (let unrouted = filter (\<lambda>route. routed c route = None) (map fst EXPECTED_SHAPES)
           in if unrouted \<noteq> [] then Some (Inl (UnroutedChatMemory unrouted))
              else map_option (\<lambda>r. res_bind r (\<lambda>routed_capabilities.
                res_bind (ok_or InvalidChatMemory (chat_memory_provider c)) (\<lambda>provider.
                res_bind (ok_or InvalidChatMemory (find (\<lambda>(i, _). i = provider) manifests)) (\<lambda>(_, capabilities).
                  if sort_dedup capabilities \<noteq> sort_dedup routed_capabilities then Inl InvalidChatMemory
                  else Inr config)))) (memory_shapes c EXPECTED_SHAPES)))"

section \<open>The bounds compose\<close>

lemma round_up_ok:
  assumes "round_up v multiple = Inr r" "0 < multiple"
  shows "r = div_ceil v multiple * multiple"
proof -
  from assms(1) have r: "r = (v + (multiple - 1)) div multiple * multiple"
    by (auto simp: round_up_def res_simps saturating_sub_def checked_add_def split: if_splits)
  have "v + (multiple - 1) = (v div multiple) * multiple + (v mod multiple + (multiple - 1))" by simp
  then have "(v + (multiple - 1)) div multiple = v div multiple + (v mod multiple + (multiple - 1)) div multiple"
    using assms(2) by (metis add.commute div_mult_self3 less_numeral_extra(3))
  moreover have "(v mod multiple + (multiple - 1)) div multiple = (if v mod multiple = 0 then 0 else 1)"
  proof (cases "v mod multiple = 0")
    case False
    with mod_less_divisor [OF assms(2), of v] show ?thesis
      by (intro div_nat_eqI) auto
  qed (use assms(2) in auto)
  ultimately show ?thesis by (simp add: r div_ceil_def)
qed

lemma div_ceil_mono: "0 < k \<Longrightarrow> a \<le> b \<Longrightarrow> div_ceil a k \<le> div_ceil b k"
proof -
  assume k: "0 < k" and ab: "a \<le> b"
  have "div_ceil a k * k < div_ceil b k * k + k"
    using div_ceil_lower [OF k, of a] div_ceil_upper [OF k, of b] ab by linarith
  then have "div_ceil a k * k < Suc (div_ceil b k) * k" by simp
  then show ?thesis by (simp only: mult_less_cancel2 less_Suc_eq_le)
qed

text \<open>C12: with a memory configuration that validates against the storage limits, a memory file that
  has not passed the compaction threshold can be handled in one invocation: read in whole chunks within
  the read budget and the host calls, appended to by any turn within the size of a file, and rewritten
  with all the turns kept in one write; what is kept fits below the threshold, so compaction makes
  progress.\<close>

theorem memory_bounds_compose:
  assumes "validate_memory m st = Inr ()"
    and "file \<le> mc_compaction_threshold_bytes m" and "turn \<le> mc_max_turn_bytes m"
    and "turns \<le> mc_max_lookback_turns m"
  shows "div_ceil file MEMORY_READ_CHUNK_BYTES * MEMORY_READ_CHUNK_BYTES \<le> max_read_bytes_per_invocation st \<and>
    div_ceil file MEMORY_READ_CHUNK_BYTES + MEMORY_RECORD_FIXED_HOST_CALLS \<le> max_host_calls_per_invocation st \<and>
    file + turn \<le> max_file_bytes st \<and> file + turn + 32 * 4096 \<le> max_namespace_bytes st \<and>
    turns * mc_max_turn_bytes m \<le> mc_compaction_target_bytes m \<and>
    mc_compaction_target_bytes m + turn \<le> max_write_bytes_per_invocation st \<and>
    mc_compaction_target_bytes m \<le> max_write_bytes_per_call st \<and>
    mc_compaction_target_bytes m < mc_compaction_threshold_bytes m"
proof -
  let ?k = MEMORY_READ_CHUNK_BYTES
  have k: "0 < ?k" by (simp add: MEMORY_READ_CHUNK_BYTES_def)
  from assms(1) obtain read_budget where
    budget: "round_up (mc_compaction_threshold_bytes m) ?k = Inr read_budget"
    and shape: "memory_shape_ok m st"
    and fits: "mc_max_lookback_turns m * mc_max_turn_bytes m \<le> mc_compaction_target_bytes m"
      "mc_compaction_target_bytes m \<le> max_write_bytes_per_call st"
      "mc_compaction_threshold_bytes m + mc_max_turn_bytes m \<le> max_file_bytes st"
      "read_budget \<le> max_read_bytes_per_invocation st"
      "mc_compaction_target_bytes m + mc_max_turn_bytes m \<le> max_write_bytes_per_invocation st"
      "read_budget div ?k + MEMORY_RECORD_FIXED_HOST_CALLS \<le> max_host_calls_per_invocation st"
      "mc_compaction_threshold_bytes m + mc_max_turn_bytes m + 32 * 4096 \<le> max_namespace_bytes st"
    by (auto simp: validate_memory_def res_simps not_less split: if_splits)
  have r: "read_budget = div_ceil (mc_compaction_threshold_bytes m) ?k * ?k" using budget k by (rule round_up_ok)
  have mono: "div_ceil file ?k \<le> div_ceil (mc_compaction_threshold_bytes m) ?k" using k assms(2) by (rule div_ceil_mono)
  have "div_ceil file ?k * ?k \<le> max_read_bytes_per_invocation st"
    using mult_le_mono1 [OF mono, of ?k] fits(4) r by linarith
  moreover have "div_ceil file ?k + MEMORY_RECORD_FIXED_HOST_CALLS \<le> max_host_calls_per_invocation st"
    using mono fits(6) r k by simp
  moreover have "turns * mc_max_turn_bytes m \<le> mc_compaction_target_bytes m"
    using mult_le_mono1 [OF assms(4), of "mc_max_turn_bytes m"] fits(1) by linarith
  moreover have "mc_compaction_target_bytes m < mc_compaction_threshold_bytes m"
    using shape by (simp add: memory_shape_ok_def)
  ultimately show ?thesis using fits assms(2,3) by linarith
qed

definition sample_memory :: chat_memory_config where
  "sample_memory = \<lparr>mc_continuity_policy = Relaxed, mc_enabled_agents = [''bob''], mc_max_lookback_turns = 2,
     mc_max_recent_turns = 2, mc_max_search_results = 2, mc_max_query_bytes = 10, mc_max_result_bytes = 40,
     mc_max_turn_bytes = 300, mc_compaction_target_bytes = 700, mc_compaction_threshold_bytes = 1000,
     mc_continuity_migration = None\<rparr>"

theorem memory_bounds_compose_witness:
  "validate_memory sample_memory default_limits = Inr () \<and>
     (900::nat) + 200 \<le> max_file_bytes default_limits \<and> (2::nat) * 300 \<le> 700"
proof -
  have shape: "memory_shape_ok sample_memory default_limits"
    by (simp add: memory_shape_ok_def sample_memory_def default_limits_def sort_dedup_def none_or_def
        MEMORY_MIN_TURN_LINE_BYTES_def MEMORY_MIN_RESULT_BYTES_def MIB_def GIB_def TIB_def)
  have up: "round_up 1000 MEMORY_READ_CHUNK_BYTES = Inr 262144"
    by (simp add: round_up_def checked_add_def saturating_sub_def MEMORY_READ_CHUNK_BYTES_def u64_max_def)
  have v: "validate_memory sample_memory default_limits = Inr ()"
    using shape up
    by (simp add: validate_memory_def sample_memory_def default_limits_def checked_add_def checked_mul_def u64_max_def
        MEMORY_READ_CHUNK_BYTES_def MEMORY_RECORD_FIXED_HOST_CALLS_def MEMORY_LOGICAL_FILES_def MIB_def GIB_def TIB_def)
  from memory_bounds_compose [OF v, of 900 200 2] v show ?thesis
    by (simp add: sample_memory_def)
qed

section \<open>The memory roles\<close>

lemma find_SomeD: "find P xs = Some x \<Longrightarrow> P x \<and> x \<in> set xs"
  by (auto simp: find_Some_iff)

lemma routed_Some: "routed c route = Some (capability, s) \<Longrightarrow> (capability, s) \<in> set (sets c) \<and> cs_route s = route"
  by (auto simp: routed_def dest: find_SomeD)

lemma memory_shapes_total:
  "\<forall>(route, _) \<in> set expected. routed c route \<noteq> None \<Longrightarrow> memory_shapes c expected \<noteq> None"
  by (induction c expected rule: memory_shapes.induct) (auto split: option.splits)

lemma memory_shapes_ok:
  "memory_shapes c expected = Some (Inr capabilities) \<Longrightarrow>
     list_all2 (\<lambda>(route, effect, risk) capability. \<exists>s. routed c route = Some (capability, s) \<and> cs_effect s = effect
       \<and> cs_risk s = risk \<and> cs_default s = None \<and> c_http (cs_constraints s) = None) expected capabilities"
proof (induction expected arbitrary: capabilities)
  case Nil
  then show ?case by simp
next
  case (Cons e expected)
  obtain route effect risk where e: "e = (route, effect, risk)" by (cases e) auto
  with Cons.prems obtain capability s rest where "routed c route = Some (capability, s)" "cs_effect s = effect"
    "cs_risk s = risk" "cs_default s = None" "c_http (cs_constraints s) = None"
    "memory_shapes c expected = Some (Inr rest)" "capabilities = capability # rest"
    by (auto simp: res_simps split: option.splits if_splits)
  with Cons.IH e show ?case by auto
qed

text \<open>C13: serving chat memory never panics, and when it is accepted, its bounds validate against the
  storage host that is there, each role is routed to a capability of the effect it needs, with no
  secret and no HTTP, and the provider of the memory declares exactly those three capabilities.\<close>

theorem chat_memory_served:
  "case with_chat_memory storage_host host manifests c config of
     None \<Rightarrow> False
   | Some (Inl e) \<Rightarrow> True
   | Some (Inr served) \<Rightarrow>
       served = config \<and>
       (\<exists>st record recent search provider capabilities.
          storage_host = Some st \<and> validate_memory config st = Inr () \<and> validate_host_limits config host = Inr () \<and>
          map (\<lambda>route. map_option fst (routed c route)) CHAT_MEMORY = [Some record, Some recent, Some search] \<and>
          map (\<lambda>route. map_option (\<lambda>(_, s). (cs_effect s, cs_default s, c_http (cs_constraints s))) (routed c route)) CHAT_MEMORY =
            [Some (LocalWrite, None, None), Some (ReadOnly, None, None), Some (ReadOnly, None, None)] \<and>
          chat_memory_provider c = Some provider \<and> (provider, capabilities) \<in> set manifests \<and>
          set capabilities = {record, recent, search})"
proof (cases "with_chat_memory storage_host host manifests c config")
  case None
  then have "memory_shapes c EXPECTED_SHAPES = None" "\<forall>route \<in> fst ` set EXPECTED_SHAPES. routed c route \<noteq> None"
    by (auto simp: with_chat_memory_def Let_def filter_empty_conv split: sum.splits if_splits)
  then have "\<forall>(route, _) \<in> set EXPECTED_SHAPES. routed c route \<noteq> None" by (simp add: case_prod_beta)
  with memory_shapes_total \<open>memory_shapes c EXPECTED_SHAPES = None\<close> show ?thesis by blast
next
  case (Some r)
  show ?thesis
  proof (cases r)
    case (Inl e)
    with Some show ?thesis by simp
  next
    case (Inr served)
    with Some obtain st where
      st: "storage_host = Some st" "validate_memory config st = Inr ()" "validate_host_limits config host = Inr ()"
      by (auto simp: with_chat_memory_def res_simps split: sum.splits)
    with Some Inr obtain names provider entry where
      shapes: "memory_shapes c EXPECTED_SHAPES = Some (Inr names)" "chat_memory_provider c = Some provider"
      and entry: "find (\<lambda>(i, _). i = provider) manifests = Some entry" and "served = config"
        and same: "sort_dedup (snd entry) = sort_dedup names"
      by (auto simp: with_chat_memory_def Let_def res_simps case_prod_beta split: if_splits)
    obtain capabilities where e: "entry = (provider, capabilities)" and "(provider, capabilities) \<in> set manifests"
      using entry by (cases entry) (auto dest: find_SomeD)
    moreover have "set capabilities = set names" using same e set_sort_dedup by (metis snd_conv)
    moreover obtain a b d where "names = [a, b, d]"
      and "map (\<lambda>route. map_option fst (routed c route)) CHAT_MEMORY = [Some a, Some b, Some d]"
      and "map (\<lambda>route. map_option (\<lambda>(_, s). (cs_effect s, cs_default s, c_http (cs_constraints s))) (routed c route)) CHAT_MEMORY =
            [Some (LocalWrite, None, None), Some (ReadOnly, None, None), Some (ReadOnly, None, None)]"
      using memory_shapes_ok [OF shapes(1)] by (auto simp: EXPECTED_SHAPES_def CHAT_MEMORY_def list_all2_Cons1)
    ultimately show ?thesis
      using Some Inr st shapes(2) \<open>served = config\<close> by auto
  qed
qed


end
