(* ===== verification/Github_Facts.thy ===== *)
theory Github_Facts
  imports Subject
begin

text \<open>
  Facts of a GitHub webhook (\<open>crates/dekopon-core/src/github.rs\<close>): the bounded texts they are
  made of, the thread an event belongs to, its text, and the batch of events of one actor that one
  turn carries. A webhook's JSON is not modelled: an event is the record it decodes to, and of the
  targets only what decides the thread, the pull requests of a run or a check, is kept. The lemmas
  show that threads print and parse back, and that a batch stays within its bound and with its actor.
\<close>

section \<open>Numbers and threads\<close>

datatype github_number_error = GithubNumberError
datatype github_fact_error = GithubFactError

definition github_number_new :: "nat \<Rightarrow> (github_number_error, nat) result" where
  "github_number_new v = (if v \<noteq> 0 \<and> v \<le> 2 ^ 63 - 1 then Inr v else Inl GithubNumberError)"

datatype github_thread = ThreadNumber nat | ThreadRepository

fun thread_display :: "github_thread \<Rightarrow> string" where
  "thread_display (ThreadNumber n) = show_nat n"
| "thread_display ThreadRepository = ''repository''"

definition thread_from_str :: "string \<Rightarrow> (github_number_error, github_thread) result" where
  "thread_from_str v =
     (if v = ''repository'' then Inr ThreadRepository
      else if v = [] \<or> length v > 19 \<or> starts_with ''0'' v \<or> \<not> list_all is_ascii_digit v
      then Inl GithubNumberError
      else res_bind (ok_or GithubNumberError (parse_u64 v)) (\<lambda>n.
           res_bind (github_number_new n) (\<lambda>n. Inr (ThreadNumber n))))"

section \<open>Bounded texts\<close>

definition bytes_in :: "string \<Rightarrow> char \<Rightarrow> bool" where
  "bytes_in allowed c \<longleftrightarrow> c \<in> set allowed"

definition lower_or_digit :: "char \<Rightarrow> bool" where
  "lower_or_digit c \<longleftrightarrow> is_ascii_lowercase c \<or> is_ascii_digit c"

definition string_fact :: "(string \<Rightarrow> bool) \<Rightarrow> string \<Rightarrow> (github_fact_error, string) result" where
  "string_fact valid v = (if valid v then Inr v else Inl GithubFactError)"

definition delivery_id_valid :: "string \<Rightarrow> bool" where
  "delivery_id_valid v \<longleftrightarrow>
     v \<noteq> [] \<and> length v \<le> 64 \<and> list_all (\<lambda>b. lower_or_digit b \<or> bytes_in ''.-_:'' b) v"

definition sha_valid :: "string \<Rightarrow> bool" where
  "sha_valid v \<longleftrightarrow>
     (length v = 40 \<or> length v = 64) \<and> list_all (\<lambda>b. is_ascii_digit b \<or> (97 \<le> byte b \<and> byte b \<le> 102)) v"

definition repo_full_name_valid :: "string \<Rightarrow> bool" where
  "repo_full_name_valid v \<longleftrightarrow>
     (case split_once CHR ''/'' v of
        None \<Rightarrow> False
      | Some (owner, repo) \<Rightarrow>
          owner \<noteq> [] \<and> length owner \<le> 39 \<and> repo \<noteq> [] \<and> length repo \<le> 100 \<and> repo \<noteq> ''.'' \<and> repo \<noteq> ''..''
          \<and> list_all (\<lambda>b. lower_or_digit b \<or> b = CHR ''-'') owner
          \<and> list_all (\<lambda>b. lower_or_digit b \<or> bytes_in ''._-'' b) repo)"

definition github_login_valid :: "string \<Rightarrow> bool" where
  "github_login_valid v \<longleftrightarrow>
     v \<noteq> [] \<and> length v \<le> 64 \<and> list_all (\<lambda>b. is_ascii_alphanumeric b \<or> bytes_in ''-_[]'' b) v"

definition github_word_valid :: "string \<Rightarrow> bool" where
  "github_word_valid v \<longleftrightarrow>
     v \<noteq> [] \<and> length v \<le> 64 \<and> list_all (\<lambda>b. is_ascii_alphanumeric b \<or> bytes_in ''_.:-'' b) v"

section \<open>Events\<close>

datatype github_event_name =
    EvBranchProtectionConfiguration | EvBranchProtectionRule | EvCheckRun | EvCheckSuite
  | EvCodeScanningAlert | EvCommitComment | EvCreate | EvCustomPropertyValues | EvDelete
  | EvDependabotAlert | EvDeployKey | EvDeployment | EvDeploymentProtectionRule | EvDeploymentReview
  | EvDeploymentStatus | EvDiscussion | EvDiscussionComment | EvFork | EvGollum | EvIssueComment
  | EvIssueDependencies | EvIssues | EvLabel | EvMember | EvMergeGroup | EvMeta | EvMilestone | EvPackage
  | EvPageBuild | EvProjectCard | EvProjectColumn | EvProject | EvPublic | EvPullRequest
  | EvPullRequestReview | EvPullRequestReviewComment | EvPullRequestReviewThread | EvPush
  | EvRegistryPackage | EvRelease | EvRepository | EvRepositoryAdvisory | EvRepositoryDispatch
  | EvRepositoryImport | EvRepositoryRuleset | EvRepositoryVulnerabilityAlert | EvSecretScanningAlert
  | EvSecretScanningAlertLocation | EvSecretScanningScan | EvSecurityAndAnalysis | EvStar | EvStatus
  | EvSubIssues | EvTeamAdd | EvWatch | EvWorkflowDispatch | EvWorkflowJob | EvWorkflowRun

text \<open>The targets of an event; a run or a check carries the pull requests it belongs to, at most
  as many as the bound of its list allows, the others carry facts that do not decide the thread.\<close>

datatype github_target =
    TargetNone | TargetPullRequest | TargetReview | TargetReviewComment | TargetIssue | TargetIssueComment
  | TargetDiscussion | TargetDiscussionComment | TargetCommitComment | TargetPush | TargetRef
  | TargetRun "nat list option" | TargetCheck "nat list option"
  | TargetRelease | TargetDeployment | TargetAlert | TargetLabel | TargetMilestone | TargetMergeGroup
  | TargetPackage | TargetMember

record github_event =
  ev_delivery :: string
  ev_event :: github_event_name
  ev_action :: "string option"
  ev_full_name :: string
  ev_actor :: nat
  ev_number :: "nat option"
  ev_target :: github_target

definition bounded_vec :: "nat \<Rightarrow> 'a list \<Rightarrow> (github_fact_error, 'a list) result" where
  "bounded_vec n vs = (if length vs \<le> n then Inr vs else Inl GithubFactError)"

fun target_pull_requests :: "github_target \<Rightarrow> nat list option" where
  "target_pull_requests (TargetRun prs) = prs"
| "target_pull_requests (TargetCheck prs) = prs"
| "target_pull_requests _ = None"

definition thread_events :: "github_event_name list" where
  "thread_events =
     [EvPullRequest, EvPullRequestReview, EvPullRequestReviewComment, EvPullRequestReviewThread, EvIssues,
      EvIssueComment, EvSubIssues, EvIssueDependencies, EvDiscussion, EvDiscussionComment]"

definition event_thread :: "github_event \<Rightarrow> github_thread" where
  "event_thread e =
     (let number =
        (if ev_event e \<in> set thread_events then ev_number e
         else if ev_event e \<in> {EvWorkflowRun, EvCheckRun, EvCheckSuite} then
           (case target_pull_requests (ev_target e) of Some [n] \<Rightarrow> Some n | _ \<Rightarrow> None)
         else None)
      in case number of None \<Rightarrow> ThreadRepository | Some n \<Rightarrow> ThreadNumber n)"

section \<open>Batches\<close>

type_synonym github_batch = "github_event list"

definition batch_from_events :: "github_event list \<Rightarrow> (github_fact_error, github_batch) result" where
  "batch_from_events es =
     (if es = [] \<or> length es > 16 \<or> list_ex (\<lambda>e. ev_actor e \<noteq> ev_actor (es ! 0)) es
      then Inl GithubFactError else Inr es)"

definition batch_new :: "github_event \<Rightarrow> github_batch" where
  "batch_new e = [e]"

definition lead :: "github_batch \<Rightarrow> github_event" where
  "lead b = hd b"

definition deliveries :: "github_batch \<Rightarrow> string list" where
  "deliveries b = map ev_delivery b"

definition batch_append :: "github_batch \<Rightarrow> github_batch \<Rightarrow> bool \<times> github_batch" where
  "batch_append b other =
     (if length b + length other > 16 \<or> ev_actor (lead b) \<noteq> ev_actor (lead other) then (False, b)
      else (True, b @ other))"

section \<open>Threads print and parse back\<close>

lemma decimal_bound: "list_all is_ascii_digit v \<Longrightarrow> decimal_value v < 10 ^ length v"
proof (induction v rule: rev_induct)
  case Nil
  then show ?case by (simp add: decimal_value_def)
next
  case (snoc c v)
  then have "decimal_value v + 1 \<le> 10 ^ length v" "digit_value c \<le> 9"
    by (auto simp: digit_value_def ascii)
  then show ?case by (simp add: decimal_value_snoc)
qed

lemma show_nat_decimal:
  "list_all is_ascii_digit v \<Longrightarrow> v \<noteq> [] \<Longrightarrow> \<not> starts_with ''0'' v \<Longrightarrow>
     show_nat (decimal_value v) = v \<and> 0 < decimal_value v"
proof (induction v rule: rev_induct)
  case Nil
  then show ?case by simp
next
  case (snoc c v)
  then have digit: "is_ascii_digit c" by simp
  then have c: "digit_char (digit_value c) = c" "digit_value c < 10"
    by (simp add: digit_char_value) (use digit in \<open>auto simp: digit_value_def ascii\<close>)
  show ?case
  proof (cases "v = []")
    case True
    with snoc.prems digit have "byte c \<noteq> 48"
      by (auto simp: starts_with_def ascii of_char_eq_iff [of c "CHR ''0''", simplified])
    with True c digit show ?thesis
      by (subst show_nat.simps) (simp add: decimal_value_def, simp add: digit_value_def ascii)
  next
    case False
    with snoc.prems have "\<not> starts_with ''0'' v" by (cases v) (auto simp: starts_with_def)
    with snoc False have ih: "show_nat (decimal_value v) = v" "0 < decimal_value v" by simp_all
    with c show ?thesis by (subst show_nat.simps) (simp add: decimal_value_snoc)
  qed
qed

lemma show_nat_leading: "0 < n \<Longrightarrow> \<not> starts_with ''0'' (show_nat n)"
proof (induction n rule: show_nat.induct)
  case (1 n)
  show ?case
  proof (cases "n < 10")
    case True
    then have "digit_char n \<noteq> CHR ''0''"
      using digit_value_digit_char [of n] 1(2) by (auto simp: digit_value_def)
    with True 1(2) show ?thesis by (subst show_nat.simps) (simp add: starts_with_def)
  next
    case False
    with 1 have "\<not> starts_with ''0'' (show_nat (n div 10))" by simp
    moreover obtain d ds where "show_nat (n div 10) = d # ds" by (cases "show_nat (n div 10)") simp_all
    ultimately show ?thesis using False by (subst show_nat.simps) (simp add: starts_with_def split: if_splits)
  qed
qed

lemma show_nat_length: "n < 10 ^ Suc k \<Longrightarrow> length (show_nat n) \<le> Suc k"
proof (induction k arbitrary: n)
  case 0
  then show ?case by (subst show_nat.simps) simp
next
  case (Suc k)
  have "n div 10 < 10 ^ Suc k" using Suc.prems by (simp add: less_mult_imp_div_less mult.commute)
  from Suc.IH [OF this] show ?case by (subst show_nat.simps) simp
qed

text \<open>a thread prints as a text that parses back to it, and only the printed texts of threads
  parse: the repository or a positive number of at most 63 bits without leading zeros.\<close>

theorem thread_round_trip:
  "thread_from_str v = Inr t \<longleftrightarrow>
     v = thread_display t \<and> (case t of ThreadRepository \<Rightarrow> True | ThreadNumber n \<Rightarrow> 0 < n \<and> n \<le> 2 ^ 63 - 1)"
proof (cases t)
  case ThreadRepository
  then show ?thesis by (auto simp: thread_from_str_def res_simps split: if_splits)
next
  case (ThreadNumber n)
  show ?thesis
  proof
    assume "thread_from_str v = Inr t"
    with ThreadNumber have v: "v \<noteq> []" "list_all is_ascii_digit v" "\<not> starts_with ''0'' v" "parse_u64 v = Some n"
      "github_number_new n = Inr n"
      by (auto simp: thread_from_str_def github_number_new_def res_simps split: if_splits)
    then obtain c cs where "v = c # cs" by (cases v) simp_all
    with v(2) have "c \<noteq> CHR ''+''" by (auto dest: digit_not_plus)
    with v(4) \<open>v = c # cs\<close> have "n = decimal_value v"
      by (simp add: parse_u64_def Let_def split: if_splits)
    with show_nat_decimal [OF v(2,1,3)] v(5) ThreadNumber
    show "v = thread_display t \<and> (case t of ThreadRepository \<Rightarrow> True | ThreadNumber n \<Rightarrow> 0 < n \<and> n \<le> 2 ^ 63 - 1)"
      by (auto simp: github_number_new_def split: if_splits)
  next
    assume "v = thread_display t \<and> (case t of ThreadRepository \<Rightarrow> True | ThreadNumber n \<Rightarrow> 0 < n \<and> n \<le> 2 ^ 63 - 1)"
    with ThreadNumber have n: "v = show_nat n" "0 < n" "n \<le> 2 ^ 63 - 1" by simp_all
    then have "length v \<le> Suc 18" using show_nat_length [of n 18] by simp
    moreover have "v \<noteq> ''repository''" using show_nat_digits [of n] n(1) by (auto simp: ascii)
    moreover have "parse_u64 v = Some n" using n by (simp add: parse_u64_show_nat u64_max_def)
    moreover have "\<not> starts_with ''0'' v" using n show_nat_leading by simp
    ultimately show "thread_from_str v = Inr t"
      using n show_nat_digits [of n] ThreadNumber by (simp add: thread_from_str_def github_number_new_def)
  qed
qed

section \<open>A batch is one actor's\<close>

definition batch_ok :: "github_batch \<Rightarrow> bool" where
  "batch_ok b \<longleftrightarrow> b \<noteq> [] \<and> length b \<le> 16 \<and> list_all (\<lambda>e. ev_actor e = ev_actor (lead b)) b"

lemma batch_from_events_ok: "batch_from_events es = Inr b \<Longrightarrow> batch_ok b"
proof -
  assume "batch_from_events es = Inr b"
  then have b: "b \<noteq> []" "length b \<le> 16" "\<not> list_ex (\<lambda>e. ev_actor e \<noteq> ev_actor (b ! 0)) b"
    by (simp_all add: batch_from_events_def split: if_splits)
  have "lead b = b ! 0" using b(1) by (simp add: lead_def hd_conv_nth)
  with b(3) have "\<forall>e \<in> set b. ev_actor e = ev_actor (lead b)" unfolding list_ex_iff by metis
  with b(1,2) show ?thesis unfolding batch_ok_def list_all_iff by blast
qed

text \<open>Batches are built non-empty, with at most sixteen events of one actor; appending keeps
  that, leaves the batch alone when it refuses, and otherwise adds exactly the other batch's events.\<close>

theorem batch_append_keeps:
  assumes "batch_from_events es = Inr b" and "batch_from_events es' = Inr other"
  shows "batch_ok b \<and> batch_ok other \<and>
    (case batch_append b other of
       (True, b') \<Rightarrow> batch_ok b' \<and> b' = b @ other \<and> lead b' = lead b
     | (False, b') \<Rightarrow> b' = b \<and> (16 < length b + length other \<or> ev_actor (lead b) \<noteq> ev_actor (lead other)))"
proof -
  have ok: "batch_ok b" "batch_ok other" using assms batch_from_events_ok by blast+
  then have "lead (b @ other) = lead b" by (simp add: batch_ok_def lead_def)
  moreover have "batch_ok (b @ other)"
    if "length b + length other \<le> 16" "ev_actor (lead b) = ev_actor (lead other)"
    using ok that \<open>lead (b @ other) = lead b\<close> by (simp add: batch_ok_def)
  ultimately show ?thesis using ok by (simp add: batch_append_def)
qed

theorem batch_append_keeps_witness:
  "let e = \<lparr>ev_delivery = ''d'', ev_event = EvPush, ev_action = None, ev_full_name = ''a/b'', ev_actor = 1,
        ev_number = None, ev_target = TargetPush\<rparr>
   in batch_from_events [e] = Inr [e] \<and> batch_append [e] [e] = (True, [e, e]) \<and> batch_ok [e, e]"
proof -
  let ?e = "\<lparr>ev_delivery = ''d'', ev_event = EvPush, ev_action = None, ev_full_name = ''a/b'', ev_actor = 1,
        ev_number = None, ev_target = TargetPush\<rparr>"
  have b: "batch_from_events [?e] = Inr [?e]" by (simp add: batch_from_events_def)
  have "batch_append [?e] [?e] = (True, [?e, ?e])" by (simp add: batch_append_def)
  with batch_append_keeps [OF b b] b show ?thesis by (simp add: Let_def)
qed

end
