(* ===== verification/Conversation.thy ===== *)
theory Conversation
  imports Github_Facts
begin

text \<open>
  Conversations and claims about them
  (\<open>crates/dekopon-broker-protocol/src/conversation.rs\<close> and \<open>lib.rs\<close>): where a message was
  said, when a conversation is in the one canonical form its transport gives it, which conversations a
  selector of the configuration matches and when the selector makes sense, the identity of a delivered
  message, and the attestation a gateway sends with an invocation. The lemmas show that canonical
  conversations of a transport have distinct keys, that each of them can be selected by a selector
  without problems, and that a delivered turn is bounded but for one edge of its truncation.
\<close>

section \<open>Numbers in texts\<close>

text \<open>\<open>str::parse::<u8>()\<close>.\<close>

definition parse_u8 :: "string \<Rightarrow> nat option" where
  "parse_u8 s = (case parse_u64 s of Some n \<Rightarrow> if n \<le> 255 then Some n else None | None \<Rightarrow> None)"

definition canonical_unsigned_decimal :: "string \<Rightarrow> bool" where
  "canonical_unsigned_decimal v \<longleftrightarrow>
     (case parse_u64 v of None \<Rightarrow> False | Some n \<Rightarrow> n \<noteq> 0 \<and> show_nat n = v)"

definition canonical_positive_service_decimal :: "string \<Rightarrow> bool" where
  "canonical_positive_service_decimal v \<longleftrightarrow>
     (case parse_i64 v of None \<Rightarrow> False | Some n \<Rightarrow> n > 0 \<and> show_int n = v)"

definition canonical_negative_decimal :: "string \<Rightarrow> bool" where
  "canonical_negative_decimal v \<longleftrightarrow>
     (case parse_i64 v of None \<Rightarrow> False | Some n \<Rightarrow> n < 0 \<and> show_int n = v)"

definition canonical_signed_decimal :: "string \<Rightarrow> bool" where
  "canonical_signed_decimal v \<longleftrightarrow>
     (case parse_i64 v of None \<Rightarrow> False | Some n \<Rightarrow> n \<noteq> 0 \<and> show_int n = v)"

definition canonical_meta_decimal :: "string \<Rightarrow> bool" where
  "canonical_meta_decimal v \<longleftrightarrow>
     v \<noteq> [] \<and> length v \<le> 64 \<and> \<not> starts_with ''0'' v \<and> list_all is_ascii_digit v"

definition canonical_fauxlack_message :: "string \<Rightarrow> bool" where
  "canonical_fauxlack_message v \<longleftrightarrow>
     (case strip_prefix ''m'' v of None \<Rightarrow> False | Some n \<Rightarrow> canonical_unsigned_decimal n)"

definition canonical_slack_timestamp :: "string \<Rightarrow> bool" where
  "canonical_slack_timestamp v \<longleftrightarrow>
     (case split_once CHR ''.'' v of
        None \<Rightarrow> False
      | Some (seconds, fraction) \<Rightarrow>
          length seconds = 10 \<and> length fraction = 6 \<and> \<not> starts_with ''0'' seconds
          \<and> list_all is_ascii_digit seconds \<and> list_all is_ascii_digit fraction)"

section \<open>Parts of a scope\<close>

definition bounded_scope_part :: "string \<Rightarrow> bool" where
  "bounded_scope_part v \<longleftrightarrow>
     v \<noteq> [] \<and> length v \<le> 256 \<and> trim v = v \<and> \<not> list_ex is_ascii_control v
     \<and> \<not> list_ex (\<lambda>c. c \<in> {CHR ''/'', CHR 0x5C}) v"

definition lowercase_token :: "string \<Rightarrow> bool" where
  "lowercase_token v \<longleftrightarrow> v \<noteq> [] \<and> list_all (\<lambda>c. is_ascii_lowercase c \<or> is_ascii_digit c) v"

definition lowercase_scope_value :: "string \<Rightarrow> bool" where
  "lowercase_scope_value v \<longleftrightarrow>
     v \<noteq> [] \<and>
     list_all (\<lambda>c. is_ascii_lowercase c \<or> is_ascii_digit c
       \<or> c \<in> {CHR ''.'', CHR ''-'', CHR ''_'', CHR '':''}) v"

definition canonical_whatsapp_container :: "string \<Rightarrow> bool" where
  "canonical_whatsapp_container v \<longleftrightarrow>
     (case split_on CHR '':'' v of
        [waba, phone_number] \<Rightarrow> canonical_meta_decimal waba \<and> canonical_meta_decimal phone_number
      | _ \<Rightarrow> False)"

definition canonical_github_id :: "string \<Rightarrow> bool" where
  "canonical_github_id v \<longleftrightarrow>
     (case split_once CHR ''.'' v of
        None \<Rightarrow> False
      | Some (owner, repo) \<Rightarrow> admits_tenant GithubRepo owner \<and> admits_id GithubRepo repo)"

section \<open>Conversations\<close>

datatype conversation_kind = DirectMessage | GroupDirectMessage | Channel | ConvThread

fun conversation_kind_str :: "conversation_kind \<Rightarrow> string" where
  "conversation_kind_str DirectMessage = ''directMessage''"
| "conversation_kind_str GroupDirectMessage = ''groupDirectMessage''"
| "conversation_kind_str Channel = ''channel''"
| "conversation_kind_str ConvThread = ''thread''"

datatype transport_kind = OnFauxlack | OnSlack | OnDiscord | OnTelegram | OnWhatsapp | OnGithub | OnLocal

fun transport_kind_str :: "transport_kind \<Rightarrow> string" where
  "transport_kind_str OnFauxlack = ''fauxlack''"
| "transport_kind_str OnSlack = ''slack''"
| "transport_kind_str OnDiscord = ''discord''"
| "transport_kind_str OnTelegram = ''telegram''"
| "transport_kind_str OnWhatsapp = ''whatsapp''"
| "transport_kind_str OnGithub = ''github''"
| "transport_kind_str OnLocal = ''local''"

record conversation =
  cv_kind :: conversation_kind
  cv_container :: "string option"
  cv_id :: string
  cv_thread :: "string option"

definition conversation_key :: "conversation \<Rightarrow> string" where
  "conversation_key cv =
     (case cv_thread cv of Some thread \<Rightarrow> cv_id cv @ '':'' @ thread | None \<Rightarrow> cv_id cv)"

definition api_channel :: "conversation \<Rightarrow> transport_kind \<Rightarrow> string" where
  "api_channel cv kind =
     (case (kind, cv_thread cv) of (OnDiscord, Some thread) \<Rightarrow> thread | _ \<Rightarrow> cv_id cv)"

definition conversation_bounded :: "conversation \<Rightarrow> bool" where
  "conversation_bounded cv \<longleftrightarrow>
     bounded_scope_part (cv_id cv) \<and> none_or (cv_container cv) bounded_scope_part
     \<and> none_or (cv_thread cv) bounded_scope_part"

fun produces :: "transport_kind \<Rightarrow> conversation_kind \<Rightarrow> bool" where
  "produces OnFauxlack kind = True"
| "produces OnSlack kind = True"
| "produces OnLocal kind = True"
| "produces OnDiscord kind = (kind \<noteq> GroupDirectMessage)"
| "produces OnTelegram kind = (kind \<noteq> GroupDirectMessage)"
| "produces OnWhatsapp kind = (kind = DirectMessage)"
| "produces OnGithub kind = (kind = ConvThread)"

definition has_container :: "transport_kind \<Rightarrow> bool" where
  "has_container kind \<longleftrightarrow> kind \<noteq> OnTelegram"

definition some_and :: "'a option \<Rightarrow> ('a \<Rightarrow> bool) \<Rightarrow> bool" where
  "some_and x p = (case x of None \<Rightarrow> False | Some v \<Rightarrow> p v)"

definition subject_tenant :: "subject \<Rightarrow> string option" where
  "subject_tenant s = (if s_tenant s = [] then None else Some (s_tenant s))"

definition is_canonical_for :: "conversation \<Rightarrow> transport_kind \<Rightarrow> subject \<Rightarrow> bool" where
  "is_canonical_for cv kind s \<longleftrightarrow>
     conversation_bounded cv \<and> produces kind (cv_kind cv) \<and>
     (let container = cv_container cv; thread = cv_thread cv; namespace = kind_namespace (s_kind s)
      in case kind of
           OnFauxlack \<Rightarrow>
             namespace = Fauxlack \<and> container = subject_tenant s \<and> lowercase_token (cv_id cv)
             \<and> (case cv_kind cv of
                  DirectMessage \<Rightarrow> thread = None
                | GroupDirectMessage \<Rightarrow> thread = None
                | Channel \<Rightarrow> some_and thread canonical_fauxlack_message
                | ConvThread \<Rightarrow> some_and thread canonical_fauxlack_message)
         | OnSlack \<Rightarrow>
             namespace = Slack \<and> some_and container lowercase_token \<and> lowercase_token (cv_id cv)
             \<and> (case cv_kind cv of
                  DirectMessage \<Rightarrow> none_or thread canonical_slack_timestamp
                | _ \<Rightarrow> some_and thread canonical_slack_timestamp)
         | OnDiscord \<Rightarrow>
             namespace = Discord \<and> canonical_unsigned_decimal (cv_id cv)
             \<and> (case cv_kind cv of
                  DirectMessage \<Rightarrow> container = None \<and> thread = None
                | Channel \<Rightarrow> some_and container canonical_unsigned_decimal \<and> thread = None
                | ConvThread \<Rightarrow> some_and container canonical_unsigned_decimal
                    \<and> some_and thread canonical_unsigned_decimal
                | GroupDirectMessage \<Rightarrow> False)
         | OnTelegram \<Rightarrow>
             namespace = Telegram \<and> container = None \<and> none_or thread canonical_positive_service_decimal
             \<and> (case cv_kind cv of
                  DirectMessage \<Rightarrow> canonical_positive_service_decimal (cv_id cv) \<and> cv_id cv = s_id s
                | Channel \<Rightarrow> canonical_negative_decimal (cv_id cv)
                | ConvThread \<Rightarrow> canonical_negative_decimal (cv_id cv) \<and> thread \<noteq> None
                | GroupDirectMessage \<Rightarrow> False)
         | OnWhatsapp \<Rightarrow>
             namespace = Whatsapp \<and> cv_kind cv = DirectMessage \<and> some_and container canonical_whatsapp_container
             \<and> canonical_meta_decimal (cv_id cv) \<and> cv_id cv = s_id s \<and> thread = None
         | OnGithub \<Rightarrow>
             s_kind s = GithubRepo \<and> cv_kind cv = ConvThread \<and> container = subject_tenant s
             \<and> cv_id cv = unwrap_or [] (subject_tenant s) @ ''.'' @ s_id s
             \<and> some_and thread (\<lambda>v. is_ok (thread_from_str v))
         | OnLocal \<Rightarrow>
             none_or container lowercase_scope_value \<and> lowercase_scope_value (cv_id cv) \<and> thread = None)"

section \<open>Selectors\<close>

datatype kind_match = AnyKind | Kinds "conversation_kind list"

fun kind_contains :: "kind_match \<Rightarrow> conversation_kind \<Rightarrow> bool" where
  "kind_contains AnyKind kind \<longleftrightarrow> True"
| "kind_contains (Kinds kinds) kind \<longleftrightarrow> kind \<in> set kinds"

record conversation_match =
  cm_kind :: kind_match
  cm_container :: "string option"
  cm_ids :: "string list option"

definition selector_matches :: "conversation_match \<Rightarrow> conversation \<Rightarrow> bool" where
  "selector_matches m cv \<longleftrightarrow>
     kind_contains (cm_kind m) (cv_kind cv)
     \<and> none_or (cm_container m) (\<lambda>container. cv_container cv = Some container)
     \<and> none_or (cm_ids m) (\<lambda>ids. list_ex (\<lambda>i. i = cv_id cv) ids)"

datatype match_problem =
    EmptyKindList
  | DuplicateKind conversation_kind
  | ImpossibleKind conversation_kind transport_kind
  | EmptyIds
  | ContainerNotSupported transport_kind
  | NonCanonicalContainer string
  | NonCanonicalId string
  | ThreadFormId string

definition canonical_id_for :: "transport_kind \<Rightarrow> string \<Rightarrow> bool" where
  "canonical_id_for transport v \<longleftrightarrow>
     bounded_scope_part v \<and>
     (case transport of
        OnFauxlack \<Rightarrow> lowercase_token v
      | OnSlack \<Rightarrow> lowercase_token v
      | OnDiscord \<Rightarrow> canonical_unsigned_decimal v
      | OnTelegram \<Rightarrow> canonical_signed_decimal v
      | OnWhatsapp \<Rightarrow> canonical_meta_decimal v
      | OnGithub \<Rightarrow> canonical_github_id v
      | OnLocal \<Rightarrow> lowercase_scope_value v)"

definition canonical_container_for :: "transport_kind \<Rightarrow> string \<Rightarrow> bool" where
  "canonical_container_for transport v \<longleftrightarrow>
     bounded_scope_part v \<and>
     (case transport of
        OnFauxlack \<Rightarrow> lowercase_token v
      | OnSlack \<Rightarrow> lowercase_token v
      | OnDiscord \<Rightarrow> canonical_unsigned_decimal v
      | OnWhatsapp \<Rightarrow> canonical_whatsapp_container v
      | OnGithub \<Rightarrow> admits_tenant GithubRepo v
      | OnLocal \<Rightarrow> lowercase_scope_value v
      | OnTelegram \<Rightarrow> False)"

definition thread_form :: "transport_kind \<Rightarrow> string \<Rightarrow> bool" where
  "thread_form transport v \<longleftrightarrow>
     transport \<noteq> OnLocal \<and>
     (case split_once CHR '':'' v of
        None \<Rightarrow> False
      | Some (parent, thread) \<Rightarrow> thread \<noteq> [] \<and> canonical_id_for transport parent)"

fun kind_problems :: "transport_kind \<Rightarrow> conversation_kind list \<Rightarrow> conversation_kind list \<Rightarrow> match_problem list" where
  "kind_problems transport seen [] = []"
| "kind_problems transport seen (kind # kinds) =
     (if kind \<in> set seen then [DuplicateKind kind] else [])
     @ (if produces transport kind then [] else [ImpossibleKind kind transport])
     @ kind_problems transport (seen @ [kind]) kinds"

definition id_problems :: "transport_kind \<Rightarrow> string \<Rightarrow> match_problem list" where
  "id_problems transport i =
     (if thread_form transport i then [ThreadFormId i]
      else if \<not> canonical_id_for transport i then [NonCanonicalId i] else [])"

definition selector_validate :: "conversation_match \<Rightarrow> transport_kind \<Rightarrow> match_problem list" where
  "selector_validate m transport =
     (case cm_kind m of
        AnyKind \<Rightarrow> []
      | Kinds kinds \<Rightarrow> (if kinds = [] then [EmptyKindList] else []) @ kind_problems transport [] kinds)
     @ (case cm_container m of
          None \<Rightarrow> []
        | Some container \<Rightarrow>
            if has_container transport then
              if canonical_container_for transport container then [] else [NonCanonicalContainer container]
            else [ContainerNotSupported transport])
     @ (case cm_ids m of
          None \<Rightarrow> []
        | Some ids \<Rightarrow> if ids = [] then [EmptyIds] else concat (map (id_problems transport) ids))"

section \<open>Claims\<close>

datatype trigger = OnMessage | OnWake | OnProbe | OnJob

fun trigger_str :: "trigger \<Rightarrow> string" where
  "trigger_str OnMessage = ''message''"
| "trigger_str OnWake = ''wake''"
| "trigger_str OnProbe = ''probe''"
| "trigger_str OnJob = ''job''"

datatype delivery_identity =
    DeliveredFauxlack string string
  | DeliveredGithub string
  | DeliveredSlack string string
  | DeliveredDiscord string string
  | DeliveredTelegram string "string option" string
  | DeliveredWhatsapp string string string
  | DeliveredLocal string string string nat nat

record chat_scope_claim =
  sp_transport :: string
  sp_kind :: transport_kind
  sp_conversation :: conversation
  sp_trigger :: trigger
  sp_delivery :: "delivery_identity option"
  sp_participant :: "string option"
  sp_github :: "github_batch option"

definition participant_bounded :: "string \<Rightarrow> bool" where
  "participant_bounded handle \<longleftrightarrow>
     (case Option.bind (strip_prefix ''p'' handle) parse_u8 of
        None \<Rightarrow> False
      | Some n \<Rightarrow> n > 0 \<and> handle = ''p'' @ show_nat n)"

definition scope_bounded :: "chat_scope_claim \<Rightarrow> bool" where
  "scope_bounded sp \<longleftrightarrow>
     conversation_bounded (sp_conversation sp) \<and> none_or (sp_participant sp) participant_bounded"

definition canonical_whatsapp_message_id :: "string \<Rightarrow> bool" where
  "canonical_whatsapp_message_id v \<longleftrightarrow>
     v \<noteq> [] \<and> length v \<le> 256 \<and> list_all (\<lambda>c. 33 \<le> byte c \<and> byte c \<le> 126) v"

fun delivery_kind :: "delivery_identity \<Rightarrow> transport_kind" where
  "delivery_kind (DeliveredFauxlack _ _) = OnFauxlack"
| "delivery_kind (DeliveredGithub _) = OnGithub"
| "delivery_kind (DeliveredSlack _ _) = OnSlack"
| "delivery_kind (DeliveredDiscord _ _) = OnDiscord"
| "delivery_kind (DeliveredTelegram _ _ _) = OnTelegram"
| "delivery_kind (DeliveredWhatsapp _ _ _) = OnWhatsapp"
| "delivery_kind (DeliveredLocal _ _ _ _ _) = OnLocal"

definition delivery_canonical_for :: "delivery_identity \<Rightarrow> chat_scope_claim \<Rightarrow> bool" where
  "delivery_canonical_for d sp \<longleftrightarrow>
     delivery_kind d = sp_kind sp \<and>
     (let cv = sp_conversation sp
      in case d of
           DeliveredFauxlack channel message \<Rightarrow> channel = cv_id cv \<and> canonical_fauxlack_message message
         | DeliveredGithub delivery \<Rightarrow> bounded_scope_part delivery
         | DeliveredSlack channel timestamp \<Rightarrow> channel = cv_id cv \<and> canonical_slack_timestamp timestamp
         | DeliveredDiscord channel message \<Rightarrow>
             channel = api_channel cv OnDiscord \<and> canonical_unsigned_decimal channel
             \<and> canonical_unsigned_decimal message
         | DeliveredTelegram chat topic message \<Rightarrow>
             chat = cv_id cv \<and> canonical_signed_decimal chat \<and> topic = cv_thread cv
             \<and> none_or topic canonical_positive_service_decimal \<and> canonical_positive_service_decimal message
         | DeliveredWhatsapp waba phone_number message \<Rightarrow>
             cv_container cv = Some (waba @ '':'' @ phone_number) \<and> canonical_meta_decimal waba
             \<and> canonical_meta_decimal phone_number \<and> canonical_whatsapp_message_id message
         | DeliveredLocal transport named boot_nonce connection sequence \<Rightarrow>
             transport = sp_transport sp \<and> named = conversation_key cv \<and> length boot_nonce = 32
             \<and> list_all (\<lambda>c. is_ascii_digit c \<or> (97 \<le> byte c \<and> byte c \<le> 102)) boot_nonce
             \<and> connection > 0 \<and> sequence > 0)"

record attestation =
  at_subjects :: attested
  at_agent :: string
  at_scope :: "chat_scope_claim option"
  at_invocation :: "string option"

definition attestation_well_formed :: "attestation \<Rightarrow> bool" where
  "attestation_well_formed c \<longleftrightarrow> none_or (at_scope c) scope_bounded"

definition bound_to :: "attestation \<Rightarrow> string \<Rightarrow> attestation" where
  "bound_to c invocation = c\<lparr>at_invocation := Some invocation\<rparr>"

definition binds :: "attestation \<Rightarrow> string \<Rightarrow> bool" where
  "binds c invocation \<longleftrightarrow> at_invocation c = Some invocation"

section \<open>Delivered turns\<close>

definition MAX_DELIVERED_TURN_TEXT_BYTES :: nat where "MAX_DELIVERED_TURN_TEXT_BYTES = 65536"

text \<open>The marker is a bracketed ellipsis, whose encoding has three bytes.\<close>

definition MARKER :: string where
  "MARKER = [CHR ''['', CHR 0xE2, CHR 0x80, CHR 0xA6, CHR '']'']"

record delivered_turn =
  dt_id :: string
  dt_trace_parent :: string
  dt_delivery :: delivery_identity
  dt_user :: string
  dt_assistant :: string

definition delivered_turn_new :: "string \<Rightarrow> string \<Rightarrow> delivery_identity \<Rightarrow> string \<Rightarrow> string \<Rightarrow> delivered_turn" where
  "delivered_turn_new i trace delivery user assistant =
     (let budget = MAX_DELIVERED_TURN_TEXT_BYTES - length assistant;
          user = (if length user > budget
            then take (floor_char_boundary user (budget - length MARKER)) user @ MARKER else user)
      in \<lparr>dt_id = i, dt_trace_parent = trace, dt_delivery = delivery, dt_user = user, dt_assistant = assistant\<rparr>)"

definition turn_bounded :: "delivered_turn \<Rightarrow> bool" where
  "turn_bounded t \<longleftrightarrow>
     (case checked_add (length (dt_user t)) (length (dt_assistant t)) of
        None \<Rightarrow> False
      | Some bytes \<Rightarrow> bytes \<le> MAX_DELIVERED_TURN_TEXT_BYTES)"

section \<open>A delivered turn is bounded\<close>

lemma turn_bounded_iff:
  "turn_bounded t \<longleftrightarrow> length (dt_user t) + length (dt_assistant t) \<le> MAX_DELIVERED_TURN_TEXT_BYTES"
  by (auto simp: turn_bounded_def checked_add_def MAX_DELIVERED_TURN_TEXT_BYTES_def u64_max_def)

text \<open>a delivered turn is bounded exactly when what was said and answered fits, or when the answer
  leaves room for the marker of what was cut; with an answer that leaves less room than the marker
  needs and a longer question, the turn that is built exceeds the bound it is cut for.\<close>

theorem delivered_turn_bounded_iff:
  "turn_bounded (delivered_turn_new i trace delivery user assistant) \<longleftrightarrow>
     length user + length assistant \<le> MAX_DELIVERED_TURN_TEXT_BYTES
     \<or> length assistant + length MARKER \<le> MAX_DELIVERED_TURN_TEXT_BYTES"
proof -
  let ?budget = "MAX_DELIVERED_TURN_TEXT_BYTES - length assistant"
  have "length (take (floor_char_boundary user (?budget - length MARKER)) user) \<le> ?budget - length MARKER"
    using floor_char_boundary_le [of user "?budget - length MARKER"] by simp
  moreover have "length MARKER = 5" by (simp add: MARKER_def)
  ultimately show ?thesis
    unfolding turn_bounded_iff delivered_turn_new_def Let_def by auto
qed

section \<open>Canonical texts\<close>

lemma canonical_unsigned_digits: "canonical_unsigned_decimal v \<Longrightarrow> list_all is_ascii_digit v \<and> v \<noteq> []"
  by (auto simp: canonical_unsigned_decimal_def show_nat_digits split: option.splits)

lemma show_int_chars: "c \<in> set (show_int x) \<Longrightarrow> is_ascii_digit c \<or> c = CHR ''-''"
  using show_nat_digits by (auto simp: show_int_def list_all_iff split: if_splits)

lemma signed_cases: "canonical_signed_decimal v \<longleftrightarrow> canonical_positive_service_decimal v \<or> canonical_negative_decimal v"
  by (auto simp: canonical_signed_decimal_def canonical_positive_service_decimal_def canonical_negative_decimal_def
      split: option.splits)

lemma signed_chars: "canonical_signed_decimal v \<Longrightarrow> c \<in> set v \<Longrightarrow> is_ascii_digit c \<or> c = CHR ''-''"
  using show_int_chars by (auto simp: canonical_signed_decimal_def split: option.splits)

lemma id_for_no_colon: "canonical_id_for transport v \<Longrightarrow> transport \<noteq> OnLocal \<Longrightarrow> CHR '':'' \<notin> set v"
proof
  assume v: "canonical_id_for transport v" "transport \<noteq> OnLocal" "CHR '':'' \<in> set v"
  have "\<not> is_ascii_digit CHR '':''" "\<not> is_ascii_lowercase CHR '':''" by (simp_all add: ascii)
  with v show False
    by (cases transport)
      (auto simp: canonical_id_for_def lowercase_token_def canonical_meta_decimal_def canonical_github_id_def
        admits_tenant_def admits_id_def split_once_Some list_all_iff
        dest: canonical_unsigned_digits signed_chars split: option.splits)
qed

lemma canonical_conversation_id:
  assumes "is_canonical_for cv kind s" "subject_ok s"
  shows "canonical_id_for kind (cv_id cv)"
proof (cases kind)
  case OnGithub
  with assms have "s_kind s = GithubRepo" "cv_id cv = unwrap_or [] (subject_tenant s) @ ''.'' @ s_id s"
    by (simp_all add: is_canonical_for_def Let_def)
  moreover have t: "admits GithubLogin (s_tenant s)" "admits GithubRepoName (s_id s)"
    using assms(2) \<open>s_kind s = GithubRepo\<close> by (simp_all add: subject_ok_def admits_tenant_def admits_id_def)
  moreover have "CHR ''.'' \<notin> set (s_tenant s)" "s_tenant s \<noteq> []"
    using t(1) by (auto simp: list_all_iff ascii bounded_def)
  ultimately have "split_once CHR ''.'' (cv_id cv) = Some (s_tenant s, s_id s)"
    by (simp add: split_once_Some subject_tenant_def)
  then have "canonical_github_id (cv_id cv)"
    using t by (simp add: canonical_github_id_def admits_tenant_def admits_id_def)
  moreover have "bounded_scope_part (cv_id cv)"
    using assms(1) unfolding is_canonical_for_def conversation_bounded_def by blast
  ultimately show ?thesis using OnGithub by (simp add: canonical_id_for_def)
qed (use assms in \<open>auto simp: is_canonical_for_def Let_def canonical_id_for_def conversation_bounded_def signed_cases
      split: conversation_kind.splits\<close>)

lemma canonical_conversation_container:
  assumes "is_canonical_for cv kind s" "subject_ok s" "cv_container cv = Some container"
  shows "has_container kind \<and> canonical_container_for kind container"
proof -
  have bounded: "bounded_scope_part container"
    using assms(1,3) by (simp add: is_canonical_for_def conversation_bounded_def none_or_def)
  have tenant: "admits_tenant (s_kind s) (s_tenant s)" using assms(2) by (simp add: subject_ok_def)
  show ?thesis
  proof (cases kind)
    case OnFauxlack
    with assms have "kind_namespace (s_kind s) = Fauxlack" "container = s_tenant s"
      by (auto simp: is_canonical_for_def Let_def subject_tenant_def split: if_splits)
    with tenant OnFauxlack bounded show ?thesis
      by (cases "s_kind s")
        (auto simp: admits_tenant_def canonical_container_for_def lowercase_token_def bounded_def has_container_def)
  next
    case OnGithub
    with assms have "s_kind s = GithubRepo" "container = s_tenant s"
      by (auto simp: is_canonical_for_def Let_def subject_tenant_def split: if_splits)
    with tenant OnGithub bounded show ?thesis by (simp add: canonical_container_for_def has_container_def)
  qed (use assms bounded in \<open>auto simp: is_canonical_for_def Let_def canonical_container_for_def has_container_def
        none_or_def some_and_def split: conversation_kind.splits\<close>)
qed

lemma canonical_thread_local: "is_canonical_for cv OnLocal s \<Longrightarrow> cv_thread cv = None"
  by (simp add: is_canonical_for_def Let_def)

text \<open>C11: two conversations that are canonical for the same transport and have the same key are the
  same conversation of their transport: the identifier and the thread agree. So storage kept under a
  key is never shared between conversations of one container.\<close>

theorem conversation_key_identifies:
  assumes "is_canonical_for a kind s" "subject_ok s"
    and "is_canonical_for b kind s'" "subject_ok s'"
    and "conversation_key a = conversation_key b"
  shows "cv_id a = cv_id b \<and> cv_thread a = cv_thread b"
proof (cases "kind = OnLocal")
  case True
  then have "cv_thread a = None" "cv_thread b = None" using assms canonical_thread_local by blast+
  with assms(5) show ?thesis by (simp add: conversation_key_def)
next
  case False
  have "CHR '':'' \<notin> set (cv_id a)" "CHR '':'' \<notin> set (cv_id b)"
    using canonical_conversation_id [OF assms(1,2)] canonical_conversation_id [OF assms(3,4)] id_for_no_colon False
    by blast+
  then have "split_once CHR '':'' (conversation_key a) = map_option (Pair (cv_id a)) (cv_thread a)"
    "split_once CHR '':'' (conversation_key b) = map_option (Pair (cv_id b)) (cv_thread b)"
    by (auto simp: conversation_key_def split_once_Some split_once_None split: option.splits)
  with assms(5) show ?thesis
    by (cases "cv_thread a"; cases "cv_thread b") (auto simp: conversation_key_def)
qed

definition slack_thread :: "string \<Rightarrow> conversation" where
  "slack_thread channel = \<lparr>cv_kind = ConvThread, cv_container = Some ''t1'', cv_id = channel,
     cv_thread = Some ''1700000000.000100''\<rparr>"

definition slack_user :: subject where
  "slack_user = \<lparr>s_kind = SlackUser, s_tenant = ''t1'', s_id = ''u1''\<rparr>"

lemma slack_user_ok: "subject_ok slack_user"
  by (simp add: slack_user_def subject_ok_def admits_tenant_def admits_id_def bounded_def ascii canonical_def
      MAX_IDENTIFIER_LENGTH_def)

lemma slack_thread_canonical: "is_canonical_for (slack_thread ''c1'') OnSlack slack_user"
proof -
  have t: "trim ''c1'' = ''c1''" "trim ''t1'' = ''t1''" "trim ''1700000000.000100'' = ''1700000000.000100''"
    by (simp_all add: trim_def utf8_width_def scalar_def is_whitespace_def)
  have "conversation_bounded (slack_thread ''c1'')"
    unfolding conversation_bounded_def bounded_scope_part_def slack_thread_def none_or_def
    by (simp add: t ascii)
  then show ?thesis
    by (simp add: is_canonical_for_def Let_def slack_thread_def slack_user_def some_and_def lowercase_token_def ascii
        canonical_slack_timestamp_def starts_with_def)
qed

theorem conversation_key_identifies_witness:
  "is_canonical_for (slack_thread ''c1'') OnSlack slack_user \<and> cv_id (slack_thread ''c1'') = ''c1''
     \<and> cv_thread (slack_thread ''c1'') = cv_thread (slack_thread ''c1'')"
  using conversation_key_identifies [OF slack_thread_canonical slack_user_ok slack_thread_canonical slack_user_ok refl]
    slack_thread_canonical by (simp add: slack_thread_def)

text \<open>every conversation a transport produces can be named by the configuration: the selector with
  its kind, container and identifier has no problem on that transport and matches it, and it matches
  no conversation with another kind or identifier.\<close>

theorem canonical_conversation_selectable:
  assumes "is_canonical_for cv kind s" "subject_ok s"
  shows "let m = \<lparr>cm_kind = Kinds [cv_kind cv], cm_container = cv_container cv, cm_ids = Some [cv_id cv]\<rparr>
    in selector_validate m kind = [] \<and> selector_matches m cv \<and>
       (selector_matches m other = (cv_kind other = cv_kind cv \<and> cv_id other = cv_id cv \<and>
          none_or (cv_container cv) (\<lambda>container. cv_container other = Some container)))"
proof -
  have i: "canonical_id_for kind (cv_id cv)" using assms by (rule canonical_conversation_id)
  moreover have "\<not> thread_form kind (cv_id cv)"
    using id_for_no_colon [OF i] by (auto simp: thread_form_def split_once_Some split: option.splits)
  ultimately have ids: "id_problems kind (cv_id cv) = []" by (simp add: id_problems_def)
  have "produces kind (cv_kind cv)" using assms(1) by (simp add: is_canonical_for_def)
  moreover have "cv_container cv = Some container \<Longrightarrow> has_container kind \<and> canonical_container_for kind container" for container
    using canonical_conversation_container [OF assms] .
  ultimately have "selector_validate
      \<lparr>cm_kind = Kinds [cv_kind cv], cm_container = cv_container cv, cm_ids = Some [cv_id cv]\<rparr> kind = []"
    using ids by (auto simp: selector_validate_def split: option.splits)
  then show ?thesis
    by (auto simp: Let_def selector_matches_def none_or_def split: option.splits)
qed

theorem canonical_conversation_selectable_witness:
  "selector_validate \<lparr>cm_kind = Kinds [ConvThread], cm_container = Some ''t1'', cm_ids = Some [''c1'']\<rparr> OnSlack = []"
  using canonical_conversation_selectable [OF slack_thread_canonical slack_user_ok]
  by (simp add: Let_def slack_thread_def)

end
