(* ===== verification/Broker_Policy.thy ===== *)
theory Broker_Policy
  imports Broker_Memory Conversation "HOL-Library.Product_Lexorder"
begin

text \<open>
  How the broker asks its policy (\<open>crates/dekopon-broker/src/lib.rs\<close>, requests and decisions of
  \<open>crates/dekopon-policy/src/lib.rs\<close>): authenticated contexts, identities and attestor grants, the
  policy context a request is evaluated in, the passes one question is split into, one per GitHub
  fact and one more for the space, and how their decisions are merged. The policy engine, which
  evaluates Cedar policies, is a parameter: any function from requests to decisions. The lemmas show
  that a question is allowed exactly when every pass of it is, for the asker and for the space.
\<close>

section \<open>Contexts\<close>

record authenticated_context =
  cx_principal :: string
  cx_actor :: actor
  cx_via :: "string option"
  cx_subject :: "subject option"
  cx_scope :: "chat_scope_claim option"
  cx_space :: "string option"

datatype context_error = PrincipalMismatch

definition context_build ::
  "string \<Rightarrow> actor \<Rightarrow> string option \<Rightarrow> subject option \<Rightarrow> chat_scope_claim option
     \<Rightarrow> (context_error, authenticated_context) result" where
  "context_build pname a via subject scope =
     (let actor_principal = (case a of Human p \<Rightarrow> Some p | ServiceActor p \<Rightarrow> Some p | AgentActor _ \<Rightarrow> None)
      in if (case actor_principal of None \<Rightarrow> False | Some p \<Rightarrow> p \<noteq> pname) then Inl PrincipalMismatch
         else Inr \<lparr>cx_principal = pname, cx_actor = a, cx_via = via, cx_subject = subject, cx_scope = scope,
                   cx_space = None\<rparr>)"

definition context_new :: "string \<Rightarrow> actor \<Rightarrow> (context_error, authenticated_context) result" where
  "context_new pname a = context_build pname a None None None"

definition context_attested ::
  "string \<Rightarrow> actor \<Rightarrow> string \<Rightarrow> subject \<Rightarrow> (context_error, authenticated_context) result" where
  "context_attested pname a via subject = context_build pname a (Some via) (Some subject) None"

definition context_attested_chat ::
  "string \<Rightarrow> actor \<Rightarrow> string \<Rightarrow> subject \<Rightarrow> chat_scope_claim \<Rightarrow> (context_error, authenticated_context) result" where
  "context_attested_chat pname a via subject scope =
     context_build pname a (Some via) (Some subject) (Some scope)"

definition with_refused_subject :: "authenticated_context \<Rightarrow> subject \<Rightarrow> authenticated_context" where
  "with_refused_subject cx subject =
     \<lparr>cx_principal = cx_principal cx, cx_actor = cx_actor cx, cx_via = None, cx_subject = Some subject,
      cx_scope = None, cx_space = None\<rparr>"

record space_key =
  sk_agent :: string
  sk_transport :: string
  sk_workspace :: "string option"
  sk_channel :: string

definition space_binding :: "authenticated_context \<Rightarrow> (space_key \<times> string) option" where
  "space_binding cx =
     (case (cx_space cx, cx_scope cx, cx_actor cx) of
        (Some pname, Some scope, AgentActor agent) \<Rightarrow>
          Some (\<lparr>sk_agent = agent, sk_transport = sp_transport scope,
                 sk_workspace = cv_container (sp_conversation scope), sk_channel = cv_id (sp_conversation scope)\<rparr>,
                pname)
      | _ \<Rightarrow> None)"

section \<open>Attestors and identities\<close>

definition MAX_POLICY_SCOPE_ENTRIES :: nat where "MAX_POLICY_SCOPE_ENTRIES = 64"

record attestor_grant =
  ag_namespaces :: "subject_scope list option"

definition validate_attestor :: "attestor_grant \<Rightarrow> ('h build_error, unit) result" where
  "validate_attestor g =
     (case ag_namespaces g of
        Some namespaces \<Rightarrow>
          if namespaces = [] \<or> length namespaces > MAX_POLICY_SCOPE_ENTRIES
          then Inl (InvalidAttestorScope (show_nat (length namespaces))) else Inr ()
      | None \<Rightarrow> Inr ())"

definition permits :: "attestor_grant \<Rightarrow> attested \<Rightarrow> bool" where
  "permits g subjects \<longleftrightarrow>
     list_all (\<lambda>s. none_or (ag_namespaces g) (list_ex (\<lambda>scope. scope_covers scope s))) (attested_forms subjects)"

text \<open>The directory is a map ordered by the kind, tenant and identifier of its subjects.\<close>

type_synonym identity_directory = "(subject \<times> string) list"

fun kind_index :: "subject_kind \<Rightarrow> nat" where
  "kind_index FauxlackUser = 0"
| "kind_index FauxlackChannel = 1"
| "kind_index SlackUser = 2"
| "kind_index SlackChannel = 3"
| "kind_index DiscordUser = 4"
| "kind_index DiscordChannel = 5"
| "kind_index TelegramUser = 6"
| "kind_index WhatsappNumber = 7"
| "kind_index TelNumber = 8"
| "kind_index GithubRepo = 9"
| "kind_index GithubRepoId = 10"
| "kind_index GithubUser = 11"
| "kind_index GithubUserId = 12"

definition subject_order :: "subject \<times> string \<Rightarrow> nat \<times> string \<times> string" where
  "subject_order e = (kind_index (s_kind (fst e)), s_tenant (fst e), s_id (fst e))"

fun directory_collect ::
  "identity_directory \<Rightarrow> (subject \<times> string) list \<Rightarrow> ('h build_error, identity_directory) result" where
  "directory_collect m [] = Inr m"
| "directory_collect m ((subject, pname) # rest) =
     (if map_of m subject \<noteq> None then Inl (DuplicateSubjectMapping (canonical subject))
      else directory_collect (insort_key subject_order (subject, pname) m) rest)"

definition directory_new :: "(subject \<times> string) list \<Rightarrow> ('h build_error, identity_directory) result" where
  "directory_new entries = directory_collect [] entries"

definition resolve :: "identity_directory \<Rightarrow> subject \<Rightarrow> string option" where
  "resolve m subject = map_of m subject"

definition resolve_attested :: "identity_directory \<Rightarrow> attested \<Rightarrow> (string \<times> string, string option) result" where
  "resolve_attested m subjects =
     (let name = resolve m (attested_name subjects); i = Option.bind (id_form subjects) (resolve m)
      in case (name, i) of
           (Some name_principal, Some id_principal) \<Rightarrow>
             if name_principal \<noteq> id_principal then Inl (name_principal, id_principal) else Inr (Some name_principal)
         | (Some pname, None) \<Rightarrow> Inr (Some pname)
         | (None, Some pname) \<Rightarrow> Inr (Some pname)
         | (None, None) \<Rightarrow> Inr None)"

definition directory_principal_kind :: "identity_directory \<Rightarrow> string \<Rightarrow> principal_kind" where
  "directory_principal_kind m pname =
     (case find (\<lambda>(_, mapped). mapped = pname) m of
        Some (subject, _) \<Rightarrow> kind_principal (s_kind subject)
      | None \<Rightarrow> Service)"

definition space_subject :: "chat_scope_claim \<Rightarrow> subject option" where
  "space_subject scope =
     (case cv_kind (sp_conversation scope) of
        DirectMessage \<Rightarrow> None
      | GroupDirectMessage \<Rightarrow> None
      | _ \<Rightarrow>
          Option.bind (case sp_kind scope of
              OnFauxlack \<Rightarrow> Some FauxlackChannel
            | OnSlack \<Rightarrow> Some SlackChannel
            | OnDiscord \<Rightarrow> Some DiscordChannel
            | _ \<Rightarrow> None) (\<lambda>kind.
          Option.bind (cv_container (sp_conversation scope)) (\<lambda>container.
            case subject_new kind container (cv_id (sp_conversation scope)) of Inl _ \<Rightarrow> None | Inr s \<Rightarrow> Some s)))"

section \<open>Policy requests\<close>

datatype secret_selection = SelectDefault | SelectProposed

datatype policy_target =
    TargetCapability string string effect_kind risk_level
  | TargetAgentPrompt string
  | TargetSecretUse string string string secret_sink_kind secret_selection

record policy_conversation =
  pv_kind :: string
  pv_container :: "string option"
  pv_id :: string
  pv_thread :: "string option"

text \<open>The JSON value of a GitHub event is named by the event it was made from, with the set of its
  author (\<open>FullEvent\<close>) or with that field removed (\<open>StrippedEvent\<close>).\<close>

datatype github_value = StrippedEvent github_event | FullEvent github_event

record policy_context =
  px_via :: "string option"
  px_subject :: "string option"
  px_agent :: "string option"
  px_transport_kind :: "string option"
  px_transport :: "string option"
  px_trigger :: "string option"
  px_started_by :: "string option"
  px_conversation :: "policy_conversation option"
  px_github :: "github_value option"

record policy_request =
  rq_principal :: string
  rq_target :: policy_target
  rq_context :: policy_context

datatype opaque_body = Streamed | MediaType | TooLarge | Malformed | Unrepresentable

record policy_decision =
  pd_allowed :: bool
  pd_determining :: "string list"
  pd_erroring :: "string list"
  pd_errors_present :: bool
  pd_refusal :: "string option"
  pd_opaque_body :: "opaque_body option"

definition default_decision :: policy_decision where
  "default_decision = \<lparr>pd_allowed = False, pd_determining = [], pd_erroring = [], pd_errors_present = False,
     pd_refusal = None, pd_opaque_body = None\<rparr>"

text \<open>The engine: a decision for a request, for a request with the facts of an HTTP call, and whether the
  JSON of an event can be built.\<close>

record 'f policy_engine =
  pe_authorize :: "policy_request \<Rightarrow> policy_decision"
  pe_authorize_http :: "policy_request \<Rightarrow> 'f \<Rightarrow> policy_decision"
  pe_to_value :: "github_event \<Rightarrow> bool"

datatype turn_started_by = StartedByPerson | StartedByMessage | StartedByWake | StartedByJob | StartedByProbe

fun started_by_str :: "turn_started_by \<Rightarrow> string" where
  "started_by_str StartedByPerson = ''person''"
| "started_by_str StartedByMessage = ''message''"
| "started_by_str StartedByWake = ''wake''"
| "started_by_str StartedByJob = ''job''"
| "started_by_str StartedByProbe = ''probe''"

definition turn_started_by :: "authenticated_context \<Rightarrow> turn_started_by option" where
  "turn_started_by cx =
     map_option (\<lambda>scope. case sp_trigger scope of
         OnMessage \<Rightarrow>
           if some_and (cx_subject cx) (\<lambda>subject. kind_principal (s_kind subject) = Person)
           then StartedByPerson else StartedByMessage
       | OnWake \<Rightarrow> StartedByWake
       | OnJob \<Rightarrow> StartedByJob
       | OnProbe \<Rightarrow> StartedByProbe) (cx_scope cx)"

definition policy_context_of :: "authenticated_context \<Rightarrow> policy_context" where
  "policy_context_of cx =
     \<lparr>px_via = cx_via cx,
      px_subject = map_option canonical (cx_subject cx),
      px_agent = (case cx_actor cx of AgentActor agent \<Rightarrow> Some agent | _ \<Rightarrow> None),
      px_transport_kind = map_option (\<lambda>scope. transport_kind_str (sp_kind scope)) (cx_scope cx),
      px_transport = map_option sp_transport (cx_scope cx),
      px_trigger = map_option (\<lambda>scope. trigger_str (sp_trigger scope)) (cx_scope cx),
      px_started_by = map_option started_by_str (turn_started_by cx),
      px_conversation = map_option (\<lambda>scope.
        \<lparr>pv_kind = conversation_kind_str (cv_kind (sp_conversation scope)),
         pv_container = cv_container (sp_conversation scope),
         pv_id = cv_id (sp_conversation scope), pv_thread = cv_thread (sp_conversation scope)\<rparr>) (cx_scope cx),
      px_github = None\<rparr>"

datatype github_denier = DeniedByFacts | DeniedByAuthorSet

record github_denial =
  gd_phase :: github_denier
  gd_delivery :: string

fun event_contexts ::
  "(github_event \<Rightarrow> bool) \<Rightarrow> policy_context \<Rightarrow> github_event list
     \<Rightarrow> (github_denial, (policy_context \<times> github_denial option) list) result" where
  "event_contexts to_value context [] = Inr []"
| "event_contexts to_value context (event # events) =
     (if \<not> to_value event then Inl \<lparr>gd_phase = DeniedByFacts, gd_delivery = ev_delivery event\<rparr>
      else res_bind (event_contexts to_value context events) (\<lambda>rest. Inr (
        [(context\<lparr>px_github := Some (StrippedEvent event)\<rparr>,
          Some \<lparr>gd_phase = DeniedByFacts, gd_delivery = ev_delivery event\<rparr>),
         (context\<lparr>px_github := Some (FullEvent event)\<rparr>,
          Some \<lparr>gd_phase = DeniedByAuthorSet, gd_delivery = ev_delivery event\<rparr>)] @ rest)))"

definition policy_contexts ::
  "(github_event \<Rightarrow> bool) \<Rightarrow> policy_context \<Rightarrow> github_batch option
     \<Rightarrow> (github_denial, (policy_context \<times> github_denial option) list) result" where
  "policy_contexts to_value context github =
     (case github of None \<Rightarrow> Inr [(context, None)] | Some batch \<Rightarrow> event_contexts to_value context batch)"

section \<open>Decisions\<close>

datatype denying = DenyAsker | DenySpace | DenyBoth

fun denying_principal :: "bool \<Rightarrow> bool \<Rightarrow> denying option" where
  "denying_principal True True = None"
| "denying_principal False True = Some DenyAsker"
| "denying_principal True False = Some DenySpace"
| "denying_principal False False = Some DenyBoth"

record space_decision =
  sd_id :: string
  sd_asker_allowed :: "bool option"
  sd_allowed :: "bool option"
  sd_policy_ids :: "string list"
  sd_denied_by :: "denying option"

record evaluated_decision =
  ed_policy :: policy_decision
  ed_space :: "space_decision option"
  ed_github_denial :: "github_denial option"

definition or_else :: "'a option \<Rightarrow> 'a option \<Rightarrow> 'a option" where
  "or_else a b = (case a of None \<Rightarrow> b | Some _ \<Rightarrow> a)"

definition merge_policy_decision :: "policy_decision \<Rightarrow> policy_decision \<Rightarrow> policy_decision" where
  "merge_policy_decision previous next =
     \<lparr>pd_allowed = pd_allowed previous \<and> pd_allowed next,
      pd_determining = sort_dedup (pd_determining previous @ pd_determining next),
      pd_erroring = sort_dedup (pd_erroring previous @ pd_erroring next),
      pd_errors_present = pd_errors_present previous \<or> pd_errors_present next,
      pd_refusal = or_else (pd_refusal previous) (pd_refusal next),
      pd_opaque_body = or_else (pd_opaque_body previous) (pd_opaque_body next)\<rparr>"

definition zip_and :: "bool option \<Rightarrow> bool option \<Rightarrow> bool option" where
  "zip_and a b = (case (a, b) of (Some x, Some y) \<Rightarrow> Some (x \<and> y) | _ \<Rightarrow> None)"

definition merge_space_decision :: "space_decision option \<Rightarrow> space_decision option \<Rightarrow> space_decision option" where
  "merge_space_decision previous next =
     (case next of
        None \<Rightarrow> previous
      | Some n \<Rightarrow>
          (let n = (case previous of
                 None \<Rightarrow> n
               | Some p \<Rightarrow>
                   n\<lparr>sd_asker_allowed := zip_and (sd_asker_allowed n) (sd_asker_allowed p),
                     sd_allowed := zip_and (sd_allowed n) (sd_allowed p),
                     sd_policy_ids := sort_dedup (sd_policy_ids n @ sd_policy_ids p)\<rparr>)
           in Some (n\<lparr>sd_denied_by := (case (sd_asker_allowed n, sd_allowed n) of
                (Some asker, Some space) \<Rightarrow> denying_principal asker space | _ \<Rightarrow> None)\<rparr>)))"

definition engine_decision :: "'f policy_engine \<Rightarrow> policy_request \<Rightarrow> 'f option \<Rightarrow> policy_decision" where
  "engine_decision policy request facts =
     (case facts of Some f \<Rightarrow> pe_authorize_http policy request f | None \<Rightarrow> pe_authorize policy request)"

text \<open>One pass of the loop: the asker's decision and, if a space is set, the space's beside it.\<close>

definition evaluate_pass ::
  "'f policy_engine \<Rightarrow> policy_request \<Rightarrow> 'f option \<Rightarrow> string option \<Rightarrow> evaluated_decision" where
  "evaluate_pass policy request facts space =
     (let asker = engine_decision policy request facts
      in case space of
           None \<Rightarrow> \<lparr>ed_policy = asker, ed_space = None, ed_github_denial = None\<rparr>
         | Some i \<Rightarrow>
             if i = rq_principal request then
               \<lparr>ed_policy = asker,
                ed_space = Some \<lparr>sd_id = i, sd_asker_allowed = None, sd_allowed = Some (pd_allowed asker),
                  sd_policy_ids = pd_determining asker, sd_denied_by = None\<rparr>,
                ed_github_denial = None\<rparr>
             else
               let verdict = engine_decision policy (request\<lparr>rq_principal := i\<rparr>) facts
               in \<lparr>ed_policy = merge_policy_decision asker (verdict\<lparr>pd_determining := []\<rparr>),
                   ed_space = Some \<lparr>sd_id = i, sd_asker_allowed = Some (pd_allowed asker),
                     sd_allowed = Some (pd_allowed verdict), sd_policy_ids = pd_determining verdict,
                     sd_denied_by = denying_principal (pd_allowed asker) (pd_allowed verdict)\<rparr>,
                   ed_github_denial = None\<rparr>)"

definition evaluate_step ::
  "'f policy_engine \<Rightarrow> policy_request \<Rightarrow> 'f option \<Rightarrow> string option \<Rightarrow> evaluated_decision
     \<Rightarrow> policy_context \<times> github_denial option \<Rightarrow> evaluated_decision" where
  "evaluate_step policy request facts space result e =
     (let pass = evaluate_pass policy (request\<lparr>rq_context := fst e\<rparr>) facts space
      in \<lparr>ed_policy = merge_policy_decision (ed_policy result) (ed_policy pass),
          ed_space = merge_space_decision (ed_space result) (ed_space pass),
          ed_github_denial =
            (if \<not> pd_allowed (ed_policy pass) \<and> ed_github_denial result = None then snd e
             else ed_github_denial result)\<rparr>)"

definition evaluate ::
  "'f policy_engine \<Rightarrow> policy_request \<Rightarrow> 'f option \<Rightarrow> string option \<Rightarrow> github_batch option \<Rightarrow> evaluated_decision" where
  "evaluate policy request facts space github =
     (case policy_contexts (pe_to_value policy) (rq_context request) github of
        Inl denial \<Rightarrow>
          \<lparr>ed_policy = default_decision\<lparr>pd_errors_present := True, pd_refusal := Some ''github-context''\<rparr>,
           ed_space = None, ed_github_denial = Some denial\<rparr>
      | Inr contexts \<Rightarrow>
          foldl (evaluate_step policy request facts space)
            \<lparr>ed_policy = default_decision\<lparr>pd_allowed := True\<rparr>, ed_space = None, ed_github_denial = None\<rparr> contexts)"

section \<open>Merging decisions\<close>

text \<open>What the broker relies on when it merges decisions: the merged decision allows exactly what both
  allow.\<close>

locale conjunctive_merge =
  fixes merge :: "'d \<Rightarrow> 'd \<Rightarrow> 'd" and allowed :: "'d \<Rightarrow> bool"
  assumes allowed_merge: "allowed (merge a b) \<longleftrightarrow> allowed a \<and> allowed b"
begin

lemma allowed_fold: "allowed (foldl (\<lambda>d x. merge d (f x)) d xs) \<longleftrightarrow> allowed d \<and> list_all (\<lambda>x. allowed (f x)) xs"
  by (induction xs arbitrary: d) (auto simp: allowed_merge)

lemma merge_denies: "\<not> allowed a \<Longrightarrow> \<not> allowed (merge a b)" "\<not> allowed b \<Longrightarrow> \<not> allowed (merge a b)"
  by (simp_all add: allowed_merge)

end

interpretation policy_merge: conjunctive_merge merge_policy_decision pd_allowed
  by unfold_locales (simp add: merge_policy_decision_def)

lemma ed_policy_fold:
  "ed_policy (foldl (evaluate_step policy request facts space) r cs) =
     foldl (\<lambda>d e. merge_policy_decision d
       (ed_policy (evaluate_pass policy (request\<lparr>rq_context := fst e\<rparr>) facts space))) (ed_policy r) cs"
  by (induction cs arbitrary: r) (simp_all add: evaluate_step_def Let_def)

lemma evaluate_pass_allowed:
  "pd_allowed (ed_policy (evaluate_pass policy request facts space)) \<longleftrightarrow>
     pd_allowed (engine_decision policy request facts) \<and>
     none_or space (\<lambda>i. pd_allowed (engine_decision policy (request\<lparr>rq_principal := i\<rparr>) facts))"
proof (cases space)
  case (Some i)
  have "request\<lparr>rq_principal := rq_principal request\<rparr> = request" by simp
  with Some show ?thesis
    by (auto simp: evaluate_pass_def Let_def none_or_def policy_merge.allowed_merge)
qed (simp add: evaluate_pass_def none_or_def)

text \<open>The requests one question is put to the policy as: for each event without and with the set of its
  author, by the asker and by the space.\<close>

definition asked :: "policy_request \<Rightarrow> string option \<Rightarrow> policy_request list" where
  "asked request space =
     request # (case space of None \<Rightarrow> [] | Some i \<Rightarrow> [request\<lparr>rq_principal := i\<rparr>])"

definition shown_events :: "policy_context \<Rightarrow> github_batch option \<Rightarrow> policy_context list" where
  "shown_events context github =
     (case github of
        None \<Rightarrow> [context]
      | Some batch \<Rightarrow> concat (map (\<lambda>event. [context\<lparr>px_github := Some (StrippedEvent event)\<rparr>,
          context\<lparr>px_github := Some (FullEvent event)\<rparr>]) batch))"

definition policy_passes :: "policy_request \<Rightarrow> string option \<Rightarrow> github_batch option \<Rightarrow> policy_request list" where
  "policy_passes request space github =
     concat (map (\<lambda>context. asked (request\<lparr>rq_context := context\<rparr>) space) (shown_events (rq_context request) github))"

lemma event_contexts_Inl: "event_contexts to_value c es = Inl d \<Longrightarrow> \<not> list_all to_value es"
proof (induction es)
  case (Cons e es)
  then show ?case by (cases "event_contexts to_value c es") (auto split: if_splits)
qed simp

lemma event_contexts_Inr:
  "event_contexts to_value c es = Inr cs \<Longrightarrow> list_all to_value es \<and>
     map fst cs = concat (map (\<lambda>event. [c\<lparr>px_github := Some (StrippedEvent event)\<rparr>,
       c\<lparr>px_github := Some (FullEvent event)\<rparr>]) es)"
  by (induction es arbitrary: cs) (auto simp: res_simps split: if_splits)

lemma evaluate_pass_asked:
  "pd_allowed (ed_policy (evaluate_pass policy request facts space)) \<longleftrightarrow>
     list_all (\<lambda>r. pd_allowed (engine_decision policy r facts)) (asked request space)"
  by (auto simp: evaluate_pass_allowed asked_def none_or_def split: option.splits)

lemma policy_contexts_shown:
  "policy_contexts to_value c github = Inr cs \<Longrightarrow>
     none_or github (list_all to_value) \<and> map fst cs = shown_events c github"
  using event_contexts_Inr by (auto simp: policy_contexts_def shown_events_def none_or_def split: option.splits)

lemma policy_contexts_failed: "policy_contexts to_value c github = Inl d \<Longrightarrow> \<not> none_or github (list_all to_value)"
  using event_contexts_Inl by (auto simp: policy_contexts_def none_or_def split: option.splits)

lemma evaluate_passes:
  "pd_allowed (ed_policy (evaluate policy request facts space github)) \<longleftrightarrow>
     none_or github (list_all (pe_to_value policy)) \<and>
     list_all (\<lambda>r. pd_allowed (engine_decision policy r facts)) (policy_passes request space github)"
proof (cases "policy_contexts (pe_to_value policy) (rq_context request) github")
  case (Inl d)
  with policy_contexts_failed [OF Inl] show ?thesis by (simp add: evaluate_def default_decision_def)
next
  case (Inr cs)
  have "list_all (\<lambda>e. P (fst e)) cs \<longleftrightarrow> list_all P (map fst cs)" for P by (simp add: list_all_iff)
  with policy_contexts_shown [OF Inr] Inr show ?thesis
    by (simp add: evaluate_def ed_policy_fold policy_merge.allowed_fold evaluate_pass_asked default_decision_def
        policy_passes_def list_all_iff)
qed

text \<open>C14: a question is allowed exactly when the events that come with it can all be shown to the
  policy and the policy allows every request it is put as: for each event, without and with the set
  of its author, by the asker and by the space in whose channel it was asked.\<close>

theorem evaluate_allowed_iff:
  "pd_allowed (ed_policy (evaluate policy request facts space github)) \<longleftrightarrow>
     none_or github (list_all (pe_to_value policy)) \<and>
     list_all (\<lambda>r. pd_allowed (engine_decision policy r facts)) (policy_passes request space github)"
  by (rule evaluate_passes)

end
