(* ===== verification/Broker_Authority.thy ===== *)
theory Broker_Authority
  imports Broker_Policy
begin

text \<open>
  What the broker decides about a peer and an invocation (\<open>crates/dekopon-broker/src/lib.rs\<close>):
  whose context an attestation gives (\<open>resolve_context\<close>), whether a capability may be invoked in
  it (\<open>authorize_invocation\<close>), with which secret (\<open>secret_use_or_default\<close>, \<open>bind_secret_use\<close>), what a session
  is shown, and the refusals in the order they are made. The state is the record \<open>broker\<close>; the
  policy engine is its field, SHA-256 of the smoke conversation is a field too, and the registry is what it
  answers: the command words of its providers. A panic of the source is \<open>None\<close>.
\<close>

section \<open>The broker\<close>

record 'f broker =
  bk_policy :: "'f policy_engine"
  bk_constraints :: constraint_catalog
  bk_secrets :: secret_catalog
  bk_identities :: identity_directory
  bk_memory :: "chat_memory_config option"
  bk_nonce :: string
  bk_sha256_hex :: "string \<Rightarrow> string"
  bk_command_words :: "(string \<times> string list) list"

datatype session_refusal = UnmappedSubject | AgentDenied string | OtherRefusal

record policy_evaluation =
  ev_github_denial :: "github_denial option"
  ev_errors_present :: bool
  ev_cause :: "string option"
  ev_space :: "space_decision option"

record refusal =
  rf_session :: session_refusal
  rf_reason :: string
  rf_wire :: string
  rf_policy_ids :: "string list"
  rf_evaluation :: "policy_evaluation option"

record capability_decision =
  cd_set :: constraint_set
  cd_policy_ids :: "string list"
  cd_slots :: "(chat_slot \<times> string) list"
  cd_space :: "space_decision option"
  cd_errors_present :: bool

definition CHAT_REFUSAL :: string where "CHAT_REFUSAL = ''chat-attestation-denied''"
definition CONSOLE_SMOKE_TRANSPORT :: string where "CONSOLE_SMOKE_TRANSPORT = ''console-smoke''"
definition CONSOLE_SMOKE_REFUSAL :: string where "CONSOLE_SMOKE_REFUSAL = ''console-smoke-claim-denied''"
definition CONSOLE_REAL_SCOPE_REASON :: string where "CONSOLE_REAL_SCOPE_REASON = ''console-real-scope-denied''"
definition CONSOLE_REAL_SCOPE_REFUSAL :: string where
  "CONSOLE_REAL_SCOPE_REFUSAL = ''dekopon sandbox: console sessions cannot attest a real conversation; use --smoke-conversation or the authenticated gateway''"
definition CONSOLE_SMOKE_DOMAIN :: string where "CONSOLE_SMOKE_DOMAIN = ''dekopon-console-smoke-v1'' @ [CHR 0x00]"

definition opaque :: "refusal \<Rightarrow> refusal" where
  "opaque r = r\<lparr>rf_wire := CHAT_REFUSAL\<rparr>"

definition console_real_scope_refusal :: refusal where
  "console_real_scope_refusal =
     \<lparr>rf_session = OtherRefusal, rf_reason = CONSOLE_REAL_SCOPE_REASON, rf_wire = CONSOLE_REAL_SCOPE_REFUSAL,
      rf_policy_ids = [], rf_evaluation = None\<rparr>"

definition unevaluated_refusal :: "string \<Rightarrow> refusal" where
  "unevaluated_refusal reason =
     \<lparr>rf_session = OtherRefusal, rf_reason = reason, rf_wire = reason, rf_policy_ids = [], rf_evaluation = None\<rparr>"

definition determined_refusal :: "string \<Rightarrow> string list \<Rightarrow> refusal" where
  "determined_refusal reason policy_ids =
     \<lparr>rf_session = OtherRefusal, rf_reason = reason, rf_wire = reason, rf_policy_ids = policy_ids, rf_evaluation = None\<rparr>"

definition denial_reason :: "evaluated_decision \<Rightarrow> string \<Rightarrow> string" where
  "denial_reason d denied = (if pd_errors_present (ed_policy d) then ''policy-error'' else denied)"

definition decided_refusal :: "evaluated_decision \<Rightarrow> string \<Rightarrow> refusal" where
  "decided_refusal d denied =
     (determined_refusal (denial_reason d denied) (pd_determining (ed_policy d)))
       \<lparr>rf_evaluation := Some \<lparr>ev_github_denial = ed_github_denial d,
          ev_errors_present = pd_errors_present (ed_policy d), ev_cause = pd_refusal (ed_policy d),
          ev_space = ed_space d\<rparr>\<rparr>"

section \<open>Whether a capability may be used\<close>

definition probe_admits :: "effect_kind \<Rightarrow> bool" where
  "probe_admits effect = (case effect of ReadOnly \<Rightarrow> True | LocalWrite \<Rightarrow> False | ExternalWrite \<Rightarrow> False)"

definition probe_permits :: "authenticated_context \<Rightarrow> effect_kind \<Rightarrow> bool" where
  "probe_permits cx effect \<longleftrightarrow> none_or (cx_scope cx) (\<lambda>scope. sp_trigger scope \<noteq> OnProbe) \<or> probe_admits effect"

definition storage_scope_permits :: "authenticated_context \<Rightarrow> constraint_set \<Rightarrow> bool" where
  "storage_scope_permits cx s =
     (case map_option st_scope (c_storage (cs_constraints s)) of
        Some SpaceScope \<Rightarrow> cx_space cx \<noteq> None
      | Some AgentScope \<Rightarrow> cx_space cx = None
      | _ \<Rightarrow> True)"

definition upper_byte :: "char \<Rightarrow> char" where
  "upper_byte c = (if is_ascii_lowercase c then char_of (byte c - 32) else c)"

definition to_ascii_uppercase :: "string \<Rightarrow> string" where
  "to_ascii_uppercase s = map upper_byte s"

definition api_form :: "transport_kind \<Rightarrow> string \<Rightarrow> string" where
  "api_form kind i = (case kind of OnSlack \<Rightarrow> to_ascii_uppercase i | _ \<Rightarrow> i)"

definition slot_value :: "chat_scope_claim \<Rightarrow> chat_slot \<Rightarrow> (string, string) result" where
  "slot_value scope slot =
     (case slot of
        ConversationId \<Rightarrow> Inr (api_form (sp_kind scope) (cv_id (sp_conversation scope)))
      | ConversationThread \<Rightarrow> ok_or ''request-template-slot-absent'' (cv_thread (sp_conversation scope))
      | ConversationApiChannel \<Rightarrow>
          Inr (api_form (sp_kind scope) (api_channel (sp_conversation scope) (sp_kind scope)))
      | Transport \<Rightarrow> Inr (sp_transport scope))"

definition render_chat_slots ::
  "http_constraints option \<Rightarrow> chat_scope_claim option \<Rightarrow> (string, (chat_slot \<times> string) list) result" where
  "render_chat_slots http scope =
     (case http of
        None \<Rightarrow> Inr []
      | Some h \<Rightarrow>
          if h_templates h = [] then Inr []
          else res_bind (ok_or ''chat-scope-required'' scope) (\<lambda>scope.
            collect_results (\<lambda>slot. res_bind (slot_value scope slot) (\<lambda>v. Inr (slot, v))) (http_template_slots h)))"

definition scope_github :: "authenticated_context \<Rightarrow> github_batch option" where
  "scope_github cx = Option.bind (cx_scope cx) sp_github"

definition authorize_capability ::
  "'f broker \<Rightarrow> authenticated_context \<Rightarrow> string \<Rightarrow> constraint_set \<Rightarrow> 'f option \<Rightarrow> evaluated_decision" where
  "authorize_capability b cx capability s facts =
     evaluate (bk_policy b)
       \<lparr>rq_principal = cx_principal cx,
        rq_target = TargetCapability capability (cs_provider s) (cs_effect s) (cs_risk s),
        rq_context = policy_context_of cx\<rparr> facts (cx_space cx) (scope_github cx)"

definition authorize_secret_use ::
  "'f broker \<Rightarrow> authenticated_context \<Rightarrow> string \<Rightarrow> constraint_set \<Rightarrow> secret_use_proposal \<Rightarrow> secret_selection
     \<Rightarrow> evaluated_decision" where
  "authorize_secret_use b cx capability s p selection =
     evaluate (bk_policy b)
       \<lparr>rq_principal = cx_principal cx,
        rq_target = TargetSecretUse (proposal_secret p) capability (cs_provider s) (proposal_sink p) selection,
        rq_context = policy_context_of cx\<rparr> None (cx_space cx) (scope_github cx)"

definition authorize_agent_prompt :: "'f broker \<Rightarrow> authenticated_context \<Rightarrow> string \<Rightarrow> evaluated_decision" where
  "authorize_agent_prompt b cx agent =
     evaluate (bk_policy b)
       \<lparr>rq_principal = cx_principal cx, rq_target = TargetAgentPrompt agent, rq_context = policy_context_of cx\<rparr>
       None (cx_space cx) (scope_github cx)"

definition authorize_invocation ::
  "'f broker \<Rightarrow> authenticated_context \<Rightarrow> string \<Rightarrow> (refusal, capability_decision) result" where
  "authorize_invocation b cx capability =
     (case catalog_get (bk_constraints b) capability of
        None \<Rightarrow> Inl (unevaluated_refusal ''unconstrained-capability'')
      | Some s \<Rightarrow>
          if \<not> probe_permits cx (cs_effect s) then Inl (unevaluated_refusal ''probe-write'')
          else if c_storage (cs_constraints s) \<noteq> None \<and> cx_scope cx = None
          then Inl (unevaluated_refusal ''chat-scope-required'')
          else if \<not> storage_scope_permits cx s then Inl (unevaluated_refusal ''policy-denied'')
          else res_bind (map_err unevaluated_refusal (render_chat_slots (c_http (cs_constraints s)) (cx_scope cx))) (\<lambda>slots.
            let d = authorize_capability b cx capability s None
            in if \<not> pd_allowed (ed_policy d) then Inl (decided_refusal d ''policy-denied'')
               else Inr \<lparr>cd_set = s, cd_policy_ids = pd_determining (ed_policy d), cd_slots = slots,
                 cd_space = ed_space d, cd_errors_present = pd_errors_present (ed_policy d)\<rparr>))"

section \<open>Secrets of an invocation\<close>

definition secret_use_or_default ::
  "'f broker \<Rightarrow> actor \<Rightarrow> string \<Rightarrow> secret_use_proposal option
     \<Rightarrow> (refusal, secret_use_proposal option) result option" where
  "secret_use_or_default b a capability proposed =
     (case proposed of
        Some p \<Rightarrow> Some (Inr (Some p))
      | None \<Rightarrow>
          (case catalog_get (bk_constraints b) capability of
             None \<Rightarrow> Some (Inr None)
           | Some s \<Rightarrow>
               (case effective_default (bk_constraints b) s a of
                  None \<Rightarrow> Some (Inr None)
                | Some (secret, sink) \<Rightarrow>
                    (case default_binding (bk_secrets b) capability secret sink of
                       None \<Rightarrow> Some (Inl (unevaluated_refusal ''secret-denied''))
                     | Some binding \<Rightarrow> map_option (\<lambda>p. Inr (Some p)) (binding_proposal binding)))))"

definition effective_default_proposal ::
  "'f broker \<Rightarrow> actor \<Rightarrow> string \<Rightarrow> secret_use_proposal option option" where
  "effective_default_proposal b a capability =
     (case catalog_get (bk_constraints b) capability of
        None \<Rightarrow> Some None
      | Some s \<Rightarrow>
          (case effective_default (bk_constraints b) s a of
             None \<Rightarrow> Some None
           | Some (secret, sink) \<Rightarrow>
               (case default_binding (bk_secrets b) capability secret sink of
                  None \<Rightarrow> Some None
                | Some binding \<Rightarrow> map_option Some (binding_proposal binding))))"

definition selection :: "'f broker \<Rightarrow> actor \<Rightarrow> string \<Rightarrow> secret_use_proposal \<Rightarrow> secret_selection option" where
  "selection b a capability p =
     map_option (\<lambda>d. if d = Some p then SelectDefault else SelectProposed) (effective_default_proposal b a capability)"

definition set_secret_use :: "secret_use_grant option \<Rightarrow> capability_decision \<Rightarrow> capability_decision" where
  "set_secret_use g d =
     d\<lparr>cd_set := (cd_set d)\<lparr>cs_constraints := (cs_constraints (cd_set d))\<lparr>c_secret_use := g\<rparr>\<rparr>\<rparr>"

text \<open>The decision is changed in place also where the use is refused.\<close>

definition bind_secret_use ::
  "'f broker \<Rightarrow> authenticated_context \<Rightarrow> string \<Rightarrow> capability_decision \<Rightarrow> secret_use_proposal option
     \<Rightarrow> (capability_decision \<times> (refusal, unit) result) option" where
  "bind_secret_use b cx capability d secret_use =
     (case secret_use of
        None \<Rightarrow> Some (set_secret_use None d, Inr ())
      | Some p \<Rightarrow>
          (case secret_binding (bk_secrets b) capability p of
             None \<Rightarrow> Some (d, Inl (determined_refusal ''secret-denied'' (cd_policy_ids d)))
           | Some binding \<Rightarrow>
               map_option (\<lambda>chosen.
                 let sd = authorize_secret_use b cx capability (cd_set d) p chosen;
                     d' = d\<lparr>cd_errors_present := cd_errors_present d \<or> pd_errors_present (ed_policy sd),
                            cd_space := merge_space_decision (cd_space d) (ed_space sd),
                            cd_policy_ids := sort_dedup (cd_policy_ids d @ pd_determining (ed_policy sd))\<rparr>
                 in if \<not> pd_allowed (ed_policy sd) then
                      (d', Inl ((determined_refusal ''secret-denied'' (cd_policy_ids d'))
                        \<lparr>rf_evaluation := Some \<lparr>ev_github_denial = ed_github_denial sd,
                           ev_errors_present = pd_errors_present (ed_policy sd), ev_cause = None,
                           ev_space = cd_space d'\<rparr>\<rparr>))
                    else (set_secret_use (Some (catalog_grant (bk_secrets b) binding)) d', Inr ()))
                 (selection b (cx_actor cx) capability p)))"

section \<open>What a session is shown\<close>

definition authorized_sets :: "'f broker \<Rightarrow> authenticated_context \<Rightarrow> (string \<times> constraint_set) list" where
  "authorized_sets b cx =
     filter (\<lambda>(capability, s).
       cs_route s = Generic \<and> storage_scope_permits cx s
       \<and> (c_storage (cs_constraints s) = None \<or> cx_scope cx \<noteq> None)
       \<and> is_ok (render_chat_slots (c_http (cs_constraints s)) (cx_scope cx))
       \<and> probe_permits cx (cs_effect s)
       \<and> pd_allowed (ed_policy (authorize_capability b cx capability s None))) (sets (bk_constraints b))"

definition reachable_providers ::
  "'f broker \<Rightarrow> authenticated_context \<Rightarrow> (string \<times> constraint_set) list \<Rightarrow> string list" where
  "reachable_providers b cx authorized =
     (let reachable = sort_dedup (map (\<lambda>(_, s). cs_provider s) authorized);
          storage_providers = sort_dedup (map cs_provider
            (filter (\<lambda>s. c_storage (cs_constraints s) \<noteq> None) (map snd (sets (bk_constraints b)))));
          reserved = chat_memory_provider (bk_constraints b)
      in filter (\<lambda>provider. Some provider \<noteq> reserved
           \<and> (cx_scope cx \<noteq> None \<or> provider \<notin> set storage_providers)) reachable)"

definition reachable_command_words ::
  "'f broker \<Rightarrow> authenticated_context \<Rightarrow> (string \<times> constraint_set) list \<Rightarrow> string list" where
  "reachable_command_words b cx authorized =
     (let reachable = reachable_providers b cx authorized
      in sort_dedup (concat (map snd (filter (\<lambda>(provider, _). provider \<in> set reachable) (bk_command_words b)))))"

definition command_words :: "'f broker \<Rightarrow> authenticated_context \<Rightarrow> string list" where
  "command_words b cx = reachable_command_words b cx (authorized_sets b cx)"

definition broker_route :: "'f broker \<Rightarrow> string \<Rightarrow> capability_route" where
  "broker_route b capability =
     (case catalog_get (bk_constraints b) capability of None \<Rightarrow> Generic | Some s \<Rightarrow> cs_route s)"

definition chat_memory_words :: "'f broker \<Rightarrow> string list" where
  "chat_memory_words b =
     (case chat_memory_provider (bk_constraints b) of
        None \<Rightarrow> []
      | Some provider \<Rightarrow> concat (map snd (filter (\<lambda>(candidate, _). candidate = provider) (bk_command_words b))))"

definition is_chat_memory_word :: "'f broker \<Rightarrow> string \<Rightarrow> bool" where
  "is_chat_memory_word b word \<longleftrightarrow> list_ex (\<lambda>v. v = word) (chat_memory_words b)"

text \<open>The surface is the number of turns that may be looked back on; its prompt note is a constant.\<close>

definition memory_surface :: "'f broker \<Rightarrow> authenticated_context \<Rightarrow> string \<Rightarrow> nat option" where
  "memory_surface b cx agent =
     (case bk_memory b of
        None \<Rightarrow> None
      | Some config \<Rightarrow>
          if \<not> enabled_for config agent \<or> cx_scope cx = None then None
          else if list_all (\<lambda>route. case routed (bk_constraints b) route of
                    None \<Rightarrow> False
                  | Some (capability, s) \<Rightarrow> pd_allowed (ed_policy (authorize_capability b cx capability s None))) CHAT_MEMORY
          then Some (mc_max_lookback_turns config) else None)"

section \<open>What is shown is what would be authorized\<close>

definition capability_request :: "authenticated_context \<Rightarrow> string \<Rightarrow> constraint_set \<Rightarrow> policy_request" where
  "capability_request cx capability s =
     \<lparr>rq_principal = cx_principal cx,
      rq_target = TargetCapability capability (cs_provider s) (cs_effect s) (cs_risk s),
      rq_context = policy_context_of cx\<rparr>"

definition policy_allows :: "'f broker \<Rightarrow> authenticated_context \<Rightarrow> policy_request \<Rightarrow> bool" where
  "policy_allows b cx request \<longleftrightarrow>
     none_or (scope_github cx) (list_all (pe_to_value (bk_policy b))) \<and>
     list_all (\<lambda>r. pd_allowed (pe_authorize (bk_policy b) r)) (policy_passes request (cx_space cx) (scope_github cx))"

lemma engine_plain: "engine_decision policy r None = pe_authorize policy r"
  by (simp add: engine_decision_def)

lemma capability_allowed:
  "pd_allowed (ed_policy (authorize_capability b cx capability s None)) \<longleftrightarrow>
     policy_allows b cx (capability_request cx capability s)"
  unfolding authorize_capability_def capability_request_def policy_allows_def evaluate_passes engine_plain ..

lemma prompt_allowed:
  "pd_allowed (ed_policy (authorize_agent_prompt b cx agent)) \<longleftrightarrow>
     policy_allows b cx \<lparr>rq_principal = cx_principal cx, rq_target = TargetAgentPrompt agent,
       rq_context = policy_context_of cx\<rparr>"
  unfolding authorize_agent_prompt_def policy_allows_def evaluate_passes engine_plain ..

lemma secret_allowed:
  "pd_allowed (ed_policy (authorize_secret_use b cx capability s p chosen)) \<longleftrightarrow>
     policy_allows b cx \<lparr>rq_principal = cx_principal cx,
       rq_target = TargetSecretUse (proposal_secret p) capability (cs_provider s) (proposal_sink p) chosen,
       rq_context = policy_context_of cx\<rparr>"
  unfolding authorize_secret_use_def policy_allows_def evaluate_passes engine_plain ..

lemma authorize_invocation_iff:
  "is_ok (authorize_invocation b cx capability) \<longleftrightarrow>
     some_and (catalog_get (bk_constraints b) capability) (\<lambda>s.
       probe_permits cx (cs_effect s) \<and> (c_storage (cs_constraints s) = None \<or> cx_scope cx \<noteq> None) \<and>
       storage_scope_permits cx s \<and> is_ok (render_chat_slots (c_http (cs_constraints s)) (cx_scope cx)) \<and>
       policy_allows b cx (capability_request cx capability s))"
proof (cases "catalog_get (bk_constraints b) capability")
  case (Some s)
  show ?thesis
    by (cases "render_chat_slots (c_http (cs_constraints s)) (cx_scope cx)")
      (auto simp: authorize_invocation_def Some some_and_def Let_def capability_allowed)
qed (simp add: authorize_invocation_def some_and_def)

lemma authorize_invocation_set:
  "authorize_invocation b cx capability = Inr d \<Longrightarrow> catalog_get (bk_constraints b) capability = Some (cd_set d)"
  by (auto simp: authorize_invocation_def Let_def res_simps split: option.splits if_splits)

text \<open>C15: what a session is shown is what an invocation would be authorized for: a constraint set is
  among the authorized sets exactly when it is the set of its capability in the catalog, is not
  reserved for chat memory, and invoking the capability in this context is authorized.\<close>

theorem shown_exactly_authorized:
  assumes "sorted_wrt (<) (map fst (sets (bk_constraints b)))"
  shows "(capability, s) \<in> set (authorized_sets b cx) \<longleftrightarrow>
    catalog_get (bk_constraints b) capability = Some s \<and> cs_route s = Generic \<and>
    is_ok (authorize_invocation b cx capability)"
proof -
  have "distinct (map fst (sets (bk_constraints b)))" using assms by (rule sorted_keys_distinct)
  then have "(capability, s) \<in> set (sets (bk_constraints b)) \<longleftrightarrow> catalog_get (bk_constraints b) capability = Some s"
    by (simp add: catalog_get_def)
  then show ?thesis
    by (auto simp: authorized_sets_def authorize_invocation_iff some_and_def capability_allowed)
qed

definition permissive :: "unit policy_engine" where
  "permissive = \<lparr>pe_authorize = (\<lambda>_. default_decision\<lparr>pd_allowed := True\<rparr>),
     pe_authorize_http = (\<lambda>_ _. default_decision\<lparr>pd_allowed := True\<rparr>), pe_to_value = (\<lambda>_. True)\<rparr>"

definition sample_broker :: "unit broker" where
  "sample_broker = \<lparr>bk_policy = permissive, bk_constraints = sample_catalog, bk_secrets = sample_secrets,
     bk_identities = [(slack_user, ''alice'')], bk_memory = None, bk_nonce = [], bk_sha256_hex = (\<lambda>_. []),
     bk_command_words = []\<rparr>"

definition bob_context :: authenticated_context where
  "bob_context = \<lparr>cx_principal = ''alice'', cx_actor = AgentActor ''bob'', cx_via = Some ''gateway'',
     cx_subject = Some slack_user, cx_scope = None, cx_space = None\<rparr>"

lemma sample_allows: "bk_policy b = permissive \<Longrightarrow> policy_allows b cx r"
  by (simp add: policy_allows_def permissive_def default_decision_def list_all_iff none_or_def split: option.splits)

lemma sample_authorized: "is_ok (authorize_invocation sample_broker bob_context ''issues'')"
  unfolding authorize_invocation_iff
  by (simp add: sample_broker_def sample_catalog_def catalog_get_def some_and_def sample_set_def sample_http_def
      default_constraints_def probe_permits_def none_or_def bob_context_def storage_scope_permits_def
      render_chat_slots_def sample_allows)

theorem shown_exactly_authorized_witness:
  "(''issues'', sample_set) \<in> set (authorized_sets sample_broker bob_context)"
proof -
  have sorted: "sorted_wrt (<) (map fst (sets (bk_constraints sample_broker)))"
    by (simp add: sample_broker_def sample_catalog_def)
  have "catalog_get (bk_constraints sample_broker) ''issues'' = Some sample_set" "cs_route sample_set = Generic"
    by (simp_all add: sample_broker_def sample_catalog_def catalog_get_def sample_set_def)
  with shown_exactly_authorized [OF sorted] sample_authorized show ?thesis by blast
qed

section \<open>Secrets are settled without panic\<close>

lemma default_settled:
  assumes "secrets_served (bk_secrets b) (bk_constraints b)"
    and "catalog_get (bk_constraints b) capability = Some s"
    and "effective_default (bk_constraints b) s a = Some (secret, sink)"
  shows "\<exists>binding p. default_binding (bk_secrets b) capability secret sink = Some binding \<and>
    binding_proposal binding = Some p \<and> secret_binding (bk_secrets b) capability p = Some binding"
proof -
  have "(capability, s) \<in> set (sets (bk_constraints b))"
    using assms(2) by (simp add: catalog_get_def map_of_SomeD)
  from served_default_binding [OF assms(1) this assms(3)] show ?thesis by blast
qed

lemma default_proposal_settled:
  assumes "secrets_served (bk_secrets b) (bk_constraints b)"
    and "catalog_get (bk_constraints b) capability = Some s"
    and "effective_default (bk_constraints b) s a = Some (secret, sink)"
  obtains binding p where "default_binding (bk_secrets b) capability secret sink = Some binding"
    "binding_proposal binding = Some p"
  using default_settled [OF assms] by blast

lemma secret_settled:
  assumes "secrets_served (bk_secrets b) (bk_constraints b)"
  shows "\<exists>p. secret_use_or_default b a capability proposed = Some (Inr p)"
proof (cases "Option.bind (catalog_get (bk_constraints b) capability) (\<lambda>s. effective_default (bk_constraints b) s a)")
  case None
  then show ?thesis by (auto simp: secret_use_or_default_def split: option.splits)
next
  case (Some e)
  then obtain s secret sink where s: "catalog_get (bk_constraints b) capability = Some s"
    "effective_default (bk_constraints b) s a = Some (secret, sink)" by (cases e) (auto simp: bind_eq_Some_conv)
  then obtain binding p where "default_binding (bk_secrets b) capability secret sink = Some binding"
    "binding_proposal binding = Some p" by (rule default_proposal_settled [OF assms])
  with s show ?thesis by (simp add: secret_use_or_default_def split: option.splits)
qed

lemma selection_settled:
  assumes "secrets_served (bk_secrets b) (bk_constraints b)"
  shows "\<exists>chosen. selection b a capability p = Some chosen"
proof (cases "Option.bind (catalog_get (bk_constraints b) capability) (\<lambda>s. effective_default (bk_constraints b) s a)")
  case None
  then show ?thesis by (auto simp: selection_def effective_default_proposal_def split: option.splits)
next
  case (Some e)
  then obtain s secret sink where s: "catalog_get (bk_constraints b) capability = Some s"
    "effective_default (bk_constraints b) s a = Some (secret, sink)" by (cases e) (auto simp: bind_eq_Some_conv)
  then obtain binding q where "default_binding (bk_secrets b) capability secret sink = Some binding"
    "binding_proposal binding = Some q" by (rule default_proposal_settled [OF assms])
  with s show ?thesis by (simp add: selection_def effective_default_proposal_def)
qed

text \<open>What binding a secret may end in: no secret, a refusal, or the grant of the catalog after the
  policy allowed the use.\<close>

lemma bind_secret_use_cases:
  assumes "secrets_served (bk_secrets b) (bk_constraints b)"
  obtains (unused) "secret_use = None" "bind_secret_use b cx capability d secret_use = Some (set_secret_use None d, Inr ())"
  | (refused) d' r where "bind_secret_use b cx capability d secret_use = Some (d', Inl r)" "cd_set d' = cd_set d"
  | (bound) p binding chosen d' where "secret_use = Some p" "secret_binding (bk_secrets b) capability p = Some binding"
      "bind_secret_use b cx capability d secret_use =
         Some (set_secret_use (Some (catalog_grant (bk_secrets b) binding)) d', Inr ())"
      "pd_allowed (ed_policy (authorize_secret_use b cx capability (cd_set d) p chosen))"
      "cd_set d' = cd_set d" "selection b (cx_actor cx) capability p = Some chosen"
proof (cases secret_use)
  case None
  then show ?thesis using unused by (simp add: bind_secret_use_def)
next
  case (Some p)
  show ?thesis
  proof (cases "secret_binding (bk_secrets b) capability p")
    case None
    then show ?thesis using refused Some by (simp add: bind_secret_use_def)
  next
    case (Some binding)
    obtain chosen where c: "selection b (cx_actor cx) capability p = Some chosen"
      using selection_settled [OF assms] by blast
    let ?sd = "authorize_secret_use b cx capability (cd_set d) p chosen"
    define d' where "d' = d\<lparr>cd_errors_present := cd_errors_present d \<or> pd_errors_present (ed_policy ?sd),
      cd_space := merge_space_decision (cd_space d) (ed_space ?sd),
      cd_policy_ids := sort_dedup (cd_policy_ids d @ pd_determining (ed_policy ?sd))\<rparr>"
    have same: "cd_set d' = cd_set d" by (simp add: d'_def)
    show ?thesis
    proof (cases "pd_allowed (ed_policy ?sd)")
      case True
      then have "bind_secret_use b cx capability d secret_use =
          Some (set_secret_use (Some (catalog_grant (bk_secrets b) binding)) d', Inr ())"
        using Some \<open>secret_use = Some p\<close> c by (simp add: bind_secret_use_def Let_def d'_def)
      from bound [OF \<open>secret_use = Some p\<close> Some this True same c] show ?thesis .
    next
      case False
      then obtain r where "bind_secret_use b cx capability d secret_use = Some (d', Inl r)"
        using Some \<open>secret_use = Some p\<close> c by (simp add: bind_secret_use_def Let_def d'_def)
      from refused [OF this same] show ?thesis .
    qed
  qed
qed

end
