(* ===== verification/Broker_Invoke.thy ===== *)
theory Broker_Invoke
  imports Broker_Authority
begin

text \<open>
  From the peer to the gate (\<open>crates/dekopon-broker/src/lib.rs\<close>): the context an attestation gives
  its peer (\<open>resolve_context\<close>), the refusals of \<open>invoke\<close> and \<open>record_delivered_turn\<close> in
  the order they are made, and the authorization at the head of \<open>invoke_inner\<close>, whose outcome \<open>execute\<close>
  takes to the gate. The input of an invocation is a JSON value. The lemmas show who a resolved context
  speaks for, that recording a turn is not reachable by \<open>invoke\<close>, and that what is authorized
  passes the gate.
\<close>

section \<open>The console's smoke conversation\<close>

definition console_real_scope_refused :: "authenticated_context \<Rightarrow> attestation \<Rightarrow> bool" where
  "console_real_scope_refused peer claim \<longleftrightarrow>
     cx_principal peer = ''dekopon-console''
     \<and> some_and (at_scope claim) (\<lambda>scope. sp_transport scope \<noteq> CONSOLE_SMOKE_TRANSPORT)"

definition console_smoke_conversation :: "'f broker \<Rightarrow> string \<Rightarrow> subject \<Rightarrow> string \<Rightarrow> string" where
  "console_smoke_conversation b via subject agent =
     ''smoke-'' @ bk_sha256_hex b (CONSOLE_SMOKE_DOMAIN @ bk_nonce b
       @ concat (map (\<lambda>part. part @ [CHR 0x00]) [via, canonical subject, agent]))"

definition is_console_smoke_literal :: "chat_scope_claim \<Rightarrow> bool" where
  "is_console_smoke_literal scope \<longleftrightarrow>
     sp_kind scope = OnLocal \<and> cv_kind (sp_conversation scope) = DirectMessage
     \<and> cv_container (sp_conversation scope) = None \<and> cv_id (sp_conversation scope) = CONSOLE_SMOKE_TRANSPORT
     \<and> cv_thread (sp_conversation scope) = None \<and> sp_trigger scope = OnMessage
     \<and> sp_delivery scope = None \<and> sp_github scope = None"

definition console_smoke_delivery :: "chat_scope_claim \<Rightarrow> delivery_identity \<Rightarrow> delivery_identity" where
  "console_smoke_delivery scope placeholder =
     (case placeholder of
        DeliveredLocal _ _ boot_nonce connection sequence \<Rightarrow>
          DeliveredLocal (sp_transport scope) (conversation_key (sp_conversation scope)) boot_nonce connection sequence
      | _ \<Rightarrow> placeholder)"

section \<open>Who a peer speaks for\<close>

text \<open>A mapped space is spoken for only by a wake or a probe of its own channel.\<close>

definition space_claim_ok :: "attestation \<Rightarrow> bool" where
  "space_claim_ok claim \<longleftrightarrow>
     some_and (at_scope claim) (\<lambda>scope.
       (case sp_trigger scope of OnWake \<Rightarrow> True | OnProbe \<Rightarrow> True | OnMessage \<Rightarrow> False | OnJob \<Rightarrow> False)
       \<and> sp_participant scope = None \<and> sp_github scope = None \<and> sp_delivery scope = None
       \<and> space_subject scope = Some (attested_name (at_subjects claim)))"

definition derived_scope ::
  "'f broker \<Rightarrow> authenticated_context \<Rightarrow> attestation \<Rightarrow> (string, chat_scope_claim option) result" where
  "derived_scope b peer claim =
     (case at_scope claim of
        Some scope \<Rightarrow>
          if sp_transport scope = CONSOLE_SMOKE_TRANSPORT then
            if \<not> is_console_smoke_literal scope then Inl CONSOLE_SMOKE_REFUSAL
            else Inr (Some (scope\<lparr>sp_conversation := (sp_conversation scope)\<lparr>cv_id :=
              console_smoke_conversation b (cx_principal peer) (attested_name (at_subjects claim)) (at_agent claim)\<rparr>\<rparr>))
          else Inr (Some scope)
      | None \<Rightarrow> Inr None)"

definition github_claim_ok :: "subject \<Rightarrow> chat_scope_claim \<Rightarrow> github_batch \<Rightarrow> bool" where
  "github_claim_ok name scope batch \<longleftrightarrow>
     (let full_name = (case subject_tenant name of Some owner \<Rightarrow> owner @ ''/'' @ s_id name | None \<Rightarrow> [])
      in \<not> (sp_kind scope \<noteq> OnGithub
            \<or> sp_trigger scope \<noteq> OnMessage
            \<or> sp_delivery scope \<noteq> Some (DeliveredGithub (ev_delivery (lead batch)))
            \<or> list_ex (\<lambda>event. ev_full_name event \<noteq> full_name
                 \<or> cv_thread (sp_conversation scope) \<noteq> Some (thread_display (event_thread event))) batch))"

definition scope_claim_ok :: "subject \<Rightarrow> chat_scope_claim \<Rightarrow> bool" where
  "scope_claim_ok name scope \<longleftrightarrow>
     is_canonical_for (sp_conversation scope) (sp_kind scope) name
     \<and> none_or (sp_delivery scope) (\<lambda>delivery. delivery_canonical_for delivery scope)
     \<and> none_or (sp_github scope) (github_claim_ok name scope)"

definition context_space :: "'f broker \<Rightarrow> authenticated_context \<Rightarrow> string option" where
  "context_space b cx =
     Option.bind (Option.bind (cx_scope cx) space_subject) (\<lambda>subject.
     Option.bind (resolve (bk_identities b) subject) (\<lambda>mapped.
       if directory_principal_kind (bk_identities b) mapped = Space then Some mapped else None))"

definition prompt_refusal :: "evaluated_decision \<Rightarrow> string \<Rightarrow> refusal" where
  "prompt_refusal d who =
     (let named_denial = \<not> pd_errors_present (ed_policy d)
            \<and> (case Option.bind (ed_space d) sd_denied_by of Some DenySpace \<Rightarrow> False | _ \<Rightarrow> True);
          r = decided_refusal d ''agent-denied''
      in if named_denial then r\<lparr>rf_session := AgentDenied who\<rparr> else r)"

definition resolve_context ::
  "'f broker \<Rightarrow> authenticated_context \<Rightarrow> attestor_grant option \<Rightarrow> attestation
     \<Rightarrow> authenticated_context \<times> refusal option" where
  "resolve_context b peer grant claim =
     (let name = attested_name (at_subjects claim);
          refused = (with_refused_subject peer name)\<lparr>cx_scope := at_scope claim\<rparr>;
          refuse = (\<lambda>r. (refused, Some r));
          deny = refuse (unevaluated_refusal ''attestation-denied'')
      in case grant of
           None \<Rightarrow> deny
         | Some g \<Rightarrow>
             if console_real_scope_refused peer claim then refuse console_real_scope_refusal
             else case resolve_attested (bk_identities b) (at_subjects claim) of
               Inl split \<Rightarrow>
                 if \<not> permits g (at_subjects claim) then deny else refuse (unevaluated_refusal ''split-subject'')
             | Inr None \<Rightarrow>
                 refuse (if permits g (at_subjects claim)
                   then (unevaluated_refusal ''unmapped-subject'')\<lparr>rf_session := UnmappedSubject\<rparr>
                   else unevaluated_refusal ''unmapped-subject'')
             | Inr (Some who) \<Rightarrow>
                 if directory_principal_kind (bk_identities b) who = Space \<and> \<not> space_claim_ok claim then deny
                 else if \<not> permits g (at_subjects claim) then deny
                 else case derived_scope b peer claim of
                   Inl reason \<Rightarrow> refuse (unevaluated_refusal reason)
                 | Inr scope \<Rightarrow>
                     if \<not> none_or scope (scope_claim_ok name) then deny
                     else case (case scope of
                         Some scope \<Rightarrow>
                           context_attested_chat who (AgentActor (at_agent claim)) (cx_principal peer) name scope
                       | None \<Rightarrow> context_attested who (AgentActor (at_agent claim)) (cx_principal peer) name) of
                       Inl _ \<Rightarrow> deny
                     | Inr cx \<Rightarrow>
                         let cx = cx\<lparr>cx_space := context_space b cx\<rparr>;
                             d = authorize_agent_prompt b cx (at_agent claim)
                         in if pd_allowed (ed_policy d) then (cx, None) else (cx, Some (prompt_refusal d who)))"

section \<open>Requests\<close>

datatype json =
    JNull | JBool bool | JUnsigned nat | JNumber string | JString string | JArray "json list"
  | JObject "(string \<times> json) list"

record invocation_request =
  ir_id :: string
  ir_capability :: string
  ir_trace_parent :: string
  ir_secret_use :: "secret_use_proposal option"
  ir_input :: json

definition only_field :: "string \<Rightarrow> json \<Rightarrow> json option" where
  "only_field k input =
     (case input of JObject object \<Rightarrow> if length object = 1 then map_of object k else None | _ \<Rightarrow> None)"

definition curate_memory_input ::
  "'f broker \<Rightarrow> capability_route \<Rightarrow> invocation_request \<Rightarrow> (string, invocation_request) result" where
  "curate_memory_input b route request =
     res_bind (ok_or ''memory-unavailable'' (bk_memory b)) (\<lambda>config.
       case route of
         ChatMemoryRecent \<Rightarrow>
           (case only_field ''last'' (ir_input request) of
              Some (JUnsigned last_turns) \<Rightarrow>
                if last_turns > 0 \<and> last_turns \<le> mc_max_recent_turns config then
                  Inr (request\<lparr>ir_input := JObject
                    [(''operation'', JString ''recent''), (''last'', JUnsigned last_turns),
                     (''maxLookbackTurns'', JUnsigned (mc_max_lookback_turns config)),
                     (''maxRecentTurns'', JUnsigned (mc_max_recent_turns config)),
                     (''maxResultBytes'', JUnsigned (mc_max_result_bytes config))]\<rparr>)
                else Inl ''invalid-memory-input''
            | _ \<Rightarrow> Inl ''invalid-memory-input'')
       | ChatMemorySearch \<Rightarrow>
           (case only_field ''query'' (ir_input request) of
              Some (JString query) \<Rightarrow>
                if query \<noteq> [] \<and> length query \<le> mc_max_query_bytes config then
                  Inr (request\<lparr>ir_input := JObject
                    [(''operation'', JString ''search''), (''query'', JString query),
                     (''maxLookbackTurns'', JUnsigned (mc_max_lookback_turns config)),
                     (''maxSearchResults'', JUnsigned (mc_max_search_results config)),
                     (''maxResultBytes'', JUnsigned (mc_max_result_bytes config))]\<rparr>)
                else Inl ''invalid-memory-input''
            | _ \<Rightarrow> Inl ''invalid-memory-input'')
       | _ \<Rightarrow> Inl ''invalid-memory-input'')"

definition opaque_unless_console :: "refusal \<Rightarrow> refusal" where
  "opaque_unless_console r = (if rf_reason r = CONSOLE_REAL_SCOPE_REASON then r else opaque r)"

text \<open>The context, refusal and request with which \<open>invoke\<close> calls \<open>invoke_inner\<close>.\<close>

definition invoke_refusal ::
  "'f broker \<Rightarrow> authenticated_context \<Rightarrow> attestor_grant option \<Rightarrow> attestation option \<Rightarrow> invocation_request
     \<Rightarrow> authenticated_context \<times> refusal option \<times> invocation_request" where
  "invoke_refusal b peer grant claim request =
     (let (cx, refusal) = (case claim of Some c \<Rightarrow> resolve_context b peer grant c | None \<Rightarrow> (peer, None));
          chat = Option.bind claim (\<lambda>c. if at_scope c \<noteq> None then Some c else None);
          refusal = (if chat \<noteq> None then map_option opaque_unless_console refusal else refusal);
          refusal = (case (chat, refusal) of
              (Some c, None) \<Rightarrow> if \<not> binds c (ir_id request) then Some (unevaluated_refusal CHAT_REFUSAL) else None
            | _ \<Rightarrow> refusal);
          route = broker_route b (ir_capability request)
      in case refusal of
           Some r \<Rightarrow> (cx, Some r, request)
         | None \<Rightarrow>
             (case chat of
                Some c \<Rightarrow>
                  (case route of
                     Generic \<Rightarrow> (cx, None, request)
                   | ChatMemoryRecord \<Rightarrow> (cx, Some (unevaluated_refusal ''record-operation-required''), request)
                   | _ \<Rightarrow>
                       if memory_surface b cx (at_agent c) = None
                       then (cx, Some (unevaluated_refusal ''memory-unavailable''), request)
                       else (case curate_memory_input b route request of
                               Inl reason \<Rightarrow> (cx, Some (unevaluated_refusal reason), request)
                             | Inr request \<Rightarrow> (cx, None, request)))
              | None \<Rightarrow>
                  if is_chat_memory route then (cx, Some (unevaluated_refusal ''chat-scope-required''), request)
                  else (cx, None, request)))"

definition record_refusal ::
  "'f broker \<Rightarrow> authenticated_context \<Rightarrow> attestor_grant option \<Rightarrow> attestation \<Rightarrow> delivered_turn
     \<Rightarrow> authenticated_context \<times> refusal option \<times> delivered_turn" where
  "record_refusal b peer grant claim turn =
     (let (cx, claim_refusal) = resolve_context b peer grant claim;
          turn = (case cx_scope cx of
              Some scope \<Rightarrow>
                if sp_transport scope = CONSOLE_SMOKE_TRANSPORT
                then turn\<lparr>dt_delivery := console_smoke_delivery scope (dt_delivery turn)\<rparr> else turn
            | None \<Rightarrow> turn);
          refusal = (case claim_refusal of
              Some r \<Rightarrow> Some (opaque_unless_console r)
            | None \<Rightarrow>
                if \<not> binds claim (dt_id turn) then Some (unevaluated_refusal CHAT_REFUSAL)
                else if memory_surface b cx (at_agent claim) = None then Some (unevaluated_refusal ''memory-unavailable'')
                else if \<not> turn_bounded turn
                     \<or> \<not> some_and (cx_scope cx) (\<lambda>scope. delivery_canonical_for (dt_delivery turn) scope)
                then Some (unevaluated_refusal ''invalid-turn'') else None)
      in (cx, refusal, turn))"

text \<open>The authorization of \<open>invoke_inner\<close>: the request with its secret settled, and the refusal
  that is denied or the decision that is executed.\<close>

definition invoke_authorize ::
  "'f broker \<Rightarrow> authenticated_context \<Rightarrow> invocation_request \<Rightarrow> refusal option
     \<Rightarrow> (invocation_request \<times> (refusal, capability_decision) result) option" where
  "invoke_authorize b cx request refusal =
     (case refusal of
        Some r \<Rightarrow> Some (request, Inl r)
      | None \<Rightarrow>
          Option.bind (secret_use_or_default b (cx_actor cx) (ir_capability request) (ir_secret_use request)) (\<lambda>r.
            case r of
              Inl refusal \<Rightarrow> Some (request\<lparr>ir_secret_use := None\<rparr>, Inl refusal)
            | Inr secret_use \<Rightarrow>
                let request = request\<lparr>ir_secret_use := secret_use\<rparr>
                in case authorize_invocation b cx (ir_capability request) of
                     Inl refusal \<Rightarrow> Some (request, Inl refusal)
                   | Inr d \<Rightarrow>
                       map_option (\<lambda>(d, bound). (request, case bound of Inl refusal \<Rightarrow> Inl refusal | Inr _ \<Rightarrow> Inr d))
                         (bind_secret_use b cx (ir_capability request) d secret_use)))"

definition allow_proposal ::
  "authenticated_context \<Rightarrow> invocation_request \<Rightarrow> json proposed_invocation" where
  "allow_proposal cx request =
     \<lparr>p_id = ir_id request, p_capability = ir_capability request, p_actor = cx_actor cx,
      p_trace = ir_trace_parent request, p_secret_use = ir_secret_use request, p_input = ir_input request\<rparr>"

section \<open>A resolved context\<close>

lemma resolve_attested_agrees:
  assumes "resolve_attested m subjects = Inr (Some who)"
  shows "list_all (\<lambda>s. resolve m s \<in> {None, Some who}) (attested_forms subjects) \<and>
    list_ex (\<lambda>s. resolve m s = Some who) (attested_forms subjects)"
  using assms
  by (cases subjects) (auto simp: resolve_attested_def attested_forms_def Let_def split: option.splits if_splits)

text \<open>C16: a context that is resolved without refusal speaks for whom the attestor may speak: a grant
  permits every form of the subject, all forms that are mapped are mapped to the principal of the
  context, and one is; the context acts as the attested agent on behalf of the peer; a space is
  spoken for only by its own wakes and probes; the conversation and its delivery are canonical; and the
  policy allows the principal, and the space of the channel, to prompt the agent.\<close>

theorem resolved_context_speaks_for:
  assumes "resolve_context b peer grant claim = (cx, None)"
  shows "some_and grant (\<lambda>g. permits g (at_subjects claim)) \<and>
    list_all (\<lambda>s. resolve (bk_identities b) s \<in> {None, Some (cx_principal cx)}) (attested_forms (at_subjects claim)) \<and>
    list_ex (\<lambda>s. resolve (bk_identities b) s = Some (cx_principal cx)) (attested_forms (at_subjects claim)) \<and>
    cx_actor cx = AgentActor (at_agent claim) \<and> cx_via cx = Some (cx_principal peer) \<and>
    cx_subject cx = Some (attested_name (at_subjects claim)) \<and>
    (directory_principal_kind (bk_identities b) (cx_principal cx) = Space \<longrightarrow> space_claim_ok claim) \<and>
    none_or (cx_scope cx) (scope_claim_ok (attested_name (at_subjects claim))) \<and>
    policy_allows b cx \<lparr>rq_principal = cx_principal cx, rq_target = TargetAgentPrompt (at_agent claim),
      rq_context = policy_context_of cx\<rparr>"
proof -
  from assms obtain g where g: "grant = Some g" by (cases grant) (auto simp: resolve_context_def Let_def)
  from assms g have real: "\<not> console_real_scope_refused peer claim" by (auto simp: resolve_context_def Let_def)
  from assms g real obtain who where who: "resolve_attested (bk_identities b) (at_subjects claim) = Inr (Some who)"
    by (auto simp: resolve_context_def Let_def split: sum.splits option.splits if_splits)
  from assms g real who have ok: "directory_principal_kind (bk_identities b) who = Space \<longrightarrow> space_claim_ok claim"
    "permits g (at_subjects claim)"
    by (auto simp: resolve_context_def Let_def split: if_splits)
  from assms g real who ok obtain scope where scope: "derived_scope b peer claim = Inr scope"
    "none_or scope (scope_claim_ok (attested_name (at_subjects claim)))"
    by (auto simp: resolve_context_def Let_def split: sum.splits if_splits)
  define base where "base = \<lparr>cx_principal = who, cx_actor = AgentActor (at_agent claim), cx_via = Some (cx_principal peer),
    cx_subject = Some (attested_name (at_subjects claim)), cx_scope = scope, cx_space = None\<rparr>"
  have built: "(case scope of
        Some scope \<Rightarrow> context_attested_chat who (AgentActor (at_agent claim)) (cx_principal peer)
          (attested_name (at_subjects claim)) scope
      | None \<Rightarrow> context_attested who (AgentActor (at_agent claim)) (cx_principal peer)
          (attested_name (at_subjects claim))) = Inr base"
    by (auto simp: context_attested_chat_def context_attested_def context_build_def base_def split: option.splits)
  from assms g real who ok scope built have cx: "cx = base\<lparr>cx_space := context_space b base\<rparr>"
    "pd_allowed (ed_policy (authorize_agent_prompt b cx (at_agent claim)))"
    by (auto simp: resolve_context_def Let_def split: if_splits)
  have f: "cx_principal cx = who" "cx_actor cx = AgentActor (at_agent claim)" "cx_via cx = Some (cx_principal peer)"
    "cx_subject cx = Some (attested_name (at_subjects claim))" "cx_scope cx = scope"
    by (simp_all add: cx(1) base_def)
  show ?thesis
    using g ok scope resolve_attested_agrees [OF who] cx(2) by (simp add: f prompt_allowed some_and_def)
qed

definition bob_claim :: attestation where
  "bob_claim = \<lparr>at_subjects = One slack_user, at_agent = ''bob'',
     at_scope = Some \<lparr>sp_transport = ''slack'', sp_kind = OnSlack, sp_conversation = slack_thread ''c1'',
       sp_trigger = OnMessage, sp_delivery = None, sp_participant = None, sp_github = None\<rparr>,
     at_invocation = Some ''i1''\<rparr>"

definition gateway_peer :: authenticated_context where
  "gateway_peer = \<lparr>cx_principal = ''gateway'', cx_actor = ServiceActor ''gateway'', cx_via = None, cx_subject = None,
     cx_scope = None, cx_space = None\<rparr>"

lemma bob_resolves:
  "resolve_context sample_broker gateway_peer (Some \<lparr>ag_namespaces = None\<rparr>) bob_claim =
     (\<lparr>cx_principal = ''alice'', cx_actor = AgentActor ''bob'', cx_via = Some ''gateway'', cx_subject = Some slack_user,
       cx_scope = at_scope bob_claim, cx_space = None\<rparr>, None)"
proof -
  have allowed: "pd_allowed (ed_policy (authorize_agent_prompt sample_broker cx agent))" for cx agent
    unfolding prompt_allowed by (rule sample_allows) (simp add: sample_broker_def)
  have kind: "directory_principal_kind (bk_identities sample_broker) ''alice'' = Person"
    "resolve_attested (bk_identities sample_broker) (One slack_user) = Inr (Some ''alice'')"
    by (simp_all add: sample_broker_def directory_principal_kind_def slack_user_def resolve_attested_def resolve_def Let_def)
  have space: "resolve (bk_identities sample_broker) s = None" if "s_kind s = SlackChannel" for s
    using that by (auto simp: sample_broker_def resolve_def slack_user_def)
  have "context_space sample_broker cx = None" if "cx_scope cx = at_scope bob_claim" for cx
    using that space
    by (auto simp: context_space_def bob_claim_def slack_thread_def space_subject_def subject_new_eq bind_eq_None_conv
        split: sum.splits)
  moreover have "scope_claim_ok slack_user (the (at_scope bob_claim))"
    using slack_thread_canonical by (simp add: scope_claim_ok_def bob_claim_def none_or_def)
  ultimately show ?thesis
    using allowed kind
    by (simp add: resolve_context_def Let_def bob_claim_def gateway_peer_def console_real_scope_refused_def permits_def
        none_or_def attested_forms_def derived_scope_def CONSOLE_SMOKE_TRANSPORT_def context_attested_chat_def
        context_build_def)
qed

theorem resolved_context_speaks_for_witness:
  "list_ex (\<lambda>s. resolve (bk_identities sample_broker) s = Some ''alice'') (attested_forms (at_subjects bob_claim))"
  using resolved_context_speaks_for [OF bob_resolves] by simp

section \<open>What is authorized passes the gate\<close>

lemma trim_nonempty:
  assumes "byte c < 128" "\<not> is_whitespace (byte c)"
  shows "trim (c # s) \<noteq> []"
proof -
  let ?ws = "is_whitespace \<circ> scalar"
  have w: "utf8_chunks (c # s) = [c] # utf8_chunks s" "\<not> ?ws [c]"
    using assms by (simp_all add: utf8_width_def scalar_def)
  have "dropWhile ?ws (rev (utf8_chunks (c # s))) = dropWhile ?ws (rev (utf8_chunks s)) @ [[c]]"
    unfolding w(1) rev.simps using w(2) by (rule dropWhile_append3)
  moreover have "dropWhile ?ws (utf8_chunks (c # s)) = utf8_chunks (c # s)" unfolding w(1) using w(2) by simp
  ultimately show ?thesis unfolding trim_def by simp
qed

lemma allow_id_nonempty: "trim (''allow-'' @ i) \<noteq> []"
  by (simp add: trim_nonempty is_whitespace_def)

lemma valid_set_gate:
  assumes "validate_set_constraints s = (Inr () :: (unit build_error, unit) result)"
    and "valid_policy_digest digest"
    and "case g of None \<Rightarrow> p_secret_use p = None
         | Some grant \<Rightarrow> validate_grant grant = Inr () \<and>
             secret_matches (p_secret_use p) ((cs_constraints s)\<lparr>c_secret_use := Some grant\<rparr>)"
  shows "is_ok (gate_authorize p provider (''allow-'' @ i) by_principal digest ((cs_constraints s)\<lparr>c_secret_use := g\<rparr>))"
proof -
  let ?c = "cs_constraints s"
  have c: "c_timeout_ms ?c \<noteq> 0" "\<not> (c_http ?c \<noteq> None \<and> c_storage ?c \<noteq> None)"
    using assms(1) by (auto simp: validate_set_constraints_def Let_def split: if_splits)
  have http: "(case c_http ?c of None \<Rightarrow> Inr () | Some h \<Rightarrow> map_err InvalidHttp (validate_http h)) = Inr ()"
    using assms(1) by (auto simp: validate_set_constraints_def Let_def res_simps split: if_splits option.splits)
  have grant: "(case g of None \<Rightarrow> Inr () | Some x \<Rightarrow> map_err InvalidSecretUse (validate_grant x)) = Inr ()"
    "secret_matches (p_secret_use p) (?c\<lparr>c_secret_use := g\<rparr>)"
    using assms(3) by (auto simp: secret_matches_def split: option.splits)
  show ?thesis
    using c http grant assms(2) allow_id_nonempty [of i] by (simp add: gate_authorize_def)
qed

definition sets_valid :: "constraint_catalog \<Rightarrow> bool" where
  "sets_valid c \<longleftrightarrow> list_all (\<lambda>(_, s). validate_set_constraints s = (Inr () :: (unit build_error, unit) result)) (sets c)"

lemma validate_catalog_sets: "validate_catalog host registry c maximum = (Inr () :: (unit build_error, unit) result) \<Longrightarrow> sets_valid c"
  by (auto simp: validate_catalog_def sets_valid_def validate_set_def res_simps list_all_iff split: if_splits)

lemma catalog_set_valid:
  "sets_valid c \<Longrightarrow> catalog_get c capability = Some s \<Longrightarrow>
     validate_set_constraints s = (Inr () :: (unit build_error, unit) result)"
  by (auto simp: sets_valid_def list_all_iff catalog_get_def dest: map_of_SomeD)

lemma authorized_passes:
  assumes served: "secrets_served (bk_secrets b) (bk_constraints b)" and valid: "sets_valid (bk_constraints b)"
    and digest: "valid_policy_digest digest"
    and auth: "authorize_invocation b cx (ir_capability request) = Inr d"
    and bind: "bind_secret_use b cx (ir_capability request) d (ir_secret_use request) = Some (d', Inr ())"
  shows "is_ok (gate_authorize (allow_proposal cx request) (cs_provider (cd_set d')) (''allow-'' @ ir_id request)
      by_principal digest (cs_constraints (cd_set d')))"
proof -
  let ?c = "cs_constraints (cd_set d)"
  have s: "catalog_get (bk_constraints b) (ir_capability request) = Some (cd_set d)"
    using auth by (rule authorize_invocation_set)
  note set_ok = catalog_set_valid [OF valid s]
  have proposed: "p_secret_use (allow_proposal cx request) = ir_secret_use request" by (simp add: allow_proposal_def)
  from served show ?thesis
  proof (cases rule: bind_secret_use_cases [of b "ir_secret_use request" cx "ir_capability request" d])
    case unused
    with bind have "d' = set_secret_use None d" by simp
    with valid_set_gate [OF set_ok digest, where g = None and p = "allow_proposal cx request"] unused(1) proposed show ?thesis
      by (simp add: set_secret_use_def)
  next
    case (refused d'' r)
    with bind show ?thesis by simp
  next
    case (bound p binding chosen d'')
    with bind have d': "d' = set_secret_use (Some (catalog_grant (bk_secrets b) binding)) d''" by simp
    from served_bound_secret [OF served bound(2)] s
    have "validate_grant (catalog_grant (bk_secrets b) binding) = Inr ()"
      "secret_matches (Some p) (?c\<lparr>c_secret_use := Some (catalog_grant (bk_secrets b) binding)\<rparr>)"
      by auto
    with valid_set_gate [OF set_ok digest, where g = "Some (catalog_grant (bk_secrets b) binding)" and p = "allow_proposal cx request"]
      bound(1,5) proposed d' show ?thesis
      by (simp add: set_secret_use_def)
  qed
qed

text \<open>C17: authorizing an invocation never panics, and what it lets through is executed: the gate
  accepts the proposal with the constraints of the decision, those are the catalog's for that
  capability but for the secret, a probe only reads, and the policy allowed the capability to the
  asker and to the space.\<close>

theorem authorized_invocation_passes_gate:
  assumes "secrets_served (bk_secrets b) (bk_constraints b)" and "sets_valid (bk_constraints b)"
    and "valid_policy_digest digest"
  shows "case invoke_authorize b cx request refusal of
      None \<Rightarrow> False
    | Some (request', Inl r) \<Rightarrow> True
    | Some (request', Inr d) \<Rightarrow>
        refusal = None \<and> request' = request\<lparr>ir_secret_use := ir_secret_use request'\<rparr> \<and>
        is_ok (gate_authorize (allow_proposal cx request') (cs_provider (cd_set d)) (''allow-'' @ ir_id request')
          by_principal digest (cs_constraints (cd_set d))) \<and>
        some_and (catalog_get (bk_constraints b) (ir_capability request)) (\<lambda>s.
          cd_set d = s\<lparr>cs_constraints := (cs_constraints s)\<lparr>c_secret_use := c_secret_use (cs_constraints (cd_set d))\<rparr>\<rparr> \<and>
          (cs_effect s = ReadOnly \<or> none_or (cx_scope cx) (\<lambda>scope. sp_trigger scope \<noteq> OnProbe)) \<and>
          policy_allows b cx (capability_request cx (ir_capability request) s))"
proof (cases refusal)
  case (Some r)
  then show ?thesis by (simp add: invoke_authorize_def)
next
  case None
  obtain p where p: "secret_use_or_default b (cx_actor cx) (ir_capability request) (ir_secret_use request) = Some (Inr p)"
    using secret_settled [OF assms(1)] by blast
  let ?request = "request\<lparr>ir_secret_use := p\<rparr>"
  show ?thesis
  proof (cases "authorize_invocation b cx (ir_capability request)")
    case (Inl r)
    with None p show ?thesis by (simp add: invoke_authorize_def)
  next
    case (Inr d)
    then have s: "catalog_get (bk_constraints b) (ir_capability request) = Some (cd_set d)"
      by (rule authorize_invocation_set)
    have checks: "probe_permits cx (cs_effect (cd_set d))"
      "policy_allows b cx (capability_request cx (ir_capability request) (cd_set d))"
      using authorize_invocation_iff [of b cx "ir_capability request"] Inr s by (simp_all add: some_and_def)
    then have probe: "cs_effect (cd_set d) = ReadOnly \<or> none_or (cx_scope cx) (\<lambda>scope. sp_trigger scope \<noteq> OnProbe)"
      by (auto simp: probe_permits_def probe_admits_def split: effect_kind.splits)
    obtain d' bound where bind: "bind_secret_use b cx (ir_capability request) d p = Some (d', bound)"
      by (rule bind_secret_use_cases [OF assms(1), of p cx "ir_capability request" d]) auto
    show ?thesis
    proof (cases bound)
      case (Inl r)
      with None p \<open>authorize_invocation b cx (ir_capability request) = Inr d\<close> bind show ?thesis
        by (simp add: invoke_authorize_def)
    next
      case (Inr u)
      then have "bound = Inr ()" by simp
      have gate: "is_ok (gate_authorize (allow_proposal cx ?request) (cs_provider (cd_set d')) (''allow-'' @ ir_id ?request)
          by_principal digest (cs_constraints (cd_set d')))"
        by (rule authorized_passes [OF assms, where d = d])
          (use \<open>authorize_invocation b cx (ir_capability request) = Inr d\<close> bind \<open>bound = Inr ()\<close> in simp_all)
      have "cd_set d' = (cd_set d)\<lparr>cs_constraints := (cs_constraints (cd_set d))\<lparr>c_secret_use :=
          c_secret_use (cs_constraints (cd_set d'))\<rparr>\<rparr>"
        by (rule bind_secret_use_cases [OF assms(1), of p cx "ir_capability request" d])
          (use bind \<open>bound = Inr ()\<close> in \<open>auto simp: set_secret_use_def\<close>)
      with None p \<open>authorize_invocation b cx (ir_capability request) = Inr d\<close> bind \<open>bound = Inr ()\<close> gate s probe checks(2)
      show ?thesis by (simp add: invoke_authorize_def some_and_def)
    qed
  qed
qed

theorem authorized_invocation_passes_gate_witness:
  "sets_valid sample_catalog \<and>
     invoke_authorize sample_broker bob_context
       \<lparr>ir_id = ''i1'', ir_capability = ''issues'', ir_trace_parent = [], ir_secret_use = None, ir_input = JNull\<rparr> None \<noteq> None"
proof -
  let ?r = "\<lparr>ir_id = ''i1'', ir_capability = ''issues'', ir_trace_parent = [], ir_secret_use = None, ir_input = JNull\<rparr>"
  have t: "trim ''api.test'' = ''api.test''"
    by (simp add: trim_def utf8_width_def scalar_def is_whitespace_def)
  have "is_authority_scope ''api.test''" "is_http_token ''GET''"
    unfolding is_authority_scope_def t by (simp_all add: MAX_HTTP_HOST_BYTES_def is_http_token_def ascii)
  then have "validate_http sample_http = Inr ()"
    by (simp add: sample_http_def validate_http_def validate_request_templates_def MAX_HTTP_SCOPE_ENTRIES_def
        MAX_HTTP_METHOD_BYTES_def)
  then have valid: "sets_valid sample_catalog"
    by (simp add: sets_valid_def sample_catalog_def sample_set_def validate_set_constraints_def default_constraints_def)
  have "valid_policy_digest (replicate 64 CHR ''a'')" by (simp add: valid_policy_digest_def list_all_iff)
  moreover have "secrets_served (bk_secrets sample_broker) (bk_constraints sample_broker)"
    "sets_valid (bk_constraints sample_broker)"
    using sample_served valid by (simp_all add: sample_broker_def)
  ultimately have "invoke_authorize sample_broker bob_context ?r None \<noteq> None"
    using authorized_invocation_passes_gate [where b = sample_broker and digest = "replicate 64 CHR ''a''" and cx = bob_context
        and request = ?r and refusal = None]
    by (metis option.simps(4))
  with valid show ?thesis by simp
qed

section \<open>Chat memory is reached only through its surface\<close>

text \<open>C18: an invocation that is not refused before authorization reaches chat memory only to read it:
  never the capability that records, and the ones that read only within a chat that is bound to this
  invocation, for an agent whose memory is enabled and allowed, with the curated input and nothing
  else changed.\<close>

theorem memory_reached_only_to_read:
  assumes "invoke_refusal b peer grant claim request = (cx, None, request')"
  shows "ir_capability request' = ir_capability request \<and>
    (if is_chat_memory (broker_route b (ir_capability request)) then
       is_chat_memory_retrieval (broker_route b (ir_capability request)) \<and>
       curate_memory_input b (broker_route b (ir_capability request)) request = Inr request' \<and>
       some_and claim (\<lambda>c. at_scope c \<noteq> None \<and> binds c (ir_id request) \<and> memory_surface b cx (at_agent c) \<noteq> None)
     else request' = request)"
proof -
  have curated: "ir_capability r' = ir_capability r" if "curate_memory_input b route r = Inr r'" for route r r'
    using that unfolding curate_memory_input_def res_bind_def ok_or_def
    by (simp split: capability_route.split_asm option.split_asm json.split_asm if_split_asm) auto
  show ?thesis
  proof (cases claim)
    case None
    with assms show ?thesis by (auto simp: invoke_refusal_def Let_def split: if_splits)
  next
    case (Some c)
    obtain cx0 refusal where rc: "resolve_context b peer grant c = (cx0, refusal)" by (cases "resolve_context b peer grant c")
    show ?thesis
    proof (cases "at_scope c = None")
      case True
      with Some rc assms show ?thesis
        by (cases refusal) (auto simp: invoke_refusal_def Let_def split: if_splits)
    next
      case False
      with Some rc assms have "refusal = None" "binds c (ir_id request)"
        by (cases refusal; auto simp: invoke_refusal_def Let_def split: if_splits)+
      with False Some rc assms curated show ?thesis
        by (cases "broker_route b (ir_capability request)")
          (auto simp: invoke_refusal_def Let_def is_chat_memory_def is_chat_memory_retrieval_def some_and_def
            split: if_splits sum.splits)
    qed
  qed
qed

theorem memory_reached_only_to_read_witness:
  "\<exists>cx request'. invoke_refusal sample_broker bob_context None None
      \<lparr>ir_id = ''i1'', ir_capability = ''issues'', ir_trace_parent = [], ir_secret_use = None, ir_input = JNull\<rparr>
      = (cx, None, request') \<and> ir_capability request' = ''issues''"
proof -
  let ?r = "\<lparr>ir_id = ''i1'', ir_capability = ''issues'', ir_trace_parent = [], ir_secret_use = None, ir_input = JNull\<rparr>"
  have "invoke_refusal sample_broker bob_context None None ?r = (bob_context, None, ?r)"
    by (simp add: invoke_refusal_def broker_route_def sample_broker_def sample_catalog_def catalog_get_def sample_set_def
        is_chat_memory_def)
  with memory_reached_only_to_read [OF this] show ?thesis by auto
qed

end
