(* ===== verification/Http_Destination.thy ===== *)
theory Http_Destination
  imports Capability "HOL-Library.Word"
begin

text \<open>
  Where a capability's HTTP requests may go (\<open>dekopon-http-host/src/lib.rs\<close>): addresses and which of
  them are public, the hosts a broker lets be reached in plain text, how an allowed host is compared with
  the destination of a request, and the settings that a set of allowed hosts can reach. URLs are parsed by
  the crate \<open>url\<close>, which is a parameter of type \<open>url_lib\<close>.

  \<open>public_destinations_are_unreserved\<close> shows that the tests on octets and segments admit exactly the
  addresses outside the reserved blocks, and \<open>reachable_settings_cover_enforcement\<close> that every setting
  a request can consult is among the reachable ones.
\<close>

section \<open>URLs\<close>

text \<open>What the code uses of the crate \<open>url\<close>; \<open>'u\<close> is the type of parsed URLs.
  \<open>url_with_segments\<close> is \<open>path_segments_mut\<close> with \<open>clear\<close> and \<open>extend\<close>,
  \<open>url_with_pairs\<close> is \<open>query_pairs_mut\<close> with \<open>clear\<close> and \<open>extend_pairs\<close>, and
  \<open>url_without_query\<close> is \<open>set_query(None)\<close>.\<close>

record 'u url_lib =
  url_parse :: "string \<Rightarrow> (string, 'u) result"
  url_scheme :: "'u \<Rightarrow> string"
  url_username :: "'u \<Rightarrow> string"
  url_password :: "'u \<Rightarrow> string option"
  url_host_str :: "'u \<Rightarrow> string option"
  url_port :: "'u \<Rightarrow> nat option"
  url_port_or_known_default :: "'u \<Rightarrow> nat option"
  url_path :: "'u \<Rightarrow> string"
  url_query :: "'u \<Rightarrow> string option"
  url_fragment :: "'u \<Rightarrow> string option"
  url_as_str :: "'u \<Rightarrow> string"
  url_query_pairs :: "'u \<Rightarrow> (string \<times> string) list"
  url_with_segments :: "'u \<Rightarrow> string list \<Rightarrow> 'u option"
  url_with_pairs :: "'u \<Rightarrow> (string \<times> string) list \<Rightarrow> 'u"
  url_without_query :: "'u \<Rightarrow> 'u"

section \<open>Addresses\<close>

datatype ipv4 = Ipv4 "8 word" "8 word" "8 word" "8 word"

datatype ipv6 = Ipv6 "16 word" "16 word" "16 word" "16 word" "16 word" "16 word" "16 word" "16 word"

datatype ip_addr = V4 ipv4 | V6 ipv6

text \<open>A socket address; one of IPv6 carries flow information and a scope.\<close>

datatype socket_addr = SocketV4 ipv4 "16 word" | SocketV6 ipv6 "16 word" "32 word" "32 word"

fun socket_ip :: "socket_addr \<Rightarrow> ip_addr" where
  "socket_ip (SocketV4 ip _) = V4 ip"
| "socket_ip (SocketV6 ip _ _ _) = V6 ip"

fun socket_port :: "socket_addr \<Rightarrow> nat" where
  "socket_port (SocketV4 _ port) = unat port"
| "socket_port (SocketV6 _ port _ _) = unat port"

text \<open>Socket addresses are ordered by family, octets or segments, port, flow and scope, which is the
  order in which a \<open>BTreeSet\<close> of them is read.\<close>

fun ipv4_octets :: "ipv4 \<Rightarrow> nat list" where
  "ipv4_octets (Ipv4 a b c d) = [unat a, unat b, unat c, unat d]"

fun ipv6_segments :: "ipv6 \<Rightarrow> nat list" where
  "ipv6_segments (Ipv6 a b c d e f g h) =
     [unat a, unat b, unat c, unat d, unat e, unat f, unat g, unat h]"

fun socket_key :: "socket_addr \<Rightarrow> nat list" where
  "socket_key (SocketV4 ip port) = 4 # ipv4_octets ip @ [unat port]"
| "socket_key (SocketV6 ip port flow scope) =
     6 # ipv6_segments ip @ [unat port, unat flow, unat scope]"

lemma socket_key_inject [simp]: "socket_key a = socket_key b \<longleftrightarrow> a = b"
proof
  assume k: "socket_key a = socket_key b"
  show "a = b"
  proof (cases a)
    case A: (SocketV4 ip port)
    obtain ip' port' where B: "b = SocketV4 ip' port'"
      using k A by (cases b) auto
    from k A B show ?thesis by (cases ip; cases ip') (simp add: word_unat_eq_iff)
  next
    case A: (SocketV6 ip port flow scope)
    obtain ip' port' flow' scope' where B: "b = SocketV6 ip' port' flow' scope'"
      using k A by (cases b) auto
    from k A B show ?thesis by (cases ip; cases ip') (simp add: word_unat_eq_iff)
  qed
qed simp

instantiation socket_addr :: linorder
begin

definition less_eq_socket_addr :: "socket_addr \<Rightarrow> socket_addr \<Rightarrow> bool" where
  "less_eq_socket_addr a b \<longleftrightarrow> socket_key a \<le> socket_key b"

definition less_socket_addr :: "socket_addr \<Rightarrow> socket_addr \<Rightarrow> bool" where
  "less_socket_addr a b \<longleftrightarrow> socket_key a < socket_key b"

instance
  by standard (auto simp: less_eq_socket_addr_def less_socket_addr_def dest: antisym)

end

definition v4_is_loopback :: "ipv4 \<Rightarrow> bool" where
  "v4_is_loopback ip = (case ip of Ipv4 a _ _ _ \<Rightarrow> a = 127)"

definition v4_is_private :: "ipv4 \<Rightarrow> bool" where
  "v4_is_private ip =
     (case ip of Ipv4 a b _ _ \<Rightarrow> a = 10 \<or> (a = 172 \<and> 16 \<le> b \<and> b \<le> 31) \<or> (a = 192 \<and> b = 168))"

definition v4_is_link_local :: "ipv4 \<Rightarrow> bool" where
  "v4_is_link_local ip = (case ip of Ipv4 a b _ _ \<Rightarrow> a = 169 \<and> b = 254)"

definition v6_is_unspecified :: "ipv6 \<Rightarrow> bool" where
  "v6_is_unspecified ip \<longleftrightarrow> ip = Ipv6 0 0 0 0 0 0 0 0"

definition v6_is_loopback :: "ipv6 \<Rightarrow> bool" where
  "v6_is_loopback ip \<longleftrightarrow> ip = Ipv6 0 0 0 0 0 0 0 1"

fun ip_is_loopback :: "ip_addr \<Rightarrow> bool" where
  "ip_is_loopback (V4 ip) = v4_is_loopback ip"
| "ip_is_loopback (V6 ip) = v6_is_loopback ip"

unbundle bit_operations_syntax

text \<open>\<open>Ipv6Addr::to_ipv4_mapped\<close>: the address is \<open>::ffff:a.b.c.d\<close>.\<close>

fun to_ipv4_mapped :: "ipv6 \<Rightarrow> ipv4 option" where
  "to_ipv4_mapped (Ipv6 s0 s1 s2 s3 s4 s5 s6 s7) =
     (if s0 = 0 \<and> s1 = 0 \<and> s2 = 0 \<and> s3 = 0 \<and> s4 = 0 \<and> s5 = 0xffff
      then Some (Ipv4 (ucast (drop_bit 8 s6)) (ucast s6) (ucast (drop_bit 8 s7)) (ucast s7))
      else None)"

fun is_forbidden_ipv4 :: "ipv4 \<Rightarrow> bool" where
  "is_forbidden_ipv4 (Ipv4 a b c d) \<longleftrightarrow>
     a = 0 \<or> a = 10 \<or> a = 127
     \<or> (a = 100 \<and> 64 \<le> b \<and> b \<le> 127)
     \<or> (a = 169 \<and> b = 254)
     \<or> (a = 172 \<and> 16 \<le> b \<and> b \<le> 31)
     \<or> (a = 192 \<and> b = 0 \<and> c = 0)
     \<or> (a = 192 \<and> b = 0 \<and> c = 2)
     \<or> (a = 192 \<and> b = 88 \<and> c = 99)
     \<or> (a = 192 \<and> b = 168)
     \<or> (a = 198 \<and> (b = 18 \<or> b = 19))
     \<or> (a = 198 \<and> b = 51 \<and> c = 100)
     \<or> (a = 203 \<and> b = 0 \<and> c = 113)
     \<or> 224 \<le> a"

fun v6_reserved :: "ipv6 \<Rightarrow> bool" where
  "v6_reserved (Ipv6 s0 s1 s2 s3 s4 s5 s6 s7) \<longleftrightarrow>
     s0 AND 0xe000 \<noteq> 0x2000
     \<or> (s0 = 0x2001 \<and> s1 AND 0xfe00 = 0)
     \<or> (s0 = 0x2001 \<and> s1 = 0x0db8)
     \<or> s0 = 0x2002
     \<or> (s0 = 0x3fff \<and> s1 AND 0xf000 = 0)"

definition is_forbidden_ipv6 :: "ipv6 \<Rightarrow> bool" where
  "is_forbidden_ipv6 ip =
     (case to_ipv4_mapped ip of
        Some v4 \<Rightarrow> is_forbidden_ipv4 v4
      | None \<Rightarrow> v6_is_unspecified ip \<or> v6_is_loopback ip \<or> v6_reserved ip)"

fun is_forbidden_public_destination :: "ip_addr \<Rightarrow> bool" where
  "is_forbidden_public_destination (V4 ip) = is_forbidden_ipv4 ip"
| "is_forbidden_public_destination (V6 ip) = is_forbidden_ipv6 ip"

fun is_private_unicast :: "ip_addr \<Rightarrow> bool" where
  "is_private_unicast (V4 ip) \<longleftrightarrow> v4_is_private ip \<and> \<not> v4_is_loopback ip \<and> \<not> v4_is_link_local ip"
| "is_private_unicast (V6 (Ipv6 s0 s1 s2 s3 s4 s5 s6 s7)) \<longleftrightarrow> s0 AND 0xfe00 = 0xfc00"

definition https_addresses_permitted :: "bool \<Rightarrow> socket_addr list \<Rightarrow> bool" where
  "https_addresses_permitted non_public addresses \<longleftrightarrow>
     addresses \<noteq> [] \<and>
     list_all (\<lambda>address. if non_public then is_private_unicast (socket_ip address)
                         else \<not> is_forbidden_public_destination (socket_ip address)) addresses"


definition MAX_RESOLVED_ADDRESSES :: nat where "MAX_RESOLVED_ADDRESSES = 16"

text \<open>The addresses of a lookup are put into an ordered set until it has as many as are kept.\<close>

fun bounded_loop :: "socket_addr list \<Rightarrow> socket_addr list \<Rightarrow> socket_addr list" where
  "bounded_loop unique [] = unique"
| "bounded_loop unique (address # rest) =
     (let unique' = insort_insert address unique
      in if length unique' = MAX_RESOLVED_ADDRESSES then unique' else bounded_loop unique' rest)"

definition bounded_addresses :: "socket_addr list \<Rightarrow> socket_addr list option" where
  "bounded_addresses addresses =
     (let unique = bounded_loop [] addresses in if unique = [] then None else Some unique)"

section \<open>Hosts and authorities\<close>

definition DEFAULT_HTTPS_PORT :: nat where "DEFAULT_HTTPS_PORT = 443"

definition unbracketed_host :: "string \<Rightarrow> string" where
  "unbracketed_host host =
     (case strip_prefix ''['' host of
        None \<Rightarrow> host
      | Some rest \<Rightarrow> (case strip_suffix '']'' rest of None \<Rightarrow> host | Some inner \<Rightarrow> inner))"

definition canonical_host :: "string \<Rightarrow> string" where
  "canonical_host host = (if CHR '':'' \<in> set host then ''['' @ host @ '']'' else host)"

definition canonical_authority :: "string \<Rightarrow> nat \<Rightarrow> string" where
  "canonical_authority host port = canonical_host host @ '':'' @ show_nat port"

definition authority_matches :: "string \<Rightarrow> string \<Rightarrow> nat \<Rightarrow> string \<Rightarrow> bool" where
  "authority_matches allowed host port scheme \<longleftrightarrow>
     (let allowed = to_ascii_lowercase (trim allowed)
      in allowed = canonical_authority host port
         \<or> (scheme = ''https'' \<and> allowed = canonical_host host \<and> port = DEFAULT_HTTPS_PORT))"

definition is_bare_hostname :: "string \<Rightarrow> bool" where
  "is_bare_hostname entry \<longleftrightarrow>
     list_all (\<lambda>b. is_ascii_alphanumeric b \<or> b = CHR ''-'' \<or> b = CHR ''.'') entry
     \<and> \<not> (starts_with ''-'' entry \<or> starts_with ''.'' entry)
     \<and> \<not> (entry \<noteq> [] \<and> last entry \<in> {CHR ''-'', CHR ''.''})"

datatype plaintext_host_error =
    PlaintextEmpty
  | PlaintextScheme string
  | PlaintextPath string
  | PlaintextPort string
  | PlaintextWildcard string
  | PlaintextInvalidHost string

type_synonym plaintext_hosts = "string set"

definition plaintext_entry :: "string \<Rightarrow> (plaintext_host_error, string) result" where
  "plaintext_entry raw =
     (let entry = trim raw
      in if entry = [] then Inl PlaintextEmpty
         else if contains_sub ''://'' entry then Inl (PlaintextScheme entry)
         else if CHR ''*'' \<in> set entry then Inl (PlaintextWildcard entry)
         else if CHR ''/'' \<in> set entry then Inl (PlaintextPath entry)
         else if CHR '':'' \<in> set entry then Inl (PlaintextPort entry)
         else if \<not> is_bare_hostname entry then Inl (PlaintextInvalidHost entry)
         else Inr (to_ascii_lowercase entry))"

fun plaintext_loop :: "plaintext_hosts \<Rightarrow> string list \<Rightarrow> (plaintext_host_error, plaintext_hosts) result" where
  "plaintext_loop hosts [] = Inr hosts"
| "plaintext_loop hosts (raw # rest) =
     res_bind (plaintext_entry raw) (\<lambda>entry. plaintext_loop (insert entry hosts) rest)"

definition plaintext_new :: "string list \<Rightarrow> (plaintext_host_error, plaintext_hosts) result" where
  "plaintext_new entries = plaintext_loop {} entries"

definition plaintext_contains :: "plaintext_hosts \<Rightarrow> string \<Rightarrow> bool" where
  "plaintext_contains hosts host \<longleftrightarrow> to_ascii_lowercase host \<in> hosts"

definition plaintext_permitted :: "string \<Rightarrow> string \<Rightarrow> socket_addr list \<Rightarrow> plaintext_hosts \<Rightarrow> bool" where
  "plaintext_permitted scheme host addresses allowed \<longleftrightarrow>
     scheme \<noteq> ''http'' \<or> list_all (\<lambda>a. ip_is_loopback (socket_ip a)) addresses \<or> plaintext_contains allowed host"

section \<open>Hosts outside the public network\<close>

text \<open>\<open>str::parse::<IpAddr>\<close> on a bare host name: without a colon only an IPv4 address parses, four
  decimal octets without leading zeros.\<close>

definition parses_as_octet :: "string \<Rightarrow> bool" where
  "parses_as_octet s \<longleftrightarrow>
     s \<noteq> [] \<and> length s \<le> 3 \<and> list_all is_ascii_digit s \<and> (hd s = CHR ''0'' \<longrightarrow> length s = 1) \<and> decimal_value s < 256"

definition parses_as_ipv4 :: "string \<Rightarrow> bool" where
  "parses_as_ipv4 s \<longleftrightarrow> (let parts = split_on CHR ''.'' s in length parts = 4 \<and> list_all parses_as_octet parts)"

definition non_public_https_new :: "'u url_lib \<Rightarrow> string \<Rightarrow> (string, string) result" where
  "non_public_https_new U authority =
     (case url_parse U (''https://'' @ authority) of
        Inl _ \<Rightarrow> Inl ''authority must be a DNS hostname and explicit port''
      | Inr url \<Rightarrow>
        (case url_host_str U url of
           None \<Rightarrow> Inl ''authority must have a hostname''
         | Some host \<Rightarrow>
             if url_username U url \<noteq> [] \<or> url_password U url \<noteq> None \<or> url_path U url \<noteq> ''/''
               \<or> url_query U url \<noteq> None \<or> url_fragment U url \<noteq> None \<or> url_port U url = None
               \<or> \<not> is_bare_hostname host \<or> parses_as_ipv4 host
               \<or> to_ascii_lowercase authority
                   \<noteq> to_ascii_lowercase (host @ '':'' @ show_nat (unwrap_or 0 (url_port U url)))
             then Inl ''authority must be an exact DNS hostname and explicit port''
             else Inr (to_ascii_lowercase authority)))"

record reachable_settings =
  rs_plaintext_hosts :: "string set"
  rs_non_public_https :: "string set"

text \<open>An allowed host is split into host and authority; without a port it means port 443.\<close>

definition allowed_host_authority :: "string \<Rightarrow> string \<times> string" where
  "allowed_host_authority raw =
     (let entry = to_ascii_lowercase (trim raw)
      in case rsplit_once CHR '':'' entry of
           Some (host, port) \<Rightarrow>
             if \<not> (host \<noteq> [] \<and> last host = CHR '':'') \<and> parse_u16 port \<noteq> None then (host, entry)
             else (entry, entry @ '':'' @ show_nat DEFAULT_HTTPS_PORT)
         | None \<Rightarrow> (entry, entry @ '':'' @ show_nat DEFAULT_HTTPS_PORT))"

definition reach_entry ::
  "plaintext_hosts \<Rightarrow> string list \<Rightarrow> reachable_settings \<Rightarrow> string \<Rightarrow> reachable_settings" where
  "reach_entry plaintext non_public r raw =
     (case allowed_host_authority raw of
        (host, authority) \<Rightarrow>
          (let r = (if plaintext_contains plaintext host
                    then r\<lparr>rs_plaintext_hosts := insert host (rs_plaintext_hosts r)\<rparr> else r)
           in if authority \<in> set non_public
              then r\<lparr>rs_non_public_https := insert authority (rs_non_public_https r)\<rparr> else r))"

definition reachable_destination_settings ::
  "string list \<Rightarrow> plaintext_hosts \<Rightarrow> string list \<Rightarrow> reachable_settings" where
  "reachable_destination_settings allowed plaintext non_public =
     foldl (reach_entry plaintext non_public) \<lparr>rs_plaintext_hosts = {}, rs_non_public_https = {}\<rparr> allowed"

record loopback_pin =
  lp_authority :: string
  lp_address :: socket_addr
  lp_ca_pem :: string

definition loopback_pin_new :: "'u url_lib \<Rightarrow> string \<Rightarrow> socket_addr \<Rightarrow> string \<Rightarrow> (string, loopback_pin) result" where
  "loopback_pin_new U authority address ca_pem =
     res_bind (non_public_https_new U authority) (\<lambda>target.
       if \<not> ip_is_loopback (socket_ip address)
         \<or> show_nat (socket_port address) \<noteq> last (split_on CHR '':'' authority)
         \<or> ca_pem = []
       then Inl ''test pin requires an exact loopback HTTPS authority and CA''
       else Inr \<lparr>lp_authority = target, lp_address = address, lp_ca_pem = ca_pem\<rparr>)"

section \<open>A lookup keeps a bounded set of addresses\<close>

lemma bounded_loop_inv:
  assumes "sorted unique" "distinct unique" "length unique < MAX_RESOLVED_ADDRESSES"
  shows "sorted (bounded_loop unique as) \<and> distinct (bounded_loop unique as)
    \<and> set (bounded_loop unique as) \<subseteq> set unique \<union> set as
    \<and> length (bounded_loop unique as) \<le> MAX_RESOLVED_ADDRESSES \<and> (as \<noteq> [] \<longrightarrow> bounded_loop unique as \<noteq> [])"
  using assms
proof (induction unique as rule: bounded_loop.induct)
  case (1 unique)
  then show ?case by simp
next
  case (2 unique a as)
  define u where "u = insort_insert a unique"
  have u: "sorted u" "distinct u" "set u = insert a (set unique)" "length u \<le> Suc (length unique)" "u \<noteq> []"
    using 2(2,3) by (auto simp: u_def insort_insert_key_def sorted_insort set_insort_key distinct_insort insort_not_Nil)
  show ?case
  proof (cases "length u = MAX_RESOLVED_ADDRESSES")
    case True
    with u show ?thesis by (auto simp: u_def [symmetric] Let_def)
  next
    case False
    then have "length u < MAX_RESOLVED_ADDRESSES" using u(4) 2(4) by simp
    with 2(1) [OF u_def False u(1,2)] u False show ?thesis
      by (cases as) (auto simp: u_def [symmetric] Let_def)
  qed
qed

lemma bounded_addresses_Some:
  assumes "bounded_addresses as = Some r"
  shows "r \<noteq> []" "sorted r" "distinct r" "set r \<subseteq> set as" "length r \<le> MAX_RESOLVED_ADDRESSES"
  using assms bounded_loop_inv [of "[]" as]
  by (auto simp: bounded_addresses_def Let_def MAX_RESOLVED_ADDRESSES_def split: if_splits)

lemma bounded_addresses_None: "bounded_addresses as = None \<longleftrightarrow> as = []"
  using bounded_loop_inv [of "[]" as]
  by (auto simp: bounded_addresses_def Let_def MAX_RESOLVED_ADDRESSES_def)

section \<open>Which destinations are public\<close>

text \<open>The reference: addresses as numbers, and the blocks of them that are not to be reached, each a
  network and the length of its prefix.\<close>

definition ipv4_number :: "nat list \<Rightarrow> nat" where
  "ipv4_number octets = foldl (\<lambda>n octet. n * 256 + octet) 0 octets"

definition ipv6_number :: "nat list \<Rightarrow> nat" where
  "ipv6_number segments = foldl (\<lambda>n segment. n * 65536 + segment) 0 segments"

definition in_block :: "nat \<Rightarrow> nat \<Rightarrow> nat \<times> nat \<Rightarrow> bool" where
  "in_block width n block \<longleftrightarrow>
     n div 2 ^ (width - snd block) = fst block div 2 ^ (width - snd block)"

definition reserved_v4_blocks :: "(nat \<times> nat) list" where
  "reserved_v4_blocks = map (\<lambda>(octets, len). (ipv4_number octets, len))
     [([0, 0, 0, 0], 8), ([10, 0, 0, 0], 8), ([127, 0, 0, 0], 8), ([100, 64, 0, 0], 10),
      ([169, 254, 0, 0], 16), ([172, 16, 0, 0], 12), ([192, 0, 0, 0], 24), ([192, 0, 2, 0], 24),
      ([192, 88, 99, 0], 24), ([192, 168, 0, 0], 16), ([198, 18, 0, 0], 15), ([198, 51, 100, 0], 24),
      ([203, 0, 113, 0], 24), ([224, 0, 0, 0], 3)]"

definition global_unicast_block :: "nat \<times> nat" where
  "global_unicast_block = (0x2000 * 2 ^ 112, 3)"

definition reserved_v6_blocks :: "(nat \<times> nat) list" where
  "reserved_v6_blocks =
     [(0x2001 * 2 ^ 112, 23), (0x20010db8 * 2 ^ 96, 32), (0x2002 * 2 ^ 112, 16), (0x3fff * 2 ^ 112, 20)]"

definition public_v4 :: "nat \<Rightarrow> bool" where
  "public_v4 n \<longleftrightarrow> \<not> list_ex (in_block 32 n) reserved_v4_blocks"

definition public_v6 :: "nat \<Rightarrow> bool" where
  "public_v6 n \<longleftrightarrow>
     (if n div 2 ^ 32 = 0xffff then public_v4 (n mod 2 ^ 32)
      else in_block 128 n global_unicast_block \<and> \<not> list_ex (in_block 128 n) reserved_v6_blocks)"

fun public_address :: "ip_addr \<Rightarrow> bool" where
  "public_address (V4 ip) = public_v4 (ipv4_number (ipv4_octets ip))"
| "public_address (V6 ip) = public_v6 (ipv6_number (ipv6_segments ip))"

lemma v4_prefixes:
  fixes a b c d :: nat
  assumes "b < 256" "c < 256" "d < 256"
  shows "ipv4_number [a, b, c, d] div 2 ^ 29 = a div 32"
    "ipv4_number [a, b, c, d] div 2 ^ 24 = a"
    "ipv4_number [a, b, c, d] div 2 ^ 22 = a * 4 + b div 64"
    "ipv4_number [a, b, c, d] div 2 ^ 20 = a * 16 + b div 16"
    "ipv4_number [a, b, c, d] div 2 ^ 17 = a * 128 + b div 2"
    "ipv4_number [a, b, c, d] div 2 ^ 16 = a * 256 + b"
    "ipv4_number [a, b, c, d] div 2 ^ 8 = (a * 256 + b) * 256 + c"
proof -
  have n: "ipv4_number [a, b, c, d] = a * 16777216 + b * 65536 + c * 256 + d"
    by (simp add: ipv4_number_def)
  show "ipv4_number [a, b, c, d] div 2 ^ 29 = a div 32"
    "ipv4_number [a, b, c, d] div 2 ^ 24 = a"
    "ipv4_number [a, b, c, d] div 2 ^ 22 = a * 4 + b div 64"
    "ipv4_number [a, b, c, d] div 2 ^ 20 = a * 16 + b div 16"
    "ipv4_number [a, b, c, d] div 2 ^ 17 = a * 128 + b div 2"
    "ipv4_number [a, b, c, d] div 2 ^ 16 = a * 256 + b"
    "ipv4_number [a, b, c, d] div 2 ^ 8 = (a * 256 + b) * 256 + c"
    unfolding n using assms by (rule_tac [!] div_nat_eqI) ((simp; arith)+)
qed

lemma digits_eq_iff: "y < m \<Longrightarrow> j < m \<Longrightarrow> x * m + y = k * m + j \<longleftrightarrow> x = k \<and> y = (j::nat)"
proof
  assume "y < m" "j < m" and e: "x * m + y = k * m + j"
  from arg_cong [OF e, of "\<lambda>n. n div m"] arg_cong [OF e, of "\<lambda>n. n mod m"] \<open>y < m\<close> \<open>j < m\<close>
  show "x = k \<and> y = j" by simp
qed simp

lemma reserved_v4_numbers:
  "reserved_v4_blocks =
     [(0, 8), (167772160, 8), (2130706432, 8), (1681915904, 10), (2851995648, 16), (2886729728,
      12), (3221225472, 24), (3221225984, 24), (3227017984, 24), (3232235520, 16), (3323068416,
      15), (3325256704, 24), (3405803776, 24), (3758096384, 3)]"
  by (simp add: reserved_v4_blocks_def ipv4_number_def)

lemma forbidden_ipv4_blocks:
  "is_forbidden_ipv4 ip \<longleftrightarrow> \<not> public_v4 (ipv4_number (ipv4_octets ip))"
proof (cases ip)
  case (Ipv4 a b c d)
  define a' b' c' d' where w: "a' = unat a" "b' = unat b" "c' = unat c" "d' = unat d"
  have lt: "a' < 256" "b' < 256" "c' < 256" "d' < 256"
    using unsigned_less [of a] unsigned_less [of b] unsigned_less [of c] unsigned_less [of d] by (simp_all add: w)
  note pre = v4_prefixes [OF lt(2-4), of a']
  have two: "a' * 256 + b' = k * 256 + j \<longleftrightarrow> a' = k \<and> b' = j" if "j < 256" for k j
    using that lt digits_eq_iff by blast
  have three: "(a' * 256 + b') * 256 + c' = (k * 256 + j) * 256 + i \<longleftrightarrow> a' = k \<and> b' = j \<and> c' = i"
    if "j < 256" "i < 256" for k j i
    using digits_eq_iff [OF lt(3) that(2), of "a' * 256 + b'" "k * 256 + j"] two [OF that(1), of k] by blast
  have q: "b' div 64 < 4" "b' div 16 < 16" "b' div 2 < 128"
    using lt(2) by simp_all
  have r: "b' div 64 = 1 \<longleftrightarrow> 64 \<le> b' \<and> b' \<le> 127" "b' div 16 = 1 \<longleftrightarrow> 16 \<le> b' \<and> b' \<le> 31"
    "b' div 2 = 9 \<longleftrightarrow> b' = 18 \<or> b' = 19" "a' div 32 = 7 \<longleftrightarrow> 224 \<le> a'"
    using lt by linarith+
  have part: "a' * 4 + b' div 64 = 401 \<longleftrightarrow> a' = 100 \<and> 64 \<le> b' \<and> b' \<le> 127"
    "a' * 16 + b' div 16 = 2753 \<longleftrightarrow> a' = 172 \<and> 16 \<le> b' \<and> b' \<le> 31"
    "a' * 128 + b' div 2 = 25353 \<longleftrightarrow> a' = 198 \<and> (b' = 18 \<or> b' = 19)"
    using digits_eq_iff [OF q(1), of 1 a' 100] digits_eq_iff [OF q(2), of 1 a' 172]
      digits_eq_iff [OF q(3), of 9 a' 198] r by simp_all
  note octets = two [of 254 169, simplified] two [of 168 192, simplified] three [of 0 0 192, simplified]
    three [of 0 2 192, simplified] three [of 88 99 192, simplified] three [of 51 100 198, simplified]
    three [of 0 113 203, simplified]
  show ?thesis
    by (simp add: Ipv4 public_v4_def reserved_v4_numbers in_block_def pre [simplified] part r(4) octets
        word_unat_eq_iff word_le_nat_alt w [symmetric])
      (simp only: conj_ac)
qed

lemma masked_eq_iff:
  fixes s t :: "'a::len word"
  shows "s AND NOT (mask n) = t AND NOT (mask n) \<longleftrightarrow> unat s div 2 ^ n = unat t div 2 ^ n"
proof -
  have "s AND NOT (mask n) = t AND NOT (mask n) \<longleftrightarrow> drop_bit n s = drop_bit n t"
  proof
    assume "s AND NOT (mask n) = t AND NOT (mask n)"
    then have "drop_bit n (s AND NOT (mask n)) = drop_bit n (t AND NOT (mask n))" by simp
    then show "drop_bit n s = drop_bit n t"
      by (auto simp: bit_eq_iff bit_simps dest: bit_imp_le_length)
  next
    assume d: "drop_bit n s = drop_bit n t"
    have "bit s i = bit t i" if "n \<le> i" for i
      using arg_cong [OF d, of "\<lambda>w. bit w (i - n)"] that by (simp add: bit_drop_bit_eq)
    then show "s AND NOT (mask n) = t AND NOT (mask n)"
      by (auto simp: bit_eq_iff bit_simps)
  qed
  also have "\<dots> \<longleftrightarrow> unat (drop_bit n s) = unat (drop_bit n t)" by (rule word_unat_eq_iff)
  also have "\<dots> \<longleftrightarrow> drop_bit n (unat s) = drop_bit n (unat t)" by (simp only: unat_drop_bit_eq)
  finally show ?thesis by (simp only: drop_bit_nat_def)
qed

lemma segment_masks:
  fixes s :: "16 word"
  shows "s AND 0xe000 = 0x2000 \<longleftrightarrow> unat s div 2 ^ 13 = 1" "s AND 0xfe00 = 0 \<longleftrightarrow> unat s div 2 ^ 9 = 0"
    "s AND 0xf000 = 0 \<longleftrightarrow> unat s div 2 ^ 12 = 0"
proof -
  have m: "(0xe000 :: 16 word) = - 8192" "(0xfe00 :: 16 word) = - 512" "(0xf000 :: 16 word) = - 4096"
    by simp_all
  show "s AND 0xe000 = 0x2000 \<longleftrightarrow> unat s div 2 ^ 13 = 1" "s AND 0xfe00 = 0 \<longleftrightarrow> unat s div 2 ^ 9 = 0"
    "s AND 0xf000 = 0 \<longleftrightarrow> unat s div 2 ^ 12 = 0"
    unfolding m
    using masked_eq_iff [of s 13 "0x2000"] masked_eq_iff [of s 9 0] masked_eq_iff [of s 12 0]
    by (simp_all add: mask_eq_exp_minus_1)
qed

lemma keep_and_divide:
  fixes x y k m :: nat
  assumes "0 < m"
  shows "(x * (k * m) + y) div m = x * k + y div m"
  using assms by (simp add: mult.assoc [symmetric])

lemma ipv6_number_snoc [simp]: "ipv6_number (xs @ [x]) = ipv6_number xs * 65536 + x"
  by (simp add: ipv6_number_def)

lemma ipv6_number_append:
  "ipv6_number (xs @ ys) = ipv6_number xs * 65536 ^ length ys + ipv6_number ys"
proof (induction ys rule: rev_induct)
  case Nil
  then show ?case by (simp add: ipv6_number_def)
next
  case (snoc y ys)
  then show ?case
    using ipv6_number_snoc [of "xs @ ys" y] by (simp add: add_mult_distrib)
qed

lemma ipv6_number_less: "list_all (\<lambda>x. x < 65536) xs \<Longrightarrow> ipv6_number xs < 65536 ^ length xs"
proof (induction xs rule: rev_induct)
  case Nil
  then show ?case by (simp add: ipv6_number_def)
next
  case (snoc x xs)
  then have "Suc (ipv6_number xs) * 65536 \<le> 65536 ^ length xs * 65536" "x < 65536"
    by (simp_all add: Suc_leI)
  then show ?case by simp
qed

lemma ipv6_number_inject:
  assumes "length xs = length ys" "list_all (\<lambda>x. x < 65536) xs" "list_all (\<lambda>x. x < 65536) ys"
  shows "ipv6_number xs = ipv6_number ys \<longleftrightarrow> xs = ys"
  using assms
proof (induction xs arbitrary: ys rule: rev_induct)
  case Nil
  then show ?case by simp
next
  case (snoc x xs)
  then obtain zs z where ys: "ys = zs @ [z]" by (cases ys rule: rev_cases) auto
  with snoc have "length xs = length zs" "list_all (\<lambda>x. x < 65536) xs" "list_all (\<lambda>x. x < 65536) zs" "x < 65536" "z < 65536"
    by simp_all
  with snoc.IH [of zs] digits_eq_iff [of x 65536 z] show ?case by (simp add: ys)
qed

lemma ipv6_prefixes:
  assumes "list_all (\<lambda>x. x < 65536) (a # b # rest)" "length rest = 6"
  shows "ipv6_number (a # b # rest) div 2 ^ 125 = a div 2 ^ 13"
    "ipv6_number (a # b # rest) div 2 ^ 112 = a"
    "ipv6_number (a # b # rest) div 2 ^ 108 = a * 16 + b div 2 ^ 12"
    "ipv6_number (a # b # rest) div 2 ^ 105 = a * 128 + b div 2 ^ 9"
    "ipv6_number (a # b # rest) div 2 ^ 96 = a * 65536 + b"
proof -
  have ab: "b < 65536" using assms by simp
  have n: "ipv6_number (a # b # rest) = (a * 65536 + b) * 2 ^ 96 + ipv6_number rest"
    using ipv6_number_append [of "[a, b]" rest] assms(2) by (simp add: ipv6_number_def)
  have "ipv6_number rest < 2 ^ 96"
    using ipv6_number_less [of rest] assms by simp
  then have d: "ipv6_number (a # b # rest) div 2 ^ 96 = a * 65536 + b"
    unfolding n by simp
  have s: "ipv6_number (a # b # rest) div 2 ^ (96 + k) = (a * 65536 + b) div 2 ^ k" for k
    using d by (simp only: power_add div_mult2_eq)
  show "ipv6_number (a # b # rest) div 2 ^ 125 = a div 2 ^ 13"
    "ipv6_number (a # b # rest) div 2 ^ 112 = a"
    "ipv6_number (a # b # rest) div 2 ^ 108 = a * 16 + b div 2 ^ 12"
    "ipv6_number (a # b # rest) div 2 ^ 105 = a * 128 + b div 2 ^ 9"
    "ipv6_number (a # b # rest) div 2 ^ 96 = a * 65536 + b"
    using s [of 29] s [of 16] s [of 12] s [of 9] d ab keep_and_divide [of 512 a 128 b]
      keep_and_divide [of 4096 a 16 b] div_mult2_eq [of "a * 65536 + b" 65536 8192] by simp_all
qed

lemma mapped_address:
  assumes "list_all (\<lambda>x. x < 65536) [s0, s1, s2, s3, s4, s5, s6, s7]"
  shows "ipv6_number [s0, s1, s2, s3, s4, s5, s6, s7] div 2 ^ 32 = 0xffff \<longleftrightarrow> [s0, s1, s2, s3, s4, s5] = [0, 0, 0, 0, 0, 0xffff]"
    "ipv6_number [s0, s1, s2, s3, s4, s5, s6, s7] mod 2 ^ 32 = s6 * 65536 + s7"
proof -
  have n: "ipv6_number [s0, s1, s2, s3, s4, s5, s6, s7]
      = ipv6_number [s0, s1, s2, s3, s4, s5] * 2 ^ 32 + ipv6_number [s6, s7]"
    using ipv6_number_append [of "[s0, s1, s2, s3, s4, s5]" "[s6, s7]"] by simp
  have l: "ipv6_number [s6, s7] < 2 ^ 32"
    using ipv6_number_less [of "[s6, s7]"] assms by simp
  have "ipv6_number [0, 0, 0, 0, 0, 0xffff] = 0xffff" by (simp add: ipv6_number_def)
  with ipv6_number_inject [of "[s0, s1, s2, s3, s4, s5]" "[0, 0, 0, 0, 0, 0xffff]"] assms
  have "ipv6_number [s0, s1, s2, s3, s4, s5] = 0xffff \<longleftrightarrow> [s0, s1, s2, s3, s4, s5] = [0, 0, 0, 0, 0, 0xffff]"
    by simp
  with l show "ipv6_number [s0, s1, s2, s3, s4, s5, s6, s7] div 2 ^ 32 = 0xffff \<longleftrightarrow> [s0, s1, s2, s3, s4, s5] = [0, 0, 0, 0, 0, 0xffff]"
    unfolding n by simp
  show "ipv6_number [s0, s1, s2, s3, s4, s5, s6, s7] mod 2 ^ 32 = s6 * 65536 + s7"
    using l unfolding n by (simp only: mod_mult_self3 mod_less) (simp add: ipv6_number_def)
qed

lemma reserved_v6_segments:
  assumes "list_all (\<lambda>x. x < 65536) (a # b # rest)" "length rest = 6"
  shows "in_block 128 (ipv6_number (a # b # rest)) global_unicast_block
      \<and> \<not> list_ex (in_block 128 (ipv6_number (a # b # rest))) reserved_v6_blocks
    \<longleftrightarrow> \<not> (a div 2 ^ 13 \<noteq> 1 \<or> (a = 0x2001 \<and> b div 2 ^ 9 = 0) \<or> (a = 0x2001 \<and> b = 0x0db8) \<or> a = 0x2002
        \<or> (a = 0x3fff \<and> b div 2 ^ 12 = 0))"
proof -
  have "b < 65536" using assms by simp
  then have "b div 512 < 128" "b div 4096 < 16" by simp_all
  with digits_eq_iff [of "b div 512" 128 0 a "0x2001"] digits_eq_iff [of "b div 4096" 16 0 a "0x3fff"]
    digits_eq_iff [of b 65536 "0xdb8" a "0x2001"] \<open>b < 65536\<close> ipv6_prefixes [OF assms]
  show ?thesis by (simp add: in_block_def global_unicast_block_def reserved_v6_blocks_def)
qed

lemma segment_less: "unat (s :: 16 word) < 65536"
  using unsigned_less [of s, where ?'a = nat] by simp

lemma mapped_octets:
  fixes s t :: "16 word"
  shows "ipv4_number (ipv4_octets (Ipv4 (ucast (drop_bit 8 s)) (ucast s) (ucast (drop_bit 8 t)) (ucast t)))
    = unat s * 65536 + unat t"
proof -
  have o: "unat (ucast (drop_bit 8 w) :: 8 word) = unat w div 256" "unat (ucast w :: 8 word) = unat w mod 256"
    for w :: "16 word"
    using segment_less [of w]
    by (simp_all add: unsigned_ucast_eq unat_drop_bit_eq drop_bit_nat_def take_bit_nat_def)
  have "unat w = unat w div 256 * 256 + unat w mod 256" for w :: "16 word" by simp
  from this [of s] this [of t] show ?thesis
    unfolding ipv4_octets.simps ipv4_number_def unfolding o(1) unfolding o(2) by simp
qed

lemma mapped_iff:
  "to_ipv4_mapped (Ipv6 s0 s1 s2 s3 s4 s5 s6 s7) \<noteq> None \<longleftrightarrow>
     ipv6_number (ipv6_segments (Ipv6 s0 s1 s2 s3 s4 s5 s6 s7)) div 2 ^ 32 = 0xffff"
  using mapped_address(1) [of "unat s0" "unat s1" "unat s2" "unat s3" "unat s4" "unat s5" "unat s6" "unat s7"]
  by (auto simp: word_unat_eq_iff segment_less)

lemma forbidden_ipv6_blocks:
  "is_forbidden_ipv6 ip \<longleftrightarrow> \<not> public_v6 (ipv6_number (ipv6_segments ip))"
proof (cases ip)
  case (Ipv6 s0 s1 s2 s3 s4 s5 s6 s7)
  note lt = segment_less
  let ?n = "ipv6_number (ipv6_segments ip)"
  show ?thesis
  proof (cases "to_ipv4_mapped ip")
    case None
    have "v6_reserved ip" if "v6_is_unspecified ip \<or> v6_is_loopback ip"
      using that Ipv6 by (auto simp: v6_is_unspecified_def v6_is_loopback_def)
    then have "is_forbidden_ipv6 ip \<longleftrightarrow> v6_reserved ip" using None by (auto simp: is_forbidden_ipv6_def)
    also have "\<dots> \<longleftrightarrow> \<not> (in_block 128 ?n global_unicast_block \<and> \<not> list_ex (in_block 128 ?n) reserved_v6_blocks)"
      using lt reserved_v6_segments [of "unat s0" "unat s1" "[unat s2, unat s3, unat s4, unat s5, unat s6, unat s7]"]
      by (simp add: Ipv6 segment_masks word_unat_eq_iff [of s0] word_unat_eq_iff [of s1 "0x0db8"])
    also have "\<dots> \<longleftrightarrow> \<not> public_v6 ?n"
      using None mapped_iff [of s0 s1 s2 s3 s4 s5 s6 s7] by (simp only: Ipv6 public_v6_def) simp
    finally show ?thesis .
  next
    case (Some v4)
    then have v4: "v4 = Ipv4 (ucast (drop_bit 8 s6)) (ucast s6) (ucast (drop_bit 8 s7)) (ucast s7)"
      by (simp add: Ipv6 split: if_splits)
    have "?n mod 2 ^ 32 = unat s6 * 65536 + unat s7"
      using mapped_address(2) [of "unat s0" "unat s1" "unat s2" "unat s3" "unat s4" "unat s5" "unat s6" "unat s7"] lt
      by (simp add: Ipv6)
    then have "ipv4_number (ipv4_octets v4) = ?n mod 2 ^ 32"
      unfolding v4 mapped_octets by simp
    moreover have "?n div 2 ^ 32 = 0xffff" using Some mapped_iff [of s0 s1 s2 s3 s4 s5 s6 s7] Ipv6 by simp
    ultimately show ?thesis
      using Some forbidden_ipv4_blocks [of v4] by (simp only: is_forbidden_ipv6_def public_v6_def) simp
  qed
qed

lemma forbidden_iff_not_public: "is_forbidden_public_destination ip \<longleftrightarrow> \<not> public_address ip"
  by (cases ip) (simp_all add: forbidden_ipv4_blocks forbidden_ipv6_blocks)

text \<open>C40: A destination reached over HTTPS that the broker does not list as non-public has addresses, and
  none of them is in a reserved block: an IPv4 address is outside the fourteen blocks, an IPv6 address
  that maps one is judged as that address, and any other is a global unicast address outside the four
  excluded blocks. Exactly such addresses are permitted.\<close>

theorem public_destinations_are_unreserved:
  "https_addresses_permitted False addresses \<longleftrightarrow>
     addresses \<noteq> [] \<and> list_all (\<lambda>address. public_address (socket_ip address)) addresses"
  by (simp add: https_addresses_permitted_def forbidden_iff_not_public)

section \<open>The settings a request can consult\<close>

definition plaintext_ok :: "plaintext_hosts \<Rightarrow> bool" where
  "plaintext_ok hosts \<longleftrightarrow> (\<forall>h\<in>hosts. CHR '':'' \<notin> set h)"

lemma lower_byte_eq_colon: "lower_byte c = CHR '':'' \<longleftrightarrow> c = CHR '':''"
proof (cases "is_ascii_uppercase c")
  case True
  then have "byte (lower_byte c) \<noteq> byte CHR '':''" by (simp add: byte_lower_byte ascii)
  with True show ?thesis by (auto simp: ascii)
qed (simp add: lower_byte_id)

lemma colon_in_lowercase [simp]: "CHR '':'' \<in> set (to_ascii_lowercase s) \<longleftrightarrow> CHR '':'' \<in> set s"
  unfolding to_ascii_lowercase_def set_map image_iff using lower_byte_eq_colon by metis

lemma plaintext_entry_no_colon: "plaintext_entry raw = Inr entry \<Longrightarrow> CHR '':'' \<notin> set entry"
  by (auto simp: plaintext_entry_def Let_def split: if_splits)

lemma plaintext_loop_ok: "plaintext_loop hosts entries = Inr hosts' \<Longrightarrow> plaintext_ok hosts \<Longrightarrow> plaintext_ok hosts'"
proof (induction hosts entries rule: plaintext_loop.induct)
  case (1 hosts)
  then show ?case by simp
next
  case (2 hosts raw rest)
  then obtain entry where e: "plaintext_entry raw = Inr entry" "plaintext_loop (insert entry hosts) rest = Inr hosts'"
    by (auto simp: res_bind_def split: sum.splits)
  with 2(3) plaintext_entry_no_colon [OF e(1)] have "plaintext_ok (insert entry hosts)"
    by (simp add: plaintext_ok_def)
  with 2(1) e show ?case by blast
qed

lemma plaintext_new_ok: "plaintext_new entries = Inr hosts \<Longrightarrow> plaintext_ok hosts"
  using plaintext_loop_ok [of "{}" entries hosts] by (simp add: plaintext_new_def plaintext_ok_def)

lemma reach_fold:
  fixes plaintext non_public r
  defines "f \<equiv> foldl (reach_entry plaintext non_public) r"
  shows "rs_plaintext_hosts (f allowed) = rs_plaintext_hosts r
      \<union> {h. \<exists>raw\<in>set allowed. h = fst (allowed_host_authority raw) \<and> plaintext_contains plaintext h}"
    and "rs_non_public_https (f allowed) = rs_non_public_https r
      \<union> {a. \<exists>raw\<in>set allowed. a = snd (allowed_host_authority raw) \<and> a \<in> set non_public}"
  unfolding f_def
  by (induction allowed rule: rev_induct) (auto simp: reach_entry_def Let_def split: prod.splits)

lemma show_nat_no_colon: "CHR '':'' \<notin> set (show_nat n)"
proof
  assume "CHR '':'' \<in> set (show_nat n)"
  with show_nat_digits [of n] have "is_ascii_digit CHR '':''" by (auto simp: list_all_iff)
  then show False by (simp add: ascii)
qed

lemma parse_u16_show_nat: "n < 65536 \<Longrightarrow> parse_u16 (show_nat n) = Some n"
  using parse_u64_show_nat [of n] by (simp add: parse_u16_def u64_max_def)

lemma canonical_host_colon: "CHR '':'' \<in> set (canonical_host host) \<Longrightarrow> last (canonical_host host) = CHR '']''"
  by (auto simp: canonical_host_def split: if_splits)

lemma allowed_with_port:
  assumes "to_ascii_lowercase (trim raw) = canonical_authority host port" "port < 65536"
  shows "allowed_host_authority raw = (canonical_host host, canonical_authority host port)"
proof -
  have "rsplit_once CHR '':'' (canonical_authority host port) = Some (canonical_host host, show_nat port)"
    by (simp add: rsplit_once_Some canonical_authority_def show_nat_no_colon)
  moreover have "\<not> (canonical_host host \<noteq> [] \<and> last (canonical_host host) = CHR '':'')"
    using canonical_host_colon [of host] last_in_set [of "canonical_host host"] by fastforce
  ultimately show ?thesis
    using assms by (simp add: allowed_host_authority_def Let_def parse_u16_show_nat)
qed

lemma bracket_no_port: "parse_u16 (b @ '']'') = None"
  by (cases b) (simp_all add: parse_u16_def parse_u64_def Let_def ascii)

lemma allowed_without_port:
  assumes "to_ascii_lowercase (trim raw) = canonical_host host"
  shows "allowed_host_authority raw = (canonical_host host, canonical_authority host DEFAULT_HTTPS_PORT)"
proof (cases "CHR '':'' \<in> set host")
  case True
  then have h: "canonical_host host = (''['' @ host) @ '']''" by (simp add: canonical_host_def)
  obtain a b where s: "host = a @ CHR '':'' # b" "CHR '':'' \<notin> set b"
    using split_list_last [OF True] by blast
  then have "rsplit_once CHR '':'' (canonical_host host) = Some (''['' @ a, b @ '']'')"
    unfolding rsplit_once_Some h by simp
  then show ?thesis
    using assms by (simp add: allowed_host_authority_def Let_def bracket_no_port canonical_authority_def)
next
  case False
  then have "rsplit_once CHR '':'' (canonical_host host) = None"
    by (simp add: canonical_host_def rsplit_once_None)
  then show ?thesis
    using assms by (simp add: allowed_host_authority_def Let_def canonical_authority_def)
qed

text \<open>The settings of a broker that a set of allowed hosts can reach are complete: when a request
  to an allowed host consults a plaintext host or a non-public authority that the broker lists, that
  entry is among the reachable settings of the allowed hosts.\<close>

theorem reachable_settings_cover_enforcement:
  assumes "plaintext_new entries = Inr plaintext"
    and "raw \<in> set allowed" "authority_matches raw host port scheme" "port < 65536"
  shows "(plaintext_contains plaintext host \<longrightarrow>
      host \<in> rs_plaintext_hosts (reachable_destination_settings allowed plaintext non_public))
    \<and> (canonical_authority host port \<in> set non_public \<longrightarrow>
      canonical_authority host port \<in> rs_non_public_https (reachable_destination_settings allowed plaintext non_public))"
proof (intro conjI impI)
  let ?r = "reachable_destination_settings allowed plaintext non_public"
  have e: "allowed_host_authority raw = (canonical_host host, canonical_authority host port)"
    using assms(3,4) allowed_with_port [of raw host port] allowed_without_port [of raw host]
    by (auto simp: authority_matches_def Let_def)
  from assms(2) e show "canonical_authority host port \<in> set non_public \<Longrightarrow> canonical_authority host port \<in> rs_non_public_https ?r"
    by (force simp: reachable_destination_settings_def reach_fold)
  assume p: "plaintext_contains plaintext host"
  with plaintext_new_ok [OF assms(1)] have "CHR '':'' \<notin> set (to_ascii_lowercase host)"
    unfolding plaintext_contains_def plaintext_ok_def by blast
  then have "canonical_host host = host" by (simp add: canonical_host_def)
  with assms(2) e p show "host \<in> rs_plaintext_hosts ?r"
    by (force simp: reachable_destination_settings_def reach_fold)
qed

theorem reachable_settings_cover_enforcement_witness:
  "plaintext_new [''intranet''] = Inr {''intranet''} \<and> authority_matches ''intranet:8080'' ''intranet'' 8080 ''http''
    \<and> ''intranet'' \<in> rs_plaintext_hosts (reachable_destination_settings [''intranet:8080''] {''intranet''} [''x:1''])"
proof -
  have t: "trim ''intranet'' = ''intranet''" "trim ''intranet:8080'' = ''intranet:8080''"
    by (simp_all add: trim_def scalar_def utf8_width_def is_whitespace_def)
  have l: "to_ascii_lowercase ''intranet'' = ''intranet''" "to_ascii_lowercase ''intranet:8080'' = ''intranet:8080''"
    by (simp_all add: to_ascii_lowercase_def lower_byte_def ascii)
  have a: "canonical_authority ''intranet'' 8080 = ''intranet:8080''" "is_bare_hostname ''intranet''"
    "\<not> contains_sub ''://'' ''intranet''"
    by (simp_all add: canonical_authority_def canonical_host_def show_nat.simps digit_char_def is_bare_hostname_def
        starts_with_def ascii char_of_def bit_iff_odd)
  have p: "plaintext_new [''intranet''] = Inr {''intranet''}"
    by (simp add: plaintext_new_def plaintext_entry_def Let_def starts_with_def t l a res_bind_def)
  have m: "authority_matches ''intranet:8080'' ''intranet'' 8080 ''http''"
    by (simp add: authority_matches_def t l a)
  have c: "plaintext_contains {''intranet''} ''intranet''" by (simp add: plaintext_contains_def l)
  show ?thesis
    using p m c reachable_settings_cover_enforcement [OF p _ m, of "[''intranet:8080'']" "[''x:1'']"] by simp
qed

end
