(* ===== verification/Http_Credential.thy ===== *)
theory Http_Credential
  imports Http_Destination "HOL-Library.Sublist"
begin

text \<open>
  Credentials bound to destinations (\<open>BoundCredential\<close> in \<open>dekopon-http-host/src/lib.rs\<close>): how a
  secret becomes the value of a header, for which destinations it may be sent, and the scans that keep a
  response from handing it back. A buffered response is searched whole; a streamed one is searched in a
  window that keeps only as many bytes as the longest secret needs. Both satisfy the contract
  \<open>echo_guard\<close>; \<open>streamed_scan_is_exact\<close> is the statement for the window. The encoding in base 64
  is the function of the crate \<open>base64\<close>, an argument here.
\<close>

section \<open>Credentials\<close>

definition MAX_CREDENTIAL_BYTES :: nat where "MAX_CREDENTIAL_BYTES = 4096"
definition MIN_CREDENTIAL_BYTES :: nat where "MIN_CREDENTIAL_BYTES = 16"
definition CHATGPT_ACCOUNT_HEADER :: string where "CHATGPT_ACCOUNT_HEADER = ''chatgpt-account-id''"

datatype configuration_error =
    ZeroCeiling string
  | InvalidGrant http_error
  | GrantExceedsCeiling
  | ZeroTimeout
  | TimeoutOverflow
  | InvalidSecretGrant grant_error
  | InvalidCredential string

record bound_credential =
  bc_header_value :: string
  bc_companion_header :: "(string \<times> string) option"
  bc_destinations :: "string list"
  bc_secret_binding :: "secret_use_grant option"
  bc_echo_values :: "string list"

definition is_destination_scope :: "string \<Rightarrow> bool" where
  "is_destination_scope v \<longleftrightarrow>
     v \<noteq> [] \<and> trim v = v
     \<and> \<not> list_ex (\<lambda>b. is_ascii_control b \<or> is_ascii_whitespace b) v
     \<and> \<not> list_ex (\<lambda>b. b \<in> {CHR ''/'', CHR ''?'', CHR ''#'', CHR ''@'', CHR ''*''}) v"

definition bearer :: "string \<Rightarrow> string \<Rightarrow> string list \<Rightarrow> (configuration_error, bound_credential) result" where
  "bearer scheme secret destinations =
     (if scheme = [] \<or> \<not> list_all is_ascii_graphic scheme
      then Inl (InvalidCredential ''scheme must be a printable ASCII token'')
      else if length secret < MIN_CREDENTIAL_BYTES
      then Inl (InvalidCredential ''secret is shorter than the 16-byte minimum'')
      else if length secret > MAX_CREDENTIAL_BYTES
      then Inl (InvalidCredential ''secret exceeds the credential byte limit'')
      else if \<not> list_all is_ascii_graphic secret
      then Inl (InvalidCredential ''secret contains whitespace, control, or non-ASCII bytes'')
      else if destinations = []
      then Inl (InvalidCredential ''at least one destination is required'')
      else if \<not> list_all is_destination_scope destinations
      then Inl (InvalidCredential ''destinations must be host or host:port authorities'')
      else Inr \<lparr>bc_header_value = scheme @ '' '' @ secret, bc_companion_header = None,
                bc_destinations = destinations, bc_secret_binding = None, bc_echo_values = [secret]\<rparr>)"

definition with_chatgpt_account :: "bound_credential \<Rightarrow> string \<Rightarrow> (configuration_error, bound_credential) result" where
  "with_chatgpt_account c account_id =
     (if (case bc_secret_binding c of None \<Rightarrow> True | Some grant \<Rightarrow> g_sink grant \<noteq> HttpBearer)
      then Inl (InvalidCredential ''a ChatGPT account accompanies only a secret-bound Bearer credential'')
      else if account_id = [] \<or> length account_id > MAX_CREDENTIAL_BYTES \<or> \<not> list_all is_ascii_graphic account_id
      then Inl (InvalidCredential ''ChatGPT account identifier must be a printable ASCII token'')
      else Inr (c\<lparr>bc_companion_header := Some (CHATGPT_ACCOUNT_HEADER, account_id)\<rparr>))"

definition secret_token ::
  "secret_sink_kind \<Rightarrow> string \<Rightarrow> string \<Rightarrow> secret_use_grant \<Rightarrow> (configuration_error, bound_credential) result" where
  "secret_token sink scheme secret grant =
     (if g_sink grant \<noteq> sink \<or> g_username grant \<noteq> None
      then Inl (InvalidCredential ''token material does not match the secret-use sink'')
      else if \<not> is_utf8 secret
      then Inl (InvalidCredential ''token secret must be UTF-8'')
      else if length secret < MIN_CREDENTIAL_BYTES
      then Inl (InvalidCredential ''token secret is shorter than the 16-byte minimum'')
      else if length secret > MAX_CREDENTIAL_BYTES
        \<or> list_ex (\<lambda>b. is_ascii_control b \<or> is_ascii_whitespace b) secret
      then Inl (InvalidCredential ''token secret must be bounded and free of whitespace or controls'')
      else Inr \<lparr>bc_header_value = scheme @ '' '' @ secret, bc_companion_header = None,
                bc_destinations = g_hosts grant, bc_secret_binding = Some grant, bc_echo_values = [secret]\<rparr>)"

definition secret_bearer :: "string \<Rightarrow> secret_use_grant \<Rightarrow> (configuration_error, bound_credential) result" where
  "secret_bearer secret grant = secret_token HttpBearer ''Bearer'' secret grant"

definition secret_bot :: "string \<Rightarrow> secret_use_grant \<Rightarrow> (configuration_error, bound_credential) result" where
  "secret_bot secret grant = secret_token HttpBot ''Bot'' secret grant"

definition secret_basic ::
  "(string \<Rightarrow> string) \<Rightarrow> string \<Rightarrow> secret_use_grant \<Rightarrow> (configuration_error, bound_credential) result" where
  "secret_basic encode password grant =
     (case g_username grant of
        None \<Rightarrow> Inl (InvalidCredential ''Basic secret use requires a fixed username'')
      | Some username \<Rightarrow>
          if length password < MIN_CREDENTIAL_BYTES
          then Inl (InvalidCredential ''Basic secret is shorter than the 16-byte minimum'')
          else if g_sink grant \<noteq> HttpBasic \<or> username = [] \<or> CHR '':'' \<in> set username
            \<or> list_ex is_ascii_control username \<or> length password > MAX_CREDENTIAL_BYTES
            \<or> CHR 0x0A \<in> set password \<or> CHR 0x0D \<in> set password
          then Inl (InvalidCredential ''Basic credential fields are structurally invalid'')
          else (let encoded = encode (username @ '':'' @ password)
                in Inr \<lparr>bc_header_value = ''Basic '' @ encoded, bc_companion_header = None,
                        bc_destinations = g_hosts grant, bc_secret_binding = Some grant,
                        bc_echo_values = [password, encoded]\<rparr>))"

definition destinations_cover :: "string list \<Rightarrow> string \<Rightarrow> bool" where
  "destinations_cover destinations allowed_host \<longleftrightarrow>
     (let allowed = to_ascii_lowercase (trim allowed_host)
      in list_ex (\<lambda>d. to_ascii_lowercase (trim d) = allowed) destinations)"

definition credential_covers :: "bound_credential \<Rightarrow> string \<Rightarrow> bool" where
  "credential_covers c allowed_host = destinations_cover (bc_destinations c) allowed_host"

definition credential_matches :: "bound_credential \<Rightarrow> string \<Rightarrow> nat \<Rightarrow> string \<Rightarrow> bool" where
  "credential_matches c host port scheme \<longleftrightarrow>
     list_ex (\<lambda>d. authority_matches d host port scheme) (bc_destinations c)"

definition matches_secret_grant :: "bound_credential \<Rightarrow> secret_use_grant option \<Rightarrow> bool" where
  "matches_secret_grant c grant =
     (case (bc_secret_binding c, grant) of
        (None, None) \<Rightarrow> True
      | (Some bound, Some g) \<Rightarrow> bound = g
      | _ \<Rightarrow> False)"

section \<open>Scans for the secret\<close>

text \<open>\<open>windows(n)\<close> are the runs of \<open>n\<close> bytes, one per position that has one.\<close>

definition contains_bytes :: "string \<Rightarrow> string \<Rightarrow> bool" where
  "contains_bytes bytes value \<longleftrightarrow>
     value \<noteq> [] \<and>
     list_ex (\<lambda>i. take (length value) (drop i bytes) = value) [0..<Suc (length bytes) - length value]"

definition scan_stream_chunk :: "bound_credential \<Rightarrow> string \<Rightarrow> string \<Rightarrow> nat \<Rightarrow> string \<times> nat option" where
  "scan_stream_chunk c window bytes overlap =
     (let window = window @ bytes
      in if list_ex (\<lambda>secret. secret \<noteq> [] \<and> contains_bytes window secret) (bc_echo_values c)
         then (window, None)
         else (window, Some (length window - min (length window) overlap)))"

definition echo_overlap :: "bound_credential \<Rightarrow> nat" where
  "echo_overlap c = foldl max 0 (map (\<lambda>secret. saturating_sub (length secret) 1) (bc_echo_values c))"

record header =
  hd_name :: string
  hd_value :: string

record response =
  rsp_status :: nat
  rsp_headers :: "header list"
  rsp_body :: string

definition echoes_credential :: "bound_credential \<Rightarrow> response \<Rightarrow> bool" where
  "echoes_credential c response \<longleftrightarrow>
     list_ex (\<lambda>secret. secret \<noteq> [] \<and>
        (contains_bytes (rsp_body response) secret
         \<or> list_ex (\<lambda>h. contains_bytes (hd_name h) secret \<or> contains_bytes (hd_value h) secret)
              (rsp_headers response))) (bc_echo_values c)"

text \<open>The loop of a streamed response over the pieces of its body: every piece is scanned with the window
  and what can be released is dropped from the window.\<close>

fun scan_pieces :: "bound_credential \<Rightarrow> nat \<Rightarrow> string \<Rightarrow> string list \<Rightarrow> string option" where
  "scan_pieces c overlap window [] = Some window"
| "scan_pieces c overlap window (bytes # rest) =
     (case scan_stream_chunk c window bytes overlap of
        (window', None) \<Rightarrow> None
      | (window', Some clean) \<Rightarrow> scan_pieces c overlap (drop clean window') rest)"

section \<open>What the scans accept\<close>

lemma contains_bytes_iff: "contains_bytes bytes v \<longleftrightarrow> v \<noteq> [] \<and> sublist v bytes"
proof (cases "v = []")
  case False
  have "sublist v bytes \<longleftrightarrow> (\<exists>i. i < Suc (length bytes) - length v \<and> take (length v) (drop i bytes) = v)"
  proof
    assume "sublist v bytes"
    then obtain a b where "bytes = a @ v @ b" by (auto simp: sublist_def)
    then show "\<exists>i. i < Suc (length bytes) - length v \<and> take (length v) (drop i bytes) = v"
      by (intro exI [of _ "length a"]) auto
  next
    assume "\<exists>i. i < Suc (length bytes) - length v \<and> take (length v) (drop i bytes) = v"
    then obtain i where "take (length v) (drop i bytes) = v" by blast
    then have "bytes = take i bytes @ v @ drop (length v) (drop i bytes)"
      by (metis append_take_drop_id)
    then show "sublist v bytes" unfolding sublist_def by blast
  qed
  with False show ?thesis by (auto simp: contains_bytes_def list_ex_iff)
qed (simp add: contains_bytes_def)

definition echoes :: "bound_credential \<Rightarrow> string \<Rightarrow> bool" where
  "echoes c bytes \<longleftrightarrow> (\<exists>secret \<in> set (bc_echo_values c). secret \<noteq> [] \<and> sublist secret bytes)"

lemma echoes_sublist: "echoes c window \<Longrightarrow> sublist window bytes \<Longrightarrow> echoes c bytes"
  unfolding echoes_def by (meson sublist_order.order_trans)

lemma foldl_max_ge: "(a::nat) \<le> foldl max a xs \<and> (\<forall>x \<in> set xs. x \<le> foldl max a xs)"
  by (induction xs arbitrary: a) (auto, (meson max.bounded_iff)+)

lemma echo_overlap_covers: "secret \<in> set (bc_echo_values c) \<Longrightarrow> length secret \<le> Suc (echo_overlap c)"
  using foldl_max_ge [of 0 "map (\<lambda>s. saturating_sub (length s) 1) (bc_echo_values c)"]
  by (fastforce simp: echo_overlap_def saturating_sub_def)

text \<open>The window holds the end of what was read, long enough for a secret that goes on in the next piece.\<close>

definition window_of :: "nat \<Rightarrow> string \<Rightarrow> string" where
  "window_of overlap bytes = drop (length bytes - overlap) bytes"

lemma echo_across:
  assumes "echoes c (old @ new)" "\<not> echoes c old"
  shows "echoes c (window_of (echo_overlap c) old @ new)"
proof -
  from assms(1) obtain secret where s: "secret \<in> set (bc_echo_values c)" "secret \<noteq> []" "sublist secret (old @ new)"
    by (auto simp: echoes_def)
  with assms(2) have "\<not> sublist secret old" by (auto simp: echoes_def)
  from s(3) obtain a b where ab: "old @ new = a @ secret @ b" by (auto simp: sublist_def)
  have "length old < length a + length secret"
  proof (rule ccontr)
    assume "\<not> length old < length a + length secret"
    with ab have "old = a @ secret @ take (length old - length a - length secret) b"
      by (simp add: append_eq_conv_conj take_append)
    with \<open>\<not> sublist secret old\<close> show False by (metis sublist_appendI)
  qed
  with echo_overlap_covers [OF s(1)] have le: "length old - echo_overlap c \<le> length a" by simp
  have "window_of (echo_overlap c) old @ new = drop (length old - echo_overlap c) (old @ new)"
    by (simp add: window_of_def)
  also have "\<dots> = drop (length old - echo_overlap c) a @ secret @ b"
    using le by (simp add: ab)
  finally have "sublist secret (window_of (echo_overlap c) old @ new)" by (metis sublist_appendI)
  with s show ?thesis by (auto simp: echoes_def)
qed

lemma scan_stream_chunk_window:
  assumes "\<not> echoes c old"
  shows "scan_stream_chunk c (window_of (echo_overlap c) old) new (echo_overlap c)
    = (window_of (echo_overlap c) old @ new,
       if echoes c (old @ new) then None
       else Some (length (window_of (echo_overlap c) old @ new) - min (length (window_of (echo_overlap c) old @ new)) (echo_overlap c)))"
proof -
  have "sublist (window_of (echo_overlap c) old @ new) (old @ new)"
    unfolding window_of_def by (metis append_take_drop_id append.assoc sublist_append_leftI)
  then have "echoes c (window_of (echo_overlap c) old @ new) \<longleftrightarrow> echoes c (old @ new)"
    using echo_across [OF _ assms] echoes_sublist by blast
  then show ?thesis
    by (auto simp: scan_stream_chunk_def Let_def contains_bytes_iff echoes_def list_ex_iff)
qed

lemma window_of_step:
  "drop (length (window_of k old @ new) - min (length (window_of k old @ new)) k) (window_of k old @ new)
    = window_of k (old @ new)"
  by (auto simp: window_of_def min_def intro: arg_cong [where f = "\<lambda>n. drop n old"])

lemma scan_pieces_step:
  assumes "\<not> echoes c old"
  shows "scan_pieces c (echo_overlap c) (window_of (echo_overlap c) old) (new # rest)
    = (if echoes c (old @ new) then None
       else scan_pieces c (echo_overlap c) (window_of (echo_overlap c) (old @ new)) rest)"
  unfolding scan_pieces.simps scan_stream_chunk_window [OF assms]
  by (simp only: window_of_step prod.case option.case if_True if_False split: if_split) blast

lemma scan_pieces_from:
  assumes "\<not> echoes c old"
  shows "scan_pieces c (echo_overlap c) (window_of (echo_overlap c) old) pieces
    = (if echoes c (old @ concat pieces) then None else Some (window_of (echo_overlap c) (old @ concat pieces)))"
  using assms
proof (induction pieces arbitrary: old)
  case Nil
  then show ?case by simp
next
  case (Cons new rest)
  show ?case
  proof (cases "echoes c (old @ new)")
    case True
    have "sublist (old @ new) (old @ new @ concat rest)" by (metis append.assoc sublist_append_rightI)
    with True have "echoes c (old @ new @ concat rest)" by (rule echoes_sublist)
    with True show ?thesis by (simp add: scan_pieces_step [OF Cons.prems] del: scan_pieces.simps)
  next
    case False
    with Cons.IH [of "old @ new"] show ?thesis by (simp add: scan_pieces_step [OF Cons.prems] del: scan_pieces.simps)
  qed
qed

lemma streamed_scan: "scan_pieces c (echo_overlap c) [] pieces \<noteq> None \<longleftrightarrow> \<not> echoes c (concat pieces)"
  using scan_pieces_from [of c "[]" pieces] by (simp add: window_of_def echoes_def)

section \<open>The contract of a scan\<close>

text \<open>Whether a body that arrives in pieces is let through: exactly when no secret occurs in it as a whole,
  however it was cut.\<close>

locale echo_guard =
  fixes accepts :: "bound_credential \<Rightarrow> string list \<Rightarrow> bool"
  assumes accepts_iff: "accepts c pieces \<longleftrightarrow> \<not> echoes c (concat pieces)"
begin

lemma nothing_released:
  "accepts c pieces \<Longrightarrow> secret \<in> set (bc_echo_values c) \<Longrightarrow> secret \<noteq> [] \<Longrightarrow> \<not> sublist secret (concat pieces)"
  by (auto simp: accepts_iff echoes_def)

lemma cut_is_irrelevant: "concat pieces = concat pieces' \<Longrightarrow> accepts c pieces = accepts c pieces'"
  by (simp add: accepts_iff)

lemma accepts_start: "accepts c (pieces @ rest) \<Longrightarrow> accepts c pieces"
  using echoes_sublist [of c "concat pieces" "concat pieces @ concat rest"] by (auto simp: accepts_iff)

end

definition buffered_accepts :: "bound_credential \<Rightarrow> string list \<Rightarrow> bool" where
  "buffered_accepts c pieces \<longleftrightarrow>
     \<not> echoes_credential c \<lparr>rsp_status = 200, rsp_headers = [], rsp_body = concat pieces\<rparr>"

definition streamed_accepts :: "bound_credential \<Rightarrow> string list \<Rightarrow> bool" where
  "streamed_accepts c pieces \<longleftrightarrow> scan_pieces c (echo_overlap c) [] pieces \<noteq> None"

interpretation buffered: echo_guard buffered_accepts
  by unfold_locales (auto simp: buffered_accepts_def echoes_credential_def echoes_def contains_bytes_iff list_ex_iff)

interpretation streamed: echo_guard streamed_accepts
  by unfold_locales (simp only: streamed_accepts_def streamed_scan)

lemma echoes_credential_iff:
  "echoes_credential c r \<longleftrightarrow>
     echoes c (rsp_body r) \<or> (\<exists>h \<in> set (rsp_headers r). echoes c (hd_name h) \<or> echoes c (hd_value h))"
  by (auto simp: echoes_credential_def echoes_def contains_bytes_iff list_ex_iff)

text \<open>C38: The scan of a streamed body, which keeps no more bytes than the longest secret less one, lets
  the body through exactly when the scan of the whole body does, however the body is cut into pieces;
  and what it lets through contains no secret.\<close>

theorem streamed_scan_is_exact:
  "(scan_pieces c (echo_overlap c) [] pieces \<noteq> None \<longleftrightarrow>
      \<not> echoes_credential c \<lparr>rsp_status = status, rsp_headers = [], rsp_body = concat pieces\<rparr>)
   \<and> (scan_pieces c (echo_overlap c) [] pieces \<noteq> None \<and> secret \<in> set (bc_echo_values c) \<and> secret \<noteq> [] \<longrightarrow>
      \<not> sublist secret (concat pieces))"
  using streamed.accepts_iff [of c pieces] streamed.nothing_released [of c pieces secret]
  unfolding streamed_accepts_def by (simp only: echoes_credential_iff response.simps) auto

theorem streamed_scan_is_exact_witness:
  "let c = \<lparr>bc_header_value = ''Bot abc'', bc_companion_header = None, bc_destinations = [],
            bc_secret_binding = None, bc_echo_values = [''abc'']\<rparr>
   in scan_pieces c (echo_overlap c) [] [''xa'', ''b'', ''d''] \<noteq> None
      \<and> \<not> sublist ''abc'' (concat [''xa'', ''b'', ''d''])
      \<and> scan_pieces c (echo_overlap c) [] [''xa'', ''b'', ''c''] = None"
proof -
  let ?c = "\<lparr>bc_header_value = ''Bot abc'', bc_companion_header = None, bc_destinations = [],
            bc_secret_binding = None, bc_echo_values = [''abc'']\<rparr>"
  have ok: "scan_pieces ?c (echo_overlap ?c) [] [''xa'', ''b'', ''d''] \<noteq> None"
    by (simp add: echo_overlap_def saturating_sub_def scan_stream_chunk_def contains_bytes_def Let_def upt_conv_Cons)
  moreover have "scan_pieces ?c (echo_overlap ?c) [] [''xa'', ''b'', ''c''] = None"
    by (simp add: echo_overlap_def saturating_sub_def scan_stream_chunk_def contains_bytes_def Let_def upt_conv_Cons)
  moreover have "\<not> sublist ''abc'' (concat [''xa'', ''b'', ''d''])"
    using ok streamed_scan_is_exact [of ?c "[''xa'', ''b'', ''d'']" 200 "''abc''"] by simp
  ultimately show ?thesis by (simp only: Let_def) blast
qed

end
