(* ===== verification/Http_Request.thy ===== *)
theory Http_Request
  imports Http_Credential
begin

text \<open>
  A request on its way out of the host (\<open>dekopon-http-host/src/lib.rs\<close>): errors and the violations
  they count as, the ceilings of the host, the templates that fill in a request's path and query, the
  accounting of its bytes, and \<open>prepare\<close>, which admits the request a guest asks for or refuses it.
  The crates \<open>http\<close> and \<open>percent-encoding\<close> are parameters of type \<open>http_lib\<close>; the clock, the
  lookup of names and the trace that is current are those of the environment \<open>call_env\<close>.
\<close>

section \<open>Errors\<close>

datatype error_code =
    InvalidMethodCode | InvalidUriCode | InvalidHeaderCode | RequestTooLargeCode | DeniedCode
  | HostCallLimitCode | DnsCode | ConnectCode | TlsCode | TimeoutCode | ProtocolCode
  | ResponseTooLargeCode | InternalCode

datatype byte_limit_key = MaxRequestBytes | MaxResponseBytes

fun byte_limit_key_str :: "byte_limit_key \<Rightarrow> string" where
  "byte_limit_key_str MaxRequestBytes = ''maxRequestBytes''"
| "byte_limit_key_str MaxResponseBytes = ''maxResponseBytes''"

fun byte_limit_code :: "byte_limit_key \<Rightarrow> error_code" where
  "byte_limit_code MaxRequestBytes = RequestTooLargeCode"
| "byte_limit_code MaxResponseBytes = ResponseTooLargeCode"

fun byte_limit_direction :: "byte_limit_key \<Rightarrow> string" where
  "byte_limit_direction MaxRequestBytes = ''request''"
| "byte_limit_direction MaxResponseBytes = ''response''"

record byte_limit_exceeded =
  bl_key :: byte_limit_key
  bl_limit :: nat
  bl_observed :: nat

definition byte_limit_display :: "byte_limit_exceeded \<Rightarrow> string" where
  "byte_limit_display b =
     ''the grant allows '' @ show_nat (bl_limit b) @ '' bytes and the '' @ byte_limit_direction (bl_key b)
     @ '' is at least '' @ show_nat (bl_observed b) @ '' bytes''"

record host_error =
  he_code :: error_code
  he_message :: string
  he_byte_limit :: "byte_limit_exceeded option"

definition MAX_ERROR_MESSAGE_BYTES :: nat where "MAX_ERROR_MESSAGE_BYTES = 256"

fun bounded_message_loop :: "string \<Rightarrow> string list \<Rightarrow> string" where
  "bounded_message_loop out [] = out"
| "bounded_message_loop out (character # rest) =
     (if length out + length character > MAX_ERROR_MESSAGE_BYTES then out
      else bounded_message_loop (out @ (if is_control (scalar character) then '' '' else character)) rest)"

definition bounded_message :: "string \<Rightarrow> string" where
  "bounded_message message = bounded_message_loop [] (utf8_chunks message)"

definition http_fail :: "error_code \<Rightarrow> string \<Rightarrow> host_error" where
  "http_fail code message =
     \<lparr>he_code = code, he_message = bounded_message message, he_byte_limit = None\<rparr>"

definition byte_limit_error :: "byte_limit_key \<Rightarrow> nat \<Rightarrow> nat \<Rightarrow> string \<Rightarrow> host_error" where
  "byte_limit_error key limit observed message =
     \<lparr>he_code = byte_limit_code key, he_message = bounded_message message,
      he_byte_limit = Some \<lparr>bl_key = key, bl_limit = limit, bl_observed = observed\<rparr>\<rparr>"

datatype policy_violation =
    ViolationDenied
  | ViolationRedirectRefused
  | ViolationHostCallLimit
  | ViolationInvalidHttpRequest
  | ViolationByteLimit "byte_limit_exceeded option"

fun violation_label :: "policy_violation \<Rightarrow> string" where
  "violation_label ViolationDenied = ''denied''"
| "violation_label ViolationRedirectRefused = ''redirect-refused''"
| "violation_label ViolationHostCallLimit = ''host-call-limit''"
| "violation_label ViolationInvalidHttpRequest = ''invalid-http-request''"
| "violation_label (ViolationByteLimit _) = ''byte-limit''"

definition violation_from_error :: "host_error \<Rightarrow> policy_violation option" where
  "violation_from_error e =
     (case he_code e of
        DeniedCode \<Rightarrow> Some ViolationDenied
      | HostCallLimitCode \<Rightarrow> Some ViolationHostCallLimit
      | InvalidMethodCode \<Rightarrow> Some ViolationInvalidHttpRequest
      | InvalidUriCode \<Rightarrow> Some ViolationInvalidHttpRequest
      | InvalidHeaderCode \<Rightarrow> Some ViolationInvalidHttpRequest
      | RequestTooLargeCode \<Rightarrow> Some (ViolationByteLimit (he_byte_limit e))
      | ResponseTooLargeCode \<Rightarrow> Some (ViolationByteLimit (he_byte_limit e))
      | _ \<Rightarrow> None)"

definition outcome_label :: "(host_error, 'a) result \<Rightarrow> string" where
  "outcome_label r =
     (case r of
        Inr _ \<Rightarrow> ''succeeded''
      | Inl e \<Rightarrow> (case violation_from_error e of None \<Rightarrow> ''failed'' | Some v \<Rightarrow> violation_label v))"

section \<open>Ceilings\<close>

definition DEFAULT_MAX_REQUESTS :: nat where "DEFAULT_MAX_REQUESTS = 32"
definition DEFAULT_MAX_REQUEST_BYTES :: nat where "DEFAULT_MAX_REQUEST_BYTES = 1024 * 1024"
definition DEFAULT_MAX_RESPONSE_BYTES :: nat where "DEFAULT_MAX_RESPONSE_BYTES = 4 * 1024 * 1024"
definition DEFAULT_MAX_HEADERS :: nat where "DEFAULT_MAX_HEADERS = 128"
definition DEFAULT_MAX_HEADER_BYTES :: nat where "DEFAULT_MAX_HEADER_BYTES = 64 * 1024"

record host_ceilings =
  ce_max_requests :: nat
  ce_max_request_bytes :: nat
  ce_max_response_bytes :: nat
  ce_max_headers :: nat
  ce_max_header_bytes :: nat
  ce_plaintext_hosts :: plaintext_hosts
  ce_extra_ca_bundles :: "string list"
  ce_non_public_https :: "string list"
  ce_loopback_pin :: "loopback_pin option"

definition default_ceilings :: host_ceilings where
  "default_ceilings =
     \<lparr>ce_max_requests = DEFAULT_MAX_REQUESTS, ce_max_request_bytes = DEFAULT_MAX_REQUEST_BYTES,
      ce_max_response_bytes = DEFAULT_MAX_RESPONSE_BYTES, ce_max_headers = DEFAULT_MAX_HEADERS,
      ce_max_header_bytes = DEFAULT_MAX_HEADER_BYTES, ce_plaintext_hosts = {}, ce_extra_ca_bundles = [],
      ce_non_public_https = [], ce_loopback_pin = None\<rparr>"

definition validate_configuration ::
  "http_constraints option \<Rightarrow> host_ceilings \<Rightarrow> nat \<Rightarrow> (configuration_error, unit) result" where
  "validate_configuration grant ceilings timeout =
     res_bind (for_each (\<lambda>(field, v). if v = (0::nat) then Inl (ZeroCeiling field) else Inr ())
       [(''max_requests'', ce_max_requests ceilings), (''max_request_bytes'', ce_max_request_bytes ceilings),
        (''max_response_bytes'', ce_max_response_bytes ceilings), (''max_headers'', ce_max_headers ceilings),
        (''max_header_bytes'', ce_max_header_bytes ceilings)]) (\<lambda>_.
     if timeout = 0 then Inl ZeroTimeout
     else case grant of
            None \<Rightarrow> Inr ()
          | Some g \<Rightarrow>
              res_bind (map_err InvalidGrant (validate_http g)) (\<lambda>_.
                if h_max_requests g > ce_max_requests ceilings
                  \<or> h_max_request_bytes g > ce_max_request_bytes ceilings
                  \<or> h_max_response_bytes g > ce_max_response_bytes ceilings
                then Inl GrantExceedsCeiling else Inr ()))"

section \<open>Requests and the libraries that read them\<close>

record http_request =
  hr_method :: string
  hr_uri :: string
  hr_headers :: "header list"
  hr_body :: string

record request_lengths =
  rl_literal :: nat
  rl_decoded_assets :: nat
  rl_total :: nat

text \<open>What the code uses of the crates \<open>http\<close> and \<open>percent-encoding\<close>: whether bytes are a method,
  the normal form of a header name, whether bytes or text are a header value, the text of a header value,
  and the decoding of a path. \<open>debug_text\<close> is the debug format of a string, which consults Unicode
  tables.\<close>

record http_lib =
  method_valid :: "string \<Rightarrow> bool"
  header_name_from :: "string \<Rightarrow> string option"
  header_value_valid :: "string \<Rightarrow> bool"
  header_text_valid :: "string \<Rightarrow> bool"
  header_value_text :: "string \<Rightarrow> string option"
  percent_decode_utf8 :: "string \<Rightarrow> string option"
  debug_text :: "string \<Rightarrow> string"

type_synonym header_map = "(string \<times> string) list"

definition header_append :: "header_map \<Rightarrow> string \<Rightarrow> string \<Rightarrow> header_map" where
  "header_append m name v = m @ [(name, v)]"

definition header_insert :: "header_map \<Rightarrow> string \<Rightarrow> string \<Rightarrow> header_map" where
  "header_insert m name v = filter (\<lambda>(n, _). n \<noteq> name) m @ [(name, v)]"

definition header_get_all :: "header_map \<Rightarrow> string \<Rightarrow> string list" where
  "header_get_all m name = map snd (filter (\<lambda>(n, _). n = name) m)"

text \<open>The path of a request that would carry a secret must have one reading only.\<close>

definition split_once_str :: "string \<Rightarrow> string \<Rightarrow> (string \<times> string) option" where
  "split_once_str p s =
     (case filter (\<lambda>i. starts_with p (drop i s)) [0..<Suc (length s)] of
        [] \<Rightarrow> None
      | i # _ \<Rightarrow> Some (take i s, drop (i + length p) s))"

definition before :: "char \<Rightarrow> string \<Rightarrow> string" where
  "before c s = (case split_once c s of None \<Rightarrow> s | Some (a, _) \<Rightarrow> a)"

definition secret_raw_path_is_ambiguous :: "string \<Rightarrow> bool" where
  "secret_raw_path_is_ambiguous uri =
     (case split_once_str ''://'' uri of
        None \<Rightarrow> True
      | Some (_, authority_and_path) \<Rightarrow>
          CHR 0x5C \<in> set authority_and_path \<or>
          (let raw_path = (case split_once CHR ''/'' authority_and_path of
                             None \<Rightarrow> ''/''
                           | Some (_, rest) \<Rightarrow> CHR ''/'' # rest);
               raw_path = before CHR ''?'' raw_path;
               raw_path = before CHR ''#'' raw_path
           in CHR ''%'' \<in> set raw_path \<or> contains_sub ''//'' raw_path
              \<or> list_ex (\<lambda>segment. segment = ''.'' \<or> segment = ''..'') (drop 1 (split_on CHR ''/'' raw_path))))"

definition is_forbidden_request_header :: "string \<Rightarrow> bool" where
  "is_forbidden_request_header name \<longleftrightarrow>
     name \<in> {''authorization'', CHATGPT_ACCOUNT_HEADER, ''connection'', ''content-length'', ''cookie'', ''host'',
             ''keep-alive'', ''proxy-authenticate'', ''proxy-authorization'', ''proxy-connection'', ''te'',
             ''traceparent'', ''tracestate'', ''trailer'', ''transfer-encoding'', ''upgrade''}"

definition is_forbidden_response_header :: "string \<Rightarrow> bool" where
  "is_forbidden_response_header name \<longleftrightarrow>
     name \<in> {''connection'', ''keep-alive'', ''proxy-authenticate'', ''proxy-authorization'', ''set-cookie'', ''te'',
             ''trailer'', ''transfer-encoding'', ''upgrade'', ''www-authenticate''}"

definition REQUEST_ENCODING_OVERHEAD_BYTES :: nat where "REQUEST_ENCODING_OVERHEAD_BYTES = 128"

definition encoded_request_bytes :: "string \<Rightarrow> string \<Rightarrow> nat \<Rightarrow> nat \<Rightarrow> nat option" where
  "encoded_request_bytes http_method uri header_bytes body_bytes =
     Option.bind (checked_add REQUEST_ENCODING_OVERHEAD_BYTES (length http_method)) (\<lambda>n.
     Option.bind (checked_add n (length uri)) (\<lambda>n.
     Option.bind (checked_add n header_bytes) (\<lambda>n. checked_add n body_bytes)))"

section \<open>Request templates\<close>

definition template_slot_value ::
  "(chat_slot \<times> string) list \<Rightarrow> request_template \<Rightarrow> chat_slot \<Rightarrow> (host_error, string) result" where
  "template_slot_value slots template slot =
     ok_or (http_fail DeniedCode
         (''request template '' @ request_display template @ '' needs {'' @ slot_str slot
          @ ''}, which this invocation lacks''))
       (map_of slots slot)"

definition check_query_key :: "http_lib \<Rightarrow> request_template \<Rightarrow> string \<Rightarrow> (host_error, unit) result" where
  "check_query_key H template key =
     (if map_of (q_pinned (t_query template)) key \<noteq> None
      then Inl (http_fail DeniedCode
             (''query key '' @ debug_text H key @ '' is host-filled by request template '' @ request_display template))
      else if key \<notin> set (q_allowed (t_query template))
      then Inl (http_fail DeniedCode
             (''request template '' @ request_display template @ '' does not allow one of the query keys''))
      else Inr ())"

definition template_segment ::
  "(chat_slot \<times> string) list \<Rightarrow> request_template \<Rightarrow> path_segment \<Rightarrow> (host_error, string) result" where
  "template_segment slots template segment =
     (case segment of Literal l \<Rightarrow> Inr l | Slot slot \<Rightarrow> template_slot_value slots template slot)"

definition decoded_segments :: "string \<Rightarrow> string list" where
  "decoded_segments decoded = (if decoded = ''/'' then [] else drop 1 (split_on CHR ''/'' decoded))"

definition find_template :: "http_constraints \<Rightarrow> string \<Rightarrow> string list \<Rightarrow> request_template option" where
  "find_template grant http_method segments =
     find (\<lambda>t. t_method t = http_method \<and> template_matches (t_path t) segments) (h_templates grant)"

definition fill_template ::
  "'u url_lib \<Rightarrow> http_lib \<Rightarrow> (chat_slot \<times> string) list \<Rightarrow> request_template \<Rightarrow> 'u \<Rightarrow> (host_error, 'u) result" where
  "fill_template U H slots template url =
     (let pairs = url_query_pairs U url
      in res_bind (for_each (check_query_key H template) (map fst pairs)) (\<lambda>_.
         res_bind (collect_results (template_segment slots template) (t_path template)) (\<lambda>path.
         res_bind (collect_results (\<lambda>(key, slot). res_bind (template_slot_value slots template slot) (\<lambda>v. Inr (key, v)))
                    (q_pinned (t_query template))) (\<lambda>pinned.
         res_bind (ok_or (http_fail InvalidUriCode ''URI cannot carry a path'') (url_with_segments U url path)) (\<lambda>url'.
           Inr (if pairs = [] \<and> pinned = [] then url_without_query U url'
                else url_with_pairs U url' (pairs @ pinned)))))))"

definition apply_request_templates ::
  "'u url_lib \<Rightarrow> http_lib \<Rightarrow> http_constraints \<Rightarrow> (chat_slot \<times> string) list \<Rightarrow> string \<Rightarrow> 'u \<Rightarrow> (host_error, 'u) result" where
  "apply_request_templates U H grant slots http_method url =
     (if h_templates grant = [] then Inr url
      else res_bind (ok_or (http_fail DeniedCode
               ''request path is not UTF-8 once decoded, so no request template matches'')
             (percent_decode_utf8 H (url_path U url))) (\<lambda>decoded.
           res_bind (ok_or (http_fail DeniedCode ''request matches no request template of this capability'')
             (find_template grant http_method (decoded_segments decoded))) (\<lambda>template.
           fill_template U H slots template url)))"

section \<open>The client of one invocation\<close>

record request_facts =
  rf_method :: string
  rf_host :: string
  rf_path :: string
  rf_query :: string
  rf_headers :: "(string \<times> string) list"
  rf_body :: "string option"
  rf_content_type :: "string option"

record call_evidence =
  cv_method :: string
  cv_authority :: string
  cv_status :: "nat option"
  cv_request_bytes :: nat
  cv_response_bytes :: nat
  cv_upstream_request_id :: "string option"
  cv_vm_session :: "string option"
  cv_credential_injected :: bool

text \<open>A client that was built for a destination: the host and the addresses it is pinned to and the
  certificates it trusts besides the system's.\<close>

record pinned_client =
  pc_host :: string
  pc_addresses :: "socket_addr list"
  pc_roots :: "string list"

record http_client =
  hc_grant :: "http_constraints option"
  hc_authorizer :: "(request_facts \<Rightarrow> bool) option"
  hc_secret_grant :: "secret_use_grant option"
  hc_credential :: "bound_credential option"
  hc_slots :: "(chat_slot \<times> string) list"
  hc_ceilings :: host_ceilings
  hc_timeout :: nat
  hc_deadline :: nat
  hc_calls :: nat
  hc_secret_injections :: nat
  hc_attempted :: bool
  hc_violation :: "policy_violation option"
  hc_asset_over_budget :: bool
  hc_evidence :: "call_evidence list"
  hc_resolved :: "string \<rightharpoonup> socket_addr list"
  hc_pinned :: "pinned_client option"

text \<open>The clock when a call starts, when it looks up a name and when it is sent, whether the lookup ran
  out of time and what it answers, and the trace that is current.\<close>

record trace_context =
  tr_trace_id :: nat
  tr_span_id :: nat
  tr_flags :: nat

record call_env =
  ev_start :: nat
  ev_resolve :: nat
  ev_send :: nat
  ev_lookup_elapsed :: bool
  ev_lookup :: "string \<Rightarrow> nat \<Rightarrow> socket_addr list option"
  ev_trace :: "trace_context option"

record 'u prepared_request =
  pr_method :: string
  pr_url :: 'u
  pr_headers :: header_map
  pr_body :: string
  pr_host :: string
  pr_authority :: string
  pr_addresses :: "socket_addr list"
  pr_request_bytes :: nat

definition client_new ::
  "nat \<Rightarrow> http_constraints option \<Rightarrow> secret_use_grant option \<Rightarrow> bound_credential option \<Rightarrow> host_ceilings \<Rightarrow> nat
    \<Rightarrow> (configuration_error, http_client) result" where
  "client_new now grant secret_grant credential ceilings timeout =
     (case instant_checked_add now timeout of
        None \<Rightarrow> Inl TimeoutOverflow
      | Some deadline \<Rightarrow>
          Inr \<lparr>hc_grant = grant, hc_authorizer = None, hc_secret_grant = secret_grant, hc_credential = credential,
               hc_slots = [], hc_ceilings = ceilings, hc_timeout = timeout, hc_deadline = deadline, hc_calls = 0,
               hc_secret_injections = 0, hc_attempted = False, hc_violation = None, hc_asset_over_budget = False,
               hc_evidence = [], hc_resolved = Map.empty, hc_pinned = None\<rparr>)"

definition client_disabled :: "nat \<Rightarrow> host_ceilings \<Rightarrow> nat \<Rightarrow> (configuration_error, http_client) result" where
  "client_disabled now ceilings timeout =
     res_bind (validate_configuration None ceilings timeout) (\<lambda>_. client_new now None None None ceilings timeout)"

definition client_authorized ::
  "nat \<Rightarrow> http_constraints \<Rightarrow> host_ceilings \<Rightarrow> nat \<Rightarrow> (configuration_error, http_client) result" where
  "client_authorized now grant ceilings timeout =
     res_bind (validate_configuration (Some grant) ceilings timeout) (\<lambda>_.
       client_new now (Some grant) None None ceilings timeout)"

definition client_with_credential ::
  "nat \<Rightarrow> http_constraints \<Rightarrow> bound_credential option \<Rightarrow> host_ceilings \<Rightarrow> nat \<Rightarrow> (configuration_error, http_client) result" where
  "client_with_credential now grant credential ceilings timeout =
     res_bind (validate_configuration (Some grant) ceilings timeout) (\<lambda>_.
       if (case credential of None \<Rightarrow> False | Some c \<Rightarrow> \<not> matches_secret_grant c None)
       then Inl (InvalidCredential ''DRN-bound credential requires an authorization-bound secret grant'')
       else client_new now (Some grant) None credential ceilings timeout)"

definition client_with_secret ::
  "nat \<Rightarrow> http_constraints \<Rightarrow> secret_use_grant \<Rightarrow> bound_credential \<Rightarrow> host_ceilings \<Rightarrow> nat
    \<Rightarrow> (configuration_error, http_client) result" where
  "client_with_secret now grant secret_grant credential ceilings timeout =
     res_bind (validate_configuration (Some grant) ceilings timeout) (\<lambda>_.
     res_bind (map_err InvalidSecretGrant (validate_grant secret_grant)) (\<lambda>_.
       if \<not> matches_secret_grant credential (Some secret_grant)
       then Inl (InvalidCredential ''resolved credential does not match the authorization-bound secret grant'')
       else client_new now (Some grant) (Some secret_grant) (Some credential) ceilings timeout))"

definition with_chat_slots :: "http_client \<Rightarrow> (chat_slot \<times> string) list \<Rightarrow> http_client" where
  "with_chat_slots c slots = c\<lparr>hc_slots := slots\<rparr>"

definition with_request_authorizer :: "http_client \<Rightarrow> (request_facts \<Rightarrow> bool) \<Rightarrow> http_client" where
  "with_request_authorizer c authorizer = c\<lparr>hc_authorizer := Some authorizer\<rparr>"

definition call_time_remaining :: "http_client \<Rightarrow> nat \<Rightarrow> (host_error, nat) result" where
  "call_time_remaining c now =
     (if now < hc_deadline c then Inr (hc_deadline c - now)
      else Inl (http_fail TimeoutCode ''invocation deadline expired''))"

section \<open>Preparing a request\<close>

definition ensure :: "bool \<Rightarrow> 'e \<Rightarrow> ('e, unit) result" where
  "ensure b e = (if b then Inr () else Inl e)"

lemma ensure_ok [res_simps]: "ensure b e = Inr u \<longleftrightarrow> b"
  by (simp add: ensure_def)

definition check_method :: "http_lib \<Rightarrow> http_constraints \<Rightarrow> string \<Rightarrow> (host_error, unit) result" where
  "check_method H grant m =
     res_bind (ensure (method_valid H m) (http_fail InvalidMethodCode ''method is not a valid HTTP token'')) (\<lambda>_.
     res_bind (ensure (list_all (\<lambda>b. \<not> is_ascii_lowercase b) m)
       (http_fail DeniedCode ''HTTP method must be uppercase'')) (\<lambda>_.
     ensure (m \<in> set (h_methods grant)) (http_fail DeniedCode ''HTTP method is not authorized for this invocation'')))"

definition check_request_bytes ::
  "http_constraints \<Rightarrow> string \<Rightarrow> string \<Rightarrow> nat \<Rightarrow> nat \<Rightarrow> (host_error, nat) result" where
  "check_request_bytes grant m uri header_bytes body_bytes =
     (case encoded_request_bytes m uri header_bytes body_bytes of
        None \<Rightarrow> Inl (http_fail RequestTooLargeCode ''request size overflowed'')
      | Some n \<Rightarrow>
          if n > h_max_request_bytes grant
          then Inl (byte_limit_error MaxRequestBytes (h_max_request_bytes grant) n
                 ''request exceeds the authorized byte limit'')
          else Inr n)"

text \<open>The URL, the host without brackets and in lower case, and the port.\<close>

definition check_url :: "'u url_lib \<Rightarrow> http_constraints \<Rightarrow> string \<Rightarrow> (host_error, 'u \<times> string \<times> nat) result" where
  "check_url U grant uri =
     res_bind (map_err (\<lambda>e. http_fail InvalidUriCode (''URI is not a valid absolute URL: '' @ e)) (url_parse U uri)) (\<lambda>url.
     res_bind (ensure (url_username U url = [] \<and> url_password U url = None \<and> url_fragment U url = None)
       (http_fail InvalidUriCode ''URI user information and fragments are prohibited'')) (\<lambda>_.
     res_bind (ok_or (http_fail InvalidUriCode ''URI has no host'') (url_host_str U url)) (\<lambda>host_str.
     res_bind (ok_or (http_fail InvalidUriCode ''URI scheme has no recognized default port'')
       (url_port_or_known_default U url)) (\<lambda>port.
     let host = to_ascii_lowercase (unbracketed_host host_str)
     in res_bind (ensure (list_ex (\<lambda>allowed. authority_matches allowed host port (url_scheme U url)) (h_hosts grant))
          (http_fail DeniedCode ''HTTP destination is not authorized for this invocation'')) (\<lambda>_.
        if url_scheme U url = ''https'' then Inr (url, host, port)
        else if url_scheme U url = ''http'' \<and> h_plaintext_loopback grant then Inr (url, host, port)
        else if url_scheme U url = ''http'' then Inl (http_fail DeniedCode ''plaintext HTTP is not authorized'')
        else Inl (http_fail InvalidUriCode ''only HTTP and HTTPS URLs are supported''))))))"

text \<open>The loop over the headers of a guest counts their bytes and keeps them under their normal names, once
  for the request and once for the facts a policy judges.\<close>

fun header_loop ::
  "http_lib \<Rightarrow> nat \<Rightarrow> nat \<Rightarrow> header_map \<Rightarrow> header_map \<Rightarrow> header list \<Rightarrow> (host_error, nat \<times> header_map \<times> header_map) result" where
  "header_loop H max_bytes bytes headers guest [] = Inr (bytes, headers, guest)"
| "header_loop H max_bytes bytes headers guest (h # rest) =
     res_bind (ok_or (http_fail RequestTooLargeCode ''request header size overflowed'')
       (Option.bind (checked_add bytes (length (hd_name h))) (\<lambda>n.
        Option.bind (checked_add n (length (hd_value h))) (\<lambda>n. checked_add n 4)))) (\<lambda>bytes.
     res_bind (ensure (bytes \<le> max_bytes) (http_fail RequestTooLargeCode ''request headers exceed the host limit'')) (\<lambda>_.
     res_bind (ok_or (http_fail InvalidHeaderCode ''request header name is invalid'')
       (header_name_from H (hd_name h))) (\<lambda>name.
     res_bind (ensure (\<not> is_forbidden_request_header name)
       (http_fail InvalidHeaderCode ''request header is broker-owned or hop-by-hop'')) (\<lambda>_.
     res_bind (ensure (header_value_valid H (hd_value h))
       (http_fail InvalidHeaderCode ''request header value is invalid'')) (\<lambda>_.
     header_loop H max_bytes bytes (header_append headers name (hd_value h)) (guest @ [(name, hd_value h)]) rest)))))"

text \<open>A content type is told to a policy when there is one and it is text.\<close>

definition single_content_type :: "http_lib \<Rightarrow> header_map \<Rightarrow> string option" where
  "single_content_type H headers =
     (case header_get_all headers ''content-type'' of [v] \<Rightarrow> header_value_text H v | _ \<Rightarrow> None)"

definition check_policy ::
  "'u url_lib \<Rightarrow> http_lib \<Rightarrow> http_client \<Rightarrow> http_request \<Rightarrow> request_lengths option \<Rightarrow> 'u \<Rightarrow> string \<Rightarrow> header_map \<Rightarrow> header_map
    \<Rightarrow> (host_error, unit) result" where
  "check_policy U H c request streamed url host headers guest =
     (case hc_authorizer c of
        None \<Rightarrow> Inr ()
      | Some authorize \<Rightarrow>
          ensure (authorize
              \<lparr>rf_method = hr_method request, rf_host = host, rf_path = url_path U url,
               rf_query = unwrap_or [] (url_query U url), rf_headers = guest,
               rf_body = (if streamed = None then Some (hr_body request) else None),
               rf_content_type = single_content_type H headers\<rparr>)
            (http_fail DeniedCode ''HTTP request denied by policy''))"

definition body_bytes_of :: "http_request \<Rightarrow> request_lengths option \<Rightarrow> nat" where
  "body_bytes_of request streamed = (case streamed of None \<Rightarrow> length (hr_body request) | Some l \<Rightarrow> rl_literal l)"

text \<open>The part of \<open>prepare\<close> before the lookup of the destination, which changes no state.\<close>

definition check_request ::
  "'u url_lib \<Rightarrow> http_lib \<Rightarrow> http_client \<Rightarrow> http_request \<Rightarrow> http_constraints \<Rightarrow> request_lengths option
    \<Rightarrow> (host_error, 'u \<times> string \<times> nat \<times> header_map \<times> nat) result" where
  "check_request U H c request grant streamed =
     (let m = hr_method request; body_bytes = body_bytes_of request streamed
      in res_bind (check_method H grant m) (\<lambda>_.
         res_bind (check_request_bytes grant m (hr_uri request) 0 body_bytes) (\<lambda>_.
         res_bind (check_url U grant (hr_uri request)) (\<lambda>(url, host, port).
         res_bind (apply_request_templates U H grant (hc_slots c) m url) (\<lambda>url.
         res_bind (ensure (\<not> (h_templates grant \<noteq> [] \<and> (m = ''GET'' \<or> m = ''HEAD'') \<and> (body_bytes > 0 \<or> streamed \<noteq> None)))
           (http_fail DeniedCode ''a request template's GET or HEAD rule takes no body'')) (\<lambda>_.
         res_bind (ensure (length (hr_headers request) \<le> ce_max_headers (hc_ceilings c))
           (http_fail RequestTooLargeCode ''request has too many headers'')) (\<lambda>_.
         res_bind (header_loop H (ce_max_header_bytes (hc_ceilings c)) 0 [] [] (hr_headers request)) (\<lambda>(header_bytes, headers, guest).
         res_bind (check_request_bytes grant m (url_as_str U url) header_bytes body_bytes) (\<lambda>request_bytes.
         res_bind (check_policy U H c request streamed url host headers guest) (\<lambda>_.
           Inr (url, host, port, headers, request_bytes)))))))))))"

definition resolve_destination :: "call_env \<Rightarrow> string \<Rightarrow> nat \<Rightarrow> (host_error, socket_addr list) result" where
  "resolve_destination env host port =
     res_bind (ok_or (http_fail DnsCode ''destination could not be resolved'') (ev_lookup env host port)) (\<lambda>addresses.
       ok_or (http_fail DnsCode ''destination resolved to no addresses'') (bounded_addresses addresses))"

definition looked_up_addresses ::
  "call_env \<Rightarrow> host_ceilings \<Rightarrow> string \<Rightarrow> string \<Rightarrow> nat \<Rightarrow> string \<Rightarrow> (host_error, socket_addr list) result" where
  "looked_up_addresses env ceilings scheme host port authority =
     (let lookup = (if ev_lookup_elapsed env then Inl (http_fail TimeoutCode ''destination resolution timed out'')
                    else resolve_destination env host port)
      in case ce_loopback_pin ceilings of
           Some pin \<Rightarrow> if lp_authority pin = authority \<and> scheme = ''https'' then Inr [lp_address pin] else lookup
         | None \<Rightarrow> lookup)"

definition resolved_addresses ::
  "call_env \<Rightarrow> http_client \<Rightarrow> string \<Rightarrow> string \<Rightarrow> nat \<Rightarrow> string \<Rightarrow> http_client \<times> (host_error, socket_addr list) result" where
  "resolved_addresses env c scheme host port authority =
     (case hc_resolved c authority of
        Some addresses \<Rightarrow> (c, Inr addresses)
      | None \<Rightarrow>
          state_bind (c, call_time_remaining c (ev_resolve env)) (\<lambda>c _.
          state_bind (c, looked_up_addresses env (hc_ceilings c) scheme host port authority) (\<lambda>c addresses.
            (c\<lparr>hc_resolved := (hc_resolved c)(authority \<mapsto> addresses)\<rparr>, Inr addresses))))"

definition check_addresses :: "host_ceilings \<Rightarrow> string \<Rightarrow> string \<Rightarrow> string \<Rightarrow> socket_addr list \<Rightarrow> (host_error, unit) result" where
  "check_addresses ceilings scheme host authority addresses =
     res_bind (ensure (plaintext_permitted scheme host addresses (ce_plaintext_hosts ceilings))
       (http_fail DeniedCode (''plaintext HTTP to '' @ host @
          '' is refused: not a loopback destination, and not listed in the broker's http.plaintextHosts''))) (\<lambda>_.
     if scheme = ''https''
     then (let non_public = authority \<in> set (ce_non_public_https ceilings);
               pinned_loopback = (case ce_loopback_pin ceilings of
                                    None \<Rightarrow> False
                                  | Some pin \<Rightarrow> lp_authority pin = authority \<and> addresses = [lp_address pin])
           in ensure (pinned_loopback \<or> https_addresses_permitted non_public addresses)
                (http_fail DeniedCode
                  (if non_public then ''non-public HTTPS requires private unicast addresses''
                   else ''destination resolved to a non-public address'')))
     else Inr ())"

definition prepare ::
  "'u url_lib \<Rightarrow> http_lib \<Rightarrow> call_env \<Rightarrow> http_client \<Rightarrow> http_request \<Rightarrow> http_constraints \<Rightarrow> request_lengths option
    \<Rightarrow> http_client \<times> (host_error, 'u prepared_request) result" where
  "prepare U H env c request grant streamed =
     state_bind (c, check_request U H c request grant streamed) (\<lambda>c (url, host, port, headers, request_bytes).
     let authority = canonical_authority host port
     in state_bind (resolved_addresses env c (url_scheme U url) host port authority) (\<lambda>c addresses.
        state_bind (c, check_addresses (hc_ceilings c) (url_scheme U url) host authority addresses) (\<lambda>c _.
          (c, Inr \<lparr>pr_method = hr_method request, pr_url = url, pr_headers = headers, pr_body = hr_body request,
                   pr_host = host, pr_authority = authority, pr_addresses = addresses,
                   pr_request_bytes = (case streamed of None \<Rightarrow> request_bytes | Some l \<Rightarrow> rl_total l)\<rparr>))))"

section \<open>What the crate for URLs promises\<close>

text \<open>Setting the path segments or the query of a URL leaves its other parts alone, and the pairs of a
  query that was set are the pairs given. A path set from segments decodes to them when they are plain:
  the crate skips dot segments, drops tabs and line breaks, and puts no slash after a first segment that
  is empty.\<close>

definition plain_segments :: "string list \<Rightarrow> bool" where
  "plain_segments segments \<longleftrightarrow>
     list_all (\<lambda>s. is_utf8 s \<and> s \<noteq> ''.'' \<and> s \<noteq> ''..'' \<and> list_all (\<lambda>c. byte c \<notin> {9, 10, 13}) s) segments
     \<and> (case segments of [] \<Rightarrow> True | first # rest \<Rightarrow> first \<noteq> [] \<or> rest = [])"

definition same_origin :: "'u url_lib \<Rightarrow> 'u \<Rightarrow> 'u \<Rightarrow> bool" where
  "same_origin U u v \<longleftrightarrow>
     url_scheme U u = url_scheme U v \<and> url_host_str U u = url_host_str U v
     \<and> url_port_or_known_default U u = url_port_or_known_default U v"

definition url_laws :: "'u url_lib \<Rightarrow> http_lib \<Rightarrow> bool" where
  "url_laws U H \<longleftrightarrow>
     (\<forall>u segments v. url_with_segments U u segments = Some v \<longrightarrow>
        same_origin U u v \<and> url_query_pairs U v = url_query_pairs U u
        \<and> (plain_segments segments \<longrightarrow>
             percent_decode_utf8 H (url_path U v) = Some (CHR ''/'' # join CHR ''/'' segments)))
     \<and> (\<forall>u pairs. same_origin U u (url_with_pairs U u pairs) \<and> url_path U (url_with_pairs U u pairs) = url_path U u
          \<and> url_query_pairs U (url_with_pairs U u pairs) = pairs)
     \<and> (\<forall>u. same_origin U u (url_without_query U u) \<and> url_path U (url_without_query U u) = url_path U u
          \<and> url_query_pairs U (url_without_query U u) = [])"

lemma same_origin_trans: "same_origin U a b \<Longrightarrow> same_origin U b c \<Longrightarrow> same_origin U a c"
  by (simp add: same_origin_def)

lemma fill_template_ok:
  assumes "url_laws U H" "fill_template U H slots t url = Inr url'"
  obtains path pinned where
    "\<forall>key \<in> fst ` set (url_query_pairs U url). key \<in> set (q_allowed (t_query t)) \<and> map_of (q_pinned (t_query t)) key = None"
    "list_all2 (\<lambda>segment v. template_segment slots t segment = Inr v) (t_path t) path"
    "list_all2 (\<lambda>(key, slot) (key', v). key' = key \<and> map_of slots slot = Some v) (q_pinned (t_query t)) pinned"
    "same_origin U url url'" "url_query_pairs U url' = url_query_pairs U url @ pinned"
    "plain_segments path \<longrightarrow>
       percent_decode_utf8 H (url_path U url') = Some (CHR ''/'' # join CHR ''/'' path)"
proof -
  from assms(2) obtain path pinned u where f:
    "\<forall>key \<in> set (map fst (url_query_pairs U url)). check_query_key H t key = Inr ()"
    "collect_results (template_segment slots t) (t_path t) = Inr path"
    "collect_results (\<lambda>(key, slot). res_bind (template_slot_value slots t slot) (\<lambda>v. Inr (key, v))) (q_pinned (t_query t)) = Inr pinned"
    "url_with_segments U url path = Some u"
    "url' = (if url_query_pairs U url = [] \<and> pinned = [] then url_without_query U u
             else url_with_pairs U u (url_query_pairs U url @ pinned))"
    by (auto simp: fill_template_def Let_def res_simps)
  have k: "\<forall>key \<in> fst ` set (url_query_pairs U url). key \<in> set (q_allowed (t_query t)) \<and> map_of (q_pinned (t_query t)) key = None"
    using f(1) by (auto simp: check_query_key_def split: if_splits)
  have q: "list_all2 (\<lambda>(key, slot) (key', v). key' = key \<and> map_of slots slot = Some v) (q_pinned (t_query t)) pinned"
    using f(3) unfolding collect_results_ok
    by (rule list_all2_mono) (auto simp: template_slot_value_def res_simps)
  have u: "same_origin U url u" "url_query_pairs U u = url_query_pairs U url"
    "plain_segments path \<longrightarrow>
       percent_decode_utf8 H (url_path U u) = Some (CHR ''/'' # join CHR ''/'' path)"
    using assms(1) f(4) by (auto simp: url_laws_def)
  have v: "same_origin U u url'" "url_path U url' = url_path U u" "url_query_pairs U url' = url_query_pairs U url @ pinned"
    using assms(1) f(5) by (auto simp: url_laws_def)
  show thesis
    using that [OF k f(2) [unfolded collect_results_ok] q same_origin_trans [OF u(1) v(1)] v(3)] u(3) v(2) by simp
qed

lemma find_Some_in: "find P xs = Some x \<Longrightarrow> x \<in> set xs \<and> P x"
  by (induction xs) (auto split: if_splits)

lemma apply_request_templates_origin:
  assumes "url_laws U H" "apply_request_templates U H grant slots m url = Inr url'"
  shows "same_origin U url url'"
proof (cases "h_templates grant = []")
  case True
  with assms(2) show ?thesis by (simp add: apply_request_templates_def same_origin_def)
next
  case False
  with assms(2) obtain t where "fill_template U H slots t url = Inr url'"
    by (auto simp: apply_request_templates_def res_simps)
  with assms(1) show ?thesis by (auto elim: fill_template_ok)
qed

lemma check_url_ok:
  assumes "check_url U grant uri = Inr (url, host, port)"
  shows "url_port_or_known_default U url = Some port"
    "\<exists>allowed \<in> set (h_hosts grant). authority_matches allowed host port (url_scheme U url)"
    "url_scheme U url = ''https'' \<or> (url_scheme U url = ''http'' \<and> h_plaintext_loopback grant)"
  using assms by (auto simp: check_url_def Let_def res_simps list_ex_iff split: if_splits)

text \<open>What a request is charged: a flat overhead, the method, the URL, the headers and a body.\<close>

definition request_charge :: "string \<Rightarrow> string \<Rightarrow> header list \<Rightarrow> nat \<Rightarrow> nat" where
  "request_charge m uri headers body_bytes =
     REQUEST_ENCODING_OVERHEAD_BYTES + length m + length uri
     + sum_list (map (\<lambda>h. length (hd_name h) + length (hd_value h) + 4) headers) + body_bytes"

lemma check_request_bytes_ok:
  "check_request_bytes grant m uri h b = Inr n \<Longrightarrow>
     n \<le> h_max_request_bytes grant \<and> n = REQUEST_ENCODING_OVERHEAD_BYTES + length m + length uri + h + b"
  by (auto simp: check_request_bytes_def encoded_request_bytes_def res_simps bind_eq_Some_conv
      split: option.splits if_splits)

lemma header_loop_bytes:
  assumes "header_loop H maximum n headers guest hs = Inr (n', headers', guest')"
  shows "n' = n + sum_list (map (\<lambda>h. length (hd_name h) + length (hd_value h) + 4) hs)"
  using assms
proof (induction hs arbitrary: n headers guest)
  case (Cons h hs)
  then obtain name where
    "header_loop H maximum (n + (length (hd_name h) + length (hd_value h) + 4)) (header_append headers name (hd_value h))
       (guest @ [(name, hd_value h)]) hs = Inr (n', headers', guest')"
    by (auto simp: res_simps bind_eq_Some_conv add.assoc)
  from Cons.IH [OF this] show ?case by simp
qed simp

lemma header_loop_allowed:
  assumes "header_loop H maximum n headers guest hs = Inr (n', headers', guest')"
    "list_all (\<lambda>(name, _). \<not> is_forbidden_request_header name) headers"
  shows "list_all (\<lambda>(name, _). \<not> is_forbidden_request_header name) headers'"
  using assms
  by (induction H maximum n headers guest hs rule: header_loop.induct)
    (auto simp: res_simps header_append_def)

lemma check_request_ok:
  assumes "check_request U H c request grant streamed = Inr (url', host, port, headers, n)"
  obtains url where "check_url U grant (hr_uri request) = Inr (url, host, port)"
    "apply_request_templates U H grant (hc_slots c) (hr_method request) url = Inr url'"
    "hr_method request \<in> set (h_methods grant)" "n \<le> h_max_request_bytes grant"
    "n = request_charge (hr_method request) (url_as_str U url') (hr_headers request) (body_bytes_of request streamed)"
    "list_all (\<lambda>(name, _). \<not> is_forbidden_request_header name) headers"
    "\<forall>authorize. hc_authorizer c = Some authorize \<longrightarrow>
       (\<exists>facts. authorize facts \<and> rf_method facts = hr_method request \<and> rf_host facts = host
          \<and> rf_path facts = url_path U url')"
proof -
  from assms obtain url hn guest where f: "check_method H grant (hr_method request) = Inr ()"
    "check_url U grant (hr_uri request) = Inr (url, host, port)"
    "apply_request_templates U H grant (hc_slots c) (hr_method request) url = Inr url'"
    "header_loop H (ce_max_header_bytes (hc_ceilings c)) 0 [] [] (hr_headers request) = Inr (hn, headers, guest)"
    "check_request_bytes grant (hr_method request) (url_as_str U url') hn (body_bytes_of request streamed) = Inr n"
    "check_policy U H c request streamed url' host headers guest = Inr ()"
    by (auto simp: check_request_def Let_def res_simps split: prod.splits)
  from f(1) have "hr_method request \<in> set (h_methods grant)" by (auto simp: check_method_def res_simps)
  moreover have "\<forall>authorize. hc_authorizer c = Some authorize \<longrightarrow>
       (\<exists>facts. authorize facts \<and> rf_method facts = hr_method request \<and> rf_host facts = host
          \<and> rf_path facts = url_path U url')"
    using f(6) by (fastforce simp: check_policy_def res_simps)
  ultimately show thesis
    using that f header_loop_allowed [OF f(4)] check_request_bytes_ok [OF f(5)] header_loop_bytes [OF f(4)]
    by (simp add: request_charge_def)
qed

section \<open>Templates fill in what the host knows\<close>

text \<open>C39: When a capability has request templates, the URL that is sent keeps scheme, host and port of
  the guest's, and one template of the guest's method matches the guest's path: the path sent is the
  template's, with the values of the invocation in its slots, as long as these segments are plain (no dot
  segment, tab or line break, and no empty first segment before others); the query sent is the guest's, whose keys the
  template allows and none of which it fills, followed by the pairs the template fills, with the values of
  the invocation.\<close>

theorem templated_request_is_filled:
  assumes "url_laws U H" "h_templates grant \<noteq> []" "apply_request_templates U H grant slots m url = Inr url'"
  shows "\<exists>t path pinned decoded. t \<in> set (h_templates grant) \<and> t_method t = m
    \<and> percent_decode_utf8 H (url_path U url) = Some decoded \<and> template_matches (t_path t) (decoded_segments decoded)
    \<and> list_all2 (\<lambda>segment v. case segment of Literal l \<Rightarrow> v = l | Slot slot \<Rightarrow> map_of slots slot = Some v) (t_path t) path
    \<and> list_all2 (\<lambda>(key, slot) (key', v). key' = key \<and> map_of slots slot = Some v) (q_pinned (t_query t)) pinned
    \<and> (\<forall>key \<in> fst ` set (url_query_pairs U url). key \<in> set (q_allowed (t_query t)) \<and> map_of (q_pinned (t_query t)) key = None)
    \<and> url_query_pairs U url' = url_query_pairs U url @ pinned
    \<and> (plain_segments path \<longrightarrow>
         percent_decode_utf8 H (url_path U url') = Some (CHR ''/'' # join CHR ''/'' path))
    \<and> same_origin U url url'"
proof -
  from assms(2,3) obtain decoded t where t: "percent_decode_utf8 H (url_path U url) = Some decoded"
    "find_template grant m (decoded_segments decoded) = Some t" "fill_template U H slots t url = Inr url'"
    by (auto simp: apply_request_templates_def res_simps)
  from t(2) have f: "t \<in> set (h_templates grant)" "t_method t = m" "template_matches (t_path t) (decoded_segments decoded)"
    by (auto simp: find_template_def dest: find_Some_in)
  have path: "list_all2 (\<lambda>segment v. case segment of Literal l \<Rightarrow> v = l | Slot slot \<Rightarrow> map_of slots slot = Some v) (t_path t) path"
    if "list_all2 (\<lambda>segment v. template_segment slots t segment = Inr v) (t_path t) path" for path
    using that by (rule list_all2_mono) (auto simp: template_segment_def template_slot_value_def res_simps split: path_segment.splits)
  show ?thesis
    by (rule fill_template_ok [OF assms(1) t(3)]) (use t(1) f path in blast)
qed

text \<open>A small library of URLs that keeps the laws: a URL is its parts, and nothing needs encoding.\<close>

record plain_url =
  pu_scheme :: string
  pu_host :: string
  pu_port :: nat
  pu_segments :: "string list"
  pu_pairs :: "(string \<times> string) list"

definition plain_urls :: "(string \<times> plain_url) list \<Rightarrow> plain_url url_lib" where
  "plain_urls known =
     \<lparr>url_parse = (\<lambda>s. case map_of known s of None \<Rightarrow> Inl ''unknown'' | Some u \<Rightarrow> Inr u),
      url_scheme = pu_scheme, url_username = (\<lambda>_. []), url_password = (\<lambda>_. None), url_host_str = (\<lambda>u. Some (pu_host u)),
      url_port = (\<lambda>u. Some (pu_port u)), url_port_or_known_default = (\<lambda>u. Some (pu_port u)),
      url_path = (\<lambda>u. CHR ''/'' # join CHR ''/'' (pu_segments u)),
      url_query = (\<lambda>u. if pu_pairs u = [] then None else Some (join CHR ''&'' (map (\<lambda>(k, v). k @ ''='' @ v) (pu_pairs u)))),
      url_fragment = (\<lambda>_. None), url_as_str = (\<lambda>u. pu_host u @ CHR ''/'' # join CHR ''/'' (pu_segments u)),
      url_query_pairs = pu_pairs, url_with_segments = (\<lambda>u segments. Some (u\<lparr>pu_segments := segments\<rparr>)),
      url_with_pairs = (\<lambda>u pairs. u\<lparr>pu_pairs := pairs\<rparr>), url_without_query = (\<lambda>u. u\<lparr>pu_pairs := []\<rparr>)\<rparr>"

definition plain_http :: http_lib where
  "plain_http =
     \<lparr>method_valid = is_http_token, header_name_from = (\<lambda>s. if is_http_token s then Some (to_ascii_lowercase s) else None),
      header_value_valid = list_all is_ascii_graphic, header_text_valid = list_all (\<lambda>b. 32 \<le> byte b \<and> byte b < 127),
      header_value_text = Some, percent_decode_utf8 = Some, debug_text = id\<rparr>"

lemma plain_url_laws: "url_laws (plain_urls known) plain_http"
  by (simp add: url_laws_def same_origin_def plain_urls_def plain_http_def)

definition history_template :: request_template where
  "history_template =
     \<lparr>t_method = ''GET'', t_path = [Literal ''api'', Slot ConversationId],
      t_query = \<lparr>q_pinned = [(''thread'', ConversationThread)], q_allowed = [''limit'']\<rparr>\<rparr>"

definition sample_grant :: http_constraints where
  "sample_grant =
     \<lparr>h_hosts = [''a.io''], h_methods = [''GET''], h_max_requests = 2, h_max_request_bytes = 4096,
      h_max_response_bytes = 4096, h_plaintext_loopback = False, h_propagate_trace = False,
      h_templates = [history_template], h_signed_download = None\<rparr>"

definition sample_url :: plain_url where
  "sample_url =
     \<lparr>pu_scheme = ''https'', pu_host = ''a.io'', pu_port = 443, pu_segments = [''api'', ''{conversation.id}''],
      pu_pairs = [(''limit'', ''5'')]\<rparr>"

theorem templated_request_is_filled_witness:
  "let slots = [(ConversationId, ''C1''), (ConversationThread, ''7'')];
       sent = sample_url\<lparr>pu_segments := [''api'', ''C1''], pu_pairs := [(''limit'', ''5''), (''thread'', ''7'')]\<rparr>
   in apply_request_templates (plain_urls []) plain_http sample_grant slots ''GET'' sample_url = Inr sent
      \<and> (\<exists>t pinned. t \<in> set (h_templates sample_grant) \<and> pu_pairs sent = pu_pairs sample_url @ pinned
           \<and> list_all2 (\<lambda>(key, slot) (key', v). key' = key \<and> map_of slots slot = Some v) (q_pinned (t_query t)) pinned)
      \<and> plain_segments [''api'', ''C1'']"
proof -
  let ?slots = "[(ConversationId, ''C1''), (ConversationThread, ''7'')]"
  let ?sent = "sample_url\<lparr>pu_segments := [''api'', ''C1''], pu_pairs := [(''limit'', ''5''), (''thread'', ''7'')]\<rparr>"
  have e: "apply_request_templates (plain_urls []) plain_http sample_grant ?slots ''GET'' sample_url = Inr ?sent"
    by (simp add: apply_request_templates_def sample_grant_def history_template_def plain_http_def plain_urls_def sample_url_def
        find_template_def decoded_segments_def template_matches_def strip_braces_def strip_suffix_def fill_template_def
        check_query_key_def template_segment_def template_slot_value_def Let_def)
  have "h_templates sample_grant \<noteq> []" by (simp add: sample_grant_def)
  from templated_request_is_filled [OF plain_url_laws this e]
  have sent: "\<exists>t pinned. t \<in> set (h_templates sample_grant) \<and> pu_pairs ?sent = pu_pairs sample_url @ pinned
      \<and> list_all2 (\<lambda>(key, slot) (key', v). key' = key \<and> map_of ?slots slot = Some v) (q_pinned (t_query t)) pinned"
    by (fastforce simp: plain_urls_def)
  have "plain_segments [''api'', ''C1'']" by (simp add: plain_segments_def)
  with e sent show ?thesis unfolding Let_def by blast
qed

end
