(* ===== verification/Process_Tree.thy ===== *)
theory Process_Tree
  imports Dekopon_Prelude
begin

text \<open>
  What a tree of scripts may use (\<open>dekopon-process\<close>: \<open>lib.rs\<close>, \<open>tree.rs\<close>,
  \<open>threads.rs\<close>, \<open>exit.rs\<close> and the \<open>Budget\<close> of \<open>dekopon-shell\<close>): steps,
  capability calls, bytes that values retain and threads. The counters are atomics that every clone
  of a context shares, so one state carries them and the calls of the clones are interleaved steps on
  it. A counter that is taken from and given back to is a pool; the laws of a pool give the
  accounting of the retained bytes, the calls and the threads alike.
\<close>

section \<open>Limits\<close>

definition DEFAULT_MAX_STEPS :: nat where "DEFAULT_MAX_STEPS = 100000"
definition DEFAULT_MAX_RECURSION_DEPTH :: nat where "DEFAULT_MAX_RECURSION_DEPTH = 32"
definition DEFAULT_MAX_OUTPUT_BYTES :: nat where "DEFAULT_MAX_OUTPUT_BYTES = 256 * 1024"
definition DEFAULT_MAX_OUTPUT_LINES :: nat where "DEFAULT_MAX_OUTPUT_LINES = 2000"
definition DEFAULT_TIMEOUT :: nat where "DEFAULT_TIMEOUT = 30 * 10 ^ 9"
definition DEFAULT_MAX_CAPABILITY_CALLS :: nat where "DEFAULT_MAX_CAPABILITY_CALLS = 32"
definition DEFAULT_MAX_VALUE_BYTES :: nat where "DEFAULT_MAX_VALUE_BYTES = 32 * 1024 * 1024"

record limits =
  max_steps :: nat
  max_recursion_depth :: nat
  max_output_bytes :: nat
  max_output_lines :: nat
  script_timeout :: nat
  max_capability_calls :: nat
  max_value_bytes :: nat

definition default_limits :: limits where
  "default_limits = \<lparr>max_steps = DEFAULT_MAX_STEPS, max_recursion_depth = DEFAULT_MAX_RECURSION_DEPTH,
     max_output_bytes = DEFAULT_MAX_OUTPUT_BYTES, max_output_lines = DEFAULT_MAX_OUTPUT_LINES,
     script_timeout = DEFAULT_TIMEOUT, max_capability_calls = DEFAULT_MAX_CAPABILITY_CALLS,
     max_value_bytes = DEFAULT_MAX_VALUE_BYTES\<rparr>"

datatype limit_exceeded =
    StepsExceeded nat
  | RecursionDepthExceeded nat
  | DeadlineExceeded nat
  | CapabilityCallsExceeded nat
  | ValueBytesExceeded nat
  | ShellThreadsExceeded nat
  | Cancelled

section \<open>Exit codes\<close>

definition EXIT_SUCCESS :: nat where "EXIT_SUCCESS = 0"
definition EXIT_FAILURE :: nat where "EXIT_FAILURE = 1"
definition EXIT_SYNTAX :: nat where "EXIT_SYNTAX = 2"
definition EXIT_TIMEOUT :: nat where "EXIT_TIMEOUT = 124"
definition EXIT_CANCELLED :: nat where "EXIT_CANCELLED = 130"
definition EXIT_DENIED :: nat where "EXIT_DENIED = 126"
definition EXIT_NOT_FOUND :: nat where "EXIT_NOT_FOUND = 127"

definition from_script_exit :: "int \<Rightarrow> nat" where
  "from_script_exit status = nat (status mod 256)"

lemma from_script_exit_byte: "from_script_exit status < 256"
  using pos_mod_bound [of 256 status] by (simp add: from_script_exit_def nat_less_iff)

section \<open>Atomic counters\<close>

definition u32_max :: nat where "u32_max = 2 ^ 32 - 1"

text \<open>\<open>fetch_update\<close> with a checked addition that must stay below a maximum, at the width whose
  greatest value is given.\<close>

definition fetch_add_within :: "nat \<Rightarrow> nat \<Rightarrow> nat \<Rightarrow> nat \<Rightarrow> nat option" where
  "fetch_add_within greatest maximum used n =
     (if used + n \<le> greatest \<and> used + n \<le> maximum then Some (used + n) else None)"

text \<open>\<open>fetch_sub\<close> wraps around.\<close>

definition fetch_sub :: "nat \<Rightarrow> nat \<Rightarrow> nat \<Rightarrow> nat" where
  "fetch_sub greatest used n = (used + (greatest + 1) - n) mod (greatest + 1)"

lemma fetch_sub_exact: "n \<le> used \<Longrightarrow> used \<le> greatest \<Longrightarrow> fetch_sub greatest used n = used - n"
proof -
  assume a: "n \<le> used" "used \<le> greatest"
  then have "used + (greatest + 1) - n = (used - n) + (greatest + 1)" by simp
  then have "fetch_sub greatest used n = (used - n) mod (greatest + 1)"
    unfolding fetch_sub_def by (simp only: mod_add_self2)
  with a show ?thesis by simp
qed

record call_budget =
  cb_used :: nat
  cb_maximum :: nat

definition call_budget_new :: "nat \<Rightarrow> call_budget" where
  "call_budget_new maximum = \<lparr>cb_used = 0, cb_maximum = maximum\<rparr>"

definition charge_call :: "call_budget \<Rightarrow> call_budget \<times> (limit_exceeded, unit) result" where
  "charge_call b =
     (case fetch_add_within u32_max (cb_maximum b) (cb_used b) 1 of
        None \<Rightarrow> (b, Inl (CapabilityCallsExceeded (cb_maximum b)))
      | Some used \<Rightarrow> (b\<lparr>cb_used := used\<rparr>, Inr ()))"

definition refund_call :: "call_budget \<Rightarrow> call_budget" where
  "refund_call b = b\<lparr>cb_used := fetch_sub u32_max (cb_used b) 1\<rparr>"

section \<open>Threads\<close>

text \<open>The semaphore holds the permits that are not out; \<open>reserve_many\<close> takes all it is asked for or
  nothing, as one permit for each thread.\<close>

record shell_threads =
  st_available :: nat
  st_maximum :: nat

definition shell_threads_new :: "nat \<Rightarrow> shell_threads" where
  "shell_threads_new maximum = \<lparr>st_available = maximum, st_maximum = maximum\<rparr>"

definition reserve_many :: "shell_threads \<Rightarrow> nat \<Rightarrow> shell_threads \<times> (limit_exceeded, nat list) result" where
  "reserve_many t count =
     (if count = 0 then (t, Inr [])
      else if count > u32_max \<or> count > st_available t then (t, Inl (ShellThreadsExceeded (st_maximum t)))
      else (t\<lparr>st_available := st_available t - count\<rparr>, Inr (replicate (count - 1) 1 @ [count - (count - 1)])))"

definition permit_drop :: "shell_threads \<Rightarrow> nat \<Rightarrow> shell_threads" where
  "permit_drop t permits = t\<lparr>st_available := st_available t + permits\<rparr>"

section \<open>The context of a tree\<close>

text \<open>An instant is a number of nanoseconds and must fit the seconds of an \<open>i64\<close>. A script timer is
  its deadline and whether it has fired.\<close>

record tree_context =
  tc_cancel :: "bool list"
  tc_timer :: "(nat \<times> bool) option"
  tc_deadline :: nat
  tc_calls :: call_budget
  tc_steps :: nat
  tc_retained :: nat
  tc_limits :: limits
  tc_threads :: shell_threads

record retained_bytes =
  rb_bytes :: nat
  rb_maximum :: nat

definition tree_new :: "nat \<Rightarrow> limits \<Rightarrow> call_budget \<Rightarrow> shell_threads \<Rightarrow> tree_context" where
  "tree_new started l calls threads =
     \<lparr>tc_cancel = [], tc_timer = None,
      tc_deadline = unwrap_or started (instant_checked_add started (script_timeout l)),
      tc_calls = calls, tc_steps = 0, tc_retained = 0, tc_limits = l, tc_threads = threads\<rparr>"

definition with_cancel :: "tree_context \<Rightarrow> bool list \<Rightarrow> tree_context" where
  "with_cancel t cancel = t\<lparr>tc_cancel := cancel\<rparr>"

definition with_parent_cancel :: "tree_context \<Rightarrow> bool \<Rightarrow> tree_context" where
  "with_parent_cancel t cancel = t\<lparr>tc_cancel := tc_cancel t @ [cancel]\<rparr>"

definition with_script_timer :: "tree_context \<Rightarrow> (nat \<times> bool) option \<Rightarrow> tree_context" where
  "with_script_timer t timer = t\<lparr>tc_timer := timer\<rparr>"

definition is_cancelled :: "tree_context \<Rightarrow> bool" where
  "is_cancelled t \<longleftrightarrow> list_ex (\<lambda>c. c) (tc_cancel t)"

definition script_timer_elapsed :: "tree_context \<Rightarrow> bool" where
  "script_timer_elapsed t \<longleftrightarrow> (case tc_timer t of None \<Rightarrow> False | Some (_, elapsed) \<Rightarrow> elapsed)"

definition deadline_exceeded :: "tree_context \<Rightarrow> limit_exceeded" where
  "deadline_exceeded t = DeadlineExceeded (script_timeout (tc_limits t) div 10 ^ 6)"

definition tree_charge_step :: "tree_context \<Rightarrow> tree_context \<times> (limit_exceeded, unit) result" where
  "tree_charge_step t =
     (if is_cancelled t then (t, Inl Cancelled)
      else if script_timer_elapsed t then (t, Inl (deadline_exceeded t))
      else case fetch_add_within u64_max (max_steps (tc_limits t)) (tc_steps t) 1 of
             None \<Rightarrow> (t, Inl (StepsExceeded (max_steps (tc_limits t))))
           | Some used \<Rightarrow> (t\<lparr>tc_steps := used\<rparr>, Inr ()))"

definition check_deadline :: "tree_context \<Rightarrow> nat \<Rightarrow> (limit_exceeded, unit) result" where
  "check_deadline t now =
     (if now \<ge> tc_deadline t \<or> script_timer_elapsed t then Inl (deadline_exceeded t) else Inr ())"

definition expired :: "tree_context \<Rightarrow> nat \<Rightarrow> bool" where
  "expired t now \<longleftrightarrow> now \<ge> tc_deadline t"

definition time_remaining :: "tree_context \<Rightarrow> nat \<Rightarrow> nat" where
  "time_remaining t now = (case tc_timer t of None \<Rightarrow> tc_deadline t - now | Some (deadline, _) \<Rightarrow> deadline - now)"

definition retain :: "tree_context \<Rightarrow> nat \<Rightarrow> tree_context \<times> (limit_exceeded, retained_bytes) result" where
  "retain t n =
     (case fetch_add_within u64_max (max_value_bytes (tc_limits t)) (tc_retained t) n of
        None \<Rightarrow> (t, Inl (ValueBytesExceeded (max_value_bytes (tc_limits t))))
      | Some used \<Rightarrow> (t\<lparr>tc_retained := used\<rparr>,
          Inr \<lparr>rb_bytes = n, rb_maximum = max_value_bytes (tc_limits t)\<rparr>))"

definition retained_grow ::
  "tree_context \<Rightarrow> retained_bytes \<Rightarrow> nat \<Rightarrow> tree_context \<times> retained_bytes \<times> (limit_exceeded, unit) result" where
  "retained_grow t r n =
     (case fetch_add_within u64_max (rb_maximum r) (tc_retained t) n of
        None \<Rightarrow> (t, r, Inl (ValueBytesExceeded (rb_maximum r)))
      | Some used \<Rightarrow> (t\<lparr>tc_retained := used\<rparr>, r\<lparr>rb_bytes := (rb_bytes r + n) mod 2 ^ 64\<rparr>, Inr ()))"

definition retained_shrink :: "tree_context \<Rightarrow> retained_bytes \<Rightarrow> nat \<Rightarrow> tree_context \<times> retained_bytes" where
  "retained_shrink t r n =
     (t\<lparr>tc_retained := fetch_sub u64_max (tc_retained t) n\<rparr>, r\<lparr>rb_bytes := fetch_sub u64_max (rb_bytes r) n\<rparr>)"

definition retained_drop :: "tree_context \<Rightarrow> retained_bytes \<Rightarrow> tree_context" where
  "retained_drop t r = t\<lparr>tc_retained := fetch_sub u64_max (tc_retained t) (rb_bytes r)\<rparr>"

text \<open>The shell's \<open>Budget\<close>: a step is charged before the deadline is read.\<close>

definition budget_charge_step :: "tree_context \<Rightarrow> nat \<Rightarrow> tree_context \<times> (limit_exceeded, unit) result" where
  "budget_charge_step t now =
     (case tree_charge_step t of (t, Inl e) \<Rightarrow> (t, Inl e) | (t, Inr _) \<Rightarrow> (t, check_deadline t now))"

definition budget_charge_capability_call :: "tree_context \<Rightarrow> tree_context \<times> (limit_exceeded, unit) result" where
  "budget_charge_capability_call t =
     (case charge_call (tc_calls t) of (calls, r) \<Rightarrow> (t\<lparr>tc_calls := calls\<rparr>, r))"

definition budget_refund_capability_call :: "tree_context \<Rightarrow> tree_context" where
  "budget_refund_capability_call t = t\<lparr>tc_calls := refund_call (tc_calls t)\<rparr>"

section \<open>Pools\<close>

text \<open>
  A pool holds an amount in use below a ceiling. What is taken from it is either in the hands of
  someone or given back, so the amounts that are out add up to what is in use.
\<close>

locale pool =
  fixes invar :: "'s \<Rightarrow> bool"
    and used :: "'s \<Rightarrow> nat"
    and ceiling :: "'s \<Rightarrow> nat"
    and amount :: "nat \<Rightarrow> bool"
    and draw :: "'s \<Rightarrow> nat \<Rightarrow> 's option"
    and give :: "'s \<Rightarrow> nat \<Rightarrow> 's"
  assumes draw_some: "invar s \<Longrightarrow> amount n \<Longrightarrow> draw s n = Some t \<Longrightarrow>
      invar t \<and> ceiling t = ceiling s \<and> used t = used s + n \<and> used t \<le> ceiling s"
    and draw_none: "invar s \<Longrightarrow> amount n \<Longrightarrow> draw s n = None \<Longrightarrow> ceiling s < used s + n"
    and give_back: "invar s \<Longrightarrow> used s \<le> ceiling s \<Longrightarrow> n \<le> used s \<Longrightarrow>
      invar (give s n) \<and> ceiling (give s n) = ceiling s \<and> used (give s n) = used s - n"
begin

definition accounted :: "'s \<Rightarrow> nat list \<Rightarrow> bool" where
  "accounted s out \<longleftrightarrow> invar s \<and> used s = sum_list out \<and> used s \<le> ceiling s"

lemma draw_keeps: "accounted s out \<Longrightarrow> amount n \<Longrightarrow> draw s n = Some t \<Longrightarrow> accounted t (n # out)"
  using draw_some [of s n t] by (simp add: accounted_def)

lemma draw_more_keeps:
  "accounted s (xs @ m # ys) \<Longrightarrow> amount n \<Longrightarrow> draw s n = Some t \<Longrightarrow> accounted t (xs @ (m + n) # ys)"
  using draw_some [of s n t] by (simp add: accounted_def)

lemma give_some_keeps: "accounted s (xs @ m # ys) \<Longrightarrow> n \<le> m \<Longrightarrow> accounted (give s n) (xs @ (m - n) # ys)"
  using give_back [of s n] by (auto simp: accounted_def)

lemma give_all_keeps: "accounted s (xs @ m # ys) \<Longrightarrow> accounted (give s m) (xs @ ys)"
  using give_back [of s m] by (auto simp: accounted_def)

lemma draw_iff: "accounted s out \<Longrightarrow> amount n \<Longrightarrow> draw s n \<noteq> None \<longleftrightarrow> sum_list out + n \<le> ceiling s"
  using draw_some [of s n] draw_none [of s n] by (cases "draw s n") (auto simp: accounted_def)

lemma kept_elsewhere:
  "accounted s out \<Longrightarrow> invar t \<Longrightarrow> used t = used s \<Longrightarrow> ceiling t = ceiling s \<Longrightarrow> accounted t out"
  by (simp add: accounted_def)

end

text \<open>The bytes values retain, seen as a pool.\<close>

definition retain_more :: "tree_context \<Rightarrow> nat \<Rightarrow> tree_context option" where
  "retain_more t n = (case retain t n of (t', Inr _) \<Rightarrow> Some t' | (_, Inl _) \<Rightarrow> None)"

definition retained_ceiling :: "tree_context \<Rightarrow> nat" where
  "retained_ceiling t = min u64_max (max_value_bytes (tc_limits t))"

interpretation bytes: pool "\<lambda>_. True" tc_retained retained_ceiling "\<lambda>_. True" retain_more
  "\<lambda>t n. fst (retained_shrink t \<lparr>rb_bytes = n, rb_maximum = 0\<rparr> n)"
proof unfold_locales
  fix t n t'
  assume "retain_more t n = Some t'"
  then show "True \<and> retained_ceiling t' = retained_ceiling t \<and> tc_retained t' = tc_retained t + n \<and>
      tc_retained t' \<le> retained_ceiling t"
    by (auto simp: retain_more_def retain_def fetch_add_within_def retained_ceiling_def split: if_splits)
next
  fix t n
  assume "retain_more t n = None"
  then show "retained_ceiling t < tc_retained t + n"
    by (auto simp: retain_more_def retain_def fetch_add_within_def retained_ceiling_def split: if_splits)
next
  fix t n
  assume "tc_retained t \<le> retained_ceiling t" "n \<le> tc_retained t"
  then show "True \<and> retained_ceiling (fst (retained_shrink t \<lparr>rb_bytes = n, rb_maximum = 0\<rparr> n)) = retained_ceiling t \<and>
      tc_retained (fst (retained_shrink t \<lparr>rb_bytes = n, rb_maximum = 0\<rparr> n)) = tc_retained t - n"
    by (simp add: retained_shrink_def retained_ceiling_def fetch_sub_exact)
qed

text \<open>Calls are charged and refunded one at a time.\<close>

definition charge_one :: "call_budget \<Rightarrow> nat \<Rightarrow> call_budget option" where
  "charge_one b n = (case charge_call b of (b', Inr _) \<Rightarrow> Some b' | (_, Inl _) \<Rightarrow> None)"

fun refund_calls :: "call_budget \<Rightarrow> nat \<Rightarrow> call_budget" where
  "refund_calls b 0 = b"
| "refund_calls b (Suc n) = refund_calls (refund_call b) n"

definition call_ceiling :: "call_budget \<Rightarrow> nat" where
  "call_ceiling b = min u32_max (cb_maximum b)"

lemma refund_calls_keep:
  assumes "cb_used b \<le> call_ceiling b" "n \<le> cb_used b"
  shows "call_ceiling (refund_calls b n) = call_ceiling b \<and> cb_used (refund_calls b n) = cb_used b - n"
  using assms
proof (induction b n rule: refund_calls.induct)
  case (1 b)
  then show ?case by simp
next
  case (2 b n)
  then have "cb_used (refund_call b) = cb_used b - 1" "call_ceiling (refund_call b) = call_ceiling b"
    by (simp_all add: refund_call_def call_ceiling_def fetch_sub_exact)
  with 2 show ?case by simp
qed

interpretation calls: pool "\<lambda>_. True" cb_used call_ceiling "\<lambda>n. n = 1" charge_one refund_calls
proof unfold_locales
  fix b n b'
  assume "n = 1" "charge_one b n = Some b'"
  then show "True \<and> call_ceiling b' = call_ceiling b \<and> cb_used b' = cb_used b + n \<and> cb_used b' \<le> call_ceiling b"
    by (auto simp: charge_one_def charge_call_def fetch_add_within_def call_ceiling_def split: if_splits)
next
  fix b n
  assume "n = 1" "charge_one b n = None"
  then show "call_ceiling b < cb_used b + n"
    by (auto simp: charge_one_def charge_call_def fetch_add_within_def call_ceiling_def split: if_splits)
qed (use refund_calls_keep in blast)

text \<open>Permits that are out are what the semaphore misses.\<close>

definition reserve_threads :: "shell_threads \<Rightarrow> nat \<Rightarrow> shell_threads option" where
  "reserve_threads t n = (case reserve_many t n of (t', Inr _) \<Rightarrow> Some t' | (_, Inl _) \<Rightarrow> None)"

definition threads_valid :: "shell_threads \<Rightarrow> bool" where
  "threads_valid t \<longleftrightarrow> st_available t \<le> st_maximum t \<and> st_maximum t \<le> u32_max"

interpretation threads: pool threads_valid "\<lambda>t. st_maximum t - st_available t" st_maximum "\<lambda>_. True"
  reserve_threads permit_drop
  by unfold_locales
    (auto simp: reserve_threads_def reserve_many_def permit_drop_def threads_valid_def split: if_splits)

section \<open>Runs of a tree\<close>

text \<open>
  The clones of a context take and give back in any order, while signals are raised and timers fire.
  A state carries the handles, the charged calls and the permits that are out.
\<close>

inductive tree_run ::
  "tree_context \<Rightarrow> tree_context \<Rightarrow> retained_bytes list \<Rightarrow> nat list \<Rightarrow> nat list \<Rightarrow> bool"
  for t0 :: tree_context where
  start: "tree_run t0 t0 [] [] []"
| signals: "tree_run t0 t hs cs ps \<Longrightarrow> tree_run t0 (t\<lparr>tc_cancel := cancel, tc_timer := timer\<rparr>) hs cs ps"
| step: "tree_run t0 t hs cs ps \<Longrightarrow> budget_charge_step t now = (t', r) \<Longrightarrow> tree_run t0 t' hs cs ps"
| retained: "tree_run t0 t hs cs ps \<Longrightarrow> retain t n = (t', Inr h) \<Longrightarrow> tree_run t0 t' (h # hs) cs ps"
| not_retained: "tree_run t0 t hs cs ps \<Longrightarrow> retain t n = (t', Inl e) \<Longrightarrow> tree_run t0 t' hs cs ps"
| grown: "tree_run t0 t (xs @ h # ys) cs ps \<Longrightarrow> retained_grow t h n = (t', h', r) \<Longrightarrow>
    tree_run t0 t' (xs @ h' # ys) cs ps"
| shrunk: "tree_run t0 t (xs @ h # ys) cs ps \<Longrightarrow> n \<le> rb_bytes h \<Longrightarrow> retained_shrink t h n = (t', h') \<Longrightarrow>
    tree_run t0 t' (xs @ h' # ys) cs ps"
| dropped: "tree_run t0 t (xs @ h # ys) cs ps \<Longrightarrow> tree_run t0 (retained_drop t h) (xs @ ys) cs ps"
| called: "tree_run t0 t hs cs ps \<Longrightarrow> budget_charge_capability_call t = (t', Inr u) \<Longrightarrow>
    tree_run t0 t' hs (1 # cs) ps"
| not_called: "tree_run t0 t hs cs ps \<Longrightarrow> budget_charge_capability_call t = (t', Inl e) \<Longrightarrow>
    tree_run t0 t' hs cs ps"
| refunded: "tree_run t0 t hs (1 # cs) ps \<Longrightarrow> tree_run t0 (budget_refund_capability_call t) hs cs ps"
| reserved: "tree_run t0 t hs cs ps \<Longrightarrow> reserve_many (tc_threads t) n = (ts, Inr permits) \<Longrightarrow>
    tree_run t0 (t\<lparr>tc_threads := ts\<rparr>) hs cs (permits @ ps)"
| not_reserved: "tree_run t0 t hs cs ps \<Longrightarrow> reserve_many (tc_threads t) n = (ts, Inl e) \<Longrightarrow>
    tree_run t0 (t\<lparr>tc_threads := ts\<rparr>) hs cs ps"
| released: "tree_run t0 t hs cs (xs @ p # ys) \<Longrightarrow>
    tree_run t0 (t\<lparr>tc_threads := permit_drop (tc_threads t) p\<rparr>) hs cs (xs @ ys)"

definition tree_ok :: "limits \<Rightarrow> tree_context \<Rightarrow> retained_bytes list \<Rightarrow> nat list \<Rightarrow> nat list \<Rightarrow> bool" where
  "tree_ok l t hs cs ps \<longleftrightarrow>
     tc_limits t = l \<and> tc_steps t \<le> max_steps l \<and>
     bytes.accounted t (map rb_bytes hs) \<and> list_all (\<lambda>h. rb_maximum h = max_value_bytes l) hs \<and>
     calls.accounted (tc_calls t) cs \<and> threads.accounted (tc_threads t) ps"

lemma bytes_elsewhere: "tc_retained t' = tc_retained t \<Longrightarrow> tc_limits t' = tc_limits t \<Longrightarrow>
    bytes.accounted t' out = bytes.accounted t out"
  by (simp add: bytes.accounted_def retained_ceiling_def)

lemma budget_step_elsewhere:
  assumes "budget_charge_step t now = (t', r)"
  shows "tc_limits t' = tc_limits t" "tc_retained t' = tc_retained t" "tc_calls t' = tc_calls t"
    "tc_threads t' = tc_threads t" "tc_steps t \<le> max_steps (tc_limits t) \<Longrightarrow> tc_steps t' \<le> max_steps (tc_limits t)"
  using assms
  by (auto simp: budget_charge_step_def tree_charge_step_def fetch_add_within_def split: if_splits)

lemma bytes_member_le: "bytes.accounted t (xs @ m # ys) \<Longrightarrow> m \<le> tc_retained t \<and> tc_retained t \<le> u64_max"
  by (auto simp: bytes.accounted_def retained_ceiling_def)

lemma retain_keeps:
  assumes "bytes.accounted t out" "retain t n = (t', Inr h)"
  shows "bytes.accounted t' (rb_bytes h # out)" "rb_bytes h = n" "rb_maximum h = max_value_bytes (tc_limits t)"
    "t' = t\<lparr>tc_retained := tc_retained t'\<rparr>"
proof -
  have "retain_more t n = Some t'" using assms(2) by (simp add: retain_more_def)
  moreover show "rb_bytes h = n" "rb_maximum h = max_value_bytes (tc_limits t)" "t' = t\<lparr>tc_retained := tc_retained t'\<rparr>"
    using assms(2) by (auto simp: retain_def split: option.splits)
  ultimately show "bytes.accounted t' (rb_bytes h # out)" using bytes.draw_keeps [OF assms(1)] by simp
qed

lemma grow_keeps:
  assumes "bytes.accounted t (xs @ rb_bytes h # ys)" "rb_maximum h = max_value_bytes (tc_limits t)"
    "retained_grow t h n = (t', h', r)"
  shows "bytes.accounted t' (xs @ rb_bytes h' # ys)" "rb_maximum h' = rb_maximum h" "t' = t\<lparr>tc_retained := tc_retained t'\<rparr>"
proof -
  show "rb_maximum h' = rb_maximum h" "t' = t\<lparr>tc_retained := tc_retained t'\<rparr>"
    using assms(3) by (auto simp: retained_grow_def split: option.splits)
  show "bytes.accounted t' (xs @ rb_bytes h' # ys)"
  proof (cases "retain_more t n")
    case None
    with assms show ?thesis
      by (auto simp: retained_grow_def retain_more_def retain_def split: option.splits)
  next
    case (Some u)
    with assms(2,3) have eq: "u = t'" "rb_bytes h' = (rb_bytes h + n) mod 2 ^ 64"
      by (auto simp: retained_grow_def retain_more_def retain_def split: option.splits)
    from bytes.draw_more_keeps [OF assms(1) _ Some] have acc: "bytes.accounted t' (xs @ (rb_bytes h + n) # ys)"
      unfolding eq(1) by simp
    then have "rb_bytes h + n < 2 ^ 64" using bytes_member_le [OF acc] by (simp add: u64_max_def)
    with acc eq(2) show ?thesis by (simp add: mod_less)
  qed
qed

lemma shrink_keeps:
  assumes "bytes.accounted t (xs @ rb_bytes h # ys)" "n \<le> rb_bytes h" "retained_shrink t h n = (t', h')"
  shows "bytes.accounted t' (xs @ rb_bytes h' # ys)" "rb_maximum h' = rb_maximum h" "t' = t\<lparr>tc_retained := tc_retained t'\<rparr>"
proof -
  show "rb_maximum h' = rb_maximum h" "t' = t\<lparr>tc_retained := tc_retained t'\<rparr>"
    using assms(3) by (auto simp: retained_shrink_def)
  have "rb_bytes h' = rb_bytes h - n"
    using bytes_member_le [OF assms(1)] assms(2,3) by (auto simp: retained_shrink_def fetch_sub_exact)
  moreover have "t' = fst (retained_shrink t \<lparr>rb_bytes = n, rb_maximum = 0\<rparr> n)"
    using assms(3) by (auto simp: retained_shrink_def)
  ultimately show "bytes.accounted t' (xs @ rb_bytes h' # ys)" using bytes.give_some_keeps [OF assms(1,2)] by simp
qed

lemma drop_keeps: "bytes.accounted t (xs @ rb_bytes h # ys) \<Longrightarrow> bytes.accounted (retained_drop t h) (xs @ ys)"
  using bytes.give_all_keeps [of t xs "rb_bytes h" ys] by (simp add: retained_shrink_def retained_drop_def)

lemma call_keeps:
  assumes "calls.accounted (tc_calls t) cs" "budget_charge_capability_call t = (t', Inr u)"
  shows "calls.accounted (tc_calls t') (1 # cs)"
proof -
  have "charge_one (tc_calls t) 1 = Some (tc_calls t')"
    using assms(2) by (auto simp: budget_charge_capability_call_def charge_one_def split: prod.splits sum.splits)
  then show ?thesis using calls.draw_keeps [OF assms(1)] by simp
qed

lemma refund_keeps: "calls.accounted b (1 # cs) \<Longrightarrow> calls.accounted (refund_call b) cs"
  using calls.give_all_keeps [of b "[]" 1 cs] by simp

lemma threads_reserve_keeps:
  assumes "threads.accounted t ps" "reserve_many t n = (t', Inr permits)"
  shows "threads.accounted t' (permits @ ps)"
proof -
  have "reserve_threads t n = Some t'" using assms(2) by (simp add: reserve_threads_def)
  then have "threads.accounted t' (n # ps)" using threads.draw_keeps [OF assms(1)] by simp
  moreover have "sum_list permits = n"
    using assms(2) by (auto simp: reserve_many_def sum_list_replicate split: if_splits)
  ultimately show ?thesis by (auto simp: threads.accounted_def)
qed

lemma refused_unchanged:
  "retain t n = (t', Inl e) \<Longrightarrow> t' = t" "budget_charge_capability_call t = (t', Inl e) \<Longrightarrow> t' = t"
  "reserve_many ts n = (ts', Inl e) \<Longrightarrow> ts' = ts"
  by (auto simp: retain_def budget_charge_capability_call_def charge_call_def reserve_many_def
      split: option.splits if_splits)

lemma call_elsewhere:
  assumes "budget_charge_capability_call t = (t', r)"
  shows "tc_limits t' = tc_limits t" "tc_retained t' = tc_retained t" "tc_steps t' = tc_steps t"
    "tc_threads t' = tc_threads t"
  using assms by (auto simp: budget_charge_capability_call_def split: prod.splits)

lemma tree_run_ok:
  assumes "tree_run t0 t hs cs ps" "tree_ok l t0 [] [] []"
  shows "tree_ok l t hs cs ps"
  using assms
proof (induction rule: tree_run.induct)
  case start
  then show ?case .
next
  case (signals t hs cs ps cancel timer)
  then show ?case by (auto simp: tree_ok_def bytes.accounted_def retained_ceiling_def)
next
  case (step t hs cs ps now t' r)
  with budget_step_elsewhere [OF step(2)] show ?case
    by (simp add: tree_ok_def bytes_elsewhere [of t' t])
next
  case (retained t hs cs ps n t' h)
  then have acc: "bytes.accounted t (map rb_bytes hs)" by (simp add: tree_ok_def)
  note k = retain_keeps [OF acc retained(2)]
  from retained.IH [OF retained.prems] k(1,3) show ?case
    unfolding tree_ok_def by (subst (1 2 4 5) k(4)) simp
next
  case (not_retained t hs cs ps n t' e)
  then show ?case using refused_unchanged(1) by blast
next
  case (grown t xs h ys cs ps n t' h' r)
  then have acc: "bytes.accounted t (map rb_bytes xs @ rb_bytes h # map rb_bytes ys)"
    "rb_maximum h = max_value_bytes (tc_limits t)" by (simp_all add: tree_ok_def)
  note k = grow_keeps [OF acc grown(2)]
  from grown k(1,2) show ?case unfolding tree_ok_def by (subst (1 2 4 5) k(3)) simp
next
  case (shrunk t xs h ys cs ps n t' h')
  then have acc: "bytes.accounted t (map rb_bytes xs @ rb_bytes h # map rb_bytes ys)" by (simp add: tree_ok_def)
  note k = shrink_keeps [OF acc shrunk(2,3)]
  from shrunk k(1,2) show ?case unfolding tree_ok_def by (subst (1 2 4 5) k(3)) simp
next
  case (dropped t xs h ys cs ps)
  then show ?case using drop_keeps [of t "map rb_bytes xs" h "map rb_bytes ys"]
    by (auto simp: tree_ok_def retained_drop_def)
next
  case (called t hs cs ps t' u)
  note c = call_elsewhere [OF called(2)]
  from called have "calls.accounted (tc_calls t') (1 # cs)" by (intro call_keeps) (simp_all add: tree_ok_def)
  with c called.IH [OF called.prems] show ?case by (simp add: tree_ok_def bytes_elsewhere [of t' t])
next
  case (not_called t hs cs ps t' e)
  then show ?case using refused_unchanged(2) by blast
next
  case (refunded t hs cs ps)
  then show ?case
    by (auto simp: tree_ok_def budget_refund_capability_call_def refund_keeps bytes.accounted_def retained_ceiling_def)
next
  case (reserved t hs cs ps n ts permits)
  then show ?case
    by (auto simp: tree_ok_def threads_reserve_keeps bytes.accounted_def retained_ceiling_def)
next
  case (not_reserved t hs cs ps n ts e)
  then show ?case using refused_unchanged(3) [OF not_reserved(2)] by simp
next
  case (released t hs cs xs p ys)
  then show ?case
    by (auto simp: tree_ok_def threads.give_all_keeps bytes.accounted_def retained_ceiling_def)
qed

lemma tree_run_maxima:
  assumes "tree_run t0 t hs cs ps"
  shows "cb_maximum (tc_calls t) = cb_maximum (tc_calls t0) \<and> st_maximum (tc_threads t) = st_maximum (tc_threads t0)"
  using assms
proof (induction rule: tree_run.induct)
  case (step t hs cs ps now t' r)
  then show ?case using budget_step_elsewhere(3,4) [OF step(2)] by simp
qed (auto simp: retain_def retained_grow_def retained_shrink_def retained_drop_def reserve_many_def permit_drop_def
    budget_charge_capability_call_def charge_call_def budget_refund_capability_call_def refund_call_def
    split: option.splits if_splits)

lemma tree_new_ok:
  assumes "k \<le> u32_max"
  shows "tree_ok l (tree_new started l (call_budget_new m) (shell_threads_new k)) [] [] []"
  using assms
  by (simp add: tree_ok_def tree_new_def call_budget_new_def shell_threads_new_def bytes.accounted_def
      calls.accounted_def threads.accounted_def threads_valid_def)

text \<open>C19: however the clones of a context interleave, the tree never takes more steps, calls, bytes or
  threads than its limits, the bytes in use are those of the handles that are out, the calls those that
  were not refunded, the permits that are missing those that are held, and bytes are refused exactly when
  they would not fit.\<close>

theorem tree_within_limits:
  assumes "tree_run (tree_new started l (call_budget_new m) (shell_threads_new k)) t hs cs ps"
    and "k \<le> u32_max" "m \<le> u32_max" "max_value_bytes l \<le> u64_max"
  shows "tc_steps t \<le> max_steps l \<and>
    tc_retained t = sum_list (map rb_bytes hs) \<and> tc_retained t \<le> max_value_bytes l \<and>
    cb_used (tc_calls t) = sum_list cs \<and> sum_list cs \<le> m \<and>
    st_available (tc_threads t) + sum_list ps = k \<and>
    (is_ok (snd (retain t n)) \<longleftrightarrow> sum_list (map rb_bytes hs) + n \<le> max_value_bytes l)"
proof -
  have ok: "tree_ok l t hs cs ps" by (rule tree_run_ok [OF assms(1) tree_new_ok [OF assms(2)]])
  then have acc: "bytes.accounted t (map rb_bytes hs)" and l: "tc_limits t = l" by (simp_all add: tree_ok_def)
  have "is_ok (snd (retain t n)) \<longleftrightarrow> retain_more t n \<noteq> None"
    by (auto simp: retain_more_def is_ok_def split: prod.splits sum.splits)
  then have "is_ok (snd (retain t n)) \<longleftrightarrow> sum_list (map rb_bytes hs) + n \<le> max_value_bytes l"
    using bytes.draw_iff [OF acc] assms(4) l by (simp add: retained_ceiling_def)
  moreover have "cb_maximum (tc_calls t) = m" "st_maximum (tc_threads t) = k"
    using tree_run_maxima [OF assms(1)] by (simp_all add: tree_new_def call_budget_new_def shell_threads_new_def)
  ultimately show ?thesis
    using ok l by (auto simp: tree_ok_def bytes.accounted_def calls.accounted_def threads.accounted_def
        retained_ceiling_def call_ceiling_def threads_valid_def)
qed

theorem tree_within_limits_witness:
  "tc_retained (fst (retain (tree_new 5 default_limits (call_budget_new 3) (shell_threads_new 2)) 7)) = 7"
proof -
  let ?t0 = "tree_new 5 default_limits (call_budget_new 3) (shell_threads_new 2)"
  have r: "retain ?t0 7 = (?t0\<lparr>tc_retained := 7\<rparr>, Inr \<lparr>rb_bytes = 7, rb_maximum = DEFAULT_MAX_VALUE_BYTES\<rparr>)"
    by (simp add: retain_def tree_new_def default_limits_def fetch_add_within_def DEFAULT_MAX_VALUE_BYTES_def u64_max_def)
  from tree_run.retained [OF tree_run.start r]
  have "tree_run ?t0 (?t0\<lparr>tc_retained := 7\<rparr>) [\<lparr>rb_bytes = 7, rb_maximum = DEFAULT_MAX_VALUE_BYTES\<rparr>] [] []" .
  from tree_within_limits [OF this] show ?thesis
    unfolding r by (simp add: u32_max_def u64_max_def default_limits_def DEFAULT_MAX_VALUE_BYTES_def)
qed

end
