(* ===== verification/Http_Host.thy ===== *)
theory Http_Host
  imports Http_Request Process_Tree
begin

text \<open>
  The client that sends the requests of one invocation (\<open>BufferedHttpClient\<close> in
  \<open>dekopon-http-host/src/lib.rs\<close>, with the head and the body of a response in
  \<open>dekopon-http-host/src/stream.rs\<close>): authorizing a request and binding its credential, the evidence
  it leaves, and reading a response within its bounds. The network is a function that answers a request
  or fails; what the decoders make of a body is the sequence of chunks and errors a reader would get.
\<close>

section \<open>Authorizing a request\<close>

definition u32_saturating_add :: "nat \<Rightarrow> nat \<Rightarrow> nat" where
  "u32_saturating_add a b = min (a + b) u32_max"

definition request_port :: "'u url_lib \<Rightarrow> 'u prepared_request \<Rightarrow> nat" where
  "request_port U p = unwrap_or DEFAULT_HTTPS_PORT (url_port_or_known_default U (pr_url p))"

definition check_secret_scope :: "'u url_lib \<Rightarrow> http_client \<Rightarrow> 'u prepared_request \<Rightarrow> (host_error, unit) result" where
  "check_secret_scope U c p =
     (case hc_secret_grant c of
        None \<Rightarrow> Inr ()
      | Some secret \<Rightarrow>
          (let path_allowed = list_ex (\<lambda>rule. path_rule_matches rule (url_path U (pr_url p))) (g_paths secret);
               method_allowed = pr_method p \<in> set (g_methods secret);
               host_allowed = list_ex (\<lambda>authority. authority_matches authority (pr_host p) (request_port U p)
                                         (url_scheme U (pr_url p))) (g_hosts secret)
           in if \<not> path_allowed \<or> \<not> method_allowed \<or> \<not> host_allowed
                 \<or> (\<not> g_allow_query secret \<and> url_query U (pr_url p) \<noteq> None)
              then Inl (http_fail DeniedCode ''request is outside this secret's authorized HTTP scope'')
              else if hc_secret_injections c \<ge> g_max_injections secret
              then Inl (http_fail HostCallLimitCode ''the authorized secret injection limit is exhausted'')
              else Inr ()))"

definition render_header :: "http_lib \<Rightarrow> string \<Rightarrow> (host_error, string) result" where
  "render_header H v =
     (if header_text_valid H v then Inr v else Inl (http_fail InternalCode ''credential could not be rendered''))"

definition credential_render :: "http_lib \<Rightarrow> bound_credential \<Rightarrow> (host_error, string) result" where
  "credential_render H credential = render_header H (bc_header_value credential)"

definition credential_render_companion ::
  "http_lib \<Rightarrow> bound_credential \<Rightarrow> (host_error, string \<times> string) result option" where
  "credential_render_companion H credential =
     map_option (\<lambda>(name, v). res_bind (render_header H v) (\<lambda>rendered. Inr (name, rendered))) (bc_companion_header credential)"

definition credential_header ::
  "'u url_lib \<Rightarrow> http_lib \<Rightarrow> 'u prepared_request \<Rightarrow> bound_credential \<Rightarrow> (host_error, string) result" where
  "credential_header U H p credential =
     (if credential_matches credential (pr_host p) (request_port U p) (url_scheme U (pr_url p))
      then credential_render H credential
      else Inl (http_fail DeniedCode ''destination is outside this credential's binding''))"

definition blank_evidence :: "'u prepared_request \<Rightarrow> call_evidence" where
  "blank_evidence p =
     \<lparr>cv_method = pr_method p, cv_authority = pr_authority p, cv_status = None,
      cv_request_bytes = pr_request_bytes p, cv_response_bytes = 0, cv_upstream_request_id = None,
      cv_vm_session = None, cv_credential_injected = False\<rparr>"

definition update_evidence :: "(call_evidence \<Rightarrow> call_evidence) \<Rightarrow> nat \<Rightarrow> http_client \<Rightarrow> http_client" where
  "update_evidence f index c = c\<lparr>hc_evidence := (hc_evidence c)[index := f (hc_evidence c ! index)]\<rparr>"

text \<open>The headers of a credential and its companion, in that order; an error of either ends the call.\<close>

definition credential_headers ::
  "'u url_lib \<Rightarrow> http_lib \<Rightarrow> 'u prepared_request \<Rightarrow> bound_credential \<Rightarrow> header_map \<Rightarrow> (host_error, header_map) result" where
  "credential_headers U H p credential headers =
     res_bind (credential_header U H p credential) (\<lambda>v.
       let headers = header_insert headers ''authorization'' v
       in case credential_render_companion H credential of
            None \<Rightarrow> Inr headers
          | Some companion \<Rightarrow> res_bind companion (\<lambda>(name, v). Inr (header_insert headers name v)))"

definition inject_credential ::
  "'u url_lib \<Rightarrow> http_lib \<Rightarrow> http_client \<Rightarrow> nat \<Rightarrow> 'u prepared_request
    \<Rightarrow> http_client \<times> (host_error, 'u prepared_request) result" where
  "inject_credential U H c index p =
     (case hc_credential c of
        None \<Rightarrow> (c, Inr p)
      | Some credential \<Rightarrow>
          state_bind (c, credential_headers U H p credential (pr_headers p)) (\<lambda>c headers.
            let c = update_evidence (\<lambda>e. e\<lparr>cv_credential_injected := True\<rparr>) index c;
                c = (if hc_secret_grant c \<noteq> None
                     then c\<lparr>hc_secret_injections := u32_saturating_add (hc_secret_injections c) 1\<rparr> else c)
            in (c, Inr (p\<lparr>pr_headers := headers\<rparr>))))"

definition hex_digit :: "nat \<Rightarrow> char" where
  "hex_digit d = (if d < 10 then char_of (48 + d) else char_of (87 + d))"

text \<open>A number in lower-case hexadecimal, padded to a width it fits.\<close>

fun hex_padded :: "nat \<Rightarrow> nat \<Rightarrow> string" where
  "hex_padded 0 n = []"
| "hex_padded (Suc w) n = hex_padded w (n div 16) @ [hex_digit (n mod 16)]"

definition traceparent :: "trace_context \<Rightarrow> string" where
  "traceparent t =
     ''00-'' @ hex_padded 32 (tr_trace_id t) @ ''-'' @ hex_padded 16 (tr_span_id t) @ ''-'' @ hex_padded 2 (tr_flags t)"

definition propagate_trace ::
  "http_lib \<Rightarrow> call_env \<Rightarrow> http_constraints \<Rightarrow> 'u prepared_request \<Rightarrow> (host_error, 'u prepared_request) result" where
  "propagate_trace H env grant p =
     (case ev_trace env of
        Some t \<Rightarrow>
          if h_propagate_trace grant
          then if header_text_valid H (traceparent t)
               then Inr (p\<lparr>pr_headers := header_insert (pr_headers p) ''traceparent'' (traceparent t)\<rparr>)
               else Inl (http_fail InternalCode ''trace context could not be rendered'')
          else Inr p
      | None \<Rightarrow> Inr p)"

definition authorize_request ::
  "'u url_lib \<Rightarrow> http_lib \<Rightarrow> call_env \<Rightarrow> http_client \<Rightarrow> http_request \<Rightarrow> request_lengths option
    \<Rightarrow> http_client \<times> (host_error, 'u prepared_request \<times> http_constraints \<times> nat) result" where
  "authorize_request U H env c request streamed =
     state_bind (c, ok_or (http_fail DeniedCode ''this invocation has no HTTP authorization'') (hc_grant c)) (\<lambda>c grant.
     state_bind (c, ensure (hc_calls c < h_max_requests grant)
       (http_fail HostCallLimitCode ''the authorized HTTP request limit is exhausted'')) (\<lambda>c _.
     state_bind (c\<lparr>hc_calls := u32_saturating_add (hc_calls c) 1\<rparr>,
       ok_or (http_fail InternalCode ''request deadline overflowed'') (instant_checked_add (ev_start env) (hc_timeout c))) (\<lambda>c deadline.
     state_bind (c\<lparr>hc_deadline := deadline\<rparr>,
       ensure (\<not> (hc_secret_grant c \<noteq> None \<and> secret_raw_path_is_ambiguous (hr_uri request)))
         (http_fail DeniedCode ''secret-bearing request path uses prohibited encoding or separators'')) (\<lambda>c _.
     state_bind (prepare U H env c request grant streamed) (\<lambda>c p.
     state_bind (c, check_secret_scope U c p) (\<lambda>c _.
       let index = length (hc_evidence c);
           c = c\<lparr>hc_evidence := hc_evidence c @ [blank_evidence p]\<rparr>
       in state_bind (inject_credential U H c index p) (\<lambda>c p.
          state_bind (c, propagate_trace H env grant p) (\<lambda>c p. (c, Inr (p, grant, index))))))))))"

section \<open>Transport\<close>

text \<open>What the code asks of an error of the crate \<open>reqwest\<close>, with the messages of its sources.\<close>

record reqwest_error =
  re_is_builder :: bool
  re_is_timeout :: bool
  re_is_connect :: bool
  re_sources :: "string list"

definition error_chain_contains :: "reqwest_error \<Rightarrow> string list \<Rightarrow> bool" where
  "error_chain_contains e fragments \<longleftrightarrow>
     list_ex (\<lambda>message. list_ex (\<lambda>fragment. contains_sub fragment (to_ascii_lowercase message)) fragments) (re_sources e)"

definition map_reqwest_error :: "reqwest_error \<Rightarrow> host_error" where
  "map_reqwest_error e =
     (if re_is_builder e then http_fail InternalCode ''native HTTP client setup failed''
      else http_fail
        (if re_is_timeout e then TimeoutCode
         else if re_is_connect e
         then (if error_chain_contains e [''tls'', ''certificate'', ''cert ''] then TlsCode else ConnectCode)
         else ProtocolCode) ''HTTP transport failed'')"

text \<open>Whether the bundles of certificates parse and the client builds is up to the crate \<open>reqwest\<close>.\<close>

record client_lib =
  bundle_certificates :: "string \<Rightarrow> string list option"
  build_error :: "pinned_client \<Rightarrow> reqwest_error option"

definition pinned_bundle :: "host_ceilings \<Rightarrow> string \<Rightarrow> socket_addr list \<Rightarrow> string list" where
  "pinned_bundle ceilings host addresses =
     (case ce_loopback_pin ceilings of
        Some pin \<Rightarrow>
          if addresses \<noteq> [] \<and> lp_authority pin = canonical_authority host (socket_port (hd addresses))
             \<and> addresses = [lp_address pin]
          then [lp_ca_pem pin] else []
      | None \<Rightarrow> [])"

fun trusted_roots :: "client_lib \<Rightarrow> string list \<Rightarrow> (host_error, string list) result" where
  "trusted_roots L [] = Inr []"
| "trusted_roots L (pem # rest) =
     res_bind (ok_or (http_fail DeniedCode ''invalid configured CA bundle'') (bundle_certificates L pem)) (\<lambda>certificates.
     res_bind (trusted_roots L rest) (\<lambda>roots. Inr (certificates @ roots)))"

definition build_pinned ::
  "client_lib \<Rightarrow> http_client \<Rightarrow> string \<Rightarrow> socket_addr list \<Rightarrow> http_client \<times> (host_error, pinned_client) result" where
  "build_pinned L c host addresses =
     state_bind (c, trusted_roots L (ce_extra_ca_bundles (hc_ceilings c) @ pinned_bundle (hc_ceilings c) host addresses)) (\<lambda>c roots.
       let client = \<lparr>pc_host = host, pc_addresses = addresses, pc_roots = roots\<rparr>
       in case build_error L client of
            Some e \<Rightarrow> (c, Inl (map_reqwest_error e))
          | None \<Rightarrow> (c\<lparr>hc_pinned := Some client\<rparr>, Inr client))"

definition pinned_client_for ::
  "client_lib \<Rightarrow> http_client \<Rightarrow> string \<Rightarrow> socket_addr list \<Rightarrow> http_client \<times> (host_error, pinned_client) result" where
  "pinned_client_for L c host addresses =
     (case hc_pinned c of
        Some pinned \<Rightarrow>
          if pc_host pinned = host \<and> pc_addresses pinned = addresses then (c, Inr pinned)
          else build_pinned L c host addresses
      | None \<Rightarrow> build_pinned L c host addresses)"

section \<open>The head of a response\<close>

datatype content_coding = Gzip | Deflate

text \<open>A reply of the network: its status and headers in the order they are read, the length it announces,
  and the chunks and errors that reading its body through a decoder gives.\<close>

record reply =
  ry_status :: nat
  ry_headers :: header_map
  ry_content_length :: "nat option"
  ry_body :: "content_coding option \<Rightarrow> (host_error, string) result list"

datatype response_metadata = OrdinaryResponse | SignedDownloadResponse

definition choose_decoder :: "string \<Rightarrow> reply \<Rightarrow> (host_error, content_coding option) result" where
  "choose_decoder m r =
     (let codings = header_get_all (ry_headers r) ''content-encoding'';
          bodyless = (m = ''HEAD'' \<or> ry_status r = 204 \<or> ry_status r = 304 \<or> ry_content_length r = Some 0)
      in case codings of
           [] \<Rightarrow> Inr None
         | coding # others \<Rightarrow>
             if bodyless then Inr None
             else if others = [] \<and> to_ascii_lowercase coding = ''gzip'' then Inr (Some Gzip)
             else if others = [] \<and> to_ascii_lowercase coding = ''deflate'' then Inr (Some Deflate)
             else Inl (http_fail ProtocolCode ''response content encoding is not one the host decodes''))"

definition head_within :: "nat \<Rightarrow> host_ceilings \<Rightarrow> nat \<Rightarrow> (host_error, unit) result" where
  "head_within bytes ceilings maximum =
     (if bytes > maximum
      then Inl (byte_limit_error MaxResponseBytes maximum bytes ''response headers exceed an authorized bound'')
      else if bytes > ce_max_header_bytes ceilings
      then Inl (http_fail ResponseTooLargeCode ''response headers exceed an authorized bound'')
      else Inr ())"

fun head_bytes_loop :: "host_ceilings \<Rightarrow> nat \<Rightarrow> nat \<Rightarrow> header_map \<Rightarrow> (host_error, nat) result" where
  "head_bytes_loop ceilings maximum bytes [] = Inr bytes"
| "head_bytes_loop ceilings maximum bytes ((name, v) # rest) =
     res_bind (ok_or (http_fail ResponseTooLargeCode ''response size overflow'')
       (checked_add bytes (length name + length v + 4))) (\<lambda>bytes.
     res_bind (head_within bytes ceilings maximum) (\<lambda>_. head_bytes_loop ceilings maximum bytes rest))"

definition response_head_bytes :: "header_map \<Rightarrow> host_ceilings \<Rightarrow> nat \<Rightarrow> (host_error, nat) result" where
  "response_head_bytes headers ceilings maximum =
     res_bind (ensure (length headers \<le> ce_max_headers ceilings)
       (http_fail ResponseTooLargeCode ''response has too many headers'')) (\<lambda>_.
     res_bind (head_within 16 ceilings maximum) (\<lambda>_. head_bytes_loop ceilings maximum 16 headers))"

definition returned_head_bytes :: "header list \<Rightarrow> nat" where
  "returned_head_bytes headers =
     foldl (\<lambda>total h. saturating_add total (length (hd_name h) + length (hd_value h) + 4)) 16 headers"

definition redact_location :: "header \<Rightarrow> header" where
  "redact_location h =
     (if to_ascii_lowercase (hd_name h) \<noteq> ''location'' then h
      else case dropWhile (\<lambda>b. b \<noteq> CHR ''?'' \<and> b \<noteq> CHR ''#'') (hd_value h) of
             [] \<Rightarrow> h
           | mark # _ \<Rightarrow>
               h\<lparr>hd_value := takeWhile (\<lambda>b. b \<noteq> CHR ''?'' \<and> b \<noteq> CHR ''#'') (hd_value h)
                    @ (if mark = CHR ''?'' then ''?[redacted]'' else [])
                    @ (if CHR ''#'' \<in> set (hd_value h) then ''#[redacted]'' else [])\<rparr>)"

definition redact_api_locations :: "header list \<Rightarrow> header list" where
  "redact_api_locations headers = map redact_location headers"

definition kept_headers :: "content_coding option \<Rightarrow> header_map \<Rightarrow> header list" where
  "kept_headers decoder headers =
     map (\<lambda>(name, v). \<lparr>hd_name = name, hd_value = v\<rparr>)
       (filter (\<lambda>(name, _). \<not> is_forbidden_response_header name
          \<and> (decoder = None \<or> (name \<noteq> ''content-encoding'' \<and> name \<noteq> ''content-length''))) headers)"

text \<open>The identifier GitHub gives a request, when it is printable and short, and the session of a virtual
  machine, a lower-case UUID of version 7.\<close>

definition upstream_request_id :: "header_map \<Rightarrow> string option" where
  "upstream_request_id headers =
     (case header_get_all headers ''x-github-request-id'' of
        [] \<Rightarrow> None
      | bytes # _ \<Rightarrow>
          if 1 \<le> length bytes \<and> length bytes \<le> 64 \<and> list_all (\<lambda>b. 0x21 \<le> byte b \<and> byte b \<le> 0x7e) bytes
          then Some bytes else None)"

definition VM_SESSION_HEADER :: string where "VM_SESSION_HEADER = ''x-dekopon-vm-session''"

definition vm_session_byte :: "nat \<Rightarrow> char \<Rightarrow> bool" where
  "vm_session_byte index b =
     (if index \<in> {8, 13, 18, 23} then b = CHR ''-''
      else if index = 14 then b = CHR ''7''
      else if index = 19 then b \<in> {CHR ''8'', CHR ''9'', CHR ''a'', CHR ''b''}
      else is_ascii_digit b \<or> (97 \<le> byte b \<and> byte b \<le> 102))"

definition vm_session_parse :: "string \<Rightarrow> string option" where
  "vm_session_parse text =
     (let bytes = trim text
      in if length bytes = 36 \<and> list_all (\<lambda>(index, b). vm_session_byte index b) (enumerate 0 bytes)
         then Some bytes else None)"

definition vm_session_of :: "http_lib \<Rightarrow> header_map \<Rightarrow> string option" where
  "vm_session_of H headers =
     (case header_get_all headers VM_SESSION_HEADER of
        [] \<Rightarrow> None
      | v # _ \<Rightarrow> Option.bind (header_value_text H v) vm_session_parse)"

definition echoed :: host_error where
  "echoed = http_fail DeniedCode ''credentialed response echoed the credential''"

definition client_echoes :: "http_client \<Rightarrow> response \<Rightarrow> bool" where
  "client_echoes c r = (case hc_credential c of None \<Rightarrow> False | Some credential \<Rightarrow> echoes_credential credential r)"

record response_head =
  rh_status :: nat
  rh_headers :: "header list"
  rh_bytes :: nat
  rh_body :: "(host_error, string) result list"

definition charged_head ::
  "host_ceilings \<Rightarrow> http_constraints \<Rightarrow> response_metadata \<Rightarrow> nat \<Rightarrow> header list \<Rightarrow> (host_error, header list \<times> nat) result" where
  "charged_head ceilings grant metadata response_bytes headers =
     (case metadata of
        SignedDownloadResponse \<Rightarrow> Inr (headers, response_bytes)
      | OrdinaryResponse \<Rightarrow>
          (let headers = redact_api_locations headers; returned = returned_head_bytes headers
           in if returned > h_max_response_bytes grant
              then Inl (byte_limit_error MaxResponseBytes (h_max_response_bytes grant) returned
                     ''redacted headers exceed the authorized byte limit'')
              else if returned > ce_max_header_bytes ceilings
              then Inl (http_fail ResponseTooLargeCode ''redacted headers exceed the authorized byte limit'')
              else Inr (headers, max response_bytes returned)))"

definition note_head ::
  "http_lib \<Rightarrow> response_metadata \<Rightarrow> header_map \<Rightarrow> nat \<Rightarrow> call_evidence \<Rightarrow> call_evidence" where
  "note_head H metadata headers bytes e =
     e\<lparr>cv_response_bytes := bytes,
       cv_upstream_request_id := (case metadata of OrdinaryResponse \<Rightarrow> upstream_request_id headers | _ \<Rightarrow> None),
       cv_vm_session := (case metadata of OrdinaryResponse \<Rightarrow> vm_session_of H headers | _ \<Rightarrow> None)\<rparr>"

definition accept_head ::
  "http_lib \<Rightarrow> http_client \<Rightarrow> string \<Rightarrow> reply \<Rightarrow> http_constraints \<Rightarrow> nat \<Rightarrow> response_metadata
    \<Rightarrow> http_client \<times> (host_error, response_head) result" where
  "accept_head H c m r grant index metadata =
     state_bind (c, choose_decoder m r) (\<lambda>c decoder.
     state_bind (update_evidence (\<lambda>e. e\<lparr>cv_status := Some (ry_status r)\<rparr>) index c,
       response_head_bytes (ry_headers r) (hc_ceilings c) (h_max_response_bytes grant)) (\<lambda>c bytes.
     state_bind (c, charged_head (hc_ceilings c) grant metadata bytes (kept_headers decoder (ry_headers r))) (\<lambda>c (headers, charged).
     state_bind (c, ensure (\<not> client_echoes c \<lparr>rsp_status = ry_status r, rsp_headers = headers, rsp_body = []\<rparr>) echoed) (\<lambda>c _.
       (update_evidence (note_head H metadata (ry_headers r) bytes) index c,
        Inr \<lparr>rh_status = ry_status r, rh_headers = headers, rh_bytes = charged, rh_body = ry_body r decoder\<rparr>)))))"

section \<open>Sending a request\<close>

datatype transport_outcome = TransportElapsed | TransportFailed reqwest_error | Replied reply

definition transport_reply :: "transport_outcome \<Rightarrow> (host_error, reply) result" where
  "transport_reply t =
     (case t of
        TransportElapsed \<Rightarrow> Inl (http_fail TimeoutCode ''HTTP request timed out'')
      | TransportFailed e \<Rightarrow> Inl (map_reqwest_error e)
      | Replied r \<Rightarrow> Inr r)"

text \<open>Reading the body of a buffered response; the evidence counts what was read even when it is too much.\<close>

definition response_overrun :: "http_constraints \<Rightarrow> nat \<Rightarrow> host_error" where
  "response_overrun grant bytes =
     byte_limit_error MaxResponseBytes (h_max_response_bytes grant) bytes ''response exceeds the authorized byte limit''"

definition count_chunk ::
  "http_constraints \<Rightarrow> nat \<Rightarrow> string \<Rightarrow> http_client \<Rightarrow> nat \<Rightarrow> string \<Rightarrow> http_client \<times> (host_error, nat) result" where
  "count_chunk grant index overflow c bytes chunk =
     state_bind (c, ok_or (http_fail ResponseTooLargeCode overflow) (checked_add bytes (length chunk))) (\<lambda>c bytes.
       (update_evidence (\<lambda>e. e\<lparr>cv_response_bytes := cv_response_bytes e + length chunk\<rparr>) index c,
        if bytes > h_max_response_bytes grant then Inl (response_overrun grant bytes) else Inr bytes))"

fun read_body ::
  "http_constraints \<Rightarrow> nat \<Rightarrow> http_client \<Rightarrow> nat \<Rightarrow> string \<Rightarrow> (host_error, string) result list
    \<Rightarrow> http_client \<times> (host_error, string) result" where
  "read_body grant index c bytes body [] = (c, Inr body)"
| "read_body grant index c bytes body (event # rest) =
     (case event of
        Inl e \<Rightarrow> (c, Inl e)
      | Inr chunk \<Rightarrow>
          state_bind (count_chunk grant index ''response size overflowed'' c bytes chunk) (\<lambda>c bytes.
            read_body grant index c bytes (body @ chunk) rest))"

text \<open>\<open>execute\<close> for an ordinary response: what the network answers is read within the grant.\<close>

definition execute_ordinary ::
  "http_lib \<Rightarrow> client_lib \<Rightarrow> call_env \<Rightarrow> (pinned_client \<Rightarrow> 'u prepared_request \<Rightarrow> transport_outcome) \<Rightarrow> http_client
    \<Rightarrow> 'u prepared_request \<Rightarrow> http_constraints \<Rightarrow> nat \<Rightarrow> http_client \<times> (host_error, response) result" where
  "execute_ordinary H L env net c p grant index =
     state_bind (c, call_time_remaining c (ev_send env)) (\<lambda>c _.
     state_bind (pinned_client_for L c (pr_host p) (pr_addresses p)) (\<lambda>c client.
     state_bind (c, transport_reply (net client p)) (\<lambda>c r.
     state_bind (accept_head H c (pr_method p) r grant index OrdinaryResponse) (\<lambda>c head.
     state_bind (c, ensure (returned_head_bytes (rh_headers head) \<le> h_max_response_bytes grant)
       (byte_limit_error MaxResponseBytes (h_max_response_bytes grant) (returned_head_bytes (rh_headers head))
          ''redacted headers exceed the authorized byte limit'')) (\<lambda>c _.
     state_bind (read_body grant index c (rh_bytes head) [] (rh_body head)) (\<lambda>c body.
       (c, Inr \<lparr>rsp_status = rh_status head, rsp_headers = rh_headers head, rsp_body = body\<rparr>)))))))"

definition send_checked ::
  "'u url_lib \<Rightarrow> http_lib \<Rightarrow> client_lib \<Rightarrow> call_env \<Rightarrow> (pinned_client \<Rightarrow> 'u prepared_request \<Rightarrow> transport_outcome)
    \<Rightarrow> http_client \<Rightarrow> http_request \<Rightarrow> http_client \<times> (host_error, response) result" where
  "send_checked U H L env net c request =
     state_bind (authorize_request U H env c request None) (\<lambda>c (p, grant, index).
     state_bind (execute_ordinary H L env net c p grant index) (\<lambda>c r.
       if client_echoes c r then (c, Inl echoed) else (c, Inr r)))"

definition record_request :: "http_client \<Rightarrow> (host_error, 'a) result \<Rightarrow> http_client" where
  "record_request c r =
     (case r of
        Inr _ \<Rightarrow> c
      | Inl e \<Rightarrow>
          c\<lparr>hc_violation := (case violation_from_error e of Some v \<Rightarrow> Some v | None \<Rightarrow> hc_violation c)\<rparr>)"

definition send ::
  "'u url_lib \<Rightarrow> http_lib \<Rightarrow> client_lib \<Rightarrow> call_env \<Rightarrow> (pinned_client \<Rightarrow> 'u prepared_request \<Rightarrow> transport_outcome)
    \<Rightarrow> http_client \<Rightarrow> http_request \<Rightarrow> http_client \<times> (host_error, response) result" where
  "send U H L env net c request =
     (case send_checked U H L env net (c\<lparr>hc_attempted := True\<rparr>) request of
        (c, r) \<Rightarrow> (record_request c r, r))"

section \<open>An authorized request is within its grant\<close>

text \<open>The addresses a request may be sent to, in terms of the reserved blocks.\<close>

definition destination_permitted ::
  "host_ceilings \<Rightarrow> http_constraints \<Rightarrow> string \<Rightarrow> string \<Rightarrow> string \<Rightarrow> socket_addr list \<Rightarrow> bool" where
  "destination_permitted ceilings grant scheme host authority addresses \<longleftrightarrow>
     (scheme = ''https'' \<and>
        ((\<exists>pin. ce_loopback_pin ceilings = Some pin \<and> lp_authority pin = authority \<and> addresses = [lp_address pin])
         \<or> (addresses \<noteq> [] \<and> (\<forall>a \<in> set addresses.
              if authority \<in> set (ce_non_public_https ceilings) then is_private_unicast (socket_ip a)
              else public_address (socket_ip a)))))
     \<or> (scheme = ''http'' \<and> h_plaintext_loopback grant
        \<and> ((\<forall>a \<in> set addresses. ip_is_loopback (socket_ip a)) \<or> plaintext_contains (ce_plaintext_hosts ceilings) host))"

lemma check_addresses_ok:
  assumes "check_addresses ceilings scheme host authority addresses = Inr ()"
    "scheme = ''https'' \<or> (scheme = ''http'' \<and> h_plaintext_loopback grant)"
  shows "destination_permitted ceilings grant scheme host authority addresses"
  using assms
  by (auto simp: check_addresses_def destination_permitted_def res_simps Let_def plaintext_permitted_def list_all_iff
      https_addresses_permitted_def forbidden_iff_not_public split: if_splits option.splits)

lemma resolved_addresses_keeps:
  "resolved_addresses env c scheme host port authority = (c', r) \<Longrightarrow> \<exists>m. c' = c\<lparr>hc_resolved := m\<rparr>"
  by (auto simp: resolved_addresses_def state_bind_def split: option.splits sum.splits
      intro: exI [of _ "hc_resolved c"])

lemma prepare_keeps: "prepare U H env c request grant streamed = (c', r) \<Longrightarrow> \<exists>m. c' = c\<lparr>hc_resolved := m\<rparr>"
  by (auto simp: prepare_def Let_def state_bind_def split: sum.splits prod.splits dest!: resolved_addresses_keeps
      intro: exI [of _ "hc_resolved c"])

lemma prepare_ok:
  assumes "prepare U H env c request grant streamed = (c', Inr p)"
  obtains url port n where
    "check_request U H c request grant streamed = Inr (pr_url p, pr_host p, port, pr_headers p, n)"
    "check_addresses (hc_ceilings c) (url_scheme U (pr_url p)) (pr_host p) (pr_authority p) (pr_addresses p) = Inr ()"
    "pr_authority p = canonical_authority (pr_host p) port" "pr_method p = hr_method request"
    "pr_request_bytes p = (case streamed of None \<Rightarrow> n | Some l \<Rightarrow> rl_total l)"
proof -
  from assms obtain url host port headers n addresses where f:
    "check_request U H c request grant streamed = Inr (url, host, port, headers, n)"
    "resolved_addresses env c (url_scheme U url) host port (canonical_authority host port) = (c', Inr addresses)"
    "check_addresses (hc_ceilings c') (url_scheme U url) host (canonical_authority host port) addresses = Inr ()"
    "p = \<lparr>pr_method = hr_method request, pr_url = url, pr_headers = headers, pr_body = hr_body request,
          pr_host = host, pr_authority = canonical_authority host port, pr_addresses = addresses,
          pr_request_bytes = (case streamed of None \<Rightarrow> n | Some l \<Rightarrow> rl_total l)\<rparr>"
    by (auto simp: prepare_def Let_def res_simps split: prod.splits)
  moreover obtain m where "c' = c\<lparr>hc_resolved := m\<rparr>"
    using resolved_addresses_keeps [OF f(2)] by auto
  ultimately show thesis using that [of port n] by simp
qed

lemma authorize_request_ok:
  assumes "authorize_request U H env c request streamed = (c', Inr (p', grant, index))"
  obtains d c1 p p2 where
    "hc_grant c = Some grant" "hc_calls c < h_max_requests grant"
    "\<not> (hc_secret_grant c \<noteq> None \<and> secret_raw_path_is_ambiguous (hr_uri request))"
    "prepare U H env (c\<lparr>hc_calls := u32_saturating_add (hc_calls c) 1, hc_deadline := d\<rparr>) request grant streamed = (c1, Inr p)"
    "check_secret_scope U c1 p = Inr ()" "index = length (hc_evidence c1)"
    "inject_credential U H (c1\<lparr>hc_evidence := hc_evidence c1 @ [blank_evidence p]\<rparr>) index p = (c', Inr p2)"
    "propagate_trace H env grant p2 = Inr p'"
  using assms
  by (auto simp: authorize_request_def Let_def res_simps)

lemma inject_keeps_request:
  "inject_credential U H c index p = (c', Inr p') \<Longrightarrow> \<exists>headers. p' = p\<lparr>pr_headers := headers\<rparr>"
  by (auto simp: inject_credential_def Let_def res_simps split: option.splits intro: exI [of _ "pr_headers p"])

lemma propagate_keeps_request:
  "propagate_trace H env grant p = Inr p' \<Longrightarrow> \<exists>headers. p' = p\<lparr>pr_headers := headers\<rparr>"
  by (auto simp: propagate_trace_def split: option.splits if_splits intro: exI [of _ "pr_headers p"])

text \<open>An authorized request is the prepared one up to its headers.\<close>

lemma authorized_request_prepared:
  assumes "authorize_request U H env c request streamed = (c', Inr (p, grant, index))"
  obtains d c1 headers where "hc_grant c = Some grant" "hc_calls c < h_max_requests grant"
    "prepare U H env (c\<lparr>hc_calls := u32_saturating_add (hc_calls c) 1, hc_deadline := d\<rparr>) request grant streamed
       = (c1, Inr (p\<lparr>pr_headers := headers\<rparr>))"
    "check_secret_scope U c1 (p\<lparr>pr_headers := headers\<rparr>) = Inr ()"
proof (rule authorize_request_ok [OF assms])
  fix d c1 q p2
  assume a: "hc_grant c = Some grant" "hc_calls c < h_max_requests grant"
    "prepare U H env (c\<lparr>hc_calls := u32_saturating_add (hc_calls c) 1, hc_deadline := d\<rparr>) request grant streamed = (c1, Inr q)"
    "check_secret_scope U c1 q = Inr ()"
    "inject_credential U H (c1\<lparr>hc_evidence := hc_evidence c1 @ [blank_evidence q]\<rparr>) index q = (c', Inr p2)"
    "propagate_trace H env grant p2 = Inr p"
  obtain h1 h2 where "p2 = q\<lparr>pr_headers := h1\<rparr>" "p = p2\<lparr>pr_headers := h2\<rparr>"
    using inject_keeps_request [OF a(5)] propagate_keeps_request [OF a(6)] by blast
  then have "q = p\<lparr>pr_headers := pr_headers q\<rparr>" by simp
  with a that show thesis by metis
qed

text \<open>C30: A request that is authorized obeys its grant: the invocation has requests left, the method is an
  allowed one, some allowed host matches the destination, the addresses are ones that may be reached (over
  HTTPS public addresses, or private ones where the broker lists the authority; in plain text only with the
  grant's leave and only to loopback or a listed host), the bytes charged for it are within the limit (overhead, method, URL, headers and
  body, where of a streamed body only the literal parts count and not the assets it carries), and a policy that judges requests admitted this method, host and path.\<close>

theorem authorized_request_is_within_grant:
  assumes "url_laws U H" "authorize_request U H env c request streamed = (c', Inr (p, grant, index))"
  shows "hc_grant c = Some grant \<and> hc_calls c < h_max_requests grant
    \<and> pr_method p \<in> set (h_methods grant)
    \<and> (\<exists>allowed \<in> set (h_hosts grant). authority_matches allowed (pr_host p) (request_port U p) (url_scheme U (pr_url p)))
    \<and> destination_permitted (hc_ceilings c) grant (url_scheme U (pr_url p)) (pr_host p) (pr_authority p) (pr_addresses p)
    \<and> request_charge (pr_method p) (url_as_str U (pr_url p)) (hr_headers request) (body_bytes_of request streamed)
        \<le> h_max_request_bytes grant
    \<and> (streamed = None \<longrightarrow> pr_request_bytes p =
         request_charge (pr_method p) (url_as_str U (pr_url p)) (hr_headers request) (length (hr_body request)))
    \<and> (hc_authorizer c = Some authorize \<longrightarrow>
         (\<exists>facts. authorize facts \<and> rf_method facts = pr_method p \<and> rf_host facts = pr_host p
            \<and> rf_path facts = url_path U (pr_url p)))"
proof (intro conjI impI)
  from assms(2) obtain d c1 headers where a: "hc_grant c = Some grant" "hc_calls c < h_max_requests grant"
    "prepare U H env (c\<lparr>hc_calls := u32_saturating_add (hc_calls c) 1, hc_deadline := d\<rparr>) request grant streamed
       = (c1, Inr (p\<lparr>pr_headers := headers\<rparr>))"
    by (rule authorized_request_prepared)
  obtain port n where r:
    "check_request U H (c\<lparr>hc_calls := u32_saturating_add (hc_calls c) 1, hc_deadline := d\<rparr>) request grant streamed
       = Inr (pr_url p, pr_host p, port, headers, n)"
    "check_addresses (hc_ceilings c) (url_scheme U (pr_url p)) (pr_host p) (pr_authority p) (pr_addresses p) = Inr ()"
    "pr_method p = hr_method request" "pr_request_bytes p = (case streamed of None \<Rightarrow> n | Some l \<Rightarrow> rl_total l)"
    by (rule prepare_ok [OF a(3)], rule that) simp_all
  obtain url where u:
    "check_url U grant (hr_uri request) = Inr (url, pr_host p, port)"
    "apply_request_templates U H grant (hc_slots c) (hr_method request) url = Inr (pr_url p)"
    "hr_method request \<in> set (h_methods grant)" "n \<le> h_max_request_bytes grant"
    "n = request_charge (hr_method request) (url_as_str U (pr_url p)) (hr_headers request) (body_bytes_of request streamed)"
    "\<forall>authorize. hc_authorizer c = Some authorize \<longrightarrow>
       (\<exists>facts. authorize facts \<and> rf_method facts = hr_method request \<and> rf_host facts = pr_host p
          \<and> rf_path facts = url_path U (pr_url p))"
    by (rule check_request_ok [OF r(1)], rule that) simp_all
  have o: "url_scheme U (pr_url p) = url_scheme U url" "request_port U p = port"
    using apply_request_templates_origin [OF assms(1) u(2)] check_url_ok(1) [OF u(1)]
    by (simp_all add: same_origin_def request_port_def) (metis unwrap_or_simps(2))
  show "hc_grant c = Some grant" "hc_calls c < h_max_requests grant" by fact+
  show "pr_method p \<in> set (h_methods grant)" using u(3) r(3) by simp
  show "\<exists>allowed \<in> set (h_hosts grant). authority_matches allowed (pr_host p) (request_port U p) (url_scheme U (pr_url p))"
    using check_url_ok(2) [OF u(1)] by (simp add: o)
  show "destination_permitted (hc_ceilings c) grant (url_scheme U (pr_url p)) (pr_host p) (pr_authority p) (pr_addresses p)"
    using check_addresses_ok [OF r(2)] check_url_ok(3) [OF u(1)] by (simp add: o)
  show "request_charge (pr_method p) (url_as_str U (pr_url p)) (hr_headers request) (body_bytes_of request streamed)
      \<le> h_max_request_bytes grant" using u(4,5) r(3) by simp
  show "streamed = None \<Longrightarrow> pr_request_bytes p =
      request_charge (pr_method p) (url_as_str U (pr_url p)) (hr_headers request) (length (hr_body request))"
    using u(5) r(3,4) by (simp add: body_bytes_of_def)
  show "hc_authorizer c = Some authorize \<Longrightarrow>
       \<exists>facts. authorize facts \<and> rf_method facts = pr_method p \<and> rf_host facts = pr_host p
         \<and> rf_path facts = url_path U (pr_url p)"
    using u(6) r(3) by simp
qed

section \<open>Credentials go only where they are bound\<close>

lemma header_get_all_insert [simp]:
  "header_get_all (header_insert m name v) name' = (if name' = name then [v] else header_get_all m name')"
  by (auto simp: header_get_all_def header_insert_def filter_empty_conv intro: arg_cong [where f = "map snd"] filter_cong)

lemma header_get_all_guest:
  "list_all (\<lambda>(name, _). \<not> is_forbidden_request_header name) headers \<Longrightarrow> is_forbidden_request_header name
    \<Longrightarrow> header_get_all headers name = []"
  by (auto simp: header_get_all_def filter_empty_conv list_all_iff)

definition credential_ok :: "bound_credential \<Rightarrow> bool" where
  "credential_ok k = (case bc_companion_header k of None \<Rightarrow> True | Some (name, _) \<Rightarrow> name = CHATGPT_ACCOUNT_HEADER)"

lemma constructed_credentials_ok:
  "bearer scheme secret destinations = Inr k \<Longrightarrow> credential_ok k"
  "secret_token sink scheme secret grant = Inr k \<Longrightarrow> credential_ok k"
  "secret_basic encode password grant = Inr k \<Longrightarrow> credential_ok k"
  "with_chatgpt_account k account = Inr k' \<Longrightarrow> credential_ok k'"
  by (auto simp: bearer_def secret_token_def secret_basic_def with_chatgpt_account_def credential_ok_def Let_def
      split: if_splits option.splits)

lemma credential_headers_ok:
  assumes "credential_headers U H p k headers = Inr headers'" "credential_ok k"
  shows "credential_matches k (pr_host p) (request_port U p) (url_scheme U (pr_url p))"
    "header_get_all headers' name =
      (if name = ''authorization'' then [bc_header_value k]
       else if name = CHATGPT_ACCOUNT_HEADER \<and> bc_companion_header k \<noteq> None then [snd (the (bc_companion_header k))]
       else header_get_all headers name)"
  using assms
  by (auto simp: credential_headers_def credential_header_def credential_render_def render_header_def
      credential_render_companion_def credential_ok_def Let_def res_simps CHATGPT_ACCOUNT_HEADER_def
      split: if_splits option.splits)

lemma inject_credential_headers:
  assumes "inject_credential U H c index p = (c', Inr p')" "\<forall>k. hc_credential c = Some k \<longrightarrow> credential_ok k"
  shows "header_get_all (pr_headers p') name =
      (case hc_credential c of
         None \<Rightarrow> header_get_all (pr_headers p) name
       | Some k \<Rightarrow>
           if name = ''authorization'' then [bc_header_value k]
           else if name = CHATGPT_ACCOUNT_HEADER \<and> bc_companion_header k \<noteq> None then [snd (the (bc_companion_header k))]
           else header_get_all (pr_headers p) name)"
    "hc_credential c = Some k \<Longrightarrow> credential_matches k (pr_host p) (request_port U p) (url_scheme U (pr_url p))"
  using assms credential_headers_ok [of U H p _ "pr_headers p"]
  by (auto simp: inject_credential_def Let_def res_simps split: option.splits)

lemma propagate_trace_headers:
  "propagate_trace H env grant p = Inr p' \<Longrightarrow> name \<noteq> ''traceparent'' \<Longrightarrow>
     header_get_all (pr_headers p') name = header_get_all (pr_headers p) name"
  by (auto simp: propagate_trace_def split: option.splits if_splits)

text \<open>C31: The headers the host owns are never the guest's. An authorized request carries the bound
  credential as its only authorization, and only to a destination of the credential's binding; without a
  credential it carries none. The account header is there only with the credential, and no other
  forbidden header is, except the trace the host adds. A request for which a secret is granted also lies
  within the secret's own scope of path, method, host and query, its path has one reading, and
  injections of the secret were left.\<close>

theorem credential_is_host_bound:
  assumes "authorize_request U H env c request streamed = (c', Inr (p, grant, index))"
    and "\<forall>k. hc_credential c = Some k \<longrightarrow> credential_ok k"
  shows "header_get_all (pr_headers p) ''authorization'' =
      (case hc_credential c of None \<Rightarrow> [] | Some k \<Rightarrow> [bc_header_value k])
    \<and> (hc_credential c = None \<longrightarrow> header_get_all (pr_headers p) CHATGPT_ACCOUNT_HEADER = [])
    \<and> (is_forbidden_request_header name \<and> name \<notin> {''authorization'', CHATGPT_ACCOUNT_HEADER, ''traceparent''} \<longrightarrow>
         header_get_all (pr_headers p) name = [])
    \<and> (hc_credential c = Some k \<longrightarrow> credential_matches k (pr_host p) (request_port U p) (url_scheme U (pr_url p)))
    \<and> (hc_secret_grant c = Some s \<longrightarrow>
       hc_secret_injections c < g_max_injections s \<and> \<not> secret_raw_path_is_ambiguous (hr_uri request)
       \<and> pr_method p \<in> set (g_methods s) \<and> (\<exists>rule \<in> set (g_paths s). path_rule_matches rule (url_path U (pr_url p)))
       \<and> (\<exists>authority \<in> set (g_hosts s). authority_matches authority (pr_host p) (request_port U p) (url_scheme U (pr_url p)))
       \<and> (g_allow_query s \<or> url_query U (pr_url p) = None))"
proof -
  from assms(1) obtain d c1 q p2 where a:
    "\<not> (hc_secret_grant c \<noteq> None \<and> secret_raw_path_is_ambiguous (hr_uri request))"
    "prepare U H env (c\<lparr>hc_calls := u32_saturating_add (hc_calls c) 1, hc_deadline := d\<rparr>) request grant streamed = (c1, Inr q)"
    "check_secret_scope U c1 q = Inr ()"
    "inject_credential U H (c1\<lparr>hc_evidence := hc_evidence c1 @ [blank_evidence q]\<rparr>) index q = (c', Inr p2)"
    "propagate_trace H env grant p2 = Inr p"
    by (rule authorize_request_ok)
  obtain m where c1: "c1 = c\<lparr>hc_calls := u32_saturating_add (hc_calls c) 1, hc_deadline := d, hc_resolved := m\<rparr>"
    using prepare_keeps [OF a(2)] by auto
  obtain h1 h2 where p: "p2 = q\<lparr>pr_headers := h1\<rparr>" "p = p2\<lparr>pr_headers := h2\<rparr>"
    using inject_keeps_request [OF a(4)] propagate_keeps_request [OF a(5)] by blast
  have guest: "list_all (\<lambda>(name, _). \<not> is_forbidden_request_header name) (pr_headers q)"
    by (rule prepare_ok [OF a(2)], rule check_request_ok) assumption+
  have k: "\<forall>k. hc_credential (c1\<lparr>hc_evidence := hc_evidence c1 @ [blank_evidence q]\<rparr>) = Some k \<longrightarrow> credential_ok k"
    using assms(2) by (simp add: c1)
  note inj = inject_credential_headers [OF a(4) k, unfolded c1, simplified]
  have own: "is_forbidden_request_header ''authorization''" "is_forbidden_request_header CHATGPT_ACCOUNT_HEADER"
    by (simp_all add: is_forbidden_request_header_def)
  have tr: "''authorization'' \<noteq> ''traceparent''" "CHATGPT_ACCOUNT_HEADER \<noteq> ''traceparent''"
    by (simp_all add: CHATGPT_ACCOUNT_HEADER_def)
  have "header_get_all (pr_headers p) ''authorization'' =
      (case hc_credential c of None \<Rightarrow> [] | Some k \<Rightarrow> [bc_header_value k])"
    unfolding propagate_trace_headers [OF a(5) tr(1)] inj(1)
    using header_get_all_guest [OF guest own(1)] by (simp split: option.split)
  moreover have "hc_credential c = None \<Longrightarrow> header_get_all (pr_headers p) CHATGPT_ACCOUNT_HEADER = []"
    unfolding propagate_trace_headers [OF a(5) tr(2)] inj(1)
    using header_get_all_guest [OF guest own(2)] by simp
  moreover have "header_get_all (pr_headers p) name = []"
    if "is_forbidden_request_header name" "name \<notin> {''authorization'', CHATGPT_ACCOUNT_HEADER, ''traceparent''}"
  proof -
    from that have "name \<noteq> ''traceparent''" by simp
    from propagate_trace_headers [OF a(5) this] show ?thesis
      using that header_get_all_guest [OF guest that(1)] by (simp add: inj(1) split: option.split)
  qed
  moreover have "hc_credential c = Some k \<Longrightarrow> credential_matches k (pr_host p) (request_port U p) (url_scheme U (pr_url p))"
    using inj(2) by (simp add: p request_port_def)
  moreover have "hc_secret_grant c = Some s \<Longrightarrow>
       hc_secret_injections c < g_max_injections s \<and> \<not> secret_raw_path_is_ambiguous (hr_uri request)
       \<and> pr_method p \<in> set (g_methods s) \<and> (\<exists>rule \<in> set (g_paths s). path_rule_matches rule (url_path U (pr_url p)))
       \<and> (\<exists>authority \<in> set (g_hosts s). authority_matches authority (pr_host p) (request_port U p) (url_scheme U (pr_url p)))
       \<and> (g_allow_query s \<or> url_query U (pr_url p) = None)"
    using a(1,3) by (auto simp: c1 p check_secret_scope_def request_port_def Let_def list_ex_iff split: if_splits)
  ultimately show ?thesis by blast
qed

text \<open>A client and a request to try the statements on.\<close>

definition plain_grant :: http_constraints where
  "plain_grant = sample_grant\<lparr>h_templates := []\<rparr>"

definition sample_env :: call_env where
  "sample_env =
     \<lparr>ev_start = 0, ev_resolve = 1, ev_send = 2, ev_lookup_elapsed = False,
      ev_lookup = (\<lambda>_ _. Some [SocketV4 (Ipv4 140 82 112 3) 443]), ev_trace = None\<rparr>"

definition bot_credential :: bound_credential where
  "bot_credential =
     \<lparr>bc_header_value = ''Bot abc'', bc_companion_header = None, bc_destinations = [''a.io''],
      bc_secret_binding = None, bc_echo_values = [''abc'']\<rparr>"

definition sample_client :: http_client where
  "sample_client =
     \<lparr>hc_grant = Some plain_grant, hc_authorizer = None, hc_secret_grant = None, hc_credential = Some bot_credential,
      hc_slots = [], hc_ceilings = default_ceilings, hc_timeout = 10, hc_deadline = 10, hc_calls = 0,
      hc_secret_injections = 0, hc_attempted = True, hc_violation = None, hc_asset_over_budget = False,
      hc_evidence = [], hc_resolved = Map.empty, hc_pinned = None\<rparr>"

definition sample_request :: http_request where
  "sample_request =
     \<lparr>hr_method = ''GET'', hr_uri = ''u'', hr_headers = [\<lparr>hd_name = ''Accept'', hd_value = ''*''\<rparr>], hr_body = []\<rparr>"

definition sample_urls :: "plain_url url_lib" where
  "sample_urls = plain_urls [(''u'', sample_url)]"

definition sample_prepared :: "plain_url prepared_request" where
  "sample_prepared =
     \<lparr>pr_method = ''GET'', pr_url = sample_url, pr_headers = [(''accept'', ''*'')], pr_body = [], pr_host = ''a.io'',
      pr_authority = ''a.io:443'', pr_addresses = [SocketV4 (Ipv4 140 82 112 3) 443], pr_request_bytes = 0\<rparr>"

lemma sample_check_url: "check_url sample_urls plain_grant ''u'' = Inr (sample_url, ''a.io'', 443)"
proof -
  have "trim ''a.io'' = ''a.io''" by (simp add: trim_def scalar_def utf8_width_def is_whitespace_def)
  moreover have "to_ascii_lowercase ''a.io'' = ''a.io''" by (simp add: to_ascii_lowercase_def lower_byte_def ascii)
  ultimately show ?thesis
    by (simp add: check_url_def sample_urls_def plain_urls_def plain_grant_def sample_grant_def sample_url_def
        unbracketed_host_def authority_matches_def canonical_host_def Let_def DEFAULT_HTTPS_PORT_def ensure_def)
qed

lemma sample_check_request:
  assumes "hc_authorizer c = None" "hc_ceilings c = default_ceilings" "body_bytes_of sample_request streamed = 0"
  shows "\<exists>n. check_request sample_urls plain_http c sample_request plain_grant streamed
     = Inr (sample_url, ''a.io'', 443, [(''accept'', ''*'')], n)"
proof -
  have h: "header_name_from plain_http ''Accept'' = Some ''accept''" "method_valid plain_http ''GET''" "header_value_valid plain_http ''*''"
    by (simp_all add: plain_http_def is_http_token_def ascii to_ascii_lowercase_def lower_byte_def char_of_def bit_iff_odd)
  have g: "h_methods plain_grant = [''GET'']" "h_max_request_bytes plain_grant = 4096" "h_templates plain_grant = []"
    by (simp_all add: plain_grant_def sample_grant_def)
  have l: "length (url_as_str sample_urls sample_url) = 26"
    by (simp add: sample_urls_def plain_urls_def sample_url_def)
  have m: "check_method plain_http plain_grant ''GET'' = Inr ()"
    by (simp add: check_method_def h g ensure_def ascii)
  have n: "header_loop plain_http (ce_max_header_bytes default_ceilings) 0 [] [] [\<lparr>hd_name = ''Accept'', hd_value = ''*''\<rparr>]
      = Inr (11, [(''accept'', ''*'')], [(''accept'', ''*'')])"
    by (simp add: h ensure_def checked_add_def u64_max_def default_ceilings_def DEFAULT_MAX_HEADER_BYTES_def
        is_forbidden_request_header_def CHATGPT_ACCOUNT_HEADER_def header_append_def)
  have ch: "ce_max_headers default_ceilings = 128" by (simp add: default_ceilings_def DEFAULT_MAX_HEADERS_def)
  show ?thesis
    using assms l
    by (simp add: check_request_def Let_def ch sample_request_def assms(3) [unfolded sample_request_def] m n g sample_check_url apply_request_templates_def check_policy_def
        check_request_bytes_def encoded_request_bytes_def checked_add_def u64_max_def REQUEST_ENCODING_OVERHEAD_BYTES_def
        ensure_def del: header_loop.simps)
qed

lemma sample_prepare:
  assumes "hc_authorizer c = None" "hc_ceilings c = default_ceilings" "body_bytes_of sample_request streamed = 0"
    "hc_resolved c = Map.empty" "hc_deadline c = 10"
  shows "\<exists>c' n. prepare sample_urls plain_http sample_env c sample_request plain_grant streamed
    = (c', Inr (sample_prepared\<lparr>pr_request_bytes := n\<rparr>))"
proof -
  obtain n where n: "check_request sample_urls plain_http c sample_request plain_grant streamed
     = Inr (sample_url, ''a.io'', 443, [(''accept'', ''*'')], n)"
    using sample_check_request [OF assms(1-3)] by blast
  have a: "canonical_authority ''a.io'' 443 = ''a.io:443''" "url_scheme sample_urls sample_url = ''https''"
    by (simp_all add: canonical_authority_def canonical_host_def show_nat.simps digit_char_def char_of_def bit_iff_odd
        sample_urls_def plain_urls_def sample_url_def)
  have "resolved_addresses sample_env c ''https'' ''a.io'' 443 ''a.io:443''
      = (c\<lparr>hc_resolved := [''a.io:443'' \<mapsto> [SocketV4 (Ipv4 140 82 112 3) 443]]\<rparr>, Inr [SocketV4 (Ipv4 140 82 112 3) 443])"
    using assms
    by (simp add: resolved_addresses_def looked_up_addresses_def call_time_remaining_def sample_env_def default_ceilings_def resolve_destination_def
        bounded_addresses_def MAX_RESOLVED_ADDRESSES_def insort_insert_key_def)
  moreover have "check_addresses default_ceilings ''https'' ''a.io'' ''a.io:443'' [SocketV4 (Ipv4 140 82 112 3) 443] = Inr ()"
    by (simp add: check_addresses_def plaintext_permitted_def default_ceilings_def https_addresses_permitted_def ensure_def)
  ultimately show ?thesis
    using n assms by (simp add: prepare_def Let_def a sample_prepared_def sample_request_def)
qed

lemma sample_credential_header:
  "credential_headers sample_urls plain_http (sample_prepared\<lparr>pr_request_bytes := n\<rparr>) bot_credential [(''accept'', ''*'')]
    = Inr [(''accept'', ''*''), (''authorization'', ''Bot abc'')]"
proof -
  have "trim ''a.io'' = ''a.io''" by (simp add: trim_def scalar_def utf8_width_def is_whitespace_def)
  moreover have "to_ascii_lowercase ''a.io'' = ''a.io''" by (simp add: to_ascii_lowercase_def lower_byte_def ascii)
  ultimately have "credential_matches bot_credential ''a.io'' 443 ''https''"
    by (simp add: credential_matches_def bot_credential_def authority_matches_def canonical_host_def Let_def DEFAULT_HTTPS_PORT_def)
  moreover have "header_text_valid plain_http ''Bot abc''" by (simp add: plain_http_def)
  ultimately show ?thesis
    by (simp add: credential_headers_def credential_header_def request_port_def sample_prepared_def sample_urls_def plain_urls_def
        sample_url_def credential_render_def render_header_def credential_render_companion_def bot_credential_def header_insert_def)
qed

lemma sample_request_authorized:
  assumes "body_bytes_of sample_request streamed = 0"
  shows "\<exists>c' n. authorize_request sample_urls plain_http sample_env sample_client sample_request streamed
    = (c', Inr (sample_prepared\<lparr>pr_request_bytes := n,
         pr_headers := [(''accept'', ''*''), (''authorization'', ''Bot abc'')]\<rparr>, plain_grant, 0))
      \<and> hc_deadline c' = 10 \<and> hc_pinned c' = None"
proof -
  let ?c = "sample_client\<lparr>hc_calls := 1, hc_deadline := 10\<rparr>"
  obtain c1 n where p: "prepare sample_urls plain_http sample_env ?c sample_request plain_grant streamed
      = (c1, Inr (sample_prepared\<lparr>pr_request_bytes := n\<rparr>))"
    using sample_prepare [of ?c streamed] assms by (auto simp: sample_client_def)
  obtain m where c1: "c1 = ?c\<lparr>hc_resolved := m\<rparr>"
    using prepare_keeps [OF p] by auto
  have a: "hc_grant sample_client = Some plain_grant" "hc_calls sample_client = 0" "h_max_requests plain_grant = 2"
    "hc_secret_grant sample_client = None" "hc_timeout sample_client = 10" "hc_evidence sample_client = []"
    "hc_credential sample_client = Some bot_credential" "hc_pinned sample_client = None"
    by (simp_all add: sample_client_def plain_grant_def sample_grant_def)
  have "instant_checked_add (ev_start sample_env) 10 = Some 10" "ev_trace sample_env = None"
    by (simp_all add: instant_checked_add_def sample_env_def i64_max_def)
  with p show ?thesis
    using sample_credential_header [of n]
    by (simp add: authorize_request_def ensure_def a u32_saturating_add_def u32_max_def c1 check_secret_scope_def inject_credential_def
        propagate_trace_def Let_def update_evidence_def sample_prepared_def)
qed

lemma sample_body_empty: "body_bytes_of sample_request None = 0"
  by (simp add: body_bytes_of_def sample_request_def)

theorem authorized_request_is_within_grant_witness:
  "\<exists>c' p. authorize_request sample_urls plain_http sample_env sample_client sample_request None = (c', Inr (p, plain_grant, 0))
    \<and> pr_method p \<in> set (h_methods plain_grant)
    \<and> destination_permitted (hc_ceilings sample_client) plain_grant (url_scheme sample_urls (pr_url p)) (pr_host p)
        (pr_authority p) (pr_addresses p)
    \<and> request_charge (pr_method p) (url_as_str sample_urls (pr_url p)) (hr_headers sample_request)
        (body_bytes_of sample_request None) \<le> h_max_request_bytes plain_grant"
proof -
  obtain c' p where s: "authorize_request sample_urls plain_http sample_env sample_client sample_request None
      = (c', Inr (p, plain_grant, 0))"
    using sample_request_authorized [OF sample_body_empty] by blast
  have "url_laws sample_urls plain_http" unfolding sample_urls_def by (rule plain_url_laws)
  from authorized_request_is_within_grant [OF this s] s show ?thesis by blast
qed

theorem credential_is_host_bound_witness:
  "\<exists>c' p. authorize_request sample_urls plain_http sample_env sample_client sample_request None = (c', Inr (p, plain_grant, 0))
    \<and> header_get_all (pr_headers p) ''authorization'' = [''Bot abc'']
    \<and> credential_matches bot_credential (pr_host p) (request_port sample_urls p) (url_scheme sample_urls (pr_url p))"
proof -
  obtain c' p where s: "authorize_request sample_urls plain_http sample_env sample_client sample_request None
      = (c', Inr (p, plain_grant, 0))"
    using sample_request_authorized [OF sample_body_empty] by blast
  have k: "hc_credential sample_client = Some bot_credential" by (simp add: sample_client_def)
  have "\<forall>k. hc_credential sample_client = Some k \<longrightarrow> credential_ok k"
    by (simp add: k credential_ok_def bot_credential_def)
  note f = credential_is_host_bound [OF s this, where k = bot_credential]
  have "bc_header_value bot_credential = ''Bot abc''" by (simp add: bot_credential_def)
  with f s k show ?thesis by auto
qed

section \<open>A response stays within its bounds\<close>

text \<open>Sending and reading keep what a client may do and what it has done: its grant, credential and
  ceilings, its counts, and which of its calls carried the credential.\<close>

definition same_account :: "http_client \<Rightarrow> http_client \<Rightarrow> bool" where
  "same_account c d \<longleftrightarrow>
     hc_grant d = hc_grant c \<and> hc_secret_grant d = hc_secret_grant c \<and> hc_credential d = hc_credential c
     \<and> hc_ceilings d = hc_ceilings c \<and> hc_calls d = hc_calls c \<and> hc_secret_injections d = hc_secret_injections c
     \<and> map cv_credential_injected (hc_evidence d) = map cv_credential_injected (hc_evidence c)"

lemma same_account_refl [simp]: "same_account c c"
  by (simp add: same_account_def)

lemma same_account_trans: "same_account a b \<Longrightarrow> same_account b c \<Longrightarrow> same_account a c"
  by (simp add: same_account_def)

lemma update_evidence_injected:
  assumes "\<And>e. cv_credential_injected (f e) = cv_credential_injected e"
  shows "map cv_credential_injected (hc_evidence (update_evidence f index c)) = map cv_credential_injected (hc_evidence c)"
proof (cases "index < length (hc_evidence c)")
  case True
  then have "(map cv_credential_injected (hc_evidence c))[index := cv_credential_injected (hc_evidence c ! index)]
      = map cv_credential_injected (hc_evidence c)"
    by (metis list_update_id nth_map)
  with assms show ?thesis by (simp add: update_evidence_def map_update)
qed (simp add: update_evidence_def list_update_beyond not_less)

lemma update_evidence_account [simp]:
  "(\<And>e. cv_credential_injected (f e) = cv_credential_injected e) \<Longrightarrow>
     same_account c (update_evidence f index d) \<longleftrightarrow> same_account c d"
  unfolding same_account_def by (simp add: update_evidence_injected) (simp add: update_evidence_def)

lemma count_chunk_account: "same_account c (fst (count_chunk grant index text c n chunk))"
  unfolding count_chunk_def by (rule state_bind_pure) simp_all

lemma read_body_account: "same_account c (fst (read_body grant index c n body chunks))"
proof (induction chunks arbitrary: c n body)
  case (Cons event chunks)
  show ?case
  proof (cases event)
    case (Inr chunk)
    show ?thesis
      unfolding read_body.simps Inr sum.case
      by (rule state_bind_state, rule count_chunk_account, erule same_account_trans, rule Cons.IH)
  qed simp
qed simp

lemma accept_head_account: "same_account c (fst (accept_head H c m r grant index metadata))"
  by (auto simp: accept_head_def state_bind_def note_head_def split: sum.splits prod.splits)

lemma pinned_client_account: "same_account c (fst (pinned_client_for L c host addresses))"
  by (auto simp: pinned_client_for_def build_pinned_def Let_def same_account_def state_bind_def split: sum.splits option.splits)

lemma execute_account: "same_account c (fst (execute_ordinary H L env net c p grant index))"
  unfolding execute_ordinary_def
  apply (rule state_bind_pure, simp)
  apply (rule state_bind_state, rule pinned_client_account)
  apply (rule state_bind_pure, assumption)
  apply (rule state_bind_state, erule same_account_trans, rule accept_head_account)
  apply (rule state_bind_pure, assumption)
  apply (rule state_bind_state, erule same_account_trans, rule read_body_account)
  apply simp
  done

lemma count_chunk_ok:
  "count_chunk grant index text c n chunk = (c', Inr n') \<Longrightarrow> n' = n + length chunk \<and> n' \<le> h_max_response_bytes grant"
  by (auto simp: count_chunk_def res_simps split: if_splits)

lemma read_body_ok:
  assumes "read_body grant index c n body chunks = (c', Inr b)" "n \<le> h_max_response_bytes grant"
  shows "n + length b \<le> h_max_response_bytes grant + length body"
  using assms
proof (induction chunks arbitrary: c n body)
  case (Cons event chunks)
  then obtain chunk where e: "event = Inr chunk" by (cases event) auto
  with Cons.prems(1) obtain d n' where r: "count_chunk grant index ''response size overflowed'' c n chunk = (d, Inr n')"
    "read_body grant index d n' (body @ chunk) chunks = (c', Inr b)"
    by (auto simp: res_simps)
  with Cons.IH [OF r(2)] count_chunk_ok [OF r(1)] show ?case by simp
qed simp

lemma head_within_ok: "head_within n ceilings maximum = Inr u \<Longrightarrow> n \<le> maximum"
  by (auto simp: head_within_def split: if_splits)

lemma head_bytes_loop_ok:
  "head_bytes_loop ceilings maximum n headers = Inr n' \<Longrightarrow> n \<le> maximum \<Longrightarrow> n' \<le> maximum"
  by (induction ceilings maximum n headers rule: head_bytes_loop.induct) (auto simp: res_simps dest: head_within_ok)

lemma response_head_bytes_ok: "response_head_bytes headers ceilings maximum = Inr n \<Longrightarrow> n \<le> maximum"
  by (auto simp: response_head_bytes_def res_simps dest: head_within_ok head_bytes_loop_ok)

text \<open>A location that is returned shows no query and no fragment.\<close>

definition location_redacted :: "header \<Rightarrow> bool" where
  "location_redacted h \<longleftrightarrow>
     (to_ascii_lowercase (hd_name h) = ''location'' \<longrightarrow>
        (\<exists>base. CHR ''?'' \<notin> set base \<and> CHR ''#'' \<notin> set base \<and>
           hd_value h \<in> {base, base @ ''?[redacted]'', base @ ''#[redacted]'', base @ ''?[redacted]#[redacted]''}))"

lemma redact_location_redacts: "location_redacted (redact_location h)"
proof (cases "to_ascii_lowercase (hd_name h) = ''location''")
  case True
  let ?P = "\<lambda>b. b \<noteq> CHR ''?'' \<and> b \<noteq> CHR ''#''"
  have base: "CHR ''?'' \<notin> set (takeWhile ?P (hd_value h))" "CHR ''#'' \<notin> set (takeWhile ?P (hd_value h))"
    by (auto dest: set_takeWhileD)
  show ?thesis
  proof (cases "dropWhile ?P (hd_value h)")
    case Nil
    then have "takeWhile ?P (hd_value h) = hd_value h" by (simp add: takeWhile_eq_all_conv dropWhile_eq_Nil_conv)
    with base have "CHR ''?'' \<notin> set (hd_value h)" "CHR ''#'' \<notin> set (hd_value h)" by simp_all
    moreover have "redact_location h = h" by (simp add: redact_location_def True Nil)
    ultimately show ?thesis unfolding location_redacted_def by (metis insertI1)
  next
    case (Cons mark rest)
    with base True show ?thesis
      by (auto simp: location_redacted_def redact_location_def intro!: exI [of _ "takeWhile ?P (hd_value h)"])
  qed
qed (simp add: location_redacted_def redact_location_def)

lemma hd_name_redact [simp]: "hd_name (redact_location h) = hd_name h"
  by (simp add: redact_location_def split: list.split)

lemma accept_head_ok:
  assumes "accept_head H c m r grant index OrdinaryResponse = (c', Inr head)"
  shows "returned_head_bytes (rh_headers head) \<le> rh_bytes head" "rh_bytes head \<le> h_max_response_bytes grant"
    "\<forall>h \<in> set (rh_headers head). \<not> is_forbidden_response_header (hd_name h) \<and> location_redacted h"
    "hc_credential c = Some k \<Longrightarrow> secret \<in> set (bc_echo_values k) \<Longrightarrow> secret \<noteq> [] \<Longrightarrow>
       \<forall>h \<in> set (rh_headers head). \<not> sublist secret (hd_name h) \<and> \<not> sublist secret (hd_value h)"
proof -
  from assms obtain decoder bytes where d:
    "response_head_bytes (ry_headers r) (hc_ceilings c) (h_max_response_bytes grant) = Inr bytes"
    "rh_headers head = redact_api_locations (kept_headers decoder (ry_headers r))"
    "rh_bytes head = max bytes (returned_head_bytes (rh_headers head))"
    "returned_head_bytes (rh_headers head) \<le> h_max_response_bytes grant"
    by (auto simp: accept_head_def res_simps charged_head_def Let_def split: if_splits prod.splits)
  from assms have e: "\<not> client_echoes c \<lparr>rsp_status = ry_status r, rsp_headers = rh_headers head, rsp_body = []\<rparr>"
    by (auto simp: accept_head_def res_simps update_evidence_def client_echoes_def split: option.splits)
  show "returned_head_bytes (rh_headers head) \<le> rh_bytes head" "rh_bytes head \<le> h_max_response_bytes grant"
    using d(3,4) response_head_bytes_ok [OF d(1)] by simp_all
  show "\<forall>h \<in> set (rh_headers head). \<not> is_forbidden_response_header (hd_name h) \<and> location_redacted h"
    unfolding d(2) by (auto simp: redact_api_locations_def kept_headers_def redact_location_redacts)
  show "hc_credential c = Some k \<Longrightarrow> secret \<in> set (bc_echo_values k) \<Longrightarrow> secret \<noteq> [] \<Longrightarrow>
      \<forall>h \<in> set (rh_headers head). \<not> sublist secret (hd_name h) \<and> \<not> sublist secret (hd_value h)"
    using e by (auto simp: client_echoes_def echoes_credential_iff echoes_def)
qed

lemma execute_ok:
  assumes "execute_ordinary H L env net c p grant index = (c', Inr r)"
  shows "returned_head_bytes (rsp_headers r) + length (rsp_body r) \<le> h_max_response_bytes grant"
    "\<forall>h \<in> set (rsp_headers r). \<not> is_forbidden_response_header (hd_name h) \<and> location_redacted h"
proof -
  from assms obtain d e m head where h: "accept_head H d (pr_method p) m grant index OrdinaryResponse = (e, Inr head)"
    "read_body grant index e (rh_bytes head) [] (rh_body head) = (c', Inr (rsp_body r))" "rsp_headers r = rh_headers head"
    by (auto simp: execute_ordinary_def res_simps)
  from accept_head_ok [OF h(1)] read_body_ok [OF h(2)] h(3)
  show "returned_head_bytes (rsp_headers r) + length (rsp_body r) \<le> h_max_response_bytes grant"
    "\<forall>h \<in> set (rsp_headers r). \<not> is_forbidden_response_header (hd_name h) \<and> location_redacted h"
    by simp_all
qed

section \<open>Requests and injections are counted\<close>

definition injected :: "http_client \<Rightarrow> nat" where
  "injected c = length (filter cv_credential_injected (hc_evidence c))"

definition account_ok :: "http_client \<Rightarrow> bool" where
  "account_ok c \<longleftrightarrow>
     hc_calls c \<le> (case hc_grant c of None \<Rightarrow> 0 | Some g \<Rightarrow> h_max_requests g)
     \<and> length (hc_evidence c) \<le> hc_calls c
     \<and> (\<forall>s. hc_secret_grant c = Some s \<longrightarrow>
           injected c = hc_secret_injections c \<and> hc_secret_injections c \<le> g_max_injections s)"

text \<open>The limits of the grants are 32-bit numbers.\<close>

definition limits_typed :: "http_client \<Rightarrow> bool" where
  "limits_typed c \<longleftrightarrow>
     (\<forall>g. hc_grant c = Some g \<longrightarrow> h_max_requests g \<le> u32_max)
     \<and> (\<forall>s. hc_secret_grant c = Some s \<longrightarrow> g_max_injections s \<le> u32_max)"

lemma filter_length_map: "length (filter P xs) = length (filter id (map P xs))"
  by (induction xs) simp_all

lemma same_account_ok: "same_account c d \<Longrightarrow> account_ok d \<longleftrightarrow> account_ok c"
  unfolding same_account_def account_ok_def injected_def filter_length_map [of cv_credential_injected]
  by (metis length_map)

lemma same_account_typed: "same_account c d \<Longrightarrow> limits_typed d \<longleftrightarrow> limits_typed c"
  by (simp add: same_account_def limits_typed_def)

lemma prepare_account: "same_account c (fst (prepare U H env c request grant streamed))"
  by (cases "prepare U H env c request grant streamed") (auto simp: same_account_def dest: prepare_keeps)

text \<open>The state when a request is prepared, before its evidence is there.\<close>

definition counted :: "http_client \<Rightarrow> bool" where
  "counted c \<longleftrightarrow> account_ok c \<and> limits_typed c \<and> length (hc_evidence c) < hc_calls c"

lemma counted_account: "same_account c d \<Longrightarrow> counted d \<longleftrightarrow> counted c"
  unfolding counted_def using same_account_ok same_account_typed same_account_def by (metis length_map)

lemma inject_counted:
  assumes "counted c" "check_secret_scope U c p = Inr ()"
  shows "account_ok (fst (inject_credential U H (c\<lparr>hc_evidence := hc_evidence c @ [blank_evidence p]\<rparr>) (length (hc_evidence c)) p))"
    "limits_typed (fst (inject_credential U H (c\<lparr>hc_evidence := hc_evidence c @ [blank_evidence p]\<rparr>) (length (hc_evidence c)) p))"
proof -
  have s: "hc_secret_injections c < g_max_injections s \<and> g_max_injections s \<le> u32_max \<and> injected c = hc_secret_injections c"
    if "hc_secret_grant c = Some s" for s
    using assms that by (auto simp: check_secret_scope_def Let_def counted_def account_ok_def limits_typed_def split: if_splits)
  have b: "\<not> cv_credential_injected (blank_evidence p)" by (simp add: blank_evidence_def)
  show "limits_typed (fst (inject_credential U H (c\<lparr>hc_evidence := hc_evidence c @ [blank_evidence p]\<rparr>) (length (hc_evidence c)) p))"
    using assms(1)
    by (auto simp: inject_credential_def counted_def limits_typed_def Let_def state_bind_def update_evidence_def
        split: option.splits sum.splits)
  show "account_ok (fst (inject_credential U H (c\<lparr>hc_evidence := hc_evidence c @ [blank_evidence p]\<rparr>) (length (hc_evidence c)) p))"
    using assms(1) b s
    by (auto simp: inject_credential_def counted_def account_ok_def Let_def state_bind_def update_evidence_def
        injected_def u32_saturating_add_def min_def split: option.splits sum.splits)
qed

lemma charged_counted:
  assumes "account_ok c" "limits_typed c" "hc_grant c = Some g" "hc_calls c < h_max_requests g"
  shows "counted (c\<lparr>hc_calls := u32_saturating_add (hc_calls c) 1\<rparr>)"
  using assms by (auto simp: counted_def account_ok_def limits_typed_def injected_def u32_saturating_add_def min_def)

lemma counted_ok: "counted c \<Longrightarrow> account_ok c \<and> limits_typed c"
  by (simp add: counted_def)

lemma authorize_request_account:
  assumes "account_ok c" "limits_typed c"
  defines "P \<equiv> \<lambda>s. account_ok s \<and> limits_typed s"
  shows "P (fst (authorize_request U H env c request streamed))"
proof (cases "\<exists>g. hc_grant c = Some g \<and> hc_calls c < h_max_requests g")
  case False
  with assms show ?thesis by (cases "hc_grant c") (auto simp: authorize_request_def ensure_def)
next
  case True
  then obtain g where g: "hc_grant c = Some g" "hc_calls c < h_max_requests g" by blast
  define d where "d = c\<lparr>hc_calls := u32_saturating_add (hc_calls c) 1\<rparr>"
  have d: "counted (d\<lparr>hc_deadline := t\<rparr>)" "counted d" for t
    using charged_counted [OF assms(1,2) g] counted_account [of d "d\<lparr>hc_deadline := t\<rparr>"]
    by (simp_all add: d_def same_account_def)
  have last: "P (fst (state_bind (inject_credential U H (s\<lparr>hc_evidence := hc_evidence s @ [blank_evidence p]\<rparr>) (length (hc_evidence s)) p)
      (\<lambda>c q. state_bind (c, propagate_trace H env g q) (\<lambda>c q. (c, Inr (q, g, length (hc_evidence s)))))))"
    if "counted s" "check_secret_scope U s p = Inr ()" for s p
    using inject_counted [OF that, of H]
    by (intro state_bind_state [where P = P] state_bind_pure [where P = P]) (simp_all add: P_def)
  have prep: "P (fst (state_bind (prepare U H env (d\<lparr>hc_deadline := t\<rparr>) request g streamed) (\<lambda>s p.
      state_bind (s, check_secret_scope U s p) (\<lambda>s _.
        let index = length (hc_evidence s); s = s\<lparr>hc_evidence := hc_evidence s @ [blank_evidence p]\<rparr>
        in state_bind (inject_credential U H s index p) (\<lambda>c q.
           state_bind (c, propagate_trace H env g q) (\<lambda>c q. (c, Inr (q, g, index))))))))" for t
  proof (rule state_bind_state)
    have k: "counted (fst (prepare U H env (d\<lparr>hc_deadline := t\<rparr>) request g streamed))"
      using counted_account [OF prepare_account] d(1) by blast
    then show "P (fst (prepare U H env (d\<lparr>hc_deadline := t\<rparr>) request g streamed))"
      unfolding P_def by (rule counted_ok)
    fix s p
    assume "prepare U H env (d\<lparr>hc_deadline := t\<rparr>) request g streamed = (s, Inr p)"
    with k have "counted s" by simp
    then show "P (fst (state_bind (s, check_secret_scope U s p) (\<lambda>s _.
        let index = length (hc_evidence s); s = s\<lparr>hc_evidence := hc_evidence s @ [blank_evidence p]\<rparr>
        in state_bind (inject_credential U H s index p) (\<lambda>c q.
           state_bind (c, propagate_trace H env g q) (\<lambda>c q. (c, Inr (q, g, index)))))))"
      unfolding Let_def
      by (intro state_bind_pure [where P = P] last) (simp_all add: P_def counted_ok)
  qed
  show ?thesis
    unfolding authorize_request_def g(1) ok_or_simps state_bind_simps
    using g(2) counted_ok [OF d(1)] counted_ok [OF d(2)]
    by (intro state_bind_pure [where P = P] prep [unfolded d_def]) (simp_all add: P_def d_def assms(1,2))
qed

lemma inject_keeps_policy:
  "inject_credential U H c index p = (c', r) \<Longrightarrow>
     hc_grant c' = hc_grant c \<and> hc_credential c' = hc_credential c \<and> hc_ceilings c' = hc_ceilings c"
  by (auto simp: inject_credential_def Let_def state_bind_def update_evidence_def split: option.splits sum.splits)

lemma authorize_keeps_policy:
  assumes "authorize_request U H env c request streamed = (c', Inr (p, grant, index))"
  shows "hc_grant c = Some grant" "hc_credential c' = hc_credential c" "hc_ceilings c' = hc_ceilings c"
proof -
  from assms obtain d c1 q p2 where a: "hc_grant c = Some grant"
    "prepare U H env (c\<lparr>hc_calls := u32_saturating_add (hc_calls c) 1, hc_deadline := d\<rparr>) request grant streamed = (c1, Inr q)"
    "inject_credential U H (c1\<lparr>hc_evidence := hc_evidence c1 @ [blank_evidence q]\<rparr>) index q = (c', Inr p2)"
    by (rule authorize_request_ok)
  from prepare_keeps [OF a(2)] inject_keeps_policy [OF a(3)]
  show "hc_grant c = Some grant" "hc_credential c' = hc_credential c" "hc_ceilings c' = hc_ceilings c"
    using a(1) by auto
qed

text \<open>C32: A response that a guest gets is within its grant: its headers and body are no longer than the
  limit on responses, none of its headers is hop-by-hop or sets a cookie, a location in it shows no query
  and no fragment, and no secret of the credential the request carried occurs in its body or its headers.\<close>

theorem response_is_within_grant:
  assumes "send U H L env net c request = (c', Inr r)"
  shows "(\<exists>grant. hc_grant c = Some grant
      \<and> returned_head_bytes (rsp_headers r) + length (rsp_body r) \<le> h_max_response_bytes grant)
    \<and> (\<forall>h \<in> set (rsp_headers r). \<not> is_forbidden_response_header (hd_name h) \<and> location_redacted h)
    \<and> (hc_credential c = Some k \<and> secret \<in> set (bc_echo_values k) \<and> secret \<noteq> [] \<longrightarrow>
       \<not> sublist secret (rsp_body r)
       \<and> (\<forall>h \<in> set (rsp_headers r). \<not> sublist secret (hd_name h) \<and> \<not> sublist secret (hd_value h)))"
proof -
  from assms obtain d e p grant index where s:
    "authorize_request U H env (c\<lparr>hc_attempted := True\<rparr>) request None = (d, Inr (p, grant, index))"
    "execute_ordinary H L env net d p grant index = (e, Inr r)" "\<not> client_echoes e r"
    by (auto simp: send_def send_checked_def res_simps split: prod.splits if_splits)
  have g: "hc_grant c = Some grant" "hc_credential d = hc_credential c"
    using authorize_keeps_policy [OF s(1)] by simp_all
  have b: "\<exists>grant. hc_grant c = Some grant
      \<and> returned_head_bytes (rsp_headers r) + length (rsp_body r) \<le> h_max_response_bytes grant"
    using g(1) execute_ok(1) [OF s(2)] by simp
  have h: "\<forall>h \<in> set (rsp_headers r). \<not> is_forbidden_response_header (hd_name h) \<and> location_redacted h"
    by (rule execute_ok(2) [OF s(2)])
  have "hc_credential e = hc_credential c"
    using execute_account [of d H L env net p grant index] s(2) g(2) by (simp add: same_account_def)
  then have "hc_credential c = Some k \<Longrightarrow> secret \<in> set (bc_echo_values k) \<Longrightarrow> secret \<noteq> [] \<Longrightarrow>
       \<not> sublist secret (rsp_body r)
       \<and> (\<forall>h \<in> set (rsp_headers r). \<not> sublist secret (hd_name h) \<and> \<not> sublist secret (hd_value h))"
    using s(3) by (auto simp: client_echoes_def echoes_credential_iff echoes_def)
  with b h show ?thesis by blast
qed

definition sample_lib :: client_lib where
  "sample_lib = \<lparr>bundle_certificates = (\<lambda>_. Some []), build_error = (\<lambda>_. None)\<rparr>"

definition sample_reply :: reply where
  "sample_reply =
     \<lparr>ry_status = 200, ry_headers = [(''location'', ''/x?k''), (''te'', ''y'')], ry_content_length = None,
      ry_body = (\<lambda>_. [Inr ''ab'', Inr ''d''])\<rparr>"

definition sample_headers :: "header list" where
  "sample_headers = [\<lparr>hd_name = ''location'', hd_value = ''/x?[redacted]''\<rparr>]"

lemma sample_limits:
  "h_max_response_bytes plain_grant = 4096" "ce_max_header_bytes default_ceilings = 65536"
  "ce_max_headers default_ceilings = 128" "ce_extra_ca_bundles default_ceilings = []"
  "ce_loopback_pin default_ceilings = None" "returned_head_bytes sample_headers = 41"
  by (simp_all add: plain_grant_def sample_grant_def default_ceilings_def DEFAULT_MAX_HEADER_BYTES_def
      DEFAULT_MAX_HEADERS_def sample_headers_def returned_head_bytes_def saturating_add_def u64_max_def)

lemma sample_accepted:
  assumes "hc_ceilings c = default_ceilings" "hc_credential c = Some bot_credential"
  shows "\<exists>c'. accept_head plain_http c ''GET'' sample_reply plain_grant index OrdinaryResponse
      = (c', Inr \<lparr>rh_status = 200, rh_headers = sample_headers, rh_bytes = 41, rh_body = [Inr ''ab'', Inr ''d'']\<rparr>)
    \<and> same_account c c'"
proof -
  have k: "kept_headers None (ry_headers sample_reply) = [\<lparr>hd_name = ''location'', hd_value = ''/x?k''\<rparr>]"
    by (simp add: kept_headers_def sample_reply_def is_forbidden_response_header_def)
  have r: "redact_api_locations (kept_headers None (ry_headers sample_reply)) = sample_headers"
    unfolding k sample_headers_def
    by (simp add: redact_api_locations_def redact_location_def to_ascii_lowercase_def lower_byte_def ascii)
  have d: "choose_decoder ''GET'' sample_reply = Inr None"
    by (simp add: choose_decoder_def sample_reply_def header_get_all_def)
  have n: "response_head_bytes (ry_headers sample_reply) default_ceilings 4096 = Inr 39"
    by (simp add: response_head_bytes_def sample_reply_def sample_limits ensure_def head_within_def checked_add_def u64_max_def)
  have e: "\<not> echoes_credential bot_credential \<lparr>rsp_status = 200, rsp_headers = sample_headers, rsp_body = []\<rparr>"
    by (simp add: echoes_credential_def bot_credential_def sample_headers_def contains_bytes_def upt_conv_Cons)
  have "\<exists>c'. accept_head plain_http c ''GET'' sample_reply plain_grant index OrdinaryResponse
      = (c', Inr \<lparr>rh_status = 200, rh_headers = sample_headers, rh_bytes = 41, rh_body = [Inr ''ab'', Inr ''d'']\<rparr>)"
    using assms
    by (simp add: accept_head_def d n r sample_limits charged_head_def ensure_def client_echoes_def e update_evidence_def Let_def)
      (simp add: sample_reply_def e)
  then show ?thesis
    using accept_head_account [of c plain_http "''GET''" sample_reply plain_grant index OrdinaryResponse] by auto
qed

lemma sample_pinned:
  assumes "hc_pinned c = None" "hc_ceilings c = default_ceilings"
  shows "\<exists>c' client. pinned_client_for sample_lib c (pr_host sample_prepared) (pr_addresses sample_prepared) = (c', Inr client)
    \<and> same_account c c'"
proof -
  have "\<exists>c' client. pinned_client_for sample_lib c (pr_host sample_prepared) (pr_addresses sample_prepared) = (c', Inr client)"
    using assms by (simp add: pinned_client_for_def build_pinned_def pinned_bundle_def sample_limits sample_lib_def Let_def)
  then show ?thesis
    using pinned_client_account [of c sample_lib "pr_host sample_prepared" "pr_addresses sample_prepared"] by auto
qed

lemma sample_time: "hc_deadline c = 10 \<Longrightarrow> call_time_remaining c (ev_send sample_env) = Inr 8"
  by (simp add: call_time_remaining_def sample_env_def)

lemma sample_executed:
  assumes "hc_deadline c = 10" "hc_pinned c = None" "hc_ceilings c = default_ceilings" "hc_credential c = Some bot_credential"
  shows "\<exists>c'. execute_ordinary plain_http sample_lib sample_env (\<lambda>_ _. Replied sample_reply) c
      (sample_prepared\<lparr>pr_request_bytes := n, pr_headers := hs\<rparr>) plain_grant index
    = (c', Inr \<lparr>rsp_status = 200, rsp_headers = sample_headers, rsp_body = ''abd''\<rparr>)
      \<and> hc_credential c' = Some bot_credential"
proof -
  obtain c1 client where c1: "pinned_client_for sample_lib c (pr_host sample_prepared) (pr_addresses sample_prepared) = (c1, Inr client)"
    "hc_ceilings c1 = default_ceilings" "hc_credential c1 = Some bot_credential"
    using sample_pinned [OF assms(2,3)] assms(3,4) by (auto simp: same_account_def)
  obtain c2 where c2: "accept_head plain_http c1 ''GET'' sample_reply plain_grant index OrdinaryResponse
      = (c2, Inr \<lparr>rh_status = 200, rh_headers = sample_headers, rh_bytes = 41, rh_body = [Inr ''ab'', Inr ''d'']\<rparr>)"
    "hc_credential c2 = Some bot_credential"
    using sample_accepted [OF c1(2,3)] c1(3) by (auto simp: same_account_def)
  have "pr_method sample_prepared = ''GET''" by (simp add: sample_prepared_def)
  with c1 c2 sample_time [OF assms(1)] show ?thesis
    by (simp add: execute_ordinary_def transport_reply_def ensure_def sample_limits count_chunk_def checked_add_def u64_max_def
        update_evidence_def)
qed

theorem response_is_within_grant_witness:
  "\<exists>c' r. send sample_urls plain_http sample_lib sample_env (\<lambda>_ _. Replied sample_reply) sample_client sample_request = (c', Inr r)
    \<and> rsp_body r = ''abd'' \<and> \<not> sublist ''abc'' (rsp_body r)
    \<and> (\<exists>grant. hc_grant sample_client = Some grant
         \<and> returned_head_bytes (rsp_headers r) + length (rsp_body r) \<le> h_max_response_bytes grant)"
proof -
  obtain c1 n where a: "authorize_request sample_urls plain_http sample_env sample_client sample_request None
      = (c1, Inr (sample_prepared\<lparr>pr_request_bytes := n,
          pr_headers := [(''accept'', ''*''), (''authorization'', ''Bot abc'')]\<rparr>, plain_grant, 0))"
      "hc_deadline c1 = 10" "hc_pinned c1 = None"
    using sample_request_authorized [OF sample_body_empty] by blast
  have k: "hc_ceilings c1 = default_ceilings" "hc_credential c1 = Some bot_credential" "hc_credential sample_client = Some bot_credential"
    using authorize_keeps_policy [OF a(1)] by (simp_all add: sample_client_def)
  obtain c2 where e: "execute_ordinary plain_http sample_lib sample_env (\<lambda>_ _. Replied sample_reply) c1
      (sample_prepared\<lparr>pr_request_bytes := n, pr_headers := [(''accept'', ''*''), (''authorization'', ''Bot abc'')]\<rparr>) plain_grant 0
    = (c2, Inr \<lparr>rsp_status = 200, rsp_headers = sample_headers, rsp_body = ''abd''\<rparr>)"
    "hc_credential c2 = Some bot_credential"
    using sample_executed [OF a(2,3) k(1,2)] by blast
  have "sample_client\<lparr>hc_attempted := True\<rparr> = sample_client" by (simp add: sample_client_def)
  moreover have "\<not> client_echoes c2 \<lparr>rsp_status = 200, rsp_headers = sample_headers, rsp_body = ''abd''\<rparr>"
    by (simp add: client_echoes_def e(2)) (simp add: echoes_credential_def bot_credential_def sample_headers_def contains_bytes_def upt_conv_Cons)
  ultimately have s: "send sample_urls plain_http sample_lib sample_env (\<lambda>_ _. Replied sample_reply) sample_client sample_request
      = (c2, Inr \<lparr>rsp_status = 200, rsp_headers = sample_headers, rsp_body = ''abd''\<rparr>)"
    by (simp add: send_def send_checked_def a(1) e(1) record_request_def)
  have "''abc'' \<in> set (bc_echo_values bot_credential)" by (simp add: bot_credential_def)
  with response_is_within_grant [OF s, where k = bot_credential and secret = "''abc''"] k(3) s show ?thesis by fastforce
qed

end
