(* ===== verification/Http_Stream.thy ===== *)
theory Http_Stream
  imports Http_Host
begin

text \<open>
  Streamed requests and responses (\<open>dekopon-http-host/src/stream.rs\<close>, with the spools of
  \<open>dekopon-http-host/src/asset.rs\<close>): a body of literals and files that is read and encoded piece by
  piece, the spool a response is written to, the budget of disk bytes all spools share, and the call that
  ties them together. Reading files and writing spools are functions that may fail; the encoding in base 64
  is that of the crate \<open>base64\<close>.
\<close>

section \<open>The body of a streamed request\<close>

definition CHUNK_BYTES :: nat where "CHUNK_BYTES = 65536"
definition RAW_ENCODE_CHUNK :: nat where "RAW_ENCODE_CHUNK = CHUNK_BYTES div 4 * 3"
definition MAX_DECODED_INVOCATION_BYTES :: nat where "MAX_DECODED_INVOCATION_BYTES = 40 * 1024 * 1024"

datatype representation = IdentityBytes | Base64Bytes

text \<open>The base64 crate: the standard encoding, and what a \<open>DecoderReader\<close> over some bytes gives when so
  many decoded bytes are read exactly.\<close>

record base64_lib =
  b64_encode :: "string \<Rightarrow> string"
  b64_read :: "string \<Rightarrow> nat \<Rightarrow> string option"

text \<open>The bytes of a stored file, none when it cannot be read; its number and content type are only logged.\<close>

record file_part =
  fp_file :: "string option"
  fp_stored :: representation
  fp_wire :: representation
  fp_decoded_bytes :: nat

datatype part = LiteralPart string | AssetPart file_part

definition encoded_len :: "nat \<Rightarrow> nat option" where
  "encoded_len bytes = checked_mul (bytes div 3 + (if bytes mod 3 = 0 then 0 else 1)) 4"

definition wire_len :: "file_part \<Rightarrow> (host_error, nat) result" where
  "wire_len f =
     (case fp_wire f of
        IdentityBytes \<Rightarrow> Inr (fp_decoded_bytes f)
      | Base64Bytes \<Rightarrow> ok_or (http_fail RequestTooLargeCode ''encoded length overflow'') (encoded_len (fp_decoded_bytes f)))"

definition add_part :: "request_lengths \<Rightarrow> part \<Rightarrow> (host_error, request_lengths) result" where
  "add_part l p =
     res_bind
       (case p of
          LiteralPart bytes \<Rightarrow>
            res_bind (ok_or (http_fail RequestTooLargeCode ''literal length overflow'')
              (checked_add (rl_literal l) (length bytes))) (\<lambda>n. Inr (l\<lparr>rl_literal := n\<rparr>, length bytes))
        | AssetPart f \<Rightarrow>
            res_bind (case checked_add (rl_decoded_assets l) (fp_decoded_bytes f) of
                        Some n \<Rightarrow>
                          ensure (n \<le> MAX_DECODED_INVOCATION_BYTES) (http_fail RequestTooLargeCode
                            ''asset parts exceed the decoded invocation byte ceiling'')
                      | None \<Rightarrow> Inl (http_fail RequestTooLargeCode
                            ''asset parts exceed the decoded invocation byte ceiling'')) (\<lambda>_.
            res_bind (wire_len f) (\<lambda>bytes.
              Inr (l\<lparr>rl_decoded_assets := rl_decoded_assets l + fp_decoded_bytes f\<rparr>, bytes)))) (\<lambda>(l, bytes).
     res_bind (ok_or (http_fail RequestTooLargeCode ''body length overflow'') (checked_add (rl_total l) bytes)) (\<lambda>n.
       Inr (l\<lparr>rl_total := n\<rparr>)))"

fun add_parts :: "request_lengths \<Rightarrow> part list \<Rightarrow> (host_error, request_lengths) result" where
  "add_parts l [] = Inr l"
| "add_parts l (p # ps) = res_bind (add_part l p) (\<lambda>l. add_parts l ps)"

record stream_body =
  sb_parts :: "part list"
  sb_active :: "(file_part \<times> nat) option"
  sb_remaining :: nat

definition stream_body_new :: "part list \<Rightarrow> (host_error, stream_body \<times> request_lengths) result" where
  "stream_body_new parts =
     res_bind (add_parts \<lparr>rl_literal = 0, rl_decoded_assets = 0, rl_total = 0\<rparr> parts) (\<lambda>l.
       Inr (\<lparr>sb_parts = parts, sb_active = None, sb_remaining = rl_total l\<rparr>, l))"

definition size_hint :: "stream_body \<Rightarrow> nat" where "size_hint b = sb_remaining b"
definition is_end_stream :: "stream_body \<Rightarrow> bool" where "is_end_stream b \<longleftrightarrow> sb_remaining b = 0"

text \<open>Reading a piece of a file and bringing it into the form of the wire; the cursor counts decoded bytes.\<close>

definition read_offset :: "nat \<Rightarrow> (nat \<times> nat) option" where
  "read_offset decoded = map_option (\<lambda>encoded. (encoded, decoded mod 3)) (checked_mul (decoded div 3) 4)"

definition read_decoded :: "base64_lib \<Rightarrow> string option \<Rightarrow> representation \<Rightarrow> nat \<Rightarrow> nat \<Rightarrow> string option" where
  "read_decoded B stored_file rep offset count =
     (if count > CHUNK_BYTES then None
      else Option.bind stored_file (\<lambda>bytes.
        case rep of
          IdentityBytes \<Rightarrow>
            if count = 0 \<or> offset + count \<le> length bytes then Some (take count (drop offset bytes)) else None
        | Base64Bytes \<Rightarrow>
            Option.bind (read_offset offset) (\<lambda>(encoded, skip).
              map_option (drop skip) (b64_read B (drop encoded bytes) (skip + count)))))"

definition read_chunk :: "base64_lib \<Rightarrow> file_part \<Rightarrow> nat \<Rightarrow> (nat \<times> string) option" where
  "read_chunk B f cursor =
     (let count = min (fp_decoded_bytes f - cursor) RAW_ENCODE_CHUNK
      in case read_decoded B (fp_file f) (fp_stored f) cursor count of
           None \<Rightarrow> None
         | Some decoded \<Rightarrow>
             Some (cursor + length decoded,
                   case fp_wire f of IdentityBytes \<Rightarrow> decoded | Base64Bytes \<Rightarrow> b64_encode B decoded))"

datatype frame = FrameError | FrameData string

text \<open>Reading on in the file at hand. A chunk that ends the file leaves no file at hand.\<close>

definition poll_active :: "base64_lib \<Rightarrow> stream_body \<Rightarrow> file_part \<Rightarrow> nat \<Rightarrow> stream_body \<times> frame" where
  "poll_active B b f cursor =
     (case read_chunk B f cursor of
        None \<Rightarrow> (b\<lparr>sb_active := None\<rparr>, FrameError)
      | Some (cursor', bytes) \<Rightarrow>
          (b\<lparr>sb_active := (if cursor' = fp_decoded_bytes f then None else Some (f, cursor')),
             sb_remaining := sb_remaining b - length bytes\<rparr>, FrameData bytes))"

fun poll_parts :: "base64_lib \<Rightarrow> stream_body \<Rightarrow> part list \<Rightarrow> stream_body \<times> frame option" where
  "poll_parts B b [] = (b\<lparr>sb_parts := []\<rparr>, None)"
| "poll_parts B b (LiteralPart bytes # rest) =
     (if bytes = [] then poll_parts B b rest
      else (b\<lparr>sb_parts := rest, sb_remaining := sb_remaining b - length bytes\<rparr>, Some (FrameData bytes)))"
| "poll_parts B b (AssetPart f # rest) =
     (if fp_decoded_bytes f = 0 then poll_parts B b rest
      else map_prod id Some (poll_active B (b\<lparr>sb_parts := rest\<rparr>) f 0))"

definition poll_frame :: "base64_lib \<Rightarrow> stream_body \<Rightarrow> stream_body \<times> frame option" where
  "poll_frame B b =
     (case sb_active b of
        Some (f, cursor) \<Rightarrow>
          if cursor = fp_decoded_bytes f then poll_parts B (b\<lparr>sb_active := None\<rparr>) (sb_parts b)
          else map_prod id Some (poll_active B b f cursor)
      | None \<Rightarrow> poll_parts B b (sb_parts b))"

section \<open>Spools and their budget\<close>

datatype asset_io_error = AssetOverBudget | AssetIo string | AssetWorker

record asset_budget =
  ab_maximum :: nat
  ab_used :: nat

definition budget_grow :: "asset_budget \<Rightarrow> nat \<Rightarrow> asset_budget option" where
  "budget_grow b bytes =
     (case checked_add (ab_used b) bytes of
        Some next \<Rightarrow> if next \<le> ab_maximum b then Some (b\<lparr>ab_used := next\<rparr>) else None
      | None \<Rightarrow> None)"

text \<open>Dropping a reservation gives back its bytes; \<open>fetch_sub\<close> wraps.\<close>

definition budget_release :: "asset_budget \<Rightarrow> nat \<Rightarrow> asset_budget" where
  "budget_release b bytes = b\<lparr>ab_used := fetch_sub u64_max (ab_used b) bytes\<rparr>"

record spool =
  so_reserved :: nat
  so_written :: string

text \<open>What the disk answers: to a new file, to a write at a length, and to reopening the file.\<close>

record disk =
  dk_allocate :: "asset_io_error option"
  dk_write :: "nat \<Rightarrow> asset_io_error option"
  dk_finish :: "asset_io_error option"

definition spool_allocate :: "disk \<Rightarrow> asset_budget \<Rightarrow> asset_budget \<times> (asset_io_error, spool) result" where
  "spool_allocate D b =
     (case dk_allocate D of Some e \<Rightarrow> (b, Inl e) | None \<Rightarrow> (b, Inr \<lparr>so_reserved = 0, so_written = []\<rparr>))"

text \<open>A spool that fails is dropped, and its reservation with it.\<close>

definition spool_drop :: "asset_budget \<Rightarrow> spool \<Rightarrow> asset_budget" where
  "spool_drop b s = budget_release b (so_reserved s)"

definition spool_write :: "disk \<Rightarrow> asset_budget \<Rightarrow> spool \<Rightarrow> string \<Rightarrow> asset_budget \<times> (asset_io_error, spool) result" where
  "spool_write D b s bytes =
     (case budget_grow b (length bytes) of
        None \<Rightarrow> (spool_drop b s, Inl AssetOverBudget)
      | Some b \<Rightarrow>
          (let s = s\<lparr>so_reserved := so_reserved s + length bytes\<rparr>
           in case dk_write D (length (so_written s)) of
                Some e \<Rightarrow> (spool_drop b s, Inl e)
              | None \<Rightarrow> (b, Inr (s\<lparr>so_written := so_written s @ bytes\<rparr>))))"

record asset_file =
  af_reserved :: nat
  af_content :: string

definition spool_finish :: "disk \<Rightarrow> asset_budget \<Rightarrow> spool \<Rightarrow> asset_budget \<times> (asset_io_error, asset_file) result" where
  "spool_finish D b s =
     (case dk_finish D of
        Some e \<Rightarrow> (spool_drop b s, Inl e)
      | None \<Rightarrow> (b, Inr \<lparr>af_reserved = so_reserved s, af_content = so_written s\<rparr>))"

definition asset_error :: "http_client \<Rightarrow> asset_io_error \<Rightarrow> http_client \<times> host_error" where
  "asset_error c e =
     (case e of
        AssetOverBudget \<Rightarrow>
          (c\<lparr>hc_asset_over_budget := True\<rparr>, http_fail InternalCode ''over-budget: broker asset disk capacity exhausted'')
      | AssetIo _ \<Rightarrow> (c, http_fail InternalCode ''broker asset spool I/O failed'')
      | AssetWorker \<Rightarrow> (c, http_fail InternalCode ''broker asset spool worker failed''))"

section \<open>Streaming a response\<close>

type_synonym stream_state = "http_client \<times> asset_budget"

text \<open>Steps that change only the client or only the budget, and an error that drops the spool.\<close>

definition on_client :: "asset_budget \<Rightarrow> http_client \<times> (host_error, 'a) result \<Rightarrow> stream_state \<times> (host_error, 'a) result" where
  "on_client b m = (case m of (c, r) \<Rightarrow> ((c, b), r))"

definition on_disk :: "http_client \<Rightarrow> asset_budget \<times> (asset_io_error, 'a) result \<Rightarrow> stream_state \<times> (host_error, 'a) result" where
  "on_disk c m =
     (case m of
        (b, Inr x) \<Rightarrow> ((c, b), Inr x)
      | (b, Inl e) \<Rightarrow> (case asset_error c e of (c, h) \<Rightarrow> ((c, b), Inl h)))"

definition or_drop :: "spool \<Rightarrow> stream_state \<times> ('e, 'a) result \<Rightarrow> stream_state \<times> ('e, 'a) result" where
  "or_drop s m = (case m of ((c, b), Inl e) \<Rightarrow> ((c, spool_drop b s), Inl e) | (st, Inr x) \<Rightarrow> (st, Inr x))"

definition scan_piece :: "http_client \<Rightarrow> nat \<Rightarrow> string \<Rightarrow> string \<Rightarrow> (host_error, string) result" where
  "scan_piece c overlap window bytes =
     (case hc_credential c of
        None \<Rightarrow> Inr window
      | Some credential \<Rightarrow>
          (case scan_stream_chunk credential window bytes overlap of
             (_, None) \<Rightarrow> Inl echoed
           | (window', Some clean) \<Rightarrow> Inr (drop clean window')))"

fun stream_pieces ::
  "disk \<Rightarrow> nat \<Rightarrow> stream_state \<Rightarrow> spool \<Rightarrow> string \<Rightarrow> string list \<Rightarrow> stream_state \<times> (host_error, spool \<times> string) result" where
  "stream_pieces D overlap st s window [] = (st, Inr (s, window))"
| "stream_pieces D overlap st s window (bytes # rest) =
     (case st of (c, b) \<Rightarrow>
        state_bind (or_drop s (st, scan_piece c overlap window bytes)) (\<lambda>(c, b) window.
        state_bind (on_disk c (spool_write D b s bytes)) (\<lambda>st s. stream_pieces D overlap st s window rest)))"

fun stream_chunks ::
  "disk \<Rightarrow> http_constraints \<Rightarrow> nat \<Rightarrow> nat \<Rightarrow> stream_state \<Rightarrow> nat \<Rightarrow> spool \<Rightarrow> string \<Rightarrow> (host_error, string) result list
    \<Rightarrow> stream_state \<times> (host_error, spool) result" where
  "stream_chunks D grant index overlap st n s window [] = (st, Inr s)"
| "stream_chunks D grant index overlap st n s window (event # rest) =
     (case st of (c, b) \<Rightarrow>
        state_bind (or_drop s (st, event)) (\<lambda>(c, b) chunk.
        state_bind (or_drop s (on_client b (count_chunk grant index ''response size overflow'' c n chunk))) (\<lambda>st n.
        state_bind (stream_pieces D overlap st s window (chunks_of CHUNK_BYTES chunk)) (\<lambda>st (s, window).
          stream_chunks D grant index overlap st n s window rest))))"

record streamed_request =
  sr_method :: string
  sr_uri :: string
  sr_headers :: "header list"
  sr_body :: "part list"

record streamed_response =
  ss_status :: nat
  ss_headers :: "header list"
  ss_body :: asset_file

definition client_overlap :: "http_client \<Rightarrow> nat" where
  "client_overlap c = (case hc_credential c of None \<Rightarrow> 0 | Some credential \<Rightarrow> echo_overlap credential)"

text \<open>From the head of the response to its file, with the spool at hand.\<close>

definition receive_stream ::
  "http_lib \<Rightarrow> disk \<Rightarrow> stream_state \<Rightarrow> spool \<Rightarrow> string \<Rightarrow> reply \<Rightarrow> http_constraints \<Rightarrow> nat
    \<Rightarrow> stream_state \<times> (host_error, streamed_response) result" where
  "receive_stream H D st s m r grant index =
     (case st of (c, b) \<Rightarrow>
        state_bind (or_drop s (on_client b (accept_head H c m r grant index OrdinaryResponse))) (\<lambda>(c, b) head.
        state_bind (stream_chunks D grant index (client_overlap c) (c, b) (rh_bytes head) s [] (rh_body head)) (\<lambda>(c, b) s.
        state_bind (on_disk (update_evidence (\<lambda>e. e\<lparr>cv_status := Some (rh_status head)\<rparr>) index c) (spool_finish D b s)) (\<lambda>st file.
          (st, Inr \<lparr>ss_status = rh_status head, ss_headers = rh_headers head, ss_body = file\<rparr>)))))"

definition stream_checked ::
  "'u url_lib \<Rightarrow> http_lib \<Rightarrow> client_lib \<Rightarrow> call_env \<Rightarrow> (pinned_client \<Rightarrow> 'u prepared_request \<Rightarrow> stream_body \<Rightarrow> transport_outcome)
    \<Rightarrow> disk \<Rightarrow> stream_state \<Rightarrow> streamed_request \<Rightarrow> stream_state \<times> (host_error, streamed_response) result" where
  "stream_checked U H L env net D st request =
     state_bind (st, stream_body_new (sr_body request)) (\<lambda>(c, b) (body, lengths).
     state_bind (on_client b (authorize_request U H env c
         \<lparr>hr_method = sr_method request, hr_uri = sr_uri request, hr_headers = sr_headers request, hr_body = []\<rparr>
         (Some lengths))) (\<lambda>(c, b) (p, grant, index).
     state_bind (on_disk c (spool_allocate D b)) (\<lambda>(c, b) s.
     state_bind (or_drop s ((c, b), call_time_remaining c (ev_send env))) (\<lambda>(c, b) _.
     state_bind (or_drop s (on_client b (pinned_client_for L c (pr_host p) (pr_addresses p)))) (\<lambda>(c, b) client.
     state_bind (or_drop s ((c, b), transport_reply (net client p body))) (\<lambda>st r.
       receive_stream H D st s (pr_method p) r grant index))))))"

definition stream ::
  "'u url_lib \<Rightarrow> http_lib \<Rightarrow> client_lib \<Rightarrow> call_env \<Rightarrow> (pinned_client \<Rightarrow> 'u prepared_request \<Rightarrow> stream_body \<Rightarrow> transport_outcome)
    \<Rightarrow> disk \<Rightarrow> stream_state \<Rightarrow> streamed_request \<Rightarrow> stream_state \<times> (host_error, streamed_response) result" where
  "stream U H L env net D st request =
     (case stream_checked U H L env net D (case st of (c, b) \<Rightarrow> (c\<lparr>hc_attempted := True\<rparr>, b)) request of
        ((c, b), r) \<Rightarrow> ((record_request c r, b), r))"

section \<open>The budget is what the spools hold\<close>

interpretation assets: pool "\<lambda>b. ab_used b \<le> u64_max" ab_used "\<lambda>b. min u64_max (ab_maximum b)" "\<lambda>_. True" budget_grow budget_release
  by unfold_locales
    (auto simp: budget_grow_def budget_release_def checked_add_def fetch_sub_exact split: if_splits)

text \<open>The bytes in use are those of the reservations that are out.\<close>

definition budget_holds :: "asset_budget \<Rightarrow> nat list \<Rightarrow> bool" where
  "budget_holds b out \<longleftrightarrow> ab_used b = sum_list out \<and> ab_used b \<le> min u64_max (ab_maximum b)"

lemma accounted_iff: "assets.accounted b out \<longleftrightarrow> budget_holds b out"
  by (auto simp: assets.accounted_def budget_holds_def)

lemma drop_holds: "budget_holds b (so_reserved s # out) \<Longrightarrow> budget_holds (spool_drop b s) out"
  using assets.give_all_keeps [of b "[]" "so_reserved s" out] by (simp add: accounted_iff spool_drop_def)

text \<open>However a step ends: an error leaves what is out elsewhere, success also the bytes of the spool.\<close>

definition settled :: "nat list \<Rightarrow> ('a \<Rightarrow> nat) \<Rightarrow> stream_state \<times> ('e, 'a) result \<Rightarrow> bool" where
  "settled out held m \<longleftrightarrow>
     (case m of (st, Inl _) \<Rightarrow> budget_holds (snd st) out | (st, Inr x) \<Rightarrow> budget_holds (snd st) (held x # out))"

lemma settled_simps [simp]:
  "settled out held (st, Inl e) \<longleftrightarrow> budget_holds (snd st) out"
  "settled out held (st, Inr x) \<longleftrightarrow> budget_holds (snd st) (held x # out)"
  by (simp_all add: settled_def)

lemma settled_bind:
  assumes "settled out held m"
    "\<And>st x. m = (st, Inr x) \<Longrightarrow> budget_holds (snd st) (held x # out) \<Longrightarrow> settled out held' (f st x)"
  shows "settled out held' (state_bind m f)"
  using assms by (cases m; cases "snd m") auto

lemma settled_or_drop:
  "budget_holds (snd (fst m)) (so_reserved s # out) \<Longrightarrow> settled out (\<lambda>_. so_reserved s) (or_drop s m)"
  by (cases m; cases "fst m"; cases "snd m") (auto simp: or_drop_def drop_holds)

lemma on_client_budget [simp]: "snd (fst (on_client b m)) = b"
  by (simp add: on_client_def split: prod.split)

lemma settled_on_disk:
  assumes "case m of (b, Inl _) \<Rightarrow> budget_holds b out | (b, Inr x) \<Rightarrow> budget_holds b (held x # out)"
  shows "settled out held (on_disk c m)"
  using assms by (auto simp: on_disk_def split: prod.splits sum.splits)

lemma spool_write_settled:
  assumes "budget_holds b (so_reserved s # out)"
  shows "settled out so_reserved (on_disk c (spool_write D b s bytes))"
proof (rule settled_on_disk, cases "budget_grow b (length bytes)")
  case None
  then show "case spool_write D b s bytes of (b, Inl _) \<Rightarrow> budget_holds b out | (b, Inr x) \<Rightarrow> budget_holds b (so_reserved x # out)"
    using drop_holds [OF assms] by (simp add: spool_write_def)
next
  case (Some b')
  have g: "budget_holds b' ((so_reserved s + length bytes) # out)"
    using assets.draw_more_keeps [of b "[]" "so_reserved s" out "length bytes" b'] Some assms by (simp add: accounted_iff)
  then show "case spool_write D b s bytes of (b, Inl _) \<Rightarrow> budget_holds b out | (b, Inr x) \<Rightarrow> budget_holds b (so_reserved x # out)"
    using Some drop_holds [of b' "s\<lparr>so_reserved := so_reserved s + length bytes\<rparr>" out]
    by (simp add: spool_write_def Let_def split: option.split)
qed

lemma stream_pieces_settled:
  assumes "budget_holds (snd st) (so_reserved s # out)"
  shows "settled out (\<lambda>(s, _). so_reserved s) (stream_pieces D overlap st s window pieces)"
  using assms
proof (induction pieces arbitrary: st s window)
  case (Cons bytes pieces)
  obtain c b where st: "st = (c, b)" by (cases st)
  show ?case
    unfolding stream_pieces.simps st prod.case
    by (rule settled_bind [OF settled_or_drop]) (use Cons st in \<open>auto split: prod.split intro!: settled_bind [OF spool_write_settled]\<close>)
qed simp

lemma stream_chunks_settled:
  assumes "budget_holds (snd st) (so_reserved s # out)"
  shows "settled out so_reserved (stream_chunks D grant index overlap st n s window events)"
  using assms
proof (induction events arbitrary: st n s window)
  case (Cons event events)
  obtain c b where st: "st = (c, b)" by (cases st)
  show ?case
    unfolding stream_chunks.simps st prod.case
    by (rule settled_bind [OF settled_or_drop])
      (use Cons st in \<open>auto split: prod.split intro!: settled_bind [OF settled_or_drop] settled_bind [OF stream_pieces_settled]\<close>)
qed simp

lemma spool_finish_settled:
  "budget_holds b (so_reserved s # out) \<Longrightarrow> settled out af_reserved (on_disk c (spool_finish D b s))"
  by (rule settled_on_disk) (auto simp: spool_finish_def drop_holds split: option.split)

lemma spool_allocate_settled:
  "budget_holds b out \<Longrightarrow> settled out so_reserved (on_disk c (spool_allocate D b))"
  by (rule settled_on_disk) (auto simp: spool_allocate_def budget_holds_def split: option.split)

lemma receive_stream_settled:
  assumes "budget_holds (snd st) (so_reserved s # out)"
  shows "settled out (\<lambda>r. af_reserved (ss_body r)) (receive_stream H D st s m r grant index)"
proof -
  obtain c b where st: "st = (c, b)" by (cases st)
  show ?thesis
    unfolding receive_stream_def st prod.case
    by (rule settled_bind [OF settled_or_drop])
      (use assms st in \<open>auto split: prod.split intro!: settled_bind [OF stream_chunks_settled] settled_bind [OF spool_finish_settled]\<close>)
qed

lemma stream_checked_settled:
  assumes "budget_holds (snd st) out"
  shows "settled out (\<lambda>r. af_reserved (ss_body r)) (stream_checked U H L env net D st request)"
proof -
  let ?q = "\<lparr>hr_method = sr_method request, hr_uri = sr_uri request, hr_headers = sr_headers request, hr_body = []\<rparr>"
  let ?r = "\<lambda>(r :: streamed_response). af_reserved (ss_body r)"
  have tail: "settled out ?r (state_bind (or_drop s ((c, b), call_time_remaining c (ev_send env))) (\<lambda>(c, b) _.
     state_bind (or_drop s (on_client b (pinned_client_for L c (pr_host p) (pr_addresses p)))) (\<lambda>(c, b) client.
     state_bind (or_drop s ((c, b), transport_reply (net client p body))) (\<lambda>st r.
       receive_stream H D st s (pr_method p) r grant index))))"
    if "budget_holds b (so_reserved s # out)" for s b c p body grant index
    by (rule settled_bind [OF settled_or_drop])
      (use that in \<open>auto split: prod.split intro!: settled_bind [OF settled_or_drop] receive_stream_settled\<close>)
  have alloc: "settled out ?r (state_bind (on_disk c (spool_allocate D b)) (\<lambda>(c, b) s.
     state_bind (or_drop s ((c, b), call_time_remaining c (ev_send env))) (\<lambda>(c, b) _.
     state_bind (or_drop s (on_client b (pinned_client_for L c (pr_host p) (pr_addresses p)))) (\<lambda>(c, b) client.
     state_bind (or_drop s ((c, b), transport_reply (net client p body))) (\<lambda>st r.
       receive_stream H D st s (pr_method p) r grant index)))))"
    if "budget_holds b out" for b c p body grant index
    by (rule settled_bind [OF spool_allocate_settled [OF that]]) (auto split: prod.split intro!: tail)
  obtain c b where st: "st = (c, b)" by (cases st)
  show ?thesis
  proof (cases "stream_body_new (sr_body request)")
    case (Inl e)
    with assms show ?thesis by (simp add: stream_checked_def)
  next
    case (Inr x)
    obtain body lengths where x: "x = (body, lengths)" by (cases x)
    show ?thesis
    proof (cases "authorize_request U H env c ?q (Some lengths)")
      case (Pair c' r)
      with Inr x assms st alloc show ?thesis
        by (cases r) (auto simp: stream_checked_def on_client_def split: prod.split)
    qed
  qed
qed

section \<open>What a streamed response holds\<close>

lemma or_drop_ok [simp]: "or_drop s m = (st, Inr x) \<longleftrightarrow> m = (st, Inr x)"
  by (cases m; cases "fst m"; cases "snd m") (auto simp: or_drop_def)

lemma on_client_ok: "on_client b m = ((c, b'), Inr x) \<longleftrightarrow> b' = b \<and> m = (c, Inr x)"
  by (auto simp: on_client_def split: prod.split)

lemma on_disk_ok: "on_disk c m = ((c', b), Inr x) \<longleftrightarrow> c' = c \<and> m = (b, Inr x)"
  by (auto simp: on_disk_def split: prod.splits sum.splits)

lemma spool_write_ok:
  "spool_write D b s bytes = (b', Inr s') \<Longrightarrow>
     so_written s' = so_written s @ bytes \<and> so_reserved s' = so_reserved s + length bytes"
  by (auto simp: spool_write_def Let_def split: option.splits)

lemma scan_pieces_append:
  "scan_pieces k overlap window (ps @ qs) =
     (case scan_pieces k overlap window ps of None \<Rightarrow> None | Some window' \<Rightarrow> scan_pieces k overlap window' qs)"
  by (induction ps arbitrary: window) (auto split: prod.split option.split)

lemma scan_piece_ok:
  "scan_piece c overlap window bytes = Inr window' \<Longrightarrow> hc_credential c = Some k \<Longrightarrow>
     scan_pieces k overlap window [bytes] = Some window'"
  by (auto simp: scan_piece_def split: prod.splits option.splits)

lemma stream_pieces_ok:
  assumes "stream_pieces D overlap (c, b) s window pieces = ((c', b'), Inr (s', window'))"
  shows "c' = c \<and> so_written s' = so_written s @ concat pieces
    \<and> so_reserved s' = so_reserved s + length (concat pieces)
    \<and> (\<forall>k. hc_credential c = Some k \<longrightarrow> scan_pieces k overlap window pieces = Some window')"
  using assms
proof (induction pieces arbitrary: b s window)
  case (Cons bytes pieces)
  then obtain w d s1 where f: "scan_piece c overlap window bytes = Inr w" "spool_write D b s bytes = (d, Inr s1)"
    "stream_pieces D overlap (c, d) s1 w pieces = ((c', b'), Inr (s', window'))"
    by (auto simp: res_simps on_disk_ok)
  from Cons.IH [OF f(3)] spool_write_ok [OF f(2)] scan_piece_ok [OF f(1)] show ?case
    using scan_pieces_append [of _ overlap window "[bytes]" pieces] by auto
qed simp

text \<open>The chunks a body consists of; an error among them ends the stream.\<close>

definition chunk_texts :: "(host_error, string) result list \<Rightarrow> string list" where
  "chunk_texts events = map (\<lambda>e. case e of Inr x \<Rightarrow> x | Inl _ \<Rightarrow> []) events"

lemma stream_chunks_ok:
  assumes "stream_chunks D grant index overlap (c, b) n s window events = ((c', b'), Inr s')"
    "n \<le> h_max_response_bytes grant"
  shows "same_account c c' \<and> so_written s' = so_written s @ concat (chunk_texts events)
    \<and> so_reserved s' = so_reserved s + length (concat (chunk_texts events))
    \<and> n + length (concat (chunk_texts events)) \<le> h_max_response_bytes grant
    \<and> (\<forall>k. hc_credential c = Some k \<longrightarrow>
          scan_pieces k overlap window (concat (map (chunks_of CHUNK_BYTES) (chunk_texts events))) \<noteq> None)"
  using assms
proof (induction events arbitrary: c b n s window)
  case Nil
  then show ?case by (simp add: chunk_texts_def)
next
  case (Cons event events)
  then obtain chunk c1 n1 s1 w c2 b2 where f: "event = Inr chunk"
    "count_chunk grant index ''response size overflow'' c n chunk = (c1, Inr n1)"
    "stream_pieces D overlap (c1, b) s window (chunks_of CHUNK_BYTES chunk) = ((c2, b2), Inr (s1, w))"
    "stream_chunks D grant index overlap (c2, b2) n1 s1 w events = ((c', b'), Inr s')"
    by (auto simp: res_simps on_client_ok)
  have c1: "same_account c c1"
    using count_chunk_account [of c grant index "''response size overflow''" n chunk] f(2) by simp
  note n1 = count_chunk_ok [OF f(2)]
  note p = stream_pieces_ok [OF f(3)]
  have IH: "same_account c2 c' \<and> so_written s' = so_written s1 @ concat (chunk_texts events)
    \<and> so_reserved s' = so_reserved s1 + length (concat (chunk_texts events))
    \<and> n1 + length (concat (chunk_texts events)) \<le> h_max_response_bytes grant
    \<and> (\<forall>k. hc_credential c2 = Some k \<longrightarrow>
          scan_pieces k overlap w (concat (map (chunks_of CHUNK_BYTES) (chunk_texts events))) \<noteq> None)"
    by (rule Cons.IH [OF f(4)]) (use n1 in simp)
  have t: "chunk_texts (event # events) = chunk # chunk_texts events" by (simp add: chunk_texts_def f(1))
  have k: "hc_credential c1 = hc_credential c" "c2 = c1" using c1 p by (simp_all add: same_account_def)
  show ?case
    unfolding t using IH p n1 same_account_trans [OF c1, of c'] k
    by (auto simp: scan_pieces_append)
qed

lemma receive_stream_ok:
  assumes "receive_stream H D (c, b) s m r grant index = ((c', b'), Inr resp)" "so_written s = []" "so_reserved s = 0"
  shows "same_account c c'"
    "returned_head_bytes (ss_headers resp) + length (af_content (ss_body resp)) \<le> h_max_response_bytes grant"
    "af_reserved (ss_body resp) = length (af_content (ss_body resp))"
    "hc_credential c = Some k \<Longrightarrow> \<not> echoes k (af_content (ss_body resp))"
    "hc_credential c = Some k \<Longrightarrow> secret \<in> set (bc_echo_values k) \<Longrightarrow> secret \<noteq> [] \<Longrightarrow>
       \<forall>h \<in> set (ss_headers resp). \<not> sublist secret (hd_name h) \<and> \<not> sublist secret (hd_value h)"
    "\<forall>h \<in> set (ss_headers resp). \<not> is_forbidden_response_header (hd_name h) \<and> location_redacted h"
proof -
  from assms obtain c1 head c2 b2 s2 made where f:
    "accept_head H c m r grant index OrdinaryResponse = (c1, Inr head)"
    "stream_chunks D grant index (client_overlap c1) (c1, b) (rh_bytes head) s [] (rh_body head) = ((c2, b2), Inr s2)"
    "c' = update_evidence (\<lambda>e. e\<lparr>cv_status := Some (rh_status head)\<rparr>) index c2" "spool_finish D b2 s2 = (b', Inr made)"
    "resp = \<lparr>ss_status = rh_status head, ss_headers = rh_headers head, ss_body = made\<rparr>"
    by (auto simp: receive_stream_def res_simps on_client_ok on_disk_ok split: prod.splits)
  have a: "same_account c c1"
    using accept_head_account [of c H m r grant index OrdinaryResponse] f(1) by simp
  note h = accept_head_ok [OF f(1)]
  note ch = stream_chunks_ok [OF f(2) h(2)]
  have kept: "af_content made = concat (chunk_texts (rh_body head))" "af_reserved made = length (af_content made)"
    using f(4) ch assms(2,3) by (auto simp: spool_finish_def split: option.splits)
  show "same_account c c'" using a ch same_account_trans unfolding f(3) by (auto intro: same_account_trans)
  show "returned_head_bytes (ss_headers resp) + length (af_content (ss_body resp)) \<le> h_max_response_bytes grant"
    using h(1) ch kept by (simp add: f(5))
  show "af_reserved (ss_body resp) = length (af_content (ss_body resp))" using kept by (simp add: f(5))
  show "hc_credential c = Some k \<Longrightarrow> secret \<in> set (bc_echo_values k) \<Longrightarrow> secret \<noteq> [] \<Longrightarrow>
      \<forall>h \<in> set (ss_headers resp). \<not> sublist secret (hd_name h) \<and> \<not> sublist secret (hd_value h)"
    "\<forall>h \<in> set (ss_headers resp). \<not> is_forbidden_response_header (hd_name h) \<and> location_redacted h"
    using h(3) h(4) [of k secret] by (simp_all add: f(5))
  assume k: "hc_credential c = Some k"
  with a have k1: "hc_credential c1 = Some k" by (simp add: same_account_def)
  with ch have "scan_pieces k (echo_overlap k) [] (concat (map (chunks_of CHUNK_BYTES) (chunk_texts (rh_body head)))) \<noteq> None"
    by (simp add: client_overlap_def)
  then have "\<not> echoes k (concat (concat (map (chunks_of CHUNK_BYTES) (chunk_texts (rh_body head)))))"
    using streamed_scan by blast
  moreover have "concat (concat (map (chunks_of CHUNK_BYTES) xs)) = concat xs" for xs :: "string list"
    by (induction xs) simp_all
  ultimately show "\<not> echoes k (af_content (ss_body resp))" using kept by (simp add: f(5))
qed

lemma stream_checked_ok:
  assumes "stream_checked U H L env net D (c, b) request = ((c', b'), Inr resp)"
  obtains d p grant index lengths body c1 b1 r where
    "stream_body_new (sr_body request) = Inr (body, lengths)"
    "authorize_request U H env c
       \<lparr>hr_method = sr_method request, hr_uri = sr_uri request, hr_headers = sr_headers request, hr_body = []\<rparr>
       (Some lengths) = (d, Inr (p, grant, index))"
    "same_account d c1"
    "receive_stream H D (c1, b1) \<lparr>so_reserved = 0, so_written = []\<rparr> (pr_method p) r grant index = ((c', b'), Inr resp)"
proof -
  from assms obtain d p grant index lengths body b0 s c1 client r where f:
    "stream_body_new (sr_body request) = Inr (body, lengths)"
    "authorize_request U H env c
       \<lparr>hr_method = sr_method request, hr_uri = sr_uri request, hr_headers = sr_headers request, hr_body = []\<rparr>
       (Some lengths) = (d, Inr (p, grant, index))"
    "spool_allocate D b = (b0, Inr s)" "pinned_client_for L d (pr_host p) (pr_addresses p) = (c1, Inr client)"
    "receive_stream H D (c1, b0) s (pr_method p) r grant index = ((c', b'), Inr resp)"
    by (auto simp: stream_checked_def res_simps on_client_ok on_disk_ok)
  have "same_account d c1"
    using pinned_client_account [of d L "pr_host p" "pr_addresses p"] f(4) by simp
  moreover have "s = \<lparr>so_reserved = 0, so_written = []\<rparr>"
    using f(3) by (simp add: spool_allocate_def split: option.splits)
  ultimately show thesis using that f by blast
qed

lemma stream_checked_response:
  assumes "stream_checked U H L env net D (c, b) request = ((c', b'), Inr resp)"
  shows "af_reserved (ss_body resp) = length (af_content (ss_body resp))"
    "\<exists>grant. hc_grant c = Some grant
       \<and> returned_head_bytes (ss_headers resp) + length (af_content (ss_body resp)) \<le> h_max_response_bytes grant"
    "hc_credential c = Some k \<Longrightarrow> secret \<in> set (bc_echo_values k) \<Longrightarrow> secret \<noteq> [] \<Longrightarrow>
       \<not> sublist secret (af_content (ss_body resp))
       \<and> (\<forall>h \<in> set (ss_headers resp). \<not> sublist secret (hd_name h) \<and> \<not> sublist secret (hd_value h))"
    "\<forall>h \<in> set (ss_headers resp). \<not> is_forbidden_response_header (hd_name h) \<and> location_redacted h"
proof -
  obtain d p grant index lengths body c1 b1 m where f:
    "authorize_request U H env c
       \<lparr>hr_method = sr_method request, hr_uri = sr_uri request, hr_headers = sr_headers request, hr_body = []\<rparr>
       (Some lengths) = (d, Inr (p, grant, index))"
    "same_account d c1"
    "receive_stream H D (c1, b1) \<lparr>so_reserved = 0, so_written = []\<rparr> (pr_method p) m grant index = ((c', b'), Inr resp)"
    by (rule stream_checked_ok [OF assms])
  note a = authorize_keeps_policy [OF f(1)]
  note ok = receive_stream_ok [OF f(3), simplified]
  show "af_reserved (ss_body resp) = length (af_content (ss_body resp))" using ok(3) by simp
  show "\<exists>grant. hc_grant c = Some grant
       \<and> returned_head_bytes (ss_headers resp) + length (af_content (ss_body resp)) \<le> h_max_response_bytes grant"
    using a(1) ok(2) by simp
  show "\<forall>h \<in> set (ss_headers resp). \<not> is_forbidden_response_header (hd_name h) \<and> location_redacted h" by (rule ok(6))
  assume k: "hc_credential c = Some k" "secret \<in> set (bc_echo_values k)" "secret \<noteq> []"
  have "hc_credential c1 = Some k" using k(1) a(2) f(2) by (simp add: same_account_def)
  with k ok(4) [of k] ok(5) [of k secret]
  show "\<not> sublist secret (af_content (ss_body resp))
       \<and> (\<forall>h \<in> set (ss_headers resp). \<not> sublist secret (hd_name h) \<and> \<not> sublist secret (hd_value h))"
    by (auto simp: echoes_def)
qed

text \<open>C33: Streaming leaves the shared budget in order: when it fails, what it reserved is given back and
  the budget holds what was out before; when it succeeds, the budget holds in addition exactly the bytes of
  the file it returns. That file and the headers are within the grant's limit on responses, no header is
  hop-by-hop or sets a cookie, a location in them shows no query and no fragment, and no secret of the
  credential occurs in the file or in the headers.\<close>

theorem streamed_response_is_settled:
  assumes "stream U H L env net D (c, b) request = ((c', b'), r)" "budget_holds b out"
  shows "(r = Inl e \<longrightarrow> budget_holds b' out)
    \<and> (r = Inr resp \<longrightarrow> budget_holds b' (length (af_content (ss_body resp)) # out))
    \<and> (r = Inr resp \<longrightarrow> (\<exists>grant. hc_grant c = Some grant
         \<and> returned_head_bytes (ss_headers resp) + length (af_content (ss_body resp)) \<le> h_max_response_bytes grant))
    \<and> (r = Inr resp \<and> hc_credential c = Some k \<and> secret \<in> set (bc_echo_values k) \<and> secret \<noteq> [] \<longrightarrow>
         \<not> sublist secret (af_content (ss_body resp))
         \<and> (\<forall>h \<in> set (ss_headers resp). \<not> sublist secret (hd_name h) \<and> \<not> sublist secret (hd_value h)))
    \<and> (r = Inr resp \<longrightarrow>
         (\<forall>h \<in> set (ss_headers resp). \<not> is_forbidden_response_header (hd_name h) \<and> location_redacted h))"
proof -
  from assms(1) obtain c2 where s: "stream_checked U H L env net D (c\<lparr>hc_attempted := True\<rparr>, b) request = ((c2, b'), r)"
    by (auto simp: stream_def split: prod.splits)
  have settled: "settled out (\<lambda>r. af_reserved (ss_body r)) ((c2, b'), r)"
    using stream_checked_settled [of "(c\<lparr>hc_attempted := True\<rparr>, b)" out U H L env net D request] assms(2) s by simp
  show ?thesis
  proof (cases r)
    case Inl
    with settled show ?thesis by simp
  next
    case (Inr response)
    have g: "hc_grant (c\<lparr>hc_attempted := True\<rparr>) = hc_grant c" "hc_credential (c\<lparr>hc_attempted := True\<rparr>) = hc_credential c"
      by simp_all
    note ok = stream_checked_response(1,2,4) [OF s [unfolded Inr], unfolded g]
      stream_checked_response(3) [OF s [unfolded Inr], of k secret, unfolded g]
    have "budget_holds b' (length (af_content (ss_body response)) # out)"
      using settled by (simp add: Inr ok(1))
    then show ?thesis unfolding Inr using ok(2-4) by blast
  qed
qed

definition working_disk :: disk where
  "working_disk = \<lparr>dk_allocate = None, dk_write = (\<lambda>_. None), dk_finish = None\<rparr>"

definition sample_streamed :: streamed_request where
  "sample_streamed =
     \<lparr>sr_method = hr_method sample_request, sr_uri = hr_uri sample_request, sr_headers = hr_headers sample_request, sr_body = []\<rparr>"

lemma sample_received:
  assumes "hc_ceilings c = default_ceilings" "hc_credential c = Some bot_credential"
  shows "\<exists>c'. receive_stream plain_http working_disk (c, \<lparr>ab_maximum = 9, ab_used = 5\<rparr>) \<lparr>so_reserved = 0, so_written = []\<rparr>
      ''GET'' sample_reply plain_grant index
    = ((c', \<lparr>ab_maximum = 9, ab_used = 8\<rparr>), Inr \<lparr>ss_status = 200, ss_headers = sample_headers,
        ss_body = \<lparr>af_reserved = 3, af_content = ''abd''\<rparr>\<rparr>)"
proof -
  obtain c2 where c2: "accept_head plain_http c ''GET'' sample_reply plain_grant index OrdinaryResponse
      = (c2, Inr \<lparr>rh_status = 200, rh_headers = sample_headers, rh_bytes = 41, rh_body = [Inr ''ab'', Inr ''d'']\<rparr>)"
    "hc_credential c2 = Some bot_credential"
    using sample_accepted [OF assms] assms(2) by (auto simp: same_account_def)
  have v: "bc_echo_values bot_credential = [''abc'']" by (simp add: bot_credential_def)
  from c2 show ?thesis
    by (simp add: receive_stream_def on_client_def or_drop_def on_disk_def sample_limits count_chunk_def checked_add_def u64_max_def
        update_evidence_def CHUNK_BYTES_def scan_piece_def scan_stream_chunk_def contains_bytes_def upt_conv_Cons client_overlap_def
        echo_overlap_def saturating_sub_def v Let_def spool_write_def budget_grow_def working_disk_def spool_finish_def)
qed

theorem streamed_response_is_settled_witness:
  "\<exists>c' resp. stream sample_urls plain_http sample_lib sample_env (\<lambda>_ _ _. Replied sample_reply) working_disk
      (sample_client, \<lparr>ab_maximum = 9, ab_used = 5\<rparr>) sample_streamed = ((c', \<lparr>ab_maximum = 9, ab_used = 8\<rparr>), Inr resp)
    \<and> budget_holds \<lparr>ab_maximum = 9, ab_used = 8\<rparr> [3, 5] \<and> \<not> sublist ''abc'' (af_content (ss_body resp))
    \<and> (\<forall>h \<in> set (ss_headers resp). \<not> sublist ''abc'' (hd_value h))"
proof -
  let ?l = "\<lparr>rl_literal = 0, rl_decoded_assets = 0, rl_total = 0\<rparr>"
  have l: "body_bytes_of sample_request (Some ?l) = 0" by (simp add: body_bytes_of_def)
  obtain c1 n where a: "authorize_request sample_urls plain_http sample_env sample_client sample_request (Some ?l)
      = (c1, Inr (sample_prepared\<lparr>pr_request_bytes := n,
          pr_headers := [(''accept'', ''*''), (''authorization'', ''Bot abc'')]\<rparr>, plain_grant, 0))"
      "hc_deadline c1 = 10" "hc_pinned c1 = None"
    using sample_request_authorized [OF l] by blast
  have k: "hc_ceilings c1 = default_ceilings" "hc_credential c1 = Some bot_credential" "hc_credential sample_client = Some bot_credential"
    using authorize_keeps_policy [OF a(1)] by (simp_all add: sample_client_def)
  obtain c2 client where c2: "pinned_client_for sample_lib c1 (pr_host sample_prepared) (pr_addresses sample_prepared) = (c2, Inr client)"
    "hc_ceilings c2 = default_ceilings" "hc_credential c2 = Some bot_credential"
    using sample_pinned [OF a(3) k(1)] k(1,2) by (auto simp: same_account_def)
  let ?resp = "\<lparr>ss_status = 200, ss_headers = sample_headers, ss_body = \<lparr>af_reserved = 3, af_content = ''abd''\<rparr>\<rparr>"
  obtain c3 where c3: "receive_stream plain_http working_disk (c2, \<lparr>ab_maximum = 9, ab_used = 5\<rparr>) \<lparr>so_reserved = 0, so_written = []\<rparr>
      ''GET'' sample_reply plain_grant 0 = ((c3, \<lparr>ab_maximum = 9, ab_used = 8\<rparr>), Inr ?resp)"
    using sample_received [OF c2(2,3)] by blast
  have q: "sample_client\<lparr>hc_attempted := True\<rparr> = sample_client" "pr_method sample_prepared = ''GET''"
    "\<lparr>hr_method = sr_method sample_streamed, hr_uri = sr_uri sample_streamed, hr_headers = sr_headers sample_streamed, hr_body = []\<rparr>
       = sample_request" "sr_body sample_streamed = []"
    by (simp_all add: sample_client_def sample_streamed_def sample_request_def sample_prepared_def)
  have "stream sample_urls plain_http sample_lib sample_env (\<lambda>_ _ _. Replied sample_reply) working_disk
      (sample_client, \<lparr>ab_maximum = 9, ab_used = 5\<rparr>) sample_streamed = ((c3, \<lparr>ab_maximum = 9, ab_used = 8\<rparr>), Inr ?resp)"
    using a(1) c2(1) c3 sample_time [OF a(2)]
    by (simp add: stream_def stream_checked_def stream_body_new_def q on_client_def on_disk_def spool_allocate_def working_disk_def [symmetric]
        or_drop_def transport_reply_def record_request_def) (simp add: working_disk_def)
  note s = this
  have b: "budget_holds \<lparr>ab_maximum = 9, ab_used = 5\<rparr> [5]" by (simp add: budget_holds_def u64_max_def)
  have "''abc'' \<in> set (bc_echo_values bot_credential)" by (simp add: bot_credential_def)
  with streamed_response_is_settled [OF s b, where resp = ?resp and k = bot_credential and secret = "''abc''"] k(3) s
  show ?thesis by (auto simp: numeral_3_eq_3)
qed

section \<open>Requests and injections of a whole invocation\<close>

lemma or_drop_client [simp]: "fst (fst (or_drop s m)) = fst (fst m)"
  by (cases m; cases "fst m"; cases "snd m") (auto simp: or_drop_def)

lemma on_client_client [simp]: "fst (fst (on_client b m)) = fst m"
  by (simp add: on_client_def split: prod.split)

lemma on_disk_client: "same_account c (fst (fst (on_disk c m)))"
  by (auto simp: on_disk_def asset_error_def same_account_def split: prod.split sum.split asset_io_error.split)

text \<open>A step that goes on from a state of the same account.\<close>

lemma account_bind:
  assumes "same_account c (fst (fst m))" "\<And>d b x. m = ((d, b), Inr x) \<Longrightarrow> same_account d (fst (fst (f (d, b) x)))"
  shows "same_account c (fst (fst (state_bind m f)))"
proof -
  obtain d b r where m: "m = ((d, b), r)" by (metis prod.exhaust)
  with assms show ?thesis by (cases r) (auto intro: same_account_trans)
qed

lemma stream_pieces_account: "same_account c (fst (fst (stream_pieces D overlap (c, b) s window pieces)))"
proof (induction pieces arbitrary: c b s window)
  case (Cons bytes pieces)
  show ?case
    unfolding stream_pieces.simps prod.case
    by (rule account_bind) (auto intro!: account_bind [OF on_disk_client] Cons.IH)
qed simp

lemma stream_chunks_account: "same_account c (fst (fst (stream_chunks D grant index overlap (c, b) n s window events)))"
proof (induction events arbitrary: c b n s window)
  case (Cons event events)
  show ?case
    unfolding stream_chunks.simps prod.case
    by (rule account_bind)
      (auto intro!: account_bind account_bind [OF stream_pieces_account] Cons.IH simp: count_chunk_account split: prod.split)
qed simp

lemma on_disk_status:
  "same_account c (fst (fst (on_disk (update_evidence (\<lambda>e. e\<lparr>cv_status := v\<rparr>) index c) m)))"
  by (rule same_account_trans [OF _ on_disk_client]) simp

lemma receive_stream_account: "same_account c (fst (fst (receive_stream H D (c, b) s m r grant index)))"
  unfolding receive_stream_def prod.case
  by (rule account_bind)
    (auto intro!: account_bind [OF stream_chunks_account] account_bind [OF on_disk_status] simp: accept_head_account)

text \<open>Everything after the request is authorized keeps the account.\<close>

lemma stream_checked_account:
  assumes "account_ok c" "limits_typed c"
  shows "account_ok (fst (fst (stream_checked U H L env net D (c, b) request)))
    \<and> limits_typed (fst (fst (stream_checked U H L env net D (c, b) request)))"
proof (cases "stream_body_new (sr_body request)")
  case (Inl e)
  with assms show ?thesis by (simp add: stream_checked_def)
next
  case (Inr x)
  obtain body lengths where x: "x = (body, lengths)" by (cases x)
  let ?q = "\<lparr>hr_method = sr_method request, hr_uri = sr_uri request, hr_headers = sr_headers request, hr_body = []\<rparr>"
  obtain d r where a: "authorize_request U H env c ?q (Some lengths) = (d, r)" by (cases "authorize_request U H env c ?q (Some lengths)")
  have d: "account_ok d \<and> limits_typed d"
    using authorize_request_account [OF assms, of U H env ?q "Some lengths"] a by simp
  have "same_account d (fst (fst (stream_checked U H L env net D (c, b) request)))"
  proof (cases r)
    case (Inl e)
    with Inr x a show ?thesis by (simp add: stream_checked_def on_client_def)
  next
    case R: (Inr y)
    obtain p grant index where y: "y = (p, grant, index)" by (cases y)
    have "same_account d (fst (fst (state_bind (on_disk d (spool_allocate D b)) (\<lambda>(c, b) s.
       state_bind (or_drop s ((c, b), call_time_remaining c (ev_send env))) (\<lambda>(c, b) _.
       state_bind (or_drop s (on_client b (pinned_client_for L c (pr_host p) (pr_addresses p)))) (\<lambda>(c, b) client.
       state_bind (or_drop s ((c, b), transport_reply (net client p body))) (\<lambda>st r.
         receive_stream H D st s (pr_method p) r grant index)))))))"
      by (rule account_bind [OF on_disk_client])
        (auto intro!: account_bind receive_stream_account simp: pinned_client_account)
    with Inr x a R y show ?thesis by (simp add: stream_checked_def on_client_def)
  qed
  with d show ?thesis using same_account_ok same_account_typed by blast
qed

lemma record_request_account: "same_account c (record_request c r)"
  by (simp add: record_request_def same_account_def split: sum.split)

lemma attempted_account: "same_account c (c\<lparr>hc_attempted := True\<rparr>)"
  by (simp add: same_account_def)

definition in_account :: "http_client \<Rightarrow> bool" where
  "in_account c \<longleftrightarrow> account_ok c \<and> limits_typed c"

lemma in_account_same: "same_account c d \<Longrightarrow> in_account d \<longleftrightarrow> in_account c"
  using same_account_ok same_account_typed by (auto simp: in_account_def)

lemma in_account_simps [simp]:
  "in_account (record_request c r) \<longleftrightarrow> in_account c" "in_account (c\<lparr>hc_attempted := True\<rparr>) \<longleftrightarrow> in_account c"
  by (rule in_account_same, rule record_request_account) (rule in_account_same, rule attempted_account)

lemma stream_account:
  assumes "in_account c"
  shows "in_account (fst (fst (stream U H L env net D (c, b) request)))"
proof -
  have "in_account (fst (fst (stream_checked U H L env net D (c\<lparr>hc_attempted := True\<rparr>, b) request)))"
    unfolding in_account_def by (rule stream_checked_account) (use assms in_account_simps(2) in_account_def in blast)+
  then show ?thesis by (auto simp: stream_def split: prod.split)
qed

lemma send_account:
  assumes "in_account c"
  shows "in_account (fst (send U H L env net c request))"
proof -
  have a: "in_account (fst (authorize_request U H env (c\<lparr>hc_attempted := True\<rparr>) request None))"
    unfolding in_account_def by (rule authorize_request_account) (use assms in_account_simps(2) in_account_def in blast)+
  have e: "in_account (fst (state_bind (execute_ordinary H L env net d p grant index) (\<lambda>c r.
      if client_echoes c r then (c, Inl echoed) else (c, Inr r))))" if "in_account d" for d p grant index
  proof (rule state_bind_state)
    show "in_account (fst (execute_ordinary H L env net d p grant index))"
      using that in_account_same [OF execute_account] by blast
  qed simp
  have "in_account (fst (send_checked U H L env net (c\<lparr>hc_attempted := True\<rparr>) request))"
    unfolding send_checked_def
    by (rule state_bind_state [where P = in_account], rule a) (auto split: prod.split intro: e)
  then show ?thesis by (auto simp: send_def split: prod.split)
qed

text \<open>The calls of an invocation, in any order and with any answers of network and disk.\<close>

datatype 'u client_op =
    SendOp call_env "pinned_client \<Rightarrow> 'u prepared_request \<Rightarrow> transport_outcome" http_request
  | StreamOp call_env "pinned_client \<Rightarrow> 'u prepared_request \<Rightarrow> stream_body \<Rightarrow> transport_outcome" disk streamed_request

fun client_step :: "'u url_lib \<Rightarrow> http_lib \<Rightarrow> client_lib \<Rightarrow> stream_state \<Rightarrow> 'u client_op \<Rightarrow> stream_state" where
  "client_step U H L (c, b) (SendOp env net request) = (fst (send U H L env net c request), b)"
| "client_step U H L (c, b) (StreamOp env net D request) = fst (stream U H L env net D (c, b) request)"

lemma client_run_account: "in_account (fst st) \<Longrightarrow> in_account (fst (foldl (client_step U H L) st ops))"
proof (induction ops rule: rev_induct)
  case (snoc op ops)
  obtain c b where "foldl (client_step U H L) st ops = (c, b)" by (metis prod.exhaust)
  with snoc show ?case by (cases op) (simp_all add: send_account stream_account)
qed simp

lemma client_new_account:
  assumes "client_new now grant secret_grant credential ceilings timeout = Inr c"
    "\<forall>g. grant = Some g \<longrightarrow> h_max_requests g \<le> u32_max" "\<forall>s. secret_grant = Some s \<longrightarrow> g_max_injections s \<le> u32_max"
  shows "in_account c" "hc_grant c = grant" "hc_secret_grant c = secret_grant"
  using assms by (auto simp: client_new_def in_account_def account_ok_def limits_typed_def injected_def split: option.splits)

text \<open>C34: Whatever an invocation sends and streams, in whatever order and however network and disk answer,
  it makes no more calls than its grant allows, and none without a grant; every call that reached a
  destination left evidence, so there is no more evidence than calls; and a granted secret was injected
  exactly as often as the evidence says, and no more often than its grant allows.\<close>

theorem invocation_is_counted:
  fixes U :: "'u url_lib" and H L slots budget ops c
  assumes "client_new now grant secret_grant credential ceilings timeout = Inr c"
    and "\<forall>g. grant = Some g \<longrightarrow> h_max_requests g \<le> u32_max" "\<forall>s. secret_grant = Some s \<longrightarrow> g_max_injections s \<le> u32_max"
  defines "d \<equiv> fst (foldl (client_step U H L) (with_chat_slots c slots, budget) ops)"
  shows "hc_calls d \<le> (case hc_grant d of None \<Rightarrow> 0 | Some g \<Rightarrow> h_max_requests g)
    \<and> length (hc_evidence d) \<le> hc_calls d
    \<and> (hc_secret_grant d = Some s \<longrightarrow>
         length (filter cv_credential_injected (hc_evidence d)) = hc_secret_injections d
         \<and> hc_secret_injections d \<le> g_max_injections s)"
proof -
  have "same_account c (with_chat_slots c slots)" by (simp add: with_chat_slots_def same_account_def)
  then have "in_account d"
    using client_new_account(1) [OF assms(1-3)] in_account_same client_run_account [of "(with_chat_slots c slots, budget)" U H L ops]
    by (auto simp: d_def)
  then show ?thesis by (simp add: in_account_def account_ok_def injected_def)
qed

definition fresh_client :: http_client where
  "fresh_client =
     \<lparr>hc_grant = Some plain_grant, hc_authorizer = None, hc_secret_grant = None, hc_credential = None,
      hc_slots = [], hc_ceilings = default_ceilings, hc_timeout = 10, hc_deadline = 10, hc_calls = 0,
      hc_secret_injections = 0, hc_attempted = False, hc_violation = None, hc_asset_over_budget = False,
      hc_evidence = [], hc_resolved = Map.empty, hc_pinned = None\<rparr>"

theorem invocation_is_counted_witness:
  "client_new 0 (Some plain_grant) None None default_ceilings 10 = Inr fresh_client
   \<and> (let op = SendOp sample_env (\<lambda>_ _. Replied sample_reply) sample_request;
          d = fst (foldl (client_step sample_urls plain_http sample_lib) (with_chat_slots fresh_client [], \<lparr>ab_maximum = 9, ab_used = 0\<rparr>)
                [op, op, op])
      in hc_calls d \<le> (case hc_grant d of None \<Rightarrow> 0 | Some g \<Rightarrow> h_max_requests g))"
proof -
  have n: "client_new 0 (Some plain_grant) None None default_ceilings 10 = Inr fresh_client"
    by (simp add: client_new_def fresh_client_def instant_checked_add_def i64_max_def)
  have "\<forall>g. Some plain_grant = Some g \<longrightarrow> h_max_requests g \<le> u32_max"
    by (simp add: plain_grant_def sample_grant_def u32_max_def)
  moreover have "\<forall>s. None = Some s \<longrightarrow> g_max_injections s \<le> u32_max" by simp
  ultimately show ?thesis
    unfolding Let_def
    using n invocation_is_counted [OF n, where U = sample_urls and H = plain_http and L = sample_lib and slots = "[]"] by blast
qed

section \<open>A streamed body is what was announced\<close>

text \<open>What the crate \<open>base64\<close> promises of its encoding: its length, that a text may be cut after a
  multiple of three bytes, and that reading decoded bytes of what was encoded gives its first bytes.\<close>

definition base64_laws :: "base64_lib \<Rightarrow> bool" where
  "base64_laws B \<longleftrightarrow>
     (\<forall>s n. encoded_len (length s) = Some n \<longrightarrow> length (b64_encode B s) = n)
     \<and> (\<forall>s t. length s mod 3 = 0 \<longrightarrow> b64_encode B (s @ t) = b64_encode B s @ b64_encode B t)
     \<and> (\<forall>s n. n \<le> length s \<longrightarrow> b64_read B (b64_encode B s) n = Some (take n s))"

text \<open>Files that can be read, with their contents, which are stored as they are or encoded.\<close>

definition readable :: "base64_lib \<Rightarrow> file_part \<Rightarrow> string \<Rightarrow> bool" where
  "readable B f content \<longleftrightarrow>
     fp_decoded_bytes f = length content \<and>
     fp_file f = Some (case fp_stored f of IdentityBytes \<Rightarrow> content | Base64Bytes \<Rightarrow> b64_encode B content)"

lemma encoded_from:
  assumes "base64_laws B" "k mod 3 = 0" "k \<le> length content" "length content \<le> MAX_DECODED_INVOCATION_BYTES"
  shows "drop (k div 3 * 4) (b64_encode B content) = b64_encode B (drop k content)"
proof -
  have k: "length (take k content) = k" using assms(3) by simp
  have "encoded_len k = Some (k div 3 * 4)"
    using assms(2-4) by (auto simp: encoded_len_def checked_mul_def u64_max_def MAX_DECODED_INVOCATION_BYTES_def)
  then have "length (b64_encode B (take k content)) = k div 3 * 4"
    using assms(1) k unfolding base64_laws_def by metis
  moreover have "b64_encode B content = b64_encode B (take k content) @ b64_encode B (drop k content)"
    using assms(1,2) k unfolding base64_laws_def by (metis append_take_drop_id)
  ultimately show ?thesis by simp
qed

text \<open>Reading a stored file from any offset gives its decoded contents there: an encoded file is entered at
  the group of four characters the offset lies in.\<close>

lemma read_decoded_exact:
  assumes "base64_laws B" "readable B f content" "offset + n \<le> length content" "n \<le> CHUNK_BYTES"
    "length content \<le> MAX_DECODED_INVOCATION_BYTES"
  shows "read_decoded B (fp_file f) (fp_stored f) offset n = Some (take n (drop offset content))"
proof (cases "fp_stored f")
  case IdentityBytes
  with assms show ?thesis by (simp add: read_decoded_def readable_def)
next
  case Base64Bytes
  let ?k = "offset div 3 * 3"
  have split: "?k + offset mod 3 = offset" by simp
  have off: "read_offset offset = Some (?k div 3 * 4, offset mod 3)"
    using assms(3,5) by (simp add: read_offset_def checked_mul_def u64_max_def MAX_DECODED_INVOCATION_BYTES_def)
  have "drop (?k div 3 * 4) (b64_encode B content) = b64_encode B (drop ?k content)"
    using assms split by (intro encoded_from) auto
  moreover have "offset mod 3 + n \<le> length (drop ?k content)" using assms(3) split unfolding length_drop by linarith
  then have "b64_read B (b64_encode B (drop ?k content)) (offset mod 3 + n) = Some (take (offset mod 3 + n) (drop ?k content))"
    using assms(1) unfolding base64_laws_def by blast
  moreover have "drop (offset mod 3) (take (offset mod 3 + n) (drop ?k content)) = take n (drop offset content)"
    by (simp add: drop_take add.commute)
  ultimately show ?thesis
    using Base64Bytes assms(2,4) off by (simp add: read_decoded_def readable_def)
qed

fun part_wire :: "base64_lib \<Rightarrow> part \<Rightarrow> string \<Rightarrow> bool" where
  "part_wire B (LiteralPart bytes) wire \<longleftrightarrow> wire = bytes"
| "part_wire B (AssetPart f) wire \<longleftrightarrow>
     (\<exists>content. readable B f content \<and> wire = (case fp_wire f of IdentityBytes \<Rightarrow> content | Base64Bytes \<Rightarrow> b64_encode B content))"

text \<open>Polling a body until it has no more frames.\<close>

fun drain :: "base64_lib \<Rightarrow> nat \<Rightarrow> stream_body \<Rightarrow> frame list option" where
  "drain B 0 b = None"
| "drain B (Suc n) b =
     (case poll_frame B b of
        (_, None) \<Rightarrow> Some []
      | (b', Some f) \<Rightarrow> map_option ((#) f) (drain B n b'))"

definition drains :: "base64_lib \<Rightarrow> stream_body \<Rightarrow> string \<Rightarrow> bool" where
  "drains B b text \<longleftrightarrow> (\<exists>n texts. drain B n b = Some (map FrameData texts) \<and> concat texts = text)"

lemma drains_end: "poll_frame B b = (b', None) \<Longrightarrow> drains B b []"
  unfolding drains_def by (rule exI [of _ 1], rule exI [of _ "[]"]) simp

lemma drains_step:
  assumes "poll_frame B b = (b', Some (FrameData x))" "drains B b' text"
  shows "drains B b (x @ text)"
proof -
  from assms(2) obtain n texts where "drain B n b' = Some (map FrameData texts)" "concat texts = text"
    by (auto simp: drains_def)
  with assms(1) show ?thesis
    unfolding drains_def by (intro exI [of _ "Suc n"] exI [of _ "x # texts"]) simp
qed

lemma poll_parts_parts: "poll_parts B (b\<lparr>sb_parts := x\<rparr>) ps = poll_parts B b ps"
  by (induction B b ps rule: poll_parts.induct) simp_all

lemma drains_same: "poll_frame B b = poll_frame B b' \<Longrightarrow> drains B b' text \<Longrightarrow> drains B b text"
proof -
  assume "poll_frame B b = poll_frame B b'"
  then have "drain B n b = drain B n b'" for n by (cases n) simp_all
  then show "drains B b' text \<Longrightarrow> drains B b text" by (simp add: drains_def)
qed

definition wire_form :: "base64_lib \<Rightarrow> file_part \<Rightarrow> string \<Rightarrow> string" where
  "wire_form B f s = (case fp_wire f of IdentityBytes \<Rightarrow> s | Base64Bytes \<Rightarrow> b64_encode B s)"

lemma wire_form_append:
  "base64_laws B \<Longrightarrow> length s mod 3 = 0 \<Longrightarrow> wire_form B f (s @ t) = wire_form B f s @ wire_form B f t"
  by (simp add: wire_form_def base64_laws_def split: representation.split)

lemma poll_active_step:
  assumes "base64_laws B" "readable B f content" "cursor < length content" "length content \<le> MAX_DECODED_INVOCATION_BYTES"
  defines "n \<equiv> min (length content - cursor) RAW_ENCODE_CHUNK"
  shows "\<exists>left. poll_active B b f cursor =
     (b\<lparr>sb_active := (if cursor + n = length content then None else Some (f, cursor + n)), sb_remaining := left\<rparr>,
      FrameData (wire_form B f (take n (drop cursor content))))"
proof -
  have n: "cursor + n \<le> length content" "n \<le> CHUNK_BYTES"
    using assms(3) by (simp_all add: n_def RAW_ENCODE_CHUNK_def CHUNK_BYTES_def)
  note r1 = read_decoded_exact [OF assms(1,2) n assms(4)]
  have r: "length (take n (drop cursor content)) = n" "fp_decoded_bytes f = length content"
    using n assms(2) by (simp_all add: readable_def)
  have "read_chunk B f cursor = Some (cursor + n, wire_form B f (take n (drop cursor content)))"
    unfolding read_chunk_def Let_def r(2) n_def [symmetric] r1 using r(1) by (simp add: wire_form_def)
  then show ?thesis by (auto simp: poll_active_def r(2))
qed

lemma drains_active:
  assumes "base64_laws B" "readable B f content" "\<And>left. drains B (b\<lparr>sb_active := None, sb_remaining := left\<rparr>) text"
    and "sb_active b = Some (f, cursor)" "cursor mod 3 = 0" "cursor < length content"
    and small: "length content \<le> MAX_DECODED_INVOCATION_BYTES"
  shows "drains B b (wire_form B f (drop cursor content) @ text)"
  using assms(3-6)
proof (induction "length content - cursor" arbitrary: b cursor rule: less_induct)
  case less
  define n where "n = min (length content - cursor) RAW_ENCODE_CHUNK"
  have n: "0 < n" "n \<le> length content - cursor" using less.prems(4) by (simp_all add: n_def RAW_ENCODE_CHUNK_def CHUNK_BYTES_def)
  obtain left where p: "poll_active B b f cursor =
     (b\<lparr>sb_active := (if cursor + n = length content then None else Some (f, cursor + n)), sb_remaining := left\<rparr>,
      FrameData (wire_form B f (take n (drop cursor content))))"
    using poll_active_step [OF assms(1,2) less.prems(4) small, of b] unfolding n_def by blast
  have q: "poll_frame B b = map_prod id Some (poll_active B b f cursor)"
    using less.prems(2,4) assms(2) by (simp add: poll_frame_def readable_def)
  show ?case
  proof (cases "cursor + n = length content")
    case True
    then have "take n (drop cursor content) = drop cursor content" by simp
    with drains_step [OF _ less.prems(1) [of left], of b] True p q show ?thesis by simp
  next
    case False
    then have m: "n = RAW_ENCODE_CHUNK" "n mod 3 = 0"
      using n by (auto simp: n_def min_def RAW_ENCODE_CHUNK_def CHUNK_BYTES_def split: if_splits)
    let ?b = "b\<lparr>sb_active := Some (f, cursor + n), sb_remaining := left\<rparr>"
    have "drains B ?b (wire_form B f (drop (cursor + n) content) @ text)"
    proof (rule less.hyps)
      show "length content - (cursor + n) < length content - cursor" using n less.prems(4) by simp
      show "drains B (?b\<lparr>sb_active := None, sb_remaining := l\<rparr>) text" for l using less.prems(1) [of l] by simp
      show "(cursor + n) mod 3 = 0" using less.prems(3) m(2) by (simp add: mod_add_eq [symmetric])
      show "cursor + n < length content" using False n less.prems(4) by simp
    qed simp
    from drains_step [OF _ this, of b "wire_form B f (take n (drop cursor content))"] p q False
    have "drains B b (wire_form B f (take n (drop cursor content))
        @ wire_form B f (drop (cursor + n) content) @ text)" by simp
    moreover have "wire_form B f (drop cursor content)
        = wire_form B f (take n (drop cursor content)) @ wire_form B f (drop (cursor + n) content)"
    proof -
      have e: "drop cursor content = take n (drop cursor content) @ drop (cursor + n) content"
        by (metis append_take_drop_id drop_drop add.commute)
      have "length (take n (drop cursor content)) mod 3 = 0" using m(2) n by simp
      from wire_form_append [OF assms(1) this] show ?thesis by (subst e)
    qed
    ultimately show ?thesis by simp
  qed
qed

lemma wire_form_Nil: "base64_laws B \<Longrightarrow> wire_form B f [] = []"
proof -
  assume "base64_laws B"
  moreover have "encoded_len (length ([] :: string)) = Some 0" by (simp add: encoded_len_def checked_mul_def)
  ultimately have "length (b64_encode B []) = 0" unfolding base64_laws_def by blast
  then show ?thesis by (simp add: wire_form_def split: representation.split)
qed

lemma poll_active_active: "poll_active B (b\<lparr>sb_active := x\<rparr>) f cursor = poll_active B b f cursor"
  by (simp add: poll_active_def split: option.split)

lemma drains_parts:
  assumes "base64_laws B" "list_all2 (part_wire B) (sb_parts b) wires" "sb_active b = None"
    "\<forall>f. AssetPart f \<in> set (sb_parts b) \<longrightarrow> fp_decoded_bytes f \<le> MAX_DECODED_INVOCATION_BYTES"
  shows "drains B b (concat wires)"
  using assms(2-4)
proof (induction "sb_parts b" arbitrary: b wires)
  case Nil
  then have "poll_frame B b = (b\<lparr>sb_parts := []\<rparr>, None)" by (simp add: poll_frame_def flip: Nil.hyps)
  with Nil show ?case by (auto intro: drains_end)
next
  case (Cons p ps)
  obtain w ws where w: "wires = w # ws" "part_wire B p w" "list_all2 (part_wire B) ps ws"
    using Cons.prems(1) by (auto simp: Cons.hyps(2) [symmetric] list_all2_Cons1)
  have rest: "drains B d (concat ws)" if "sb_parts d = ps" "sb_active d = None" for d
    using Cons.hyps(1) [of d ws] that w(3) Cons.prems(3) by (simp flip: Cons.hyps(2))
  let ?d = "b\<lparr>sb_parts := ps\<rparr>"
  have poll: "poll_frame B b = poll_parts B b (p # ps)" "poll_frame B ?d = poll_parts B b ps"
    using Cons.prems(2) by (simp_all add: poll_frame_def Cons.hyps(2) poll_parts_parts)
  show ?case
  proof (cases p)
    case (LiteralPart bytes)
    show ?thesis
    proof (cases "bytes = []")
      case True
      with LiteralPart poll have "poll_frame B b = poll_frame B ?d" by simp
      from drains_same [OF this rest] Cons.prems(2) True w LiteralPart show ?thesis by simp
    next
      case False
      from drains_step [OF _ rest, of b "b\<lparr>sb_parts := ps, sb_remaining := sb_remaining b - length bytes\<rparr>" bytes]
      show ?thesis using poll(1) False LiteralPart w Cons.prems(2) by simp
    qed
  next
    case (AssetPart f)
    with w(2) obtain content where c: "readable B f content" "w = wire_form B f content"
      by (auto simp: wire_form_def)
    show ?thesis
    proof (cases "content = []")
      case True
      with AssetPart poll c(1) have "poll_frame B b = poll_frame B ?d" by (simp add: readable_def)
      from drains_same [OF this rest] Cons.prems(2) True w(1) c(2) wire_form_Nil [OF assms(1)] show ?thesis by simp
    next
      case False
      let ?e = "b\<lparr>sb_parts := ps, sb_active := Some (f, 0)\<rparr>"
      have "poll_frame B b = poll_frame B ?e"
        using poll(1) AssetPart c(1) False by (simp add: poll_frame_def readable_def poll_active_active)
      moreover have "drains B ?e (wire_form B f (drop 0 content) @ concat ws)"
        by (rule drains_active [OF assms(1) c(1)])
          (use False rest Cons.prems(3) c(1) AssetPart in \<open>simp_all add: readable_def flip: Cons.hyps(2)\<close>)
      ultimately show ?thesis using w(1) c(2) by (simp add: drains_same)
    qed
  qed
qed

lemma add_part_wire:
  assumes "base64_laws B" "part_wire B p w" "add_part l p = Inr l'"
  shows "rl_total l' = rl_total l + length w"
proof (cases p)
  case (LiteralPart bytes)
  with assms(2,3) show ?thesis by (auto simp: add_part_def res_simps)
next
  case (AssetPart f)
  with assms(2) obtain content where c: "readable B f content" "w = wire_form B f content"
    by (auto simp: wire_form_def)
  from assms(3) AssetPart obtain n where "wire_len f = Inr n" "rl_total l' = rl_total l + n"
    by (auto simp: add_part_def res_simps split: option.splits)
  moreover have "wire_len f = Inr n \<Longrightarrow> n = length w"
    using c assms(1) by (auto simp: wire_len_def wire_form_def readable_def base64_laws_def res_simps split: representation.splits)
  ultimately show ?thesis by simp
qed

lemma add_parts_wire:
  assumes "base64_laws B" "list_all2 (part_wire B) ps ws" "add_parts l ps = Inr l'"
  shows "rl_total l' = rl_total l + length (concat ws)"
  using assms(2,3)
proof (induction ps ws arbitrary: l rule: list_all2_induct)
  case (Cons p ps w ws)
  then show ?case by (auto simp: res_simps dest!: add_part_wire [OF assms(1)])
qed simp

lemma add_parts_small:
  "add_parts l ps = Inr l' \<Longrightarrow> AssetPart f \<in> set ps \<Longrightarrow> fp_decoded_bytes f \<le> MAX_DECODED_INVOCATION_BYTES"
proof (induction ps arbitrary: l)
  case (Cons p ps)
  then obtain l1 where "add_part l p = Inr l1" "add_parts l1 ps = Inr l'" by (auto simp: res_simps)
  with Cons show ?case by (auto simp: add_part_def res_simps split: option.splits)
qed simp

text \<open>C35: The body of a streamed request is what was announced: polled to its end it gives its literals and
  the contents of its files in the form of the wire, in order, although files are read and encoded in
  pieces; and the length announced, which is the body's size hint, is the length of just that. Polling
  comes to an end.\<close>

theorem streamed_body_is_exact:
  assumes "base64_laws B" "list_all2 (part_wire B) parts wires" "stream_body_new parts = Inr (body, lengths)"
  shows "drains B body (concat wires) \<and> rl_total lengths = length (concat wires) \<and> size_hint body = rl_total lengths"
  using drains_parts [OF assms(1), of body wires] add_parts_wire [OF assms(1,2)] assms(2,3) add_parts_small
  by (auto simp: stream_body_new_def size_hint_def res_simps)

text \<open>An encoding that keeps the laws: groups of three bytes, padded and marked.\<close>

fun toy_encode :: "string \<Rightarrow> string" where
  "toy_encode [] = []"
| "toy_encode [a] = [a, CHR ''='', CHR ''='', CHR ''1'']"
| "toy_encode [a, b] = [a, b, CHR ''='', CHR ''2'']"
| "toy_encode (a # b # c # s) = [a, b, c, CHR ''3''] @ toy_encode s"

fun toy_decode :: "string \<Rightarrow> string" where
  "toy_decode (a # b # c # d # s) =
     (if d = CHR ''1'' then [a] else if d = CHR ''2'' then [a, b] else [a, b, c] @ toy_decode s)"
| "toy_decode s = []"

definition toy_base64 :: base64_lib where
  "toy_base64 =
     \<lparr>b64_encode = toy_encode,
      b64_read = (\<lambda>s n. if n \<le> length (toy_decode s) then Some (take n (toy_decode s)) else None)\<rparr>"

lemma toy_base64_laws: "base64_laws toy_base64"
proof -
  have l: "length (toy_encode s) = (length s div 3 + (if length s mod 3 = 0 then 0 else 1)) * 4" for s
    by (induction s rule: toy_encode.induct) (simp_all add: Suc3_eq_add_3 mod_simps div_add_self1)
  have a: "length s mod 3 = 0 \<longrightarrow> toy_encode (s @ t) = toy_encode s @ toy_encode t" for s t
    by (induction s rule: toy_encode.induct) (simp_all add: Suc3_eq_add_3)
  have d: "toy_decode (toy_encode s) = s" for s by (induction s rule: toy_encode.induct) simp_all
  show ?thesis
    using l a d by (auto simp: base64_laws_def toy_base64_def encoded_len_def checked_mul_def split: if_splits)
qed

theorem streamed_body_is_exact_witness:
  "let f = \<lparr>fp_file = Some ''wxy3z==1'', fp_stored = Base64Bytes, fp_wire = IdentityBytes, fp_decoded_bytes = 4\<rparr>;
       g = \<lparr>fp_file = Some ''wxyz'', fp_stored = IdentityBytes, fp_wire = Base64Bytes, fp_decoded_bytes = 4\<rparr>
   in \<exists>body lengths. stream_body_new [LiteralPart ''<'', AssetPart f, AssetPart g, LiteralPart ''>''] = Inr (body, lengths)
        \<and> drains toy_base64 body ''<wxyzwxy3z==1>'' \<and> rl_total lengths = 14"
proof -
  let ?f = "\<lparr>fp_file = Some ''wxy3z==1'', fp_stored = Base64Bytes, fp_wire = IdentityBytes, fp_decoded_bytes = 4\<rparr>"
  let ?g = "\<lparr>fp_file = Some ''wxyz'', fp_stored = IdentityBytes, fp_wire = Base64Bytes, fp_decoded_bytes = 4\<rparr>"
  let ?p = "[LiteralPart ''<'', AssetPart ?f, AssetPart ?g, LiteralPart ''>'']"
  have "\<exists>x. stream_body_new ?p = Inr x"
    by (simp add: stream_body_new_def add_part_def checked_add_def u64_max_def wire_len_def encoded_len_def checked_mul_def
        ensure_def MAX_DECODED_INVOCATION_BYTES_def)
  then obtain body lengths where n: "stream_body_new ?p = Inr (body, lengths)" by auto
  have "readable toy_base64 ?f ''wxyz''" "readable toy_base64 ?g ''wxyz''"
    by (simp_all add: readable_def toy_base64_def)
  then have "list_all2 (part_wire toy_base64) ?p [''<'', ''wxyz'', ''wxy3z==1'', ''>'']"
    by (auto intro!: exI [of _ "''wxyz''"] simp: toy_base64_def)
  from streamed_body_is_exact [OF toy_base64_laws this n] n show ?thesis by auto
qed

end
