(* ===== verification/Http_Redactor.thy ===== *)
theory Http_Redactor
  imports Http_Stream
begin

text \<open>
  The redaction of GitHub's answers to a signed download (\<open>dekopon-http-host\<close>: \<open>signed_download.rs\<close>,
  \<open>ApiRedactor\<close>). The secrets of a location are the values of its query and fragment; where they occur in
  the headers or the body they are replaced, also when the body arrives in pieces that cut them. The
  search for several secrets at once is done by the crate \<open>aho-corasick\<close>, which is a parameter; its law is
  the documented leftmost-longest search.
\<close>

section \<open>Leftmost-longest search\<close>

text \<open>The longest of the patterns a text begins with.\<close>

definition longest_at :: "string list \<Rightarrow> string \<Rightarrow> nat option" where
  "longest_at ps s =
     (let lengths = map length (filter (\<lambda>p. prefix p s) ps) in if lengths = [] then None else Some (foldl max 0 lengths))"

text \<open>The matches of a text from a position on, none of which overlap. No pattern is empty.\<close>

fun matches_from :: "string list \<Rightarrow> nat \<Rightarrow> string \<Rightarrow> (nat \<times> nat) list" where
  "matches_from ps i [] = []"
| "matches_from ps i (b # s) =
     (case longest_at ps (b # s) of
        None \<Rightarrow> matches_from ps (i + 1) s
      | Some l \<Rightarrow> (i, i + Suc (l - 1)) # matches_from ps (i + Suc (l - 1)) (drop (l - 1) s))"

definition REDACTED :: string where "REDACTED = ''[redacted]''"

fun redact :: "string list \<Rightarrow> string \<Rightarrow> string" where
  "redact ps [] = []"
| "redact ps (b # s) =
     (case longest_at ps (b # s) of
        None \<Rightarrow> b # redact ps s
      | Some l \<Rightarrow> REDACTED @ redact ps (drop (l - 1) s))"

text \<open>What the code uses of the crates \<open>aho-corasick\<close> and \<open>percent-encoding\<close>: whether a matcher
  builds, its matches, the replacement of its matches, and decoding.\<close>

record redact_lib =
  xl_builds :: "string list \<Rightarrow> bool"
  xl_find_iter :: "string list \<Rightarrow> string \<Rightarrow> (nat \<times> nat) list"
  xl_replace_all :: "string list \<Rightarrow> string list \<Rightarrow> string \<Rightarrow> string"
  xl_percent_decode :: "string \<Rightarrow> string"

definition redact_laws :: "redact_lib \<Rightarrow> bool" where
  "redact_laws X \<longleftrightarrow>
     (\<forall>ps s. [] \<notin> set ps \<longrightarrow> xl_find_iter X ps s = matches_from ps 0 s
        \<and> xl_replace_all X ps (replicate (length ps) REDACTED) s = redact ps s)
     \<and> (\<forall>v. v \<noteq> [] \<longrightarrow> xl_percent_decode X v \<noteq> [])"

section \<open>The redactor\<close>

definition split_secret_part :: "string \<Rightarrow> char \<Rightarrow> string \<times> string option" where
  "split_secret_part bytes separator =
     (if separator \<in> set bytes
      then (takeWhile (\<lambda>b. b \<noteq> separator) bytes, Some (tl (dropWhile (\<lambda>b. b \<noteq> separator) bytes)))
      else (bytes, None))"

definition pair_secrets :: "redact_lib \<Rightarrow> string \<Rightarrow> string list" where
  "pair_secrets X pair =
     (case split_secret_part pair CHR ''='' of (key, v) \<Rightarrow>
        let v = unwrap_or pair v
        in if v \<noteq> [] \<and> (to_ascii_lowercase key = ''sig'' \<or> length v \<ge> 16) then [v, xl_percent_decode X v] else [])"

definition location_secrets :: "redact_lib \<Rightarrow> string \<Rightarrow> string list" where
  "location_secrets X v =
     (case split_secret_part v CHR ''#'' of (path_query, fragment) \<Rightarrow>
      case split_secret_part path_query CHR ''?'' of (_, query) \<Rightarrow>
        concat (map (\<lambda>part. concat (map (pair_secrets X) (split_on CHR ''&'' part)))
          (filter (\<lambda>part. part \<noteq> []) (List.map_filter id [query, fragment]))))"

definition api_secrets :: "redact_lib \<Rightarrow> header list \<Rightarrow> string list" where
  "api_secrets X headers =
     remdups_adj (sort_key (\<lambda>secret. - int (length secret))
       (concat (map (\<lambda>h. location_secrets X (hd_value h))
          (filter (\<lambda>h. to_ascii_lowercase (hd_name h) = ''location'') headers))))"

record api_redactor =
  ar_secrets :: "string list"
  ar_pending :: string
  ar_overlap :: nat

definition redact_header :: "redact_lib \<Rightarrow> string list \<Rightarrow> header \<Rightarrow> (host_error, header) result" where
  "redact_header X secrets h =
     (let name = xl_replace_all X secrets (replicate (length secrets) REDACTED) (hd_name h)
      in if is_utf8 name
         then Inr \<lparr>hd_name = name, hd_value = xl_replace_all X secrets (replicate (length secrets) REDACTED) (hd_value h)\<rparr>
         else Inl (http_fail InternalCode ''redacted header name is not UTF-8''))"

definition redactor_new :: "redact_lib \<Rightarrow> header list \<Rightarrow> (host_error, header list \<times> api_redactor) result" where
  "redactor_new X headers =
     (let secrets = api_secrets X headers;
          overlap = (case secrets of [] \<Rightarrow> 0 | secret # _ \<Rightarrow> saturating_sub (length secret) 1)
      in res_bind (ensure (xl_builds X secrets) (http_fail InternalCode ''response redactor could not be constructed'')) (\<lambda>_.
         res_bind (collect_results (redact_header X secrets) (redact_api_locations headers)) (\<lambda>headers.
           Inr (headers, \<lparr>ar_secrets = secrets, ar_pending = [], ar_overlap = overlap\<rparr>))))"

definition redacted_too_large :: host_error where
  "redacted_too_large = http_fail ResponseTooLargeCode ''redacted response exceeds the authorized byte limit''"

definition append_redacted :: "string \<Rightarrow> string \<Rightarrow> nat \<Rightarrow> (host_error, string) result" where
  "append_redacted output bytes maximum =
     (if saturating_add (length output) (length bytes) > maximum then Inl redacted_too_large else Inr (output @ bytes))"

text \<open>The bytes of a text between two positions.\<close>

definition bytes_between :: "nat \<Rightarrow> nat \<Rightarrow> string \<Rightarrow> string" where
  "bytes_between i j s = take (j - i) (drop i s)"

fun render_matches ::
  "string \<Rightarrow> nat \<Rightarrow> nat \<Rightarrow> (nat \<times> nat) list \<Rightarrow> nat \<Rightarrow> string \<Rightarrow> (host_error, nat \<times> string) result" where
  "render_matches pending ready maximum [] consumed output = Inr (consumed, output)"
| "render_matches pending ready maximum ((start, stop) # found) consumed output =
     (if start \<ge> ready then Inr (consumed, output)
      else res_bind (append_redacted output (bytes_between consumed start pending) maximum) (\<lambda>output.
           res_bind (append_redacted output REDACTED maximum) (\<lambda>output.
             render_matches pending ready maximum found stop output)))"

definition render :: "redact_lib \<Rightarrow> api_redactor \<Rightarrow> nat \<Rightarrow> string \<Rightarrow> nat \<Rightarrow> (host_error, api_redactor \<times> string) result" where
  "render X r ready output maximum =
     res_bind (render_matches (ar_pending r) ready maximum (xl_find_iter X (ar_secrets r) (ar_pending r)) 0 output) (\<lambda>(consumed, output).
     if consumed < ready
     then res_bind (append_redacted output (bytes_between consumed ready (ar_pending r)) maximum) (\<lambda>output.
            Inr (r\<lparr>ar_pending := drop ready (ar_pending r)\<rparr>, output))
     else Inr (r\<lparr>ar_pending := drop consumed (ar_pending r)\<rparr>, output))"

definition redactor_push :: "redact_lib \<Rightarrow> api_redactor \<Rightarrow> string \<Rightarrow> string \<Rightarrow> nat \<Rightarrow> (host_error, api_redactor \<times> string) result" where
  "redactor_push X r bytes output maximum =
     (let r = r\<lparr>ar_pending := ar_pending r @ bytes\<rparr>
      in if length (ar_pending r) < ar_overlap r + CHUNK_BYTES then Inr (r, output)
         else render X r (length (ar_pending r) - ar_overlap r) output maximum)"

definition redactor_finish :: "redact_lib \<Rightarrow> api_redactor \<Rightarrow> string \<Rightarrow> nat \<Rightarrow> (host_error, api_redactor \<times> string) result" where
  "redactor_finish X r output maximum = render X r (length (ar_pending r)) output maximum"

fun redactor_push_all :: "redact_lib \<Rightarrow> nat \<Rightarrow> api_redactor \<Rightarrow> string \<Rightarrow> string list \<Rightarrow> (host_error, api_redactor \<times> string) result" where
  "redactor_push_all X maximum r output [] = Inr (r, output)"
| "redactor_push_all X maximum r output (bytes # rest) =
     res_bind (redactor_push X r bytes output maximum) (\<lambda>(r, output). redactor_push_all X maximum r output rest)"

section \<open>Redacting piece by piece\<close>

lemma foldl_max_in: "xs \<noteq> [] \<Longrightarrow> foldl max (0::nat) xs \<in> set xs"
proof -
  have "foldl max m xs = m \<or> foldl max m xs \<in> set xs" for m :: nat and xs
    by (induction xs arbitrary: m) (auto simp: max_def split: if_splits)
  then show "xs \<noteq> [] \<Longrightarrow> foldl max (0::nat) xs \<in> set xs" by (cases xs) auto
qed

lemma longest_at_Some:
  assumes "longest_at ps s = Some l" "[] \<notin> set ps"
  shows "0 < l" "l \<le> length s" "\<exists>p \<in> set ps. prefix p s \<and> length p = l"
proof -
  let ?ls = "map length (filter (\<lambda>p. prefix p s) ps)"
  have "?ls \<noteq> []" "l = foldl max 0 ?ls" using assms(1) by (auto simp: longest_at_def Let_def split: if_splits)
  then have "l \<in> set ?ls" using foldl_max_in by blast
  then show "\<exists>p \<in> set ps. prefix p s \<and> length p = l" by auto
  then show "0 < l" "l \<le> length s" using assms(2) by (auto dest: prefix_length_le)
qed

lemma longest_at_None: "longest_at ps s = None \<longleftrightarrow> (\<forall>p \<in> set ps. \<not> prefix p s)"
  by (auto simp: longest_at_def Let_def filter_empty_conv)

lemma longest_at_append: "\<forall>p \<in> set ps. length p \<le> length s \<Longrightarrow> longest_at ps (s @ t) = longest_at ps s"
proof -
  assume "\<forall>p \<in> set ps. length p \<le> length s"
  then have "prefix p (s @ t) \<longleftrightarrow> prefix p s" if "p \<in> set ps" for p
    using that by (metis prefix_length_prefix prefix_prefix prefixI)
  then have "filter (\<lambda>p. prefix p (s @ t)) ps = filter (\<lambda>p. prefix p s) ps" by (rule filter_cong [OF refl])
  then show ?thesis by (simp add: longest_at_def)
qed

text \<open>Redaction of what begins before a position: what it gives, and what is left.\<close>

fun redact_until :: "string list \<Rightarrow> nat \<Rightarrow> string \<Rightarrow> string \<times> string" where
  "redact_until ps n [] = ([], [])"
| "redact_until ps n (b # s) =
     (if n = 0 then ([], b # s)
      else case longest_at ps (b # s) of
             None \<Rightarrow> apfst (\<lambda>out. b # out) (redact_until ps (n - 1) s)
           | Some l \<Rightarrow> apfst (\<lambda>out. REDACTED @ out) (redact_until ps (n - Suc (l - 1)) (drop (l - 1) s)))"

lemma redact_until_zero [simp]: "redact_until ps 0 s = ([], s)"
  by (cases s) simp_all

lemma redact_until_all: "length s \<le> n \<Longrightarrow> redact_until ps n s = (redact ps s, [])"
proof (induction ps s arbitrary: n rule: redact.induct)
  case (2 ps b s)
  show ?case
  proof (cases "longest_at ps (b # s)")
    case None
    with 2 show ?thesis by (auto simp: apfst_def)
  next
    case (Some l)
    with "2.IH"(2) [OF Some, of "n - Suc (l - 1)"] "2.prems" show ?thesis by (auto simp: apfst_def)
  qed
qed simp

text \<open>A secret that begins early enough is seen whole, so more text does not change what was decided.\<close>

lemma redact_until_append:
  assumes "\<forall>p \<in> set ps. length p \<le> k + 1" "[] \<notin> set ps" "n + k \<le> length s"
  shows "redact ps (s @ t) = fst (redact_until ps n s) @ redact ps (snd (redact_until ps n s) @ t)"
  using assms
proof (induction ps n s rule: redact_until.induct)
  case (2 ps n b s)
  show ?case
  proof (cases "n = 0")
    case False
    with "2.prems" have e: "longest_at ps (b # s @ t) = longest_at ps (b # s)"
      using longest_at_append [of ps "b # s" t] by fastforce
    show ?thesis
    proof (cases "longest_at ps (b # s)")
      case None
      with False "2.IH"(1) [OF False None] "2.prems" e show ?thesis by simp
    next
      case (Some l)
      note l = longest_at_Some [OF Some "2.prems"(2)]
      have "(n - Suc (l - 1)) + k \<le> length (drop (l - 1) s) \<or> n - Suc (l - 1) = 0"
        using "2.prems"(3) l(1) by auto
      then show ?thesis
      proof
        assume "(n - Suc (l - 1)) + k \<le> length (drop (l - 1) s)"
        with False Some "2.IH"(2) [OF False Some] "2.prems" e l show ?thesis by simp
      next
        assume "n - Suc (l - 1) = 0"
        with False Some e l show ?thesis by simp
      qed
    qed
  qed simp
qed simp

text \<open>Rendering is that redaction, within the limit.\<close>

lemma append_redacted_eq:
  "maximum < u64_max \<Longrightarrow> append_redacted output bytes maximum =
     (if length (output @ bytes) \<le> maximum then Inr (output @ bytes) else Inl redacted_too_large)"
  by (auto simp: append_redacted_def saturating_add_def)

lemma between_same [simp]: "bytes_between i i s = []"
  by (simp add: bytes_between_def)

lemma between_step: "i \<le> j \<Longrightarrow> drop j s = b # t \<Longrightarrow> bytes_between i (Suc j) s = bytes_between i j s @ [b]"
proof -
  assume a: "i \<le> j" "drop j s = b # t"
  then have d: "drop (j - i) (drop i s) = b # t" by simp
  then have "j - i < length (drop i s)" by (metis drop_all leI list.distinct(1))
  from take_hd_drop [OF this] d show ?thesis using a(1) by (simp add: bytes_between_def Suc_diff_le)
qed

definition render_rest :: "string \<Rightarrow> nat \<Rightarrow> nat \<Rightarrow> nat \<times> string \<Rightarrow> (host_error, string \<times> string) result" where
  "render_rest pending ready maximum m =
     (case m of (consumed, output) \<Rightarrow>
        if consumed < ready
        then res_bind (append_redacted output (bytes_between consumed ready pending) maximum) (\<lambda>output. Inr (drop ready pending, output))
        else Inr (drop consumed pending, output))"

lemma render_by_rest:
  "render X r ready output maximum =
     res_bind (render_matches (ar_pending r) ready maximum (xl_find_iter X (ar_secrets r) (ar_pending r)) 0 output) (\<lambda>m.
     res_bind (render_rest (ar_pending r) ready maximum m) (\<lambda>(rest, output). Inr (r\<lparr>ar_pending := rest\<rparr>, output)))"
  by (auto simp: render_def render_rest_def res_bind_def split: sum.splits)

lemma matches_start: "m \<in> set (matches_from ps i s) \<Longrightarrow> i \<le> fst m"
proof (induction ps i s rule: matches_from.induct)
  case (2 ps i b s)
  then show ?case by (cases "longest_at ps (b # s)") force+
qed simp

lemma render_matches_late:
  "\<forall>m \<in> set found. ready \<le> fst m \<Longrightarrow> render_matches pending ready maximum found consumed output = Inr (consumed, output)"
  by (cases found) auto

definition within :: "nat \<Rightarrow> 'a \<times> string \<Rightarrow> (host_error, 'a \<times> string) result" where
  "within maximum m = (if length (snd m) \<le> maximum then Inr m else Inl redacted_too_large)"

lemma render_rest_late:
  assumes "maximum < u64_max" "length output \<le> maximum" "consumed \<le> i" "ready \<le> i" "i = ready \<or> consumed = i"
  shows "render_rest pending ready maximum (consumed, output) = within maximum (drop i pending, output @ bytes_between consumed i pending)"
  using assms by (auto simp: render_rest_def within_def append_redacted_eq res_bind_def)

lemma render_matches_eq:
  assumes "[] \<notin> set ps" "maximum < u64_max" "ready \<le> length pending" "length out \<le> maximum"
    and "drop i pending = s" "consumed \<le> i" "i \<le> length pending" "i \<le> ready \<or> consumed = i"
  shows "res_bind (render_matches pending ready maximum (matches_from ps i s) consumed out) (render_rest pending ready maximum)
    = within maximum (snd (redact_until ps (ready - i) s), out @ bytes_between consumed i pending @ fst (redact_until ps (ready - i) s))"
  using assms
proof (induction ps i s arbitrary: consumed out rule: matches_from.induct)
  case (1 ps i)
  with render_rest_late [of maximum out consumed i ready pending] show ?case by (auto simp: res_bind_def)
next
  case (2 ps i b s)
  show ?case
  proof (cases "ready \<le> i")
    case True
    have "render_matches pending ready maximum (matches_from ps i (b # s)) consumed out = Inr (consumed, out)"
      using True matches_start [of _ ps i "b # s"] by (intro render_matches_late) fastforce
    with True "2.prems" render_rest_late [of maximum out consumed i ready pending] show ?thesis by (auto simp: res_bind_def)
  next
    case early: False
    note d = "2.prems"(5)
    have "length pending - i = Suc (length s)" using arg_cong [OF d, of length] by simp
    then have i: "drop (Suc i) pending = s" "Suc i \<le> length pending" "ready - i = Suc (ready - Suc i)" "length pending = i + Suc (length s)"
      using early "2.prems"(3,7) d by (auto simp: drop_Suc drop_tl)
    show ?thesis
    proof (cases "longest_at ps (b # s)")
      case None
      with "2.IH"(1) [OF None "2.prems"(1-4), of consumed] "2.prems" i early between_step [of consumed i pending b s] show ?thesis
        by simp
    next
      case (Some l)
      note l = longest_at_Some [OF Some "2.prems"(1)]
      let ?i = "i + Suc (l - 1)"
      let ?out = "out @ bytes_between consumed i pending @ REDACTED"
      have "drop ?i pending = drop (l - 1) (drop (Suc i) pending)" by (simp add: add.commute)
      then have at: "drop ?i pending = drop (l - 1) s" unfolding i(1) .
      have le: "?i \<le> length pending" using l(2) unfolding i(4) by simp
      show ?thesis
      proof (cases "length ?out \<le> maximum")
        case True
        with "2.IH"(2) [OF Some "2.prems"(1-3), of ?out ?i] at le Some early i(3) l(1) "2.prems"(2,4) show ?thesis
          by (simp add: append_redacted_eq)
      next
        case False
        with Some early i(3) "2.prems"(2) show ?thesis by (auto simp: append_redacted_eq within_def res_bind_def)
      qed
    qed
  qed
qed

definition redactor_ok :: "api_redactor \<Rightarrow> bool" where
  "redactor_ok r \<longleftrightarrow> [] \<notin> set (ar_secrets r) \<and> (\<forall>p \<in> set (ar_secrets r). length p \<le> ar_overlap r + 1)"

lemma render_eq:
  assumes "redact_laws X" "[] \<notin> set (ar_secrets r)" "maximum < u64_max" "ready \<le> length (ar_pending r)" "length out \<le> maximum"
  shows "render X r ready out maximum =
    (let m = redact_until (ar_secrets r) ready (ar_pending r)
     in if length (out @ fst m) \<le> maximum then Inr (r\<lparr>ar_pending := snd m\<rparr>, out @ fst m) else Inl redacted_too_large)"
proof -
  have "xl_find_iter X (ar_secrets r) (ar_pending r) = matches_from (ar_secrets r) 0 (ar_pending r)"
    using assms(1,2) by (simp add: redact_laws_def)
  moreover have "render X r ready out maximum =
    res_bind (res_bind (render_matches (ar_pending r) ready maximum (xl_find_iter X (ar_secrets r) (ar_pending r)) 0 out)
      (render_rest (ar_pending r) ready maximum)) (\<lambda>(rest, out). Inr (r\<lparr>ar_pending := rest\<rparr>, out))"
    by (simp add: render_by_rest res_bind_def split: sum.split)
  ultimately show ?thesis
    using render_matches_eq [OF assms(2-5), where i = 0 and consumed = 0 and s = "ar_pending r"] by (simp add: within_def res_bind_def Let_def)
qed

definition redact_stream :: "redact_lib \<Rightarrow> nat \<Rightarrow> api_redactor \<Rightarrow> string \<Rightarrow> string list \<Rightarrow> (host_error, string) result" where
  "redact_stream X maximum r out pieces =
     res_bind (redactor_push_all X maximum r out pieces) (\<lambda>(r, out).
     res_bind (redactor_finish X r out maximum) (\<lambda>(_, out). Inr out))"

lemma redact_stream_eq:
  assumes "redact_laws X" "redactor_ok r" "maximum < u64_max" "length out \<le> maximum"
  shows "redact_stream X maximum r out pieces =
    (let whole = out @ redact (ar_secrets r) (ar_pending r @ concat pieces)
     in if length whole \<le> maximum then Inr whole else Inl redacted_too_large)"
  using assms
proof (induction pieces arbitrary: r out)
  case Nil
  then have "[] \<notin> set (ar_secrets r)" by (simp add: redactor_ok_def)
  from render_eq [OF Nil.prems(1) this Nil.prems(3) _ Nil.prems(4), of "length (ar_pending r)"] show ?case
    by (simp add: redact_stream_def redactor_finish_def redact_until_all res_bind_def Let_def)
next
  case (Cons bytes pieces)
  let ?r = "r\<lparr>ar_pending := ar_pending r @ bytes\<rparr>"
  have ok: "redactor_ok (q\<lparr>ar_pending := x\<rparr>) \<longleftrightarrow> redactor_ok q" for q x by (simp add: redactor_ok_def)
  show ?case
  proof (cases "length (ar_pending r @ bytes) < ar_overlap r + CHUNK_BYTES")
    case True
    with Cons.IH [of ?r out] Cons.prems ok show ?thesis
      by (simp add: redact_stream_def redactor_push_def Let_def)
  next
    case False
    let ?ready = "length (ar_pending r @ bytes) - ar_overlap r"
    let ?m = "redact_until (ar_secrets r) ?ready (ar_pending r @ bytes)"
    have p: "[] \<notin> set (ar_secrets r)" "\<forall>p \<in> set (ar_secrets r). length p \<le> ar_overlap r + 1"
      using Cons.prems(2) by (simp_all add: redactor_ok_def)
    have a: "redact (ar_secrets r) ((ar_pending r @ bytes) @ concat pieces)
        = fst ?m @ redact (ar_secrets r) (snd ?m @ concat pieces)"
      by (rule redact_until_append [OF p(2,1)]) (use False in simp)
    have push: "redactor_push X r bytes out maximum =
      (if length (out @ fst ?m) \<le> maximum then Inr (?r\<lparr>ar_pending := snd ?m\<rparr>, out @ fst ?m) else Inl redacted_too_large)"
      using False render_eq [OF Cons.prems(1), of ?r maximum ?ready out] p(1) Cons.prems(3,4) by (simp add: redactor_push_def Let_def)
    show ?thesis
    proof (cases "length (out @ fst ?m) \<le> maximum")
      case True
      with push a Cons.IH [of "?r\<lparr>ar_pending := snd ?m\<rparr>" "out @ fst ?m"] Cons.prems ok show ?thesis
        by (simp add: redact_stream_def)
    next
      case False
      with push a show ?thesis by (simp add: redact_stream_def)
    qed
  qed
qed

section \<open>What is redacted holds no secret\<close>

fun marked :: "string list \<Rightarrow> string" where
  "marked [] = []"
| "marked [k] = k"
| "marked (k # rest) = k @ REDACTED @ marked rest"

lemma marked_Cons: "rest \<noteq> [] \<Longrightarrow> marked (k # rest) = k @ REDACTED @ marked rest"
  by (cases rest) simp_all

text \<open>The parts that are kept are runs of bytes at none of which a secret begins.\<close>

definition secret_free :: "string list \<Rightarrow> string \<Rightarrow> bool" where
  "secret_free ps k \<longleftrightarrow> (\<forall>p \<in> set ps. \<not> sublist p k)"

lemma run_secret_free:
  assumes "[] \<notin> set ps" "prefix k s" "\<forall>i < length k. \<forall>p \<in> set ps. \<not> prefix p (drop i s)"
  shows "secret_free ps k"
proof (unfold secret_free_def, intro ballI notI)
  fix p assume p: "p \<in> set ps" "sublist p k"
  then obtain a c where k: "k = a @ p @ c" by (auto simp: sublist_def)
  with assms(2) obtain t where "s = a @ p @ c @ t" by (auto simp: prefix_def)
  then have "prefix p (drop (length a) s)" by simp
  moreover have "length a < length k" using k p(1) assms(1) by (cases p) auto
  ultimately show False using assms(3) p(1) by blast
qed

lemma redact_kept:
  "[] \<notin> set ps \<Longrightarrow> \<exists>k rest. redact ps s = marked (k # rest) \<and> prefix k s
     \<and> (\<forall>i < length k. \<forall>p \<in> set ps. \<not> prefix p (drop i s)) \<and> (\<forall>q \<in> set rest. secret_free ps q)"
proof (induction ps s rule: redact.induct)
  case (1 ps)
  then show ?case by (intro exI [of _ "[]"]) simp
next
  case (2 ps b s)
  show ?case
  proof (cases "longest_at ps (b # s)")
    case None
    from "2.IH"(1) [OF None "2.prems"] obtain k rest where h: "redact ps s = marked (k # rest)" "prefix k s"
      "\<forall>i < length k. \<forall>p \<in> set ps. \<not> prefix p (drop i s)" "\<forall>q \<in> set rest. secret_free ps q" by blast
    have "redact ps (b # s) = marked ((b # k) # rest)" using None h(1) by (cases rest) simp_all
    moreover have "\<forall>i < length (b # k). \<forall>p \<in> set ps. \<not> prefix p (drop i (b # s))"
      using None h(3) by (auto simp: longest_at_None drop_Cons split: nat.splits)
    ultimately show ?thesis using h(2,4) by (intro exI [of _ "b # k"] exI [of _ rest]) simp
  next
    case (Some l)
    from "2.IH"(2) [OF Some "2.prems"] obtain k rest where h: "redact ps (drop (l - 1) s) = marked (k # rest)"
      "prefix k (drop (l - 1) s)" "\<forall>i < length k. \<forall>p \<in> set ps. \<not> prefix p (drop i (drop (l - 1) s))"
      "\<forall>q \<in> set rest. secret_free ps q" by blast
    have "secret_free ps k" by (rule run_secret_free [OF "2.prems" h(2,3)])
    moreover have "redact ps (b # s) = marked ([] # k # rest)" using Some h(1) by simp
    ultimately show ?thesis using h(4) by (intro exI [of _ "[]"] exI [of _ "k # rest"]) simp
  qed
qed

lemma redact_marks:
  assumes "[] \<notin> set ps"
  shows "\<exists>kept. redact ps s = marked kept \<and> list_all (secret_free ps) kept"
proof -
  from redact_kept [OF assms, of s] obtain k rest where h: "redact ps s = marked (k # rest)" "prefix k s"
    "\<forall>i < length k. \<forall>p \<in> set ps. \<not> prefix p (drop i s)" "\<forall>q \<in> set rest. secret_free ps q" by blast
  have "list_all (secret_free ps) (k # rest)" using run_secret_free [OF assms h(2,3)] h(4) by (simp add: list_all_iff)
  with h(1) show ?thesis by blast
qed

section \<open>The secrets of a location\<close>

lemma location_secrets_nonempty: "redact_laws X \<Longrightarrow> [] \<notin> set (location_secrets X v)"
  by (auto simp: location_secrets_def pair_secrets_def redact_laws_def Let_def split: prod.splits if_splits)

lemma api_secrets_ok:
  assumes "redact_laws X" "api_secrets X headers = secrets"
  shows "[] \<notin> set secrets" "p \<in> set secrets \<Longrightarrow> length p \<le> length (hd secrets)"
    "h \<in> set headers \<Longrightarrow> to_ascii_lowercase (hd_name h) = ''location'' \<Longrightarrow> set (location_secrets X (hd_value h)) \<subseteq> set secrets"
proof -
  let ?all = "concat (map (\<lambda>h. location_secrets X (hd_value h)) (filter (\<lambda>h. to_ascii_lowercase (hd_name h) = ''location'') headers))"
  let ?f = "\<lambda>secret :: string. - int (length secret)"
  have s: "secrets = remdups_adj (sort_key ?f ?all)" using assms(2) by (simp add: api_secrets_def)
  then have set: "set secrets = set ?all" by simp
  show "[] \<notin> set secrets" unfolding set using location_secrets_nonempty [OF assms(1)] by auto
  show "h \<in> set headers \<Longrightarrow> to_ascii_lowercase (hd_name h) = ''location'' \<Longrightarrow> set (location_secrets X (hd_value h)) \<subseteq> set secrets"
    unfolding set by auto
  show "length p \<le> length (hd secrets)" if "p \<in> set secrets"
  proof -
    have "sort_key ?f ?all \<noteq> []" using that unfolding s by (metis empty_iff list.set(1) remdups_adj.simps(1))
    then obtain q qs where q: "sort_key ?f ?all = q # qs" by (metis neq_Nil_conv)
    have "sorted (map ?f (q # qs))" unfolding q [symmetric] by simp
    moreover have "p \<in> set (q # qs)" using that unfolding s q [symmetric] by simp
    moreover have "hd secrets = q" unfolding s q by simp
    ultimately show ?thesis by auto
  qed
qed

lemma redactor_new_ok:
  assumes "redact_laws X" "redactor_new X headers = Inr (headers', r)"
  shows "redactor_ok r" "ar_secrets r = api_secrets X headers" "ar_pending r = []"
    "map hd_value headers' = map (\<lambda>h. redact (ar_secrets r) (hd_value h)) (redact_api_locations headers)"
proof -
  let ?s = "api_secrets X headers"
  have r: "ar_secrets r = ?s" "ar_pending r = []" "ar_overlap r = (case ?s of [] \<Rightarrow> 0 | secret # _ \<Rightarrow> saturating_sub (length secret) 1)"
    and h: "collect_results (redact_header X ?s) (redact_api_locations headers) = Inr headers'"
    using assms(2) by (auto simp: redactor_new_def Let_def res_simps)
  show "ar_secrets r = ?s" "ar_pending r = []" by (fact r)+
  note ok = api_secrets_ok(1,2) [OF assms(1) refl, where headers = headers]
  show "redactor_ok r"
    using ok(1,2) unfolding redactor_ok_def r by (cases ?s) (fastforce simp: saturating_sub_def)+
  have "list_all2 (\<lambda>h h'. redact_header X ?s h = Inr h') (redact_api_locations headers) headers'"
    using h by (simp add: collect_results_ok)
  then have "list_all2 (\<lambda>h h'. hd_value h' = redact ?s (hd_value h)) (redact_api_locations headers) headers'"
    by (rule list_all2_mono) (use assms(1) ok(1) in \<open>auto simp: redact_header_def redact_laws_def Let_def split: if_splits\<close>)
  then show "map hd_value headers' = map (\<lambda>h. redact (ar_secrets r) (hd_value h)) (redact_api_locations headers)"
    unfolding r(1) by (induction rule: list_all2_induct) simp_all
qed

text \<open>C37: Redacting the body of GitHub's answer as it arrives gives exactly what redacting the whole body
  would give, however it is cut into pieces, unless that is longer than the limit, and then it is refused.
  What is given are parts that contain no secret, joined by marks; the values of the headers are
  redacted alike, and the secrets are those of every location of the answer.\<close>

theorem redaction_is_exact:
  assumes "redact_laws X" "redactor_new X headers = Inr (headers', r)" "maximum < u64_max"
  shows "redact_stream X maximum r [] pieces =
      (let whole = redact (ar_secrets r) (concat pieces)
       in if length whole \<le> maximum then Inr whole else Inl redacted_too_large)
    \<and> (\<exists>kept. redact (ar_secrets r) (concat pieces) = marked kept \<and> list_all (secret_free (ar_secrets r)) kept)
    \<and> map hd_value headers' = map (\<lambda>h. redact (ar_secrets r) (hd_value h)) (redact_api_locations headers)
    \<and> (\<forall>h \<in> set headers. to_ascii_lowercase (hd_name h) = ''location'' \<longrightarrow>
         set (location_secrets X (hd_value h)) \<subseteq> set (ar_secrets r))"
proof (intro conjI)
  note r = redactor_new_ok [OF assms(1,2)]
  show "redact_stream X maximum r [] pieces =
      (let whole = redact (ar_secrets r) (concat pieces)
       in if length whole \<le> maximum then Inr whole else Inl redacted_too_large)"
    using redact_stream_eq [OF assms(1) r(1) assms(3), of "[]"] r(3) by simp
  show "\<exists>kept. redact (ar_secrets r) (concat pieces) = marked kept \<and> list_all (secret_free (ar_secrets r)) kept"
    using r(1) by (intro redact_marks) (simp add: redactor_ok_def)
  show "map hd_value headers' = map (\<lambda>h. redact (ar_secrets r) (hd_value h)) (redact_api_locations headers)" by (fact r(4))
  show "\<forall>h \<in> set headers. to_ascii_lowercase (hd_name h) = ''location'' \<longrightarrow>
         set (location_secrets X (hd_value h)) \<subseteq> set (ar_secrets r)"
    unfolding r(2) using api_secrets_ok(3) [OF assms(1) refl] by blast
qed

text \<open>A library that keeps the laws, and an answer whose body is cut within the signature.\<close>

definition plain_redact :: redact_lib where
  "plain_redact =
     \<lparr>xl_builds = (\<lambda>_. True), xl_find_iter = (\<lambda>ps. matches_from ps 0), xl_replace_all = (\<lambda>ps _. redact ps),
      xl_percent_decode = id\<rparr>"

lemma plain_redact_laws: "redact_laws plain_redact"
  by (simp add: redact_laws_def plain_redact_def)

theorem redaction_is_exact_witness:
  "let headers = [\<lparr>hd_name = ''location'', hd_value = ''u?sig=xyz''\<rparr>]
   in \<exists>headers' r. redactor_new plain_redact headers = Inr (headers', r)
      \<and> redact_stream plain_redact 100 r [] [''a xy'', ''z b''] = Inr ''a [redacted] b''
      \<and> map hd_value headers' = [''u?[redacted]'']"
proof -
  let ?h = "[\<lparr>hd_name = ''location'', hd_value = ''u?sig=xyz''\<rparr>]"
  have l: "to_ascii_lowercase ''location'' = ''location''" "to_ascii_lowercase ''sig'' = ''sig''"
    by (simp_all add: to_ascii_lowercase_def lower_byte_def ascii)
  have secrets: "api_secrets plain_redact ?h = [''xyz'']"
    by (simp add: api_secrets_def l location_secrets_def pair_secrets_def split_secret_part_def plain_redact_def Let_def
        map_filter_simps)
  have kept: "redact [''xyz''] ''location'' = ''location''" "redact [''xyz''] ''u?[redacted]'' = ''u?[redacted]''"
    "redact [''xyz''] ''a xyz b'' = ''a [redacted] b''"
    by (simp_all add: longest_at_def REDACTED_def)
  have x: "xl_builds plain_redact = (\<lambda>_. True)" "xl_replace_all plain_redact = (\<lambda>ps _. redact ps)"
    by (simp_all add: plain_redact_def)
  have "is_utf8 ''location''" by simp
  then obtain headers' r where n: "redactor_new plain_redact ?h = Inr (headers', r)"
    by (simp add: redactor_new_def secrets Let_def ensure_def redact_header_def redact_api_locations_def redact_location_def l x kept
        del: redact.simps)
  have r: "ar_secrets r = [''xyz'']" using redactor_new_ok(2) [OF plain_redact_laws n] secrets by simp
  have locations: "redact_api_locations ?h = [\<lparr>hd_name = ''location'', hd_value = ''u?[redacted]''\<rparr>]"
    by (simp add: redact_api_locations_def redact_location_def l)
  from redaction_is_exact [OF plain_redact_laws n, of 100 "[''a xy'', ''z b'']"] n r show ?thesis
    by (simp add: kept locations u64_max_def Let_def del: redact.simps)
qed

end
