(* ===== verification/Http_Download.thy ===== *)
theory Http_Download
  imports Http_Redactor "HOL-Library.Monad_Syntax"
begin

text \<open>
  Signed downloads (\<open>dekopon-http-host\<close>: \<open>signed_download.rs\<close>). A guest asks for a window of the log of
  a GitHub job. The host asks GitHub with the credential, follows the one redirect to GitHub's storage
  without it, and returns the window as a file when neither the signed location nor the credential shows in
  it or around it. The storage answers a request by the number of requests made before it, so it may
  answer differently each time; the disk is one for each request and one for the output.
\<close>

section \<open>Windows, errors and guards\<close>

definition WINDOW_BYTES :: nat where "WINDOW_BYTES = 65536"
definition LOCATION_BYTES :: nat where "LOCATION_BYTES = 8192"

datatype window = Tail nat | Offset nat nat

record coverage =
  co_start :: nat
  co_end_exclusive :: nat
  co_total :: nat

datatype download_response = ApiAnswer response | StorageAnswer nat "coverage option" "asset_file option"

datatype download_error =
    DownloadDenied | RedirectRefused | RequestLimit | DownloadTimeout
  | DownloadTooLarge "byte_limit_exceeded option" | DownloadIncomplete | StorageFailure | DownloadInternal

fun download_label :: "download_error \<Rightarrow> string" where
  "download_label DownloadDenied = ''denied''"
| "download_label RedirectRefused = ''redirect-refused''"
| "download_label RequestLimit = ''host-call-limit''"
| "download_label DownloadTimeout = ''timeout''"
| "download_label (DownloadTooLarge _) = ''response-too-large''"
| "download_label DownloadIncomplete = ''incomplete''"
| "download_label StorageFailure = ''storage''"
| "download_label DownloadInternal = ''internal''"

definition download_byte_limit :: "download_error \<Rightarrow> byte_limit_exceeded option" where
  "download_byte_limit e = (case e of DownloadTooLarge exceeded \<Rightarrow> exceeded | _ \<Rightarrow> None)"

definition download_error_from :: "host_error \<Rightarrow> download_error" where
  "download_error_from e =
     (case he_code e of
        HostCallLimitCode \<Rightarrow> RequestLimit
      | TimeoutCode \<Rightarrow> DownloadTimeout
      | ResponseTooLargeCode \<Rightarrow> DownloadTooLarge (he_byte_limit e)
      | DeniedCode \<Rightarrow> DownloadDenied
      | InvalidMethodCode \<Rightarrow> DownloadDenied
      | InvalidUriCode \<Rightarrow> DownloadDenied
      | InvalidHeaderCode \<Rightarrow> DownloadDenied
      | RequestTooLargeCode \<Rightarrow> DownloadDenied
      | DnsCode \<Rightarrow> StorageFailure
      | ConnectCode \<Rightarrow> StorageFailure
      | TlsCode \<Rightarrow> StorageFailure
      | ProtocolCode \<Rightarrow> StorageFailure
      | InternalCode \<Rightarrow> DownloadInternal)"

definition download_violation :: "download_error \<Rightarrow> policy_violation option" where
  "download_violation e =
     (case e of
        DownloadDenied \<Rightarrow> Some ViolationDenied
      | RedirectRefused \<Rightarrow> Some ViolationRedirectRefused
      | RequestLimit \<Rightarrow> Some ViolationHostCallLimit
      | DownloadTooLarge exceeded \<Rightarrow> Some (ViolationByteLimit exceeded)
      | _ \<Rightarrow> None)"

definition storage_status :: "nat \<Rightarrow> (download_error, download_response) result" where
  "storage_status status =
     (if 400 \<le> status \<and> status < 600 then Inr (StorageAnswer status None None) else Inl DownloadIncomplete)"

definition repository_part :: "string \<Rightarrow> bool" where
  "repository_part v \<longleftrightarrow> v \<noteq> [] \<and> list_all (\<lambda>b. is_ascii_alphanumeric b \<or> b \<in> set ''-_.'') v"

definition api_route :: "'u url_lib \<Rightarrow> string \<Rightarrow> bool" where
  "api_route U uri =
     (case url_parse U uri of
        Inl _ \<Rightarrow> False
      | Inr url \<Rightarrow>
          url_scheme U url = ''https'' \<and> url_username U url = [] \<and> url_password U url = None
          \<and> url_query U url = None \<and> url_fragment U url = None
          \<and> (case split_on CHR ''/'' (url_path U url) of
               [root, repos, owner, repository, actions, jobs, job, logs] \<Rightarrow>
                 root = [] \<and> repos = ''repos'' \<and> actions = ''actions'' \<and> jobs = ''jobs'' \<and> logs = ''logs''
                 \<and> repository_part owner \<and> repository_part repository
                 \<and> list_all is_ascii_digit job \<and> (case parse_u64 job of Some i \<Rightarrow> i > 0 | None \<Rightarrow> False)
             | _ \<Rightarrow> False))"

definition lower_or_digit :: "char \<Rightarrow> bool" where
  "lower_or_digit b \<longleftrightarrow> is_ascii_lowercase b \<or> is_ascii_digit b"

definition storage_host :: "string \<Rightarrow> bool" where
  "storage_host host =
     (case Option.bind (strip_suffix ''.blob.core.windows.net'' host) (strip_prefix ''productionresultssa'') of
        Some label \<Rightarrow> 1 \<le> length label \<and> length label \<le> 5 \<and> list_all lower_or_digit label
      | None \<Rightarrow>
          (case Option.bind (strip_suffix ''.actions.githubusercontent.com'' host) (strip_prefix ''pipelines'') of
             Some label \<Rightarrow>
               length label \<le> 54 \<and> list_all (\<lambda>b. lower_or_digit b \<or> b = CHR ''-'') label
               \<and> \<not> (label \<noteq> [] \<and> last label = CHR ''-'')
           | None \<Rightarrow> False))"

definition ambiguous_authority :: "string \<Rightarrow> bool" where
  "ambiguous_authority v =
     (list_ex (\<lambda>b. b \<in> {CHR 0x5C, CHR ''%''}) v
      \<and> (case split_once_str ''://'' v of
           Some (_, rest) \<Rightarrow> list_ex (\<lambda>b. b \<in> {CHR 0x5C, CHR ''%''}) (hd (split_on CHR ''/'' rest))
         | None \<Rightarrow> False))"

definition location :: "'u url_lib \<Rightarrow> header list \<Rightarrow> (download_error, 'u) result" where
  "location U headers =
     (case filter (\<lambda>h. to_ascii_lowercase (hd_name h) = ''location'') headers of
        [h] \<Rightarrow>
          if length (hd_value h) > LOCATION_BYTES
             \<or> list_ex (\<lambda>b. is_ascii_whitespace b \<or> is_ascii_control b) (hd_value h) \<or> \<not> is_utf8 (hd_value h)
          then Inl RedirectRefused
          else (case url_parse U (hd_value h) of
                  Inl _ \<Rightarrow> Inl RedirectRefused
                | Inr uri \<Rightarrow>
                    if url_scheme U uri \<noteq> ''https'' \<or> url_port_or_known_default U uri \<noteq> Some 443
                       \<or> url_username U uri \<noteq> [] \<or> url_password U uri \<noteq> None \<or> url_fragment U uri \<noteq> None
                       \<or> ambiguous_authority (hd_value h)
                       \<or> \<not> (case url_host_str U uri of Some host \<Rightarrow> storage_host host | None \<Rightarrow> False)
                    then Inl RedirectRefused else Inr uri)
      | _ \<Rightarrow> Inl RedirectRefused)"

definition range_number :: "string \<Rightarrow> nat option" where
  "range_number v = (if v \<noteq> [] \<and> list_all is_ascii_digit v then parse_u64 v else None)"

definition content_range :: "http_lib \<Rightarrow> header_map \<Rightarrow> (download_error, coverage) result" where
  "content_range H headers =
     (case header_get_all headers ''content-range'' of
        [v] \<Rightarrow>
          ok_or DownloadIncomplete (do {
            v \<leftarrow> header_value_text H v;
            v \<leftarrow> strip_prefix ''bytes '' v;
            (range, total) \<leftarrow> split_once CHR ''/'' v;
            (start, stop) \<leftarrow> split_once CHR ''-'' range;
            start \<leftarrow> range_number start;
            stop \<leftarrow> Option.bind (range_number stop) (\<lambda>stop. checked_add stop 1);
            total \<leftarrow> range_number total;
            if start \<ge> stop \<or> stop > total then None
            else Some \<lparr>co_start = start, co_end_exclusive = stop, co_total = total\<rparr> })
      | _ \<Rightarrow> Inl DownloadIncomplete)"

section \<open>Asking GitHub\<close>

text \<open>\<open>execute\<close> for an answer of GitHub to a signed download: a redirect keeps its location, which the host
  follows; any other answer is redacted as it is read.\<close>

fun read_redacted ::
  "redact_lib \<Rightarrow> http_constraints \<Rightarrow> nat \<Rightarrow> nat \<Rightarrow> http_client \<Rightarrow> nat \<Rightarrow> api_redactor option \<Rightarrow> string \<Rightarrow> (host_error, string) result list
    \<Rightarrow> http_client \<times> (host_error, string) result" where
  "read_redacted X grant index maximum c bytes redactor body [] =
     (c, case redactor of
           None \<Rightarrow> Inr body
         | Some r \<Rightarrow> res_bind (redactor_finish X r body maximum) (\<lambda>(_, body). Inr body))"
| "read_redacted X grant index maximum c bytes redactor body (event # rest) =
     (case event of
        Inl e \<Rightarrow> (c, Inl e)
      | Inr chunk \<Rightarrow>
          state_bind (count_chunk grant index ''response size overflowed'' c bytes chunk) (\<lambda>c bytes.
          (case redactor of
             None \<Rightarrow> read_redacted X grant index maximum c bytes None (body @ chunk) rest
           | Some r \<Rightarrow>
               state_bind (c, redactor_push_all X maximum r body (chunks_of CHUNK_BYTES chunk)) (\<lambda>c (r, body).
                 read_redacted X grant index maximum c bytes (Some r) body rest))))"

definition signed_redactor :: "redact_lib \<Rightarrow> nat \<Rightarrow> header list \<Rightarrow> (host_error, header list \<times> api_redactor option) result" where
  "signed_redactor X status headers =
     (if status \<noteq> 302 then res_bind (redactor_new X headers) (\<lambda>(headers, r). Inr (headers, Some r)) else Inr (headers, None))"

definition execute_signed ::
  "redact_lib \<Rightarrow> http_lib \<Rightarrow> client_lib \<Rightarrow> call_env \<Rightarrow> (pinned_client \<Rightarrow> 'u prepared_request \<Rightarrow> transport_outcome) \<Rightarrow> http_client
    \<Rightarrow> 'u prepared_request \<Rightarrow> http_constraints \<Rightarrow> nat \<Rightarrow> http_client \<times> (host_error, response) result" where
  "execute_signed X H L env net c p grant index =
     state_bind (c, call_time_remaining c (ev_send env)) (\<lambda>c _.
     state_bind (pinned_client_for L c (pr_host p) (pr_addresses p)) (\<lambda>c client.
     state_bind (c, transport_reply (net client p)) (\<lambda>c r.
     state_bind (accept_head H c (pr_method p) r grant index SignedDownloadResponse) (\<lambda>c head.
     state_bind (c, signed_redactor X (rh_status head) (rh_headers head)) (\<lambda>c (headers, redactor).
     let output_head = returned_head_bytes headers
     in state_bind (c, ensure (output_head \<le> h_max_response_bytes grant)
          (byte_limit_error MaxResponseBytes (h_max_response_bytes grant) output_head
             ''redacted headers exceed the authorized byte limit'')) (\<lambda>c _.
        state_bind (c, ensure (\<not> (redactor \<noteq> None \<and> output_head > ce_max_header_bytes (hc_ceilings c)))
          (http_fail ResponseTooLargeCode ''redacted headers exceed the authorized byte limit'')) (\<lambda>c _.
        state_bind (read_redacted X grant index (h_max_response_bytes grant - output_head) c (rh_bytes head) redactor [] (rh_body head))
          (\<lambda>c body. (c, Inr \<lparr>rsp_status = rh_status head, rsp_headers = headers, rsp_body = body\<rparr>)))))))))"

definition signed_api_request ::
  "'u url_lib \<Rightarrow> redact_lib \<Rightarrow> http_lib \<Rightarrow> client_lib \<Rightarrow> call_env \<Rightarrow> (pinned_client \<Rightarrow> 'u prepared_request \<Rightarrow> transport_outcome)
    \<Rightarrow> http_client \<Rightarrow> string \<Rightarrow> http_client \<times> (download_error, response) result" where
  "signed_api_request U X H L env net c api_uri =
     (case state_bind (authorize_request U H env c
             \<lparr>hr_method = ''GET'', hr_uri = api_uri, hr_headers = [\<lparr>hd_name = ''user-agent'', hd_value = ''dekopon''\<rparr>], hr_body = []\<rparr>
             None) (\<lambda>c (p, grant, index).
           state_bind (execute_signed X H L env net c p grant index) (\<lambda>c r.
             if client_echoes c r then (c, Inl echoed) else (c, Inr r)))
      of (c, r) \<Rightarrow> (record_request c r, map_err download_error_from r))"

section \<open>Asking the storage\<close>

datatype storage_event = StorageChunk string | StorageElapsed | StorageBroken

record storage_reply =
  sy_status :: nat
  sy_headers :: header_map
  sy_content_length :: "nat option"
  sy_chunks :: "storage_event list"

datatype storage_outcome = StorageSendElapsed | StorageSendFailed | StorageReplied storage_reply

record 'u destination =
  de_uri :: 'u
  de_client :: "pinned_client option"
  de_headers :: header_map
  de_authority :: string
  de_request_bytes :: nat

text \<open>What the world does during a download: the clock, GitHub, the name of the storage, the storage, and
  the disk; the storage and the disk by the number of requests made before.\<close>

record 'u download_env =
  dn_api :: call_env
  dn_net :: "pinned_client \<Rightarrow> 'u prepared_request \<Rightarrow> transport_outcome"
  dn_now :: nat
  dn_created :: nat
  dn_lookup :: call_env
  dn_storage :: "nat \<Rightarrow> 'u destination \<Rightarrow> string \<Rightarrow> storage_outcome"
  dn_disk :: "nat \<Rightarrow> disk"
  dn_output :: disk
  dn_read :: "nat \<Rightarrow> asset_io_error option"

definition destination_error :: "host_error \<Rightarrow> download_error" where
  "destination_error e = (if he_code e = DeniedCode then RedirectRefused else download_error_from e)"

definition storage_request :: "'u url_lib \<Rightarrow> 'u \<Rightarrow> http_request" where
  "storage_request U uri =
     \<lparr>hr_method = ''GET'', hr_uri = url_as_str U uri,
      hr_headers = [\<lparr>hd_name = ''accept-encoding'', hd_value = ''identity''\<rparr>, \<lparr>hd_name = ''user-agent'', hd_value = ''dekopon''\<rparr>],
      hr_body = []\<rparr>"

definition destination_new ::
  "'u url_lib \<Rightarrow> http_lib \<Rightarrow> client_lib \<Rightarrow> 'u download_env \<Rightarrow> 'u \<Rightarrow> http_constraints \<Rightarrow> host_ceilings \<Rightarrow> nat
    \<Rightarrow> (download_error, 'u destination) result" where
  "destination_new U H L E uri grant ceilings deadline =
     res_bind (ensure (dn_now E \<le> deadline) DownloadTimeout) (\<lambda>_.
     res_bind (map_err (\<lambda>_. DownloadInternal) (client_authorized (dn_created E) grant ceilings (deadline - dn_now E))) (\<lambda>validator.
     case prepare U H (dn_lookup E) (validator\<lparr>hc_deadline := deadline\<rparr>) (storage_request U uri) grant None of (validator, prepared) \<Rightarrow>
     res_bind (map_err destination_error prepared) (\<lambda>p.
     res_bind (if pr_addresses p = [] then Inr None
               else res_bind (map_err download_error_from (call_time_remaining validator (ev_send (dn_lookup E)))) (\<lambda>_.
                    map_err download_error_from
                      (res_bind (snd (pinned_client_for L validator (pr_host p) (pr_addresses p))) (\<lambda>client. Inr (Some client))))) (\<lambda>client.
       Inr \<lparr>de_uri = pr_url p, de_client = client, de_headers = pr_headers p, de_authority = pr_authority p,
            de_request_bytes = pr_request_bytes p\<rparr>))))"

definition update_last_evidence :: "(call_evidence \<Rightarrow> call_evidence) \<Rightarrow> http_client \<Rightarrow> http_client" where
  "update_last_evidence f c = update_evidence f (length (hc_evidence c) - 1) c"

definition storage_head :: "http_client \<Rightarrow> storage_reply \<Rightarrow> http_client \<times> (download_error, unit) result" where
  "storage_head c r =
     state_bind (c, ok_or DownloadDenied (hc_grant c)) (\<lambda>c grant.
     state_bind (c, map_err download_error_from
       (response_head_bytes (sy_headers r) (hc_ceilings c) (h_max_response_bytes grant))) (\<lambda>c bytes.
       (update_last_evidence (\<lambda>e. e\<lparr>cv_response_bytes := bytes\<rparr>) c, Inr ())))"

definition storage_sent :: "storage_outcome \<Rightarrow> (download_error, storage_reply) result" where
  "storage_sent t =
     (case t of
        StorageSendElapsed \<Rightarrow> Inl DownloadTimeout
      | StorageSendFailed \<Rightarrow> Inl StorageFailure
      | StorageReplied r \<Rightarrow> Inr r)"

definition storage_get ::
  "'u download_env \<Rightarrow> http_client \<Rightarrow> 'u destination \<Rightarrow> nat \<Rightarrow> nat \<Rightarrow> http_client \<times> (download_error, storage_reply) result" where
  "storage_get E c d start stop =
     state_bind (c, ok_or DownloadDenied (hc_grant c)) (\<lambda>c grant.
     state_bind (c, ensure (hc_calls c < h_max_requests grant) RequestLimit) (\<lambda>c _.
     let c = c\<lparr>hc_calls := hc_calls c + 1\<rparr>;
         range = ''bytes='' @ show_nat start @ ''-'' @ show_nat stop
     in state_bind (c, ok_or DownloadDenied (checked_add (de_request_bytes d) (length range + 9))) (\<lambda>c request_bytes.
        state_bind (c, ensure (request_bytes \<le> h_max_request_bytes grant) DownloadDenied) (\<lambda>c _.
        let index = length (hc_evidence c);
            c = c\<lparr>hc_evidence := hc_evidence c @
                   [\<lparr>cv_method = ''GET'', cv_authority = de_authority d, cv_status = None, cv_request_bytes = request_bytes,
                     cv_response_bytes = 0, cv_upstream_request_id = None, cv_vm_session = None, cv_credential_injected = False\<rparr>]\<rparr>
        in state_bind (c, storage_sent (dn_storage E index d range)) (\<lambda>c r.
           state_bind (storage_head (update_last_evidence (\<lambda>e. e\<lparr>cv_status := Some (sy_status r)\<rparr>) c) r) (\<lambda>c _.
             (c, if 300 \<le> sy_status r \<and> sy_status r < 400 then Inl RedirectRefused else Inr r)))))))"

text \<open>The windows of the two scans.\<close>

record download_scan =
  ds_location :: string
  ds_credential :: string

definition empty_scan :: download_scan where "empty_scan = \<lparr>ds_location = [], ds_credential = []\<rparr>"

definition location_patterns :: "'u url_lib \<Rightarrow> 'u destination \<Rightarrow> string list" where
  "location_patterns U d = [url_as_str U (de_uri d), unwrap_or [] (url_query U (de_uri d))]"

definition pattern_overlap :: "string list \<Rightarrow> nat" where
  "pattern_overlap patterns = saturating_sub (foldl max 0 (map length patterns)) 1"

definition scan_location :: "string list \<Rightarrow> string \<Rightarrow> string \<Rightarrow> (download_error, string) result" where
  "scan_location patterns window bytes =
     (let window = window @ bytes
      in if list_ex (\<lambda>pattern. pattern \<noteq> [] \<and> contains_bytes window pattern) patterns then Inl DownloadDenied
         else Inr (drop (saturating_sub (length window) (pattern_overlap patterns)) window))"

definition scan_credential :: "http_client \<Rightarrow> string \<Rightarrow> string \<Rightarrow> (download_error, string) result" where
  "scan_credential c window bytes =
     (case hc_credential c of
        None \<Rightarrow> Inr window
      | Some k \<Rightarrow>
          (case scan_stream_chunk k window bytes (echo_overlap k) of
             (_, None) \<Rightarrow> Inl DownloadDenied
           | (window', Some clean) \<Rightarrow> Inr (drop clean window')))"

definition as_download :: "stream_state \<times> (host_error, 'a) result \<Rightarrow> stream_state \<times> (download_error, 'a) result" where
  "as_download m = (case m of (st, r) \<Rightarrow> (st, map_err download_error_from r))"

fun storage_pieces ::
  "string list \<Rightarrow> disk \<Rightarrow> stream_state \<Rightarrow> spool \<Rightarrow> download_scan \<Rightarrow> string list
    \<Rightarrow> stream_state \<times> (download_error, spool \<times> download_scan) result" where
  "storage_pieces patterns D st s scan [] = (st, Inr (s, scan))"
| "storage_pieces patterns D st s scan (bytes # rest) =
     state_bind (or_drop s (st, scan_location patterns (ds_location scan) bytes)) (\<lambda>st location.
     state_bind (or_drop s (st, scan_credential (fst st) (ds_credential scan) bytes)) (\<lambda>(c, b) credential.
     state_bind (as_download (on_disk c (spool_write D b s bytes))) (\<lambda>st s.
       storage_pieces patterns D st s \<lparr>ds_location = location, ds_credential = credential\<rparr> rest)))"

text \<open>The bytes of a chunk are counted against the range and against the limit on responses.\<close>

definition count_storage ::
  "nat \<Rightarrow> nat \<Rightarrow> nat \<Rightarrow> http_client \<Rightarrow> string \<Rightarrow> http_client \<times> (download_error, nat) result" where
  "count_storage maximum expected count c chunk =
     state_bind (c, ok_or (DownloadTooLarge None) (checked_add count (length chunk))) (\<lambda>c count.
     state_bind (c, ensure (hc_evidence c \<noteq> []) DownloadInternal) (\<lambda>c _.
     state_bind (c, ok_or (DownloadTooLarge None) (checked_add (cv_response_bytes (last (hc_evidence c))) (length chunk))) (\<lambda>c bytes.
       let c = update_last_evidence (\<lambda>e. e\<lparr>cv_response_bytes := bytes\<rparr>) c
       in (c, if bytes > maximum
              then Inl (DownloadTooLarge (Some \<lparr>bl_key = MaxResponseBytes, bl_limit = maximum, bl_observed = bytes\<rparr>))
              else if count > expected then Inl (DownloadTooLarge None)
              else Inr count))))"

definition storage_event_text :: "storage_event \<Rightarrow> (download_error, string) result" where
  "storage_event_text e =
     (case e of StorageChunk chunk \<Rightarrow> Inr chunk | StorageElapsed \<Rightarrow> Inl DownloadTimeout | StorageBroken \<Rightarrow> Inl DownloadIncomplete)"

fun storage_chunks ::
  "string list \<Rightarrow> disk \<Rightarrow> nat \<Rightarrow> nat \<Rightarrow> stream_state \<Rightarrow> nat \<Rightarrow> spool \<Rightarrow> download_scan \<Rightarrow> storage_event list
    \<Rightarrow> stream_state \<times> (download_error, nat \<times> spool \<times> download_scan) result" where
  "storage_chunks patterns D maximum expected st count s scan [] = (st, Inr (count, s, scan))"
| "storage_chunks patterns D maximum expected st count s scan (event # rest) =
     state_bind (or_drop s (st, storage_event_text event)) (\<lambda>(c, b) chunk.
     state_bind (or_drop s (case count_storage maximum expected count c chunk of (c, r) \<Rightarrow> ((c, b), r))) (\<lambda>st count.
     state_bind (storage_pieces patterns D st s scan (chunks_of CHUNK_BYTES chunk)) (\<lambda>st (s, scan).
       storage_chunks patterns D maximum expected st count s scan rest)))"

definition check_storage_length :: "storage_reply \<Rightarrow> nat \<Rightarrow> (download_error, unit) result" where
  "check_storage_length r expected =
     (if list_ex (\<lambda>v. to_ascii_lowercase v \<noteq> ''identity'') (header_get_all (sy_headers r) ''content-encoding'')
      then Inl DownloadIncomplete
      else case sy_content_length r of
             Some len \<Rightarrow>
               if len > expected then Inl (DownloadTooLarge None)
               else if len \<noteq> expected then Inl DownloadIncomplete
               else if expected > WINDOW_BYTES then Inl (DownloadTooLarge None)
               else Inr ()
           | None \<Rightarrow> if expected > WINDOW_BYTES then Inl (DownloadTooLarge None) else Inr ())"

definition read_storage ::
  "'u url_lib \<Rightarrow> disk \<Rightarrow> stream_state \<Rightarrow> storage_reply \<Rightarrow> 'u destination \<Rightarrow> coverage \<Rightarrow> download_scan
    \<Rightarrow> stream_state \<times> (download_error, asset_file \<times> download_scan) result" where
  "read_storage U D st r d cov scan =
     (let expected = co_end_exclusive cov - co_start cov
      in state_bind (st, ok_or DownloadDenied (hc_grant (fst st))) (\<lambda>st grant.
         state_bind (st, check_storage_length r expected) (\<lambda>(c, b) _.
         state_bind (as_download (on_disk c (spool_allocate D b))) (\<lambda>st s.
         state_bind (storage_chunks (location_patterns U d) D (h_max_response_bytes grant) expected st 0 s scan (sy_chunks r))
           (\<lambda>st (count, s, scan).
         state_bind (or_drop s (st, ensure (count = expected) DownloadIncomplete)) (\<lambda>(c, b) _.
         state_bind (as_download (on_disk c (spool_finish D b s))) (\<lambda>st made. (st, Inr (made, scan)))))))))"

section \<open>The download\<close>

datatype fetched_range = FetchedRange coverage asset_file | FetchedStatus nat

definition fetch_storage ::
  "'u url_lib \<Rightarrow> http_lib \<Rightarrow> 'u download_env \<Rightarrow> stream_state \<Rightarrow> 'u destination \<Rightarrow> coverage \<Rightarrow> download_scan
    \<Rightarrow> stream_state \<times> (download_error, fetched_range \<times> download_scan) result" where
  "fetch_storage U H E st d expected scan =
     (case st of (c, b) \<Rightarrow>
        state_bind (case storage_get E c d (co_start expected) (co_end_exclusive expected - 1) of (c, r) \<Rightarrow> ((c, b), r)) (\<lambda>st r.
        if sy_status r \<noteq> 206
        then (st, if 400 \<le> sy_status r \<and> sy_status r < 600 then Inr (FetchedStatus (sy_status r), scan) else Inl DownloadIncomplete)
        else state_bind (st, content_range H (sy_headers r)) (\<lambda>st cov.
             state_bind (st, ensure (co_start cov = co_start expected \<and> co_end_exclusive cov = co_end_exclusive expected
                 \<and> (co_total expected = 0 \<or> co_total cov = co_total expected)) DownloadIncomplete) (\<lambda>st _.
             state_bind (read_storage U (dn_disk E (length (hc_evidence (fst st)))) st r d cov scan) (\<lambda>st (body, scan).
               (st, Inr (FetchedRange cov body, scan)))))))"

definition asset_drop :: "stream_state \<Rightarrow> asset_file \<Rightarrow> stream_state" where
  "asset_drop st f = (case st of (c, b) \<Rightarrow> (c, budget_release b (af_reserved f)))"

text \<open>Reading a part of a file; \<open>read_decoded\<close> of bytes stored as they are reads at most a chunk, and nothing
  beyond the end; an error is named by its kind.\<close>

definition asset_read :: "asset_io_error option \<Rightarrow> asset_file \<Rightarrow> nat \<Rightarrow> nat \<Rightarrow> (asset_io_error, string) result" where
  "asset_read failure f offset count =
     (if count > CHUNK_BYTES then Inl (AssetIo ''InvalidInput'')
      else case failure of
             Some e \<Rightarrow> Inl e
           | None \<Rightarrow>
               if offset + count \<le> length (af_content f) then Inr (take count (drop offset (af_content f)))
               else Inl (AssetIo ''UnexpectedEof''))"

text \<open>The parts of the range that are fetched one after the other. A position is at most the greatest \<open>u64\<close>.\<close>

function segments :: "nat \<Rightarrow> nat \<Rightarrow> (nat \<times> nat) list" where
  "segments cursor stop =
     (if cursor < stop \<and> stop \<le> u64_max
      then (let segment_end = min (saturating_add cursor WINDOW_BYTES) stop in (cursor, segment_end) # segments segment_end stop)
      else [])"
  by pat_completeness auto
termination
  by (relation "measure (\<lambda>(cursor, stop). stop - cursor)") (auto simp: saturating_add_def WINDOW_BYTES_def)

declare segments.simps [simp del]

text \<open>What of a fetched part lies in the window is appended to the output.\<close>

definition keep_visible ::
  "'u download_env \<Rightarrow> nat \<Rightarrow> nat \<Rightarrow> stream_state \<Rightarrow> spool \<Rightarrow> coverage \<Rightarrow> asset_file \<Rightarrow> stream_state \<times> (download_error, spool) result" where
  "keep_visible E start stop st s cov body =
     (let visible_start = max start (co_start cov); visible_end = min stop (co_end_exclusive cov)
      in if visible_start < visible_end
         then (case asset_drop st body of (c, b) \<Rightarrow>
                 state_bind (or_drop s (as_download (on_disk c
                   (b, asset_read (dn_read E (length (hc_evidence c))) body (visible_start - co_start cov) (visible_end - visible_start))))) (\<lambda>(c, b) bytes.
                   as_download (on_disk c (spool_write (dn_output E) b s bytes))))
         else (asset_drop st body, Inr s))"

fun download_loop ::
  "'u url_lib \<Rightarrow> http_lib \<Rightarrow> 'u download_env \<Rightarrow> 'u destination \<Rightarrow> nat \<Rightarrow> nat \<Rightarrow> nat \<Rightarrow> stream_state \<Rightarrow> spool \<Rightarrow> download_scan
    \<Rightarrow> (nat \<times> nat) list \<Rightarrow> stream_state \<times> (download_error, nat + spool) result" where
  "download_loop U H E d start stop whole st s scan [] = (st, Inr (Inr s))"
| "download_loop U H E d start stop whole st s scan ((cursor, segment_end) # rest) =
     state_bind (or_drop s (fetch_storage U H E st d \<lparr>co_start = cursor, co_end_exclusive = segment_end, co_total = whole\<rparr> scan))
       (\<lambda>st (fetched, scan).
          case fetched of
            FetchedStatus status \<Rightarrow> (case st of (c, b) \<Rightarrow> ((c, spool_drop b s), Inr (Inl status)))
          | FetchedRange cov body \<Rightarrow>
              state_bind (keep_visible E start stop st s cov body) (\<lambda>st s.
                download_loop U H E d start stop whole st s scan rest))"

definition storage_grant :: "string \<Rightarrow> http_constraints \<Rightarrow> http_constraints" where
  "storage_grant host grant =
     grant\<lparr>h_hosts := [host], h_methods := [''GET''], h_signed_download := None, h_templates := [],
       h_propagate_trace := False, h_plaintext_loopback := False\<rparr>"

definition window_length :: "window \<Rightarrow> nat" where
  "window_length w = (case w of Tail len \<Rightarrow> len | Offset _ len \<Rightarrow> len)"

definition window_start :: "window \<Rightarrow> nat \<Rightarrow> nat" where
  "window_start w whole = (case w of Tail len \<Rightarrow> saturating_sub whole len | Offset start _ \<Rightarrow> start)"

definition download_overlap :: "'u url_lib \<Rightarrow> http_client \<Rightarrow> 'u destination \<Rightarrow> nat" where
  "download_overlap U c d = max (saturating_sub (length (url_as_str U (de_uri d))) 1) (client_overlap c)"

text \<open>From the total that the storage announced to the file with the window.\<close>

definition download_window ::
  "'u url_lib \<Rightarrow> http_lib \<Rightarrow> 'u download_env \<Rightarrow> stream_state \<Rightarrow> 'u destination \<Rightarrow> window \<Rightarrow> nat
    \<Rightarrow> stream_state \<times> (download_error, download_response) result" where
  "download_window U H E st d w whole =
     (let start = window_start w whole
      in state_bind (st, ensure (start < whole) DownloadIncomplete) (\<lambda>st _.
         state_bind (st, ok_or DownloadIncomplete (checked_add start (window_length w))) (\<lambda>(c, b) stop.
         let stop = min stop whole; overlap = download_overlap U c d
         in state_bind ((c, b), ensure (overlap \<le> WINDOW_BYTES) DownloadDenied) (\<lambda>(c, b) _.
            state_bind (as_download (on_disk c (spool_allocate (dn_output E) b))) (\<lambda>st s.
            state_bind (download_loop U H E d start stop whole st s empty_scan
                (segments (saturating_sub start overlap) (min (saturating_add stop overlap) whole))) (\<lambda>(c, b) fetched.
              case fetched of
                Inl status \<Rightarrow> ((c, b), storage_status status)
              | Inr s \<Rightarrow>
                  state_bind (as_download (on_disk c (spool_finish (dn_output E) b s))) (\<lambda>st body.
                    (st, Inr (StorageAnswer 206 (Some \<lparr>co_start = start, co_end_exclusive = stop, co_total = whole\<rparr>) (Some body))))))))))"

definition download_storage ::
  "'u url_lib \<Rightarrow> http_lib \<Rightarrow> 'u download_env \<Rightarrow> stream_state \<Rightarrow> 'u destination \<Rightarrow> window
    \<Rightarrow> stream_state \<times> (download_error, download_response) result" where
  "download_storage U H E st d w =
     state_bind (fetch_storage U H E st d \<lparr>co_start = 0, co_end_exclusive = 1, co_total = 0\<rparr> empty_scan) (\<lambda>st (probe, _).
       case probe of
         FetchedStatus status \<Rightarrow> (st, storage_status status)
       | FetchedRange cov body \<Rightarrow> download_window U H E (asset_drop st body) d w (co_total cov))"

definition download_admitted :: "'u url_lib \<Rightarrow> http_client \<Rightarrow> string \<Rightarrow> window \<Rightarrow> (download_error, unit) result" where
  "download_admitted U c api_uri w =
     res_bind (ensure (hc_credential c \<noteq> None) DownloadDenied) (\<lambda>_.
     res_bind (ok_or DownloadDenied (hc_grant c)) (\<lambda>grant.
     res_bind (ensure (h_signed_download grant \<noteq> None) DownloadDenied) (\<lambda>_.
       ensure (\<not> (window_length w = 0 \<or> window_length w > WINDOW_BYTES \<or> \<not> api_route U api_uri)) DownloadDenied)))"

definition storage_destination ::
  "'u url_lib \<Rightarrow> http_lib \<Rightarrow> client_lib \<Rightarrow> 'u download_env \<Rightarrow> http_client \<Rightarrow> header list \<Rightarrow> (download_error, 'u destination) result" where
  "storage_destination U H L E c headers =
     res_bind (location U headers) (\<lambda>uri.
     res_bind (ok_or DownloadDenied (hc_grant c)) (\<lambda>grant.
     res_bind (ok_or RedirectRefused (url_host_str U uri)) (\<lambda>host.
       destination_new U H L E uri (storage_grant host grant) ((hc_ceilings c)\<lparr>ce_non_public_https := []\<rparr>) (hc_deadline c))))"

definition signed_download_checked ::
  "'u url_lib \<Rightarrow> redact_lib \<Rightarrow> http_lib \<Rightarrow> client_lib \<Rightarrow> 'u download_env \<Rightarrow> stream_state \<Rightarrow> string \<Rightarrow> window
    \<Rightarrow> stream_state \<times> (download_error, download_response) result" where
  "signed_download_checked U X H L E st api_uri w =
     (case st of (c, b) \<Rightarrow>
        state_bind ((c\<lparr>hc_attempted := True\<rparr>, b), download_admitted U c api_uri w) (\<lambda>(c, b) _.
        state_bind (case signed_api_request U X H L (dn_api E) (dn_net E) c api_uri of (c, r) \<Rightarrow> ((c, b), r)) (\<lambda>(c, b) api.
        if rsp_status api \<noteq> 302 then ((c, b), Inr (ApiAnswer api))
        else state_bind ((c, b), storage_destination U H L E c (rsp_headers api)) (\<lambda>st d. download_storage U H E st d w))))"

definition signed_download ::
  "'u url_lib \<Rightarrow> redact_lib \<Rightarrow> http_lib \<Rightarrow> client_lib \<Rightarrow> 'u download_env \<Rightarrow> stream_state \<Rightarrow> string \<Rightarrow> window
    \<Rightarrow> stream_state \<times> (download_error, download_response) result" where
  "signed_download U X H L E st api_uri w =
     (case signed_download_checked U X H L E st api_uri w of
        ((c, b), Inr r) \<Rightarrow> ((c, b), Inr r)
      | ((c, b), Inl e) \<Rightarrow>
          ((c\<lparr>hc_violation := (case download_violation e of Some v \<Rightarrow> Some v | None \<Rightarrow> hc_violation c)\<rparr>, b), Inl e))"

section \<open>What is fetched\<close>

text \<open>The patterns of a location are scanned for as the secrets of a credential are.\<close>

definition pattern_guard :: "string list \<Rightarrow> bound_credential" where
  "pattern_guard patterns =
     \<lparr>bc_header_value = [], bc_companion_header = None, bc_destinations = [], bc_secret_binding = None,
      bc_echo_values = patterns\<rparr>"

lemma foldl_max_pred: "foldl max (a - 1) (map (\<lambda>x. x - 1) xs) = foldl max a xs - (1::nat)"
proof (induction xs arbitrary: a)
  case (Cons x xs)
  have "max (a - 1) (x - 1) = max a x - 1" by (auto simp: max_def)
  with Cons [of "max a x"] show ?case by simp
qed simp

lemma pattern_overlap_echo: "echo_overlap (pattern_guard patterns) = pattern_overlap patterns"
  using foldl_max_pred [of 0 "map length patterns"]
  by (simp add: echo_overlap_def pattern_guard_def pattern_overlap_def saturating_sub_def comp_def)

lemma scan_location_pieces:
  "scan_location patterns window bytes = Inr w \<Longrightarrow>
     scan_pieces (pattern_guard patterns) (pattern_overlap patterns) window [bytes] = Some w"
  by (auto simp: scan_location_def scan_stream_chunk_def pattern_guard_def Let_def saturating_sub_def min_def split: if_splits)

lemma scan_credential_pieces:
  "scan_credential c window bytes = Inr w \<Longrightarrow> hc_credential c = Some k \<Longrightarrow> scan_pieces k (echo_overlap k) window [bytes] = Some w"
  by (auto simp: scan_credential_def split: prod.splits option.splits)

text \<open>A scan that went over pieces without finding anything.\<close>

definition scanned :: "string list \<Rightarrow> bound_credential option \<Rightarrow> download_scan \<Rightarrow> string list \<Rightarrow> download_scan \<Rightarrow> bool" where
  "scanned patterns credential scan pieces scan' \<longleftrightarrow>
     scan_pieces (pattern_guard patterns) (pattern_overlap patterns) (ds_location scan) pieces = Some (ds_location scan')
     \<and> (\<forall>k. credential = Some k \<longrightarrow> scan_pieces k (echo_overlap k) (ds_credential scan) pieces = Some (ds_credential scan'))"

lemma scanned_append: "scanned ps k a xs b \<Longrightarrow> scanned ps k b ys c \<Longrightarrow> scanned ps k a (xs @ ys) c"
  by (auto simp: scanned_def scan_pieces_append)

lemma scanned_Nil [simp]: "scanned ps k a [] a"
  by (simp add: scanned_def)

lemma as_download_ok [simp]: "as_download m = (st, Inr x) \<longleftrightarrow> m = (st, Inr x)"
  by (cases m) (auto simp: as_download_def map_err_def split: sum.splits)

lemma storage_pieces_ok:
  assumes "storage_pieces patterns D (c, b) s scan pieces = ((c', b'), Inr (s', scan'))"
  shows "c' = c \<and> so_written s' = so_written s @ concat pieces \<and> scanned patterns (hc_credential c) scan pieces scan'"
  using assms
proof (induction pieces arbitrary: b s scan)
  case (Cons bytes pieces)
  then obtain l k d s1 where f: "scan_location patterns (ds_location scan) bytes = Inr l"
    "scan_credential c (ds_credential scan) bytes = Inr k" "spool_write D b s bytes = (d, Inr s1)"
    "storage_pieces patterns D (c, d) s1 \<lparr>ds_location = l, ds_credential = k\<rparr> pieces = ((c', b'), Inr (s', scan'))"
    by (auto simp: res_simps on_disk_ok)
  have "scanned patterns (hc_credential c) scan [bytes] \<lparr>ds_location = l, ds_credential = k\<rparr>"
    using scan_location_pieces [OF f(1)] scan_credential_pieces [OF f(2)] by (simp add: scanned_def)
  with Cons.IH [OF f(4)] spool_write_ok [OF f(3)] show ?case
    using scanned_append [of patterns "hc_credential c" scan "[bytes]"] by auto
qed auto

definition event_chunk :: "storage_event \<Rightarrow> string" where
  "event_chunk e = (case e of StorageChunk chunk \<Rightarrow> chunk | _ \<Rightarrow> [])"

definition storage_text :: "storage_event list \<Rightarrow> string" where
  "storage_text events = concat (map event_chunk events)"

lemma count_storage_ok:
  "count_storage maximum expected n c chunk = (c', Inr n') \<Longrightarrow>
     n' = n + length chunk \<and> same_account c c'"
  by (auto simp: count_storage_def res_simps Let_def update_last_evidence_def split: if_splits)

lemma storage_chunks_ok:
  assumes "storage_chunks patterns D maximum expected (c, b) n s scan events = ((c', b'), Inr (n', s', scan'))"
  shows "same_account c c' \<and> n' = n + length (storage_text events) \<and> so_written s' = so_written s @ storage_text events
    \<and> (\<exists>pieces. concat pieces = storage_text events \<and> scanned patterns (hc_credential c) scan pieces scan')"
  using assms
proof (induction events arbitrary: c b n s scan)
  case Nil
  then show ?case by (auto simp: storage_text_def intro: exI [of _ "[]"])
next
  case (Cons event events)
  then obtain chunk c1 b1 n1 c2 b2 s2 scan2 where f: "event = StorageChunk chunk"
    "count_storage maximum expected n c chunk = (c1, Inr n1)"
    "storage_pieces patterns D (c1, b1) s scan (chunks_of CHUNK_BYTES chunk) = ((c2, b2), Inr (s2, scan2))"
    "storage_chunks patterns D maximum expected (c2, b2) n1 s2 scan2 events = ((c', b'), Inr (n', s', scan'))"
    by (auto simp: res_simps storage_event_text_def split: storage_event.splits prod.splits)
  note p = storage_pieces_ok [OF f(3)] and n = count_storage_ok [OF f(2)]
  then have k: "hc_credential c2 = hc_credential c" by (simp add: same_account_def)
  from Cons.IH [OF f(4)] obtain pieces where i: "same_account c2 c'" "n' = n1 + length (storage_text events)"
    "so_written s' = so_written s2 @ storage_text events" "concat pieces = storage_text events"
    "scanned patterns (hc_credential c) scan2 pieces scan'"
    unfolding k by blast
  have t: "storage_text (event # events) = chunk @ storage_text events" by (simp add: storage_text_def event_chunk_def f(1))
  have "scanned patterns (hc_credential c) scan (chunks_of CHUNK_BYTES chunk @ pieces) scan'"
    using scanned_append [OF _ i(5)] p n by (simp add: same_account_def)
  then show ?case unfolding t
    using p n i(1-4) same_account_trans [of c c1 c'] by (intro conjI exI [of _ "chunks_of CHUNK_BYTES chunk @ pieces"]) auto
qed

lemma read_storage_ok:
  assumes "read_storage U D (c, b) r d cov scan = ((c', b'), Inr (made, scan'))"
  shows "same_account c c'" "af_content made = storage_text (sy_chunks r)"
    "\<exists>pieces. concat pieces = af_content made \<and> scanned (location_patterns U d) (hc_credential c) scan pieces scan'"
proof -
  from assms obtain maximum expected b1 c2 b2 s n where f:
    "storage_chunks (location_patterns U d) D maximum expected (c, b1) 0 \<lparr>so_reserved = 0, so_written = []\<rparr> scan (sy_chunks r)
       = ((c2, b2), Inr (n, s, scan'))" "c' = c2" "af_content made = so_written s"
    by (auto simp: read_storage_def res_simps on_disk_ok spool_allocate_def spool_finish_def Let_def split: option.splits prod.splits)
  from storage_chunks_ok [OF f(1)] f(2,3) show "same_account c c'" "af_content made = storage_text (sy_chunks r)"
    "\<exists>pieces. concat pieces = af_content made \<and> scanned (location_patterns U d) (hc_credential c) scan pieces scan'"
    by simp_all
qed

lemma range_number_bound: "range_number v = Some n \<Longrightarrow> n \<le> u64_max"
  by (auto simp: range_number_def parse_u64_def Let_def split: if_splits list.splits)

lemma content_range_ok:
  "content_range H headers = Inr cov \<Longrightarrow> co_start cov < co_end_exclusive cov \<and> co_end_exclusive cov \<le> co_total cov \<and> co_total cov \<le> u64_max"
  by (auto simp: content_range_def ok_or_def Option.bind_eq_Some_conv range_number_bound split: list.splits option.splits if_splits prod.splits)

lemma storage_get_ok:
  assumes "storage_get E c d start stop = (c', Inr r)"
  shows "hc_credential c' = hc_credential c" "hc_grant c' = hc_grant c" "\<exists>i range. dn_storage E i d range = StorageReplied r"
proof -
  note unfold = storage_get_def storage_sent_def storage_head_def update_last_evidence_def update_evidence_def
  show "hc_credential c' = hc_credential c" "hc_grant c' = hc_grant c" "\<exists>i range. dn_storage E i d range = StorageReplied r"
    using assms by (auto simp: unfold res_simps Let_def split: storage_outcome.splits if_splits)
qed

text \<open>A storage that serves a log: a part it announces is that part of the log.\<close>

definition serves :: "http_lib \<Rightarrow> 'u download_env \<Rightarrow> string \<Rightarrow> bool" where
  "serves H E log \<longleftrightarrow>
     (\<forall>i d range r cov. dn_storage E i d range = StorageReplied r \<and> sy_status r = 206 \<and> content_range H (sy_headers r) = Inr cov \<longrightarrow>
        co_total cov = length log \<and> storage_text (sy_chunks r) = bytes_between (co_start cov) (co_end_exclusive cov) log)"

lemma fetch_storage_ok:
  assumes "fetch_storage U H E (c, b) d expected scan = ((c', b'), Inr (FetchedRange cov body, scan'))" "serves H E log"
  shows "hc_credential c' = hc_credential c" "co_start cov = co_start expected" "co_end_exclusive cov = co_end_exclusive expected"
    "co_total cov = length log" "length log \<le> u64_max" "co_end_exclusive cov \<le> length log"
    "af_content body = bytes_between (co_start expected) (co_end_exclusive expected) log"
    "\<exists>pieces. concat pieces = af_content body \<and> scanned (location_patterns U d) (hc_credential c) scan pieces scan'"
proof -
  from assms(1) obtain c1 b1 r D where f: "storage_get E c d (co_start expected) (co_end_exclusive expected - 1) = (c1, Inr r)"
    "sy_status r = 206" "content_range H (sy_headers r) = Inr cov"
    "co_start cov = co_start expected" "co_end_exclusive cov = co_end_exclusive expected"
    "read_storage U D (c1, b1) r d cov scan = ((c', b'), Inr (body, scan'))"
    by (auto simp: fetch_storage_def res_simps split: prod.splits if_splits)
  note g = storage_get_ok [OF f(1)] and r = read_storage_ok [OF f(6)] and v = content_range_ok [OF f(3)]
  from g(3) assms(2) f(2,3) have log: "co_total cov = length log" "storage_text (sy_chunks r) = bytes_between (co_start cov) (co_end_exclusive cov) log"
    unfolding serves_def by blast+
  show "hc_credential c' = hc_credential c" using g(1) r(1) by (simp add: same_account_def)
  show "co_start cov = co_start expected" "co_end_exclusive cov = co_end_exclusive expected" by (fact f)+
  show "co_total cov = length log" "length log \<le> u64_max" "co_end_exclusive cov \<le> length log" using log(1) v by simp_all
  show "af_content body = bytes_between (co_start expected) (co_end_exclusive expected) log" using r(2) log(2) f(4,5) by simp
  show "\<exists>pieces. concat pieces = af_content body \<and> scanned (location_patterns U d) (hc_credential c) scan pieces scan'"
    using r(3) g(1) by simp
qed

lemma between_append: "i \<le> j \<Longrightarrow> j \<le> k \<Longrightarrow> bytes_between i j s @ bytes_between j k s = bytes_between i k s"
proof -
  assume a: "i \<le> j" "j \<le> k"
  then have "take ((j - i) + (k - j)) (drop i s) = take (j - i) (drop i s) @ take (k - j) (drop (j - i) (drop i s))" by (rule_tac take_add)
  with a show ?thesis by (simp add: bytes_between_def)
qed

lemma between_length [simp]: "j \<le> length s \<Longrightarrow> length (bytes_between i j s) = j - i"
  by (simp add: bytes_between_def)

lemma keep_visible_ok:
  assumes "keep_visible E start stop (c, b) s cov body = ((c', b'), Inr s')"
    and "af_content body = bytes_between (co_start cov) (co_end_exclusive cov) log"
  shows "c' = c" "so_written s' = so_written s @ bytes_between (max start (co_start cov)) (min stop (co_end_exclusive cov)) log"
proof -
  let ?i = "max start (co_start cov)" and ?j = "min stop (co_end_exclusive cov)"
  show "c' = c"
    using assms(1) by (auto simp: keep_visible_def Let_def asset_drop_def res_simps on_disk_ok split: if_splits)
  show "so_written s' = so_written s @ bytes_between ?i ?j log"
  proof (cases "?i < ?j")
    case True
    then obtain d bytes where f: "asset_read (dn_read E (length (hc_evidence c))) body (?i - co_start cov) (?j - ?i) = Inr bytes"
      "spool_write (dn_output E) d s bytes = (b', Inr s')"
      using assms(1) by (auto simp: keep_visible_def Let_def asset_drop_def res_simps on_disk_ok)
    have "bytes = take (?j - ?i) (drop (?i - co_start cov) (af_content body))"
      using f(1) by (auto simp: asset_read_def split: if_splits option.splits)
    also have "\<dots> = bytes_between ?i ?j log"
      unfolding assms(2) by (auto simp: bytes_between_def drop_take min_def max_def)
    finally show ?thesis using spool_write_ok [OF f(2)] by simp
  next
    case False
    with assms(1) show ?thesis by (auto simp: keep_visible_def Let_def bytes_between_def)
  qed
qed

section \<open>The window is returned, and nothing secret shows in it\<close>

text \<open>A scan that has gone over a text and found nothing.\<close>

definition scan_at :: "string list \<Rightarrow> bound_credential option \<Rightarrow> download_scan \<Rightarrow> string \<Rightarrow> bool" where
  "scan_at patterns credential scan old \<longleftrightarrow>
     ds_location scan = window_of (pattern_overlap patterns) old \<and> \<not> echoes (pattern_guard patterns) old
     \<and> (\<forall>k. credential = Some k \<longrightarrow> ds_credential scan = window_of (echo_overlap k) old \<and> \<not> echoes k old)"

lemma scan_at_empty: "scan_at patterns credential empty_scan []"
  by (simp add: scan_at_def empty_scan_def window_of_def echoes_def)

lemma scan_at_step:
  assumes "scan_at patterns credential scan old" "scanned patterns credential scan pieces scan'"
  shows "scan_at patterns credential scan' (old @ concat pieces)"
proof -
  have step: "w = window_of (echo_overlap k) (old @ concat pieces) \<and> \<not> echoes k (old @ concat pieces)"
    if "\<not> echoes k old" "scan_pieces k (echo_overlap k) (window_of (echo_overlap k) old) pieces = Some w" for k w
    using that scan_pieces_from [OF that(1), of pieces] by (simp split: if_splits)
  show ?thesis
    using assms step [of "pattern_guard patterns"] unfolding scan_at_def scanned_def pattern_overlap_echo by (auto dest: step)
qed

lemma between_visible:
  assumes "cursor \<le> e"
  shows "bytes_between start (max start (min stop cursor)) log @ bytes_between (max start cursor) (min stop e) log
    = bytes_between start (max start (min stop e)) log"
proof -
  consider "cursor \<le> start" | "start < cursor" "cursor < stop" | "start < cursor" "stop \<le> cursor" by linarith
  then show ?thesis
  proof cases
    case 1
    then have "max start (min stop cursor) = start" "max start cursor = start" by (auto simp: max_def min_def)
    then show ?thesis by (auto simp: bytes_between_def max_def)
  next
    case 2
    then have m: "max start (min stop cursor) = cursor" "max start cursor = cursor" "cursor \<le> min stop e"
        "max start (min stop e) = min stop e" using assms by (auto simp: max_def min_def)
    show ?thesis unfolding m using 2 m(3) by (intro between_append) auto
  next
    case 3
    then have "min stop e = stop" "min stop cursor = stop" "max start cursor = cursor" using assms by auto
    with 3 show ?thesis by (simp add: bytes_between_def)
  qed
qed

lemma download_loop_step:
  assumes "download_loop U H E d start stop whole st s scan ((cursor, e) # rest) = (st', Inr (Inr s'))"
  obtains c1 b1 cov body scan1 c2 b2 s2 where
    "fetch_storage U H E st d \<lparr>co_start = cursor, co_end_exclusive = e, co_total = whole\<rparr> scan = ((c1, b1), Inr (FetchedRange cov body, scan1))"
    "keep_visible E start stop (c1, b1) s cov body = ((c2, b2), Inr s2)"
    "download_loop U H E d start stop whole (c2, b2) s2 scan1 rest = (st', Inr (Inr s'))"
proof -
  let ?x = "\<lparr>co_start = cursor, co_end_exclusive = e, co_total = whole\<rparr>"
  from assms obtain c1 b1 fetched scan1 where f: "fetch_storage U H E st d ?x scan = ((c1, b1), Inr (fetched, scan1))"
    by (auto simp: res_simps)
  show thesis
  proof (cases fetched)
    case (FetchedRange cov body)
    with assms f show thesis using that by (auto simp: res_simps)
  next
    case (FetchedStatus status)
    with assms f show thesis by (simp add: or_drop_def)
  qed
qed

lemma download_loop_ok:
  assumes "download_loop U H E d start stop whole (c, b) s scan (segments cursor limit) = ((c', b'), Inr (Inr s'))" "serves H E log"
    and "limit \<le> length log" "length log \<le> u64_max" "first \<le> cursor" "cursor \<le> limit"
    and "scan_at (location_patterns U d) (hc_credential c) scan (bytes_between first cursor log)"
    and "so_written s = bytes_between start (max start (min stop cursor)) log"
  shows "so_written s' = bytes_between start (max start (min stop limit)) log \<and> hc_credential c' = hc_credential c
    \<and> (\<exists>scan'. scan_at (location_patterns U d) (hc_credential c) scan' (bytes_between first limit log))"
  using assms
proof (induction cursor limit arbitrary: c b s scan rule: segments.induct)
  case (1 cursor limit)
  show ?case
  proof (cases "cursor < limit")
    case True
    let ?e = "min (saturating_add cursor WINDOW_BYTES) limit"
    have u: "limit \<le> u64_max" using "1.prems" by simp
    then have e: "cursor < ?e" using True by (auto simp: saturating_add_def WINDOW_BYTES_def)
    have seg: "segments cursor limit = (cursor, ?e) # segments ?e limit"
      using True u by (subst segments.simps) (simp add: Let_def)
    from "1.prems"(1) obtain c1 b1 cov body scan1 c2 b2 s2 where f:
      "fetch_storage U H E (c, b) d \<lparr>co_start = cursor, co_end_exclusive = ?e, co_total = whole\<rparr> scan
         = ((c1, b1), Inr (FetchedRange cov body, scan1))"
      "keep_visible E start stop (c1, b1) s cov body = ((c2, b2), Inr s2)"
      "download_loop U H E d start stop whole (c2, b2) s2 scan1 (segments ?e limit) = ((c', b'), Inr (Inr s'))"
      unfolding seg by (rule download_loop_step)
    note g = fetch_storage_ok [OF f(1) "1.prems"(2), simplified]
    have v: "c2 = c1" "so_written s2 = so_written s @ bytes_between (max start cursor) (min stop ?e) log"
      using keep_visible_ok [OF f(2), of log] g(2,3,7) by simp_all
    from g(8) obtain pieces where p: "concat pieces = bytes_between cursor ?e log"
      "scanned (location_patterns U d) (hc_credential c) scan pieces scan1"
      using g(7) by auto
    have sc: "scan_at (location_patterns U d) (hc_credential c2) scan1 (bytes_between first ?e log)"
      using scan_at_step [OF "1.prems"(7) p(2)] between_append [of first cursor ?e log] "1.prems"(5) e g(1) v(1) p(1) by simp
    have w: "so_written s2 = bytes_between start (max start (min stop ?e)) log"
      using v(2) "1.prems"(8) between_visible [of cursor ?e start stop log] e by simp
    have "cursor < limit \<and> limit \<le> u64_max" "first \<le> ?e" "?e \<le> limit" using True u "1.prems"(5) e by simp_all
    from "1.IH" [OF this(1) refl f(3) "1.prems"(2-4) this(2,3) sc w] show ?thesis using g(1) v(1) by simp
  next
    case False
    then have "segments cursor limit = []" "cursor = limit" using "1.prems"(6) by (simp_all add: segments.simps)
    with "1.prems" show ?thesis by auto
  qed
qed

text \<open>An occurrence of a secret that touches the window lies within what was scanned.\<close>

lemma clean_around:
  assumes "\<not> sublist secret (bytes_between first limit log)" "secret \<noteq> []" "length secret \<le> Suc overlap" "prefix secret (drop i log)"
    and "first = start - overlap" "limit = min (stop + overlap) (length log)"
  shows "i + length secret \<le> start \<or> stop \<le> i"
proof (rule ccontr)
  assume a: "\<not> (i + length secret \<le> start \<or> stop \<le> i)"
  obtain rest where r: "drop i log = secret @ rest" using assms(4) by (auto simp: prefix_def)
  have "length secret \<le> length log - i" using arg_cong [OF r, of length] by simp
  moreover have "0 < length secret" using assms(2) by simp
  ultimately have "i + length secret \<le> length log" by linarith
  then have b: "first \<le> i" "i + length secret \<le> limit" using a assms(3,5,6) by auto
  have "bytes_between first limit log = bytes_between first i log @ bytes_between i (i + length secret) log @ bytes_between (i + length secret) limit log"
    using b between_append [of i "i + length secret" limit log] between_append [of first i limit log] by simp
  moreover have "bytes_between i (i + length secret) log = secret" by (simp add: bytes_between_def r)
  ultimately show False using assms(1) by (metis sublist_appendI)
qed

lemma download_window_loop:
  assumes "download_window U H E (c, b) d w (length log) = (st', Inr (StorageAnswer status (Some cov) (Some body)))"
    and "length log \<le> u64_max"
  defines "start \<equiv> window_start w (length log)"
  defines "stop \<equiv> min (start + window_length w) (length log)"
  obtains b1 c2 b2 s where "start < length log"
    "download_loop U H E d start stop (length log) (c, b1) \<lparr>so_reserved = 0, so_written = []\<rparr> empty_scan
       (segments (start - download_overlap U c d) (min (stop + download_overlap U c d) (length log))) = ((c2, b2), Inr (Inr s))"
    "af_content body = so_written s" "status = 206" "cov = \<lparr>co_start = start, co_end_exclusive = stop, co_total = length log\<rparr>"
proof -
  let ?ov = "download_overlap U c d"
  let ?cov = "\<lparr>co_start = start, co_end_exclusive = stop, co_total = length log\<rparr>"
  have lim: "min (saturating_add stop ?ov) (length log) = min (stop + ?ov) (length log)" "saturating_sub start ?ov = start - ?ov"
    using assms(2) by (auto simp: saturating_add_def saturating_sub_def)
  from assms(1) obtain b1 c2 b2 fetched where r: "start < length log"
    "download_loop U H E d start stop (length log) (c, b1) \<lparr>so_reserved = 0, so_written = []\<rparr> empty_scan
       (segments (start - ?ov) (min (stop + ?ov) (length log))) = ((c2, b2), Inr fetched)"
    "(case fetched of
        Inl status \<Rightarrow> ((c2, b2), storage_status status)
      | Inr s \<Rightarrow>
          state_bind (as_download (on_disk c2 (spool_finish (dn_output E) b2 s))) (\<lambda>st body.
            (st, Inr (StorageAnswer 206 (Some ?cov) (Some body))))) = (st', Inr (StorageAnswer status (Some cov) (Some body)))"
    unfolding download_window_def Let_def start_def [symmetric]
    by (auto simp: res_simps on_disk_ok spool_allocate_def stop_def [symmetric] lim split: option.splits if_splits)
  from r(3) obtain s where "fetched = Inr s" by (cases fetched) (auto simp: storage_status_def split: if_splits)
  with r show thesis
    using that [of b1 c2 b2 s] by (auto simp: res_simps on_disk_def spool_finish_def split: option.splits prod.splits)
qed

lemma download_window_ok:
  assumes "download_window U H E (c, b) d w (length log) = (st', Inr (StorageAnswer status (Some cov) (Some body)))" "serves H E log"
    and "length log \<le> u64_max" "\<forall>q. url_query U (de_uri d) = Some q \<longrightarrow> length q \<le> length (url_as_str U (de_uri d))"
  defines "start \<equiv> window_start w (length log)"
  defines "stop \<equiv> min (start + window_length w) (length log)"
  shows "status = 206" "cov = \<lparr>co_start = start, co_end_exclusive = stop, co_total = length log\<rparr>"
    "af_content body = bytes_between start stop log"
    "secret \<in> set (location_patterns U d) \<or> (\<exists>k. hc_credential c = Some k \<and> secret \<in> set (bc_echo_values k)) \<Longrightarrow>
       secret \<noteq> [] \<Longrightarrow> prefix secret (drop i log) \<Longrightarrow> i + length secret \<le> start \<or> stop \<le> i"
proof -
  let ?ov = "download_overlap U c d"
  let ?first = "start - ?ov" and ?limit = "min (stop + ?ov) (length log)"
  obtain b1 c2 b2 s where f: "start < length log"
    "download_loop U H E d start stop (length log) (c, b1) \<lparr>so_reserved = 0, so_written = []\<rparr> empty_scan (segments ?first ?limit)
       = ((c2, b2), Inr (Inr s))" "af_content body = so_written s" "status = 206"
    "cov = \<lparr>co_start = start, co_end_exclusive = stop, co_total = length log\<rparr>"
    unfolding stop_def start_def by (rule download_window_loop [OF assms(1,3)])
  have le: "start \<le> stop" "stop \<le> ?limit" "?first \<le> ?limit" using f(1) by (auto simp: stop_def)
  have "scan_at (location_patterns U d) (hc_credential c) empty_scan (bytes_between ?first ?first log)"
    using scan_at_empty by (simp add: bytes_between_def)
  from download_loop_ok [OF f(2) assms(2) _ assms(3) _ le(3) this]
  have l: "so_written s = bytes_between start (max start (min stop ?limit)) log"
    "\<exists>scan'. scan_at (location_patterns U d) (hc_credential c) scan' (bytes_between ?first ?limit log)"
    by (auto simp: bytes_between_def)
  show "status = 206" "cov = \<lparr>co_start = start, co_end_exclusive = stop, co_total = length log\<rparr>" by (fact f)+
  show "af_content body = bytes_between start stop log" using f(3) l(1) le(1,2) by (simp add: min_absorb1 max_absorb2)
  assume s: "secret \<in> set (location_patterns U d) \<or> (\<exists>k. hc_credential c = Some k \<and> secret \<in> set (bc_echo_values k))"
    "secret \<noteq> []" "prefix secret (drop i log)"
  have "\<not> sublist secret (bytes_between ?first ?limit log)"
    using l(2) s(1,2) by (auto simp: scan_at_def echoes_def pattern_guard_def)
  moreover have "length secret \<le> Suc ?ov"
    using s(1) assms(4) echo_overlap_covers [of secret]
    by (cases "url_query U (de_uri d)") (force simp: location_patterns_def download_overlap_def client_overlap_def saturating_sub_def)+
  ultimately show "i + length secret \<le> start \<or> stop \<le> i" using clean_around [of secret ?first ?limit log ?ov i start stop] s(2,3) by simp
qed

lemma read_redacted_account: "same_account c (fst (read_redacted X grant index maximum c n redactor body events))"
proof (induction events arbitrary: c n redactor body)
  case (Cons event events)
  show ?case
  proof (cases event)
    case (Inr chunk)
    have go: "same_account c (fst (read_redacted X grant index maximum d m r out events))" if "same_account c d" for d m r out
      using that Cons.IH same_account_trans by blast
    show ?thesis
      unfolding read_redacted.simps Inr sum.case
    proof (rule state_bind_state, rule count_chunk_account)
      fix d m assume "same_account c d"
      then show "same_account c (fst (case redactor of
             None \<Rightarrow> read_redacted X grant index maximum d m None (body @ chunk) events
           | Some r \<Rightarrow> state_bind (d, redactor_push_all X maximum r body (chunks_of CHUNK_BYTES chunk)) (\<lambda>c (r, body).
                 read_redacted X grant index maximum c m (Some r) body events)))"
        by (cases redactor) (auto simp: go state_bind_def split: sum.split)
    qed
  qed simp
qed simp

lemma execute_signed_account: "same_account c (fst (execute_signed X H L env net c p grant index))"
  unfolding execute_signed_def Let_def
  apply (rule state_bind_pure, simp)
  apply (rule state_bind_state, rule pinned_client_account)
  apply (rule state_bind_pure, assumption)
  apply (rule state_bind_state, erule same_account_trans, rule accept_head_account)
  apply (rule state_bind_pure, assumption)
  apply (clarify, rule state_bind_pure, assumption)
  apply (rule state_bind_pure, assumption)
  apply (rule state_bind_state, erule same_account_trans, rule read_redacted_account)
  apply simp
  done

lemma signed_api_request_ok:
  assumes "signed_api_request U X H L env net c uri = (c', Inr r)"
  shows "hc_credential c' = hc_credential c"
proof -
  from assms obtain d e p grant index where f:
    "authorize_request U H env c
       \<lparr>hr_method = ''GET'', hr_uri = uri, hr_headers = [\<lparr>hd_name = ''user-agent'', hd_value = ''dekopon''\<rparr>], hr_body = []\<rparr> None
       = (d, Inr (p, grant, index))"
    "execute_signed X H L env net d p grant index = (e, Inr r)" "c' = record_request e (Inr r :: (host_error, response) result)"
    by (auto simp: signed_api_request_def res_simps map_err_def split: prod.splits if_splits sum.splits)
  have "hc_credential c' = hc_credential e" unfolding f(3) by (simp add: record_request_def)
  moreover have "hc_credential e = hc_credential d" using execute_signed_account [of d X H L env net p grant index] f(2) by (simp add: same_account_def)
  ultimately show ?thesis using authorize_keeps_policy(2) [OF f(1)] by simp
qed

lemma download_storage_ok:
  assumes "download_storage U H E (c, b) d w = (st', Inr (StorageAnswer status (Some cov) (Some body)))"
    and "serves H E log" "\<forall>q. url_query U (de_uri d) = Some q \<longrightarrow> length q \<le> length (url_as_str U (de_uri d))"
  shows "status = 206 \<and> co_total cov = length log \<and> co_start cov = window_start w (length log)
    \<and> co_end_exclusive cov = min (co_start cov + window_length w) (length log)
    \<and> af_content body = bytes_between (co_start cov) (co_end_exclusive cov) log
    \<and> (\<forall>secret i. (secret \<in> set (location_patterns U d) \<or> (\<exists>k. hc_credential c = Some k \<and> secret \<in> set (bc_echo_values k)))
         \<and> secret \<noteq> [] \<and> prefix secret (drop i log) \<longrightarrow>
           i + length secret \<le> co_start cov \<or> co_end_exclusive cov \<le> i)"
proof -
  obtain c2 b2 probe scan where f: "fetch_storage U H E (c, b) d \<lparr>co_start = 0, co_end_exclusive = 1, co_total = 0\<rparr> empty_scan
      = ((c2, b2), Inr (probe, scan))"
    using assms(1) by (auto simp: download_storage_def res_simps split: prod.splits)
  with assms(1) obtain cov1 body1 where p: "probe = FetchedRange cov1 body1"
    by (cases probe) (auto simp: download_storage_def storage_status_def split: if_splits)
  note g = fetch_storage_ok [OF f [unfolded p] assms(2)]
  obtain c3 b3 where a: "asset_drop (c2, b2) body1 = (c3, b3)" "hc_credential c3 = hc_credential c"
    using g(1) by (auto simp: asset_drop_def)
  have "download_window U H E (c3, b3) d w (length log) = (st', Inr (StorageAnswer status (Some cov) (Some body)))"
    using assms(1) f p a(1) g(4) by (simp add: download_storage_def)
  note w = download_window_ok [OF this assms(2) g(5) assms(3), unfolded a(2)]
  have "\<forall>secret i. (secret \<in> set (location_patterns U d) \<or> (\<exists>k. hc_credential c = Some k \<and> secret \<in> set (bc_echo_values k)))
      \<and> secret \<noteq> [] \<and> prefix secret (drop i log) \<longrightarrow> i + length secret \<le> co_start cov \<or> co_end_exclusive cov \<le> i"
    using w(4) unfolding w(2) by auto
  with w(1,3) show ?thesis unfolding w(2) by auto
qed

text \<open>C36: When the storage serves a log, a download from it that returns a file returns exactly the window of
  the log that was asked for, within its end, and says so. Neither the signed location nor its query nor any
  secret of the credential shows in it, not even in part: no occurrence of them in the log, not even one that
  the window cuts, touches the window.\<close>

theorem downloaded_window_is_clean:
  assumes "download_storage U H E (c, b) d w = (st', Inr (StorageAnswer status (Some cov) (Some body)))"
    and "serves H E log" "\<forall>q. url_query U (de_uri d) = Some q \<longrightarrow> length q \<le> length (url_as_str U (de_uri d))"
  shows "status = 206 \<and> co_total cov = length log \<and> co_start cov = window_start w (length log)
    \<and> co_end_exclusive cov = min (co_start cov + window_length w) (length log)
    \<and> af_content body = bytes_between (co_start cov) (co_end_exclusive cov) log
    \<and> (\<forall>secret i. (secret \<in> set (location_patterns U d) \<or> (\<exists>k. hc_credential c = Some k \<and> secret \<in> set (bc_echo_values k)))
         \<and> secret \<noteq> [] \<and> prefix secret (drop i log) \<longrightarrow>
           i + length secret \<le> co_start cov \<or> co_end_exclusive cov \<le> i)"
  using assms by (rule download_storage_ok)

text \<open>The same of a whole signed download, which finds the destination first.\<close>

lemma signed_window_is_clean:
  assumes "signed_download U X H L E (c, b) api_uri w = (st', Inr (StorageAnswer status (Some cov) (Some body)))"
    and "serves H E log" "\<forall>u q. url_query U u = Some q \<longrightarrow> length q \<le> length (url_as_str U u)"
  shows "af_content body = bytes_between (co_start cov) (co_end_exclusive cov) log
    \<and> (\<exists>c1 headers d. storage_destination U H L E c1 headers = Inr d
        \<and> (\<forall>secret i. (secret \<in> set (location_patterns U d) \<or> (\<exists>k. hc_credential c = Some k \<and> secret \<in> set (bc_echo_values k)))
             \<and> secret \<noteq> [] \<and> prefix secret (drop i log) \<longrightarrow>
               i + length secret \<le> co_start cov \<or> co_end_exclusive cov \<le> i))"
proof -
  from assms(1) obtain c1 b1 api d where s:
    "signed_api_request U X H L (dn_api E) (dn_net E) (c\<lparr>hc_attempted := True\<rparr>) api_uri = (c1, Inr api)"
    "storage_destination U H L E c1 (rsp_headers api) = Inr d"
    "download_storage U H E (c1, b1) d w = (st', Inr (StorageAnswer status (Some cov) (Some body)))"
    by (auto simp: signed_download_def signed_download_checked_def res_simps split: prod.splits sum.splits if_splits)
  have k: "hc_credential c1 = hc_credential c" using signed_api_request_ok [OF s(1)] by simp
  have "\<forall>q. url_query U (de_uri d) = Some q \<longrightarrow> length q \<le> length (url_as_str U (de_uri d))" using assms(3) by blast
  from download_storage_ok [OF s(3) assms(2) this, unfolded k] s(2) show ?thesis by blast
qed

definition log_reply :: "string \<Rightarrow> string list \<Rightarrow> storage_reply" where
  "log_reply covered chunks =
     \<lparr>sy_status = 206, sy_headers = [(''content-range'', covered)], sy_content_length = None,
      sy_chunks = map StorageChunk chunks\<rparr>"

definition log_env :: "plain_url download_env" where
  "log_env =
     \<lparr>dn_api = sample_env, dn_net = (\<lambda>_ _. TransportElapsed), dn_now = 0, dn_created = 0, dn_lookup = sample_env,
      dn_storage = (\<lambda>_ _ asked. StorageReplied (if asked = ''bytes=0-0'' then log_reply ''bytes 0-0/3'' [''x'']
        else log_reply ''bytes 0-2/3'' [''xy'', ''z''])),
      dn_disk = (\<lambda>_. working_disk), dn_output = working_disk, dn_read = (\<lambda>_. None)\<rparr>"

definition log_destination :: "plain_url destination" where
  "log_destination = \<lparr>de_uri = sample_url, de_client = None, de_headers = [], de_authority = ''a.io:443'', de_request_bytes = 80\<rparr>"

lemma log_ranges:
  "content_range plain_http [(''content-range'', ''bytes 0-0/3'')] = Inr \<lparr>co_start = 0, co_end_exclusive = 1, co_total = 3\<rparr>"
  "content_range plain_http [(''content-range'', ''bytes 0-2/3'')] = Inr \<lparr>co_start = 0, co_end_exclusive = 3, co_total = 3\<rparr>"
  by (simp_all add: content_range_def header_get_all_def plain_http_def range_number_def parse_u64_def checked_add_def u64_max_def
      is_ascii_digit_def decimal_value_def digit_value_def Let_def)

lemma log_served: "serves plain_http log_env ''xyz''"
  by (auto simp: serves_def log_env_def log_reply_def log_ranges storage_text_def event_chunk_def bytes_between_def)

lemma log_shown: "show_nat 0 = ''0''" "show_nat 2 = ''2''"
  by code_simp+


lemma log_client:
  "hc_grant sample_client = Some plain_grant" "hc_calls sample_client = 0" "hc_evidence sample_client = []"
  "hc_credential sample_client = Some bot_credential" "hc_ceilings sample_client = default_ceilings"
  "h_max_requests plain_grant = 2" "h_max_request_bytes plain_grant = 4096"
  by (simp_all add: sample_client_def plain_grant_def sample_grant_def)

lemma log_patterns: "location_patterns sample_urls log_destination = [''a.io/api/{conversation.id}'', ''limit=5'']"
  by (simp add: location_patterns_def log_destination_def sample_urls_def plain_urls_def sample_url_def)

lemma log_scans:
  "scan_location [''a.io/api/{conversation.id}'', ''limit=5''] [] ''x'' = Inr ''x''"
  "scan_location [''a.io/api/{conversation.id}'', ''limit=5''] [] ''xy'' = Inr ''xy''"
  "scan_location [''a.io/api/{conversation.id}'', ''limit=5''] ''xy'' ''z'' = Inr ''xyz''"
  by (simp_all add: scan_location_def contains_bytes_def pattern_overlap_def saturating_sub_def Let_def)

lemma log_credential_scans:
  assumes "hc_credential c = Some bot_credential"
  shows "scan_credential c [] ''x'' = Inr ''x''" "scan_credential c [] ''xy'' = Inr ''xy''" "scan_credential c ''xy'' ''z'' = Inr ''yz''"
proof -
  have v: "bc_echo_values bot_credential = [''abc'']" by (simp add: bot_credential_def)
  show "scan_credential c [] ''x'' = Inr ''x''" "scan_credential c [] ''xy'' = Inr ''xy''" "scan_credential c ''xy'' ''z'' = Inr ''yz''"
    by (simp_all add: scan_credential_def assms scan_stream_chunk_def echo_overlap_def v contains_bytes_def upt_conv_Cons saturating_sub_def Let_def)
qed

lemma log_head:
  "response_head_bytes [(''content-range'', ''bytes 0-0/3'')] default_ceilings 4096 = Inr 44"
  "response_head_bytes [(''content-range'', ''bytes 0-2/3'')] default_ceilings 4096 = Inr 44"
  by (simp_all add: response_head_bytes_def head_within_def sample_limits ensure_def checked_add_def u64_max_def)

lemma log_segments: "segments 0 3 = [(0, 3)]"
  by (subst segments.simps, subst segments.simps) (simp add: saturating_add_def WINDOW_BYTES_def u64_max_def)

lemma log_downloaded:
  "\<exists>st'. download_storage sample_urls plain_http log_env (sample_client, \<lparr>ab_maximum = 9, ab_used = 2\<rparr>) log_destination (Tail 2)
    = (st', Inr (StorageAnswer 206 (Some \<lparr>co_start = 1, co_end_exclusive = 3, co_total = 3\<rparr>)
        (Some \<lparr>af_reserved = 2, af_content = ''yz''\<rparr>)))"
proof -
  note get = storage_get_def log_env_def log_shown ensure_def checked_add_def u64_max_def log_client
     storage_sent_def storage_head_def log_reply_def log_ranges log_head Let_def update_last_evidence_def update_evidence_def 
     sample_limits(1) map_err_def
  note read = read_storage_def check_storage_length_def header_get_all_def WINDOW_BYTES_def as_download_def on_disk_def
     spool_allocate_def working_disk_def spool_write_def budget_grow_def spool_finish_def count_storage_def storage_event_text_def
     CHUNK_BYTES_def or_drop_def empty_scan_def log_patterns log_scans log_credential_scans 
  let ?p = "fetch_storage sample_urls plain_http log_env (sample_client, \<lparr>ab_maximum = 9, ab_used = 2\<rparr>) log_destination
     \<lparr>co_start = 0, co_end_exclusive = 1, co_total = 0\<rparr> empty_scan"
  have de: "de_request_bytes log_destination = 80" "de_authority log_destination = ''a.io:443''" by (simp_all add: log_destination_def)
  obtain c1 scan where p: "?p = ((c1, \<lparr>ab_maximum = 9, ab_used = 3\<rparr>), Inr (FetchedRange \<lparr>co_start = 0, co_end_exclusive = 1, co_total = 3\<rparr>
       \<lparr>af_reserved = 1, af_content = ''x''\<rparr>, scan))" "hc_calls c1 = 1" "hc_grant c1 = Some plain_grant"
       "hc_ceilings c1 = default_ceilings" "hc_credential c1 = Some bot_credential"
    by (simp add: fetch_storage_def get read de)
  obtain c2 scan2 where q: "fetch_storage sample_urls plain_http log_env (c1, \<lparr>ab_maximum = 9, ab_used = 2\<rparr>) log_destination
     \<lparr>co_start = 0, co_end_exclusive = 3, co_total = 3\<rparr> empty_scan
     = ((c2, \<lparr>ab_maximum = 9, ab_used = 5\<rparr>), Inr (FetchedRange \<lparr>co_start = 0, co_end_exclusive = 3, co_total = 3\<rparr>
       \<lparr>af_reserved = 3, af_content = ''xyz''\<rparr>, scan2))"
    using p(2-5) by (simp add: fetch_storage_def get read de numeral_2_eq_2 [symmetric])
  have d: "asset_drop (c1, \<lparr>ab_maximum = 9, ab_used = 3\<rparr>) \<lparr>af_reserved = 1, af_content = ''x''\<rparr> = (c1, \<lparr>ab_maximum = 9, ab_used = 2\<rparr>)"
    by (simp add: asset_drop_def budget_release_def fetch_sub_def u64_max_def)
  have o: "download_overlap sample_urls c1 log_destination = 25"
    using p(5) by (simp add: download_overlap_def log_destination_def sample_urls_def plain_urls_def sample_url_def client_overlap_def
      echo_overlap_def bot_credential_def saturating_sub_def)
  have disk: "dn_output log_env = working_disk" "dn_read log_env = (\<lambda>_. None)" by (simp_all add: log_env_def)
  show ?thesis
    by (simp add: download_storage_def p(1) d download_window_def window_start_def window_length_def saturating_sub_def ensure_def
      checked_add_def u64_max_def o WINDOW_BYTES_def saturating_add_def log_segments q keep_visible_def Let_def
      asset_drop_def asset_read_def budget_release_def fetch_sub_def as_download_def on_disk_def spool_allocate_def spool_write_def spool_finish_def
      budget_grow_def disk working_disk_def or_drop_def CHUNK_BYTES_def del: One_nat_def)
qed

theorem downloaded_window_is_clean_witness:
  "\<exists>st' cov body. download_storage sample_urls plain_http log_env (sample_client, \<lparr>ab_maximum = 9, ab_used = 2\<rparr>) log_destination (Tail 2)
      = (st', Inr (StorageAnswer 206 (Some cov) (Some body)))
    \<and> af_content body = bytes_between (co_start cov) (co_end_exclusive cov) ''xyz'' \<and> af_content body = ''yz''
    \<and> (\<forall>i. prefix ''limit=5'' (drop i ''xyz'') \<longrightarrow> i + 7 \<le> co_start cov \<or> co_end_exclusive cov \<le> i)"
proof -
  let ?cov = "\<lparr>co_start = 1, co_end_exclusive = 3, co_total = 3\<rparr>" and ?body = "\<lparr>af_reserved = 2, af_content = ''yz''\<rparr>"
  obtain st' where s: "download_storage sample_urls plain_http log_env (sample_client, \<lparr>ab_maximum = 9, ab_used = 2\<rparr>) log_destination (Tail 2)
      = (st', Inr (StorageAnswer 206 (Some ?cov) (Some ?body)))"
    using log_downloaded by blast
  have "\<forall>q. url_query sample_urls (de_uri log_destination) = Some q \<longrightarrow> length q \<le> length (url_as_str sample_urls (de_uri log_destination))"
    by (simp add: log_destination_def sample_urls_def plain_urls_def sample_url_def)
  note f = downloaded_window_is_clean [OF s log_served this]
  have "''limit=5'' \<in> set (location_patterns sample_urls log_destination)" "length ''limit=5'' = 7"
    by (simp_all add: log_patterns)
  with f have "prefix ''limit=5'' (drop i ''xyz'') \<Longrightarrow> i + 7 \<le> co_start ?cov \<or> co_end_exclusive ?cov \<le> i" for i
    by (metis list.distinct(1))
  moreover have "af_content ?body = bytes_between (co_start ?cov) (co_end_exclusive ?cov) ''xyz''" using f by blast
  moreover have "af_content ?body = ''yz''" by simp
  ultimately show ?thesis using s by blast
qed

section \<open>A download leaves the budget and the account in order\<close>

lemma budget_holds_sum: "budget_holds b ((m + n) # out) \<longleftrightarrow> budget_holds b (m # n # out)"
  by (simp add: budget_holds_def add.assoc)

lemma settled_as_download [simp]: "settled out held (as_download m) \<longleftrightarrow> settled out held m"
  by (cases m; cases "snd m") (auto simp: as_download_def map_err_def)

lemma settled_or_drop_held:
  "settled (so_reserved s # out) held m \<Longrightarrow> settled out (\<lambda>x. held x + so_reserved s) (or_drop s m)"
  by (cases m; cases "fst m"; cases "snd m") (auto simp: or_drop_def drop_holds budget_holds_sum)

lemma settled_bind_held:
  assumes "settled out held m"
    "\<And>c b x. m = ((c, b), Inr x) \<Longrightarrow> budget_holds b (held x # out) \<Longrightarrow> settled out held' (f (c, b) x)"
  shows "settled out held' (state_bind m f)"
  using assms by (auto intro: settled_bind)

lemma storage_pieces_settled:
  assumes "budget_holds (snd st) (so_reserved s # out)"
  shows "settled out (\<lambda>(s, _). so_reserved s) (storage_pieces patterns D st s scan pieces)"
  using assms
proof (induction pieces arbitrary: st s scan)
  case (Cons bytes pieces)
  show ?case
    unfolding storage_pieces.simps
    by (rule settled_bind [OF settled_or_drop])
      (use Cons in \<open>auto split: prod.split intro!: settled_bind [OF settled_or_drop] settled_bind_held [where held = so_reserved] spool_write_settled\<close>)
qed simp

lemma storage_chunks_settled:
  assumes "budget_holds (snd st) (so_reserved s # out)"
  shows "settled out (\<lambda>(_, s, _). so_reserved s) (storage_chunks patterns D maximum expected st n s scan events)"
  using assms
proof (induction events arbitrary: st n s scan)
  case (Cons event events)
  show ?case
    unfolding storage_chunks.simps
    by (rule settled_bind [OF settled_or_drop])
      (use Cons in \<open>auto split: prod.split intro!: settled_bind [OF settled_or_drop] settled_bind [OF storage_pieces_settled]\<close>)
qed simp

lemma settled_pure:
  assumes "budget_holds (snd st) out" "\<And>x. r = Inr x \<Longrightarrow> settled out held (f st x)"
  shows "settled out held (state_bind (st, r) f)"
  using assms by (cases r) simp_all

lemma read_storage_settled:
  assumes "budget_holds (snd st) out"
  shows "settled out (\<lambda>(f, _). af_reserved f) (read_storage U D st r d cov scan)"
proof -
  have last: "settled out (\<lambda>(f, _). af_reserved f)
      (state_bind (as_download (on_disk c (spool_finish D b s))) (\<lambda>st made. (st, Inr (made, scan))))"
    if "budget_holds b (so_reserved s # out)" for c b s and scan :: download_scan
    by (rule settled_bind_held [where held = af_reserved]) (use that spool_finish_settled in auto)
  have body: "settled out (\<lambda>(f, _). af_reserved f)
      (state_bind (storage_chunks ps D maximum expected st 0 s scan (sy_chunks r)) (\<lambda>st (n, s, scan).
       state_bind (or_drop s (st, ensure (n = expected) DownloadIncomplete)) (\<lambda>(c, b) _.
       state_bind (as_download (on_disk c (spool_finish D b s))) (\<lambda>st made. (st, Inr (made, scan))))))"
    if "budget_holds (snd st) (so_reserved s # out)" for st s scan ps maximum expected
    by (rule settled_bind_held [OF storage_chunks_settled [OF that]])
      (auto split: prod.split intro!: settled_bind [OF settled_or_drop] last)
  show ?thesis
    unfolding read_storage_def Let_def
    by (rule settled_pure, rule assms, rule settled_pure, rule assms)
      (use assms in \<open>auto split: prod.split intro!: settled_bind_held [where held = so_reserved] spool_allocate_settled body\<close>)
qed

definition fetched_bytes :: "fetched_range \<Rightarrow> nat" where
  "fetched_bytes f = (case f of FetchedRange _ body \<Rightarrow> af_reserved body | FetchedStatus _ \<Rightarrow> 0)"

lemma fetched_bytes_simps [simp]:
  "fetched_bytes (FetchedRange cov body) = af_reserved body" "fetched_bytes (FetchedStatus status) = 0"
  by (simp_all add: fetched_bytes_def)

lemma budget_holds_zero [simp]: "budget_holds b (0 # out) \<longleftrightarrow> budget_holds b out"
  by (simp add: budget_holds_def)

lemma fetch_storage_settled:
  assumes "budget_holds (snd st) out"
  shows "settled out (\<lambda>(f, _). fetched_bytes f) (fetch_storage U H E st d expected scan)"
proof -
  obtain c b where st: "st = (c, b)" by (cases st)
  obtain c1 r where g: "storage_get E c d (co_start expected) (co_end_exclusive expected - 1) = (c1, r)" by (metis prod.exhaust)
  have b: "budget_holds (snd (c1, b)) out" using assms st by simp
  have read: "settled out (\<lambda>(f, _). fetched_bytes f) (state_bind (read_storage U D (c1, b) reply d cov scan) (\<lambda>st (body, scan).
      (st, Inr (FetchedRange cov body, scan))))" for D reply cov
    by (rule settled_bind_held [OF read_storage_settled [OF b]]) auto
  show ?thesis
    unfolding fetch_storage_def st prod.case g
    by (rule settled_pure, rule b) (auto simp: b [simplified] intro!: settled_pure read)
qed

lemma asset_drop_holds: "budget_holds b (af_reserved f # out) \<Longrightarrow> budget_holds (snd (asset_drop (c, b) f)) out"
  using assets.give_all_keeps [of b "[]" "af_reserved f" out] by (simp add: accounted_iff asset_drop_def)

lemma keep_visible_settled:
  assumes "budget_holds b (af_reserved body # so_reserved s # out)"
  shows "settled out so_reserved (keep_visible E start stop (c, b) s cov body)"
proof -
  obtain b1 where a: "asset_drop (c, b) body = (c, b1)" "budget_holds b1 (so_reserved s # out)"
    using asset_drop_holds [OF assms, of c] by (auto simp: asset_drop_def)
  have d: "budget_holds (snd (fst (as_download (on_disk c (b1, r))))) (so_reserved s # out)" for r :: "(asset_io_error, string) result"
    using a(2) by (auto simp: as_download_def on_disk_def split: prod.splits sum.splits)
  show ?thesis
    unfolding keep_visible_def Let_def a(1)
    by (auto simp: a(2) split: prod.split intro!: settled_bind [OF settled_or_drop [OF d]] spool_write_settled)
qed

definition loop_bytes :: "nat + spool \<Rightarrow> nat" where
  "loop_bytes x = (case x of Inl _ \<Rightarrow> 0 | Inr s \<Rightarrow> so_reserved s)"

lemma download_loop_settled:
  assumes "budget_holds (snd st) (so_reserved s # out)"
  shows "settled out loop_bytes (download_loop U H E d start stop whole st s scan parts)"
  using assms
proof (induction parts arbitrary: st s scan)
  case (Cons part parts)
  obtain cursor e where part: "part = (cursor, e)" by (cases part)
  let ?x = "\<lparr>co_start = cursor, co_end_exclusive = e, co_total = whole\<rparr>"
  have f: "settled out (\<lambda>x. (case x of (f, _) \<Rightarrow> fetched_bytes f) + so_reserved s) (or_drop s (fetch_storage U H E st d ?x scan))"
    by (rule settled_or_drop_held [OF fetch_storage_settled [OF Cons.prems]])
  show ?case
    unfolding part download_loop.simps
  proof (rule settled_bind_held [OF f])
    fix c b and x :: "fetched_range \<times> download_scan"
    assume b: "budget_holds b (((case x of (f, _) \<Rightarrow> fetched_bytes f) + so_reserved s) # out)"
    obtain fetched scan1 where x: "x = (fetched, scan1)" by (cases x)
    show "settled out loop_bytes (case x of (fetched, scan) \<Rightarrow> (case fetched of
            FetchedStatus status \<Rightarrow> (case (c, b) of (c, b) \<Rightarrow> ((c, spool_drop b s), Inr (Inl status)))
          | FetchedRange cov body \<Rightarrow>
              state_bind (keep_visible E start stop (c, b) s cov body) (\<lambda>st s. download_loop U H E d start stop whole st s scan parts)))"
    proof (cases fetched)
      case (FetchedRange cov body)
      with b x have "budget_holds b (af_reserved body # so_reserved s # out)" by (simp add: budget_holds_sum)
      then have "settled out so_reserved (keep_visible E start stop (c, b) s cov body)" by (rule keep_visible_settled)
      then show ?thesis
        unfolding x FetchedRange prod.case fetched_range.case
        by (rule settled_bind_held) (simp add: Cons.IH)
    next
      case (FetchedStatus status)
      with b x drop_holds [of b s out] show ?thesis by (simp add: loop_bytes_def)
    qed
  qed
qed (simp add: loop_bytes_def)

definition answer_bytes :: "download_response \<Rightarrow> nat" where
  "answer_bytes r = (case r of StorageAnswer _ _ (Some f) \<Rightarrow> af_reserved f | _ \<Rightarrow> 0)"

lemma storage_status_settled: "budget_holds (snd st) out \<Longrightarrow> settled out answer_bytes (st, storage_status status)"
  by (simp add: storage_status_def answer_bytes_def)

lemma download_window_settled:
  assumes "budget_holds (snd st) out"
  shows "settled out answer_bytes (download_window U H E st d w whole)"
proof -
  have last: "settled out answer_bytes (case fetched of
        Inl status \<Rightarrow> ((c, b), storage_status status)
      | Inr s \<Rightarrow> state_bind (as_download (on_disk c (spool_finish (dn_output E) b s))) (\<lambda>st body.
                   (st, Inr (StorageAnswer 206 (Some cov) (Some body)))))"
    if "budget_holds b (loop_bytes fetched # out)" for c b fetched cov
  proof (cases fetched)
    case (Inl status)
    with that show ?thesis using storage_status_settled [of "(c, b)"] by (simp add: loop_bytes_def)
  next
    case (Inr s)
    with that have "budget_holds b (so_reserved s # out)" by (simp add: loop_bytes_def)
    then show ?thesis
      unfolding Inr sum.case
      by (intro settled_bind_held [where held = af_reserved]) (auto simp: answer_bytes_def spool_finish_settled)
  qed
  have loop: "settled out answer_bytes (state_bind (download_loop U H E d start stop whole st s empty_scan parts) (\<lambda>(c, b) fetched.
      case fetched of
        Inl status \<Rightarrow> ((c, b), storage_status status)
      | Inr s \<Rightarrow> state_bind (as_download (on_disk c (spool_finish (dn_output E) b s))) (\<lambda>st body.
                   (st, Inr (StorageAnswer 206 (Some cov) (Some body))))))"
    if "budget_holds (snd st) (so_reserved s # out)" for st s start stop parts cov
    by (rule settled_bind_held [OF download_loop_settled [OF that]]) (simp add: last)
  show ?thesis
    unfolding download_window_def Let_def
    by (rule settled_pure, rule assms, rule settled_pure, rule assms)
      (use assms in \<open>auto split: prod.split intro!: settled_pure settled_bind_held [where held = so_reserved] spool_allocate_settled loop\<close>)
qed

lemma download_storage_settled:
  assumes "budget_holds (snd st) out"
  shows "settled out answer_bytes (download_storage U H E st d w)"
  unfolding download_storage_def
proof (rule settled_bind_held [OF fetch_storage_settled [OF assms]])
  fix c b and x :: "fetched_range \<times> download_scan"
  assume b: "budget_holds b ((case x of (f, _) \<Rightarrow> fetched_bytes f) # out)"
  obtain probe scan where x: "x = (probe, scan)" by (cases x)
  show "settled out answer_bytes (case x of (probe, _) \<Rightarrow> (case probe of
         FetchedStatus status \<Rightarrow> ((c, b), storage_status status)
       | FetchedRange cov body \<Rightarrow> download_window U H E (asset_drop (c, b) body) d w (co_total cov)))"
  proof (cases probe)
    case (FetchedRange cov body)
    with b x have "budget_holds (snd (asset_drop (c, b) body)) out" by (intro asset_drop_holds) simp
    from download_window_settled [OF this] show ?thesis by (simp add: x FetchedRange)
  next
    case (FetchedStatus status)
    with b x storage_status_settled [of "(c, b)"] show ?thesis by simp
  qed
qed

lemma signed_download_settled:
  assumes "budget_holds b out"
  shows "settled out answer_bytes (signed_download U X H L E (c, b) api_uri w)"
proof -
  have a: "settled out answer_bytes (if rsp_status api \<noteq> 302 then ((c, b), Inr (ApiAnswer api))
        else state_bind ((c, b), storage_destination U H L E c (rsp_headers api)) (\<lambda>st d. download_storage U H E st d w))" for c api
    using assms by (auto simp: answer_bytes_def intro!: settled_pure download_storage_settled)
  obtain c1 r where g: "signed_api_request U X H L (dn_api E) (dn_net E) (c\<lparr>hc_attempted := True\<rparr>) api_uri = (c1, r)"
    by (metis prod.exhaust)
  have "settled out answer_bytes (signed_download_checked U X H L E (c, b) api_uri w)"
    unfolding signed_download_checked_def prod.case
    by (rule settled_pure) (use assms a in \<open>auto simp: g intro!: settled_pure\<close>)
  then show ?thesis by (auto simp: signed_download_def settled_def split: prod.splits sum.splits)
qed

end
