(* ===== verification/Shell_Output.thy ===== *)
theory Shell_Output
  imports Process_Tree Rust_Text
begin

text \<open>
  The output a script shows (\<open>dekopon-shell/src/limits.rs\<close>, \<open>OutputBuffer\<close>): lines are kept
  while they fit, and from the first that does not, the beginning and the end of the output are kept
  within their halves of the limits. Lines come in fragments and blocks. The buffer refines a
  specification that looks at the whole text at once: its lines, cut to the limit, a longest beginning
  and a longest end.
\<close>

section \<open>The buffer\<close>

definition clamp_line :: "string \<Rightarrow> nat \<Rightarrow> string" where
  "clamp_line line maximum =
     (if length line \<le> maximum then line
      else take (floor_char_boundary line (saturating_sub maximum 3)) line @ ''...'')"

record output_buffer =
  ob_max_bytes :: nat
  ob_max_lines :: nat
  ob_head :: "string list"
  ob_head_bytes :: nat
  ob_tail :: "string list"
  ob_tail_bytes :: nat
  ob_total_lines :: nat
  ob_truncated :: bool
  ob_pending :: string
  ob_pending_truncated :: bool

definition output_new :: "limits \<Rightarrow> output_buffer" where
  "output_new l =
     \<lparr>ob_max_bytes = max (max_output_bytes l) 1, ob_max_lines = max (max_output_lines l) 1, ob_head = [],
      ob_head_bytes = 0, ob_tail = [], ob_tail_bytes = 0, ob_total_lines = 0, ob_truncated = False,
      ob_pending = [], ob_pending_truncated = False\<rparr>"

definition tail_line_budget :: "output_buffer \<Rightarrow> nat" where
  "tail_line_budget b = max (ob_max_lines b div 2) 1"

definition tail_byte_budget :: "output_buffer \<Rightarrow> nat" where
  "tail_byte_budget b = max (ob_max_bytes b div 2) 1"

text \<open>The loop of \<open>begin_truncation\<close>, which pops lines from the end of the head.\<close>

function shrink_head :: "nat \<Rightarrow> nat \<Rightarrow> string list \<Rightarrow> nat \<Rightarrow> string list \<times> nat" where
  "shrink_head head_lines head_bytes head n =
     (if length head > head_lines \<or> n > head_bytes then
        if head = [] then (head, n)
        else shrink_head head_lines head_bytes (butlast head) (saturating_sub n (saturating_add (length (last head)) 1))
      else (head, n))"
  by pat_completeness auto
termination by (relation "measure (\<lambda>(_, _, head, _). length head)") auto

definition begin_truncation :: "output_buffer \<Rightarrow> output_buffer" where
  "begin_truncation b =
     (let head_lines = saturating_sub (ob_max_lines b) (tail_line_budget b);
          head_bytes = saturating_sub (ob_max_bytes b) (tail_byte_budget b);
          (head, n) = shrink_head head_lines head_bytes (ob_head b) (ob_head_bytes b)
      in b\<lparr>ob_truncated := True, ob_head := head, ob_head_bytes := n\<rparr>)"

text \<open>The loop of \<open>evict_tail\<close>, which drops the oldest lines of the tail but never the newest.\<close>

fun evict :: "nat \<Rightarrow> nat \<Rightarrow> string list \<Rightarrow> nat \<Rightarrow> string list \<times> nat" where
  "evict lines bytes (x # y # zs) n =
     (if length (x # y # zs) > lines \<or> n > bytes
      then evict lines bytes (y # zs) (saturating_sub n (saturating_add (length x) 1))
      else (x # y # zs, n))"
| "evict lines bytes tail n = (tail, n)"

definition evict_tail :: "output_buffer \<Rightarrow> output_buffer" where
  "evict_tail b =
     (let (tail, n) = evict (tail_line_budget b) (tail_byte_budget b) (ob_tail b) (ob_tail_bytes b)
      in b\<lparr>ob_tail := tail, ob_tail_bytes := n\<rparr>)"

definition push_tail :: "output_buffer \<Rightarrow> string \<Rightarrow> output_buffer" where
  "push_tail b line =
     (let clamped = clamp_line line (saturating_sub (tail_byte_budget b) 1)
      in evict_tail (b\<lparr>ob_tail_bytes := saturating_add (ob_tail_bytes b) (saturating_add (length clamped) 1),
           ob_tail := ob_tail b @ [clamped]\<rparr>))"

definition push_line :: "output_buffer \<Rightarrow> string \<Rightarrow> output_buffer" where
  "push_line b line =
     (let b = b\<lparr>ob_total_lines := saturating_add (ob_total_lines b) 1\<rparr>
      in if \<not> ob_truncated b then
           let clamped = clamp_line line (ob_max_bytes b);
               cost = saturating_add (length clamped) 1
           in if length (ob_head b) < ob_max_lines b \<and> saturating_add (ob_head_bytes b) cost \<le> ob_max_bytes b
              then b\<lparr>ob_head_bytes := saturating_add (ob_head_bytes b) cost, ob_head := ob_head b @ [clamped]\<rparr>
              else push_tail (begin_truncation b) line
         else push_tail b line)"

definition flush_pending :: "output_buffer \<Rightarrow> output_buffer" where
  "flush_pending b =
     (let line = ob_pending b;
          line = (if ob_pending_truncated b then clamp_line line (ob_max_bytes b) else line)
      in push_line (b\<lparr>ob_pending := [], ob_pending_truncated := False\<rparr>) line)"

definition extend_pending :: "output_buffer \<Rightarrow> string \<Rightarrow> output_buffer" where
  "extend_pending b part =
     (if ob_pending_truncated b then b
      else
        let room = saturating_sub (ob_max_bytes b) (length (ob_pending b));
            end = floor_char_boundary part (min (length part) room)
        in b\<lparr>ob_pending := ob_pending b @ take end part, ob_pending_truncated := (end < length part)\<rparr>)"

definition push_fragment :: "output_buffer \<Rightarrow> string \<Rightarrow> output_buffer" where
  "push_fragment b fragment =
     (case split_on (CHR 0x0A) fragment of
        [] \<Rightarrow> b
      | part # parts \<Rightarrow> foldl (\<lambda>b part. extend_pending (flush_pending b) part) (extend_pending b part) parts)"

definition push_block :: "output_buffer \<Rightarrow> string \<Rightarrow> output_buffer" where
  "push_block b block = flush_pending (push_fragment b block)"

definition output_finish :: "output_buffer \<Rightarrow> output_buffer" where
  "output_finish b = (if ob_pending b \<noteq> [] \<or> ob_pending_truncated b then flush_pending b else b)"

definition truncation_line :: "nat \<Rightarrow> string" where
  "truncation_line n = ''... Output truncated ('' @ show_nat n @ '' total lines) ...''"

definition render :: "output_buffer \<Rightarrow> string" where
  "render b =
     join (CHR 0x0A) (ob_head b @ (if ob_truncated b then truncation_line (ob_total_lines b) # ob_tail b else []))"

section \<open>Longest beginnings and ends\<close>

text \<open>A line costs its bytes and its line feed.\<close>

abbreviation line_cost :: "string \<Rightarrow> nat" where "line_cost s \<equiv> length s + 1"
abbreviation cost :: "string list \<Rightarrow> nat" where "cost xs \<equiv> sum_list (map line_cost xs)"

text \<open>The longest beginning of so many lines and bytes.\<close>

fun longest :: "nat \<Rightarrow> nat \<Rightarrow> string list \<Rightarrow> string list" where
  "longest n c [] = []"
| "longest n c (x # xs) = (if 0 < n \<and> line_cost x \<le> c then x # longest (n - 1) (c - line_cost x) xs else [])"

text \<open>The longest end, newest line first, of which the newest line is always a part.\<close>

fun newest :: "nat \<Rightarrow> nat \<Rightarrow> string list \<Rightarrow> string list" where
  "newest n c [] = []"
| "newest n c (x # xs) = x # longest (n - 1) (c - line_cost x) xs"

lemma sum_list_map_rev [simp]: "sum_list (map f (rev xs)) = sum_list (map f xs)" for f :: "'a \<Rightarrow> nat"
  by (simp only: rev_map [symmetric] sum_list_rev)

lemma longest_fits: "length (longest n c xs) \<le> n \<and> cost (longest n c xs) \<le> c"
  by (induction n c xs rule: longest.induct) auto

lemma longest_prefix: "\<exists>ys. xs = longest n c xs @ ys"
  by (induction n c xs rule: longest.induct) auto

lemma longest_all_iff: "longest n c xs = xs \<longleftrightarrow> length xs \<le> n \<and> cost xs \<le> c"
  by (induction n c xs rule: longest.induct) auto

lemma longest_snoc: "longest n c (xs @ [x]) = (if length xs < n \<and> cost xs + line_cost x \<le> c then xs @ [x] else longest n c xs)"
  by (induction n c xs rule: longest.induct) auto

lemma longest_longest: "m \<le> n \<Longrightarrow> c \<le> d \<Longrightarrow> longest m c (longest n d xs) = longest m c xs"
  by (induction n d xs arbitrary: m c rule: longest.induct) auto

lemma newest_newest: "longest (n - 1) (c - line_cost x) (newest n c xs) = longest (n - 1) (c - line_cost x) xs"
  by (cases xs) (auto simp: longest_longest)

lemma newest_fits: "length (newest n c xs) \<le> max n 1 \<and> (xs \<noteq> [] \<longrightarrow> cost (newest n c xs) \<le> max c (line_cost (hd xs)))"
proof (cases xs)
  case (Cons x ys)
  with longest_fits [of "n - 1" "c - line_cost x" ys] show ?thesis by auto
qed simp

text \<open>The two loops compute them.\<close>

declare shrink_head.simps [simp del]

lemma shrink_head_longest:
  assumes "cost head \<le> 2 ^ 63"
  shows "shrink_head n c head (cost head) = (longest n c head, cost (longest n c head))"
  using assms
proof (induction head rule: rev_induct)
  case Nil
  then show ?case by (subst shrink_head.simps) simp
next
  case (snoc x xs)
  show ?case
  proof (cases "length (xs @ [x]) \<le> n \<and> cost (xs @ [x]) \<le> c")
    case True
    then have "longest n c (xs @ [x]) = xs @ [x]" by (simp only: longest_all_iff)
    with True show ?thesis by (subst shrink_head.simps) simp
  next
    case False
    then have "longest n c (xs @ [x]) = longest n c xs" by (auto simp: longest_snoc)
    moreover have "saturating_add (length x) 1 = line_cost x"
      using snoc.prems by (intro saturating_add_exact) (simp add: u64_max_def)
    ultimately show ?thesis using False snoc by (subst shrink_head.simps) (auto simp: saturating_sub_def)
  qed
qed

lemma evict_newest:
  assumes "cost tail \<le> 2 ^ 63"
  shows "evict n c tail (cost tail) = (rev (newest n c (rev tail)), cost (newest n c (rev tail)))"
  using assms
proof (induction tail rule: induct_list012)
  case (3 x y zs)
  obtain w ws where w: "rev (y # zs) = w # ws" by (cases "rev (y # zs)") auto
  then have perm: "rev (x # y # zs) = w # (ws @ [x])" by simp
  have "cost (rev (y # zs)) = cost (y # zs)" by (rule sum_list_map_rev)
  moreover have "length (rev (y # zs)) = length (y # zs)" by (rule length_rev)
  ultimately have len: "length ws = length zs" "cost (y # zs) = cost (w # ws)" unfolding w by simp_all
  show ?case
  proof (cases "length (x # y # zs) > n \<or> cost (x # y # zs) > c")
    case True
    have "saturating_add (length x) 1 = line_cost x"
      using 3(3) by (intro saturating_add_exact) (simp add: u64_max_def)
    moreover have "newest n c (rev (x # y # zs)) = newest n c (rev (y # zs))"
      unfolding perm w using True len by (auto simp: longest_snoc)
    ultimately show ?thesis using True 3 by (simp add: saturating_sub_def del: newest.simps rev.simps)
  next
    case False
    then have "longest (n - 1) (c - line_cost w) (ws @ [x]) = ws @ [x]"
      unfolding longest_all_iff using len by auto
    then have "newest n c (rev (x # y # zs)) = rev (x # y # zs)" unfolding perm by simp
    moreover have "cost (rev (x # y # zs)) = cost (x # y # zs)" by (rule sum_list_map_rev)
    moreover have "evict n c (x # y # zs) (cost (x # y # zs)) = (x # y # zs, cost (x # y # zs))" using False by simp
    ultimately show ?thesis by (simp only: rev_rev_ident)
  qed
qed simp_all

section \<open>What a buffer shows\<close>

text \<open>
  The specification: of all lines, abridged to the limit, the longest beginning that fits both limits is
  kept. When that is not all, what is shown is the longest beginning within the first halves, the notice
  and the longest end, within the second halves, of the lines that did not fit.
\<close>

definition abridged :: "nat \<Rightarrow> string \<Rightarrow> string" where
  "abridged n s = (if n < length s then take (floor_char_boundary s (n - 3)) s @ ''...'' else s)"

definition last_half :: "nat \<Rightarrow> nat" where
  "last_half n = max (n div 2) 1"

lemma last_half_bounds: "1 \<le> last_half n" "last_half n \<le> n + 1"
  by (auto simp: last_half_def)

lemma tail_budgets: "tail_line_budget b = last_half (ob_max_lines b)" "tail_byte_budget b = last_half (ob_max_bytes b)"
  by (simp_all add: tail_line_budget_def tail_byte_budget_def last_half_def)

definition kept :: "nat \<Rightarrow> nat \<Rightarrow> string list \<Rightarrow> string list" where
  "kept lines bytes ls = longest lines bytes (map (\<lambda>s. clamp_line s bytes) ls)"

definition shown :: "nat \<Rightarrow> nat \<Rightarrow> string list \<Rightarrow> string list" where
  "shown lines bytes ls =
     (let last_lines = last_half lines; last_bytes = last_half bytes;
          fitting = longest lines bytes (map (abridged bytes) ls);
          rest = drop (length fitting) ls
      in if rest = [] then fitting
         else longest (lines - last_lines) (bytes - last_bytes) (map (abridged bytes) ls)
           @ (''... Output truncated ('' @ show_nat (length ls) @ '' total lines) ...'')
           # rev (newest last_lines last_bytes (map (abridged (last_bytes - 1)) (rev rest))))"

lemma abridged_clamp: "abridged n = (\<lambda>s. clamp_line s n)"
  by (rule ext) (simp add: abridged_def clamp_line_def saturating_sub_def)

lemma clamp_line_length: "length (clamp_line s n) \<le> max n 3"
  using floor_char_boundary_le [of s "n - 3"] by (auto simp: clamp_line_def saturating_sub_def)

text \<open>The state of a buffer that has been given the lines \<open>ls\<close>.\<close>

definition holds_lines :: "nat \<Rightarrow> nat \<Rightarrow> output_buffer \<Rightarrow> string list \<Rightarrow> bool" where
  "holds_lines lines bytes b ls \<longleftrightarrow>
     ob_max_lines b = lines \<and> ob_max_bytes b = bytes \<and> ob_total_lines b = length ls \<and>
     ob_head_bytes b = cost (ob_head b) \<and> ob_tail_bytes b = cost (ob_tail b) \<and>
     (let last_lines = last_half lines; last_bytes = last_half bytes;
          rest = drop (length (kept lines bytes ls)) ls
      in if rest = [] then \<not> ob_truncated b \<and> ob_head b = kept lines bytes ls \<and> ob_tail b = []
         else ob_truncated b \<and>
           ob_head b = longest (lines - last_lines) (bytes - last_bytes) (map (\<lambda>s. clamp_line s bytes) ls) \<and>
           ob_tail b = rev (newest last_lines last_bytes (map (\<lambda>s. clamp_line s (last_bytes - 1)) (rev rest))))"

lemma holds_lines_shown: "holds_lines lines bytes b ls \<Longrightarrow> render b = join (CHR 0x0A) (shown lines bytes ls)"
  by (auto simp: holds_lines_def shown_def render_def kept_def abridged_clamp truncation_line_def Let_def
      split: if_splits)

lemma kept_length: "length (kept lines bytes ls) \<le> length ls"
  using longest_prefix [of "map (\<lambda>s. clamp_line s bytes) ls" lines bytes]
  by (metis kept_def le_add1 length_append length_map)

lemma kept_snoc:
  "kept lines bytes (ls @ [l]) =
     (if length ls < lines \<and> cost (map (\<lambda>s. clamp_line s bytes) ls) + line_cost (clamp_line l bytes) \<le> bytes
      then map (\<lambda>s. clamp_line s bytes) (ls @ [l]) else kept lines bytes ls)"
  by (simp add: kept_def longest_snoc)

lemma kept_all: "length (kept lines bytes ls) = length ls \<Longrightarrow> kept lines bytes ls = map (\<lambda>s. clamp_line s bytes) ls"
  using longest_prefix [of "map (\<lambda>s. clamp_line s bytes) ls" lines bytes]
  by (metis append_self_conv kept_def length_append length_map length_0_conv add_cancel_right_right)

lemma push_tail_newest:
  assumes "ob_tail b = rev (newest (tail_line_budget b) (tail_byte_budget b) us)" "ob_tail_bytes b = cost (ob_tail b)"
    and "cost (ob_tail b) \<le> 2 ^ 62" "tail_byte_budget b \<le> 2 ^ 61"
  shows "push_tail b line =
    b\<lparr>ob_tail := rev (newest (tail_line_budget b) (tail_byte_budget b) (clamp_line line (tail_byte_budget b - 1) # us)),
      ob_tail_bytes := cost (newest (tail_line_budget b) (tail_byte_budget b) (clamp_line line (tail_byte_budget b - 1) # us))\<rparr>"
proof -
  let ?c = "clamp_line line (tail_byte_budget b - 1)"
  have "length ?c \<le> 2 ^ 61 + 3" using clamp_line_length [of line "tail_byte_budget b - 1"] assms(4) by auto
  then have small: "cost (ob_tail b @ [?c]) \<le> 2 ^ 63" and c: "saturating_add (length ?c) 1 = line_cost ?c"
    "saturating_add (ob_tail_bytes b) (line_cost ?c) = cost (ob_tail b @ [?c])"
    using assms(2,3) by (auto simp: saturating_add_def u64_max_def)
  have "newest n c (rev (ob_tail b @ [?c])) = newest n c (?c # us)"
    if "n = tail_line_budget b" "c = tail_byte_budget b" for n c
    using that assms(1) newest_newest [of n c ?c us] by simp
  with evict_newest [OF small] c show ?thesis
    by (simp add: push_tail_def evict_tail_def Let_def saturating_sub_def tail_budgets
        del: newest.simps)
qed

lemma longest_beyond:
  assumes "\<not> (length ls < lines \<and> cost (map (\<lambda>s. clamp_line s bytes) ls) + line_cost (clamp_line l bytes) \<le> bytes)"
    and "n \<le> lines" "c \<le> bytes"
  shows "longest n c (map (\<lambda>s. clamp_line s bytes) (ls @ [l])) = longest n c (map (\<lambda>s. clamp_line s bytes) ls)"
  using assms by (auto simp: longest_snoc)

lemma push_tail_holds:
  assumes "ob_max_lines b = lines" "ob_max_bytes b = bytes" "ob_total_lines b = length ls + 1" "bytes \<le> 2 ^ 61"
    and "ob_truncated b" "ob_head_bytes b = cost (ob_head b)"
    and "ob_head b = longest (lines - last_half lines) (bytes - last_half bytes) (map (\<lambda>s. clamp_line s bytes) ls)"
    and "ob_tail_bytes b = cost (ob_tail b)"
    and "ob_tail b = rev (newest (last_half lines) (last_half bytes)
      (map (\<lambda>s. clamp_line s (last_half bytes - 1)) (rev (drop (length (kept lines bytes ls)) ls))))"
    and "\<not> (length ls < lines \<and> cost (map (\<lambda>s. clamp_line s bytes) ls) + line_cost (clamp_line l bytes) \<le> bytes)"
  shows "holds_lines lines bytes (push_tail b l) (ls @ [l])"
proof -
  let ?tl = "last_half lines" and ?tb = "last_half bytes"
  let ?us = "map (\<lambda>s. clamp_line s (?tb - 1)) (rev (drop (length (kept lines bytes ls)) ls))"
  have budgets: "tail_line_budget b = ?tl" "tail_byte_budget b = ?tb"
    using assms(1,2) by (simp_all add: tail_budgets)
  have tb: "?tb \<le> 2 ^ 61" using assms(4) by (simp add: last_half_def)
  have "cost (newest ?tl ?tb ?us) \<le> 2 ^ 62"
  proof (cases ?us)
    case (Cons u us)
    then have "u \<in> set ?us" by (simp only: list.set_intros)
    then obtain x where "u = clamp_line x (?tb - 1)" by auto
    moreover have "max (?tb - 1) 3 \<le> 2 ^ 61 + 3" using tb by simp
    ultimately have "length u \<le> 2 ^ 61 + 3" using clamp_line_length [of x "?tb - 1"] by (metis order_trans)
    then have "max ?tb (line_cost (hd ?us)) \<le> 2 ^ 62" using Cons tb by simp
    moreover have "?us \<noteq> []" unfolding Cons by (rule list.distinct(2))
    ultimately show ?thesis using newest_fits [of ?tl ?tb ?us] by (blast intro: order_trans)
  qed simp
  then have "cost (ob_tail b) \<le> 2 ^ 62" unfolding assms(9) by simp
  from push_tail_newest [where us = ?us and b = b and line = l, unfolded budgets, OF assms(9,8) this tb]
  have push: "push_tail b l = b\<lparr>ob_tail := rev (newest ?tl ?tb (clamp_line l (?tb - 1) # ?us)),
      ob_tail_bytes := cost (newest ?tl ?tb (clamp_line l (?tb - 1) # ?us))\<rparr>" .
  have kept: "kept lines bytes (ls @ [l]) = kept lines bytes ls" using assms(10) by (auto simp: kept_snoc)
  then have rest: "drop (length (kept lines bytes (ls @ [l]))) (ls @ [l]) = drop (length (kept lines bytes ls)) ls @ [l]"
    using kept_length [of lines bytes ls] by simp
  show ?thesis
    unfolding holds_lines_def Let_def rest push
    using assms(1,2,3,5,6,7) longest_beyond [OF assms(10), of "lines - ?tl" "bytes - ?tb"]
    by (simp del: newest.simps map_append)
qed

lemma push_line_holds:
  assumes holds: "holds_lines lines bytes b ls" and small: "bytes \<le> 2 ^ 61" "length ls < u64_max"
  shows "holds_lines lines bytes (push_line b l) (ls @ [l])"
proof -
  let ?fits = "length ls < lines \<and> cost (map (\<lambda>s. clamp_line s bytes) ls) + line_cost (clamp_line l bytes) \<le> bytes"
  let ?b = "b\<lparr>ob_total_lines := saturating_add (ob_total_lines b) 1\<rparr>"
  have fields: "ob_max_lines b = lines" "ob_max_bytes b = bytes" "ob_head_bytes b = cost (ob_head b)"
    "ob_tail_bytes b = cost (ob_tail b)" "ob_total_lines ?b = length ls + 1"
    using holds small(2) by (simp_all add: holds_lines_def saturating_add_def)
  show ?thesis
  proof (cases "drop (length (kept lines bytes ls)) ls = []")
    case True
    then have "length (kept lines bytes ls) = length ls" using kept_length [of lines bytes ls] by simp
    note all = kept_all [OF this]
    then have all_fit: "length ls \<le> lines" "cost (map (\<lambda>s. clamp_line s bytes) ls) \<le> bytes"
      using longest_all_iff [of lines bytes "map (\<lambda>s. clamp_line s bytes) ls"] by (simp_all add: kept_def)
    have buffer: "\<not> ob_truncated b" "ob_head b = map (\<lambda>s. clamp_line s bytes) ls" "ob_tail b = []"
      using holds True all by (simp_all add: holds_lines_def)
    have "length (clamp_line l bytes) \<le> 2 ^ 61 + 3" using clamp_line_length [of l bytes] small(1) by auto
    then have sat: "saturating_add (length (clamp_line l bytes)) 1 = line_cost (clamp_line l bytes)"
      "saturating_add (ob_head_bytes b) (line_cost (clamp_line l bytes)) = ob_head_bytes b + line_cost (clamp_line l bytes)"
      using all_fit(2) small(1) unfolding fields buffer by (simp_all add: saturating_add_def u64_max_def)
    show ?thesis
    proof (cases ?fits)
      case fits: True
      then have "push_line b l = ?b\<lparr>ob_head_bytes := ob_head_bytes b + line_cost (clamp_line l bytes),
          ob_head := ob_head b @ [clamp_line l bytes]\<rparr>"
        using buffer fields sat by (simp add: push_line_def Let_def)
      moreover have "kept lines bytes (ls @ [l]) = map (\<lambda>s. clamp_line s bytes) (ls @ [l])" using fits by (simp add: kept_snoc)
      ultimately show ?thesis using fields buffer by (simp add: holds_lines_def)
    next
      case False
      then have "push_line b l = push_tail (begin_truncation ?b) l"
        using buffer fields sat by (auto simp: push_line_def Let_def)
      moreover have "cost (ob_head b) \<le> 2 ^ 63" using all_fit(2) small(1) buffer by simp
      then have "begin_truncation ?b = ?b\<lparr>ob_truncated := True,
          ob_head := longest (lines - last_half lines) (bytes - last_half bytes) (ob_head b),
          ob_head_bytes := cost (longest (lines - last_half lines) (bytes - last_half bytes) (ob_head b))\<rparr>"
        using fields shrink_head_longest
        by (simp add: begin_truncation_def Let_def saturating_sub_def tail_budgets)
      ultimately show ?thesis using fields buffer True False small(1) by (simp add: push_tail_holds)
    qed
  next
    case False
    then have not_all: "length (kept lines bytes ls) \<noteq> length ls" by simp
    have "\<not> (length ls \<le> lines \<and> cost (map (\<lambda>s. clamp_line s bytes) ls) \<le> bytes)"
      using not_all longest_all_iff [of lines bytes "map (\<lambda>s. clamp_line s bytes) ls"] by (auto simp: kept_def)
    then have no: "\<not> ?fits" by auto
    have buffer: "ob_truncated b"
      "ob_head b = longest (lines - last_half lines) (bytes - last_half bytes) (map (\<lambda>s. clamp_line s bytes) ls)"
      "ob_tail b = rev (newest (last_half lines) (last_half bytes)
        (map (\<lambda>s. clamp_line s (last_half bytes - 1)) (rev (drop (length (kept lines bytes ls)) ls))))"
      using holds False unfolding holds_lines_def Let_def by (simp_all only: if_False)
    then have "push_line b l = push_tail ?b l" by (simp add: push_line_def)
    moreover have "ob_max_lines ?b = lines" "ob_max_bytes ?b = bytes" "ob_truncated ?b"
      "ob_head_bytes ?b = cost (ob_head ?b)" "ob_tail_bytes ?b = cost (ob_tail ?b)" "ob_head ?b = ob_head b"
      "ob_tail ?b = ob_tail b"
      using fields(1-4) buffer(1) by simp_all
    note b = this
    have "holds_lines lines bytes (push_tail ?b l) (ls @ [l])"
      by (rule push_tail_holds [OF b(1,2) fields(5) small(1) b(3,4) _ b(5) _ no]) (simp_all only: b(6,7) buffer(2,3))
    ultimately show ?thesis by simp
  qed
qed

lemma output_new_holds: "holds_lines (max (max_output_lines l) 1) (max (max_output_bytes l) 1) (output_new l) []"
  by (simp add: holds_lines_def output_new_def kept_def)

lemma push_lines_hold:
  assumes "holds_lines lines bytes b ls" "bytes \<le> 2 ^ 61" "length ls + length ms \<le> u64_max"
  shows "holds_lines lines bytes (foldl push_line b ms) (ls @ ms)"
  using assms
proof (induction ms arbitrary: b ls)
  case (Cons l ms)
  then have "holds_lines lines bytes (push_line b l) (ls @ [l])" by (intro push_line_holds) simp_all
  with Cons.IH [of "push_line b l" "ls @ [l]"] Cons.prems show ?case by simp
qed simp

section \<open>Fragments and blocks\<close>

text \<open>What the interpreter hands to the buffer: a fragment may end within a line, a block ends its
  last line. Texts are in UTF-8.\<close>

datatype output_op = Fragment string | Block string

fun output_apply :: "output_buffer \<Rightarrow> output_op \<Rightarrow> output_buffer" where
  "output_apply b (Fragment s) = push_fragment b s"
| "output_apply b (Block s) = push_block b s"

fun op_text :: "output_op \<Rightarrow> string" where
  "op_text (Fragment s) = s"
| "op_text (Block s) = s @ [CHR 0x0A]"

fun op_utf8 :: "output_op \<Rightarrow> bool" where
  "op_utf8 (Fragment s) = is_utf8 s"
| "op_utf8 (Block s) = is_utf8 s"

definition written :: "output_op list \<Rightarrow> string" where
  "written ops = concat (map op_text ops)"

text \<open>The lines of a text. The last one need not be ended, and is none when nothing follows the last
  line feed.\<close>

definition text_lines :: "string \<Rightarrow> string list" where
  "text_lines s =
     (let parts = split_on (CHR 0x0A) s in if last parts = [] then butlast parts else parts)"

text \<open>What is kept of a line while it is being written: the longest beginning, of whole characters,
  within the limit of bytes. It carries no mark.\<close>

definition cut_line :: "nat \<Rightarrow> string \<Rightarrow> string" where
  "cut_line bytes s = take (floor_char_boundary s bytes) s"

lemma cut_line_short: "length s \<le> n \<Longrightarrow> cut_line n s = s"
  by (simp add: cut_line_def floor_char_boundary_def)

lemma cut_line_length: "length (cut_line n s) \<le> n"
  using floor_char_boundary_le [of s n] by (auto simp: cut_line_def)

lemma cut_line_empty: "cut_line n s = [] \<Longrightarrow> length s \<le> n \<Longrightarrow> s = []"
  by (simp add: cut_line_short)

lemma cut_line_append:
  assumes "starts_char t"
  shows "length s \<le> n \<Longrightarrow> cut_line n (s @ t) = s @ cut_line (n - length s) t"
    and "n < length s \<Longrightarrow> cut_line n (s @ t) = cut_line n s"
  using floor_char_boundary_append [OF assms, of s n] floor_char_boundary_beyond [of n s t]
    floor_char_boundary_le [of s n] by (simp_all add: cut_line_def)

text \<open>The state of a buffer after the lines \<open>ls\<close> were ended and \<open>cur\<close> was begun.\<close>

definition holds_text :: "nat \<Rightarrow> nat \<Rightarrow> output_buffer \<Rightarrow> string list \<Rightarrow> string \<Rightarrow> bool" where
  "holds_text lines bytes b ls cur \<longleftrightarrow> holds_lines lines bytes b (map (cut_line bytes) ls) \<and>
     ob_pending b = cut_line bytes cur \<and> (ob_pending_truncated b \<longleftrightarrow> bytes < length cur)"

lemma holds_lines_pending [simp]:
  "holds_lines lines bytes (b\<lparr>ob_pending := p, ob_pending_truncated := t\<rparr>) ls = holds_lines lines bytes b ls"
  by (simp add: holds_lines_def)

lemma holds_lines_max: "holds_lines lines bytes b ls \<Longrightarrow> ob_max_bytes b = bytes"
  by (simp add: holds_lines_def)

lemma extend_pending_holds:
  assumes "holds_text lines bytes b ls cur" "starts_char part"
  shows "holds_text lines bytes (extend_pending b part) ls (cur @ part)"
proof (cases "bytes < length cur")
  case True
  with assms show ?thesis by (simp add: holds_text_def extend_pending_def cut_line_append(2))
next
  case False
  let ?room = "bytes - length cur"
  have b: "holds_lines lines bytes b (map (cut_line bytes) ls)" "ob_pending b = cur"
      "\<not> ob_pending_truncated b" "ob_max_bytes b = bytes"
    using assms(1) False by (auto simp: holds_text_def cut_line_short dest: holds_lines_max)
  have e: "floor_char_boundary part (min (length part) ?room) = floor_char_boundary part ?room"
    by (simp add: floor_char_boundary_def min_def)
  have "floor_char_boundary part ?room < length part \<longleftrightarrow> ?room < length part"
    using floor_char_boundary_le [of part ?room] by (auto simp: floor_char_boundary_def)
  then have "extend_pending b part = b\<lparr>ob_pending := cut_line bytes (cur @ part),
      ob_pending_truncated := bytes < length (cur @ part)\<rparr>"
    using b False e cut_line_append(1) [OF assms(2), of cur bytes]
    by (auto simp: extend_pending_def Let_def saturating_sub_def cut_line_def)
  with b show ?thesis by (simp add: holds_text_def)
qed

lemma push_line_pending:
  "ob_pending (push_line b l) = ob_pending b \<and> ob_pending_truncated (push_line b l) = ob_pending_truncated b"
  by (simp add: push_line_def push_tail_def evict_tail_def begin_truncation_def Let_def split: prod.splits)

lemma flush_pending_holds:
  assumes "holds_text lines bytes b ls cur" "bytes \<le> 2 ^ 61" "length ls < u64_max"
  shows "holds_text lines bytes (flush_pending b) (ls @ [cur]) []"
proof -
  let ?b = "b\<lparr>ob_pending := [], ob_pending_truncated := False\<rparr>"
  have b: "holds_lines lines bytes ?b (map (cut_line bytes) ls)" "ob_pending b = cut_line bytes cur"
      "ob_max_bytes b = bytes"
    using assms(1) by (auto simp: holds_text_def dest: holds_lines_max)
  have "clamp_line (cut_line bytes cur) bytes = cut_line bytes cur"
    using cut_line_length [of bytes cur] by (simp add: clamp_line_def)
  with b have flush: "flush_pending b = push_line ?b (cut_line bytes cur)"
    by (simp add: flush_pending_def Let_def)
  have "holds_lines lines bytes (push_line ?b (cut_line bytes cur)) (map (cut_line bytes) ls @ [cut_line bytes cur])"
    using assms(3) by (intro push_line_holds b(1) assms(2)) simp
  then show ?thesis using push_line_pending [of ?b] by (simp add: flush holds_text_def cut_line_def)
qed

lemma push_parts_hold:
  assumes "holds_text lines bytes b ls cur" "list_all starts_char parts" "bytes \<le> 2 ^ 61"
    "length ls + length parts \<le> u64_max"
  shows "holds_text lines bytes (foldl (\<lambda>b part. extend_pending (flush_pending b) part) b parts)
    (butlast (ls @ cur # parts)) (last (cur # parts))"
  using assms
proof (induction parts arbitrary: b ls cur)
  case Nil
  then show ?case by (simp add: butlast_append)
next
  case (Cons p parts)
  have "holds_text lines bytes (flush_pending b) (ls @ [cur]) []"
    using Cons.prems by (intro flush_pending_holds) simp_all
  then have "holds_text lines bytes (extend_pending (flush_pending b) p) (ls @ [cur]) p"
    using extend_pending_holds [of _ _ _ _ "[]" p] Cons.prems(2) by simp
  with Cons.IH [of _ "ls @ [cur]" p] Cons.prems show ?case by simp
qed

text \<open>The buffer has been given the text \<open>s\<close>.\<close>

definition holds_written :: "nat \<Rightarrow> nat \<Rightarrow> output_buffer \<Rightarrow> string \<Rightarrow> bool" where
  "holds_written lines bytes b s \<longleftrightarrow>
     holds_text lines bytes b (butlast (split_on (CHR 0x0A) s)) (last (split_on (CHR 0x0A) s))"

lemma push_fragment_holds:
  assumes "holds_written lines bytes b s" "is_utf8 t" "bytes \<le> 2 ^ 61"
    "length (split_on (CHR 0x0A) (s @ t)) \<le> u64_max"
  shows "holds_written lines bytes (push_fragment b t) (s @ t)"
proof -
  let ?done = "butlast (split_on (CHR 0x0A) s)" and ?cur = "last (split_on (CHR 0x0A) s)"
  obtain p ps where t: "split_on (CHR 0x0A) t = p # ps" by (cases "split_on (CHR 0x0A) t") simp_all
  have chars: "starts_char p" "list_all starts_char ps" using utf8_parts [of "CHR 0x0A" t] assms(2) t by simp_all
  have all: "split_on (CHR 0x0A) (s @ t) = ?done @ (?cur @ p) # ps" by (simp add: split_on_append t)
  have "holds_text lines bytes (extend_pending b p) ?done (?cur @ p)"
    using assms(1) chars by (intro extend_pending_holds) (simp_all add: holds_written_def)
  from push_parts_hold [OF this chars(2) assms(3)] assms(4)
  show ?thesis unfolding holds_written_def all by (simp add: push_fragment_def t)
qed

lemma push_block_holds:
  assumes "holds_written lines bytes b s" "is_utf8 t" "bytes \<le> 2 ^ 61"
    "length (split_on (CHR 0x0A) (s @ t @ [CHR 0x0A])) \<le> u64_max"
  shows "holds_written lines bytes (push_block b t) (s @ t @ [CHR 0x0A])"
proof -
  let ?parts = "split_on (CHR 0x0A) (s @ t)"
  have all: "split_on (CHR 0x0A) (s @ t @ [CHR 0x0A]) = ?parts @ [[]]"
    using split_on_append [of "CHR 0x0A" "s @ t" "[CHR 0x0A]"] by simp
  with assms have "holds_written lines bytes (push_fragment b t) (s @ t)" by (intro push_fragment_holds) simp_all
  then have "holds_text lines bytes (flush_pending (push_fragment b t)) (butlast ?parts @ [last ?parts]) []"
    using assms(3,4) by (intro flush_pending_holds) (simp_all add: all holds_written_def)
  then show ?thesis by (simp add: holds_written_def all push_block_def)
qed

lemma split_on_length_mono: "length (split_on c s) \<le> length (split_on c (s @ t))"
  by (simp add: split_on_append Suc_le_eq [symmetric])

lemma output_ops_hold:
  assumes "holds_written lines bytes b s" "list_all op_utf8 ops" "bytes \<le> 2 ^ 61"
    "length (split_on (CHR 0x0A) (s @ written ops)) \<le> u64_max"
  shows "holds_written lines bytes (foldl output_apply b ops) (s @ written ops)"
  using assms
proof (induction ops arbitrary: b s)
  case Nil
  then show ?case by (simp add: written_def)
next
  case (Cons op ops)
  have w: "written (op # ops) = op_text op @ written ops" by (simp add: written_def)
  have len: "length (split_on (CHR 0x0A) (s @ op_text op)) \<le> u64_max"
    using Cons.prems(4) split_on_length_mono [of "CHR 0x0A" "s @ op_text op" "written ops"] by (simp add: w)
  have "holds_written lines bytes (output_apply b op) (s @ op_text op)"
  proof (cases op)
    case (Fragment t)
    with Cons.prems len show ?thesis by (simp add: push_fragment_holds)
  next
    case (Block t)
    with Cons.prems len show ?thesis by (simp add: push_block_holds)
  qed
  with Cons.IH [of _ "s @ op_text op"] Cons.prems show ?case by (simp add: w)
qed

lemma output_finish_shows:
  assumes "holds_written lines bytes b s" "bytes \<le> 2 ^ 61" "length (split_on (CHR 0x0A) s) \<le> u64_max"
  shows "holds_lines lines bytes (output_finish b) (map (cut_line bytes) (text_lines s))"
proof -
  let ?parts = "split_on (CHR 0x0A) s"
  have b: "holds_text lines bytes b (butlast ?parts) (last ?parts)"
    using assms(1) by (simp add: holds_written_def)
  have "length (butlast ?parts) < u64_max"
    using assms(3) by (cases ?parts rule: rev_cases) simp_all
  note flushed = flush_pending_holds [OF b assms(2) this]
  have "ob_pending b = [] \<and> \<not> ob_pending_truncated b \<longleftrightarrow> last ?parts = []"
    using b cut_line_empty [of bytes "last ?parts"] by (auto simp: holds_text_def cut_line_short)
  with b flushed show ?thesis
    by (auto simp: output_finish_def text_lines_def Let_def holds_text_def simp flip: map_append)
qed

text \<open>C21: what a script writes, in whatever fragments and blocks it comes, is shown as the
  specification says. The lines of the text written, each cut to the limit of bytes at a character, are
  shown in full when they fit both limits, and else the longest beginning, the notice with the number
  of lines, and the longest end are.\<close>

theorem output_refines_shown:
  assumes "max_output_bytes l \<le> 2 ^ 61" "list_all op_utf8 ops"
    "length (split_on (CHR 0x0A) (written ops)) \<le> u64_max"
  shows "render (output_finish (foldl output_apply (output_new l) ops)) =
    join (CHR 0x0A) (shown (max (max_output_lines l) 1) (max (max_output_bytes l) 1)
      (map (cut_line (max (max_output_bytes l) 1)) (text_lines (written ops))))"
proof -
  let ?lines = "max (max_output_lines l) 1" and ?bytes = "max (max_output_bytes l) 1"
  have "holds_written ?lines ?bytes (output_new l) []"
    using output_new_holds [of l]
    by (simp add: holds_written_def holds_text_def cut_line_def) (simp add: output_new_def)
  from output_ops_hold [OF this assms(2)] assms
  have "holds_written ?lines ?bytes (foldl output_apply (output_new l) ops) (written ops)" by simp
  from output_finish_shows [OF this] assms show ?thesis by (intro holds_lines_shown) simp
qed

theorem output_refines_shown_witness:
  "render (output_finish (foldl output_apply (output_new (default_limits\<lparr>max_output_lines := 3\<rparr>))
       [Fragment ''a'', Fragment [CHR ''b'', CHR 0x0A, CHR ''c''], Block ''d'', Block ''e'', Block ''f'', Fragment ''g''])) =
     ''ab'' @ [CHR 0x0A] @ ''cd'' @ [CHR 0x0A] @ ''... Output truncated (5 total lines) ...'' @ [CHR 0x0A] @ ''g''"
proof -
  have "show_nat (Suc (Suc (Suc (Suc (Suc 0))))) = ''5''" by code_simp
  then show ?thesis
    using output_refines_shown [of "default_limits\<lparr>max_output_lines := 3\<rparr>"
        "[Fragment ''a'', Fragment [CHR ''b'', CHR 0x0A, CHR ''c''], Block ''d'', Block ''e'', Block ''f'', Fragment ''g'']"]
    by (simp add: default_limits_def DEFAULT_MAX_OUTPUT_BYTES_def u64_max_def shown_def abridged_def
        cut_line_def floor_char_boundary_def written_def text_lines_def last_half_def Let_def)
qed

section \<open>Output is bounded\<close>

text \<open>A buffer in use is given lines, fragments and blocks, and is finished, in any order.\<close>

inductive output_run :: "limits \<Rightarrow> output_buffer \<Rightarrow> bool" for l :: limits where
  new: "output_run l (output_new l)"
| line: "output_run l b \<Longrightarrow> output_run l (push_line b s)"
| fragment: "output_run l b \<Longrightarrow> output_run l (push_fragment b s)"
| block: "output_run l b \<Longrightarrow> output_run l (push_block b s)"
| finish: "output_run l b \<Longrightarrow> output_run l (output_finish b)"

definition output_ok :: "nat \<Rightarrow> nat \<Rightarrow> output_buffer \<Rightarrow> bool" where
  "output_ok lines bytes b \<longleftrightarrow>
     ob_max_lines b = lines \<and> ob_max_bytes b = bytes \<and> ob_total_lines b \<le> u64_max \<and> length (ob_pending b) \<le> bytes \<and>
     ob_head_bytes b = cost (ob_head b) \<and> ob_tail_bytes b = cost (ob_tail b) \<and>
     (ob_truncated b \<longrightarrow>
        length (ob_head b) \<le> lines - last_half lines \<and> cost (ob_head b) \<le> bytes - last_half bytes \<and>
        length (ob_tail b) \<le> last_half lines \<and> cost (ob_tail b) \<le> last_half bytes + 3) \<and>
     (\<not> ob_truncated b \<longrightarrow> length (ob_head b) \<le> lines \<and> cost (ob_head b) \<le> bytes \<and> ob_tail b = [])"

lemma push_tail_ok:
  assumes "output_ok lines bytes b" "ob_truncated b" "bytes \<le> 2 ^ 61"
  shows "output_ok lines bytes (push_tail b line)"
proof -
  let ?tl = "last_half lines" and ?tb = "last_half bytes"
  let ?c = "clamp_line line (?tb - 1)"
  have budgets: "tail_line_budget b = ?tl" "tail_byte_budget b = ?tb"
    using assms(1) by (simp_all add: tail_budgets output_ok_def)
  have tail: "cost (ob_tail b) \<le> ?tb + 3" "ob_tail_bytes b = cost (ob_tail b)"
    using assms(1,2) by (simp_all add: output_ok_def)
  have "max (?tb - 1) 3 \<le> ?tb + 2" using last_half_bounds(1) [of bytes] by simp
  then have c: "line_cost ?c \<le> ?tb + 3" using clamp_line_length [of line "?tb - 1"] by linarith
  have tb: "?tb \<le> 2 ^ 61" "1 \<le> ?tl" using assms(3) by (simp_all add: last_half_def)
  have "line_cost ?c \<le> 2 ^ 61 + 3" "cost (ob_tail b) \<le> 2 ^ 61 + 3" using tail(1) c tb(1) by linarith+
  then have small: "cost (ob_tail b @ [?c]) \<le> 2 ^ 63" and sat: "saturating_add (length ?c) 1 = line_cost ?c"
    "saturating_add (ob_tail_bytes b) (line_cost ?c) = cost (ob_tail b @ [?c])"
    using tail(2) by (simp_all add: saturating_add_def u64_max_def)
  let ?new = "newest ?tl ?tb (rev (ob_tail b @ [?c]))"
  have "push_tail b line = b\<lparr>ob_tail := rev ?new, ob_tail_bytes := cost ?new\<rparr>"
    using evict_newest [OF small] sat budgets
    by (simp add: push_tail_def evict_tail_def Let_def saturating_sub_def tail_budgets
        del: newest.simps)
  moreover have "hd (rev (ob_tail b @ [?c])) = ?c" "rev (ob_tail b @ [?c]) \<noteq> []" by simp_all
  then have "length ?new \<le> max ?tl 1" "cost ?new \<le> max ?tb (line_cost ?c)"
    using newest_fits [of ?tl ?tb "rev (ob_tail b @ [?c])"] by metis+
  then have "length ?new \<le> ?tl" "cost ?new \<le> ?tb + 3" using c tb(2) by linarith+
  ultimately show ?thesis using assms(1,2) unfolding output_ok_def by (simp del: newest.simps)
qed

lemma push_line_ok:
  assumes "output_ok lines bytes b" "bytes \<le> 2 ^ 61"
  shows "output_ok lines bytes (push_line b l)"
proof -
  let ?b = "b\<lparr>ob_total_lines := saturating_add (ob_total_lines b) 1\<rparr>"
  have ok: "output_ok lines bytes ?b" using assms(1) by (simp add: output_ok_def saturating_add_def)
  show ?thesis
  proof (cases "ob_truncated b")
    case True
    with push_tail_ok [OF ok _ assms(2)] show ?thesis by (simp add: push_line_def Let_def)
  next
    case False
    have "cost (ob_head b) \<le> 2 ^ 63" using False assms by (simp add: output_ok_def)
    then have "begin_truncation ?b = ?b\<lparr>ob_truncated := True,
        ob_head := longest (lines - last_half lines) (bytes - last_half bytes) (ob_head b),
        ob_head_bytes := cost (longest (lines - last_half lines) (bytes - last_half bytes) (ob_head b))\<rparr>"
      using assms(1) shrink_head_longest
      by (simp add: begin_truncation_def Let_def saturating_sub_def tail_budgets output_ok_def)
    then have "output_ok lines bytes (begin_truncation ?b)" "ob_truncated (begin_truncation ?b)"
      using ok False longest_fits by (simp_all add: output_ok_def)
    note truncated = push_tail_ok [OF this assms(2)]
    have "length (clamp_line l bytes) \<le> 2 ^ 61 + 3" using clamp_line_length [of l bytes] assms(2) by auto
    then have sat: "saturating_add (length (clamp_line l bytes)) 1 = line_cost (clamp_line l bytes)"
      "saturating_add (ob_head_bytes b) (line_cost (clamp_line l bytes)) = ob_head_bytes b + line_cost (clamp_line l bytes)"
      using False assms by (simp_all add: saturating_add_def u64_max_def output_ok_def)
    have max: "ob_max_lines b = lines" "ob_max_bytes b = bytes" using assms(1) by (simp_all add: output_ok_def)
    show ?thesis
    proof (cases "length (ob_head b) < lines \<and> ob_head_bytes b + line_cost (clamp_line l bytes) \<le> bytes")
      case True
      then have "push_line b l = ?b\<lparr>ob_head_bytes := ob_head_bytes b + line_cost (clamp_line l bytes),
          ob_head := ob_head b @ [clamp_line l bytes]\<rparr>"
        using False max sat by (simp add: push_line_def Let_def)
      with True False ok show ?thesis by (simp add: output_ok_def)
    next
      case full: False
      then have "push_line b l = push_tail (begin_truncation ?b) l"
        using False max sat by (auto simp: push_line_def Let_def)
      with truncated show ?thesis by simp
    qed
  qed
qed

lemma flush_pending_ok:
  assumes "output_ok lines bytes b" "bytes \<le> 2 ^ 61"
  shows "output_ok lines bytes (flush_pending b)"
proof -
  have "output_ok lines bytes (b\<lparr>ob_pending := [], ob_pending_truncated := False\<rparr>)"
    using assms(1) by (simp add: output_ok_def)
  then show ?thesis unfolding flush_pending_def Let_def by (rule push_line_ok) (rule assms(2))
qed

lemma extend_pending_ok:
  assumes "output_ok lines bytes b"
  shows "output_ok lines bytes (extend_pending b part)"
proof -
  let ?e = "floor_char_boundary part (min (length part) (bytes - length (ob_pending b)))"
  have "?e \<le> bytes - length (ob_pending b)" using floor_char_boundary_le min.boundedE by blast
  moreover have "length (ob_pending b) \<le> bytes" "ob_max_bytes b = bytes" using assms by (simp_all add: output_ok_def)
  ultimately have "length (ob_pending b @ take ?e part) \<le> bytes"
    "extend_pending b part = b \<or>
       extend_pending b part = b\<lparr>ob_pending := ob_pending b @ take ?e part, ob_pending_truncated := ?e < length part\<rparr>"
    by (simp_all add: extend_pending_def Let_def saturating_sub_def)
  then show ?thesis using assms unfolding output_ok_def by (elim disjE) (simp_all only: output_buffer.simps, simp_all)
qed

lemma push_fragment_ok:
  assumes "output_ok lines bytes b" "bytes \<le> 2 ^ 61"
  shows "output_ok lines bytes (push_fragment b s)"
proof -
  have "output_ok lines bytes (foldl (\<lambda>b part. extend_pending (flush_pending b) part) b parts)"
    if "output_ok lines bytes b" for parts b
    using that
  proof (induction parts arbitrary: b)
    case (Cons p parts)
    from Cons.IH [OF extend_pending_ok [OF flush_pending_ok [OF Cons.prems assms(2)]]] show ?case by simp
  qed simp
  with assms(1) show ?thesis by (auto simp: push_fragment_def extend_pending_ok split: list.splits)
qed

lemma output_run_ok:
  assumes "output_run l b" "max_output_bytes l \<le> 2 ^ 61"
  shows "output_ok (max (max_output_lines l) 1) (max (max_output_bytes l) 1) b"
  using assms
proof (induction rule: output_run.induct)
  case new
  then show ?case by (simp add: output_ok_def output_new_def)
qed (simp_all add: push_line_ok push_fragment_ok push_block_def output_finish_def flush_pending_ok)

lemma join_length: "length (join c xs) \<le> cost xs"
  by (induction c xs rule: join.induct) auto

lemma shown_nat_length: "n < 10 ^ Suc k \<Longrightarrow> length (show_nat n) \<le> Suc k"
proof (induction k arbitrary: n)
  case 0
  then show ?case by (subst show_nat.simps) simp
next
  case (Suc k)
  then have "n div 10 < 10 ^ Suc k" by (intro less_mult_imp_div_less) (simp add: mult.commute)
  with Suc.IH [of "n div 10"] show ?case by (subst show_nat.simps) simp
qed

lemma truncation_line_length: "n \<le> u64_max \<Longrightarrow> length (truncation_line n) \<le> 59"
  using shown_nat_length [of n 19] by (simp add: truncation_line_def u64_max_def)

text \<open>whatever a script writes, and however it is cut into fragments, lines and blocks, the buffer
  holds no more lines than its limit, and what it shows exceeds the limit of bytes by no more than the
  notice; an unfinished line never grows past the limit either.\<close>

theorem output_bounded:
  assumes "output_run l b" "max_output_bytes l \<le> 2 ^ 61"
  shows "length (ob_head b) + length (ob_tail b) \<le> max (max_output_lines l) 1 \<and>
    length (ob_pending b) \<le> max (max_output_bytes l) 1 \<and> length (render b) \<le> max (max_output_bytes l) 1 + 63"
proof -
  let ?lines = "max (max_output_lines l) 1" and ?bytes = "max (max_output_bytes l) 1"
  have ok: "output_ok ?lines ?bytes b" by (rule output_run_ok [OF assms])
  show ?thesis
  proof (cases "ob_truncated b")
    case True
    have "length (render b) \<le> cost (ob_head b @ truncation_line (ob_total_lines b) # ob_tail b)"
      unfolding render_def using True join_length by (simp only: if_True)
    also have "\<dots> \<le> (?bytes - last_half ?bytes) + 60 + (last_half ?bytes + 3)"
      using ok True truncation_line_length [of "ob_total_lines b"] by (simp add: output_ok_def)
    finally have "length (render b) \<le> ?bytes + 63" using last_half_bounds [of ?bytes] by (simp add: last_half_def)
    moreover have "?lines - last_half ?lines + last_half ?lines = ?lines" by (simp add: last_half_def)
    ultimately show ?thesis using ok True unfolding output_ok_def by linarith
  next
    case False
    then have "length (render b) \<le> cost (ob_head b)" using join_length by (simp add: render_def)
    with ok False show ?thesis by (auto simp: output_ok_def)
  qed
qed

theorem output_bounded_witness:
  "length (render (output_finish (push_fragment (output_new (default_limits\<lparr>max_output_bytes := 2\<rparr>)) ''abcdefgh''))) \<le> 65"
  using output_bounded [OF output_run.finish [OF output_run.fragment [OF output_run.new,
        of "default_limits\<lparr>max_output_bytes := 2\<rparr>" "''abcdefgh''"]]]
  by (simp add: default_limits_def)

text \<open>A line that a fragment cuts is clamped again when it is flushed, but then it is within the limit,
  so the clamping adds no mark: what is shown has lost text, the buffer does not count as truncated
  and nothing says so.\<close>

lemma fragment_cut_unmarked:
  "let b = output_finish (push_fragment (output_new (default_limits\<lparr>max_output_bytes := 4\<rparr>))
       [CHR ''a'', CHR ''a'', CHR ''a'', CHR 0xC3, CHR 0xA9])
   in render b = ''aaa'' \<and> \<not> ob_truncated b"
proof -
  let ?s = "[CHR ''a'', CHR ''a'', CHR ''a'', CHR 0xC3, CHR 0xA9]"
  have "floor_char_boundary ?s (Suc (Suc (Suc (Suc 0)))) = Suc (Suc (Suc 0))" by (simp add: floor_char_boundary_def)
  then have "push_fragment (output_new (default_limits\<lparr>max_output_bytes := 4\<rparr>)) ?s =
      (output_new (default_limits\<lparr>max_output_bytes := 4\<rparr>))\<lparr>ob_pending := ''aaa'', ob_pending_truncated := True\<rparr>"
    by (simp add: push_fragment_def output_new_def extend_pending_def saturating_sub_def Let_def)
  then show ?thesis
    by (simp add: output_finish_def flush_pending_def push_line_def clamp_line_def render_def default_limits_def
        output_new_def DEFAULT_MAX_OUTPUT_LINES_def saturating_add_def u64_max_def)
qed

end
