(* ===== verification/Shell_Deadline.thy ===== *)
theory Shell_Deadline
  imports Process_Tree
begin

text \<open>
  Computations of the shell that stop when a limit of the tree is reached: the deadline they read or the
  steps they charge (\<open>Budget::check_deadline\<close>, \<open>Budget::charge_step\<close>). Once a limit is reached it
  stays reached, so a computation is given how many of these reads still succeed and the error of the
  first that does not.
\<close>

type_synonym ('e, 'a) timed = "nat \<Rightarrow> ('e, 'a \<times> nat) result"

definition timed_return :: "'a \<Rightarrow> ('e, 'a) timed" where
  "timed_return x = (\<lambda>r. Inr (x, r))"

definition timed_fail :: "'e \<Rightarrow> ('e, 'a) timed" where
  "timed_fail e = (\<lambda>r. Inl e)"

definition timed_bind :: "('e, 'a) timed \<Rightarrow> ('a \<Rightarrow> ('e, 'b) timed) \<Rightarrow> ('e, 'b) timed" where
  "timed_bind m f = (\<lambda>r. case m r of Inl e \<Rightarrow> Inl e | Inr (x, r) \<Rightarrow> f x r)"

definition read_deadline :: "'e \<Rightarrow> ('e, unit) timed" where
  "read_deadline late = (\<lambda>r. case r of 0 \<Rightarrow> Inl late | Suc r \<Rightarrow> Inr ((), r))"

definition check_deadline_at :: "'e \<Rightarrow> nat \<Rightarrow> ('e, unit) timed" where
  "check_deadline_at late index = (if index mod 256 = 0 then read_deadline late else timed_return ())"

text \<open>A computation settles on a result when it reads the deadline some number of times and then has
  that result, unless the deadline came before.\<close>

definition settles :: "'e \<Rightarrow> ('e, 'a) timed \<Rightarrow> ('e, 'a) result \<Rightarrow> bool" where
  "settles late m res \<longleftrightarrow>
     (\<exists>n. \<forall>r. m r = (if r < n then Inl late else case res of Inl e \<Rightarrow> Inl e | Inr x \<Rightarrow> Inr (x, r - n)))"

named_theorems settled \<open>what computations settle on\<close>

lemma settles_return [settled]: "settles late (timed_return x) (Inr x)"
  unfolding settles_def timed_return_def by (rule exI [of _ 0]) simp

lemma settles_fail [settled]: "settles late (timed_fail e) (Inl e)"
  unfolding settles_def timed_fail_def by (rule exI [of _ 0]) simp

lemma settles_read [settled]: "settles late (read_deadline late) (Inr ())"
  unfolding settles_def read_deadline_def by (rule exI [of _ 1]) (auto split: nat.splits)

lemma settles_check [settled]: "settles late (check_deadline_at late i) (Inr ())"
  by (simp add: check_deadline_at_def settled)

lemma settles_bind:
  assumes "settles late m (Inr x)" "settles late (f x) res"
  shows "settles late (timed_bind m f) res"
proof -
  from assms obtain n k where n: "\<And>r. m r = (if r < n then Inl late else Inr (x, r - n))"
    and k: "\<And>r. f x r = (if r < k then Inl late else case res of Inl e \<Rightarrow> Inl e | Inr y \<Rightarrow> Inr (y, r - k))"
    unfolding settles_def by force
  then have "timed_bind m f r = (if r < n + k then Inl late else case res of Inl e \<Rightarrow> Inl e | Inr y \<Rightarrow> Inr (y, r - (n + k)))" for r
    by (auto simp: timed_bind_def split: sum.splits)
  then show ?thesis unfolding settles_def by blast
qed

lemma settles_bind_fail:
  assumes "settles late m (Inl e)"
  shows "settles late (timed_bind m f) (Inl e)"
proof -
  from assms obtain n where "\<And>r. m r = (if r < n then Inl late else Inl e)" unfolding settles_def by force
  then show ?thesis unfolding settles_def timed_bind_def by (intro exI [of _ n]) simp
qed

lemma settles_check_then: "settles late m res \<Longrightarrow> settles late (timed_bind (check_deadline_at late i) (\<lambda>_. m)) res"
  by (rule settles_bind [OF settles_check])

lemma settles_unique:
  assumes "settles late m res" "settles late m res'"
  shows "res = res'"
proof -
  from assms obtain n k where
    "\<And>r. m r = (if r < n then Inl late else case res of Inl e \<Rightarrow> Inl e | Inr x \<Rightarrow> Inr (x, r - n))"
    "\<And>r. m r = (if r < k then Inl late else case res' of Inl e \<Rightarrow> Inl e | Inr x \<Rightarrow> Inr (x, r - k))"
    unfolding settles_def by blast
  then have "(case res of Inl e \<Rightarrow> Inl e | Inr x \<Rightarrow> Inr (x, max n k - n)) = (case res' of Inl e \<Rightarrow> Inl e | Inr x \<Rightarrow> Inr (x, max n k - k))"
    by (metis linorder_not_less max.cobounded1 max.cobounded2)
  then show ?thesis by (auto split: sum.splits)
qed

end
