(* ===== verification/Shell_Pattern.thy ===== *)
theory Shell_Pattern
  imports Shell_Deadline Rust_Text
begin

text \<open>
  The patterns of \<open>case\<close> (\<open>dekopon-shell/src/interp/case_pattern.rs\<close>): a pattern is brought
  into a form without backslashes, cut into tokens with a table of closing brackets, and matched
  against the characters of the subject one token at a time, keeping for each beginning of the subject
  whether the tokens so far match it. The code reads the deadline on the way. A computation here is
  given how many of these reads still come before the deadline, so it either ends with the deadline or
  has its one result.
\<close>

section \<open>Patterns\<close>

text \<open>Characters are Unicode scalar values.\<close>

datatype pattern_char = Unquoted nat | Quoted nat

fun pattern_character :: "pattern_char \<Rightarrow> nat" where
  "pattern_character (Unquoted c) = c"
| "pattern_character (Quoted c) = c"

definition is_unquoted :: "pattern_char \<Rightarrow> nat \<Rightarrow> bool" where
  "is_unquoted p expected \<longleftrightarrow> p = Unquoted expected"

datatype pattern_token = TokLiteral nat | TokAny | TokStar | TokBracket "pattern_char list" bool

datatype unsupported_bracket = BracketClass | BracketCollating | BracketEquivalence

datatype pattern_failure = PatternLimit limit_exceeded | PatternUsage unsupported_bracket

text \<open>Backslashes: an unquoted one quotes an unquoted character, and stands for itself before a quoted
  one, which then loses its quotes, and at the end.\<close>

function normalize :: "pattern_char list \<Rightarrow> pattern_char list" where
  "normalize [] = []"
| "normalize (x # xs) =
     (if x = Unquoted 92 then
        (case xs of
           [] \<Rightarrow> [Quoted 92]
         | Unquoted c # ys \<Rightarrow> Quoted c # normalize ys
         | Quoted c # ys \<Rightarrow> Quoted 92 # normalize (Unquoted c # ys))
      else x # normalize xs)"
  by pat_completeness auto
termination by (relation "measure length") auto

declare normalize.simps(2) [simp del]

text \<open>The same loop, reading the deadline with the number of characters written so far.\<close>

function normalize_loop :: "'e \<Rightarrow> pattern_char list \<Rightarrow> pattern_char list \<Rightarrow> ('e, pattern_char list) timed" where
  "normalize_loop late acc [] = timed_return acc"
| "normalize_loop late acc (x # xs) =
     timed_bind (check_deadline_at late (length acc)) (\<lambda>_.
       if x = Unquoted 92 then
         (case xs of
            [] \<Rightarrow> normalize_loop late (acc @ [Quoted 92]) []
          | Unquoted c # ys \<Rightarrow> normalize_loop late (acc @ [Quoted c]) ys
          | Quoted c # ys \<Rightarrow> normalize_loop late (acc @ [Quoted 92]) (Unquoted c # ys))
       else normalize_loop late (acc @ [x]) xs)"
  by pat_completeness auto
termination by (relation "measure (\<lambda>(_, _, xs). length xs)") auto

declare normalize_loop.simps(2) [simp del]

text \<open>The table of the next closing bracket at each index, filled from the end.\<close>

fun closers_loop :: "'e \<Rightarrow> pattern_char list \<Rightarrow> nat option list \<Rightarrow> ('e, nat option list) timed" where
  "closers_loop late [] acc = timed_return acc"
| "closers_loop late (x # before) acc =
     timed_bind (check_deadline_at late (length before)) (\<lambda>_.
       closers_loop late before ((if x = Unquoted 93 then Some (length before) else hd acc) # acc))"

text \<open>The entries of the finished table.\<close>

fun next_closer :: "pattern_char list \<Rightarrow> nat \<Rightarrow> nat option" where
  "next_closer [] i = None"
| "next_closer (x # xs) 0 = (if x = Unquoted 93 then Some 0 else map_option Suc (next_closer xs 0))"
| "next_closer (x # xs) (Suc i) = map_option Suc (next_closer xs i)"

fun reject_posix :: "pattern_failure \<Rightarrow> nat \<Rightarrow> pattern_char list \<Rightarrow> (pattern_failure, unit) timed" where
  "reject_posix late index (x # y # zs) =
     timed_bind (check_deadline_at late index) (\<lambda>_.
       if is_unquoted x 91 then
         (if y = Unquoted 58 then timed_fail (PatternUsage BracketClass)
          else if y = Unquoted 46 then timed_fail (PatternUsage BracketCollating)
          else if y = Unquoted 61 then timed_fail (PatternUsage BracketEquivalence)
          else reject_posix late (Suc index) (y # zs))
       else reject_posix late (Suc index) (y # zs))"
| "reject_posix late index xs = timed_return ()"

definition holds_at :: "'a list \<Rightarrow> nat \<Rightarrow> ('a \<Rightarrow> bool) \<Rightarrow> bool" where
  "holds_at xs i P \<longleftrightarrow> i < length xs \<and> P (xs ! i)"

lemma next_closer_bounds: "next_closer xs i = Some e \<Longrightarrow> i \<le> e \<and> e < length xs"
  by (induction xs i arbitrary: e rule: next_closer.induct) (auto split: if_splits)

text \<open>Where the members of a bracket begin, after its negation, and where its closing bracket is looked
  for, after a closing bracket that comes first and is a member.\<close>

definition bracket_negated :: "pattern_char list \<Rightarrow> nat \<Rightarrow> bool" where
  "bracket_negated xs start \<longleftrightarrow> holds_at xs start (\<lambda>c. is_unquoted c 33 \<or> is_unquoted c 94)"

definition bracket_members :: "pattern_char list \<Rightarrow> nat \<Rightarrow> nat" where
  "bracket_members xs start = start + (if bracket_negated xs start then 1 else 0)"

definition after_initial_close :: "pattern_char list \<Rightarrow> nat \<Rightarrow> nat" where
  "after_initial_close xs start =
     bracket_members xs start + (if holds_at xs (bracket_members xs start) (\<lambda>c. is_unquoted c 93) then 1 else 0)"

lemma after_initial_close_ge: "start \<le> bracket_members xs start" "bracket_members xs start \<le> after_initial_close xs start"
  by (simp_all add: after_initial_close_def bracket_members_def)

text \<open>The entries of the table are looked up as \<open>next_closer\<close>; the loop above fills them in.\<close>

function tokens_loop ::
  "pattern_failure \<Rightarrow> pattern_char list \<Rightarrow> nat \<Rightarrow> pattern_token list \<Rightarrow> (pattern_failure, pattern_token list) timed" where
  "tokens_loop late xs index acc =
     (if index < length xs then
        timed_bind (check_deadline_at late (length acc)) (\<lambda>_.
          if xs ! index = Unquoted 42 then tokens_loop late xs (index + 1) (acc @ [TokStar])
          else if xs ! index = Unquoted 63 then tokens_loop late xs (index + 1) (acc @ [TokAny])
          else if xs ! index = Unquoted 91 then
            (case next_closer xs (after_initial_close xs (index + 1)) of
               Some close \<Rightarrow>
                 let contents = drop (bracket_members xs (index + 1)) (take close xs)
                 in timed_bind (reject_posix late 0 contents) (\<lambda>_.
                      tokens_loop late xs (close + 1) (acc @ [TokBracket contents (bracket_negated xs (index + 1))]))
             | None \<Rightarrow> tokens_loop late xs (index + 1) (acc @ [TokLiteral 91]))
          else tokens_loop late xs (index + 1) (acc @ [TokLiteral (pattern_character (xs ! index))]))
      else timed_return acc)"
  by pat_completeness auto
termination
proof (relation "measure (\<lambda>(_, xs, index, _). length xs - index)")
  fix late :: pattern_failure and xs index and acc :: "pattern_token list" and u close contents u'
  assume "index < length xs" "next_closer xs (after_initial_close xs (index + 1)) = Some close"
  then show "((late, xs, close + 1, acc @ [TokBracket contents (bracket_negated xs (index + 1))]), late, xs, index, acc)
      \<in> measure (\<lambda>(_, xs, index, _). length xs - index)"
    using next_closer_bounds [of xs "after_initial_close xs (index + 1)" close] after_initial_close_ge [where start = "index + 1" and xs = xs]
    by (simp, linarith)
qed auto

declare tokens_loop.simps [simp del]

section \<open>Matching\<close>

fun bracket_loop :: "'e \<Rightarrow> nat \<Rightarrow> nat \<Rightarrow> bool \<Rightarrow> pattern_char list \<Rightarrow> ('e, bool) timed" where
  "bracket_loop late c visited matched (x # y # z # rest) =
     timed_bind (check_deadline_at late visited) (\<lambda>_.
       if is_unquoted y 45
       then bracket_loop late c (Suc visited) (matched \<or> (pattern_character x \<le> c \<and> c \<le> pattern_character z)) rest
       else bracket_loop late c (Suc visited) (matched \<or> pattern_character x = c) (y # z # rest))"
| "bracket_loop late c visited matched (x # rest) =
     timed_bind (check_deadline_at late visited) (\<lambda>_.
       bracket_loop late c (Suc visited) (matched \<or> pattern_character x = c) rest)"
| "bracket_loop late c visited matched [] = timed_return matched"

fun token_matches :: "'e \<Rightarrow> pattern_token \<Rightarrow> nat \<Rightarrow> ('e, bool) timed" where
  "token_matches late (TokLiteral l) c = timed_return (l = c)"
| "token_matches late TokAny c = timed_return True"
| "token_matches late TokStar c = timed_return True"
| "token_matches late (TokBracket members negated) c =
     timed_bind (bracket_loop late c 0 False members) (\<lambda>matched. timed_return (matched \<noteq> negated))"

fun star_loop :: "'e \<Rightarrow> nat \<Rightarrow> bool \<Rightarrow> bool list \<Rightarrow> ('e, bool list) timed" where
  "star_loop late index latest [] = timed_return []"
| "star_loop late index latest (p # ps) =
     timed_bind (check_deadline_at late index) (\<lambda>_.
     timed_bind (star_loop late (Suc index) (p \<or> latest) ps) (\<lambda>rest. timed_return ((p \<or> latest) # rest)))"

fun character_loop :: "'e \<Rightarrow> pattern_token \<Rightarrow> nat \<Rightarrow> bool list \<Rightarrow> nat list \<Rightarrow> ('e, bool list) timed" where
  "character_loop late t index (p # ps) (c # cs) =
     timed_bind (check_deadline_at late index) (\<lambda>_.
     timed_bind (if p then token_matches late t c else timed_return False) (\<lambda>b.
     timed_bind (character_loop late t (Suc index) ps cs) (\<lambda>rest. timed_return (b # rest))))"
| "character_loop late t index ps cs = timed_return []"

definition next_row :: "'e \<Rightarrow> pattern_token \<Rightarrow> nat list \<Rightarrow> bool list \<Rightarrow> ('e, bool list) timed" where
  "next_row late t subject previous =
     timed_bind (read_deadline late) (\<lambda>_.
       if t = TokStar
       then timed_bind (star_loop late 0 (hd previous) (tl previous)) (\<lambda>rest. timed_return (hd previous # rest))
       else timed_bind (character_loop late t 0 previous subject) (\<lambda>rest. timed_return (False # rest)))"

fun rows :: "'e \<Rightarrow> pattern_token list \<Rightarrow> nat list \<Rightarrow> bool list \<Rightarrow> ('e, bool list) timed" where
  "rows late [] subject previous = timed_return previous"
| "rows late (t # ts) subject previous =
     timed_bind (next_row late t subject previous) (\<lambda>next. rows late ts subject next)"

fun characters_loop :: "'e \<Rightarrow> nat \<Rightarrow> nat list \<Rightarrow> ('e, nat list) timed" where
  "characters_loop late index [] = timed_return []"
| "characters_loop late index (c # cs) =
     timed_bind (check_deadline_at late index) (\<lambda>_.
     timed_bind (characters_loop late (Suc index) cs) (\<lambda>rest. timed_return (c # rest)))"

text \<open>The sizes of \<open>PatternChar\<close>, \<open>Option<usize>\<close> and \<open>Token\<close> are the compiler's.\<close>

definition scratch_bytes :: "nat \<times> nat \<times> nat \<Rightarrow> pattern_char list \<Rightarrow> string \<Rightarrow> nat" where
  "scratch_bytes sizes pattern subject =
     (case sizes of (pattern_char, index, token) \<Rightarrow>
        saturating_add (saturating_add (saturating_add (saturating_mul (length pattern) (pattern_char + index + token)) index)
          (saturating_mul (length subject) (4 + 2))) 2)"

definition case_matches ::
  "nat \<times> nat \<times> nat \<Rightarrow> tree_context \<Rightarrow> pattern_char list \<Rightarrow> string \<Rightarrow> (pattern_failure, bool) timed" where
  "case_matches sizes t pattern subject =
     (let late = PatternLimit (deadline_exceeded t)
      in case retain t (scratch_bytes sizes pattern subject) of
           (_, Inl e) \<Rightarrow> timed_fail (PatternLimit e)
         | (_, Inr _) \<Rightarrow>
             timed_bind (normalize_loop late [] pattern) (\<lambda>normalized.
             timed_bind (closers_loop late (rev normalized) [None]) (\<lambda>closers.
             timed_bind (tokens_loop late normalized 0 []) (\<lambda>tokens.
             timed_bind (characters_loop late 0 (chars subject)) (\<lambda>subject.
             timed_bind (rows late tokens subject (True # replicate (length subject) False)) (\<lambda>row.
             timed_bind (read_deadline late) (\<lambda>_. timed_return (row ! length subject))))))))"

section \<open>The reference\<close>

text \<open>What a pattern means, read off the list of its characters.\<close>

fun until_close :: "pattern_char list \<Rightarrow> (pattern_char list \<times> pattern_char list) option" where
  "until_close [] = None"
| "until_close (x # xs) =
     (if x = Unquoted 93 then Some ([], xs) else map_option (\<lambda>(before, after). (x # before, after)) (until_close xs))"

definition negation :: "pattern_char list \<Rightarrow> bool" where
  "negation xs \<longleftrightarrow> (case xs of [] \<Rightarrow> False | x # _ \<Rightarrow> x = Unquoted 33 \<or> x = Unquoted 94)"

definition initial_close :: "pattern_char list \<Rightarrow> bool" where
  "initial_close xs \<longleftrightarrow> (case xs of [] \<Rightarrow> False | x # _ \<Rightarrow> x = Unquoted 93)"

definition bracket :: "pattern_char list \<Rightarrow> (bool \<times> pattern_char list \<times> pattern_char list) option" where
  "bracket xs =
     (let ys = (if negation xs then tl xs else xs)
      in if initial_close ys
         then map_option (\<lambda>(members, after). (negation xs, hd ys # members, after)) (until_close (tl ys))
         else map_option (\<lambda>(members, after). (negation xs, members, after)) (until_close ys))"

fun posix :: "pattern_char list \<Rightarrow> unsupported_bracket option" where
  "posix (x # y # zs) =
     (if x = Unquoted 91 \<and> y = Unquoted 58 then Some BracketClass
      else if x = Unquoted 91 \<and> y = Unquoted 46 then Some BracketCollating
      else if x = Unquoted 91 \<and> y = Unquoted 61 then Some BracketEquivalence
      else posix (y # zs))"
| "posix xs = None"

lemma until_close_Some: "until_close xs = Some (before, after) \<Longrightarrow> xs = before @ Unquoted 93 # after"
  by (induction xs arbitrary: before) (auto split: if_splits)

lemma bracket_shorter: "bracket xs = Some (neg, members, after) \<Longrightarrow> length after < length xs"
  by (auto simp: bracket_def Let_def negation_def initial_close_def dest!: until_close_Some
      split: if_splits list.splits)

function pattern_tokens :: "pattern_char list \<Rightarrow> (unsupported_bracket, pattern_token list) result" where
  "pattern_tokens [] = Inr []"
| "pattern_tokens (x # xs) =
     (if x = Unquoted 42 then res_bind (pattern_tokens xs) (\<lambda>ts. Inr (TokStar # ts))
      else if x = Unquoted 63 then res_bind (pattern_tokens xs) (\<lambda>ts. Inr (TokAny # ts))
      else if x = Unquoted 91 then
        (case bracket xs of
           None \<Rightarrow> res_bind (pattern_tokens xs) (\<lambda>ts. Inr (TokLiteral 91 # ts))
         | Some (neg, members, after) \<Rightarrow>
             (case posix members of
                Some e \<Rightarrow> Inl e
              | None \<Rightarrow> res_bind (pattern_tokens after) (\<lambda>ts. Inr (TokBracket members neg # ts))))
      else res_bind (pattern_tokens xs) (\<lambda>ts. Inr (TokLiteral (pattern_character x) # ts)))"
  by pat_completeness auto
termination by (relation "measure length") (auto dest: bracket_shorter)

fun in_bracket :: "nat \<Rightarrow> pattern_char list \<Rightarrow> bool" where
  "in_bracket c (x # y # z # rest) \<longleftrightarrow>
     (if y = Unquoted 45 then (pattern_character x \<le> c \<and> c \<le> pattern_character z) \<or> in_bracket c rest
      else pattern_character x = c \<or> in_bracket c (y # z # rest))"
| "in_bracket c (x # rest) \<longleftrightarrow> pattern_character x = c \<or> in_bracket c rest"
| "in_bracket c [] \<longleftrightarrow> False"

text \<open>A token stands for a piece of the subject: a star for any, every other token for one character.\<close>

fun stands_for :: "pattern_token \<Rightarrow> nat list \<Rightarrow> bool" where
  "stands_for TokStar w \<longleftrightarrow> True"
| "stands_for TokAny w \<longleftrightarrow> length w = 1"
| "stands_for (TokLiteral l) w \<longleftrightarrow> w = [l]"
| "stands_for (TokBracket members negated) w \<longleftrightarrow> length w = 1 \<and> in_bracket (hd w) members \<noteq> negated"

definition tokens_match :: "pattern_token list \<Rightarrow> nat list \<Rightarrow> bool" where
  "tokens_match ts w \<longleftrightarrow> (\<exists>pieces. list_all2 stands_for ts pieces \<and> concat pieces = w)"

section \<open>The code follows the reference\<close>

lemma normalize_settles: "settles late (normalize_loop late acc xs) (Inr (acc @ normalize xs))"
proof (induction late acc xs rule: normalize_loop.induct)
  case (1 late acc)
  then show ?case by (simp add: settled)
next
  case (2 late acc x xs)
  consider "x \<noteq> Unquoted 92" | "x = Unquoted 92" "xs = []" | c ys where "x = Unquoted 92" "xs = Unquoted c # ys"
    | c ys where "x = Unquoted 92" "xs = Quoted c # ys"
    by (metis neq_Nil_conv pattern_char.exhaust)
  then show ?case
    by cases (use 2 in \<open>simp_all add: normalize.simps(2) [of "Unquoted 92"] normalize_loop.simps(2) [of late acc "Unquoted 92"]
      normalize.simps(2) [of x] normalize_loop.simps(2) [of late acc x] settled settles_check_then\<close>)
qed

lemma next_closer_until: "next_closer xs i = map_option (\<lambda>(before, _). i + length before) (until_close (drop i xs))"
  by (induction xs i rule: next_closer.induct) (auto simp: option.map_comp comp_def intro!: option.map_cong0)

lemma next_closer_step:
  assumes "i < length xs"
  shows "next_closer xs i = (if xs ! i = Unquoted 93 then Some i else next_closer xs (Suc i))"
  unfolding next_closer_until Cons_nth_drop_Suc [OF assms, symmetric]
  by (auto simp: option.map_comp comp_def intro!: option.map_cong0)

text \<open>The table that is filled from the end holds the next closing brackets.\<close>

lemma closers_settle:
  "settles late (closers_loop late before (map (next_closer (rev before @ xs)) [length before..<Suc (length before + length xs)]))
     (Inr (map (next_closer (rev before @ xs)) [0..<Suc (length before + length xs)]))"
proof (induction before arbitrary: xs)
  case Nil
  then show ?case by (simp add: settled)
next
  case (Cons x before)
  let ?all = "rev before @ x # xs"
  have "next_closer ?all (length before) =
      (if x = Unquoted 93 then Some (length before) else next_closer ?all (Suc (length before)))"
    using next_closer_step [of "length before" ?all] by (simp add: nth_append)
  moreover have "[length before..<Suc (length before + length (x # xs))] =
      length before # [Suc (length before)..<Suc (Suc (length before + length xs))]"
    by (simp add: upt_conv_Cons del: upt_Suc)
  moreover have "hd (map (next_closer ?all) [Suc (length before)..<Suc (Suc (length before + length xs))]) =
      next_closer ?all (Suc (length before))"
    by (simp add: upt_conv_Cons del: upt_Suc)
  ultimately have "(if x = Unquoted 93 then Some (length before) else
        hd (map (next_closer ?all) [Suc (length before)..<Suc (Suc (length before + length xs))]))
      # map (next_closer ?all) [Suc (length before)..<Suc (Suc (length before + length xs))] =
      map (next_closer ?all) [length before..<Suc (length before + length (x # xs))]"
    by (simp only: list.map)
  with settles_check_then [OF Cons.IH [of "x # xs"]] show ?case by (simp del: upt_Suc)
qed

lemma reject_settles:
  "settles late (reject_posix late i xs) (case posix xs of None \<Rightarrow> Inr () | Some e \<Rightarrow> Inl (PatternUsage e))"
  by (induction late i xs rule: reject_posix.induct) (auto simp: settled is_unquoted_def intro!: settles_check_then)

lemma holds_at_drop: "holds_at xs i P \<longleftrightarrow> (case drop i xs of [] \<Rightarrow> False | y # _ \<Rightarrow> P y)"
  by (cases "i < length xs") (simp_all add: holds_at_def Cons_nth_drop_Suc [symmetric])

lemma bracket_at:
  "bracket (drop i xs) = map_option (\<lambda>close. (bracket_negated xs i, drop (bracket_members xs i) (take close xs), drop (close + 1) xs))
     (next_closer xs (after_initial_close xs i))"
proof -
  define ys where "ys = (if negation (drop i xs) then tl (drop i xs) else drop i xs)"
  have neg: "bracket_negated xs i = negation (drop i xs)"
    by (simp add: bracket_negated_def holds_at_drop negation_def is_unquoted_def split: list.splits)
  then have ys: "drop (bracket_members xs i) xs = ys" by (simp add: ys_def bracket_members_def drop_Suc tl_drop)
  then have initial: "holds_at xs (bracket_members xs i) (\<lambda>c. is_unquoted c 93) = initial_close ys"
    by (simp add: holds_at_drop initial_close_def is_unquoted_def split: list.splits)
  have piece: "drop j (take (j + length before) xs) = before \<and> drop (j + length before + 1) xs = after"
    if "until_close (drop j xs) = Some (before, after)" for j before after
  proof -
    have d: "drop j xs = before @ Unquoted 93 # after" using until_close_Some [OF that] .
    have "drop j (take (j + length before) xs) = take (length before) (drop j xs)" by (simp add: drop_take)
    moreover have "drop (j + length before + 1) xs = drop (length before + 1) (drop j xs)" by (simp add: add.commute add.left_commute)
    ultimately show ?thesis by (simp add: d)
  qed
  show ?thesis
  proof (cases "initial_close ys")
    case True
    then obtain zs where zs: "ys = Unquoted 93 # zs" by (auto simp: initial_close_def split: list.splits)
    let ?j = "bracket_members xs i"
    have "drop (Suc ?j) xs = zs" using ys zs by (metis drop_Suc list.sel(3) tl_drop)
    moreover have "drop ?j (take (Suc ?j + n) xs) = Unquoted 93 # drop (Suc ?j) (take (Suc ?j + n) xs)" for n
    proof -
      have "drop ?j (take (Suc ?j + n) xs) = take (Suc n) (drop ?j xs)"
        "drop (Suc ?j) (take (Suc ?j + n) xs) = take n (drop (Suc ?j) xs)"
        by (simp_all add: drop_take)
      with ys zs \<open>drop (Suc ?j) xs = zs\<close> show ?thesis by simp
    qed
    ultimately show ?thesis
      using True initial zs piece [of "Suc ?j"] neg
      by (cases "until_close (drop (Suc ?j) xs)") (auto simp: bracket_def Let_def ys_def [symmetric] after_initial_close_def next_closer_until)
  next
    case False
    with initial ys piece [of "bracket_members xs i"] neg show ?thesis
      by (cases "until_close ys") (auto simp: bracket_def Let_def ys_def [symmetric] after_initial_close_def next_closer_until)
  qed
qed

lemma tokens_settle:
  "settles late (tokens_loop late xs i acc)
     (case pattern_tokens (drop i xs) of Inl e \<Rightarrow> Inl (PatternUsage e) | Inr ts \<Rightarrow> Inr (acc @ ts))"
proof (induction late xs i acc rule: tokens_loop.induct)
  case (1 late xs i acc)
  show ?case
  proof (cases "i < length xs")
    case False
    then show ?thesis by (subst tokens_loop.simps) (simp add: settled)
  next
    case True
    note ih = 1 [OF True]
    have drop: "drop i xs = xs ! i # drop (i + 1) xs" using Cons_nth_drop_Suc [OF True] by simp
    consider "xs ! i \<noteq> Unquoted 91" | "xs ! i = Unquoted 91" "next_closer xs (after_initial_close xs (i + 1)) = None"
      | close where "xs ! i = Unquoted 91" "next_closer xs (after_initial_close xs (i + 1)) = Some close"
      by (cases "next_closer xs (after_initial_close xs (i + 1))") auto
    then show ?thesis
    proof cases
      case 1
      have "settles late (if xs ! i = Unquoted 42 then tokens_loop late xs (i + 1) (acc @ [TokStar])
          else if xs ! i = Unquoted 63 then tokens_loop late xs (i + 1) (acc @ [TokAny])
          else tokens_loop late xs (i + 1) (acc @ [TokLiteral (pattern_character (xs ! i))]))
          (case pattern_tokens (xs ! i # drop (i + 1) xs) of Inl e \<Rightarrow> Inl (PatternUsage e) | Inr ts \<Rightarrow> Inr (acc @ ts))"
        using 1 ih(1,2,5) by (cases "pattern_tokens (drop (i + 1) xs)") simp_all
      moreover have "tokens_loop late xs i acc = timed_bind (check_deadline_at late (length acc)) (\<lambda>_.
          if xs ! i = Unquoted 42 then tokens_loop late xs (i + 1) (acc @ [TokStar])
          else if xs ! i = Unquoted 63 then tokens_loop late xs (i + 1) (acc @ [TokAny])
          else tokens_loop late xs (i + 1) (acc @ [TokLiteral (pattern_character (xs ! i))]))"
        using 1 True by (subst tokens_loop.simps) (simp only: if_True if_False simp_thms)
      ultimately show ?thesis unfolding drop by (simp only: settles_check_then)
    next
      case 2
      then have "bracket (drop (i + 1) xs) = None" by (simp add: bracket_at)
      with 2 ih(3) have "settles late (tokens_loop late xs (i + 1) (acc @ [TokLiteral 91]))
          (case pattern_tokens (xs ! i # drop (i + 1) xs) of Inl e \<Rightarrow> Inl (PatternUsage e) | Inr ts \<Rightarrow> Inr (acc @ ts))"
        by (cases "pattern_tokens (drop (i + 1) xs)") simp_all
      from settles_check_then [OF this] show ?thesis
        unfolding drop using 2 True by (subst tokens_loop.simps) (simp del: pattern_tokens.simps)
    next
      case 3
      let ?contents = "drop (bracket_members xs (i + 1)) (take close xs)"
      have b: "bracket (drop (i + 1) xs) = Some (bracket_negated xs (i + 1), ?contents, drop (close + 1) xs)"
        using 3 by (simp add: bracket_at)
      have "settles late (timed_bind (reject_posix late 0 ?contents) (\<lambda>_.
            tokens_loop late xs (close + 1) (acc @ [TokBracket ?contents (bracket_negated xs (i + 1))])))
          (case pattern_tokens (xs ! i # drop (i + 1) xs) of Inl e \<Rightarrow> Inl (PatternUsage e) | Inr ts \<Rightarrow> Inr (acc @ ts))"
      proof (cases "posix ?contents")
        case None
        then have "settles late (reject_posix late 0 ?contents) (Inr ())" using reject_settles [of late 0 ?contents] by simp
        then show ?thesis
          using 3 None b ih(4) [OF _ _ _ 3(2) refl]
          by (intro settles_bind) (cases "pattern_tokens (drop (close + 1) xs)"; simp)+
      next
        case (Some e)
        then have "settles late (reject_posix late 0 ?contents) (Inl (PatternUsage e))"
          using reject_settles [of late 0 ?contents] by simp
        then show ?thesis using 3 Some b by (auto intro: settles_bind_fail)
      qed
      from settles_check_then [OF this] show ?thesis
        unfolding drop using 3 True by (subst tokens_loop.simps) (simp add: Let_def del: pattern_tokens.simps)
    qed
  qed
qed

lemma bracket_settles:
  "settles late (bracket_loop late c visited matched members) (Inr (matched \<or> in_bracket c members))"
proof (induction late c visited matched members rule: bracket_loop.induct)
  case (1 late c visited matched x y z rest)
  then show ?case by (auto simp: is_unquoted_def disj_assoc intro!: settles_check_then)
qed (auto simp: settled disj_assoc intro!: settles_check_then)

fun token_holds :: "pattern_token \<Rightarrow> nat \<Rightarrow> bool" where
  "token_holds (TokLiteral l) c \<longleftrightarrow> l = c"
| "token_holds (TokBracket members negated) c \<longleftrightarrow> in_bracket c members \<noteq> negated"
| "token_holds t c \<longleftrightarrow> True"

lemma token_settles: "settles late (token_matches late t c) (Inr (token_holds t c))"
proof (cases t)
  case (TokBracket members negated)
  have "settles late (timed_bind (bracket_loop late c 0 False members) (\<lambda>matched. timed_return (matched \<noteq> negated)))
      (Inr ((False \<or> in_bracket c members) \<noteq> negated))"
    by (rule settles_bind [OF bracket_settles settles_return])
  with TokBracket show ?thesis by simp
qed (simp_all add: settled)

fun running_or :: "bool \<Rightarrow> bool list \<Rightarrow> bool list" where
  "running_or latest [] = []"
| "running_or latest (p # ps) = (p \<or> latest) # running_or (p \<or> latest) ps"

fun advance :: "pattern_token \<Rightarrow> bool list \<Rightarrow> nat list \<Rightarrow> bool list" where
  "advance t (p # ps) (c # cs) = (p \<and> token_holds t c) # advance t ps cs"
| "advance t ps cs = []"

lemma star_settles: "settles late (star_loop late i latest ps) (Inr (running_or latest ps))"
  by (induction late i latest ps rule: star_loop.induct)
    (auto simp: settled intro!: settles_check_then settles_bind)

lemma character_settles: "settles late (character_loop late t i ps cs) (Inr (advance t ps cs))"
proof (induction late t i ps cs rule: character_loop.induct)
  case (1 late t i p ps c cs)
  have "settles late (if p then token_matches late t c else timed_return False) (Inr (p \<and> token_holds t c))"
    by (simp add: token_settles settled)
  then show ?case
    unfolding character_loop.simps advance.simps
    by (intro settles_check_then) (rule settles_bind, assumption, rule settles_bind, rule 1, rule settles_return)
qed (simp_all add: settled)

definition row_after :: "pattern_token \<Rightarrow> nat list \<Rightarrow> bool list \<Rightarrow> bool list" where
  "row_after t subject previous =
     (if t = TokStar then hd previous # running_or (hd previous) (tl previous) else False # advance t previous subject)"

lemma next_row_settles: "settles late (next_row late t subject previous) (Inr (row_after t subject previous))"
  unfolding next_row_def row_after_def
  by (rule settles_bind [OF settles_read])
    (auto intro: settles_bind [OF star_settles settles_return] settles_bind [OF character_settles settles_return])

lemma rows_settle: "settles late (rows late ts subject previous) (Inr (foldl (\<lambda>row t. row_after t subject row) previous ts))"
  by (induction ts arbitrary: previous) (auto simp: settled intro: settles_bind [OF next_row_settles])

lemma characters_settle: "settles late (characters_loop late i cs) (Inr cs)"
proof (induction cs arbitrary: i)
  case (Cons c cs)
  show ?case
    unfolding characters_loop.simps by (rule settles_check_then, rule settles_bind, rule Cons.IH, rule settles_return)
qed (simp add: settled)

section \<open>Rows tell which beginnings match\<close>

lemma tokens_match_Nil [simp]: "tokens_match [] w \<longleftrightarrow> w = []"
  by (auto simp: tokens_match_def)

lemma tokens_match_snoc: "tokens_match (ts @ [t]) w \<longleftrightarrow> (\<exists>u v. w = u @ v \<and> tokens_match ts u \<and> stands_for t v)"
proof
  assume "tokens_match (ts @ [t]) w"
  then obtain pieces where p: "list_all2 stands_for (ts @ [t]) pieces" "concat pieces = w" by (auto simp: tokens_match_def)
  then obtain us v where "pieces = us @ [v]" "list_all2 stands_for ts us" "stands_for t v"
    by (auto simp: list_all2_append1 list_all2_Cons1)
  with p(2) show "\<exists>u v. w = u @ v \<and> tokens_match ts u \<and> stands_for t v" by (auto simp: tokens_match_def)
next
  assume "\<exists>u v. w = u @ v \<and> tokens_match ts u \<and> stands_for t v"
  then obtain pieces v where "w = concat pieces @ v" "list_all2 stands_for ts pieces" "stands_for t v"
    by (auto simp: tokens_match_def)
  then show "tokens_match (ts @ [t]) w"
    unfolding tokens_match_def by (intro exI [of _ "pieces @ [v]"]) (auto intro: list_all2_appendI)
qed

lemma stands_for_single: "t \<noteq> TokStar \<Longrightarrow> stands_for t v \<longleftrightarrow> (\<exists>c. v = [c] \<and> token_holds t c)"
  by (cases t) (auto simp: length_Suc_conv)

lemma tokens_match_star:
  assumes "i \<le> length s"
  shows "tokens_match (ts @ [TokStar]) (take i s) \<longleftrightarrow> (\<exists>j \<le> i. tokens_match ts (take j s))"
proof
  assume "tokens_match (ts @ [TokStar]) (take i s)"
  then obtain u v where uv: "take i s = u @ v" "tokens_match ts u" by (auto simp: tokens_match_snoc)
  have "length u \<le> i" using arg_cong [OF uv(1), of length] assms by simp
  moreover have "u = take (length u) (take i s)" unfolding uv(1) by simp
  then have "u = take (length u) s" using \<open>length u \<le> i\<close> by (simp add: min_def)
  ultimately show "\<exists>j \<le> i. tokens_match ts (take j s)" using uv(2) by metis
next
  assume "\<exists>j \<le> i. tokens_match ts (take j s)"
  then obtain j where "j \<le> i" "tokens_match ts (take j s)" by blast
  moreover have "take i s = take j s @ drop j (take i s)"
    using \<open>j \<le> i\<close> append_take_drop_id [of j "take i s"] by (simp add: min_def)
  ultimately show "tokens_match (ts @ [TokStar]) (take i s)"
    unfolding tokens_match_snoc stands_for.simps by blast
qed

lemma tokens_match_other:
  assumes "t \<noteq> TokStar" "i < length s"
  shows "tokens_match (ts @ [t]) (take (Suc i) s) \<longleftrightarrow> tokens_match ts (take i s) \<and> token_holds t (s ! i)"
  unfolding tokens_match_snoc stands_for_single [OF assms(1)] take_Suc_conv_app_nth [OF assms(2)] by auto

definition row_of :: "pattern_token list \<Rightarrow> nat list \<Rightarrow> bool list" where
  "row_of ts s = map (\<lambda>i. tokens_match ts (take i s)) [0..<Suc (length s)]"

lemma ex_le_Suc: "(\<exists>j \<le> Suc k. P j) \<longleftrightarrow> P 0 \<or> (\<exists>j \<le> k. P (Suc j))"
  by (metis Suc_le_mono le0 not0_implies_Suc)

lemma running_or_nth: "i < length ps \<Longrightarrow> running_or latest ps ! i \<longleftrightarrow> latest \<or> (\<exists>j \<le> i. ps ! j)"
proof (induction latest ps arbitrary: i rule: running_or.induct)
  case (2 latest p ps)
  then show ?case
  proof (cases i)
    case (Suc k)
    with 2 show ?thesis by (auto simp: ex_le_Suc)
  qed auto
qed simp

lemma length_running_or [simp]: "length (running_or latest ps) = length ps"
  by (induction latest ps rule: running_or.induct) simp_all

lemma advance_nth: "i < length cs \<Longrightarrow> length ps = Suc (length cs) \<Longrightarrow> advance t ps cs ! i \<longleftrightarrow> ps ! i \<and> token_holds t (cs ! i)"
proof (induction t ps cs arbitrary: i rule: advance.induct)
  case (1 t p ps c cs)
  then show ?case by (cases i) auto
qed simp_all

lemma length_advance: "length ps = Suc (length cs) \<Longrightarrow> length (advance t ps cs) = length cs"
  by (induction t ps cs rule: advance.induct) simp_all

lemma row_of_nth: "i \<le> length s \<Longrightarrow> row_of ts s ! i \<longleftrightarrow> tokens_match ts (take i s)"
  by (simp add: row_of_def nth_append del: upt_Suc)

lemma row_after_row_of: "row_after t s (row_of ts s) = row_of (ts @ [t]) s"
proof (rule nth_equalityI)
  have len: "length (row_of ts s) = Suc (length s)" by (simp add: row_of_def)
  then obtain p ps where row: "row_of ts s = p # ps" "length ps = length s" by (cases "row_of ts s") auto
  show "length (row_after t s (row_of ts s)) = length (row_of (ts @ [t]) s)"
    using len row by (simp add: row_after_def length_advance) (simp add: row_of_def)
  fix i assume "i < length (row_after t s (row_of ts s))"
  then have i: "i \<le> length s" using len row by (auto simp: row_after_def length_advance split: if_splits)
  show "row_after t s (row_of ts s) ! i = row_of (ts @ [t]) s ! i"
  proof (cases "t = TokStar")
    case True
    have "row_after t s (row_of ts s) ! i \<longleftrightarrow> (\<exists>j \<le> i. row_of ts s ! j)"
    proof (cases i)
      case 0
      with True row show ?thesis by (simp add: row_after_def)
    next
      case (Suc k)
      with i row have "running_or p ps ! k \<longleftrightarrow> p \<or> (\<exists>j \<le> k. ps ! j)" by (intro running_or_nth) simp
      then show ?thesis using True row Suc by (simp add: row_after_def ex_le_Suc)
    qed
    also have "\<dots> \<longleftrightarrow> (\<exists>j \<le> i. tokens_match ts (take j s))" using i row_of_nth by (metis order_trans)
    finally show ?thesis using True i by (simp add: row_of_nth tokens_match_star)
  next
    case False
    show ?thesis
    proof (cases i)
      case 0
      with False show ?thesis by (simp add: row_after_def row_of_nth tokens_match_snoc stands_for_single)
    next
      case (Suc k)
      with False i len show ?thesis
        by (simp add: row_after_def advance_nth row_of_nth tokens_match_other)
    qed
  qed
qed

lemma rows_row_of: "foldl (\<lambda>row t. row_after t s row) (row_of ts s) us = row_of (ts @ us) s"
  by (induction us arbitrary: ts) (simp_all add: row_after_row_of)

lemma first_row: "True # replicate (length s) False = row_of [] s"
  by (rule nth_equalityI) (auto simp: row_of_def nth_Cons nth_append simp del: upt_Suc split: nat.splits)

section \<open>What a pattern matches\<close>

definition pattern_meaning :: "pattern_char list \<Rightarrow> nat list \<Rightarrow> (pattern_failure, bool) result" where
  "pattern_meaning pattern subject =
     (case pattern_tokens (normalize pattern) of
        Inl e \<Rightarrow> Inl (PatternUsage e)
      | Inr ts \<Rightarrow> Inr (tokens_match ts subject))"

lemma case_matches_settles:
  assumes "is_ok (snd (retain t (scratch_bytes sizes pattern subject)))"
  shows "settles (PatternLimit (deadline_exceeded t)) (case_matches sizes t pattern subject)
    (pattern_meaning pattern (chars subject))"
proof -
  let ?late = "PatternLimit (deadline_exceeded t)" and ?s = "chars subject" and ?xs = "normalize pattern"
  have norm: "settles ?late (normalize_loop ?late [] pattern) (Inr ?xs)" using normalize_settles [of ?late "[]"] by simp
  have "settles ?late (closers_loop ?late (rev ?xs) [None]) (Inr (map (next_closer ?xs) [0..<Suc (length ?xs)]))"
    using closers_settle [of ?late "rev ?xs" "[]"] by (simp add: next_closer_until)
  note table = this
  have toks: "settles ?late (tokens_loop ?late ?xs 0 [])
      (case pattern_tokens ?xs of Inl e \<Rightarrow> Inl (PatternUsage e) | Inr ts \<Rightarrow> Inr ts)"
    using tokens_settle [of ?late ?xs 0 "[]"] by (cases "pattern_tokens ?xs") simp_all
  have rest: "settles ?late (timed_bind (characters_loop ?late 0 ?s) (\<lambda>s.
      timed_bind (rows ?late ts s (True # replicate (length s) False)) (\<lambda>row.
      timed_bind (read_deadline ?late) (\<lambda>_. timed_return (row ! length s))))) (Inr (tokens_match ts ?s))" for ts
  proof (rule settles_bind [OF characters_settle], rule settles_bind)
    show "settles ?late (rows ?late ts ?s (True # replicate (length ?s) False)) (Inr (row_of ts ?s))"
      using rows_settle [of ?late ts ?s "row_of [] ?s"] rows_row_of [of ?s "[]" ts] first_row [of ?s] by simp
    have last: "row_of ts ?s ! length ?s = tokens_match ts ?s" by (simp add: row_of_nth)
    show "settles ?late (timed_bind (read_deadline ?late) (\<lambda>_. timed_return (row_of ts ?s ! length ?s)))
        (Inr (tokens_match ts ?s))"
      unfolding last by (rule settles_bind, rule settles_read, rule settles_return)
  qed
  let ?after = "\<lambda>ts. timed_bind (characters_loop ?late 0 ?s) (\<lambda>s.
      timed_bind (rows ?late ts s (True # replicate (length s) False)) (\<lambda>row.
      timed_bind (read_deadline ?late) (\<lambda>_. timed_return (row ! length s))))"
  have "settles ?late (timed_bind (tokens_loop ?late ?xs 0 []) ?after) (pattern_meaning pattern ?s)"
    unfolding pattern_meaning_def
    using toks rest by (cases "pattern_tokens ?xs") (auto intro: settles_bind_fail settles_bind)
  then have "settles ?late (timed_bind (normalize_loop ?late [] pattern) (\<lambda>normalized.
      timed_bind (closers_loop ?late (rev normalized) [None]) (\<lambda>_.
      timed_bind (tokens_loop ?late normalized 0 []) ?after))) (pattern_meaning pattern ?s)"
    by (intro settles_bind [OF norm] settles_bind [OF table])
  moreover obtain t' h where "retain t (scratch_bytes sizes pattern subject) = (t', Inr h)"
    using assms by (cases "retain t (scratch_bytes sizes pattern subject)") (auto simp: is_ok_iff)
  ultimately show ?thesis by (simp add: case_matches_def Let_def)
qed

text \<open>C22: matching a \<open>case\<close> pattern ends, however late it is: it stops with the deadline or, when the
  deadline is far enough, has the result the reference gives, which is whether the tokens of the pattern
  stand for pieces the subject is made of, or that a bracket of the pattern is not supported.\<close>

theorem case_matches_meaning:
  assumes "is_ok (snd (retain t (scratch_bytes sizes pattern subject)))"
  shows "\<exists>reads. \<forall>r. case_matches sizes t pattern subject r =
    (if r < reads then Inl (PatternLimit (deadline_exceeded t))
     else case pattern_meaning pattern (chars subject) of Inl e \<Rightarrow> Inl e | Inr b \<Rightarrow> Inr (b, r - reads))"
  using case_matches_settles [OF assms] unfolding settles_def by simp

text \<open>Quoted text has no wildcards.\<close>

lemma normalize_quoted: "normalize (map Quoted xs) = map Quoted xs"
  by (induction xs) (simp_all add: normalize.simps)

lemma pattern_tokens_quoted: "pattern_tokens (map Quoted xs) = Inr (map TokLiteral xs)"
  by (induction xs) simp_all

lemma tokens_match_literals: "tokens_match (map TokLiteral xs) w \<longleftrightarrow> w = xs"
proof (induction xs arbitrary: w rule: rev_induct)
  case (snoc x xs)
  then show ?case by (simp add: tokens_match_snoc)
qed simp

lemma quoted_meaning: "pattern_meaning (map Quoted xs) subject = Inr (subject = xs)"
  by (simp add: pattern_meaning_def normalize_quoted pattern_tokens_quoted tokens_match_literals)

text \<open>A quoted pattern matches the text it quotes and nothing else, whatever wildcards or
  brackets the text is made of.\<close>

theorem quoted_pattern_matches_itself:
  assumes "is_ok (snd (retain t (scratch_bytes sizes (map Quoted text) subject)))"
    and "case_matches sizes t (map Quoted text) subject r = Inr (b, r')"
  shows "b \<longleftrightarrow> chars subject = text"
proof -
  obtain n where "case_matches sizes t (map Quoted text) subject r =
      (if r < n then Inl (PatternLimit (deadline_exceeded t)) else Inr (chars subject = text, r - n))"
    using case_matches_settles [OF assms(1)] unfolding settles_def quoted_meaning by fastforce
  with assms(2) show ?thesis by (simp split: if_splits)
qed

definition sample_tree :: tree_context where
  "sample_tree = tree_new 5 default_limits (call_budget_new 3) (shell_threads_new 2)"

lemma sample_retains: "n \<le> 1000 \<Longrightarrow> is_ok (snd (retain sample_tree n))"
  by (simp add: retain_def sample_tree_def tree_new_def default_limits_def fetch_add_within_def
      DEFAULT_MAX_VALUE_BYTES_def u64_max_def)

lemma sample_scratch: "scratch_bytes (8, 16, 24) [Unquoted 97, Unquoted 42] ''abc'' = 132"
  by (simp add: scratch_bytes_def saturating_add_def saturating_mul_def u64_max_def)

theorem case_matches_meaning_witness:
  "\<exists>reads. \<forall>r. case_matches (8, 16, 24) sample_tree [Unquoted 97, Unquoted 42] ''abc'' r =
    (if r < reads then Inl (PatternLimit (deadline_exceeded sample_tree)) else Inr (True, r - reads))"
proof -
  have "normalize [Unquoted 97, Unquoted 42] = [Unquoted 97, Unquoted 42]" by (simp add: normalize.simps)
  moreover have "chars ''abc'' = [97, 98, 99]" by (simp add: chars_def utf8_width_def scalar_def)
  moreover have "tokens_match [TokLiteral 97, TokStar] [97, 98, 99]"
    unfolding tokens_match_def by (rule exI [of _ "[[97], [98, 99]]"]) simp
  ultimately have meaning: "pattern_meaning [Unquoted 97, Unquoted 42] (chars ''abc'') = Inr True"
    by (simp add: pattern_meaning_def)
  have "is_ok (snd (retain sample_tree (scratch_bytes (8, 16, 24) [Unquoted 97, Unquoted 42] ''abc'')))"
    by (simp add: sample_scratch sample_retains)
  from case_matches_meaning [OF this] show ?thesis unfolding meaning by (simp only: sum.case)
qed

theorem quoted_pattern_matches_itself_witness:
  "case_matches (8, 16, 24) sample_tree (map Quoted [42]) ''a'' 100 \<noteq> Inr (True, 95)"
proof
  assume a: "case_matches (8, 16, 24) sample_tree (map Quoted [42]) ''a'' 100 = Inr (True, 95)"
  have "is_ok (snd (retain sample_tree (scratch_bytes (8, 16, 24) (map Quoted [42]) ''a'')))"
    by (intro sample_retains) (simp add: scratch_bytes_def saturating_add_def saturating_mul_def u64_max_def)
  from quoted_pattern_matches_itself [OF this a] show False by (simp add: chars_def utf8_width_def scalar_def)
qed

end
