(* ===== verification/Shell_Arith.thy ===== *)
theory Shell_Arith
  imports Shell_Deadline Rust_Text
begin

text \<open>
  Arithmetic expansion, \<open>$(( ... ))\<close>: its tokens and its parser (\<open>dekopon-shell/src/parser.rs\<close>,
  \<open>parser/nested.rs\<close>, \<open>parser/depth.rs\<close>), the expressions with the height that bounds the stack
  (\<open>ast.rs\<close>) and their evaluation (\<open>interp.rs\<close>). The binary levels of the parser are one function
  over the next level, as in the code, and a group parses with what is left of the nesting depth.
  Floating point is a parameter: the operations of \<open>f64\<close> that the code uses.
\<close>

section \<open>Expressions\<close>

datatype unary_op = Negate | Not

datatype binary_op =
    Add | Subtract | Multiply | Divide | Remainder
  | Less | LessOrEqual | Greater | GreaterOrEqual | Equal | NotEqual
  | And | Or

text \<open>\<open>ArithExpr\<close> carries the height of its node.\<close>

datatype 'f arith_expr =
    Integer int nat
  | Float 'f nat
  | Variable string nat
  | Unary unary_op "'f arith_expr" nat
  | Binary binary_op "'f arith_expr" "'f arith_expr" nat

fun arith_height :: "'f arith_expr \<Rightarrow> nat" where
  "arith_height (Integer _ h) = h"
| "arith_height (Float _ h) = h"
| "arith_height (Variable _ h) = h"
| "arith_height (Unary _ _ h) = h"
| "arith_height (Binary _ _ _ h) = h"

definition next_height :: "nat \<Rightarrow> nat option" where
  "next_height h = (if h \<ge> 64 then None else Some (h + 1))"

definition arith_integer :: "int \<Rightarrow> 'f arith_expr" where "arith_integer v = Integer v 0"
definition arith_float :: "'f \<Rightarrow> 'f arith_expr" where "arith_float v = Float v 0"
definition arith_variable :: "string \<Rightarrow> 'f arith_expr" where "arith_variable v = Variable v 0"

definition arith_unary :: "unary_op \<Rightarrow> 'f arith_expr \<Rightarrow> 'f arith_expr option" where
  "arith_unary op x = map_option (Unary op x) (next_height (arith_height x))"

definition arith_binary :: "binary_op \<Rightarrow> 'f arith_expr \<Rightarrow> 'f arith_expr \<Rightarrow> 'f arith_expr option" where
  "arith_binary op l r = map_option (Binary op l r) (next_height (max (arith_height l) (arith_height r)))"

section \<open>Nesting\<close>

definition MAX_NESTING_DEPTH :: nat where "MAX_NESTING_DEPTH = 64"
definition MAX_ARITHMETIC_TOKENS :: nat where "MAX_ARITHMETIC_TOKENS = 4096"

record depth =
  d_lexer :: nat
  d_block :: nat

datatype arith_refusal =
    ArithmeticPower | ArithmeticIncrement | ArithmeticDecrement | ArithmeticCompoundAssignment
  | ArithmeticBitwise | ArithmeticAssignment | ArithmeticTernary | ArithmeticComma
  | ArithmeticTokenLimit | InvalidArithmeticLiteral string | ArithmeticLiteralOutOfRange string
  | ExpectedArithmeticVariable | ArithmeticCharacter nat | EmptyArithmetic | TrailingArithmeticTokens
  | UnbalancedArithmetic | UnexpectedArithmeticSymbol string | ArithmeticEnded

datatype arith_error =
    Refused nat arith_refusal
  | TooDeepGrammar nat
  | TooDeepOperators nat

definition arithmetic_group :: "depth \<Rightarrow> nat \<Rightarrow> (arith_error, depth) result" where
  "arithmetic_group d line =
     (if d_lexer d + d_block d + 1 > MAX_NESTING_DEPTH then Inl (TooDeepGrammar line)
      else Inr (d\<lparr>d_block := d_block d + 1\<rparr>))"

section \<open>Tokens\<close>

datatype 'f arith_token = TokInteger int | TokFloat 'f | TokName string | TokSymbol string

definition ARITH_SYMBOLS :: "(string \<times> arith_refusal option) list" where
  "ARITH_SYMBOLS =
     [(''**'', Some ArithmeticPower), (''++'', Some ArithmeticIncrement), (''--'', Some ArithmeticDecrement),
      (''+='', Some ArithmeticCompoundAssignment), (''-='', Some ArithmeticCompoundAssignment),
      (''*='', Some ArithmeticCompoundAssignment), (''/='', Some ArithmeticCompoundAssignment),
      (''%='', Some ArithmeticCompoundAssignment), (''<<'', Some ArithmeticBitwise), (''>>'', Some ArithmeticBitwise),
      (''&&'', None), (''||'', None), (''<='', None), (''>='', None), (''=='', None), (''!='', None),
      (''+'', None), (''-'', None), (''*'', None), (''/'', None), (''%'', None), (''('', None), ('')'', None),
      (''<'', None), (''>'', None), (''!'', None),
      (''='', Some ArithmeticAssignment), (''?'', Some ArithmeticTernary), ('':'', Some ArithmeticTernary),
      (''&'', Some ArithmeticBitwise), (''|'', Some ArithmeticBitwise), (''^'', Some ArithmeticBitwise),
      (''~'', Some ArithmeticBitwise), ('','', Some ArithmeticComma)]"

definition is_ascii_alphabetic :: "char \<Rightarrow> bool" where
  "is_ascii_alphabetic c \<longleftrightarrow> is_ascii_lowercase c \<or> is_ascii_uppercase c"

definition is_name_byte :: "char \<Rightarrow> bool" where
  "is_name_byte c \<longleftrightarrow> is_ascii_alphanumeric c \<or> c = CHR ''_''"

definition literal_i64 :: "string \<Rightarrow> int option" where
  "literal_i64 digits = (if int (decimal_value digits) \<le> i64_max then Some (int (decimal_value digits)) else None)"

lemma length_dropWhile_tl: "length (dropWhile P (tl (dropWhile Q xs))) \<le> length xs"
  using length_dropWhile_le [of P "tl (dropWhile Q xs)"] length_dropWhile_le [of Q xs] by simp

function tokenize_loop ::
  "(string \<Rightarrow> 'f option) \<Rightarrow> nat \<Rightarrow> ('f arith_token \<times> nat) list \<Rightarrow> string \<Rightarrow> (arith_error, ('f arith_token \<times> nat) list) result" where
  "tokenize_loop parse_f64 line acc [] = Inr acc"
| "tokenize_loop parse_f64 line acc (c # cs) =
     (if length acc \<ge> MAX_ARITHMETIC_TOKENS then Inl (Refused line ArithmeticTokenLimit)
      else if is_ascii_whitespace c then tokenize_loop parse_f64 (if c = CHR 0x0A then line + 1 else line) acc cs
      else if is_ascii_digit c then
        let digits = c # takeWhile is_ascii_digit cs; rest = dropWhile is_ascii_digit cs
        in if rest \<noteq> [] \<and> hd rest = CHR ''.'' then
             let literal = digits @ CHR ''.'' # takeWhile is_ascii_digit (tl rest)
             in (case parse_f64 literal of
                   None \<Rightarrow> Inl (Refused line (InvalidArithmeticLiteral literal))
                 | Some v \<Rightarrow> tokenize_loop parse_f64 line (acc @ [(TokFloat v, line)]) (dropWhile is_ascii_digit (tl rest)))
           else
             (case literal_i64 digits of
                None \<Rightarrow> Inl (Refused line (ArithmeticLiteralOutOfRange digits))
              | Some v \<Rightarrow> tokenize_loop parse_f64 line (acc @ [(TokInteger v, line)]) rest)
      else if is_ascii_alphabetic c \<or> c = CHR ''_'' \<or> c = CHR ''$'' then
        let named = (if c = CHR ''$'' then cs else c # cs);
            name = takeWhile is_name_byte named
        in if name = [] then Inl (Refused line ExpectedArithmeticVariable)
           else tokenize_loop parse_f64 line (acc @ [(TokName name, line)]) (dropWhile is_name_byte named)
      else (case List.find (\<lambda>(symbol, _). starts_with symbol (c # cs)) ARITH_SYMBOLS of
              None \<Rightarrow> Inl (Refused line (ArithmeticCharacter (hd (chars (c # cs)))))
            | Some (_, Some reason) \<Rightarrow> Inl (Refused line reason)
            | Some (symbol, None) \<Rightarrow>
                tokenize_loop parse_f64 line (acc @ [(TokSymbol symbol, line)]) (drop (length symbol - 1) cs)))"
  by pat_completeness auto

termination
  by (relation "measure (\<lambda>(_, _, _, s). length s)")
    (auto simp: less_Suc_eq_le length_dropWhile_le length_dropWhile_tl split: if_splits)

declare tokenize_loop.simps(2) [simp del]

definition tokenize_arithmetic ::
  "(string \<Rightarrow> 'f option) \<Rightarrow> string \<Rightarrow> nat \<Rightarrow> (arith_error, ('f arith_token \<times> nat) list) result" where
  "tokenize_arithmetic parse_f64 source line = tokenize_loop parse_f64 line [] source"

section \<open>The parser\<close>

text \<open>The tokens from the current position on, the line of the last primary and the depth. A parser that
  does not return is \<open>None\<close>.\<close>

record 'f arith_parser =
  ap_tokens :: "('f arith_token \<times> nat) list"
  ap_line :: nat
  ap_depth :: depth

type_synonym 'f parsing =
  "'f arith_parser \<Rightarrow> (arith_error, 'f arith_expr \<times> 'f arith_parser) result option"

definition peek_symbol :: "'f arith_parser \<Rightarrow> string option" where
  "peek_symbol p = (case ap_tokens p of (TokSymbol s, _) # _ \<Rightarrow> Some s | _ \<Rightarrow> None)"

definition arith_advance :: "'f arith_parser \<Rightarrow> 'f arith_parser" where
  "arith_advance p = p\<lparr>ap_tokens := tl (ap_tokens p)\<rparr>"

partial_function (option) binary_loop ::
  "(string \<times> binary_op) list \<Rightarrow> 'f parsing \<Rightarrow> 'f arith_expr \<Rightarrow> 'f parsing" where
  "binary_loop operators next_level left p =
     (case Option.bind (peek_symbol p) (map_of operators) of
        None \<Rightarrow> Some (Inr (left, p))
      | Some operator \<Rightarrow>
          Option.bind (next_level (arith_advance p)) (\<lambda>r. case r of
            Inl e \<Rightarrow> Some (Inl e)
          | Inr right \<Rightarrow>
              (case arith_binary operator left (fst right) of
                 None \<Rightarrow> Some (Inl (TooDeepOperators (ap_line (snd right))))
               | Some left \<Rightarrow> binary_loop operators next_level left (snd right))))"

definition parse_binary_level :: "(string \<times> binary_op) list \<Rightarrow> 'f parsing \<Rightarrow> 'f parsing" where
  "parse_binary_level operators next_level p =
     Option.bind (next_level p) (\<lambda>r. case r of
       Inl e \<Rightarrow> Some (Inl e)
     | Inr left \<Rightarrow> binary_loop operators next_level (fst left) (snd left))"

fun unary_operators :: "('f arith_token \<times> nat) list \<Rightarrow> unary_op list \<times> ('f arith_token \<times> nat) list" where
  "unary_operators ((TokSymbol s, line) # rest) =
     (if s = ''-'' then (case unary_operators rest of (ops, rest) \<Rightarrow> (Negate # ops, rest))
      else if s = ''!'' then (case unary_operators rest of (ops, rest) \<Rightarrow> (Not # ops, rest))
      else if s = ''+'' then unary_operators rest
      else ([], (TokSymbol s, line) # rest))"
| "unary_operators tokens = ([], tokens)"

fun apply_unary :: "unary_op list \<Rightarrow> 'f arith_expr \<Rightarrow> 'f arith_expr option" where
  "apply_unary [] x = Some x"
| "apply_unary (op # ops) x = Option.bind (apply_unary ops x) (arith_unary op)"

definition parse_unary :: "'f parsing \<Rightarrow> 'f parsing" where
  "parse_unary primary p =
     (case unary_operators (ap_tokens p) of (ops, rest) \<Rightarrow>
        Option.bind (primary (p\<lparr>ap_tokens := rest\<rparr>)) (\<lambda>r. case r of
          Inl e \<Rightarrow> Some (Inl e)
        | Inr (operand, p) \<Rightarrow>
            (case apply_unary ops operand of
               None \<Rightarrow> Some (Inl (TooDeepOperators (ap_line p)))
             | Some x \<Rightarrow> Some (Inr (x, p)))))"

text \<open>A group parses one level deeper and gives the depth back.\<close>

definition parse_primary :: "'f parsing \<Rightarrow> 'f parsing" where
  "parse_primary inside p =
     (let line = (case ap_tokens p of [] \<Rightarrow> ap_line p | (_, line) # _ \<Rightarrow> line);
          p = p\<lparr>ap_line := line\<rparr>
      in case ap_tokens p of
           (TokInteger v, _) # _ \<Rightarrow> Some (Inr (arith_integer v, arith_advance p))
         | (TokFloat v, _) # _ \<Rightarrow> Some (Inr (arith_float v, arith_advance p))
         | (TokName v, _) # _ \<Rightarrow> Some (Inr (arith_variable v, arith_advance p))
         | (TokSymbol s, _) # _ \<Rightarrow>
             if s = ''('' then
               (case arithmetic_group (ap_depth p) line of
                  Inl e \<Rightarrow> Some (Inl e)
                | Inr deeper \<Rightarrow>
                    Option.bind (inside ((arith_advance p)\<lparr>ap_depth := deeper\<rparr>)) (\<lambda>r. case r of
                      Inl e \<Rightarrow> Some (Inl e)
                    | Inr (x, q) \<Rightarrow>
                        let q = q\<lparr>ap_depth := ap_depth p\<rparr>
                        in if peek_symbol q = Some '')'' then Some (Inr (x, arith_advance q))
                           else Some (Inl (Refused line UnbalancedArithmetic))))
             else Some (Inl (Refused line (UnexpectedArithmeticSymbol s)))
         | [] \<Rightarrow> Some (Inl (Refused line ArithmeticEnded)))"

definition parse_multiplicative :: "'f parsing \<Rightarrow> 'f parsing" where
  "parse_multiplicative inside =
     parse_binary_level [(''*'', Multiply), (''/'', Divide), (''%'', Remainder)] (parse_unary (parse_primary inside))"

definition parse_additive :: "'f parsing \<Rightarrow> 'f parsing" where
  "parse_additive inside = parse_binary_level [(''+'', Add), (''-'', Subtract)] (parse_multiplicative inside)"

definition parse_relational :: "'f parsing \<Rightarrow> 'f parsing" where
  "parse_relational inside =
     parse_binary_level [(''<='', LessOrEqual), (''>='', GreaterOrEqual), (''<'', Less), (''>'', Greater)] (parse_additive inside)"

definition parse_equality :: "'f parsing \<Rightarrow> 'f parsing" where
  "parse_equality inside = parse_binary_level [(''=='', Equal), (''!='', NotEqual)] (parse_relational inside)"

definition parse_and :: "'f parsing \<Rightarrow> 'f parsing" where
  "parse_and inside = parse_binary_level [(''&&'', And)] (parse_equality inside)"

text \<open>The number is how many groups may still be opened; the nesting depth runs out before it does.\<close>

fun parse_or :: "nat \<Rightarrow> 'f parsing" where
  "parse_or 0 = parse_binary_level [(''||'', Or)] (parse_and (\<lambda>_. None))"
| "parse_or (Suc n) = parse_binary_level [(''||'', Or)] (parse_and (parse_or n))"

definition parse_arithmetic ::
  "(string \<Rightarrow> 'f option) \<Rightarrow> string \<Rightarrow> nat \<Rightarrow> depth \<Rightarrow> (arith_error, 'f arith_expr) result option" where
  "parse_arithmetic parse_f64 source line d =
     (case tokenize_arithmetic parse_f64 source line of
        Inl e \<Rightarrow> Some (Inl e)
      | Inr [] \<Rightarrow> Some (Inl (Refused line EmptyArithmetic))
      | Inr tokens \<Rightarrow>
          Option.bind (parse_or MAX_NESTING_DEPTH \<lparr>ap_tokens = tokens, ap_line = line, ap_depth = d\<rparr>) (\<lambda>r. case r of
            Inl e \<Rightarrow> Some (Inl e)
          | Inr (x, p) \<Rightarrow>
              (case ap_tokens p of
                 [] \<Rightarrow> Some (Inr x)
               | (_, line) # _ \<Rightarrow> Some (Inl (Refused line TrailingArithmeticTokens)))))"

section \<open>Parsing returns\<close>

text \<open>An expression whose heights are right and within the bound.\<close>

fun well_built :: "'f arith_expr \<Rightarrow> bool" where
  "well_built (Integer _ h) \<longleftrightarrow> h = 0"
| "well_built (Float _ h) \<longleftrightarrow> h = 0"
| "well_built (Variable _ h) \<longleftrightarrow> h = 0"
| "well_built (Unary _ x h) \<longleftrightarrow> well_built x \<and> h = Suc (arith_height x) \<and> h \<le> 64"
| "well_built (Binary _ l r h) \<longleftrightarrow>
     well_built l \<and> well_built r \<and> h = Suc (max (arith_height l) (arith_height r)) \<and> h \<le> 64"

lemma well_built_height: "well_built x \<Longrightarrow> arith_height x \<le> 64"
  by (cases x) simp_all

lemma arith_unary_iff: "arith_unary op x = Some y \<longleftrightarrow> arith_height x < 64 \<and> y = Unary op x (Suc (arith_height x))"
  by (auto simp: arith_unary_def next_height_def)

lemma arith_binary_iff:
  "arith_binary op l r = Some y \<longleftrightarrow>
     max (arith_height l) (arith_height r) < 64 \<and> y = Binary op l r (Suc (max (arith_height l) (arith_height r)))"
  by (auto simp: arith_binary_def next_height_def)

lemma apply_unary_built: "well_built x \<Longrightarrow> apply_unary ops x = Some y \<Longrightarrow> well_built y"
  by (induction ops arbitrary: y) (auto simp: arith_unary_iff split: bind_splits)

definition nesting :: "depth \<Rightarrow> nat" where
  "nesting d = d_lexer d + d_block d"

text \<open>A parser that returns wherever so many groups are enough, gives the depth back, moves forward and
  builds well.\<close>

definition returns_at :: "nat \<Rightarrow> 'f parsing \<Rightarrow> 'f arith_parser \<Rightarrow> bool" where
  "returns_at m f p \<longleftrightarrow>
     (\<exists>r. f p = Some r \<and>
       (case r of
          Inl _ \<Rightarrow> True
        | Inr (x, q) \<Rightarrow> length (ap_tokens q) + m \<le> length (ap_tokens p) \<and> ap_depth q = ap_depth p \<and> well_built x))"

definition returns :: "nat \<Rightarrow> 'f parsing \<Rightarrow> bool" where
  "returns n f \<longleftrightarrow> (\<forall>p. MAX_NESTING_DEPTH \<le> n + nesting (ap_depth p) \<longrightarrow> returns_at 1 f p)"

lemma returns_at_cases:
  assumes "returns_at m f p"
  obtains e where "f p = Some (Inl e)"
  | x q where "f p = Some (Inr (x, q))" "length (ap_tokens q) + m \<le> length (ap_tokens p)" "ap_depth q = ap_depth p" "well_built x"
proof -
  from assms obtain r where r: "f p = Some r" "case r of Inl _ \<Rightarrow> True | Inr (x, q) \<Rightarrow>
      length (ap_tokens q) + m \<le> length (ap_tokens p) \<and> ap_depth q = ap_depth p \<and> well_built x"
    unfolding returns_at_def by blast
  show thesis
  proof (cases r)
    case (Inl e)
    with r(1) that(1) show thesis by simp
  next
    case (Inr y)
    with r that(2) [of "fst y" "snd y"] show thesis by (simp add: case_prod_beta)
  qed
qed

lemma peek_symbol_Some: "peek_symbol p = Some s \<Longrightarrow> \<exists>line rest. ap_tokens p = (TokSymbol s, line) # rest"
  by (auto simp: peek_symbol_def split: list.splits prod.splits arith_token.splits)

lemma binary_loop_returns:
  assumes "returns n f" "well_built left" "MAX_NESTING_DEPTH \<le> n + nesting (ap_depth p)"
  shows "returns_at 0 (binary_loop operators f left) p"
  using assms(2,3)
proof (induction "length (ap_tokens p)" arbitrary: left p rule: less_induct)
  case less
  show ?case
  proof (cases "Option.bind (peek_symbol p) (map_of operators)")
    case None
    then show ?thesis using less.prems by (subst returns_at_def, subst binary_loop.simps) simp
  next
    case (Some op)
    then obtain s where "peek_symbol p = Some s" by (cases "peek_symbol p") auto
    then have forward: "length (ap_tokens (arith_advance p)) < length (ap_tokens p)" and same: "ap_depth (arith_advance p) = ap_depth p"
      using peek_symbol_Some [of p s] by (auto simp: arith_advance_def)
    have "returns_at 1 f (arith_advance p)" using assms(1) less.prems(2) same by (simp add: returns_def)
    then show ?thesis
    proof (cases rule: returns_at_cases)
      case (1 e)
      with Some show ?thesis by (subst returns_at_def, subst binary_loop.simps) simp
    next
      case (2 x q)
      show ?thesis
      proof (cases "arith_binary op left x")
        case None
        with Some 2 show ?thesis by (subst returns_at_def, subst binary_loop.simps) simp
      next
        case built: (Some y)
        then have "well_built y" using less.prems(1) 2(4) by (auto simp: arith_binary_iff)
        moreover have "length (ap_tokens q) < length (ap_tokens p)" using forward 2(2) by simp
        ultimately have "returns_at 0 (binary_loop operators f y) q"
          using less.hyps less.prems(2) 2(3) same by simp
        moreover have "binary_loop operators f left p = binary_loop operators f y q"
          using Some 2(1) built by (subst binary_loop.simps) simp
        ultimately show ?thesis
          using forward 2(2,3) same unfolding returns_at_def by (auto split: sum.splits prod.splits)
      qed
    qed
  qed
qed

lemma parse_binary_level_returns:
  assumes "returns n f"
  shows "returns n (parse_binary_level operators f)"
  unfolding returns_def
proof (intro allI impI)
  fix p :: "'a arith_parser"
  assume n: "MAX_NESTING_DEPTH \<le> n + nesting (ap_depth p)"
  then have "returns_at 1 f p" using assms by (simp add: returns_def)
  then show "returns_at 1 (parse_binary_level operators f) p"
  proof (cases rule: returns_at_cases)
    case (1 e)
    then show ?thesis by (simp add: returns_at_def parse_binary_level_def)
  next
    case (2 x q)
    then have "returns_at 0 (binary_loop operators f x) q" using binary_loop_returns [OF assms] n by simp
    with 2 show ?thesis
      unfolding returns_at_def parse_binary_level_def by (auto split: sum.splits prod.splits)
  qed
qed

lemma unary_operators_length: "unary_operators ts = (ops, rest) \<Longrightarrow> length rest \<le> length ts"
  by (induction ts arbitrary: ops rest rule: unary_operators.induct) (fastforce split: if_splits prod.splits)+

lemma parse_unary_returns:
  assumes "returns n f"
  shows "returns n (parse_unary f)"
  unfolding returns_def
proof (intro allI impI)
  fix p :: "'a arith_parser"
  assume n: "MAX_NESTING_DEPTH \<le> n + nesting (ap_depth p)"
  obtain ops rest where ops: "unary_operators (ap_tokens p) = (ops, rest)" by fastforce
  have "returns_at 1 f (p\<lparr>ap_tokens := rest\<rparr>)" using assms n by (simp add: returns_def)
  then show "returns_at 1 (parse_unary f) p"
    by (cases rule: returns_at_cases)
      (use ops unary_operators_length [OF ops] in \<open>auto simp: returns_at_def parse_unary_def intro: apply_unary_built split: option.splits\<close>)
qed

lemma parse_primary_returns:
  assumes "\<And>p. nesting (ap_depth p) \<le> MAX_NESTING_DEPTH \<Longrightarrow> MAX_NESTING_DEPTH < n + nesting (ap_depth p) \<Longrightarrow> returns_at 1 inside p"
  shows "returns n (parse_primary inside)"
  unfolding returns_def
proof (intro allI impI)
  fix p :: "'a arith_parser"
  assume n: "MAX_NESTING_DEPTH \<le> n + nesting (ap_depth p)"
  show "returns_at 1 (parse_primary inside) p"
  proof (cases "\<exists>line rest deeper. ap_tokens p = (TokSymbol ''('', line) # rest \<and> arithmetic_group (ap_depth p) line = Inr deeper")
    case False
    then show ?thesis
      by (auto simp: returns_at_def parse_primary_def Let_def arith_advance_def arith_integer_def arith_float_def arith_variable_def
          split: list.splits prod.splits arith_token.splits sum.splits)
  next
    case True
    then obtain line rest deeper where t: "ap_tokens p = (TokSymbol ''('', line) # rest"
      and deeper: "arithmetic_group (ap_depth p) line = Inr deeper" by blast
    let ?q = "(arith_advance (p\<lparr>ap_line := line\<rparr>))\<lparr>ap_depth := deeper\<rparr>"
    have "nesting (ap_depth ?q) = nesting (ap_depth p) + 1" "nesting (ap_depth ?q) \<le> MAX_NESTING_DEPTH"
      using deeper by (auto simp: arithmetic_group_def nesting_def split: if_splits)
    then have "returns_at 1 inside ?q" using assms n by simp
    then show ?thesis
      by (cases rule: returns_at_cases)
        (use t deeper in \<open>auto simp: returns_at_def parse_primary_def Let_def arith_advance_def\<close>)
  qed
qed

lemmas level_defs = parse_and_def parse_equality_def parse_relational_def parse_additive_def parse_multiplicative_def

lemma parse_or_returns: "returns n (parse_or n)"
proof (induction n)
  case 0
  show ?case
    unfolding parse_or.simps level_defs
    by (intro parse_binary_level_returns parse_unary_returns parse_primary_returns) simp
next
  case (Suc n)
  then show ?case
    unfolding parse_or.simps level_defs
    by (intro parse_binary_level_returns parse_unary_returns parse_primary_returns) (simp add: returns_def)
qed

text \<open>C23: an arithmetic expansion always parses to a result, whatever its text and depth, and an
  expression it parses to records its true height, which is at most 64: evaluating it cannot
  overrun the stack.\<close>

theorem parse_arithmetic_well_built:
  "\<exists>r. parse_arithmetic parse_f64 source line d = Some r \<and>
     (case r of Inl _ \<Rightarrow> True | Inr x \<Rightarrow> well_built x \<and> arith_height x \<le> 64)"
proof (cases "tokenize_arithmetic parse_f64 source line")
  case (Inr tokens)
  let ?p = "\<lparr>ap_tokens = tokens, ap_line = line, ap_depth = d\<rparr>"
  have "returns_at 1 (parse_or MAX_NESTING_DEPTH) ?p" by (rule parse_or_returns [unfolded returns_def, rule_format]) simp
  then show ?thesis
    by (cases rule: returns_at_cases)
      (use Inr in \<open>auto simp: parse_arithmetic_def well_built_height split: list.splits\<close>)
qed (simp add: parse_arithmetic_def)

section \<open>Printing and parsing\<close>

text \<open>The levels of the grammar: one for each group of binary operators, then the unary ones and the
  primaries. An expression is printed with parentheses exactly where its level needs them.\<close>

fun op_level :: "binary_op \<Rightarrow> nat" where
  "op_level Or = 1"
| "op_level And = 2"
| "op_level Equal = 3" | "op_level NotEqual = 3"
| "op_level Less = 4" | "op_level LessOrEqual = 4" | "op_level Greater = 4" | "op_level GreaterOrEqual = 4"
| "op_level Add = 5" | "op_level Subtract = 5"
| "op_level Multiply = 6" | "op_level Divide = 6" | "op_level Remainder = 6"

fun op_symbol :: "binary_op \<Rightarrow> string" where
  "op_symbol Or = ''||''" | "op_symbol And = ''&&''" | "op_symbol Equal = ''==''" | "op_symbol NotEqual = ''!=''"
| "op_symbol Less = ''<''" | "op_symbol LessOrEqual = ''<=''" | "op_symbol Greater = ''>''"
| "op_symbol GreaterOrEqual = ''>=''" | "op_symbol Add = ''+''" | "op_symbol Subtract = ''-''"
| "op_symbol Multiply = ''*''" | "op_symbol Divide = ''/''" | "op_symbol Remainder = ''%''"

fun unary_symbol :: "unary_op \<Rightarrow> string" where
  "unary_symbol Negate = ''-''" | "unary_symbol Not = ''!''"

definition parens :: "bool \<Rightarrow> 'f arith_token list \<Rightarrow> 'f arith_token list" where
  "parens b ts = (if b then TokSymbol ''('' # ts @ [TokSymbol '')''] else ts)"

fun print_arith :: "nat \<Rightarrow> 'f arith_expr \<Rightarrow> 'f arith_token list" where
  "print_arith k (Integer v h) = [TokInteger v]"
| "print_arith k (Float v h) = [TokFloat v]"
| "print_arith k (Variable v h) = [TokName v]"
| "print_arith k (Unary op x h) = parens (7 < k) (TokSymbol (unary_symbol op) # print_arith 7 x)"
| "print_arith k (Binary op l r h) =
     parens (op_level op < k) (print_arith (op_level op) l @ TokSymbol (op_symbol op) # print_arith (Suc (op_level op)) r)"

text \<open>How deep the parentheses nest.\<close>

fun paren_depth :: "nat \<Rightarrow> 'f arith_expr \<Rightarrow> nat" where
  "paren_depth k (Unary op x h) = (if 7 < k then 1 else 0) + paren_depth 7 x"
| "paren_depth k (Binary op l r h) =
     (if op_level op < k then 1 else 0) + max (paren_depth (op_level op) l) (paren_depth (Suc (op_level op)) r)"
| "paren_depth k x = 0"

fun level_of :: "'f arith_expr \<Rightarrow> nat" where
  "level_of (Unary _ _ _) = 7"
| "level_of (Binary op _ _ _) = op_level op"
| "level_of x = 8"

definition operators_at :: "nat \<Rightarrow> (string \<times> binary_op) list" where
  "operators_at k =
     (if k = 1 then [(''||'', Or)] else if k = 2 then [(''&&'', And)]
      else if k = 3 then [(''=='', Equal), (''!='', NotEqual)]
      else if k = 4 then [(''<='', LessOrEqual), (''>='', GreaterOrEqual), (''<'', Less), (''>'', Greater)]
      else if k = 5 then [(''+'', Add), (''-'', Subtract)]
      else if k = 6 then [(''*'', Multiply), (''/'', Divide), (''%'', Remainder)] else [])"

definition inside_of :: "nat \<Rightarrow> 'f parsing" where
  "inside_of n = (case n of 0 \<Rightarrow> (\<lambda>_. None) | Suc m \<Rightarrow> parse_or m)"

text \<open>The parser of each level.\<close>

definition level_parser :: "nat \<Rightarrow> nat \<Rightarrow> 'f parsing" where
  "level_parser n k =
     (if k = 1 then parse_or n else if k = 2 then parse_and (inside_of n) else if k = 3 then parse_equality (inside_of n)
      else if k = 4 then parse_relational (inside_of n) else if k = 5 then parse_additive (inside_of n)
      else if k = 6 then parse_multiplicative (inside_of n) else if k = 7 then parse_unary (parse_primary (inside_of n))
      else parse_primary (inside_of n))"

lemma level_parser_binary:
  assumes "1 \<le> k" "k \<le> 6"
  shows "level_parser n k = parse_binary_level (operators_at k) (level_parser n (Suc k))"
proof -
  have "k \<in> {1, 2, 3, 4, 5, 6}" using assms by auto
  then show ?thesis
    by (cases n) (auto simp: level_parser_def operators_at_def inside_of_def level_defs)
qed

lemma op_level_range: "1 \<le> op_level op \<and> op_level op \<le> 6"
  by (cases op) simp_all

lemma op_level_facts [simp]: "op_level op < 7" "op_level op < 8" "\<not> op_level op < Suc 0" "op_level op \<noteq> 7" "op_level op \<noteq> 8" "op_level op \<noteq> 0"
  by (cases op; simp)+

lemma operators_at_symbol: "map_of (operators_at k) (op_symbol op) = (if k = op_level op then Some op else None)"
  by (cases op) (auto simp: operators_at_def)

definition no_operator :: "nat \<Rightarrow> ('f arith_token \<times> nat) list \<Rightarrow> bool" where
  "no_operator k rest \<longleftrightarrow> (case rest of (TokSymbol s, _) # _ \<Rightarrow> map_of (operators_at k) s = None | _ \<Rightarrow> True)"

lemma binary_loop_stops:
  "no_operator k (ap_tokens p) \<Longrightarrow> binary_loop (operators_at k) f x p = Some (Inr (x, p))"
  by (subst binary_loop.simps)
    (auto simp: no_operator_def peek_symbol_def split: list.splits prod.splits arith_token.splits)

text \<open>What parsing a printed expression does at a level: up to the unary operators it leaves the rest
  alone, and a binary level goes on with the expression on its left.\<close>

definition parses_printed :: "nat \<Rightarrow> 'f arith_expr \<Rightarrow> bool" where
  "parses_printed k x \<longleftrightarrow>
     (\<forall>n p rest line.
        nesting (ap_depth p) + paren_depth k x \<le> MAX_NESTING_DEPTH \<and> MAX_NESTING_DEPTH \<le> n + nesting (ap_depth p) \<and>
        (\<forall>j. k < j \<longrightarrow> no_operator j rest) \<longrightarrow>
        level_parser n k (p\<lparr>ap_tokens := map (\<lambda>t. (t, line)) (print_arith k x) @ rest\<rparr>) =
          (let q = p\<lparr>ap_tokens := rest, ap_line := line\<rparr>
           in if k \<le> 6 then binary_loop (operators_at k) (level_parser n (Suc k)) x q else Some (Inr (x, q))))"

lemma parses_printedD:
  assumes "parses_printed k x" "nesting (ap_depth p) + paren_depth k x \<le> MAX_NESTING_DEPTH"
    and "MAX_NESTING_DEPTH \<le> n + nesting (ap_depth p)" "\<And>j. k < j \<Longrightarrow> no_operator j rest"
    and "ap_tokens p = map (\<lambda>t. (t, line)) (print_arith k x) @ rest"
  shows "level_parser n k p =
    (if k \<le> 6 then binary_loop (operators_at k) (level_parser n (Suc k)) x (p\<lparr>ap_tokens := rest, ap_line := line\<rparr>)
     else Some (Inr (x, p\<lparr>ap_tokens := rest, ap_line := line\<rparr>)))"
proof -
  have eq: "p\<lparr>ap_tokens := map (\<lambda>t. (t, line)) (print_arith k x) @ rest\<rparr> = p" using assms(5) by simp
  have "level_parser n k (p\<lparr>ap_tokens := map (\<lambda>t. (t, line)) (print_arith k x) @ rest\<rparr>) =
      (let q = p\<lparr>ap_tokens := rest, ap_line := line\<rparr>
       in if k \<le> 6 then binary_loop (operators_at k) (level_parser n (Suc k)) x q else Some (Inr (x, q)))"
    using assms(1-4) unfolding parses_printed_def by blast
  then show ?thesis unfolding eq Let_def .
qed

text \<open>At a level whose operators the rest does not continue, the expression is the result.\<close>

lemma parses_printed_stops:
  assumes "parses_printed k x" "nesting (ap_depth p) + paren_depth k x \<le> MAX_NESTING_DEPTH"
    and "MAX_NESTING_DEPTH \<le> n + nesting (ap_depth p)" "\<And>j. k \<le> j \<Longrightarrow> no_operator j rest"
    and "ap_tokens p = map (\<lambda>t. (t, line)) (print_arith k x) @ rest"
  shows "level_parser n k p = Some (Inr (x, p\<lparr>ap_tokens := rest, ap_line := line\<rparr>))"
  using parses_printedD [OF assms(1-3) _ assms(5)] assms(4) by (simp add: binary_loop_stops)

lemma parses_printed_descend:
  fixes x :: "'f arith_expr"
  assumes "parses_printed (Suc k) x" "1 \<le> k" "k \<le> 6" "level_of x \<noteq> k"
  shows "parses_printed k x"
  unfolding parses_printed_def
proof (intro allI impI)
  fix n line :: nat and p :: "'f arith_parser" and rest :: "('f arith_token \<times> nat) list"
  assume a: "nesting (ap_depth p) + paren_depth k x \<le> MAX_NESTING_DEPTH \<and> MAX_NESTING_DEPTH \<le> n + nesting (ap_depth p) \<and>
      (\<forall>j. k < j \<longrightarrow> no_operator j rest)"
  have same: "print_arith k x = print_arith (Suc k) x" "paren_depth k x = paren_depth (Suc k) x"
    using assms(3,4) by (cases x; simp add: less_Suc_eq)+
  let ?p = "p\<lparr>ap_tokens := map (\<lambda>t. (t, line)) (print_arith k x) @ rest\<rparr>"
  have "level_parser n (Suc k) ?p = Some (Inr (x, ?p\<lparr>ap_tokens := rest, ap_line := line\<rparr>))"
    by (rule parses_printed_stops [OF assms(1)]) (use a same in auto)
  then show "level_parser n k ?p =
      (let q = p\<lparr>ap_tokens := rest, ap_line := line\<rparr>
       in if k \<le> 6 then binary_loop (operators_at k) (level_parser n (Suc k)) x q else Some (Inr (x, q)))"
    unfolding level_parser_binary [OF assms(2,3)] using assms(3) by (simp add: parse_binary_level_def)
qed

lemma parses_printed_down:
  assumes "parses_printed k x" "1 \<le> j" "j \<le> k" "k \<le> 7" "\<And>i. j \<le> i \<Longrightarrow> i < k \<Longrightarrow> level_of x \<noteq> i"
  shows "parses_printed j x"
  using assms(3)
proof (induction rule: inc_induct)
  case base
  show ?case by (rule assms(1))
next
  case (step m)
  show ?case
    by (rule parses_printed_descend [OF step.IH]) (use step.hyps assms(2,4) assms(5) [of m] in linarith)+
qed

lemma level_parser_primary [simp]: "level_parser n 8 = parse_primary (inside_of n)"
  and level_parser_unary [simp]: "level_parser n 7 = parse_unary (parse_primary (inside_of n))"
  and level_parser_or: "level_parser n 1 = parse_or n"
  by (simp_all add: level_parser_def)

text \<open>Parentheses: a primary that parses the expression at the lowest level, one group deeper.\<close>

lemma parses_printed_parens:
  fixes x :: "'f arith_expr"
  assumes "parses_printed 1 x" "level_of x < 8"
  shows "parses_printed 8 x"
  unfolding parses_printed_def
proof (intro allI impI)
  fix n line :: nat and p :: "'f arith_parser" and rest :: "('f arith_token \<times> nat) list"
  assume a: "nesting (ap_depth p) + paren_depth 8 x \<le> MAX_NESTING_DEPTH \<and> MAX_NESTING_DEPTH \<le> n + nesting (ap_depth p) \<and>
      (\<forall>j. 8 < j \<longrightarrow> no_operator j rest)"
  have print: "print_arith 8 x = TokSymbol ''('' # print_arith 1 x @ [TokSymbol '')'']" "paren_depth 8 x = Suc (paren_depth 1 x)"
    using assms(2) by (cases x; simp add: parens_def)+
  with a have "n \<noteq> 0" by auto
  then obtain m where m: "n = Suc m" by (cases n) auto
  let ?d = "ap_depth p" and ?rest = "(TokSymbol '')'', line) # rest"
  have d: "d_lexer ?d + d_block ?d + 1 \<le> MAX_NESTING_DEPTH" using a print(2) by (simp add: nesting_def)
  let ?q = "p\<lparr>ap_line := line, ap_tokens := map (\<lambda>t. (t, line)) (print_arith 1 x) @ ?rest, ap_depth := ?d\<lparr>d_block := d_block ?d + 1\<rparr>\<rparr>"
  have "level_parser m 1 ?q = Some (Inr (x, ?q\<lparr>ap_tokens := ?rest, ap_line := line\<rparr>))"
    by (rule parses_printed_stops [OF assms(1)])
      (use a print(2) m in \<open>auto simp: nesting_def no_operator_def operators_at_def\<close>)
  then have "inside_of n ?q = Some (Inr (x, ?q\<lparr>ap_tokens := ?rest, ap_line := line\<rparr>))"
    unfolding m inside_of_def level_parser_or by simp
  then show "level_parser n 8 (p\<lparr>ap_tokens := map (\<lambda>t. (t, line)) (print_arith 8 x) @ rest\<rparr>) =
      (let q = p\<lparr>ap_tokens := rest, ap_line := line\<rparr>
       in if 8 \<le> (6::nat) then binary_loop (operators_at 8) (level_parser n (Suc 8)) x q else Some (Inr (x, q)))"
    using d print(1) by (simp add: parse_primary_def arithmetic_group_def arith_advance_def peek_symbol_def)
qed

text \<open>A primary that is no unary expression has no unary operators.\<close>

lemma parses_printed_from_primary:
  fixes x :: "'f arith_expr"
  assumes "parses_printed 8 x" "level_of x \<noteq> 7"
  shows "parses_printed 7 x"
  unfolding parses_printed_def
proof (intro allI impI)
  fix n line :: nat and p :: "'f arith_parser" and rest :: "('f arith_token \<times> nat) list"
  assume a: "nesting (ap_depth p) + paren_depth 7 x \<le> MAX_NESTING_DEPTH \<and> MAX_NESTING_DEPTH \<le> n + nesting (ap_depth p) \<and>
      (\<forall>j. 7 < j \<longrightarrow> no_operator j rest)"
  let ?p = "p\<lparr>ap_tokens := map (\<lambda>t. (t, line)) (print_arith 7 x) @ rest\<rparr>"
  have same: "print_arith 7 x = print_arith 8 x" "paren_depth 7 x = paren_depth 8 x"
    using assms(2) by (cases x; simp add: parens_def)+
  have "level_parser n 8 ?p = Some (Inr (x, ?p\<lparr>ap_tokens := rest, ap_line := line\<rparr>))"
    by (rule parses_printed_stops [OF assms(1)]) (use a same in \<open>auto simp: no_operator_def operators_at_def\<close>)
  moreover have "unary_operators (ap_tokens ?p) = ([], ap_tokens ?p)"
    using assms(2) by (cases x) (simp_all add: parens_def)
  ultimately show "level_parser n 7 ?p =
      (let q = p\<lparr>ap_tokens := rest, ap_line := line\<rparr>
       in if 7 \<le> (6::nat) then binary_loop (operators_at 7) (level_parser n (Suc 7)) x q else Some (Inr (x, q)))"
    by (simp add: parse_unary_def)
qed


lemma parses_printed_leaf:
  fixes x :: "'f arith_expr"
  assumes "well_built x" "level_of x = 8"
  shows "parses_printed 8 x"
  using assms unfolding parses_printed_def
  by (cases x)
    (auto simp: parse_primary_def arith_advance_def arith_integer_def arith_float_def arith_variable_def)

text \<open>A unary expression: its operator joins the ones of the operand.\<close>

lemma parses_printed_unary:
  fixes x :: "'f arith_expr"
  assumes "parses_printed 7 x" "arith_height x < 64"
  shows "parses_printed 7 (Unary op x (Suc (arith_height x)))"
  unfolding parses_printed_def
proof (intro allI impI)
  fix n line :: nat and p :: "'f arith_parser" and rest :: "('f arith_token \<times> nat) list"
  let ?u = "Unary op x (Suc (arith_height x))"
  assume a: "nesting (ap_depth p) + paren_depth 7 ?u \<le> MAX_NESTING_DEPTH \<and> MAX_NESTING_DEPTH \<le> n + nesting (ap_depth p) \<and>
      (\<forall>j. 7 < j \<longrightarrow> no_operator j rest)"
  let ?ts = "map (\<lambda>t. (t, line)) (print_arith 7 x) @ rest"
  let ?p = "p\<lparr>ap_tokens := ?ts\<rparr>" and ?fin = "p\<lparr>ap_tokens := rest, ap_line := line\<rparr>"
  have inner: "parse_unary (parse_primary (inside_of n)) ?p = Some (Inr (x, ?fin))"
    using parses_printed_stops [OF assms(1), of ?p n rest line] a
    by (simp add: no_operator_def operators_at_def split: list.splits prod.splits arith_token.splits)
  obtain ops tail where ops: "unary_operators ?ts = (ops, tail)" by fastforce
  with inner obtain y q where y: "parse_primary (inside_of n) (p\<lparr>ap_tokens := tail\<rparr>) = Some (Inr (y, q))"
      "apply_unary ops y = Some x" "q = ?fin"
    by (auto simp: parse_unary_def split: bind_splits sum.splits option.splits prod.splits)
  have "unary_operators ((TokSymbol (unary_symbol op), line) # ?ts) = (op # ops, tail)"
    using ops by (cases op) simp_all
  moreover have "apply_unary (op # ops) y = Some ?u" using y(2) assms(2) by (simp add: arith_unary_iff)
  ultimately show "level_parser n 7 (p\<lparr>ap_tokens := map (\<lambda>t. (t, line)) (print_arith 7 ?u) @ rest\<rparr>) =
      (let q = p\<lparr>ap_tokens := rest, ap_line := line\<rparr>
       in if 7 \<le> (6::nat) then binary_loop (operators_at 7) (level_parser n (Suc 7)) ?u q else Some (Inr (?u, q)))"
    using y(1,3) by (simp add: parse_unary_def parens_def)
qed

text \<open>A binary expression: its left operand at the same level, one turn of the loop for the right one.\<close>

lemma parses_printed_binary:
  fixes l r :: "'f arith_expr"
  defines "h \<equiv> Suc (max (arith_height l) (arith_height r))"
  assumes "parses_printed (op_level op) l" "parses_printed (Suc (op_level op)) r" "h \<le> 64"
  shows "parses_printed (op_level op) (Binary op l r h)"
  unfolding parses_printed_def
proof (intro allI impI)
  fix n line :: nat and p :: "'f arith_parser" and rest :: "('f arith_token \<times> nat) list"
  let ?k = "op_level op" and ?b = "Binary op l r h"
  assume a: "nesting (ap_depth p) + paren_depth ?k ?b \<le> MAX_NESTING_DEPTH \<and> MAX_NESTING_DEPTH \<le> n + nesting (ap_depth p) \<and>
      (\<forall>j. ?k < j \<longrightarrow> no_operator j rest)"
  let ?right = "map (\<lambda>t. (t, line)) (print_arith (Suc ?k) r) @ rest"
  let ?p = "p\<lparr>ap_tokens := map (\<lambda>t. (t, line)) (print_arith ?k ?b) @ rest\<rparr>"
  let ?q = "p\<lparr>ap_tokens := (TokSymbol (op_symbol op), line) # ?right, ap_line := line\<rparr>"
  let ?fin = "p\<lparr>ap_tokens := rest, ap_line := line\<rparr>"
  have depth: "nesting (ap_depth p) + paren_depth ?k l \<le> MAX_NESTING_DEPTH"
      "nesting (ap_depth p) + paren_depth (Suc ?k) r \<le> MAX_NESTING_DEPTH"
    using a by (auto simp: max_def split: if_splits)
  have "level_parser n ?k ?p = binary_loop (operators_at ?k) (level_parser n (Suc ?k)) l ?q"
    using parses_printedD [OF assms(2), of ?p n "(TokSymbol (op_symbol op), line) # ?right" line] a depth op_level_range [of op]
    by (simp add: parens_def no_operator_def operators_at_symbol)
  moreover have "level_parser n (Suc ?k) (arith_advance ?q) = Some (Inr (r, ?fin))"
    using parses_printed_stops [OF assms(3), of "arith_advance ?q" n rest line] a depth by (simp add: arith_advance_def)
  moreover have "arith_binary op l r = Some ?b" using assms(4) by (simp add: arith_binary_iff h_def)
  ultimately show "level_parser n ?k ?p =
      (let q = ?fin in if ?k \<le> 6 then binary_loop (operators_at ?k) (level_parser n (Suc ?k)) ?b q else Some (Inr (?b, q)))"
    using op_level_range [of op]
    by (simp add: binary_loop.simps [of "operators_at ?k" _ l] peek_symbol_def operators_at_symbol)
qed

text \<open>From the level of its own operator an expression parses at every level.\<close>

lemma parses_printed_everywhere:
  assumes "parses_printed (level_of x) x" "1 \<le> k" "k \<le> 8"
  shows "parses_printed k x"
proof -
  have range: "1 \<le> level_of x" "level_of x \<le> 8"
    using op_level_range by (cases x; simp add: le_Suc_eq less_imp_le)+
  have primary: "parses_printed 8 x"
  proof (cases "level_of x = 8")
    case False
    with range have "level_of x < 8" by simp
    moreover from this have "parses_printed 1 x"
      by (intro parses_printed_down [OF assms(1)]) (use range in auto)
    ultimately show ?thesis by (rule parses_printed_parens [rotated])
  qed (use assms(1) in simp)
  have unary: "parses_printed 7 x"
    using assms(1) parses_printed_from_primary [OF primary] by (cases "level_of x = 7") auto
  consider "k = 8" | "level_of x < k" "k \<le> 7" | "k \<le> level_of x" "k \<le> 7" using assms(3) by linarith
  then show ?thesis
  proof cases
    case 1
    then show ?thesis using primary by simp
  next
    case 2
    then show ?thesis using assms(2) by (intro parses_printed_down [OF unary]) auto
  next
    case 3
    show ?thesis
    proof (cases "level_of x = 8")
      case True
      then show ?thesis using 3 assms(2) by (intro parses_printed_down [OF unary]) auto
    next
      case False
      then show ?thesis using 3 range assms(2) by (intro parses_printed_down [OF assms(1)]) auto
    qed
  qed
qed

lemma parses_printed_built: "well_built x \<Longrightarrow> 1 \<le> k \<Longrightarrow> k \<le> 8 \<Longrightarrow> parses_printed k x"
proof (induction x arbitrary: k)
  case (Unary op x h)
  have "parses_printed 7 x" by (rule Unary.IH) (use Unary.prems in simp_all)
  then have "parses_printed (level_of (Unary op x h)) (Unary op x h)"
    using parses_printed_unary [of x op] Unary.prems(1) by simp
  then show ?case by (rule parses_printed_everywhere [OF _ Unary.prems(2,3)])
next
  case (Binary op l r h)
  have "parses_printed (op_level op) l" "parses_printed (Suc (op_level op)) r"
    by (rule Binary.IH; use Binary.prems op_level_range [of op] in simp)+
  then have "parses_printed (level_of (Binary op l r h)) (Binary op l r h)"
    using parses_printed_binary [of op l r] Binary.prems(1) by auto
  then show ?case by (rule parses_printed_everywhere [OF _ Binary.prems(2,3)])
qed (simp_all add: parses_printed_everywhere parses_printed_leaf)

lemma parse_or_printed:
  assumes "well_built x" "nesting d + paren_depth 1 x \<le> MAX_NESTING_DEPTH"
  shows "parse_or MAX_NESTING_DEPTH \<lparr>ap_tokens = map (\<lambda>t. (t, line)) (print_arith 1 x), ap_line = l, ap_depth = d\<rparr> =
    Some (Inr (x, \<lparr>ap_tokens = [], ap_line = line, ap_depth = d\<rparr>))"
proof -
  let ?p = "\<lparr>ap_tokens = map (\<lambda>t. (t, line)) (print_arith 1 x), ap_line = l, ap_depth = d\<rparr>"
  have "level_parser MAX_NESTING_DEPTH 1 ?p = Some (Inr (x, ?p\<lparr>ap_tokens := [], ap_line := line\<rparr>))"
    by (rule parses_printed_stops [OF parses_printed_built [OF assms(1)]]) (use assms(2) in \<open>simp_all add: no_operator_def\<close>)
  then show ?thesis by (simp add: level_parser_or [unfolded One_nat_def])
qed


text \<open>The text of tokens, each followed by a space. A name is printed with its dollar sign, so that a
  positional parameter is not read as a number.\<close>

fun show_token :: "'f arith_token \<Rightarrow> string" where
  "show_token (TokInteger v) = show_nat (nat v)"
| "show_token (TokName s) = CHR ''$'' # s"
| "show_token (TokSymbol s) = s"
| "show_token (TokFloat v) = []"

definition show_tokens :: "'f arith_token list \<Rightarrow> string" where
  "show_tokens ts = concat (map (\<lambda>t. show_token t @ '' '') ts)"

definition arith_symbols :: "string list" where
  "arith_symbols = map fst (filter (\<lambda>(_, refused). refused = None) ARITH_SYMBOLS)"

fun printable :: "'f arith_token \<Rightarrow> bool" where
  "printable (TokInteger v) \<longleftrightarrow> 0 \<le> v \<and> v \<le> i64_max"
| "printable (TokName s) \<longleftrightarrow> s \<noteq> [] \<and> list_all is_name_byte s"
| "printable (TokSymbol s) \<longleftrightarrow> s \<in> set arith_symbols"
| "printable (TokFloat v) \<longleftrightarrow> False"

lemma takeWhile_all_space:
  assumes "list_all P s" "\<not> P c"
  shows "takeWhile P (s @ c # cs) = s" "dropWhile P (s @ c # cs) = c # cs"
  using assms by (induction s) simp_all

lemma space_no_byte: "\<not> is_ascii_digit CHR '' ''" "\<not> is_name_byte CHR '' ''"
  by (simp_all add: is_ascii_digit_def is_name_byte_def is_ascii_alphanumeric_def is_ascii_lowercase_def is_ascii_uppercase_def)

lemma digit_no_space: "is_ascii_digit c \<Longrightarrow> \<not> is_ascii_whitespace c"
  by (auto simp: is_ascii_digit_def is_ascii_whitespace_def)

lemma symbol_byte:
  assumes "c # cs \<in> set arith_symbols"
  shows "\<not> is_ascii_whitespace c \<and> \<not> is_ascii_digit c \<and> \<not> is_ascii_alphabetic c \<and> c \<noteq> CHR ''_'' \<and> c \<noteq> CHR ''$''"
proof -
  have "c \<in> set ''&|<>=!+-*/%()''" using assms by (auto simp: arith_symbols_def ARITH_SYMBOLS_def)
  then show ?thesis
    by (auto simp: is_ascii_whitespace_def is_ascii_digit_def is_ascii_alphabetic_def is_ascii_lowercase_def is_ascii_uppercase_def)
qed

lemma arith_symbols_eq:
  "arith_symbols = [''&&'', ''||'', ''<='', ''>='', ''=='', ''!='', ''+'', ''-'', ''*'', ''/'', ''%'', ''('', '')'', ''<'', ''>'', ''!'']"
  by (simp add: arith_symbols_def ARITH_SYMBOLS_def)

lemma find_symbol:
  assumes "s \<in> set arith_symbols"
  shows "List.find (\<lambda>(symbol, _). starts_with symbol (s @ CHR '' '' # cs)) ARITH_SYMBOLS = Some (s, None)"
  using assms unfolding arith_symbols_eq list.set insert_iff empty_iff ARITH_SYMBOLS_def
  by (elim disjE FalseE) (simp_all add: starts_with_def)

lemma tokenize_printable:
  assumes "printable t" "length acc < MAX_ARITHMETIC_TOKENS"
  shows "tokenize_loop parse_f64 line acc (show_token t @ CHR '' '' # cs) =
    tokenize_loop parse_f64 line (acc @ [(t, line)]) (CHR '' '' # cs)"
proof (cases t)
  case (TokInteger v)
  obtain c ds where s: "show_nat (nat v) = c # ds" by (cases "show_nat (nat v)") simp_all
  then have c: "is_ascii_digit c" "list_all is_ascii_digit ds" using show_nat_digits [of "nat v"] by simp_all
  have "decimal_value (c # ds) = nat v" using decimal_value_show_nat [of "nat v"] s by simp
  with TokInteger assms(1) have "literal_i64 (c # ds) = Some v" by (simp add: literal_i64_def)
  with TokInteger s c assms(2) show ?thesis
    by (simp add: tokenize_loop.simps(2) [of _ _ _ c] Let_def takeWhile_all_space [OF c(2)] space_no_byte digit_no_space)
next
  case (TokName name)
  with assms show ?thesis
    by (simp add: tokenize_loop.simps(2) [of _ _ _ "CHR ''$''"] Let_def takeWhile_all_space space_no_byte is_ascii_whitespace_def
        is_ascii_digit_def)
next
  case (TokSymbol s)
  with assms(1) have "s \<in> set arith_symbols" by simp
  moreover have "[] \<notin> set arith_symbols" by (simp add: arith_symbols_def ARITH_SYMBOLS_def)
  ultimately obtain c cs' where c: "s = c # cs'" "c # cs' \<in> set arith_symbols" by (cases s rule: list.exhaust) simp_all
  have unfolded: "tokenize_loop parse_f64 line acc (show_token t @ CHR '' '' # cs) =
      (case List.find (\<lambda>(symbol, _). starts_with symbol (c # cs' @ CHR '' '' # cs)) ARITH_SYMBOLS of
         None \<Rightarrow> Inl (Refused line (ArithmeticCharacter (hd (chars (c # cs' @ CHR '' '' # cs)))))
       | Some (_, Some reason) \<Rightarrow> Inl (Refused line reason)
       | Some (symbol, None) \<Rightarrow>
           tokenize_loop parse_f64 line (acc @ [(TokSymbol symbol, line)]) (drop (length symbol - 1) (cs' @ CHR '' '' # cs)))"
    using TokSymbol c(1) assms(2) symbol_byte [OF c(2)] by (simp add: tokenize_loop.simps(2) [of _ _ _ c])
  have "List.find (\<lambda>(symbol, _). starts_with symbol (c # cs' @ CHR '' '' # cs)) ARITH_SYMBOLS = Some (s, None)"
    using find_symbol [OF c(2)] c(1) by simp
  with c(1) TokSymbol show ?thesis unfolding unfolded by simp
qed (use assms in simp)

lemma tokenize_show_tokens:
  assumes "list_all printable ts" "length acc + length ts < MAX_ARITHMETIC_TOKENS"
  shows "tokenize_loop parse_f64 line acc (show_tokens ts) = Inr (acc @ map (\<lambda>t. (t, line)) ts)"
  using assms
proof (induction ts arbitrary: acc)
  case (Cons t ts)
  have "tokenize_loop parse_f64 line acc (show_tokens (t # ts)) =
      tokenize_loop parse_f64 line (acc @ [(t, line)]) (CHR '' '' # show_tokens ts)"
    using tokenize_printable [of t acc parse_f64 line "show_tokens ts"] Cons.prems by (simp add: show_tokens_def)
  also have "\<dots> = tokenize_loop parse_f64 line (acc @ [(t, line)]) (show_tokens ts)"
    using Cons.prems by (subst tokenize_loop.simps(2)) (simp add: is_ascii_whitespace_def)
  finally show ?case using Cons by simp
qed (simp add: show_tokens_def)

fun printable_expr :: "'f arith_expr \<Rightarrow> bool" where
  "printable_expr (Integer v h) \<longleftrightarrow> 0 \<le> v \<and> v \<le> i64_max"
| "printable_expr (Float v h) \<longleftrightarrow> False"
| "printable_expr (Variable s h) \<longleftrightarrow> s \<noteq> [] \<and> list_all is_name_byte s"
| "printable_expr (Unary op x h) \<longleftrightarrow> printable_expr x"
| "printable_expr (Binary op l r h) \<longleftrightarrow> printable_expr l \<and> printable_expr r"

lemma symbols_printable [simp]:
  "op_symbol op \<in> set arith_symbols" "unary_symbol u \<in> set arith_symbols" "''('' \<in> set arith_symbols" "'')'' \<in> set arith_symbols"
  by (cases op; simp add: arith_symbols_def ARITH_SYMBOLS_def) (cases u; simp add: arith_symbols_def ARITH_SYMBOLS_def)+

lemma printable_parens: "list_all printable (parens b ts) \<longleftrightarrow> list_all printable ts"
  by (simp add: parens_def)

lemma print_arith_printable: "printable_expr x \<Longrightarrow> list_all printable (print_arith k x)"
  by (induction k x rule: print_arith.induct) (simp_all add: printable_parens)

lemma print_arith_nonempty: "print_arith k x \<noteq> []"
  by (cases x) (simp_all add: parens_def)

lemma printed_parses:
  assumes "well_built x" "printable_expr x"
    and "nesting d + paren_depth 1 x \<le> MAX_NESTING_DEPTH" "length (print_arith 1 x) < MAX_ARITHMETIC_TOKENS"
  shows "parse_arithmetic parse_f64 (show_tokens (print_arith 1 x)) line d = Some (Inr x)"
proof -
  have "tokenize_arithmetic parse_f64 (show_tokens (print_arith 1 x)) line = Inr (map (\<lambda>t. (t, line)) (print_arith 1 x))"
    using tokenize_show_tokens [of "print_arith 1 x" "[]"] print_arith_printable [OF assms(2)] assms(4)
    by (simp add: tokenize_arithmetic_def)
  moreover obtain t ts where "map (\<lambda>t. (t, line)) (print_arith 1 x) = t # ts"
    by (cases "map (\<lambda>t. (t, line)) (print_arith 1 x)") (simp_all add: print_arith_nonempty)
  moreover note parse_or_printed [OF assms(1,3), of line line]
  ultimately show ?thesis by (simp add: parse_arithmetic_def)
qed

text \<open>C24: printing an expression with parentheses where the precedence of its operators needs them, and
  parsing the text again, gives the expression back: the precedence and the associativity of the parser
  are those of the printed form. Literals are the integers the code reads, the expression is within the
  bounds of height, nesting and tokens.\<close>

theorem parse_printed_arithmetic:
  assumes "well_built x" "printable_expr x"
    and "nesting d + paren_depth 1 x \<le> MAX_NESTING_DEPTH" "length (print_arith 1 x) < MAX_ARITHMETIC_TOKENS"
  shows "parse_arithmetic parse_f64 (show_tokens (print_arith 1 x)) line d = Some (Inr x)"
  using assms by (rule printed_parses)

text \<open>The text \<open>( 1 + $x ) * - $y \<close>, inside two nested constructs.\<close>

theorem parse_printed_arithmetic_witness:
  "parse_arithmetic (\<lambda>_. None :: unit option) ''( 1 + $x ) * - $y '' 3 \<lparr>d_lexer = 1, d_block = 1\<rparr> =
     Some (Inr (Binary Multiply (Binary Add (Integer 1 0) (Variable ''x'' 0) 1) (Unary Negate (Variable ''y'' 0) 1) 2))"
proof -
  let ?x = "Binary Multiply (Binary Add (Integer 1 0) (Variable ''x'' 0) 1) (Unary Negate (Variable ''y'' 0) 1) 2 :: unit arith_expr"
  have "show_nat 1 = ''1''" by code_simp
  then have "show_tokens (print_arith 1 ?x) = ''( 1 + $x ) * - $y ''"
    by (simp add: show_tokens_def parens_def)
  moreover have "parse_arithmetic (\<lambda>_. None) (show_tokens (print_arith 1 ?x)) 3 \<lparr>d_lexer = 1, d_block = 1\<rparr> = Some (Inr ?x)"
    by (rule parse_printed_arithmetic)
      (simp_all add: parens_def nesting_def MAX_NESTING_DEPTH_def MAX_ARITHMETIC_TOKENS_def i64_max_def is_name_byte_def
        is_ascii_alphanumeric_def is_ascii_lowercase_def)
  ultimately show ?thesis by simp
qed

end
