(* ===== verification/Shell_Arith_Eval.thy ===== *)
theory Shell_Arith_Eval
  imports Shell_Arith
begin

text \<open>
  Evaluation of arithmetic (\<open>dekopon-shell/src/interp.rs\<close>: \<open>evaluate_arithmetic\<close>, \<open>arithmetic\<close>,
  \<open>to_number\<close>, \<open>render_number\<close>) over the variables of the shell (\<open>lookup\<close>, \<open>positional\<close>). The
  operations of \<open>f64\<close> are a parameter; what the theorems use of them are the laws \<open>f64_laws\<close>. A step
  is charged for every node, so the evaluation is a computation that stops when the steps run out.
\<close>

section \<open>Values and variables\<close>

text \<open>\<open>serde_json::Value\<close>; a number is an integer between \<open>i64::MIN\<close> and \<open>u64::MAX\<close>, or a float.\<close>

datatype 'f shell_value =
    VNull | VBool bool | VInteger int | VFloat 'f | VString string
  | VArray "'f shell_value list" | VObject "(string \<times> 'f shell_value) list"

datatype frame_kind = FunctionFrame | PrefixFrame

record 'f frame =
  f_kind :: frame_kind
  f_locals :: "(string \<times> 'f shell_value option) list"
  f_positional :: "'f shell_value list"

text \<open>The frames, the last one first, and the globals.\<close>

record 'f variables =
  v_frames :: "'f frame list"
  v_globals :: "(string \<times> 'f shell_value) list"

fun lookup_frames :: "'f frame list \<Rightarrow> string \<Rightarrow> 'f shell_value option option" where
  "lookup_frames [] name = None"
| "lookup_frames (frame # frames) name =
     (case map_of (f_locals frame) name of Some v \<Rightarrow> Some v | None \<Rightarrow> lookup_frames frames name)"

definition lookup :: "'f variables \<Rightarrow> string \<Rightarrow> 'f shell_value option" where
  "lookup vars name =
     (case lookup_frames (v_frames vars) name of Some v \<Rightarrow> v | None \<Rightarrow> map_of (v_globals vars) name)"

definition positional :: "'f variables \<Rightarrow> 'f shell_value list" where
  "positional vars =
     (case List.find (\<lambda>frame. f_kind frame = FunctionFrame) (v_frames vars) of
        Some frame \<Rightarrow> f_positional frame | None \<Rightarrow> [])"

definition positional_value :: "'f variables \<Rightarrow> nat \<Rightarrow> 'f shell_value" where
  "positional_value vars position =
     (if position = 0 then VString ''dekopon-shell''
      else if position - 1 < length (positional vars) then positional vars ! (position - 1) else VNull)"

section \<open>Numbers\<close>

datatype 'f number = NInteger int | NFloat 'f

datatype ordering = Lt | Eq | Gt

text \<open>The operations of \<open>f64\<close> the code uses.\<close>

record 'f f64 =
  f_of_int :: "int \<Rightarrow> 'f"
  f_parse :: "string \<Rightarrow> 'f option"
  f_zero :: 'f
  f_cmp :: "'f \<Rightarrow> 'f \<Rightarrow> ordering option"
  f_neg :: "'f \<Rightarrow> 'f"
  f_add :: "'f \<Rightarrow> 'f \<Rightarrow> 'f"
  f_sub :: "'f \<Rightarrow> 'f \<Rightarrow> 'f"
  f_mul :: "'f \<Rightarrow> 'f \<Rightarrow> 'f"
  f_div :: "'f \<Rightarrow> 'f \<Rightarrow> 'f"
  f_rem :: "'f \<Rightarrow> 'f \<Rightarrow> 'f"
  f_fract :: "'f \<Rightarrow> 'f"
  f_finite :: "'f \<Rightarrow> bool"
  f_abs :: "'f \<Rightarrow> 'f"
  f_to_i64 :: "'f \<Rightarrow> int"
  f_show :: "'f \<Rightarrow> string"

definition f_eq :: "'f f64 \<Rightarrow> 'f \<Rightarrow> 'f \<Rightarrow> bool" where
  "f_eq F a b \<longleftrightarrow> f_cmp F a b = Some Eq"

definition number_is_truthy :: "'f f64 \<Rightarrow> 'f number \<Rightarrow> bool" where
  "number_is_truthy F n = (case n of NInteger v \<Rightarrow> v \<noteq> 0 | NFloat v \<Rightarrow> \<not> f_eq F v (f_zero F))"

definition number_as_f64 :: "'f f64 \<Rightarrow> 'f number \<Rightarrow> 'f" where
  "number_as_f64 F n = (case n of NInteger v \<Rightarrow> f_of_int F v | NFloat v \<Rightarrow> v)"

definition render_number :: "'f f64 \<Rightarrow> 'f number \<Rightarrow> string" where
  "render_number F n =
     (case n of
        NInteger v \<Rightarrow> show_int v
      | NFloat v \<Rightarrow>
          if f_eq F (f_fract F v) (f_zero F) \<and> f_finite F v \<and> f_cmp F (f_abs F v) (f_of_int F (10 ^ 15)) = Some Lt
          then show_int (f_to_i64 F v) else f_show F v)"

definition to_number :: "'f f64 \<Rightarrow> 'f shell_value \<Rightarrow> 'f number" where
  "to_number F value =
     (case value of
        VInteger v \<Rightarrow> if in_i64 v then NInteger v else NFloat (f_of_int F v)
      | VFloat v \<Rightarrow> NFloat v
      | VBool flag \<Rightarrow> NInteger (if flag then 1 else 0)
      | VString text \<Rightarrow>
          (let text = trim text
           in case parse_i64 text of
                Some v \<Rightarrow> NInteger v
              | None \<Rightarrow> NFloat (case f_parse F text of Some v \<Rightarrow> v | None \<Rightarrow> f_zero F))
      | _ \<Rightarrow> NInteger 0)"

definition truth :: "bool \<Rightarrow> 'f number" where
  "truth b = NInteger (if b then 1 else 0)"

definition comparison :: "ordering option \<Rightarrow> ordering list \<Rightarrow> 'f number" where
  "comparison ord expected = truth (case ord of None \<Rightarrow> False | Some c \<Rightarrow> c \<in> set expected)"

datatype arith_failure = DivisionByZero | Unreachable | OutOfSteps

text \<open>\<open>wrapping_rem\<close>: the remainder of a division that rounds towards zero.\<close>

definition trunc_rem :: "int \<Rightarrow> int \<Rightarrow> int" where
  "trunc_rem l r = l - trunc_div l r * r"

definition integer_arithmetic :: "binary_op \<Rightarrow> int \<Rightarrow> int \<Rightarrow> (arith_failure, int) result" where
  "integer_arithmetic op l r =
     (case op of
        Add \<Rightarrow> Inr (wrap_i64 (l + r))
      | Subtract \<Rightarrow> Inr (wrap_i64 (l - r))
      | Multiply \<Rightarrow> Inr (wrap_i64 (l * r))
      | Divide \<Rightarrow> if r = 0 then Inl DivisionByZero else Inr (wrap_i64 (trunc_div l r))
      | _ \<Rightarrow> if r = 0 then Inl DivisionByZero else Inr (wrap_i64 (trunc_rem l r)))"

definition float_arithmetic :: "'f f64 \<Rightarrow> binary_op \<Rightarrow> 'f \<Rightarrow> 'f \<Rightarrow> (arith_failure, 'f) result" where
  "float_arithmetic F op l r =
     (case op of
        Add \<Rightarrow> Inr (f_add F l r)
      | Subtract \<Rightarrow> Inr (f_sub F l r)
      | Multiply \<Rightarrow> Inr (f_mul F l r)
      | Divide \<Rightarrow> if f_eq F r (f_zero F) then Inl DivisionByZero else Inr (f_div F l r)
      | _ \<Rightarrow> if f_eq F r (f_zero F) then Inl DivisionByZero else Inr (f_rem F l r))"

definition map_ok :: "('a \<Rightarrow> 'b) \<Rightarrow> ('e, 'a) result \<Rightarrow> ('e, 'b) result" where
  "map_ok f res = res_bind res (\<lambda>x. Inr (f x))"

lemma map_ok_simps [simp]: "map_ok f (Inl e) = Inl e" "map_ok f (Inr x) = Inr (f x)"
  by (simp_all add: map_ok_def res_bind_def)

definition arithmetic :: "'f f64 \<Rightarrow> binary_op \<Rightarrow> 'f number \<Rightarrow> 'f number \<Rightarrow> (arith_failure, 'f number) result" where
  "arithmetic F op l r =
     (let ord = f_cmp F (number_as_f64 F l) (number_as_f64 F r)
      in case op of
           Less \<Rightarrow> Inr (comparison ord [Lt])
         | LessOrEqual \<Rightarrow> Inr (comparison ord [Lt, Eq])
         | Greater \<Rightarrow> Inr (comparison ord [Gt])
         | GreaterOrEqual \<Rightarrow> Inr (comparison ord [Gt, Eq])
         | Equal \<Rightarrow> Inr (comparison ord [Eq])
         | NotEqual \<Rightarrow> Inr (comparison ord [Lt, Gt])
         | And \<Rightarrow> Inl Unreachable
         | Or \<Rightarrow> Inl Unreachable
         | _ \<Rightarrow>
             (case (l, r) of
                (NInteger l, NInteger r) \<Rightarrow> map_ok NInteger (integer_arithmetic op l r)
              | _ \<Rightarrow> map_ok NFloat (float_arithmetic F op (number_as_f64 F l) (number_as_f64 F r))))"

section \<open>Evaluation\<close>

definition lift_result :: "('e, 'a) result \<Rightarrow> ('e, 'a) timed" where
  "lift_result res = (case res of Inl e \<Rightarrow> timed_fail e | Inr x \<Rightarrow> timed_return x)"

definition negate_number :: "'f f64 \<Rightarrow> 'f number \<Rightarrow> 'f number" where
  "negate_number F n = (case n of NInteger v \<Rightarrow> NInteger (wrap_i64 (- v)) | NFloat v \<Rightarrow> NFloat (f_neg F v))"

definition variable_number :: "'f f64 \<Rightarrow> 'f variables \<Rightarrow> string \<Rightarrow> 'f number" where
  "variable_number F vars name =
     to_number F (case parse_u64 name of
        Some position \<Rightarrow> positional_value vars position
      | None \<Rightarrow> (case lookup vars name of Some v \<Rightarrow> v | None \<Rightarrow> VNull))"

fun evaluate_arithmetic :: "'f f64 \<Rightarrow> 'f variables \<Rightarrow> 'f arith_expr \<Rightarrow> (arith_failure, 'f number) timed" where
  "evaluate_arithmetic F vars (Integer v _) = timed_bind (read_deadline OutOfSteps) (\<lambda>_. timed_return (NInteger v))"
| "evaluate_arithmetic F vars (Float v _) = timed_bind (read_deadline OutOfSteps) (\<lambda>_. timed_return (NFloat v))"
| "evaluate_arithmetic F vars (Variable name _) =
     timed_bind (read_deadline OutOfSteps) (\<lambda>_. timed_return (variable_number F vars name))"
| "evaluate_arithmetic F vars (Unary op x _) =
     timed_bind (read_deadline OutOfSteps) (\<lambda>_.
       timed_bind (evaluate_arithmetic F vars x) (\<lambda>n.
         timed_return (case op of Negate \<Rightarrow> negate_number F n | Not \<Rightarrow> truth (\<not> number_is_truthy F n))))"
| "evaluate_arithmetic F vars (Binary op l r _) =
     timed_bind (read_deadline OutOfSteps) (\<lambda>_.
       if op = And then
         timed_bind (evaluate_arithmetic F vars l) (\<lambda>n.
           if \<not> number_is_truthy F n then timed_return (NInteger 0)
           else timed_bind (evaluate_arithmetic F vars r) (\<lambda>n. timed_return (truth (number_is_truthy F n))))
       else if op = Or then
         timed_bind (evaluate_arithmetic F vars l) (\<lambda>n.
           if number_is_truthy F n then timed_return (NInteger 1)
           else timed_bind (evaluate_arithmetic F vars r) (\<lambda>n. timed_return (truth (number_is_truthy F n))))
       else
         timed_bind (evaluate_arithmetic F vars l) (\<lambda>l.
           timed_bind (evaluate_arithmetic F vars r) (\<lambda>r. lift_result (arithmetic F op l r))))"


section \<open>Integer results\<close>

text \<open>An integer converted to \<open>f64\<close> keeps 53 significant bits and rounds to the nearest, ties to even.\<close>

fun bit_length :: "nat \<Rightarrow> nat" where
  "bit_length m = (if m = 0 then 0 else Suc (bit_length (m div 2)))"

declare bit_length.simps [simp del]

definition round53 :: "int \<Rightarrow> int" where
  "round53 a =
     (let m = nat \<bar>a\<bar>; e = bit_length m - 53; q = m div 2 ^ e; r = m mod 2 ^ e
      in sgn a * int ((if e > 0 \<and> (2 * r > 2 ^ e \<or> (2 * r = 2 ^ e \<and> odd q)) then q + 1 else q) * 2 ^ e))"

definition compare_int :: "int \<Rightarrow> int \<Rightarrow> ordering" where
  "compare_int a b = (if a < b then Lt else if a = b then Eq else Gt)"

text \<open>What IEEE 754 says of the comparison of two converted integers.\<close>

definition f64_laws :: "'f f64 \<Rightarrow> bool" where
  "f64_laws F \<longleftrightarrow>
     (\<forall>a b. in_i64 a \<and> in_i64 b \<longrightarrow> f_cmp F (f_of_int F a) (f_of_int F b) = Some (compare_int (round53 a) (round53 b)))"

text \<open>The value of an expression over integer variables, with comparisons over a view of the integers.\<close>

definition compares :: "binary_op \<Rightarrow> int \<Rightarrow> int \<Rightarrow> bool" where
  "compares op a b =
     (case op of Less \<Rightarrow> a < b | LessOrEqual \<Rightarrow> a \<le> b | Greater \<Rightarrow> a > b | GreaterOrEqual \<Rightarrow> a \<ge> b
      | Equal \<Rightarrow> a = b | _ \<Rightarrow> a \<noteq> b)"

fun integer_value :: "(int \<Rightarrow> int) \<Rightarrow> (string \<Rightarrow> int) \<Rightarrow> 'f arith_expr \<Rightarrow> (arith_failure, int) result" where
  "integer_value view e (Integer v _) = Inr v"
| "integer_value view e (Float v _) = Inl Unreachable"
| "integer_value view e (Variable name _) = Inr (e name)"
| "integer_value view e (Unary op x _) =
     res_bind (integer_value view e x) (\<lambda>v. Inr (case op of Negate \<Rightarrow> wrap_i64 (- v) | Not \<Rightarrow> of_bool (v = 0)))"
| "integer_value view e (Binary op l r _) =
     res_bind (integer_value view e l) (\<lambda>a.
       if op = And \<and> a = 0 then Inr 0 else if op = Or \<and> a \<noteq> 0 then Inr 1
       else res_bind (integer_value view e r) (\<lambda>b.
         if op = And \<or> op = Or then Inr (of_bool (b \<noteq> 0))
         else if op \<in> {Add, Subtract, Multiply, Divide, Remainder} then integer_arithmetic op a b
         else Inr (of_bool (compares op (view a) (view b)))))"

fun integer_expr :: "'f f64 \<Rightarrow> 'f variables \<Rightarrow> (string \<Rightarrow> int) \<Rightarrow> 'f arith_expr \<Rightarrow> bool" where
  "integer_expr F vars e (Integer v _) \<longleftrightarrow> in_i64 v"
| "integer_expr F vars e (Float v _) \<longleftrightarrow> False"
| "integer_expr F vars e (Variable name _) \<longleftrightarrow> variable_number F vars name = NInteger (e name)"
| "integer_expr F vars e (Unary _ x _) \<longleftrightarrow> integer_expr F vars e x"
| "integer_expr F vars e (Binary _ l r _) \<longleftrightarrow> integer_expr F vars e l \<and> integer_expr F vars e r"

lemma to_number_i64: "to_number F value = NInteger v \<Longrightarrow> in_i64 v"
  by (auto simp: to_number_def parse_i64_def Let_def in_i64_def i64_min_def i64_max_def
      split: shell_value.splits if_splits option.splits)

lemma variable_number_i64: "variable_number F vars name = NInteger v \<Longrightarrow> in_i64 v"
  unfolding variable_number_def by (rule to_number_i64)

lemma in_i64_of_bool [simp]: "in_i64 (of_bool b)"
  by (simp add: in_i64_def i64_min_def i64_max_def)

lemma integer_arithmetic_i64: "integer_arithmetic op a b = Inr v \<Longrightarrow> in_i64 v"
  by (auto simp: integer_arithmetic_def wrap_i64_range split: binary_op.splits if_splits)

lemma integer_value_i64:
  "integer_expr F vars e x \<Longrightarrow> integer_value view e x = Inr v \<Longrightarrow> in_i64 v"
proof (induction x arbitrary: v)
  case (Unary op x h)
  then show ?case by (auto simp: res_bind_def wrap_i64_range split: sum.splits unary_op.splits)
next
  case (Binary op l r h)
  have "in_i64 0" "in_i64 1" using in_i64_of_bool [of False] in_i64_of_bool [of True] by simp_all
  with Binary.prems show ?case
    by (auto simp: res_bind_def split: sum.splits if_splits dest: integer_arithmetic_i64)
qed (auto dest: variable_number_i64)

lemma settles_lift [settled]: "settles late (lift_result res) res"
  by (cases res) (simp_all add: lift_result_def settled)

lemma settles_step: "settles OutOfSteps m res \<Longrightarrow> settles OutOfSteps (timed_bind (read_deadline OutOfSteps) (\<lambda>_. m)) res"
  by (rule settles_bind [OF settles_read])

text \<open>A computation whose result is an integer or a failure, and what follows it.\<close>

lemma settles_bind_integer:
  assumes "settles late m (map_ok NInteger res)"
    and "\<And>v. res = Inr v \<Longrightarrow> settles late (f (NInteger v)) (map_ok NInteger (g v))"
  shows "settles late (timed_bind m f) (map_ok NInteger (res_bind res g))"
  using assms by (cases res) (auto simp: res_bind_def intro: settles_bind settles_bind_fail)

lemma arithmetic_integers:
  assumes "f64_laws F" "in_i64 a" "in_i64 b" "op \<noteq> And" "op \<noteq> Or"
  shows "arithmetic F op (NInteger a) (NInteger b) =
    map_ok NInteger
      (if op \<in> {Add, Subtract, Multiply, Divide, Remainder} then integer_arithmetic op a b
       else Inr (of_bool (compares op (round53 a) (round53 b))))"
proof -
  have "f_cmp F (f_of_int F a) (f_of_int F b) = Some (compare_int (round53 a) (round53 b))"
    using assms(1-3) by (simp add: f64_laws_def)
  then show ?thesis using assms(4,5)
    by (cases op)
      (auto simp: arithmetic_def number_as_f64_def comparison_def truth_def compares_def compare_int_def)
qed

lemma truthy_integer [simp]: "number_is_truthy F (NInteger v) \<longleftrightarrow> v \<noteq> 0"
  by (simp add: number_is_truthy_def)

lemma evaluate_integer_expr:
  assumes "f64_laws F" "integer_expr F vars e x"
  shows "settles OutOfSteps (evaluate_arithmetic F vars x) (map_ok NInteger (integer_value round53 e x))"
  using assms(2)
proof (induction x)
  case (Unary op x h)
  then show ?case
    by (cases op) (auto intro!: settles_step settles_bind_integer settles_return simp: negate_number_def truth_def)
next
  case (Binary op l r h)
  then have left: "settles OutOfSteps (evaluate_arithmetic F vars l) (map_ok NInteger (integer_value round53 e l))"
    and right: "settles OutOfSteps (evaluate_arithmetic F vars r) (map_ok NInteger (integer_value round53 e r))"
    and "integer_expr F vars e l" "integer_expr F vars e r" by simp_all
  then have range: "\<And>v. integer_value round53 e l = Inr v \<Longrightarrow> in_i64 v" "\<And>v. integer_value round53 e r = Inr v \<Longrightarrow> in_i64 v"
    by (blast intro: integer_value_i64)+
  consider "op = And" | "op = Or" | "op \<noteq> And" "op \<noteq> Or" by blast
  then show ?case
  proof cases
    case 3
    then show ?thesis
      by (auto simp: arithmetic_integers [OF assms(1) range]
          intro!: settles_step settles_bind_integer [OF left] settles_bind_integer [OF right] settles_lift)
  qed (auto intro!: settles_step settles_bind_integer [OF left] settles_bind_integer [OF right] settles_return
      simp: truth_def)
qed (auto intro!: settles_step settles_return)

lemma bit_length_le: "m < 2 ^ n \<Longrightarrow> bit_length m \<le> n"
proof (induction m arbitrary: n rule: bit_length.induct)
  case (1 m)
  show ?case
  proof (cases "m = 0")
    case False
    with 1(2) obtain k where n: "n = Suc k" by (cases n) auto
    with 1(2) have "m div 2 < 2 ^ k" by auto
    with 1(1) False n show ?thesis by (subst bit_length.simps) simp
  qed (simp add: bit_length.simps)
qed

lemma round53_exact: "\<bar>a\<bar> < 2 ^ 53 \<Longrightarrow> round53 a = a"
proof -
  assume "\<bar>a\<bar> < 2 ^ 53"
  then have "nat \<bar>a\<bar> < 2 ^ 53" by (simp add: nat_less_iff)
  then have "bit_length (nat \<bar>a\<bar>) - 53 = 0" using bit_length_le by simp
  then show ?thesis by (simp add: round53_def Let_def sgn_mult_abs)
qed




text \<open>An instance of the floats whose laws hold: the integers they can represent.\<close>

definition integer_floats :: "int f64" where
  "integer_floats =
     \<lparr>f_of_int = round53, f_parse = (\<lambda>_. None), f_zero = 0, f_cmp = (\<lambda>a b. Some (compare_int a b)), f_neg = uminus,
      f_add = (\<lambda>a b. round53 (a + b)), f_sub = (\<lambda>a b. round53 (a - b)), f_mul = (\<lambda>a b. round53 (a * b)),
      f_div = (\<lambda>a b. round53 (a div b)), f_rem = (\<lambda>a b. a mod b), f_fract = (\<lambda>_. 0), f_finite = (\<lambda>_. True),
      f_abs = abs, f_to_i64 = clamp_i64, f_show = show_int\<rparr>"

lemma integer_floats_laws: "f64_laws integer_floats"
  by (simp add: f64_laws_def integer_floats_def)

definition no_variables :: "'f variables" where
  "no_variables = \<lparr>v_frames = [], v_globals = []\<rparr>"


section \<open>Wrap-around happens once\<close>

lemma wrap_i64_mod: "wrap_i64 x mod 2 ^ 64 = x mod 2 ^ 64"
  by (simp add: wrap_i64_def mod_diff_left_eq)

lemma wrap_i64_cong: "x mod 2 ^ 64 = y mod 2 ^ 64 \<Longrightarrow> wrap_i64 x = wrap_i64 y"
  unfolding wrap_i64_def by (metis mod_add_left_eq)

lemma wrap_i64_ring:
  "wrap_i64 (- wrap_i64 a) = wrap_i64 (- a)"
  "wrap_i64 (wrap_i64 a + wrap_i64 b) = wrap_i64 (a + b)"
  "wrap_i64 (wrap_i64 a - wrap_i64 b) = wrap_i64 (a - b)"
  "wrap_i64 (wrap_i64 a * wrap_i64 b) = wrap_i64 (a * b)"
  by (rule wrap_i64_cong; metis wrap_i64_mod mod_minus_eq mod_add_eq mod_diff_eq mod_mult_eq)+

text \<open>The value an expression of sums, differences, products and signs has over the integers.\<close>

fun exact_value :: "(string \<Rightarrow> int) \<Rightarrow> 'f arith_expr \<Rightarrow> int option" where
  "exact_value e (Integer v _) = Some v"
| "exact_value e (Float v _) = None"
| "exact_value e (Variable name _) = Some (e name)"
| "exact_value e (Unary op x _) = (case op of Negate \<Rightarrow> map_option uminus (exact_value e x) | Not \<Rightarrow> None)"
| "exact_value e (Binary op l r _) =
     (case (exact_value e l, exact_value e r) of
        (Some a, Some b) \<Rightarrow>
          (case op of Add \<Rightarrow> Some (a + b) | Subtract \<Rightarrow> Some (a - b) | Multiply \<Rightarrow> Some (a * b) | _ \<Rightarrow> None)
      | _ \<Rightarrow> None)"

lemma integer_value_wraps:
  "integer_expr F vars e x \<Longrightarrow> exact_value e x = Some m \<Longrightarrow> integer_value view e x = Inr (wrap_i64 m)"
proof (induction x arbitrary: m)
  case (Unary op x h)
  then show ?case by (auto simp: res_bind_def wrap_i64_ring split: unary_op.splits)
next
  case (Binary op l r h)
  then obtain a b where "exact_value e l = Some a" "exact_value e r = Some b" by (auto split: option.splits)
  with Binary show ?case
    by (auto simp: res_bind_def integer_arithmetic_def wrap_i64_ring split: binary_op.splits)
qed (auto simp: wrap_i64_exact dest: variable_number_i64)

text \<open>A sum, difference or product of integers, however deep, evaluates to its mathematical value
  reduced once to 64 bits; where that value fits, evaluation is exact even if parts of it overflowed.\<close>

theorem ring_evaluation_wraps_once:
  assumes "f64_laws F" "integer_expr F vars e x" "exact_value e x = Some m"
  shows "settles OutOfSteps (evaluate_arithmetic F vars x) (Inr (NInteger (wrap_i64 m)))"
  using evaluate_integer_expr [OF assms(1,2)] integer_value_wraps [OF assms(2,3), of round53] by simp

text \<open>The largest integer plus one minus one.\<close>

theorem ring_evaluation_wraps_once_witness:
  "settles OutOfSteps (evaluate_arithmetic integer_floats no_variables
     (Binary Subtract (Binary Add (Integer i64_max 0) (Integer 1 0) 1) (Integer 1 0) 2)) (Inr (NInteger i64_max))"
  using ring_evaluation_wraps_once [OF integer_floats_laws, of no_variables "\<lambda>_. 0"
      "Binary Subtract (Binary Add (Integer i64_max 0) (Integer 1 0) 1) (Integer 1 0) 2" i64_max]
  by (simp add: in_i64_def i64_min_def i64_max_def wrap_i64_def)

section \<open>Comparisons\<close>

lemma bit_length_bound: "m < 2 ^ bit_length m"
proof (induction m rule: bit_length.induct)
  case (1 m)
  then show ?case by (subst bit_length.simps) auto
qed

text \<open>Integers below 2 to the 53 compare as they should; above, two that differ may compare equal.\<close>

lemma integers_compare_exactly:
  assumes "f64_laws F" "\<bar>a\<bar> < 2 ^ 53" "\<bar>b\<bar> < 2 ^ 53" "op \<in> {Less, LessOrEqual, Greater, GreaterOrEqual, Equal, NotEqual}"
  shows "arithmetic F op (NInteger a) (NInteger b) = Inr (NInteger (of_bool (compares op a b)))"
proof -
  have "in_i64 a" "in_i64 b" using assms(2,3) by (auto simp: in_i64_def i64_min_def i64_max_def)
  then show ?thesis
    using arithmetic_integers [OF assms(1), of a b op] assms(2-4) by (auto simp: round53_exact)
qed

lemma different_integers_compare_equal:
  assumes "f64_laws F"
  shows "arithmetic F Equal (NInteger (2 ^ 53 + 1)) (NInteger (2 ^ 53)) = Inr (NInteger 1)"
proof -
  have len: "bit_length 9007199254740993 = 54" "bit_length 9007199254740992 = 54"
    by (simp_all add: bit_length.simps)
  have "round53 (2 ^ 53 + 1) = round53 (2 ^ 53)" by (simp add: round53_def Let_def len)
  then show ?thesis
    using arithmetic_integers [OF assms, of "2 ^ 53 + 1" "2 ^ 53" Equal]
    by (simp add: in_i64_def i64_min_def i64_max_def compares_def)
qed

section \<open>Rendering a result and reading it back\<close>

text \<open>the integer an expansion renders is the integer an expression reads from it: a variable that
  was assigned the text of a result has that result as its value in arithmetic.\<close>

theorem rendered_integer_reads_back:
  assumes "in_i64 v" "parse_u64 name = None" "lookup vars name = Some (VString (render_number F (NInteger v)))"
  shows "settles OutOfSteps (evaluate_arithmetic F vars (Variable name h)) (Inr (NInteger v))"
proof -
  have "trim (show_int v) = show_int v" using show_int_bytes by (intro trim_ascii_digits) blast
  then have "variable_number F vars name = NInteger v"
    using assms by (simp add: variable_number_def to_number_def render_number_def parse_i64_show_int)
  then show ?thesis by (auto intro!: settles_step settles_return)
qed

theorem rendered_integer_reads_back_witness:
  "settles OutOfSteps (evaluate_arithmetic integer_floats \<lparr>v_frames = [], v_globals = [(''x'', VString ''-12'')]\<rparr> (Variable ''x'' 0))
     (Inr (NInteger (- 12)))"
proof (rule rendered_integer_reads_back)
  have "show_nat 12 = ''12''" by code_simp
  then show "lookup \<lparr>v_frames = [], v_globals = [(''x'', VString ''-12'')]\<rparr> ''x'' = Some (VString (render_number integer_floats (NInteger (- 12))))"
    by (simp add: lookup_def render_number_def show_int_def)
qed (simp_all add: in_i64_def i64_min_def i64_max_def parse_u64_def is_ascii_digit_def)

end
