(* ===== verification/Gateway_Message.thy ===== *)
theory Gateway_Message
  imports Conversation
begin

text \<open>
  What the gateway moves: a message of a chat with its assets and where its answer goes, and the
  bounds on its text (\<open>dekopon-gatewayd/src/transport.rs\<close>). The fields of a message that only the
  transports and the session read (its liveness target, thread continuation, links to pull requests)
  are left out. A tracing span is named by a number, an \<open>Instant\<close> is a number of nanoseconds.
\<close>

definition MAX_INBOUND_TEXT_BYTES :: nat where "MAX_INBOUND_TEXT_BYTES = 16 * 1024"
definition MAX_OUTBOUND_TEXT_BYTES :: nat where "MAX_OUTBOUND_TEXT_BYTES = 8 * 1024"
definition MAX_ASSETS_PER_MESSAGE :: nat where "MAX_ASSETS_PER_MESSAGE = 32"

type_synonym instant = nat

datatype reply_target =
    ReplyFauxlack string string "string option"
  | ReplySlack string "string option"
  | ReplyDiscord string "string option"
  | ReplyTelegram int "int option" "int option"
  | ReplyWhatsApp string
  | ReplyGithubTrace
  | ReplyLocal nat

datatype message_id =
    NativeId string
  | GithubId "github_event list"
  | FollowId string
  | WakeId nat string
  | JobMessageId nat string

datatype input_refusal = Unsupported

definition input_refusal_reason :: "input_refusal \<Rightarrow> string" where
  "input_refusal_reason r = (case r of Unsupported \<Rightarrow> ''unsupported-message'')"

record pending_asset =
  pa_name :: string
  pa_mime :: string
  pa_size :: "nat option"

record inbound_message =
  im_transport :: string
  im_transport_kind :: transport_kind
  im_subject :: attested
  im_conversation :: conversation
  im_message_id :: message_id
  im_text :: string
  im_control_text :: "string option"
  im_assets :: "pending_asset list"
  im_asset_overflow :: bool
  im_input_refusal :: "input_refusal option"
  im_reply :: reply_target
  im_receive_span :: nat
  im_received_at :: instant
  im_native_group :: "string option"
  im_constituents :: "nat list"

record cancel_request =
  cr_transport :: string
  cr_conversation_id :: string
  cr_subject :: string

section \<open>Bounds on texts\<close>

fun boundary_above :: "string \<Rightarrow> nat \<Rightarrow> nat" where
  "boundary_above [] i = i"
| "boundary_above (c # s) i = (if byte c < 128 \<or> 192 \<le> byte c then i else boundary_above s (Suc i))"

definition ceil_boundary :: "string \<Rightarrow> nat \<Rightarrow> nat" where
  "ceil_boundary s i = (let i = min i (length s) in if i = 0 then 0 else boundary_above (drop i s) i)"

definition inbound_marker :: string where
  "inbound_marker = CHR 0x0A # ''[message truncated by the gateway]''"

definition bound_inbound :: "string \<Rightarrow> string" where
  "bound_inbound t =
     (if length t \<le> MAX_INBOUND_TEXT_BYTES then t
      else take (floor_char_boundary t MAX_INBOUND_TEXT_BYTES) t @ inbound_marker)"

definition outbound_marker :: string where
  "outbound_marker = [CHR 0x0A, CHR 0x0A] @ ''[...truncated by the gateway...]'' @ [CHR 0x0A, CHR 0x0A]"

definition bound_outbound :: "string \<Rightarrow> string" where
  "bound_outbound t =
     (if length t \<le> MAX_OUTBOUND_TEXT_BYTES then t
      else
        let budget = saturating_sub MAX_OUTBOUND_TEXT_BYTES (length outbound_marker);
            head = floor_char_boundary t (budget div 2);
            tail = ceil_boundary t (length t - (budget - budget div 2))
        in take head t @ outbound_marker @ drop tail t)"

definition control_text :: "inbound_message \<Rightarrow> string" where
  "control_text m = (case im_control_text m of Some t \<Rightarrow> t | None \<Rightarrow> im_text m)"

definition absorb :: "inbound_message \<Rightarrow> inbound_message \<Rightarrow> inbound_message" where
  "absorb m late =
     m\<lparr>im_text := bound_inbound (im_text m @ [CHR 0x0A] @ im_text late),
       im_control_text := Some (bound_inbound (control_text m @ [CHR 0x0A] @ control_text late)),
       im_assets := im_assets m @ im_assets late\<rparr>"

lemma boundary_above_ge: "i \<le> boundary_above s i"
  by (induction s i rule: boundary_above.induct) auto

lemma ceil_boundary_ge: "i \<le> length s \<Longrightarrow> i \<le> ceil_boundary s i"
  using boundary_above_ge [of i "drop i s"] by (auto simp: ceil_boundary_def Let_def)

lemma inbound_marker_length: "length inbound_marker = 35"
  by (simp add: inbound_marker_def)

lemma outbound_marker_length: "length outbound_marker = 36"
  by (simp add: outbound_marker_def)

lemma bound_inbound_length: "length (bound_inbound t) \<le> MAX_INBOUND_TEXT_BYTES + 35"
  using floor_char_boundary_le [of t MAX_INBOUND_TEXT_BYTES]
  by (auto simp: bound_inbound_def inbound_marker_length)

text \<open>What is sent is within the bound, and shows whole characters from both ends of the text.\<close>

lemma bound_outbound_length: "length (bound_outbound t) \<le> MAX_OUTBOUND_TEXT_BYTES"
proof (cases "length t \<le> MAX_OUTBOUND_TEXT_BYTES")
  case False
  let ?b = "MAX_OUTBOUND_TEXT_BYTES - 36"
  have "?b - ?b div 2 \<le> length t" using False by simp
  then have "length t - ceil_boundary t (length t - (?b - ?b div 2)) \<le> ?b - ?b div 2"
    using ceil_boundary_ge [of "length t - (?b - ?b div 2)" t] by linarith
  moreover have "floor_char_boundary t (?b div 2) \<le> ?b div 2" by (rule floor_char_boundary_le)
  ultimately show ?thesis
    using False by (simp add: bound_outbound_def Let_def outbound_marker_length saturating_sub_def MAX_OUTBOUND_TEXT_BYTES_def)
qed (simp add: bound_outbound_def)

end
