(* ===== verification/Gateway_Collector.thy ===== *)
theory Gateway_Collector
  imports Gateway_Message "HOL-Library.Multiset"
begin

text \<open>
  The collector of the gateway (\<open>dekopon-gatewayd/src/collection.rs\<close>): messages that a transport
  sends in pieces, an album of photos or a burst of texts, are held in a batch for a quiet time and
  handed on as one. The identity of a route is a digest and stays abstract here. The lemmas show that
  batches stay within their bounds, that no message is lost or handed on twice, and that no batch waits
  beyond its hard deadline.
\<close>

section \<open>State\<close>

definition MAX_ENVELOPES :: nat where "MAX_ENVELOPES = 8"
definition TELEGRAM_GROUP_WINDOW :: nat where "TELEGRAM_GROUP_WINDOW = 3 * 1000000000"

type_synonym route = string

record collection_window =
  cw_quiet :: nat
  cw_max_wait :: nat

record batch =
  b_route :: route
  b_deadline :: instant
  b_hard_deadline :: instant
  b_members :: "inbound_message list"

record collector =
  c_windows :: "(string \<times> collection_window) list"
  c_capacity :: nat
  c_pending :: "batch list"

datatype offered =
    OfferedPending
  | OfferedImmediate inbound_message
  | OfferedRefused inbound_message string

text \<open>What is written to the audit log.\<close>

datatype collector_event =
    MessageReceived nat
  | InputDisposition nat string

text \<open>The transports a configuration names; only one kind has windows.\<close>

datatype transport_config = WhatsappCloudApi string nat nat | OtherTransport string

section \<open>Operations\<close>

definition collector_new :: "transport_config list \<Rightarrow> nat \<Rightarrow> collector" where
  "collector_new transports capacity =
     \<lparr>c_windows = rev (List.map_filter (\<lambda>t. case t of
          WhatsappCloudApi name quiet max_wait \<Rightarrow> Some (name, \<lparr>cw_quiet = quiet * 1000000, cw_max_wait = max_wait * 1000000\<rparr>)
        | OtherTransport _ \<Rightarrow> None) transports),
      c_capacity = capacity, c_pending = []\<rparr>"

definition next_deadline :: "collector \<Rightarrow> instant option" where
  "next_deadline c = (case map b_deadline (c_pending c) of [] \<Rightarrow> None | d # ds \<Rightarrow> Some (fold min ds d))"

definition audience :: "reply_target \<Rightarrow> reply_target" where
  "audience reply = (case reply of ReplyTelegram chat _ thread \<Rightarrow> ReplyTelegram chat None thread | other \<Rightarrow> other)"

definition compatible :: "inbound_message \<Rightarrow> inbound_message \<Rightarrow> bool" where
  "compatible l r \<longleftrightarrow>
     im_subject l = im_subject r \<and> im_transport l = im_transport r \<and> im_transport_kind l = im_transport_kind r
     \<and> im_conversation l = im_conversation r \<and> audience (im_reply l) = audience (im_reply r)"

definition is_native_continuation :: "collector \<Rightarrow> instant \<Rightarrow> route \<Rightarrow> inbound_message \<Rightarrow> bool" where
  "is_native_continuation c now route m \<longleftrightarrow>
     im_transport_kind m = OnTelegram \<and> im_native_group m \<noteq> None
     \<and> list_ex (\<lambda>b. b_route b = route \<and> b_deadline b > now \<and> compatible (hd (b_members b)) m
                    \<and> im_native_group (hd (b_members b)) = im_native_group m) (c_pending c)"

definition input_line :: "nat \<Rightarrow> inbound_message \<Rightarrow> string" where
  "input_line index m =
     ''[Input '' @ show_nat (index + 1) @ ''; '' @ show_nat (length (im_assets m)) @ '' attachments; caption ''
     @ (if im_text m = [] then ''absent'' else ''present'') @ '']'' @ [CHR 0x0A] @ im_text m @ [CHR 0x0A]"

definition combined_text :: "inbound_message list \<Rightarrow> string" where
  "combined_text ms = concat (map (\<lambda>(i, m). input_line i m) (zip [0..<length ms] ms))"

definition asset_count :: "inbound_message list \<Rightarrow> nat" where
  "asset_count ms = sum_list (map (length \<circ> im_assets) ms)"

definition window_for :: "collector \<Rightarrow> inbound_message \<Rightarrow> collection_window option" where
  "window_for c m =
     (case im_transport_kind m of
        OnWhatsapp \<Rightarrow>
          (case map_of (c_windows c) (im_transport m) of
             Some w \<Rightarrow> if cw_quiet w = 0 then None else Some w
           | None \<Rightarrow> None)
      | OnTelegram \<Rightarrow>
          if im_native_group m \<noteq> None
          then Some \<lparr>cw_quiet = TELEGRAM_GROUP_WINDOW, cw_max_wait = TELEGRAM_GROUP_WINDOW\<rparr> else None
      | _ \<Rightarrow> None)"

text \<open>A message that meets its batch.\<close>

definition join_batch :: "collection_window \<Rightarrow> batch \<Rightarrow> inbound_message \<Rightarrow> batch \<times> offered" where
  "join_batch w b m =
     (if im_native_group (hd (b_members b)) \<noteq> im_native_group m then (b, OfferedRefused m ''incompatible-group'')
      else if length (b_members b) = MAX_ENVELOPES
           \<or> asset_count (b_members b) + length (im_assets m) > MAX_ASSETS_PER_MESSAGE
           \<or> length (combined_text (b_members b @ [m])) > MAX_INBOUND_TEXT_BYTES
        then (b, OfferedRefused m ''batch-limit'')
      else if im_transport_kind m = OnWhatsapp then
        (case instant_checked_add (im_received_at m) (cw_quiet w) of
           None \<Rightarrow> (b, OfferedRefused m ''deadline-overflow'')
         | Some deadline \<Rightarrow>
             (b\<lparr>b_deadline := max (b_deadline b) (min deadline (b_hard_deadline b)), b_members := b_members b @ [m]\<rparr>,
              OfferedPending))
      else (b\<lparr>b_members := b_members b @ [m]\<rparr>, OfferedPending))"

text \<open>The first batch a message belongs to, with what comes before and after it.\<close>

fun find_batch :: "(batch \<Rightarrow> bool) \<Rightarrow> batch list \<Rightarrow> (batch list \<times> batch \<times> batch list) option" where
  "find_batch P [] = None"
| "find_batch P (b # bs) =
     (if P b then Some ([], b, bs)
      else (case find_batch P bs of None \<Rightarrow> None | Some (before, x, after) \<Rightarrow> Some (b # before, x, after)))"

text \<open>A message that starts a batch.\<close>

definition open_batch :: "collection_window \<Rightarrow> collector \<Rightarrow> route \<Rightarrow> inbound_message \<Rightarrow> collector \<times> offered" where
  "open_batch w c route m =
     (if length (im_text m) > MAX_INBOUND_TEXT_BYTES then (c, OfferedRefused m ''input-limit'')
      else if length (c_pending c) = c_capacity c then (c, OfferedRefused m ''collection-full'')
      else
        (case instant_checked_add (im_received_at m) (cw_quiet w) of
           None \<Rightarrow> (c, OfferedRefused m ''deadline-overflow'')
         | Some deadline \<Rightarrow>
             (case instant_checked_add (im_received_at m) (cw_max_wait w) of
                None \<Rightarrow> (c, OfferedRefused m ''deadline-overflow'')
              | Some hard \<Rightarrow>
                  (c\<lparr>c_pending := c_pending c @
                       [\<lparr>b_route = route, b_deadline = min deadline hard, b_hard_deadline = hard, b_members = [m]\<rparr>]\<rparr>,
                   OfferedPending))))"

definition offer :: "collector \<Rightarrow> route \<Rightarrow> inbound_message \<Rightarrow> collector \<times> offered \<times> collector_event list" where
  "offer c route m =
     (case im_input_refusal m of
        Some refusal \<Rightarrow> (c, OfferedRefused m (input_refusal_reason refusal), [MessageReceived (im_receive_span m)])
      | None \<Rightarrow>
          if im_asset_overflow m \<or> length (im_assets m) > MAX_ASSETS_PER_MESSAGE
          then (c, OfferedRefused m ''input-limit'', [MessageReceived (im_receive_span m)])
          else
            (case window_for c m of
               None \<Rightarrow> (c, OfferedImmediate m, [])
             | Some w \<Rightarrow>
                 (case find_batch (\<lambda>b. b_route b = route \<and> compatible (hd (b_members b)) m) (c_pending c) of
                    Some (before, b, after) \<Rightarrow>
                      (case join_batch w b m of
                         (b, answer) \<Rightarrow> (c\<lparr>c_pending := before @ b # after\<rparr>, answer, [MessageReceived (im_receive_span m)]))
                  | None \<Rightarrow>
                      if im_assets m = [] \<and> im_native_group m = None then (c, OfferedImmediate m, [])
                      else (case open_batch w c route m of
                              (c, answer) \<Rightarrow> (c, answer, [MessageReceived (im_receive_span m)])))))"

definition assemble :: "batch \<Rightarrow> inbound_message" where
  "assemble b =
     (let members = b_members b
      in (hd members)\<lparr>
           im_assets := im_assets (hd members) @ concat (map im_assets (tl members)),
           im_text := (if length members > 1 then combined_text members else im_text (hd members)),
           im_constituents := map im_receive_span members\<rparr>)"

fun take_due :: "instant \<Rightarrow> batch list \<Rightarrow> batch list \<times> (route \<times> inbound_message) list" where
  "take_due now [] = ([], [])"
| "take_due now (b # bs) =
     (case take_due now bs of
        (kept, ready) \<Rightarrow> if b_deadline b \<le> now then (kept, (b_route b, assemble b) # ready) else (b # kept, ready))"

definition take_due_routed :: "collector \<Rightarrow> instant \<Rightarrow> collector \<times> (route \<times> inbound_message) list" where
  "take_due_routed c now = (case take_due now (c_pending c) of (kept, ready) \<Rightarrow> (c\<lparr>c_pending := kept\<rparr>, ready))"

definition batch_owned :: "cancel_request \<Rightarrow> batch \<Rightarrow> bool" where
  "batch_owned r b \<longleftrightarrow>
     im_transport (hd (b_members b)) = cr_transport r
     \<and> conversation_key (im_conversation (hd (b_members b))) = cr_conversation_id r
     \<and> canonical (attested_name (im_subject (hd (b_members b)))) = cr_subject r"

definition batch_dispositions :: "string \<Rightarrow> batch list \<Rightarrow> collector_event list" where
  "batch_dispositions outcome bs = concat (map (\<lambda>b. map (\<lambda>m. InputDisposition (im_receive_span m) outcome) (b_members b)) bs)"

definition cancel :: "collector \<Rightarrow> cancel_request \<Rightarrow> collector \<times> bool \<times> collector_event list" where
  "cancel c r =
     (let owned = filter (batch_owned r) (c_pending c)
      in (c\<lparr>c_pending := filter (Not \<circ> batch_owned r) (c_pending c)\<rparr>, owned \<noteq> [], batch_dispositions ''stopped'' owned))"

definition shutdown :: "collector \<Rightarrow> collector \<times> collector_event list" where
  "shutdown c = (c\<lparr>c_pending := []\<rparr>, batch_dispositions ''shutdown'' (c_pending c))"


section \<open>Bounds\<close>

text \<open>A batch within its bounds, of one speaker in one place, whose hard deadline is that of its first message.\<close>

definition pending_ok :: "collector \<Rightarrow> batch \<Rightarrow> bool" where
  "pending_ok c b \<longleftrightarrow>
     b_members b \<noteq> [] \<and> length (b_members b) \<le> MAX_ENVELOPES \<and> asset_count (b_members b) \<le> MAX_ASSETS_PER_MESSAGE
     \<and> length (im_text (assemble b)) \<le> MAX_INBOUND_TEXT_BYTES
     \<and> (\<forall>m \<in> set (b_members b). compatible (hd (b_members b)) m \<and> im_native_group m = im_native_group (hd (b_members b)))
     \<and> b_deadline b \<le> b_hard_deadline b
     \<and> (\<exists>w. window_for c (hd (b_members b)) = Some w
            \<and> b_hard_deadline b = im_received_at (hd (b_members b)) + cw_max_wait w)"

definition same_batch :: "batch \<Rightarrow> batch \<Rightarrow> bool" where
  "same_batch a b \<longleftrightarrow> b_route a = b_route b \<and> compatible (hd (b_members a)) (hd (b_members b))"

definition collector_ok :: "collector \<Rightarrow> bool" where
  "collector_ok c \<longleftrightarrow>
     length (c_pending c) \<le> c_capacity c \<and> (\<forall>b \<in> set (c_pending c). pending_ok c b)
     \<and> sorted_wrt (\<lambda>a b. \<not> same_batch a b) (c_pending c)"

lemma compatible_refl [simp]: "compatible m m"
  and compatible_sym: "compatible a b \<Longrightarrow> compatible b a"
  and compatible_trans: "compatible a b \<Longrightarrow> compatible b d \<Longrightarrow> compatible a d"
  by (simp_all add: compatible_def)

lemma window_for_pending [simp]: "window_for (c\<lparr>c_pending := bs\<rparr>) m = window_for c m"
  by (simp add: window_for_def split: transport_kind.splits)

lemma pending_ok_pending [simp]: "pending_ok (c\<lparr>c_pending := bs\<rparr>) b \<longleftrightarrow> pending_ok c b"
  by (simp add: pending_ok_def)

lemma assemble_text: "im_text (assemble b) = (if length (b_members b) > 1 then combined_text (b_members b) else im_text (hd (b_members b)))"
  by (simp add: assemble_def Let_def)

lemma find_batch_Some: "find_batch P bs = Some (before, b, after) \<Longrightarrow> bs = before @ b # after \<and> P b"
  by (induction bs arbitrary: before) (auto split: if_splits option.splits)

lemma find_batch_None: "find_batch P bs = None \<longleftrightarrow> (\<forall>b \<in> set bs. \<not> P b)"
  by (induction bs) (auto split: option.splits)

lemma asset_count_snoc: "asset_count (ms @ [m]) = asset_count ms + length (im_assets m)"
  by (simp add: asset_count_def)

lemma join_batch_cases:
  assumes "join_batch w b m = (b', answer)"
  obtains reason where "b' = b" "answer = OfferedRefused m reason"
  | "answer = OfferedPending" "b_members b' = b_members b @ [m]" "b_route b' = b_route b"
    "b_hard_deadline b' = b_hard_deadline b" "b_deadline b' \<le> max (b_deadline b) (b_hard_deadline b)"
    "length (b_members b) \<noteq> MAX_ENVELOPES" "asset_count (b_members b) + length (im_assets m) \<le> MAX_ASSETS_PER_MESSAGE"
    "length (combined_text (b_members b @ [m])) \<le> MAX_INBOUND_TEXT_BYTES"
    "im_native_group (hd (b_members b)) = im_native_group m"
  using assms by (auto simp: join_batch_def split: if_splits option.splits)

lemma join_pending_ok:
  assumes "pending_ok c b" "compatible (hd (b_members b)) m" "join_batch w b m = (b', answer)"
  shows "pending_ok c b' \<and> b_route b' = b_route b \<and> hd (b_members b') = hd (b_members b)"
  using assms(3)
proof (cases rule: join_batch_cases)
  case 1
  with assms(1) show ?thesis by simp
next
  case 2
  from assms(1) have "b_members b \<noteq> []" "length (b_members b) \<le> MAX_ENVELOPES" "b_deadline b \<le> b_hard_deadline b"
    by (simp_all add: pending_ok_def)
  with 2 have lead: "hd (b_members b') = hd (b_members b)" "length (b_members b') \<le> MAX_ENVELOPES" "b_deadline b' \<le> b_hard_deadline b'"
    by simp_all
  with 2 assms(1,2) show ?thesis by (auto simp: pending_ok_def asset_count_snoc assemble_text)
qed

lemma open_batch_cases:
  assumes "open_batch w c route m = (c', answer)"
  obtains reason where "c' = c" "answer = OfferedRefused m reason"
  | hard deadline where "answer = OfferedPending" "hard = im_received_at m + cw_max_wait w" "deadline = min (im_received_at m + cw_quiet w) hard"
    "length (im_text m) \<le> MAX_INBOUND_TEXT_BYTES" "length (c_pending c) \<noteq> c_capacity c"
    "c' = c\<lparr>c_pending := c_pending c @ [\<lparr>b_route = route, b_deadline = deadline, b_hard_deadline = hard, b_members = [m]\<rparr>]\<rparr>"
  using assms by (auto simp: open_batch_def instant_checked_add_def split: if_splits)

text \<open>How an offer ends: the collector is as before, a batch has grown, or there is a new one.\<close>

lemma offer_cases:
  assumes "offer c route m = (c', answer, events)"
  obtains "c' = c" "answer \<noteq> OfferedPending"
  | w before b after b' where "c_pending c = before @ b # after" "b_route b = route" "compatible (hd (b_members b)) m"
    "join_batch w b m = (b', answer)" "c' = c\<lparr>c_pending := before @ b' # after\<rparr>"
  | w where "window_for c m = Some w" "length (im_assets m) \<le> MAX_ASSETS_PER_MESSAGE"
    "\<forall>b \<in> set (c_pending c). \<not> (b_route b = route \<and> compatible (hd (b_members b)) m)"
    "open_batch w c route m = (c', answer)"
proof -
  consider "im_input_refusal m \<noteq> None \<or> im_asset_overflow m \<or> length (im_assets m) > MAX_ASSETS_PER_MESSAGE \<or> window_for c m = None"
    | w where "im_input_refusal m = None" "\<not> im_asset_overflow m" "length (im_assets m) \<le> MAX_ASSETS_PER_MESSAGE" "window_for c m = Some w"
    by force
  then show thesis
  proof cases
    case 1
    with assms that(1) show thesis by (auto simp: offer_def split: option.splits if_splits)
  next
    case (2 w)
    show thesis
    proof (cases "find_batch (\<lambda>b. b_route b = route \<and> compatible (hd (b_members b)) m) (c_pending c)")
      case None
      with 2 assms that(1) that(3) [OF 2(4,3)] show thesis
        by (auto simp: offer_def find_batch_None split: if_splits prod.splits)
    next
      case (Some hit)
      then obtain before b after where "hit = (before, b, after)" by (cases hit)
      with Some 2 assms find_batch_Some [OF Some [unfolded this]] that(2) show thesis
        by (auto simp: offer_def split: prod.splits)
    qed
  qed
qed

lemma pending_ok_open:
  assumes "window_for c m = Some w" "length (im_text m) \<le> MAX_INBOUND_TEXT_BYTES" "length (im_assets m) \<le> MAX_ASSETS_PER_MESSAGE"
    and "deadline \<le> im_received_at m + cw_max_wait w"
  shows "pending_ok c \<lparr>b_route = route, b_deadline = deadline, b_hard_deadline = im_received_at m + cw_max_wait w, b_members = [m]\<rparr>"
  using assms by (auto simp: pending_ok_def assemble_text asset_count_def MAX_ENVELOPES_def)

lemma offer_ok:
  assumes "collector_ok c" "offer c route m = (c', answer, events)"
  shows "collector_ok c'"
  using assms(2)
proof (cases rule: offer_cases)
  case 1
  with assms(1) show ?thesis by simp
next
  case (2 w before b after b')
  with assms(1) have "pending_ok c b" by (simp add: collector_ok_def)
  from join_pending_ok [OF this 2(3,4)] have b': "pending_ok c b'"
    and same: "same_batch b' x = same_batch b x" "same_batch x b' = same_batch x b" for x
    by (simp_all add: same_batch_def)
  with assms(1) show ?thesis unfolding 2(5) by (simp add: collector_ok_def 2(1) sorted_wrt_append same)
next
  case (3 w)
  from 3(4) show ?thesis
  proof (cases rule: open_batch_cases)
    case 1
    with assms(1) show ?thesis by simp
  next
    case (2 hard deadline)
    have "pending_ok c \<lparr>b_route = route, b_deadline = deadline, b_hard_deadline = hard, b_members = [m]\<rparr>"
      using pending_ok_open [OF 3(1) 2(4) 3(2), of deadline route] 2(2,3) by auto
    moreover have "length (c_pending c) < c_capacity c" using assms(1) 2(5) by (simp add: collector_ok_def)
    ultimately show ?thesis using assms(1) 2(6) 3(3)
      by (auto simp: collector_ok_def sorted_wrt_append same_batch_def)
  qed
qed

lemma take_due_eq:
  "take_due now bs = (filter (\<lambda>b. \<not> b_deadline b \<le> now) bs, map (\<lambda>b. (b_route b, assemble b)) (filter (\<lambda>b. b_deadline b \<le> now) bs))"
  by (induction bs) auto

lemma take_due_routed_eq:
  "take_due_routed c now =
     (c\<lparr>c_pending := filter (\<lambda>b. \<not> b_deadline b \<le> now) (c_pending c)\<rparr>,
      map (\<lambda>b. (b_route b, assemble b)) (filter (\<lambda>b. b_deadline b \<le> now) (c_pending c)))"
  by (simp add: take_due_routed_def take_due_eq)

lemma collector_ok_filter: "collector_ok c \<Longrightarrow> collector_ok (c\<lparr>c_pending := filter P (c_pending c)\<rparr>)"
  by (auto simp: collector_ok_def sorted_wrt_filter intro: order_trans [OF length_filter_le])

section \<open>Histories\<close>

datatype collector_op = OpOffer route inbound_message | OpTakeDue instant | OpCancel cancel_request | OpShutdown

text \<open>A collector with the receipts it took in, the messages it handed on and the receipts it dropped.\<close>

record collector_run =
  cr_collector :: collector
  cr_accepted :: "nat list"
  cr_delivered :: "(route \<times> inbound_message) list"
  cr_dropped :: "nat list"

definition receipts_of :: "batch list \<Rightarrow> nat list" where
  "receipts_of bs = concat (map (\<lambda>b. map im_receive_span (b_members b)) bs)"

fun collector_step :: "collector_run \<Rightarrow> collector_op \<Rightarrow> collector_run" where
  "collector_step r (OpOffer route m) =
     (case offer (cr_collector r) route m of
        (c, answer, _) \<Rightarrow>
          r\<lparr>cr_collector := c,
            cr_accepted := (if answer = OfferedPending then cr_accepted r @ [im_receive_span m] else cr_accepted r)\<rparr>)"
| "collector_step r (OpTakeDue now) =
     (case take_due_routed (cr_collector r) now of
        (c, ready) \<Rightarrow> r\<lparr>cr_collector := c, cr_delivered := cr_delivered r @ ready\<rparr>)"
| "collector_step r (OpCancel request) =
     r\<lparr>cr_collector := fst (cancel (cr_collector r) request),
       cr_dropped := cr_dropped r @ receipts_of (filter (batch_owned request) (c_pending (cr_collector r)))\<rparr>"
| "collector_step r OpShutdown =
     r\<lparr>cr_collector := fst (shutdown (cr_collector r)), cr_dropped := cr_dropped r @ receipts_of (c_pending (cr_collector r))\<rparr>"

definition collector_history :: "transport_config list \<Rightarrow> nat \<Rightarrow> collector_op list \<Rightarrow> collector_run" where
  "collector_history transports capacity ops =
     foldl collector_step \<lparr>cr_collector = collector_new transports capacity, cr_accepted = [], cr_delivered = [], cr_dropped = []\<rparr> ops"

definition delivered_ok :: "inbound_message \<Rightarrow> bool" where
  "delivered_ok m \<longleftrightarrow>
     im_constituents m \<noteq> [] \<and> length (im_constituents m) \<le> MAX_ENVELOPES
     \<and> length (im_assets m) \<le> MAX_ASSETS_PER_MESSAGE \<and> length (im_text m) \<le> MAX_INBOUND_TEXT_BYTES"

definition run_ok :: "collector_run \<Rightarrow> bool" where
  "run_ok r \<longleftrightarrow>
     collector_ok (cr_collector r) \<and> (\<forall>(_, m) \<in> set (cr_delivered r). delivered_ok m)
     \<and> mset (cr_accepted r) =
         mset (concat (map (im_constituents \<circ> snd) (cr_delivered r))) + mset (cr_dropped r)
         + mset (receipts_of (c_pending (cr_collector r)))"

lemma assemble_assets: "b_members b \<noteq> [] \<Longrightarrow> length (im_assets (assemble b)) = asset_count (b_members b)"
  by (cases "b_members b") (simp_all add: assemble_def asset_count_def length_concat comp_def Let_def)

lemma assemble_constituents: "im_constituents (assemble b) = map im_receive_span (b_members b)"
  by (simp add: assemble_def Let_def)

lemma assemble_ok: "pending_ok c b \<Longrightarrow> delivered_ok (assemble b)"
  by (auto simp: pending_ok_def delivered_ok_def assemble_assets assemble_constituents)

lemma receipts_of_append [simp]: "receipts_of (xs @ ys) = receipts_of xs @ receipts_of ys"
  and receipts_of_Cons [simp]: "receipts_of (b # xs) = map im_receive_span (b_members b) @ receipts_of xs"
  and receipts_of_Nil [simp]: "receipts_of [] = []"
  by (simp_all add: receipts_of_def)

lemma receipts_of_partition: "mset (receipts_of bs) = mset (receipts_of (filter P bs)) + mset (receipts_of (filter (\<lambda>b. \<not> P b) bs))"
  by (induction bs) auto

lemma offer_receipts:
  assumes "offer c route m = (c', answer, events)"
  shows "mset (receipts_of (c_pending c')) =
    mset (receipts_of (c_pending c)) + (if answer = OfferedPending then {#im_receive_span m#} else {#})"
  using assms
proof (cases rule: offer_cases)
  case (2 w before b after b')
  from 2(4) show ?thesis by (cases rule: join_batch_cases) (use 2 in auto)
next
  case (3 w)
  from 3(4) show ?thesis by (cases rule: open_batch_cases) auto
qed simp

lemma run_ok_step: "run_ok r \<Longrightarrow> run_ok (collector_step r op)"
proof (cases op)
  case (OpOffer route m)
  obtain c answer events where o: "offer (cr_collector r) route m = (c, answer, events)" by (metis prod_cases3)
  assume "run_ok r"
  with OpOffer o offer_ok [OF _ o] offer_receipts [OF o] show ?thesis by (auto simp: run_ok_def)
next
  case (OpTakeDue now)
  assume "run_ok r"
  with OpTakeDue collector_ok_filter receipts_of_partition [of "c_pending (cr_collector r)" "\<lambda>b. b_deadline b \<le> now"] show ?thesis
    by (auto simp: run_ok_def take_due_routed_eq collector_ok_def comp_def assemble_constituents receipts_of_def intro: assemble_ok)
next
  case (OpCancel request)
  assume "run_ok r"
  with OpCancel collector_ok_filter receipts_of_partition [of "c_pending (cr_collector r)" "batch_owned request"] show ?thesis
    by (auto simp: run_ok_def cancel_def Let_def comp_def)
next
  case OpShutdown
  assume "run_ok r"
  with OpShutdown show ?thesis by (auto simp: run_ok_def shutdown_def collector_ok_def)
qed

lemma run_ok_history: "run_ok (collector_history transports capacity ops)"
proof -
  have steps: "run_ok r \<Longrightarrow> run_ok (foldl collector_step r ops)" for r
    by (induction ops arbitrary: r) (simp_all add: run_ok_step)
  show ?thesis unfolding collector_history_def
    by (rule steps) (simp add: run_ok_def collector_ok_def collector_new_def)
qed

text \<open>C28: whatever is offered, taken, cancelled and shut down in whatever order, every message the
  collector took in is handed on once, dropped with its batch, or still pending: none is lost and none
  is handed on twice.\<close>

theorem collector_conserves_messages:
  "mset (cr_accepted (collector_history transports capacity ops)) =
     mset (concat (map (im_constituents \<circ> snd) (cr_delivered (collector_history transports capacity ops))))
     + mset (cr_dropped (collector_history transports capacity ops))
     + mset (receipts_of (c_pending (cr_collector (collector_history transports capacity ops))))"
  using run_ok_history [of transports capacity ops] by (simp add: run_ok_def)

text \<open>C29: the collector never holds more batches than its capacity, nor two of one route, speaker and
  place, and what it hands on has at most eight messages, 32 assets and the inbound bound of text.\<close>

theorem collector_stays_bounded:
  fixes transports :: "transport_config list" and capacity :: nat and ops :: "collector_op list"
  defines "r \<equiv> collector_history transports capacity ops"
  shows "length (c_pending (cr_collector r)) \<le> capacity
    \<and> sorted_wrt (\<lambda>a b. \<not> same_batch a b) (c_pending (cr_collector r))
    \<and> list_all (\<lambda>(_, m). delivered_ok m) (cr_delivered r)"
proof -
  have "c_capacity (cr_collector (collector_step s op)) = c_capacity (cr_collector s)" for s op
    by (cases op) (auto simp: offer_def join_batch_def open_batch_def take_due_routed_eq cancel_def shutdown_def Let_def
        split: option.splits if_splits prod.splits)
  then have "c_capacity (cr_collector (foldl collector_step s ops)) = c_capacity (cr_collector s)" for s
    by (induction ops arbitrary: s) simp_all
  then have "c_capacity (cr_collector r) = capacity" by (simp add: r_def collector_history_def collector_new_def)
  then show ?thesis using run_ok_history [of transports capacity ops]
    by (auto simp: run_ok_def collector_ok_def r_def list_all_iff)
qed

text \<open>a batch left pending when the due ones are taken is not due, and its first message arrived less
  than the longest wait of its window ago; the moment the collector asks to be woken is in the future.\<close>

theorem pending_batches_wait_in_bounds:
  fixes transports :: "transport_config list" and capacity :: nat and ops :: "collector_op list" and now :: instant
  defines "c \<equiv> fst (take_due_routed (cr_collector (collector_history transports capacity ops)) now)"
  shows "list_all (\<lambda>b. now < b_deadline b
      \<and> (case window_for c (hd (b_members b)) of None \<Rightarrow> False
         | Some w \<Rightarrow> b_deadline b \<le> im_received_at (hd (b_members b)) + cw_max_wait w)) (c_pending c)
    \<and> (case next_deadline c of None \<Rightarrow> c_pending c = [] | Some d \<Rightarrow> now < d)"
proof -
  have min: "now < x \<Longrightarrow> \<forall>y \<in> set ys. now < y \<Longrightarrow> now < fold min ys x" for x ys
    by (induction ys arbitrary: x) auto
  have "\<forall>b \<in> set (c_pending c). now < b_deadline b" by (simp add: c_def take_due_routed_eq)
  moreover from this have "case next_deadline c of None \<Rightarrow> c_pending c = [] | Some d \<Rightarrow> now < d"
    by (cases "c_pending c") (auto simp: next_deadline_def intro!: min)
  moreover have "pending_ok c b" if "b \<in> set (c_pending c)" for b
    using run_ok_history [of transports capacity ops] that
    by (auto simp: c_def take_due_routed_eq run_ok_def collector_ok_def)
  ultimately show ?thesis by (fastforce simp: pending_ok_def list_all_iff)
qed

end
