(* ===== verification/Gateway_Jobs.thy ===== *)
theory Gateway_Jobs
  imports Gateway_Message Process_Tree
begin

text \<open>
  The jobs of the gateway (\<open>dekopon-gatewayd/src/jobs.rs\<close>): scripts that go on after the turn that
  started them, their table, the permits that bound them, and the waits and notices by which a person
  learns how a job ended. Each operation that holds the lock of the table is one step; a wait is a
  registration, polls and a release, which other operations come between. Reserving a thread is the
  result of another component and an argument here, as is the clock.
\<close>

section \<open>State\<close>

record job_owner =
  jo_transport :: string
  jo_conversation :: string
  jo_subject :: string

definition job_owner_of :: "inbound_message \<Rightarrow> job_owner" where
  "job_owner_of m =
     \<lparr>jo_transport = im_transport m, jo_conversation = conversation_key (im_conversation m),
      jo_subject = canonical (attested_name (im_subject m))\<rparr>"

datatype job_stop = StopKilled | StopCancelled

datatype job_outcome = JobSucceeded | JobFailed | JobCancelled | JobDeadline | JobKilled

datatype row_state = RowRunning | RowFinished job_outcome nat instant

datatype job_refusal = JobLimit limit_exceeded | JobsFull nat | JobNotYours | JobFinishedAlready | JobsOff

datatype job_wait = JobExited nat | JobInterrupted

text \<open>A row keeps the handle that cancels its job while the job runs.\<close>

record job_row =
  jr_id :: nat
  jr_owner :: job_owner
  jr_text :: string
  jr_state :: row_state
  jr_started :: instant
  jr_cancel :: bool
  jr_cancelled :: bool
  jr_stop :: "job_stop option"
  jr_waiters :: nat
  jr_waited :: bool

text \<open>The table, the free permits, their number and the queue of notices, which holds as many.\<close>

record jobs =
  js_rows :: "job_row list"
  js_next :: nat
  js_sealed :: bool
  js_permits :: nat
  js_maximum :: nat
  js_notices :: "(nat \<times> string) list"

definition jobs_new :: "nat \<Rightarrow> jobs" where
  "jobs_new maximum =
     \<lparr>js_rows = [], js_next = 1, js_sealed = False, js_permits = maximum, js_maximum = maximum, js_notices = []\<rparr>"

section \<open>Rows\<close>

definition stop_row :: "job_stop \<Rightarrow> job_row \<Rightarrow> job_row" where
  "stop_row why row =
     row\<lparr>jr_stop := Some (case jr_stop row of Some s \<Rightarrow> s | None \<Rightarrow> why),
         jr_cancelled := jr_cancelled row \<or> jr_cancel row\<rparr>"

definition stop_running :: "job_row \<Rightarrow> job_row \<times> bool" where
  "stop_running row =
     (case jr_state row of RowRunning \<Rightarrow> (stop_row StopCancelled row, True) | RowFinished _ _ _ \<Rightarrow> (row, False))"

datatype job_state = JobRunning nat | JobFinished job_outcome nat nat

record job_summary =
  jy_id :: nat
  jy_state :: job_state
  jy_text :: string

definition row_summary :: "job_row \<Rightarrow> instant \<Rightarrow> job_summary" where
  "row_summary row now =
     \<lparr>jy_id = jr_id row,
      jy_state = (case jr_state row of
         RowRunning \<Rightarrow> JobRunning (now - jr_started row)
       | RowFinished outcome exit ended \<Rightarrow> JobFinished outcome exit (ended - jr_started row)),
      jy_text = jr_text row\<rparr>"

text \<open>The first element a predicate holds of is changed in place.\<close>

fun update_first :: "('a \<Rightarrow> bool) \<Rightarrow> ('a \<Rightarrow> 'a) \<Rightarrow> 'a list \<Rightarrow> 'a list" where
  "update_first P f [] = []"
| "update_first P f (x # xs) = (if P x then f x # xs else x # update_first P f xs)"

fun remove_first :: "('a \<Rightarrow> bool) \<Rightarrow> 'a list \<Rightarrow> 'a list" where
  "remove_first P [] = []"
| "remove_first P (x # xs) = (if P x then xs else x # remove_first P xs)"

definition is_owned :: "job_owner \<Rightarrow> nat \<Rightarrow> job_row \<Rightarrow> bool" where
  "is_owned owner i row \<longleftrightarrow> jr_id row = i \<and> jr_owner row = owner"

definition owned :: "job_row list \<Rightarrow> job_owner \<Rightarrow> nat \<Rightarrow> (job_refusal, job_row) result" where
  "owned rows owner i = ok_or JobNotYours (List.find (is_owned owner i) rows)"

section \<open>Starting and ending jobs\<close>

definition evictable :: "job_row \<Rightarrow> bool" where
  "evictable row = (case jr_state row of RowRunning \<Rightarrow> False | RowFinished _ _ _ \<Rightarrow> jr_waiters row = 0)"

definition admit_job ::
  "jobs \<Rightarrow> job_owner \<Rightarrow> string \<Rightarrow> (limit_exceeded, unit) result \<Rightarrow> instant \<Rightarrow> jobs \<times> (job_refusal, nat) result" where
  "admit_job js owner text thread now =
     (if js_sealed js then (js, Inl JobsOff)
      else if js_permits js = 0 then (js, Inl (JobsFull (js_maximum js)))
      else if length (js_rows js) \<ge> js_maximum js \<and> \<not> list_ex evictable (js_rows js)
        then (js, Inl (JobsFull (js_maximum js)))
      else
        (case thread of
           Inl limit \<Rightarrow> (js, Inl (JobLimit limit))
         | Inr _ \<Rightarrow>
             let rows = (if length (js_rows js) \<ge> js_maximum js then remove_first evictable (js_rows js) else js_rows js);
                 row = \<lparr>jr_id = js_next js, jr_owner = owner, jr_text = text, jr_state = RowRunning, jr_started = now,
                        jr_cancel = True, jr_cancelled = False, jr_stop = None, jr_waiters = 0, jr_waited = False\<rparr>
             in (js\<lparr>js_rows := rows @ [row], js_next := js_next js + 1, js_permits := js_permits js - 1\<rparr>, Inr (js_next js))))"

datatype ending = Ran bool | Abandoned

record ended =
  en_exit :: nat
  en_output :: string
  en_ending :: ending

definition outcome_of :: "job_stop option \<Rightarrow> ended \<Rightarrow> job_outcome" where
  "outcome_of stop e =
     (case stop of
        Some StopKilled \<Rightarrow> JobKilled
      | Some StopCancelled \<Rightarrow> JobCancelled
      | None \<Rightarrow>
          (case en_ending e of
             Abandoned \<Rightarrow> JobFailed
           | Ran late \<Rightarrow>
               if en_exit e = EXIT_SUCCESS then JobSucceeded
               else if late \<and> en_exit e = EXIT_TIMEOUT then JobDeadline
               else JobFailed))"

definition finish_row :: "ended \<Rightarrow> instant \<Rightarrow> job_row \<Rightarrow> job_row" where
  "finish_row e now row =
     row\<lparr>jr_state := RowFinished (outcome_of (jr_stop row) e) (en_exit e) now, jr_cancel := False,
         jr_waited := jr_waited row \<or> jr_waiters row > 0\<rparr>"

definition noticed :: "job_outcome \<Rightarrow> bool \<Rightarrow> bool" where
  "noticed outcome waited =
     (case outcome of
        JobSucceeded \<Rightarrow> \<not> waited | JobFailed \<Rightarrow> \<not> waited | JobDeadline \<Rightarrow> \<not> waited
      | JobCancelled \<Rightarrow> False | JobKilled \<Rightarrow> False)"

definition notice_text :: "nat \<Rightarrow> job_row \<Rightarrow> ended \<Rightarrow> instant \<Rightarrow> string" where
  "notice_text i row e now =
     (let body = ''[gateway: job '' @ show_nat i @ '' finished, exit '' @ show_nat (en_exit e) @ '', after ''
            @ show_nat ((now - jr_started row) div 10 ^ 9) @ ''s]'' @ [CHR 0x0A] @ jr_text row @ [CHR 0x0A] @ en_output e;
          bounded = bound_inbound body
      in if length bounded > MAX_INBOUND_TEXT_BYTES then take (floor_char_boundary bounded MAX_INBOUND_TEXT_BYTES) bounded
         else bounded)"

text \<open>A notice that finds the queue full is dropped.\<close>

definition send_notice :: "jobs \<Rightarrow> nat \<times> string \<Rightarrow> jobs" where
  "send_notice js n = (if length (js_notices js) < js_maximum js then js\<lparr>js_notices := js_notices js @ [n]\<rparr> else js)"

definition finish_job :: "jobs \<Rightarrow> nat \<Rightarrow> ended \<Rightarrow> instant \<Rightarrow> jobs" where
  "finish_job js i e now =
     (let found = List.find (\<lambda>row. jr_id row = i) (js_rows js);
          js = js\<lparr>js_rows := update_first (\<lambda>row. jr_id row = i) (finish_row e now) (js_rows js),
                   js_permits := js_permits js + 1\<rparr>
      in case found of
           None \<Rightarrow> js
         | Some row \<Rightarrow>
             if noticed (outcome_of (jr_stop row) e) (jr_waited row \<or> jr_waiters row > 0)
             then send_notice js (i, notice_text i row e now) else js)"

text \<open>A run that is dropped before it finished.\<close>

definition abandoned :: ended where
  "abandoned = \<lparr>en_exit = EXIT_FAILURE, en_output = ''[gateway: the job stopped before it could finish]'', en_ending = Abandoned\<rparr>"

section \<open>Listing, stopping and waiting\<close>

definition list_jobs :: "jobs \<Rightarrow> job_owner \<Rightarrow> instant \<Rightarrow> job_summary list" where
  "list_jobs js owner now = map (\<lambda>row. row_summary row now) (filter (\<lambda>row. jr_owner row = owner) (js_rows js))"

definition request_owns :: "cancel_request \<Rightarrow> job_row \<Rightarrow> bool" where
  "request_owns r row \<longleftrightarrow>
     jo_transport (jr_owner row) = cr_transport r \<and> jo_conversation (jr_owner row) = cr_conversation_id r
     \<and> jo_subject (jr_owner row) = cr_subject r"

definition cancel_owner :: "jobs \<Rightarrow> cancel_request \<Rightarrow> jobs \<times> bool" where
  "cancel_owner js r =
     (js\<lparr>js_rows := map (\<lambda>row. if request_owns r row then fst (stop_running row) else row) (js_rows js)\<rparr>,
      list_ex (\<lambda>row. request_owns r row \<and> snd (stop_running row)) (js_rows js))"

definition seal :: "jobs \<Rightarrow> jobs" where
  "seal js = js\<lparr>js_sealed := True, js_rows := map (fst \<circ> stop_running) (js_rows js)\<rparr>"

definition kill :: "jobs \<Rightarrow> job_owner \<Rightarrow> nat \<Rightarrow> jobs \<times> (job_refusal, unit) result" where
  "kill js owner i =
     (case owned (js_rows js) owner i of
        Inl e \<Rightarrow> (js, Inl e)
      | Inr row \<Rightarrow>
          (case jr_state row of
             RowFinished _ _ _ \<Rightarrow> (js, Inl JobFinishedAlready)
           | RowRunning \<Rightarrow>
               (js\<lparr>js_rows := update_first (is_owned owner i) (stop_row StopKilled) (js_rows js)\<rparr>, Inr ())))"

text \<open>A wait: who waits for what, what is answered so far, and the jobs it keeps from being evicted.\<close>

type_synonym wait_answer = "(job_refusal, job_wait) result"

record waiting =
  w_owner :: job_owner
  w_ids :: "nat list"
  w_answers :: "wait_answer option list"
  w_held :: "nat list"

definition add_waiter :: "job_row \<Rightarrow> job_row" where
  "add_waiter row = row\<lparr>jr_waiters := jr_waiters row + 1\<rparr>"

fun register :: "job_owner \<Rightarrow> nat list \<Rightarrow> job_row list \<Rightarrow> job_row list \<times> wait_answer option list \<times> nat list" where
  "register owner [] rows = (rows, [], [])"
| "register owner (i # ids) rows =
     (case owned rows owner i of
        Inr _ \<Rightarrow>
          (case register owner ids (update_first (is_owned owner i) add_waiter rows) of
             (rows, answers, held) \<Rightarrow> (rows, None # answers, i # held))
      | Inl refusal \<Rightarrow>
          (case register owner ids rows of
             (rows, answers, held) \<Rightarrow> (rows, Some (Inl refusal) # answers, held)))"

definition wait_begin :: "jobs \<Rightarrow> job_owner \<Rightarrow> nat list \<Rightarrow> jobs \<times> waiting" where
  "wait_begin js owner ids =
     (case register owner ids (js_rows js) of
        (rows, answers, held) \<Rightarrow>
          (js\<lparr>js_rows := rows\<rparr>, \<lparr>w_owner = owner, w_ids = ids, w_answers = answers, w_held = held\<rparr>))"

definition mark_waited :: "job_row \<Rightarrow> job_row" where
  "mark_waited row = row\<lparr>jr_waited := True\<rparr>"

text \<open>One look at the jobs still waited for; the flag says whether some still run.\<close>

fun poll :: "job_owner \<Rightarrow> (wait_answer option \<times> nat) list \<Rightarrow> job_row list \<Rightarrow> job_row list \<times> wait_answer option list \<times> bool" where
  "poll owner [] rows = (rows, [], False)"
| "poll owner ((Some a, i) # rest) rows =
     (case poll owner rest rows of (rows, answers, pending) \<Rightarrow> (rows, Some a # answers, pending))"
| "poll owner ((None, i) # rest) rows =
     (case owned rows owner i of
        Inl refusal \<Rightarrow>
          (case poll owner rest rows of (rows, answers, pending) \<Rightarrow> (rows, Some (Inl refusal) # answers, pending))
      | Inr row \<Rightarrow>
          (case jr_state row of
             RowFinished _ exit _ \<Rightarrow>
               (case poll owner rest (update_first (is_owned owner i) mark_waited rows) of
                  (rows, answers, pending) \<Rightarrow> (rows, Some (Inr (JobExited exit)) # answers, pending))
           | RowRunning \<Rightarrow>
               (case poll owner rest rows of (rows, answers, pending) \<Rightarrow> (rows, None # answers, True))))"

definition wait_poll :: "jobs \<Rightarrow> waiting \<Rightarrow> jobs \<times> waiting \<times> bool" where
  "wait_poll js w =
     (case poll (w_owner w) (zip (w_answers w) (w_ids w)) (js_rows js) of
        (rows, answers, pending) \<Rightarrow> (js\<lparr>js_rows := rows\<rparr>, w\<lparr>w_answers := answers\<rparr>, pending))"

definition wait_result :: "waiting \<Rightarrow> wait_answer list" where
  "wait_result w = map (\<lambda>a. case a of Some r \<Rightarrow> r | None \<Rightarrow> Inr JobInterrupted) (w_answers w)"

text \<open>The subtraction wraps below zero.\<close>

definition drop_waiter :: "job_row \<Rightarrow> job_row" where
  "drop_waiter row = row\<lparr>jr_waiters := (if jr_waiters row = 0 then u64_max else jr_waiters row - 1)\<rparr>"

definition wait_end :: "jobs \<Rightarrow> waiting \<Rightarrow> jobs" where
  "wait_end js w = js\<lparr>js_rows := fold (\<lambda>i. update_first (is_owned (w_owner w) i) drop_waiter) (w_held w) (js_rows js)\<rparr>"


section \<open>Interleavings\<close>

text \<open>The jobs with the waits that are under way and the runs that still hold their permit.\<close>

record jobs_system =
  sy_jobs :: jobs
  sy_waits :: "waiting list"
  sy_runs :: "nat list"

inductive jobs_step :: "jobs_system \<Rightarrow> jobs_system \<Rightarrow> bool" where
  step_admitted: "admit_job (sy_jobs s) owner text thread now = (js, Inr i) \<Longrightarrow>
    jobs_step s (s\<lparr>sy_jobs := js, sy_runs := i # sy_runs s\<rparr>)"
| step_finished: "i \<in> set (sy_runs s) \<Longrightarrow>
    jobs_step s (s\<lparr>sy_jobs := finish_job (sy_jobs s) i e now, sy_runs := remove1 i (sy_runs s)\<rparr>)"
| step_wait_begun: "wait_begin (sy_jobs s) owner ids = (js, w) \<Longrightarrow>
    jobs_step s (s\<lparr>sy_jobs := js, sy_waits := w # sy_waits s\<rparr>)"
| step_polled: "sy_waits s = before @ w # after \<Longrightarrow> wait_poll (sy_jobs s) w = (js, w', pending) \<Longrightarrow>
    jobs_step s (s\<lparr>sy_jobs := js, sy_waits := before @ w' # after\<rparr>)"
| step_wait_ended: "sy_waits s = before @ w # after \<Longrightarrow>
    jobs_step s (s\<lparr>sy_jobs := wait_end (sy_jobs s) w, sy_waits := before @ after\<rparr>)"
| step_cancelled: "jobs_step s (s\<lparr>sy_jobs := fst (cancel_owner (sy_jobs s) request)\<rparr>)"
| step_sealed: "jobs_step s (s\<lparr>sy_jobs := seal (sy_jobs s)\<rparr>)"
| step_killed: "jobs_step s (s\<lparr>sy_jobs := fst (kill (sy_jobs s) owner i)\<rparr>)"
| step_received: "js_notices (sy_jobs s) = n # ns \<Longrightarrow> jobs_step s (s\<lparr>sy_jobs := (sy_jobs s)\<lparr>js_notices := ns\<rparr>\<rparr>)"

inductive jobs_reachable :: "nat \<Rightarrow> jobs_system \<Rightarrow> bool" where
  reachable_start: "jobs_reachable maximum \<lparr>sy_jobs = jobs_new maximum, sy_waits = [], sy_runs = []\<rparr>"
| reachable_step: "jobs_reachable maximum s \<Longrightarrow> jobs_step s s' \<Longrightarrow> jobs_reachable maximum s'"

section \<open>The invariant\<close>

definition is_running :: "job_row \<Rightarrow> bool" where
  "is_running row \<longleftrightarrow> jr_state row = RowRunning"

definition waiters_on :: "waiting list \<Rightarrow> job_row \<Rightarrow> nat" where
  "waiters_on ws row = sum_list (map (\<lambda>w. if w_owner w = jr_owner row then count_list (w_held w) (jr_id row) else 0) ws)"

definition wait_ok :: "job_row list \<Rightarrow> waiting \<Rightarrow> bool" where
  "wait_ok rows w \<longleftrightarrow>
     (\<forall>i \<in> set (w_held w). \<exists>row \<in> set rows. is_owned (w_owner w) i row)
     \<and> length (w_answers w) = length (w_ids w)
     \<and> (\<forall>(a, i) \<in> set (zip (w_answers w) (w_ids w)). a = None \<longrightarrow> i \<in> set (w_held w))"

definition rows_ok :: "nat \<Rightarrow> waiting list \<Rightarrow> job_row list \<Rightarrow> bool" where
  "rows_ok next ws rows \<longleftrightarrow>
     distinct (map jr_id rows)
     \<and> (\<forall>row \<in> set rows. jr_id row < next \<and> jr_waiters row = waiters_on ws row
            \<and> (is_running row \<longrightarrow> \<not> jr_waited row \<and> jr_cancel row))
     \<and> (\<forall>w \<in> set ws. wait_ok rows w)"

definition jobs_ok :: "nat \<Rightarrow> jobs_system \<Rightarrow> bool" where
  "jobs_ok maximum s \<longleftrightarrow>
     js_maximum (sy_jobs s) = maximum \<and> length (js_rows (sy_jobs s)) \<le> maximum
     \<and> js_permits (sy_jobs s) + length (sy_runs s) = maximum \<and> distinct (sy_runs s)
     \<and> set (sy_runs s) = jr_id ` {row \<in> set (js_rows (sy_jobs s)). is_running row}
     \<and> rows_ok (js_next (sy_jobs s)) (sy_waits s) (js_rows (sy_jobs s))
     \<and> length (js_notices (sy_jobs s)) \<le> maximum"

text \<open>A change of rows that an invariant does not see.\<close>

definition keeps_row :: "(job_row \<Rightarrow> job_row) \<Rightarrow> bool" where
  "keeps_row f \<longleftrightarrow>
     (\<forall>row. jr_id (f row) = jr_id row \<and> jr_owner (f row) = jr_owner row \<and> jr_state (f row) = jr_state row
        \<and> jr_waiters (f row) = jr_waiters row
        \<and> (is_running row \<longrightarrow> jr_waited (f row) = jr_waited row \<and> jr_cancel (f row) = jr_cancel row))"

lemma waiters_on_cong: "jr_id a = jr_id b \<Longrightarrow> jr_owner a = jr_owner b \<Longrightarrow> waiters_on ws a = waiters_on ws b"
  by (simp only: waiters_on_def)

lemma keeps_rowD:
  assumes "keeps_row f"
  shows "jr_id (f row) = jr_id row" "jr_owner (f row) = jr_owner row" "jr_state (f row) = jr_state row"
    "jr_waiters (f row) = jr_waiters row" "is_running row \<Longrightarrow> jr_waited (f row) = jr_waited row"
    "is_running row \<Longrightarrow> jr_cancel (f row) = jr_cancel row" "is_running (f row) = is_running row"
    "is_owned owner i (f row) = is_owned owner i row"
  using assms by (simp_all add: keeps_row_def is_running_def is_owned_def)

lemma keeps_row_waiters: "keeps_row f \<Longrightarrow> waiters_on ws (f row) = waiters_on ws row"
  by (rule waiters_on_cong) (simp_all add: keeps_rowD)

lemma keeps_row_if: "keeps_row f \<Longrightarrow> keeps_row (\<lambda>row. if P row then f row else row)"
  by (simp add: keeps_row_def)

lemma keeps_row_stop: "keeps_row (stop_row why)"
  by (simp add: keeps_row_def stop_row_def)

lemma keeps_row_stop_running: "keeps_row (\<lambda>row. fst (stop_running row))"
  by (simp add: keeps_row_def stop_running_def stop_row_def split: row_state.splits)

lemma wait_ok_same: "(\<And>row. jr_id (g row) = jr_id row \<and> jr_owner (g row) = jr_owner row) \<Longrightarrow> wait_ok (map g rows) w = wait_ok rows w"
  by (simp add: wait_ok_def is_owned_def)

lemma wait_ok_map: "keeps_row f \<Longrightarrow> wait_ok (map f rows) w = wait_ok rows w"
  by (rule wait_ok_same) (simp add: keeps_rowD)

lemma rows_ok_map:
  assumes "keeps_row f" "rows_ok next ws rows"
  shows "rows_ok next ws (map f rows)"
proof -
  have "map jr_id (map f rows) = map jr_id rows" by (simp add: keeps_rowD [OF assms(1)])
  then have "distinct (map jr_id (map f rows))" using assms(2) by (simp only: rows_ok_def)
  then show ?thesis using assms(2)
    unfolding rows_ok_def
    by (simp del: map_map add: keeps_rowD [OF assms(1)] keeps_row_waiters [OF assms(1)] wait_ok_map [OF assms(1)])
qed

lemma jobs_ok_map:
  assumes "keeps_row f" "jobs_ok maximum s" "js = (sy_jobs s)\<lparr>js_rows := map f (js_rows (sy_jobs s)), js_sealed := sealed\<rparr>"
  shows "jobs_ok maximum (s\<lparr>sy_jobs := js\<rparr>)"
proof -
  have "jr_id ` {row \<in> set (map f (js_rows (sy_jobs s))). is_running row} = jr_id ` f ` {row \<in> set (js_rows (sy_jobs s)). is_running row}"
    by (rule arg_cong [where f = "\<lambda>A. jr_id ` A"]) (auto simp: keeps_rowD [OF assms(1)])
  also have "\<dots> = jr_id ` {row \<in> set (js_rows (sy_jobs s)). is_running row}"
    by (simp add: image_image keeps_rowD [OF assms(1)])
  finally have "jr_id ` {row \<in> set (map f (js_rows (sy_jobs s))). is_running row} = jr_id ` {row \<in> set (js_rows (sy_jobs s)). is_running row}" .
  with assms(2) rows_ok_map [OF assms(1)] show ?thesis by (simp add: jobs_ok_def assms(3))
qed

text \<open>Ids are distinct, so changing the first row that matches changes every row that does.\<close>

lemma update_first_map:
  assumes "distinct (map jr_id rows)" "\<And>row. P row \<Longrightarrow> jr_id row = i"
  shows "update_first P f rows = map (\<lambda>row. if P row then f row else row) rows"
  using assms(1)
proof (induction rows)
  case (Cons row rows)
  have "map (\<lambda>row. if P row then f row else row) rows = rows" if "P row"
    using Cons.prems assms(2) that by (intro map_idI) force
  with Cons show ?case by simp
qed simp

lemma update_owned:
  assumes "distinct (map jr_id rows)" "\<And>row. row \<in> set rows \<Longrightarrow> (if is_owned owner i row then f row else row) = g row"
  shows "update_first (is_owned owner i) f rows = map g rows"
proof -
  have "update_first (is_owned owner i) f rows = map (\<lambda>row. if is_owned owner i row then f row else row) rows"
    by (rule update_first_map [OF assms(1)]) (simp add: is_owned_def)
  also have "\<dots> = map g rows" using assms(2) by simp
  finally show ?thesis .
qed

lemma owned_cases:
  obtains row where "owned rows owner i = Inr row" "row \<in> set rows" "is_owned owner i row"
  | "owned rows owner i = Inl JobNotYours" "\<forall>row \<in> set rows. \<not> is_owned owner i row"
proof (cases "List.find (is_owned owner i) rows")
  case None
  with that(2) show thesis by (simp add: owned_def find_None_iff)
next
  case (Some row)
  with that(1) show thesis by (auto simp: owned_def find_Some_iff)
qed

lemma owned_map:
  assumes "keeps_row f"
  shows "owned (map f rows) owner i = (case owned rows owner i of Inl e \<Rightarrow> Inl e | Inr row \<Rightarrow> Inr (f row))"
  by (induction rows) (auto simp: owned_def ok_or_def keeps_rowD [OF assms] split: option.splits)

subsection \<open>Waits\<close>

definition waits_more :: "job_owner \<Rightarrow> nat list \<Rightarrow> job_row \<Rightarrow> job_row" where
  "waits_more owner held row = row\<lparr>jr_waiters := jr_waiters row + (if jr_owner row = owner then count_list held (jr_id row) else 0)\<rparr>"

definition known :: "job_row list \<Rightarrow> job_owner \<Rightarrow> nat \<Rightarrow> bool" where
  "known rows owner i \<longleftrightarrow> (\<exists>row \<in> set rows. is_owned owner i row)"

lemma waits_more_simps [simp]:
  "jr_id (waits_more owner held row) = jr_id row" "jr_owner (waits_more owner held row) = jr_owner row"
  "is_owned o' i (waits_more owner held row) = is_owned o' i row"
  "waits_more owner [] row = row"
  by (simp_all add: waits_more_def is_owned_def)

lemma known_map: "known (map (waits_more owner held) rows) o' i = known rows o' i"
  by (simp add: known_def)

lemma add_waiter_eq: "(if is_owned owner i row then add_waiter row else row) = waits_more owner [i] row"
  by (simp add: add_waiter_def waits_more_def is_owned_def)

lemma waits_more_more: "waits_more owner b (waits_more owner a row) = waits_more owner (a @ b) row"
  by (simp add: waits_more_def)

lemma register_eq:
  assumes "distinct (map jr_id rows)"
  shows "register owner ids rows =
    (map (waits_more owner (filter (known rows owner) ids)) rows,
     map (\<lambda>i. if known rows owner i then None else Some (Inl JobNotYours)) ids, filter (known rows owner) ids)"
  using assms
proof (induction ids arbitrary: rows)
  case Nil
  then show ?case by (simp add: map_idI)
next
  case (Cons i ids)
  show ?case
  proof (cases rule: owned_cases [of rows owner i])
    case (1 row)
    then have "known rows owner i" by (auto simp: known_def)
    moreover have step: "update_first (is_owned owner i) add_waiter rows = map (waits_more owner [i]) rows"
      by (rule update_owned [OF Cons.prems]) (rule add_waiter_eq)
    moreover have "distinct (map jr_id (map (waits_more owner [i]) rows))" using Cons.prems by (simp add: comp_def)
    ultimately show ?thesis
      using 1 Cons.IH [of "map (waits_more owner [i]) rows"] by (simp add: known_map comp_def waits_more_more)
  next
    case 2
    then have "\<not> known rows owner i" by (auto simp: known_def)
    with 2 Cons show ?thesis by simp
  qed
qed

definition answer_of :: "job_row list \<Rightarrow> job_owner \<Rightarrow> wait_answer option \<times> nat \<Rightarrow> wait_answer option" where
  "answer_of rows owner p =
     (case p of
        (Some r, i) \<Rightarrow> Some r
      | (None, i) \<Rightarrow>
          (case owned rows owner i of
             Inl e \<Rightarrow> Some (Inl e)
           | Inr row \<Rightarrow> (case jr_state row of RowFinished _ exit _ \<Rightarrow> Some (Inr (JobExited exit)) | RowRunning \<Rightarrow> None)))"

lemma answer_of_map: "keeps_row f \<Longrightarrow> answer_of (map f rows) owner p = answer_of rows owner p"
  by (simp add: answer_of_def owned_map keeps_rowD split: option.splits sum.splits prod.splits)

lemma keeps_row_id: "keeps_row (\<lambda>row. row)"
  by (simp add: keeps_row_def)

lemma keeps_row_comp: "keeps_row f \<Longrightarrow> keeps_row g \<Longrightarrow> keeps_row (\<lambda>row. g (f row))"
  by (simp add: keeps_row_def is_running_def)

lemma poll_eq:
  assumes "distinct (map jr_id rows)"
  shows "\<exists>f pending. keeps_row f \<and> poll owner pairs rows = (map f rows, map (answer_of rows owner) pairs, pending)
    \<and> (pending \<longleftrightarrow> None \<in> answer_of rows owner ` set pairs)"
  using assms
proof (induction pairs arbitrary: rows)
  case Nil
  show ?case using keeps_row_id by force
next
  case (Cons p pairs)
  obtain a i where p: "p = (a, i)" by (cases p)
  have later: "\<exists>f pending. keeps_row f \<and> poll owner pairs (map g rows) = (map (\<lambda>row. f (g row)) rows, map (answer_of rows owner) pairs, pending)
      \<and> (pending \<longleftrightarrow> None \<in> answer_of rows owner ` set pairs)" if "keeps_row g" for g
    using Cons.IH [of "map g rows"] Cons.prems that
    by (simp add: comp_def keeps_rowD answer_of_map)
  show ?case
  proof (cases a)
    case (Some r)
    with later [OF keeps_row_id] p show ?thesis by (force simp: answer_of_def)
  next
    case None
    show ?thesis
    proof (cases rule: owned_cases [of rows owner i])
      case (1 row)
      show ?thesis
      proof (cases "jr_state row")
        case RowRunning
        with later [OF keeps_row_id] p None 1 show ?thesis by (force simp: answer_of_def)
      next
        case (RowFinished outcome exit ended)
        let ?g = "\<lambda>row. if is_owned owner i row then mark_waited row else row"
        let ?h = "\<lambda>row. if is_owned owner i row \<and> \<not> is_running row then mark_waited row else row"
        have "?g r = ?h r" if "r \<in> set rows" for r
        proof -
          have "r = row" if "is_owned owner i r"
            using Cons.prems 1 that \<open>r \<in> set rows\<close> by (auto simp: is_owned_def distinct_map dest: inj_onD)
          then show ?thesis using RowFinished by (auto simp: is_running_def)
        qed
        then have "update_first (is_owned owner i) mark_waited rows = map ?h rows"
          by (rule update_owned [OF Cons.prems])
        moreover have keeps: "keeps_row ?h" by (simp add: keeps_row_def mark_waited_def)
        ultimately show ?thesis
          using later [OF keeps] p None 1 RowFinished keeps_row_comp [OF keeps] by (force simp: answer_of_def)
      qed
    next
      case 2
      with later [OF keeps_row_id] p None show ?thesis by (force simp: answer_of_def)
    qed
  qed
qed

definition waits_less :: "job_owner \<Rightarrow> nat list \<Rightarrow> job_row \<Rightarrow> job_row" where
  "waits_less owner held row = row\<lparr>jr_waiters := jr_waiters row - (if jr_owner row = owner then count_list held (jr_id row) else 0)\<rparr>"

lemma waits_less_simps [simp]:
  "jr_id (waits_less owner held row) = jr_id row" "jr_owner (waits_less owner held row) = jr_owner row"
  "waits_less owner [] row = row"
  by (simp_all add: waits_less_def)

lemma drop_waiters_eq:
  assumes "distinct (map jr_id rows)" "\<forall>row \<in> set rows. jr_owner row = owner \<longrightarrow> count_list held (jr_id row) \<le> jr_waiters row"
  shows "fold (\<lambda>i. update_first (is_owned owner i) drop_waiter) held rows = map (waits_less owner held) rows"
  using assms
proof (induction held arbitrary: rows)
  case Nil
  then show ?case by (simp add: map_idI)
next
  case (Cons i held)
  have "(if is_owned owner i row then drop_waiter row else row) = waits_less owner [i] row" if "row \<in> set rows" for row
    using Cons.prems(2) that by (force simp: is_owned_def drop_waiter_def waits_less_def)
  then have step: "update_first (is_owned owner i) drop_waiter rows = map (waits_less owner [i]) rows"
    by (rule update_owned [OF Cons.prems(1)])
  have "fold (\<lambda>i. update_first (is_owned owner i) drop_waiter) held (map (waits_less owner [i]) rows) =
      map (waits_less owner held) (map (waits_less owner [i]) rows)"
    using Cons.prems by (intro Cons.IH) (auto simp: comp_def waits_less_def)
  also have "\<dots> = map (waits_less owner (i # held)) rows" by (simp add: waits_less_def)
  finally show ?case by (simp add: step)
qed


subsection \<open>Every step keeps the invariant\<close>

lemma waiters_on_Cons: "waiters_on (w # ws) row = (if w_owner w = jr_owner row then count_list (w_held w) (jr_id row) else 0) + waiters_on ws row"
  and waiters_on_append: "waiters_on (xs @ ys) row = waiters_on xs row + waiters_on ys row"
  and waiters_on_Nil: "waiters_on [] row = 0"
  by (simp_all add: waiters_on_def)

lemma waiters_changed: "\<exists>n. waits_more owner held row = row\<lparr>jr_waiters := n\<rparr>" "\<exists>n. waits_less owner held row = row\<lparr>jr_waiters := n\<rparr>"
  by (rule exI, rule waits_more_def) (rule exI, rule waits_less_def)

text \<open>A change of the waiters alone leaves the rest of the table as it is.\<close>

lemma jobs_ok_waiters:
  assumes "jobs_ok maximum s" "\<And>row. \<exists>n. g row = row\<lparr>jr_waiters := n\<rparr>"
    and "\<forall>row \<in> set (js_rows (sy_jobs s)). jr_waiters (g row) = waiters_on ws row"
    and "\<forall>w \<in> set ws. wait_ok (js_rows (sy_jobs s)) w"
  shows "jobs_ok maximum (s\<lparr>sy_jobs := (sy_jobs s)\<lparr>js_rows := map g (js_rows (sy_jobs s))\<rparr>, sy_waits := ws\<rparr>)"
proof -
  have same: "jr_id (g row) = jr_id row" "jr_owner (g row) = jr_owner row" "jr_cancel (g row) = jr_cancel row"
    "is_running (g row) = is_running row" "jr_waited (g row) = jr_waited row" for row
  proof -
    obtain n where "g row = row\<lparr>jr_waiters := n\<rparr>" using assms(2) by blast
    then show "jr_id (g row) = jr_id row" "jr_owner (g row) = jr_owner row" "jr_cancel (g row) = jr_cancel row"
      "is_running (g row) = is_running row" "jr_waited (g row) = jr_waited row" by (simp_all add: is_running_def)
  qed
  have "waiters_on ws (g row) = waiters_on ws row" for row by (rule waiters_on_cong) (simp_all add: same)
  moreover have "wait_ok (map g rows) w = wait_ok rows w" for rows w by (rule wait_ok_same) (simp add: same)
  moreover have "map (jr_id \<circ> g) rows = map jr_id rows" for rows by (simp add: same)
  moreover have "{row \<in> g ` R. is_running row} = g ` {row \<in> R. is_running row}" for R by (auto simp: same)
  ultimately show ?thesis
    using assms(1,3,4) unfolding jobs_ok_def rows_ok_def
    by (simp add: same image_image comp_def)
qed

lemma jobs_ok_wait_begin:
  assumes "jobs_ok maximum s" "wait_begin (sy_jobs s) owner ids = (js, w)"
  shows "jobs_ok maximum (s\<lparr>sy_jobs := js, sy_waits := w # sy_waits s\<rparr>)"
proof -
  let ?rows = "js_rows (sy_jobs s)"
  let ?held = "filter (known ?rows owner) ids"
  have rows: "rows_ok (js_next (sy_jobs s)) (sy_waits s) ?rows" using assms(1) by (simp add: jobs_ok_def)
  then have "distinct (map jr_id ?rows)" by (simp add: rows_ok_def)
  with assms(2) have js: "js = (sy_jobs s)\<lparr>js_rows := map (waits_more owner ?held) ?rows\<rparr>"
    and w: "w = \<lparr>w_owner = owner, w_ids = ids,
      w_answers = map (\<lambda>i. if known ?rows owner i then None else Some (Inl JobNotYours)) ids, w_held = ?held\<rparr>"
    by (simp_all add: wait_begin_def register_eq)
  have "wait_ok ?rows w" by (auto simp: w wait_ok_def known_def zip_map1 zip_same_conv_map)
  then show ?thesis unfolding js
    using assms(1) rows
    by (intro jobs_ok_waiters waiters_changed) (auto simp: waits_more_def rows_ok_def waiters_on_Cons w)
qed

lemma jobs_ok_wait_end:
  assumes "jobs_ok maximum s" "sy_waits s = before @ w # after"
  shows "jobs_ok maximum (s\<lparr>sy_jobs := wait_end (sy_jobs s) w, sy_waits := before @ after\<rparr>)"
proof -
  let ?rows = "js_rows (sy_jobs s)"
  have rows: "rows_ok (js_next (sy_jobs s)) (sy_waits s) ?rows" using assms(1) by (simp add: jobs_ok_def)
  then have waiters: "jr_waiters row = waiters_on before row +
      ((if w_owner w = jr_owner row then count_list (w_held w) (jr_id row) else 0) + waiters_on after row)" if "row \<in> set ?rows" for row
    using that by (simp add: rows_ok_def assms(2) waiters_on_append waiters_on_Cons)
  have "wait_end (sy_jobs s) w = (sy_jobs s)\<lparr>js_rows := map (waits_less (w_owner w) (w_held w)) ?rows\<rparr>"
    unfolding wait_end_def using rows waiters by (subst drop_waiters_eq) (auto simp: rows_ok_def)
  then show ?thesis
    using assms rows waiters
    by (simp, intro jobs_ok_waiters waiters_changed) (auto simp: waits_less_def rows_ok_def waiters_on_append)
qed

lemma jobs_ok_poll:
  assumes "jobs_ok maximum s" "sy_waits s = before @ w # after" "wait_poll (sy_jobs s) w = (js, w', pending)"
  shows "jobs_ok maximum (s\<lparr>sy_jobs := js, sy_waits := before @ w' # after\<rparr>)"
proof -
  let ?rows = "js_rows (sy_jobs s)" and ?pairs = "zip (w_answers w) (w_ids w)"
  have rows: "rows_ok (js_next (sy_jobs s)) (sy_waits s) ?rows" using assms(1) by (simp add: jobs_ok_def)
  then obtain f where f: "keeps_row f" and js: "js = (sy_jobs s)\<lparr>js_rows := map f ?rows\<rparr>"
    and w': "w' = w\<lparr>w_answers := map (answer_of ?rows (w_owner w)) ?pairs\<rparr>"
    using assms(3) poll_eq [of ?rows "w_owner w" ?pairs] by (auto simp: wait_poll_def rows_ok_def)
  have ok: "jobs_ok maximum (s\<lparr>sy_jobs := js\<rparr>)"
    by (rule jobs_ok_map [OF f assms(1), where sealed = "js_sealed (sy_jobs s)"]) (simp add: js)
  have "wait_ok ?rows w" using rows assms(2) by (simp add: rows_ok_def)
  then have len: "length (w_answers w) = length (w_ids w)" and held: "(None, i) \<in> set ?pairs \<Longrightarrow> i \<in> set (w_held w)" for i
    by (auto simp: wait_ok_def)
  have "i \<in> set (w_held w)" if "(None, i) \<in> set (zip (map (answer_of ?rows (w_owner w)) ?pairs) (w_ids w))" for i
  proof -
    from that len obtain k where k: "k < length (w_ids w)" "answer_of ?rows (w_owner w) (?pairs ! k) = None" "w_ids w ! k = i"
      by (auto simp: in_set_zip)
    then have "fst (?pairs ! k) = None" by (auto simp: answer_of_def split: prod.splits option.splits)
    with k len have "(None, i) \<in> set ?pairs" by (auto simp: in_set_zip)
    then show ?thesis by (rule held)
  qed
  with len \<open>wait_ok ?rows w\<close> f have "wait_ok (map f ?rows) w'"
    by (auto simp: wait_ok_def w' keeps_rowD)
  moreover have "waiters_on (before @ w' # after) row = waiters_on (before @ w # after) row" for row
    by (simp add: waiters_on_append waiters_on_Cons w')
  ultimately show ?thesis using ok assms(2) by (auto simp: jobs_ok_def rows_ok_def js)
qed


lemma remove_first_split:
  assumes "list_ex P xs"
  obtains before x after where "xs = before @ x # after" "P x" "remove_first P xs = before @ after"
proof -
  have "\<exists>before x after. xs = before @ x # after \<and> P x \<and> remove_first P xs = before @ after"
    using assms
  proof (induction xs)
    case (Cons y ys)
    show ?case
    proof (cases "P y")
      case False
      with Cons obtain before x after where "ys = before @ x # after" "P x" "remove_first P ys = before @ after" by auto
      with False show ?thesis by (intro exI [of _ "y # before"]) auto
    qed (use exI [of _ "[]"] in force)
  qed simp
  with that show thesis by blast
qed

text \<open>No one waits for a row that is evicted, so no wait loses the row it holds.\<close>

lemma rows_ok_evict:
  assumes "rows_ok next ws (before @ x # after)" "jr_waiters x = 0"
  shows "rows_ok next ws (before @ after)"
proof -
  have "waiters_on ws x = 0" using assms by (simp add: rows_ok_def)
  then have none: "count_list (w_held w) (jr_id x) = 0" if "w \<in> set ws" "w_owner w = jr_owner x" for w
    using that unfolding waiters_on_def sum_list_eq_0_iff by force
  have "wait_ok (before @ after) w" if "w \<in> set ws" for w
  proof -
    have ok: "wait_ok (before @ x # after) w" using assms(1) that by (simp add: rows_ok_def)
    have "\<not> is_owned (w_owner w) i x" if "i \<in> set (w_held w)" for i
      using none [OF \<open>w \<in> set ws\<close>] that by (auto simp: is_owned_def count_list_0_iff)
    then show ?thesis using ok by (fastforce simp: wait_ok_def)
  qed
  then show ?thesis using assms(1) by (auto simp: rows_ok_def)
qed

lemma rows_ok_new:
  assumes "rows_ok next ws rows" "jr_id row = next" "jr_waiters row = 0" "\<not> jr_waited row" "jr_cancel row"
    and "\<And>w. w \<in> set ws \<Longrightarrow> next \<notin> set (w_held w)"
  shows "rows_ok (next + 1) ws (rows @ [row])"
proof -
  have "waiters_on ws row = 0" using assms(2,6) by (auto simp: waiters_on_def sum_list_eq_0_iff count_list_0_iff)
  moreover have "wait_ok (rows @ [row]) w" if "wait_ok rows w" for w using that by (auto simp: wait_ok_def)
  moreover have below: "jr_id r < next \<and> jr_id r < next + 1" if "r \<in> set rows" for r
    using assms(1) that by (auto simp: rows_ok_def less_Suc_eq)
  moreover have "jr_id row \<notin> jr_id ` set rows" using below assms(2) by (metis image_iff less_irrefl)
  ultimately show ?thesis using assms(1-5) by (auto simp: rows_ok_def)
qed

lemma held_below:
  assumes "rows_ok next ws rows" "w \<in> set ws" "i \<in> set (w_held w)"
  shows "i < next"
  using assms by (fastforce simp: rows_ok_def wait_ok_def is_owned_def)

lemma jobs_ok_admit:
  assumes "jobs_ok maximum s" "admit_job (sy_jobs s) owner text thread now = (js, Inr i)"
  shows "jobs_ok maximum (s\<lparr>sy_jobs := js, sy_runs := i # sy_runs s\<rparr>)"
proof -
  let ?js = "sy_jobs s"
  let ?row = "\<lparr>jr_id = js_next ?js, jr_owner = owner, jr_text = text, jr_state = RowRunning, jr_started = now,
    jr_cancel = True, jr_cancelled = False, jr_stop = None, jr_waiters = 0, jr_waited = False\<rparr>"
  define rows where "rows = (if length (js_rows ?js) \<ge> js_maximum ?js then remove_first evictable (js_rows ?js) else js_rows ?js)"
  from assms(2) have js: "js = ?js\<lparr>js_rows := rows @ [?row], js_next := js_next ?js + 1, js_permits := js_permits ?js - 1\<rparr>"
    and i: "i = js_next ?js" and permits: "js_permits ?js \<noteq> 0"
    and room: "length (js_rows ?js) \<ge> js_maximum ?js \<Longrightarrow> list_ex evictable (js_rows ?js)"
    by (auto simp: admit_job_def rows_def Let_def split: if_splits sum.splits)
  have ok: "rows_ok (js_next ?js) (sy_waits s) (js_rows ?js)" "length (js_rows ?js) \<le> js_maximum ?js"
    using assms(1) by (simp_all add: jobs_ok_def)
  have rows: "rows_ok (js_next ?js) (sy_waits s) rows" "length rows < js_maximum ?js"
    "jr_id ` {row \<in> set rows. is_running row} = jr_id ` {row \<in> set (js_rows ?js). is_running row}"
  proof -
    have "rows_ok (js_next ?js) (sy_waits s) rows \<and> length rows < js_maximum ?js
      \<and> {row \<in> set rows. is_running row} = {row \<in> set (js_rows ?js). is_running row}"
    proof (cases "length (js_rows ?js) \<ge> js_maximum ?js")
      case True
      obtain before x after where x: "js_rows ?js = before @ x # after" "evictable x" "rows = before @ after"
        using remove_first_split [OF room [OF True]] True rows_def by metis
      then have "jr_waiters x = 0" "\<not> is_running x" by (auto simp: evictable_def is_running_def split: row_state.splits)
      with x ok show ?thesis using rows_ok_evict [of _ _ before x after] by auto
    next
      case False
      then show ?thesis using ok by (simp add: rows_def)
    qed
    then show "rows_ok (js_next ?js) (sy_waits s) rows" "length rows < js_maximum ?js"
      "jr_id ` {row \<in> set rows. is_running row} = jr_id ` {row \<in> set (js_rows ?js). is_running row}" by simp_all
  qed
  have "rows_ok (js_next ?js + 1) (sy_waits s) (rows @ [?row])"
    by (rule rows_ok_new [OF rows(1)]) (auto dest: held_below [OF ok(1)])
  moreover have "jr_id ` {row \<in> set (rows @ [?row]). is_running row} = insert i (set (sy_runs s))"
  proof -
    have "{row \<in> set (rows @ [?row]). is_running row} = insert ?row {row \<in> set rows. is_running row}"
      by (auto simp: is_running_def)
    then show ?thesis using rows(3) assms(1) by (simp add: i jobs_ok_def)
  qed
  moreover have "i \<notin> set (sy_runs s)" using assms(1) by (auto simp: jobs_ok_def rows_ok_def i)
  ultimately show ?thesis using assms(1) rows(2) permits by (simp add: jobs_ok_def js)
qed

lemma send_notice_simps [simp]:
  "js_rows (send_notice js n) = js_rows js" "js_next (send_notice js n) = js_next js"
  "js_permits (send_notice js n) = js_permits js" "js_maximum (send_notice js n) = js_maximum js"
  "js_sealed (send_notice js n) = js_sealed js"
  by (simp_all add: send_notice_def)

lemma send_notice_length: "length (js_notices js) \<le> js_maximum js \<Longrightarrow> length (js_notices (send_notice js n)) \<le> js_maximum js"
  by (simp add: send_notice_def)

lemma finish_job_simps:
  "js_rows (finish_job js i e now) = update_first (\<lambda>row. jr_id row = i) (finish_row e now) (js_rows js)"
  "js_next (finish_job js i e now) = js_next js" "js_permits (finish_job js i e now) = js_permits js + 1"
  "js_maximum (finish_job js i e now) = js_maximum js"
  "length (js_notices js) \<le> js_maximum js \<Longrightarrow> length (js_notices (finish_job js i e now)) \<le> js_maximum js"
  by (auto simp: finish_job_def Let_def intro: send_notice_length [THEN order_trans] split: option.splits)


lemma finish_row_simps [simp]:
  "jr_id (finish_row e now row) = jr_id row" "jr_owner (finish_row e now row) = jr_owner row"
  "jr_waiters (finish_row e now row) = jr_waiters row" "\<not> is_running (finish_row e now row)"
  by (simp_all add: finish_row_def is_running_def)

lemma waiters_on_finish [simp]: "waiters_on ws (finish_row e now row) = waiters_on ws row"
  by (rule waiters_on_cong) simp_all

lemma find_id: "distinct (map jr_id rows) \<Longrightarrow> row \<in> set rows \<Longrightarrow> List.find (\<lambda>r. jr_id r = jr_id row) rows = Some row"
  by (induction rows) (auto intro: rev_image_eqI)

lemma jobs_ok_finish:
  assumes "jobs_ok maximum s" "i \<in> set (sy_runs s)"
  shows "jobs_ok maximum (s\<lparr>sy_jobs := finish_job (sy_jobs s) i e now, sy_runs := remove1 i (sy_runs s)\<rparr>)"
proof -
  let ?rows = "js_rows (sy_jobs s)"
  let ?g = "\<lambda>row. if jr_id row = i then finish_row e now row else row"
  have rows: "rows_ok (js_next (sy_jobs s)) (sy_waits s) ?rows" using assms(1) by (simp add: jobs_ok_def)
  then have upd: "update_first (\<lambda>row. jr_id row = i) (finish_row e now) ?rows = map ?g ?rows"
    by (intro update_first_map) (simp_all add: rows_ok_def)
  have same: "jr_id (?g row) = jr_id row" "jr_owner (?g row) = jr_owner row" "jr_waiters (?g row) = jr_waiters row" for row
    by simp_all
  have waiters: "waiters_on ws (?g row) = waiters_on ws row" for ws row by (rule waiters_on_cong) simp_all
  have waits: "wait_ok (map ?g rows) w = wait_ok rows w" for rows w by (rule wait_ok_same) simp
  have "map jr_id (map ?g ?rows) = map jr_id ?rows" by simp
  then have "distinct (map jr_id (map ?g ?rows))" using rows by (simp only: rows_ok_def)
  moreover have "is_running (?g row) \<Longrightarrow> ?g row = row" for row by auto
  ultimately have "rows_ok (js_next (sy_jobs s)) (sy_waits s) (map ?g ?rows)"
    using rows waiters waits unfolding rows_ok_def by (auto simp del: map_map)
  moreover have "jr_id ` {row \<in> set (map ?g ?rows). is_running row} = set (sy_runs s) - {i}"
  proof -
    have "{row \<in> set (map ?g ?rows). is_running row} = {row \<in> set ?rows. is_running row \<and> jr_id row \<noteq> i}" by force
    then show ?thesis using assms(1) by (auto simp: jobs_ok_def)
  qed
  moreover have "length (remove1 i (sy_runs s)) + 1 = length (sy_runs s)"
    using assms(2) length_pos_if_in_set [OF assms(2)] by (simp add: length_remove1)
  ultimately show ?thesis using assms(1) by (auto simp: jobs_ok_def finish_job_simps upd simp del: map_map)
qed

lemma jobs_ok_kill: "jobs_ok maximum s \<Longrightarrow> jobs_ok maximum (s\<lparr>sy_jobs := fst (kill (sy_jobs s) owner i)\<rparr>)"
proof -
  assume ok: "jobs_ok maximum s"
  let ?f = "\<lambda>row. if is_owned owner i row then stop_row StopKilled row else row"
  have "distinct (map jr_id (js_rows (sy_jobs s)))" using ok by (simp add: jobs_ok_def rows_ok_def)
  then have upd: "update_first (is_owned owner i) (stop_row StopKilled) (js_rows (sy_jobs s)) = map ?f (js_rows (sy_jobs s))"
    by (rule update_owned) simp
  have "fst (kill (sy_jobs s) owner i) = sy_jobs s
    \<or> fst (kill (sy_jobs s) owner i) = (sy_jobs s)\<lparr>js_rows := map ?f (js_rows (sy_jobs s))\<rparr>"
    unfolding kill_def upd by (simp split: sum.split row_state.split)
  then show ?thesis
  proof
    assume "fst (kill (sy_jobs s) owner i) = (sy_jobs s)\<lparr>js_rows := map ?f (js_rows (sy_jobs s))\<rparr>"
    then show ?thesis
      by (intro jobs_ok_map [OF keeps_row_if [OF keeps_row_stop] ok, where sealed = "js_sealed (sy_jobs s)"]) simp
  qed (use ok in simp)
qed

lemma jobs_ok_step: "jobs_step s s' \<Longrightarrow> jobs_ok maximum s \<Longrightarrow> jobs_ok maximum s'"
proof (induction rule: jobs_step.induct)
  case (step_cancelled s request)
  then show ?case
    by (intro jobs_ok_map [OF keeps_row_if [OF keeps_row_stop_running], where sealed = "js_sealed (sy_jobs s)"])
      (simp_all add: cancel_owner_def)
next
  case (step_sealed s)
  then show ?case
    by (intro jobs_ok_map [OF keeps_row_stop_running, where sealed = True]) (simp_all add: seal_def comp_def)
next
  case (step_received s n ns)
  then show ?case by (simp add: jobs_ok_def)
qed (simp_all add: jobs_ok_admit jobs_ok_finish jobs_ok_wait_begin jobs_ok_poll jobs_ok_wait_end jobs_ok_kill)

lemma jobs_reachable_ok: "jobs_reachable maximum s \<Longrightarrow> jobs_ok maximum s"
proof (induction rule: jobs_reachable.induct)
  case (reachable_start maximum)
  show ?case by (simp add: jobs_ok_def jobs_new_def rows_ok_def)
next
  case (reachable_step maximum s s')
  then show ?case by (blast intro: jobs_ok_step)
qed

section \<open>Properties\<close>

text \<open>However starts, ends, waits, stops and deliveries of jobs interleave, the table never holds
  more jobs than its maximum, the running jobs and the free permits add up to it, no two jobs share an
  id, and no more notices are queued than there may be jobs.\<close>

theorem jobs_stay_within_maximum:
  assumes "jobs_reachable maximum s"
  shows "length (js_rows (sy_jobs s)) \<le> maximum
    \<and> js_permits (sy_jobs s) + length (filter is_running (js_rows (sy_jobs s))) = maximum
    \<and> distinct (map jr_id (js_rows (sy_jobs s)))
    \<and> length (js_notices (sy_jobs s)) \<le> maximum"
proof -
  have ok: "jobs_ok maximum s" by (rule jobs_reachable_ok [OF assms])
  let ?running = "filter is_running (js_rows (sy_jobs s))"
  have "distinct (map jr_id ?running)" using ok by (simp add: jobs_ok_def rows_ok_def distinct_map_filter)
  moreover have "set (map jr_id ?running) = set (sy_runs s)" using ok by (auto simp: jobs_ok_def)
  ultimately have "length (map jr_id ?running) = length (sy_runs s)"
    using ok by (metis distinct_card jobs_ok_def)
  then show ?thesis using ok by (simp add: jobs_ok_def rows_ok_def)
qed

text \<open>C27: a job that a wait was accepted for stays in the table until that wait ends: looking at it never
  answers that there is no such job, the answer is the exit the job ended with or it still runs, and the
  count of waiters that is given back is never more than was taken.\<close>

theorem accepted_wait_is_answered:
  assumes "jobs_reachable maximum s" "w \<in> set (sy_waits s)" "i \<in> set (w_held w)"
  shows "(\<exists>row \<in> set (js_rows (sy_jobs s)). is_owned (w_owner w) i row
        \<and> count_list (w_held w) i \<le> jr_waiters row
        \<and> answer_of (js_rows (sy_jobs s)) (w_owner w) (None, i) =
            (case jr_state row of RowRunning \<Rightarrow> None | RowFinished _ exit _ \<Rightarrow> Some (Inr (JobExited exit))))
    \<and> (\<exists>js pending. wait_poll (sy_jobs s) w =
        (js, w\<lparr>w_answers := map (answer_of (js_rows (sy_jobs s)) (w_owner w)) (zip (w_answers w) (w_ids w))\<rparr>, pending))"
proof -
  let ?rows = "js_rows (sy_jobs s)"
  have rows: "rows_ok (js_next (sy_jobs s)) (sy_waits s) ?rows" using jobs_reachable_ok [OF assms(1)] by (simp add: jobs_ok_def)
  with assms(2) have "wait_ok ?rows w" by (simp add: rows_ok_def)
  with assms(3) obtain r where "r \<in> set ?rows" "is_owned (w_owner w) i r" unfolding wait_ok_def by blast
  then obtain row where row: "owned ?rows (w_owner w) i = Inr row" "row \<in> set ?rows" "is_owned (w_owner w) i row"
    by (cases rule: owned_cases [of ?rows "w_owner w" i]) auto
  obtain before after where "sy_waits s = before @ w # after" using assms(2) by (metis split_list)
  with rows row have "count_list (w_held w) i \<le> jr_waiters row"
    by (simp add: rows_ok_def waiters_on_append waiters_on_Cons is_owned_def)
  moreover have "answer_of ?rows (w_owner w) (None, i) =
      (case jr_state row of RowRunning \<Rightarrow> None | RowFinished _ exit _ \<Rightarrow> Some (Inr (JobExited exit)))"
    using row(1) by (simp add: answer_of_def split: row_state.splits)
  moreover have "\<exists>js pending. wait_poll (sy_jobs s) w =
      (js, w\<lparr>w_answers := map (answer_of ?rows (w_owner w)) (zip (w_answers w) (w_ids w))\<rparr>, pending)"
    using rows poll_eq [of ?rows "w_owner w" "zip (w_answers w) (w_ids w)"] by (auto simp: wait_poll_def rows_ok_def)
  ultimately show ?thesis using row(2,3) by blast
qed

text \<open>when a job ends, its row tells the outcome and the exit, and a notice is queued exactly when no
  one waits for it, no one stopped it and the queue has room.\<close>

theorem finished_job_is_told:
  assumes "jobs_reachable maximum s" "i \<in> set (sy_runs s)"
  shows "\<exists>row \<in> set (js_rows (sy_jobs s)). jr_id row = i
    \<and> finish_row e now row \<in> set (js_rows (finish_job (sy_jobs s) i e now))
    \<and> js_notices (finish_job (sy_jobs s) i e now) =
        js_notices (sy_jobs s) @
        (if jr_stop row = None \<and> jr_waiters row = 0 \<and> length (js_notices (sy_jobs s)) < maximum
         then [(i, notice_text i row e now)] else [])"
proof -
  have ok: "jobs_ok maximum s" by (rule jobs_reachable_ok [OF assms(1)])
  let ?rows = "js_rows (sy_jobs s)"
  obtain row where row: "row \<in> set ?rows" "jr_id row = i" "is_running row"
    using ok assms(2) by (auto simp: jobs_ok_def)
  have "distinct (map jr_id ?rows)" using ok by (simp add: jobs_ok_def rows_ok_def)
  with row have "List.find (\<lambda>row. jr_id row = i) ?rows = Some row" using find_id by blast
  moreover have "\<not> jr_waited row" using ok row by (auto simp: jobs_ok_def rows_ok_def)
  moreover have "update_first (\<lambda>row. jr_id row = i) (finish_row e now) ?rows = map (\<lambda>row. if jr_id row = i then finish_row e now row else row) ?rows"
    by (rule update_first_map) (use ok in \<open>simp_all add: jobs_ok_def rows_ok_def\<close>)
  moreover have "js_maximum (sy_jobs s) = maximum" using ok by (simp add: jobs_ok_def)
  moreover have "noticed (outcome_of (jr_stop row) e) waited \<longleftrightarrow> jr_stop row = None \<and> \<not> waited" for waited
    by (auto simp: noticed_def outcome_of_def split: option.splits job_stop.splits ending.splits)
  ultimately show ?thesis using row
    by (intro bexI [of _ row]) (auto simp: finish_job_def finish_job_simps send_notice_def Let_def intro: rev_image_eqI)
qed


section \<open>A history\<close>

text \<open>A gateway that allows one job, which one person starts and waits for.\<close>

definition alice :: job_owner where
  "alice = \<lparr>jo_transport = ''local'', jo_conversation = ''c'', jo_subject = ''drn:local:user::alice''\<rparr>"

definition one_job :: jobs_system where
  "one_job =
     (let js = fst (admit_job (jobs_new 1) alice ''sleep 1'' (Inr ()) 0)
      in \<lparr>sy_jobs = js, sy_waits = [], sy_runs = [1]\<rparr>)"

definition one_wait :: jobs_system where
  "one_wait =
     (let (js, w) = wait_begin (sy_jobs one_job) alice [1]
      in \<lparr>sy_jobs = js, sy_waits = [w], sy_runs = [1]\<rparr>)"

lemma one_job_reachable: "jobs_reachable 1 one_job"
proof -
  let ?s = "\<lparr>sy_jobs = jobs_new 1, sy_waits = [], sy_runs = []\<rparr>"
  have "admit_job (sy_jobs ?s) alice ''sleep 1'' (Inr ()) 0 = (sy_jobs one_job, Inr 1)"
    by (simp add: admit_job_def jobs_new_def one_job_def Let_def)
  from step_admitted [OF this] have "jobs_step ?s one_job" by (simp add: one_job_def Let_def)
  then show ?thesis using reachable_start reachable_step by blast
qed

lemma one_wait_reachable: "jobs_reachable 1 one_wait"
proof -
  obtain js w where "wait_begin (sy_jobs one_job) alice [1] = (js, w)" by fastforce
  moreover from step_wait_begun [OF this] have "jobs_step one_job one_wait"
    using calculation by (simp add: one_wait_def one_job_def Let_def)
  ultimately show ?thesis using one_job_reachable reachable_step by blast
qed

lemma one_wait_eq:
  "one_wait =
     \<lparr>sy_jobs = (jobs_new 1)\<lparr>js_rows := [\<lparr>jr_id = 1, jr_owner = alice, jr_text = ''sleep 1'', jr_state = RowRunning, jr_started = 0,
        jr_cancel = True, jr_cancelled = False, jr_stop = None, jr_waiters = 1, jr_waited = False\<rparr>], js_next := 2, js_permits := 0\<rparr>,
      sy_waits = [\<lparr>w_owner = alice, w_ids = [1], w_answers = [None], w_held = [1]\<rparr>], sy_runs = [1]\<rparr>"
  by (simp add: one_wait_def one_job_def wait_begin_def admit_job_def jobs_new_def Let_def owned_def is_owned_def add_waiter_def)

theorem jobs_stay_within_maximum_witness:
  "length (js_rows (sy_jobs one_wait)) \<le> 1
    \<and> js_permits (sy_jobs one_wait) + length (filter is_running (js_rows (sy_jobs one_wait))) = 1"
  using jobs_stay_within_maximum [OF one_wait_reachable] by simp

theorem accepted_wait_is_answered_witness:
  "\<exists>row \<in> set (js_rows (sy_jobs one_wait)). is_owned alice 1 row"
  using accepted_wait_is_answered [OF one_wait_reachable, of "hd (sy_waits one_wait)" 1]
  by (auto simp: one_wait_eq)

theorem finished_job_is_told_witness:
  "js_notices (finish_job (sy_jobs one_job) 1 \<lparr>en_exit = 0, en_output = ''done'', en_ending = Ran False\<rparr> 3000000000) \<noteq> []"
proof -
  have "1 \<in> set (sy_runs one_job)" by (simp add: one_job_def Let_def)
  from finished_job_is_told [OF one_job_reachable this, of "\<lparr>en_exit = 0, en_output = ''done'', en_ending = Ran False\<rparr>" 3000000000]
  show ?thesis by (auto simp: one_job_def admit_job_def jobs_new_def Let_def)
qed

text \<open>A job that ends while a wait for it has just looked, and that wait is then told to stop: the
  end counts as waited for, so no notice is queued, but the wait answers that it was interrupted.\<close>

lemma interrupted_wait_loses_notice:
  "let e = \<lparr>en_exit = 0, en_output = [], en_ending = Ran False\<rparr>;
       (js, w, pending) = wait_poll (sy_jobs one_wait) (hd (sy_waits one_wait));
       js = finish_job js 1 e 3000000000
   in pending \<and> wait_result w = [Inr JobInterrupted] \<and> js_notices (wait_end js w) = []"
  by (simp add: one_wait_eq wait_poll_def owned_def is_owned_def finish_job_def jobs_new_def wait_result_def wait_end_def
      noticed_def outcome_of_def EXIT_SUCCESS_def Let_def)

end
