(* ===== verification/Process_Pipe.thy ===== *)
theory Process_Pipe
  imports Process_Tree "HOL-Library.Sublist"
begin

text \<open>
  Pipes between the stages of a script (\<open>dekopon-process\<close>: \<open>pipe.rs\<close>). A writer cuts what it is
  given into chunks and sends them over a channel that holds a bounded number; a reader takes them from
  the channel, from a socket or from fixed bytes, and stops at the limits of its tree. Writer and reader
  are threads: a pipe is a state on which the sends of the one and the turns of the other's loop are
  steps that interleave freely. A blocking call that cannot go on is a step that is not enabled.
  Reading a line is modelled over what the reads it makes return.
\<close>

definition CHUNK_BYTES :: nat where "CHUNK_BYTES = 4 * 1024"
definition CAPACITY_CHUNKS :: nat where "CAPACITY_CHUNKS = 16"

datatype read_outcome = ReadBytes string | ReadEnd
datatype write_outcome = Accepted | ReaderGone

section \<open>The channel\<close>

text \<open>A \<open>sync_channel\<close>: what was sent and not yet received, and whether its two ends are still there.\<close>

record channel =
  ch_queue :: "string list"
  ch_sender :: bool
  ch_receiver :: bool

datatype send_outcome = Sent channel | SendBlocks | SendFails

definition channel_send :: "channel \<Rightarrow> string \<Rightarrow> send_outcome" where
  "channel_send ch chunk =
     (if \<not> ch_receiver ch then SendFails
      else if length (ch_queue ch) < CAPACITY_CHUNKS then Sent (ch\<lparr>ch_queue := ch_queue ch @ [chunk]\<rparr>)
      else SendBlocks)"

section \<open>Sources and readers\<close>

text \<open>A socket is what arrives on it; a read takes at most a chunk of that, and no bytes are its end.\<close>

datatype socket_read = SocketBytes string | SocketRetry | SocketFailed

datatype source = ChannelSource channel | SocketSource "socket_read list" | FixedSource

text \<open>What a turn of the reading loop gets from its source: bytes that are counted, bytes that are returned
  at once, nothing yet, or the end.\<close>

datatype source_answer = Counted string | Uncounted string | NothingYet | SourceEnded

fun source_turn :: "source \<Rightarrow> source \<times> source_answer" where
  "source_turn FixedSource = (FixedSource, NothingYet)"
| "source_turn (ChannelSource ch) =
     (case ch_queue ch of
        chunk # rest \<Rightarrow> (ChannelSource (ch\<lparr>ch_queue := rest\<rparr>), Counted chunk)
      | [] \<Rightarrow> (ChannelSource ch, if ch_sender ch then NothingYet else SourceEnded))"
| "source_turn (SocketSource []) = (SocketSource [], NothingYet)"
| "source_turn (SocketSource (e # rest)) =
     (case e of
        SocketBytes bytes \<Rightarrow>
          if bytes = [] then (SocketSource rest, SourceEnded)
          else (SocketSource (if length bytes \<le> CHUNK_BYTES then rest else SocketBytes (drop CHUNK_BYTES bytes) # rest),
                Uncounted (take CHUNK_BYTES bytes))
      | SocketRetry \<Rightarrow> (SocketSource rest, NothingYet)
      | SocketFailed \<Rightarrow> (SocketSource rest, SourceEnded))"

record reader =
  rd_source :: source
  rd_pending :: string
  rd_ended :: bool
  rd_observed :: "nat list"

definition from_socket :: "bool \<Rightarrow> socket_read list \<Rightarrow> reader option" where
  "from_socket timeout_set events =
     (if timeout_set
      then Some \<lparr>rd_source = SocketSource events, rd_pending = [], rd_ended = False, rd_observed = []\<rparr> else None)"

definition from_bytes :: "string \<Rightarrow> reader" where
  "from_bytes bytes = \<lparr>rd_source = FixedSource, rd_pending = bytes, rd_ended = True, rd_observed = []\<rparr>"

text \<open>What a reader sees of the rest of the program in one turn.\<close>

record moment =
  mo_context :: tree_context
  mo_now :: nat
  mo_stopped :: bool

type_synonym read_result = "(limit_exceeded, read_outcome) result"

text \<open>The part of \<open>read_unless\<close> before its loop, and one turn of the loop; no result is another turn.\<close>

definition read_pending :: "reader \<Rightarrow> reader \<times> read_result option" where
  "read_pending r =
     (if rd_pending r \<noteq> []
      then (let bytes = take CHUNK_BYTES (rd_pending r)
            in (r\<lparr>rd_pending := drop CHUNK_BYTES (rd_pending r), rd_observed := rd_observed r @ [length bytes]\<rparr>,
                Some (Inr (ReadBytes bytes))))
      else (r, None))"

definition read_guard :: "moment \<Rightarrow> reader \<Rightarrow> read_result option" where
  "read_guard m r =
     (if rd_ended r \<or> mo_stopped m then Some (Inr ReadEnd)
      else if is_cancelled (mo_context m) then Some (Inl Cancelled)
      else case check_deadline (mo_context m) (mo_now m) of Inl e \<Rightarrow> Some (Inl e) | Inr _ \<Rightarrow> None)"

definition read_turn :: "moment \<Rightarrow> reader \<Rightarrow> reader \<times> read_result option" where
  "read_turn m r =
     (case read_guard m r of
        Some result \<Rightarrow> (r, Some result)
      | None \<Rightarrow>
          (case source_turn (rd_source r) of (src, answer) \<Rightarrow>
             let r = r\<lparr>rd_source := src\<rparr>
             in case answer of
                  NothingYet \<Rightarrow> (r, None)
                | SourceEnded \<Rightarrow> (r\<lparr>rd_ended := True\<rparr>, None)
                | Uncounted bytes \<Rightarrow> (r, Some (Inr (ReadBytes bytes)))
                | Counted bytes \<Rightarrow>
                    if bytes = [] then (r, None)
                    else (r\<lparr>rd_observed := rd_observed r @ [length bytes]\<rparr>, Some (Inr (ReadBytes bytes)))))"

text \<open>A whole read on a source that no one else writes to, over the moments of its turns; it is still
  waiting when they are used up.\<close>

fun read_loop :: "moment list \<Rightarrow> reader \<Rightarrow> reader \<times> read_result option" where
  "read_loop [] r = (r, None)"
| "read_loop (m # ms) r =
     (case read_turn m r of (r, Some result) \<Rightarrow> (r, Some result) | (r, None) \<Rightarrow> read_loop ms r)"

definition read_unless :: "moment list \<Rightarrow> reader \<Rightarrow> reader \<times> read_result option" where
  "read_unless ms r = (case read_pending r of (r, Some result) \<Rightarrow> (r, Some result) | (r, None) \<Rightarrow> read_loop ms r)"

section \<open>Lines\<close>

record charged_bytes =
  cby_bytes :: string
  cby_charges :: "retained_bytes list"

definition into_parts :: "charged_bytes \<Rightarrow> string \<times> retained_bytes list" where
  "into_parts c = (cby_bytes c, cby_charges c)"

definition charged_new :: charged_bytes where
  "charged_new = \<lparr>cby_bytes = [], cby_charges = []\<rparr>"

definition charged_drop :: "tree_context \<Rightarrow> charged_bytes \<Rightarrow> tree_context" where
  "charged_drop t c = foldl retained_drop t (cby_charges c)"

text \<open>What is not charged is dropped with what was.\<close>

definition charged_extend ::
  "tree_context \<Rightarrow> charged_bytes \<Rightarrow> string \<Rightarrow> tree_context \<times> (limit_exceeded, charged_bytes) result" where
  "charged_extend t c chunk =
     (case retain t (length chunk) of
        (t, Inl e) \<Rightarrow> (charged_drop t c, Inl e)
      | (t, Inr charge) \<Rightarrow> (t, Inr \<lparr>cby_bytes = cby_bytes c @ chunk, cby_charges = cby_charges c @ [charge]\<rparr>))"

definition line_break :: "string \<Rightarrow> nat option" where
  "line_break s = (if CHR 0x0A \<in> set s then Some (length (takeWhile (\<lambda>b. b \<noteq> CHR 0x0A) s)) else None)"

text \<open>The loop of \<open>read_line\<close> over the results of its reads. It leaves what is pending and the reads not
  made, and is still waiting when the reads run out.\<close>

type_synonym line_state = "tree_context \<times> string \<times> read_result list"

fun read_line_loop ::
  "tree_context \<Rightarrow> string \<Rightarrow> charged_bytes \<Rightarrow> read_result list \<Rightarrow> line_state \<times> (limit_exceeded, charged_bytes option) result option" where
  "read_line_loop t pending line reads =
     (case line_break pending of
        Some offset \<Rightarrow>
          (let rest = drop (offset + 1) pending
           in case charged_extend t line (take (offset + 1) pending) of
                (t, Inl e) \<Rightarrow> ((t, rest, reads), Some (Inl e))
              | (t, Inr line) \<Rightarrow> ((t, rest, reads), Some (Inr (Some line))))
      | None \<Rightarrow>
          (case charged_extend t line pending of
             (t, Inl e) \<Rightarrow> ((t, [], reads), Some (Inl e))
           | (t, Inr line) \<Rightarrow>
               (case reads of
                  [] \<Rightarrow> ((t, [], []), None)
                | Inl e # reads \<Rightarrow> ((charged_drop t line, [], reads), Some (Inl e))
                | Inr (ReadBytes chunk) # reads \<Rightarrow> read_line_loop t chunk line reads
                | Inr ReadEnd # reads \<Rightarrow>
                    if cby_bytes line = [] then ((charged_drop t line, [], reads), Some (Inr None))
                    else ((t, [], reads), Some (Inr (Some line))))))"

definition read_line ::
  "tree_context \<Rightarrow> string \<Rightarrow> read_result list \<Rightarrow> line_state \<times> (limit_exceeded, charged_bytes option) result option" where
  "read_line t pending reads = read_line_loop t pending charged_new reads"

section \<open>A pipe and its two threads\<close>

text \<open>
  The writer is in a call of \<open>write\<close> with chunks still to send, or in none; the reader is in the loop of a
  read or in none. The channel is the one the reader takes from. The state also records the texts that
  writes were given, what came of them, what was observed, and what reads returned.
\<close>

record pipe_state =
  ps_writing :: "string list option"
  ps_reading :: bool
  ps_reader :: reader
  ps_texts :: "string list"
  ps_writes :: "write_outcome list"
  ps_observed :: "(nat \<times> bool) list"
  ps_reads :: "read_result list"

definition pipe :: pipe_state where
  "pipe =
     \<lparr>ps_writing = None, ps_reading = False,
      ps_reader = \<lparr>rd_source = ChannelSource \<lparr>ch_queue = [], ch_sender = True, ch_receiver = True\<rparr>, rd_pending = [],
        rd_ended = False, rd_observed = []\<rparr>,
      ps_texts = [], ps_writes = [], ps_observed = [], ps_reads = []\<rparr>"

definition pipe_channel :: "pipe_state \<Rightarrow> channel" where
  "pipe_channel st =
     (case rd_source (ps_reader st) of
        ChannelSource ch \<Rightarrow> ch
      | _ \<Rightarrow> \<lparr>ch_queue = [], ch_sender = False, ch_receiver = False\<rparr>)"

definition set_channel :: "channel \<Rightarrow> pipe_state \<Rightarrow> pipe_state" where
  "set_channel ch st = st\<lparr>ps_reader := (ps_reader st)\<lparr>rd_source := ChannelSource ch\<rparr>\<rparr>"

text \<open>A write goes on with the chunks that are left, and ends when there is none.\<close>

definition write_on :: "string list \<Rightarrow> pipe_state \<Rightarrow> pipe_state" where
  "write_on chunks st =
     (if chunks = [] then st\<lparr>ps_writing := None, ps_writes := ps_writes st @ [Accepted]\<rparr>
      else st\<lparr>ps_writing := Some chunks\<rparr>)"

definition write_send :: "string \<Rightarrow> string list \<Rightarrow> pipe_state \<Rightarrow> pipe_state option" where
  "write_send chunk rest st =
     (case channel_send (pipe_channel st) chunk of
        SendBlocks \<Rightarrow> None
      | SendFails \<Rightarrow> Some (st\<lparr>ps_writing := None, ps_writes := ps_writes st @ [ReaderGone],
          ps_observed := ps_observed st @ [(0, False)]\<rparr>)
      | Sent ch \<Rightarrow> Some (write_on rest (set_channel ch (st\<lparr>ps_observed := ps_observed st @ [(length chunk, True)]\<rparr>))))"

definition read_returns :: "pipe_state \<Rightarrow> reader \<times> read_result option \<Rightarrow> pipe_state" where
  "read_returns st m =
     (case m of
        (r, None) \<Rightarrow> st\<lparr>ps_reader := r, ps_reading := True\<rparr>
      | (r, Some result) \<Rightarrow> st\<lparr>ps_reader := r, ps_reading := False, ps_reads := ps_reads st @ [result]\<rparr>)"

datatype pipe_op = StartWrite string | SendChunk | DropWriter | StartRead | ReadTurn moment | DropReader

fun pipe_step :: "pipe_state \<Rightarrow> pipe_op \<Rightarrow> pipe_state option" where
  "pipe_step st (StartWrite bytes) =
     (if ps_writing st = None \<and> ch_sender (pipe_channel st)
      then Some (write_on (chunks_of CHUNK_BYTES bytes) (st\<lparr>ps_texts := ps_texts st @ [bytes]\<rparr>)) else None)"
| "pipe_step st SendChunk =
     (case ps_writing st of Some (chunk # rest) \<Rightarrow> write_send chunk rest st | _ \<Rightarrow> None)"
| "pipe_step st DropWriter =
     (if ps_writing st = None \<and> ch_sender (pipe_channel st)
      then Some (set_channel ((pipe_channel st)\<lparr>ch_sender := False\<rparr>) st) else None)"
| "pipe_step st StartRead =
     (if \<not> ps_reading st \<and> ch_receiver (pipe_channel st) then Some (read_returns st (read_pending (ps_reader st))) else None)"
| "pipe_step st (ReadTurn m) =
     (if ps_reading st then Some (read_returns st (read_turn m (ps_reader st))) else None)"
| "pipe_step st DropReader =
     (if \<not> ps_reading st \<and> ch_receiver (pipe_channel st)
      then Some (set_channel ((pipe_channel st)\<lparr>ch_receiver := False, ch_queue := []\<rparr>) st) else None)"

fun pipe_run :: "pipe_state \<Rightarrow> pipe_op list \<Rightarrow> pipe_state option" where
  "pipe_run st [] = Some st"
| "pipe_run st (op # ops) = (case pipe_step st op of None \<Rightarrow> None | Some st \<Rightarrow> pipe_run st ops)"

section \<open>What is read is what was written\<close>

fun read_text :: "read_result \<Rightarrow> string" where
  "read_text (Inr (ReadBytes bytes)) = bytes"
| "read_text _ = []"

definition bytes_read :: "pipe_state \<Rightarrow> string" where
  "bytes_read st = concat (map read_text (ps_reads st))"

definition unsent :: "pipe_state \<Rightarrow> string" where
  "unsent st = (case ps_writing st of None \<Rightarrow> [] | Some chunks \<Rightarrow> concat chunks)"

definition chunk_ok :: "string \<Rightarrow> bool" where
  "chunk_ok c \<longleftrightarrow> c \<noteq> [] \<and> length c \<le> CHUNK_BYTES"

definition pipe_ok :: "pipe_state \<Rightarrow> bool" where
  "pipe_ok st \<longleftrightarrow>
     (\<exists>ch. rd_source (ps_reader st) = ChannelSource ch) \<and> rd_pending (ps_reader st) = []
     \<and> length (ch_queue (pipe_channel st)) \<le> CAPACITY_CHUNKS \<and> list_all chunk_ok (ch_queue (pipe_channel st))
     \<and> (\<forall>chunks. ps_writing st = Some chunks \<longrightarrow> chunks \<noteq> [] \<and> list_all chunk_ok chunks \<and> ch_sender (pipe_channel st))
     \<and> (ps_reading st \<longrightarrow> ch_receiver (pipe_channel st))
     \<and> (rd_ended (ps_reader st) \<longrightarrow> \<not> ch_sender (pipe_channel st) \<and> ch_queue (pipe_channel st) = [])
     \<and> (ch_receiver (pipe_channel st) \<longrightarrow>
          bytes_read st @ concat (ch_queue (pipe_channel st)) @ unsent st = concat (ps_texts st) \<and> ReaderGone \<notin> set (ps_writes st))
     \<and> prefix (bytes_read st) (concat (ps_texts st))
     \<and> (rd_ended (ps_reader st) \<longrightarrow> bytes_read st = concat (ps_texts st))
     \<and> sum_list (rd_observed (ps_reader st)) = length (bytes_read st)"

lemma pipe_ok_new: "pipe_ok pipe"
  by (simp add: pipe_ok_def pipe_def pipe_channel_def bytes_read_def unsent_def)

lemma chunks_ok: "list_all chunk_ok (chunks_of CHUNK_BYTES bytes)"
  using chunk_size [of _ CHUNK_BYTES bytes] by (auto simp: list_all_iff chunk_ok_def CHUNK_BYTES_def)

lemma pipe_channel_simps [simp]:
  "pipe_channel (set_channel ch st) = ch"
  "pipe_channel (st\<lparr>ps_texts := x\<rparr>) = pipe_channel st"
  "pipe_channel (st\<lparr>ps_writing := w\<rparr>) = pipe_channel st"
  "pipe_channel (st\<lparr>ps_writes := o1\<rparr>) = pipe_channel st"
  "pipe_channel (st\<lparr>ps_observed := o2\<rparr>) = pipe_channel st"
  by (simp_all add: pipe_channel_def set_channel_def)

lemma set_channel_fields [simp]:
  "rd_source (ps_reader (set_channel ch st)) = ChannelSource ch"
  "rd_pending (ps_reader (set_channel ch st)) = rd_pending (ps_reader st)"
  "rd_ended (ps_reader (set_channel ch st)) = rd_ended (ps_reader st)"
  "rd_observed (ps_reader (set_channel ch st)) = rd_observed (ps_reader st)"
  "ps_writing (set_channel ch st) = ps_writing st" "ps_reading (set_channel ch st) = ps_reading st"
  "ps_texts (set_channel ch st) = ps_texts st" "ps_writes (set_channel ch st) = ps_writes st"
  "bytes_read (set_channel ch st) = bytes_read st" "unsent (set_channel ch st) = unsent st"
  by (simp_all add: set_channel_def bytes_read_def unsent_def)

lemma write_on_fields:
  "pipe_channel (write_on cs st) = pipe_channel st" "bytes_read (write_on cs st) = bytes_read st" "ps_reader (write_on cs st) = ps_reader st"
  "ps_texts (write_on cs st) = ps_texts st" "ps_reading (write_on cs st) = ps_reading st"
  "unsent (write_on cs st) = concat cs" "ps_writing (write_on cs st) = (if cs = [] then None else Some cs)"
  "ReaderGone \<in> set (ps_writes (write_on cs st)) \<longleftrightarrow> ReaderGone \<in> set (ps_writes st)"
  by (simp_all add: write_on_def bytes_read_def unsent_def pipe_channel_def)

lemma pipe_ok_send:
  assumes "pipe_ok st" "ps_writing st = Some (chunk # rest)" "write_send chunk rest st = Some st'"
  shows "pipe_ok st'"
proof -
  have "channel_send (pipe_channel st) chunk \<noteq> SendBlocks" using assms(3) by (auto simp: write_send_def)
  then consider (gone) "\<not> ch_receiver (pipe_channel st)" | (room) "ch_receiver (pipe_channel st)"
      "length (ch_queue (pipe_channel st)) < CAPACITY_CHUNKS"
    by (auto simp: channel_send_def split: if_splits)
  then show ?thesis
  proof cases
    case gone
    with assms show ?thesis by (auto simp: write_send_def channel_send_def pipe_ok_def bytes_read_def)
  next
    case room
    let ?ch = "(pipe_channel st)\<lparr>ch_queue := ch_queue (pipe_channel st) @ [chunk]\<rparr>"
    have "st' = write_on rest (set_channel ?ch (st\<lparr>ps_observed := ps_observed st @ [(length chunk, True)]\<rparr>))"
      using assms(3) room by (simp add: write_send_def channel_send_def)
    then show ?thesis
      using assms(1,2) room by (auto simp: pipe_ok_def write_on_fields) (simp_all add: bytes_read_def unsent_def)
  qed
qed

lemma read_guard_text: "read_guard m r = Some result \<Longrightarrow> read_text result = []"
  by (auto simp: read_guard_def split: if_splits sum.splits)

lemma prefix_of_append: "a @ c @ d = t \<Longrightarrow> prefix (a @ c) t"
  by (auto simp: prefix_def)

lemma pipe_ok_turn:
  assumes "pipe_ok st" "ps_reading st"
  shows "pipe_ok (read_returns st (read_turn m (ps_reader st)))"
proof (cases "read_guard m (ps_reader st)")
  case (Some result)
  with assms read_guard_text [OF Some] show ?thesis
    by (auto simp: pipe_ok_def read_turn_def read_returns_def pipe_channel_def bytes_read_def unsent_def)
next
  case None
  from assms(1) obtain ch where ch: "rd_source (ps_reader st) = ChannelSource ch" by (auto simp: pipe_ok_def)
  show ?thesis
  proof (cases "ch_queue ch")
    case Nil
    with None ch assms show ?thesis
      by (auto simp: read_turn_def read_returns_def pipe_ok_def pipe_channel_def bytes_read_def unsent_def split: option.splits)
  next
    case (Cons chunk rest)
    with None ch assms show ?thesis
      by (auto simp: read_turn_def read_returns_def pipe_ok_def pipe_channel_def bytes_read_def unsent_def chunk_ok_def read_guard_def
          intro: prefix_of_append split: if_splits)
  qed
qed

lemma pipe_ok_step:
  assumes "pipe_ok st" "pipe_step st op = Some st'"
  shows "pipe_ok st'"
proof (cases op)
  case (StartWrite bytes)
  with assms chunks_ok [of bytes] show ?thesis
    by (auto simp: pipe_ok_def write_on_def bytes_read_def unsent_def split: if_splits)
next
  case SendChunk
  with assms show ?thesis by (auto intro: pipe_ok_send split: option.splits list.splits)
next
  case DropWriter
  with assms show ?thesis
    by (auto simp: pipe_ok_def unsent_def split: if_splits)
next
  case StartRead
  with assms show ?thesis
    by (auto simp: pipe_ok_def bytes_read_def unsent_def read_returns_def read_pending_def pipe_channel_def split: if_splits)
next
  case (ReadTurn m)
  with assms show ?thesis by (auto intro: pipe_ok_turn split: if_splits)
next
  case DropReader
  with assms show ?thesis
    by (auto simp: pipe_ok_def unsent_def split: if_splits)
qed


lemma pipe_ok_run: "pipe_ok st \<Longrightarrow> pipe_run st ops = Some st' \<Longrightarrow> pipe_ok st'"
  by (induction ops arbitrary: st) (auto intro: pipe_ok_step split: option.splits)

lemma concat_bound: "list_all (\<lambda>c. length c \<le> n) cs \<Longrightarrow> length (concat cs) \<le> length cs * n"
  by (induction cs) auto

text \<open>C20: Whatever the order in which writer and reader get on, the bytes that reads returned are a
  beginning of the texts that writes were given, in order and without a gap; as long as the reader is there,
  the rest is in the channel or still to be sent, and no write is told that the reader is gone. The
  channel never holds more than sixteen chunks of four kilobytes. A reader at its end has read every byte,
  and the counts it reported add up to the bytes it returned.\<close>

theorem pipe_delivers_in_order:
  assumes "pipe_run pipe ops = Some st"
  shows "prefix (bytes_read st) (concat (ps_texts st))
    \<and> (ch_receiver (pipe_channel st) \<longrightarrow>
         concat (ps_texts st) = bytes_read st @ concat (ch_queue (pipe_channel st)) @ unsent st \<and> ReaderGone \<notin> set (ps_writes st))
    \<and> length (concat (ch_queue (pipe_channel st))) \<le> 65536
    \<and> (rd_ended (ps_reader st) \<longrightarrow> bytes_read st = concat (ps_texts st))
    \<and> sum_list (rd_observed (ps_reader st)) = length (bytes_read st)"
proof -
  note ok = pipe_ok_run [OF pipe_ok_new assms, unfolded pipe_ok_def]
  have "list_all (\<lambda>c. length c \<le> CHUNK_BYTES) (ch_queue (pipe_channel st))"
    using ok by (auto simp: chunk_ok_def list_all_iff)
  from concat_bound [OF this] ok
  have "length (concat (ch_queue (pipe_channel st))) \<le> CAPACITY_CHUNKS * CHUNK_BYTES"
    by (meson le_trans mult_le_mono1)
  then have "length (concat (ch_queue (pipe_channel st))) \<le> 65536" by (simp add: CAPACITY_CHUNKS_def CHUNK_BYTES_def)
  with ok show ?thesis by metis
qed

definition sample_moment :: moment where
  "sample_moment = \<lparr>mo_context = tree_new 0 default_limits (call_budget_new 1) (shell_threads_new 1), mo_now = 0, mo_stopped = False\<rparr>"

lemma sample_moment_guard: "rd_ended r \<Longrightarrow> read_guard sample_moment r = Some (Inr ReadEnd)" "\<not> rd_ended r \<Longrightarrow> read_guard sample_moment r = None"
  by (simp_all add: read_guard_def sample_moment_def tree_new_def is_cancelled_def check_deadline_def script_timer_elapsed_def
      instant_checked_add_def default_limits_def DEFAULT_TIMEOUT_def i64_max_def)

theorem pipe_delivers_in_order_witness:
  "\<exists>st. pipe_run pipe [StartWrite ''ab'', StartRead, SendChunk, ReadTurn sample_moment, DropWriter, StartRead,
      ReadTurn sample_moment] = Some st
    \<and> rd_ended (ps_reader st) \<and> concat (ps_texts st) = ''ab'' \<and> bytes_read st = concat (ps_texts st)"
proof -
  obtain st where st: "pipe_run pipe [StartWrite ''ab'', StartRead, SendChunk, ReadTurn sample_moment, DropWriter, StartRead,
      ReadTurn sample_moment] = Some st" and "rd_ended (ps_reader st)" "concat (ps_texts st) = ''ab''"
    by (simp add: pipe_def pipe_channel_def CHUNK_BYTES_def CAPACITY_CHUNKS_def write_on_def write_send_def channel_send_def
        set_channel_def read_returns_def read_pending_def read_turn_def sample_moment_guard)
  with pipe_delivers_in_order [OF st] show ?thesis by blast
qed

section \<open>Neither end waits for ever\<close>

lemma waiting_chunk_is_read:
  assumes "pipe_ok st" "ps_reading st" "ch_queue (pipe_channel st) = c # cs"
    and "\<not> mo_stopped m" "\<not> is_cancelled (mo_context m)" "check_deadline (mo_context m) (mo_now m) = Inr ()"
  shows "\<exists>st'. pipe_step st (ReadTurn m) = Some st' \<and> ps_reads st' = ps_reads st @ [Inr (ReadBytes c)]"
proof -
  have "\<not> rd_ended (ps_reader st)" "c \<noteq> []" using assms(1,3) by (auto simp: pipe_ok_def chunk_ok_def)
  then have "read_guard m (ps_reader st) = None" using assms(4-6) by (simp add: read_guard_def)
  with \<open>c \<noteq> []\<close> assms(1-3) show ?thesis
    by (auto simp: pipe_ok_def pipe_channel_def read_returns_def read_turn_def)
qed

lemma ending_read:
  assumes "pipe_ok st" "ps_reading st" "ch_queue (pipe_channel st) = []" "\<not> ch_sender (pipe_channel st)"
    and "\<not> mo_stopped m" "\<not> is_cancelled (mo_context m)" "check_deadline (mo_context m) (mo_now m) = Inr ()"
  shows "\<exists>n st'. n \<le> 2 \<and> pipe_run st (replicate n (ReadTurn m)) = Some st' \<and> ps_reads st' = ps_reads st @ [Inr ReadEnd]"
proof (cases "rd_ended (ps_reader st)")
  case True
  with assms(2,5) show ?thesis
    by (intro exI [of _ 1]) (simp add: read_turn_def read_guard_def read_returns_def)
next
  case False
  with assms show ?thesis
    by (intro exI [of _ 2])
      (auto simp: numeral_2_eq_2 read_turn_def read_guard_def read_returns_def pipe_channel_def pipe_ok_def)
qed

text \<open>A reader and a writer do not wait for each other. While a read is in its loop within the limits
  of its tree and not stopped: when a write is under way, the write can send its next chunk or the next turn
  of the read returns bytes; when the channel holds a chunk, the next turn returns it; when the writer is
  gone and the channel empty, the read ends after at most two turns, having read everything written.\<close>

theorem pipe_gets_on:
  assumes "pipe_run pipe ops = Some st" "ps_reading st"
    and "\<not> mo_stopped m" "\<not> is_cancelled (mo_context m)" "check_deadline (mo_context m) (mo_now m) = Inr ()"
  shows "(ps_writing st \<noteq> None \<longrightarrow> pipe_step st SendChunk \<noteq> None
        \<or> (\<exists>st' c. pipe_step st (ReadTurn m) = Some st' \<and> ps_reads st' = ps_reads st @ [Inr (ReadBytes c)]))
    \<and> (ch_queue (pipe_channel st) = c # cs \<longrightarrow>
        (\<exists>st'. pipe_step st (ReadTurn m) = Some st' \<and> ps_reads st' = ps_reads st @ [Inr (ReadBytes c)]))
    \<and> (\<not> ch_sender (pipe_channel st) \<and> ch_queue (pipe_channel st) = [] \<longrightarrow>
        (\<exists>n st'. n \<le> 2 \<and> pipe_run st (replicate n (ReadTurn m)) = Some st' \<and> ps_reads st' = ps_reads st @ [Inr ReadEnd]
          \<and> bytes_read st' = concat (ps_texts st)))"
proof (intro conjI impI)
  note ok = pipe_ok_run [OF pipe_ok_new assms(1)]
  show "\<exists>st'. pipe_step st (ReadTurn m) = Some st' \<and> ps_reads st' = ps_reads st @ [Inr (ReadBytes c)]"
    if "ch_queue (pipe_channel st) = c # cs" using waiting_chunk_is_read [OF ok assms(2) that assms(3-5)] .
  show "pipe_step st SendChunk \<noteq> None
        \<or> (\<exists>st' c. pipe_step st (ReadTurn m) = Some st' \<and> ps_reads st' = ps_reads st @ [Inr (ReadBytes c)])"
    if w: "ps_writing st \<noteq> None"
  proof (cases "ch_queue (pipe_channel st)")
    case Nil
    from w ok obtain chunk rest where "ps_writing st = Some (chunk # rest)"
      unfolding pipe_ok_def by (metis neq_Nil_conv option.exhaust_sel)
    with Nil show ?thesis by (simp add: write_send_def channel_send_def CAPACITY_CHUNKS_def)
  next
    case (Cons c cs)
    with waiting_chunk_is_read [OF ok assms(2) _ assms(3-5)] show ?thesis by blast
  qed
  assume e: "\<not> ch_sender (pipe_channel st) \<and> ch_queue (pipe_channel st) = []"
  then have "bytes_read st = concat (ps_texts st)"
    using ok assms(2) by (auto simp: pipe_ok_def unsent_def split: option.splits)
  with ending_read [OF ok assms(2) _ _ assms(3-5)] e
  show "\<exists>n st'. n \<le> 2 \<and> pipe_run st (replicate n (ReadTurn m)) = Some st' \<and> ps_reads st' = ps_reads st @ [Inr ReadEnd]
          \<and> bytes_read st' = concat (ps_texts st)"
    by (fastforce simp: bytes_read_def)
qed

theorem pipe_gets_on_witness:
  "\<exists>st. pipe_run pipe [StartWrite ''ab'', StartRead] = Some st \<and> ps_reading st \<and> ps_writing st \<noteq> None
    \<and> (pipe_step st SendChunk \<noteq> None
       \<or> (\<exists>st' c. pipe_step st (ReadTurn sample_moment) = Some st' \<and> ps_reads st' = ps_reads st @ [Inr (ReadBytes c)]))"
proof -
  obtain st where st: "pipe_run pipe [StartWrite ''ab'', StartRead] = Some st" "ps_reading st" "ps_writing st \<noteq> None"
    by (simp add: pipe_def pipe_channel_def CHUNK_BYTES_def write_on_def read_returns_def read_pending_def)
  have m: "\<not> mo_stopped sample_moment" "\<not> is_cancelled (mo_context sample_moment)"
    "check_deadline (mo_context sample_moment) (mo_now sample_moment) = Inr ()"
    by (simp_all add: sample_moment_def tree_new_def is_cancelled_def check_deadline_def script_timer_elapsed_def
        instant_checked_add_def default_limits_def DEFAULT_TIMEOUT_def i64_max_def)
  with pipe_gets_on [OF st(1,2) m] st show ?thesis by blast
qed

section \<open>A line is read whatever the chunks\<close>

text \<open>The first line of a text, with its line break when it has one.\<close>

definition first_line :: "string \<Rightarrow> string" where
  "first_line s = (case line_break s of None \<Rightarrow> s | Some offset \<Rightarrow> take (offset + 1) s)"

definition charges :: "charged_bytes \<Rightarrow> nat list" where
  "charges c = map rb_bytes (cby_charges c)"

text \<open>Reads that give a text and then its end.\<close>

definition supplies :: "read_result list \<Rightarrow> string \<Rightarrow> bool" where
  "supplies reads text \<longleftrightarrow>
     (\<exists>chunks n. reads = map (\<lambda>c. Inr (ReadBytes c)) chunks @ replicate n (Inr ReadEnd) \<and> text = concat chunks)"

text \<open>A line under way holds what it was charged for.\<close>

definition line_holds :: "nat \<Rightarrow> tree_context \<Rightarrow> charged_bytes \<Rightarrow> bool" where
  "line_holds base t line \<longleftrightarrow>
     tc_retained t = base + sum_list (charges line) \<and> sum_list (charges line) = length (cby_bytes line)
     \<and> tc_retained t \<le> retained_ceiling t"

lemma drop_charges:
  "tc_retained t = base + sum_list (map rb_bytes cs) \<Longrightarrow> tc_retained t \<le> u64_max \<Longrightarrow> tc_retained (foldl retained_drop t cs) = base"
proof (induction cs arbitrary: t)
  case (Cons c cs)
  then have "tc_retained (retained_drop t c) = base + sum_list (map rb_bytes cs)"
    by (simp add: retained_drop_def fetch_sub_exact)
  moreover have "tc_retained (retained_drop t c) \<le> u64_max" using Cons.prems calculation by simp
  ultimately show ?case using Cons.IH by simp
qed simp

lemma charged_drop_holds: "line_holds base t line \<Longrightarrow> tc_retained (charged_drop t line) = base"
  using drop_charges [of t base "cby_charges line"] by (simp add: line_holds_def charges_def charged_drop_def retained_ceiling_def)

lemma charged_extend_fits:
  assumes "line_holds base t line" "base + length (cby_bytes line @ chunk) \<le> retained_ceiling t"
  shows "\<exists>t' l. charged_extend t line chunk = (t', Inr l) \<and> cby_bytes l = cby_bytes line @ chunk \<and> line_holds base t' l
    \<and> tc_limits t' = tc_limits t"
  using assms by (auto simp: charged_extend_def retain_def fetch_add_within_def line_holds_def charges_def retained_ceiling_def)

lemma charged_extend_exceeds:
  assumes "line_holds base t line" "\<not> base + length (cby_bytes line @ chunk) \<le> retained_ceiling t"
  shows "\<exists>t'. charged_extend t line chunk = (t', Inl (ValueBytesExceeded (max_value_bytes (tc_limits t)))) \<and> tc_retained t' = base"
proof -
  have "retain t (length chunk) = (t, Inl (ValueBytesExceeded (max_value_bytes (tc_limits t))))"
    using assms by (auto simp: retain_def fetch_add_within_def line_holds_def retained_ceiling_def)
  then show ?thesis using charged_drop_holds [OF assms(1)] by (simp add: charged_extend_def)
qed

text \<open>What the loop returns when the line so far and the text to come are given.\<close>

definition line_result :: "nat \<Rightarrow> tree_context \<Rightarrow> string \<Rightarrow> string
    \<Rightarrow> line_state \<times> (limit_exceeded, charged_bytes option) result option \<Rightarrow> bool" where
  "line_result base t so_far text m \<longleftrightarrow>
     (case m of ((t', pending, reads), r) \<Rightarrow>
        let line = so_far @ first_line text
        in if base + length line \<le> retained_ceiling t
           then (\<exists>rest. supplies reads rest \<and> text = first_line text @ pending @ rest)
             \<and> tc_retained t' = base + length line
             \<and> (if line = [] then r = Some (Inr None)
                else (\<exists>l. r = Some (Inr (Some l)) \<and> cby_bytes l = line \<and> sum_list (charges l) = length line))
           else r = Some (Inl (ValueBytesExceeded (max_value_bytes (tc_limits t)))) \<and> tc_retained t' = base)"

declare read_line_loop.simps [simp del]

lemma first_line_append: "line_break a = None \<Longrightarrow> first_line (a @ b) = a @ first_line b"
proof -
  assume a: "line_break a = None"
  then have "takeWhile (\<lambda>c. c \<noteq> CHR 0x0A) (a @ b) = a @ takeWhile (\<lambda>c. c \<noteq> CHR 0x0A) b"
    by (intro takeWhile_append2) (auto simp: line_break_def split: if_splits)
  with a show ?thesis by (auto simp: first_line_def line_break_def split: if_splits)
qed

lemma takeWhile_shorter: "c \<in> set a \<Longrightarrow> length (takeWhile (\<lambda>b. b \<noteq> c) a) < length a"
  by (induction a) auto

lemma first_line_break: "line_break a = Some n \<Longrightarrow> first_line (a @ b) = take (n + 1) a \<and> n < length a"
  using takeWhile_shorter [of "CHR 0x0A" a]
  by (auto simp: first_line_def line_break_def takeWhile_append1 split: if_splits)

lemma take_drop_append: "take n p @ drop n p @ r = p @ r"
  by (simp flip: append_assoc)

lemma line_result_after:
  assumes "line_result base t' (so_far @ pending) text m" "line_break pending = None" "tc_limits t' = tc_limits t"
  shows "line_result base t so_far (pending @ text) m"
proof -
  have "retained_ceiling t' = retained_ceiling t" using assms(3) by (simp add: retained_ceiling_def)
  with assms show ?thesis by (auto simp: line_result_def first_line_append Let_def split: prod.splits if_splits)
qed

lemma supplies_cases:
  assumes "supplies reads input" "Inr ReadEnd \<in> set reads"
  obtains (bytes) c rest input' where "reads = Inr (ReadBytes c) # rest" "input = c @ input'" "supplies rest input'" "Inr ReadEnd \<in> set rest"
    | (finish) rest where "reads = Inr ReadEnd # rest" "input = []" "supplies rest []"
proof -
  from assms(1) obtain chunks n where r: "reads = map (\<lambda>c. Inr (ReadBytes c)) chunks @ replicate n (Inr ReadEnd)" "input = concat chunks"
    by (auto simp: supplies_def)
  show thesis
  proof (cases chunks)
    case Nil
    with r assms(2) obtain k where "n = Suc k" by (cases n) auto
    with Nil r show thesis by (intro finish [of "replicate k (Inr ReadEnd)"]) (auto simp: supplies_def intro: exI [of _ k])
  next
    case (Cons c cs)
    with r assms(2) show thesis by (intro bytes) (auto simp: supplies_def)
  qed
qed

lemma read_line_loop_result:
  assumes "line_holds base t line" "supplies reads input" "Inr ReadEnd \<in> set reads"
  shows "line_result base t (cby_bytes line) (pending @ input) (read_line_loop t pending line reads)"
  using assms
proof (induction reads arbitrary: t pending line input)
  case (Cons read reads)
  note holds = Cons.prems(1)
  show ?case
  proof (cases "line_break pending")
    case (Some n)
    note f = first_line_break [OF Some, of input]
    show ?thesis
    proof (cases "base + length (cby_bytes line @ take (n + 1) pending) \<le> retained_ceiling t")
      case True
      from charged_extend_fits [OF holds True] Cons.prems(2) f True show ?thesis
        by (auto simp: line_result_def read_line_loop.simps Some Let_def line_holds_def take_drop_append)
    next
      case False
      from charged_extend_exceeds [OF holds False] f False show ?thesis
        by (auto simp: line_result_def read_line_loop.simps Some Let_def)
    qed
  next
    case None
    show ?thesis
    proof (cases "base + length (cby_bytes line @ pending) \<le> retained_ceiling t")
      case True
      then obtain t' l where e: "charged_extend t line pending = (t', Inr l)" "cby_bytes l = cby_bytes line @ pending"
        "line_holds base t' l" "tc_limits t' = tc_limits t"
        using charged_extend_fits [OF holds True] by blast
      from Cons.prems(2,3) show ?thesis
      proof (cases rule: supplies_cases)
        case (bytes c rest input')
        with Cons.IH [OF e(3), of input' c] e None show ?thesis
          by (intro line_result_after [of base t' _ pending]) (auto simp: read_line_loop.simps [of t])
      next
        case (finish rest)
        have "retained_ceiling t' = retained_ceiling t" using e(4) by (simp add: retained_ceiling_def)
        with finish e None True charged_drop_holds [OF e(3)] show ?thesis
          by (auto simp: line_result_def read_line_loop.simps Let_def first_line_def line_holds_def)
      qed
    next
      case False
      from charged_extend_exceeds [OF holds False] False None show ?thesis
        by (auto simp: line_result_def read_line_loop.simps Let_def first_line_append)
    qed
  qed
qed simp

text \<open>Reading a line gives the first line of what is pending and what the reads will bring, with its
  line break, however the bytes are cut into reads; nothing only when there is nothing more; and it leaves
  exactly the rest. Its bytes are charged to the tree, each once. A line that would take the tree over its
  limit on retained bytes is refused, and then nothing stays charged.\<close>

theorem read_line_takes_first_line:
  assumes "supplies reads text" "Inr ReadEnd \<in> set reads" "tc_retained t \<le> retained_ceiling t"
  shows "\<exists>t' pending' reads' r. read_line t pending reads = ((t', pending', reads'), Some r)
    \<and> (let line = first_line (pending @ text)
       in if tc_retained t + length line \<le> retained_ceiling t
          then (\<exists>rest. supplies reads' rest \<and> pending @ text = line @ pending' @ rest)
            \<and> tc_retained t' = tc_retained t + length line
            \<and> (if line = [] then r = Inr None
               else (\<exists>l. r = Inr (Some l) \<and> cby_bytes l = line \<and> sum_list (charges l) = length line))
          else r = Inl (ValueBytesExceeded (max_value_bytes (tc_limits t))) \<and> tc_retained t' = tc_retained t)"
proof -
  have "line_holds (tc_retained t) t charged_new"
    using assms(3) by (simp add: line_holds_def charged_new_def charges_def)
  from read_line_loop_result [OF this assms(1,2), of pending] show ?thesis
    unfolding line_result_def read_line_def
    by (cases "read_line_loop t pending charged_new reads") (auto simp: charged_new_def Let_def split: if_splits)
qed

theorem read_line_takes_first_line_witness:
  "let t = tree_new 0 default_limits (call_budget_new 1) (shell_threads_new 1);
       reads = [Inr (ReadBytes [CHR ''b'', CHR 0x0A, CHR ''c'']), Inr ReadEnd]
   in \<exists>t' pending' reads' r l. read_line t ''a'' reads = ((t', pending', reads'), Some r)
      \<and> r = Inr (Some l) \<and> cby_bytes l = [CHR ''a'', CHR ''b'', CHR 0x0A] \<and> tc_retained t' = tc_retained t + 3"
proof -
  let ?t = "tree_new 0 default_limits (call_budget_new 1) (shell_threads_new 1)"
  let ?text = "[CHR ''b'', CHR 0x0A, CHR ''c'']"
  let ?reads = "[Inr (ReadBytes ?text), Inr ReadEnd] :: read_result list"
  have s: "supplies ?reads ?text"
    unfolding supplies_def by (intro exI [of _ "[?text]"] exI [of _ 1]) simp
  have c: "retained_ceiling ?t = 33554432" "tc_retained ?t = 0"
    by (simp_all add: retained_ceiling_def tree_new_def default_limits_def DEFAULT_MAX_VALUE_BYTES_def u64_max_def)
  have f: "first_line (''a'' @ ?text) = [CHR ''a'', CHR ''b'', CHR 0x0A]"
    by (simp add: first_line_def line_break_def)
  show ?thesis
    using read_line_takes_first_line [OF s, of ?t "''a''"] unfolding Let_def f c by auto
qed

end
