(* ===== verification/Spec2Isabelle.thy ===== *)
theory Spec2Isabelle
  imports Governor_Metering Broker_Invoke Http_Download Shell_Output Shell_Pattern Shell_Arith_Eval Gateway_Collector Gateway_Jobs Process_Pipe
begin

text \<open>
  Verification of dekopon, a gateway that lets language-model agents act for the people of a chat. A
  message reaches the gateway (\<open>crates/dekopon-gatewayd\<close>), which collects its pieces, runs an agent
  whose scripts are executed by a shell of its own (\<open>dekopon-shell\<close> on \<open>dekopon-process\<close>), meters
  what its model calls cost (\<open>dekopon-model-token-governor\<close>), and asks a broker
  (\<open>dekopon-broker\<close>, \<open>dekopon-broker-protocol\<close>, \<open>dekopon-capability\<close>, \<open>dekopon-policy\<close>)
  for everything the agent does to the world; what providers send goes
  through an HTTP host (\<open>dekopon-http-host\<close>), and they keep their files within the quotas of a storage
  host (\<open>dekopon-storage-host\<close>). The names of people, places, agents and secrets are those of
  \<open>dekopon-core\<close>.

  \<^bold>\<open>Vocabulary.\<close> \<open>Dekopon_Prelude\<close> has the integers of Rust with their ceilings and wrap-around, results as
  sums and the loops over fallible checks; \<open>Rust_Text\<close> has strings as lists of UTF-8 bytes, their
  characters, splitting and joining, and decimals. The release profile of the repository has no overflow
  checks, so arithmetic that is not checked or saturating wraps.

  \<^bold>\<open>Token governor.\<close> \<open>Governor_Meter\<close> models \<open>meter.rs\<close> (the four kinds of meter with \<open>check\<close>,
  \<open>charge\<close>, \<open>status\<close>, \<open>horizon\<close>), \<open>Governor_Laws\<close> states what a meter promises as the locale
  \<open>spend_meter\<close> and interprets it on the model, \<open>Governor_Waits\<close> shows what an announced wait is worth for one meter,
  \<open>Governor_Budget\<close> models \<open>budget.rs\<close> (reserve, settle, restore and the texts of a refusal) and
  \<open>Governor_Metering\<close> models \<open>metering.rs\<close> (admissions, their settlement and restore). In a
  reachable budget every meter has what calls in flight reserved, less what settled calls used beyond their
  reservations; the wait of a refusal is exact, or the call waits for others to end; reservations do not
  leak; a restored budget answers as one that never stopped. Times are
  below 2 to the 62 milliseconds and periods at most 2 to the 60, which keeps every product within
  \<open>i128\<close>; the bounds are hypotheses of the theorems and cover 146 million years.

  \<^bold>\<open>Names.\<close> \<open>Subject\<close> (\<open>subject.rs\<close>), \<open>Identifier\<close> (\<open>dekopon-core/src/lib.rs\<close>), \<open>Github_Facts\<close>
  (\<open>github.rs\<close>) and \<open>Conversation\<close> (\<open>conversation.rs\<close> and the claims of \<open>dekopon-broker-protocol\<close>)
  parse, print, compare and bound what identifies someone or something; the lemmas are round trips and
  injectivity of keys.

  \<^bold>\<open>Broker.\<close> \<open>Capability\<close> has the gate and request templates, \<open>Broker_Catalog\<close> the catalogs of
  constraints and secrets, \<open>Broker_Memory\<close> the configuration of chat memory, \<open>Broker_Policy\<close> how a
  question is put to the policy engine and merged, \<open>Broker_Authority\<close> what a peer and an invocation may do,
  \<open>Broker_Invoke\<close> the way from an attestation to the gate. The Cedar engine is a parameter, the function
  that decides one request. What is shown to an asker is exactly what it may invoke by the generic route, what passes the gate
  was allowed, and a resolved context speaks only for subjects its peer may attest.

  \<^bold>\<open>HTTP host.\<close> What an authorized invocation sends goes through \<open>dekopon-http-host\<close>.
  \<open>Http_Destination\<close> has addresses and the blocks that are not public, plaintext hosts and the settings a
  grant can reach; \<open>Http_Credential\<close> credentials bound to destinations and the scans of responses for
  them, with the locale \<open>echo_guard\<close> for what a scan promises, interpreted on the buffered and on the
  streamed one; \<open>Http_Request\<close> the checks before a request is sent and the filling of templates;
  \<open>Http_Host\<close> the client of one invocation with \<open>authorize_request\<close>, \<open>accept_head\<close>, \<open>execute\<close>
  and \<open>send\<close>; \<open>Http_Stream\<close> streamed bodies, spools with the budget of disk bytes they share, and
  \<open>stream\<close>; \<open>Http_Redactor\<close> and \<open>Http_Download\<close> (\<open>signed_download.rs\<close>) the downloads that
  GitHub signs, with the redaction of its answers and the scan around the window that is returned. The crates url, http, percent-encoding, base64 and reqwest are parameters, as are name
  lookup, clock, network and disk: a network is the function from a request to an outcome, and a body is
  the list of pieces that its decoder yields. The law on URLs is that rewriting path and query changes nothing
  else and that plain segments (no dot segment, tab or line break, no empty first one before others) can be
  read back; those on base 64 and on the search for several patterns are the documented ones. An instance
  satisfies each of them. Files of a streamed body are read through \<open>read_decoded\<close>, as they are or in
  base 64. A request is sent only within its grant, to permitted addresses and
  with the credential only where it is bound; what comes back is bounded and free of secrets.

  \<^bold>\<open>Storage.\<close> \<open>Storage_Quota\<close> models the limits and the ledger of \<open>quota.rs\<close> as operations on one state;
  in every reachable state stored and reserved amounts stay within the limits.

  \<^bold>\<open>Processes and shell.\<close> \<open>Process_Tree\<close> models limits, exit codes and the shared counters of a tree of
  scripts (\<open>tree.rs\<close>, \<open>threads.rs\<close>) with the locale \<open>pool\<close> for what a counter within a maximum
  promises, interpreted on bytes, calls and threads. \<open>Process_Pipe\<close> (\<open>pipe.rs\<close>) has the pipes
  between them: sends and turns of a read are steps that interleave, nothing is lost or reordered, neither
  side waits for the other for ever, and lines are charged to the tree. \<open>Shell_Deadline\<close> is the effect of reading a limit that,
  once reached, stays reached: a computation is given how many reads still succeed, and \<open>settles\<close> says
  what it returns for every such number, so no fuel is chosen. \<open>Shell_Output\<close> (\<open>limits.rs\<close>) refines the
  bounded buffer, as fragments and blocks are written to it, to a specification on the lines of the whole text; byte counts are at most 2 to the 61.
  \<open>Shell_Pattern\<close> (\<open>interp/case_pattern.rs\<close>) shows the row-by-row matcher equal to a recursive
  meaning. \<open>Shell_Arith\<close> (\<open>parser.rs\<close>, \<open>parser/depth.rs\<close>, \<open>ast.rs\<close>) parses arithmetic:
  the number given to \<open>parse_or\<close> is the nesting limit 64 of the code and is shown to suffice for every text;
  printing and parsing are inverse. \<open>Shell_Arith_Eval\<close> (\<open>interp.rs\<close>) evaluates it; the operations of
  \<open>f64\<close> are a parameter with the law of IEEE 754 that the theorems use, which an instance satisfies.

  \<^bold>\<open>Gateway.\<close> \<open>Gateway_Message\<close> (\<open>transport.rs\<close>) has messages and the bounds of their texts,
  \<open>Gateway_Collector\<close> (\<open>collection.rs\<close>) the batches in which pieces of a message wait, as histories of
  operations, \<open>Gateway_Jobs\<close> (\<open>jobs.rs\<close>) the table of background jobs as a step relation in which each
  critical section of its lock is one step. 

  \<^bold>\<open>Across components.\<close> This theory composes the parser and the evaluator of arithmetic.

  \<^bold>\<open>Found while modelling.\<close> A delivered turn may exceed its bound by its marker (\<open>Conversation\<close>); a
  line of output that is cut may carry no mark (\<open>Shell_Output\<close>); integers are compared as floats
  (\<open>Shell_Arith_Eval\<close>); the end of a job can be lost between a wait and its notice (\<open>Gateway_Jobs\<close>).

  \<^bold>\<open>Not modelled.\<close> Network clients and servers, model services, the WebAssembly host,
  the decoders of compressed bodies, files and their locks, configuration files, telemetry and user
  interfaces: they are I/O or rest on libraries that are not part of the repository. The lexer and the command grammar of the shell, its interpreter loop and
  its builtins, wakes and the memory journal are left for later, in that order.
\<close>

section \<open>Arithmetic expansion\<close>

text \<open>C26: writing a sum, difference or product of integer variables and literals as the text of an
  arithmetic expansion, parsing it and evaluating what was parsed gives the mathematical value reduced
  once to 64 bits, whatever the precedence and however deep, unless the steps of the script run out first.\<close>

theorem expansion_computes_ring_value:
  assumes "well_built x" "printable_expr x"
    and "nesting d + paren_depth 1 x \<le> MAX_NESTING_DEPTH" "length (print_arith 1 x) < MAX_ARITHMETIC_TOKENS"
    and "f64_laws F" "integer_expr F vars e x" "exact_value e x = Some m"
  shows "\<exists>y. parse_arithmetic (f_parse F) (show_tokens (print_arith 1 x)) line d = Some (Inr y)
    \<and> settles OutOfSteps (evaluate_arithmetic F vars y) (Inr (NInteger (wrap_i64 m)))"
proof -
  have "settles OutOfSteps (evaluate_arithmetic F vars x) (Inr (NInteger (wrap_i64 m)))"
    using evaluate_integer_expr [OF assms(5,6)] integer_value_wraps [OF assms(6,7), of round53] by simp
  with printed_parses [OF assms(1-4), of "f_parse F" line] show ?thesis by blast
qed

text \<open>The text \<open>( $x + 1 ) * 2\<close> where \<open>x\<close> holds the largest integer.\<close>

theorem expansion_computes_ring_value_witness:
  fixes x :: "int arith_expr" and vars :: "int variables"
  defines "x \<equiv> Binary Multiply (Binary Add (Variable ''x'' 0) (Integer 1 0) 1) (Integer 2 0) 2"
    and "vars \<equiv> \<lparr>v_frames = [], v_globals = [(''x'', VInteger i64_max)]\<rparr>"
  shows "\<exists>y. parse_arithmetic (f_parse integer_floats) (show_tokens (print_arith 1 x)) 1 \<lparr>d_lexer = 0, d_block = 1\<rparr> = Some (Inr y)
    \<and> settles OutOfSteps (evaluate_arithmetic integer_floats vars y) (Inr (NInteger 0))"
proof -
  have "parse_u64 ''x'' = None" by (simp add: parse_u64_def is_ascii_digit_def)
  then have "variable_number integer_floats vars ''x'' = NInteger i64_max"
    by (simp add: variable_number_def lookup_def vars_def to_number_def in_i64_def i64_min_def i64_max_def)
  moreover have "wrap_i64 ((i64_max + 1) * 2) = 0" by (simp add: wrap_i64_def i64_max_def)
  ultimately show ?thesis
    using expansion_computes_ring_value [of x "\<lparr>d_lexer = 0, d_block = 1\<rparr>" integer_floats vars "\<lambda>_. i64_max" "(i64_max + 1) * 2" 1]
      integer_floats_laws
    by (simp add: x_def parens_def nesting_def MAX_NESTING_DEPTH_def MAX_ARITHMETIC_TOKENS_def is_name_byte_def
        is_ascii_alphanumeric_def is_ascii_lowercase_def in_i64_def i64_min_def i64_max_def)
qed

end
